(* ===== verification/Gq_Prelude.thy ===== *)
theory Gq_Prelude
  imports Main "HOL-Library.Word"
begin

text \<open>
  The prelude of the gigaquizz development: the theorem collections of the library, the
  Go integers, clock values and byte buffers every component uses, and the generic facts
  about them.

  Clock values (Go's \<^verbatim>\<open>time.Time\<close>) are \<open>int\<close>: nanoseconds since the Unix epoch, in
  UTC. A Go clock value may also carry a monotonic reading; the code strips it where it
  matters (\<^verbatim>\<open>UTC()\<close>, \<^verbatim>\<open>Round(0)\<close>), and the model has the wall clock only. A buffer
  (\<^verbatim>\<open>[]byte\<close>) is a list of 8-bit words; writing into a sub-slice is \<open>poke\<close>, reading
  one is \<open>subslice\<close>, and their algebra (\<open>subslice_poke\<close> and its kin) is what the codec
  proofs rest on.
\<close>

unbundle bit_operations_syntax

named_theorems codec_simps "facts about encoders, decoders, slices and pokes"
named_theorems inv_simps "definitions and field facts of component invariants"

type_synonym byte = "8 word"
type_synonym u8 = "8 word"
type_synonym u32 = "32 word"
type_synonym u64 = "64 word"
type_synonym time = int
type_synonym duration = int

section \<open>Clock values and durations\<close>

abbreviation nanosecond :: duration where "nanosecond \<equiv> 1"
abbreviation microsecond :: duration where "microsecond \<equiv> 1000"
abbreviation millisecond :: duration where "millisecond \<equiv> 1000000"
abbreviation second :: duration where "second \<equiv> 1000000000"
abbreviation minute :: duration where "minute \<equiv> 60000000000"
abbreviation hour :: duration where "hour \<equiv> 3600000000000"

text \<open>\<^verbatim>\<open>t.Sub(u)\<close> saturates at the bounds of an int64.\<close>

definition time_sub :: "time \<Rightarrow> time \<Rightarrow> duration" where
  "time_sub t u = max (- (2 ^ 63)) (min (2 ^ 63 - 1) (t - u))"

text \<open>Midnight of 1 January of a year of the proleptic Gregorian calendar, in UTC.\<close>

definition jan1 :: "int \<Rightarrow> time" where
  "jan1 y = (365 * (y - 1) + (y - 1) div 4 - (y - 1) div 100 + (y - 1) div 400 - 719162)
     * 86400 * second"

definition is_zero_time :: "time \<Rightarrow> bool" where
  "is_zero_time t \<longleftrightarrow> t = jan1 1"

text \<open>
  \<^verbatim>\<open>t.UnixNano()\<close> is an int64 (its bits are kept here as a 64-bit word);
  \<^verbatim>\<open>time.Unix(0, int64(w)).UTC()\<close> reads such a word back as a signed count.
\<close>

definition unixNano :: "time \<Rightarrow> u64" where
  "unixNano t = word_of_int t"

definition timeOfNano :: "u64 \<Rightarrow> time" where
  "timeOfNano w = sint w"

definition nano_range :: "time \<Rightarrow> bool" where
  "nano_range t \<longleftrightarrow> - (2 ^ 63) \<le> t \<and> t < 2 ^ 63"

lemma timeOfNano_unixNano [codec_simps]: "nano_range t \<Longrightarrow> timeOfNano (unixNano t) = t"
  by (simp add: timeOfNano_def unixNano_def nano_range_def signed_take_bit_int_eq_self sint_sbintrunc')

lemma nano_range_between:
  "nano_range a \<Longrightarrow> nano_range b \<Longrightarrow> a \<le> t \<Longrightarrow> t < b \<Longrightarrow> nano_range t"
  by (auto simp: nano_range_def)

lemma time_sub_minute: "time_sub e s = minute \<longleftrightarrow> e = s + minute"
  by (auto simp: time_sub_def)

section \<open>Bits\<close>

text \<open>\<^verbatim>\<open>bits.OnesCount32\<close>, \<^verbatim>\<open>bits.TrailingZeros32\<close> and \<^verbatim>\<open>bits.Len64\<close>.\<close>

definition onesCount32 :: "u32 \<Rightarrow> nat" where
  "onesCount32 w = length (filter (bit w) [0..<32])"

definition trailingZeros32 :: "u32 \<Rightarrow> nat" where
  "trailingZeros32 w = (case filter (bit w) [0..<32] of [] \<Rightarrow> 32 | i # _ \<Rightarrow> i)"

definition len64 :: "u64 \<Rightarrow> nat" where
  "len64 w = (case filter (bit w) (rev [0..<64]) of [] \<Rightarrow> 0 | i # _ \<Rightarrow> Suc i)"

lemma xor_cancel_right: "a XOR c = b XOR c \<longleftrightarrow> (a :: 'a::len word) = b"
  by (metis xor.assoc xor_self_eq xor.right_neutral)

lemma xor_cancel_left: "c XOR a = c XOR b \<longleftrightarrow> (a :: 'a::len word) = b"
  by (metis xor.commute xor_cancel_right)

section \<open>Buffers: slices and pokes\<close>

definition subslice :: "nat \<Rightarrow> nat \<Rightarrow> 'a list \<Rightarrow> 'a list" where
  "subslice i j b = take (j - i) (drop i b)"

definition poke :: "nat \<Rightarrow> 'a list \<Rightarrow> 'a list \<Rightarrow> 'a list" where
  "poke i xs b = take i b @ xs @ drop (i + length xs) b"

lemma length_subslice [codec_simps]: "j \<le> length b \<Longrightarrow> length (subslice i j b) = j - i"
  by (simp add: subslice_def)

lemma length_poke [codec_simps]: "i + length xs \<le> length b \<Longrightarrow> length (poke i xs b) = length b"
  by (simp add: poke_def)

lemma subslice_poke [codec_simps]:
  "i + length xs \<le> length b \<Longrightarrow> j = i + length xs \<Longrightarrow> subslice i j (poke i xs b) = xs"
  by (simp add: subslice_def poke_def)

lemma subslice_poke_below [codec_simps]:
  "j \<le> k \<Longrightarrow> k \<le> length b \<Longrightarrow> subslice i j (poke k xs b) = subslice i j b"
  by (cases "i \<le> j") (simp_all add: subslice_def poke_def take_drop min_def)

lemma subslice_poke_above [codec_simps]:
  "k + length xs \<le> i \<Longrightarrow> k + length xs \<le> length b \<Longrightarrow> subslice i j (poke k xs b) = subslice i j b"
  by (simp add: subslice_def poke_def)

lemma drop_poke_above [codec_simps]:
  "k + length xs \<le> i \<Longrightarrow> k + length xs \<le> length b \<Longrightarrow> drop i (poke k xs b) = drop i b"
  by (simp add: poke_def)

lemma take_poke_below [codec_simps]: "j \<le> k \<Longrightarrow> k \<le> length b \<Longrightarrow> take j (poke k xs b) = take j b"
  by (simp add: poke_def min_def)

lemma nth_poke_below [codec_simps]: "j < k \<Longrightarrow> k \<le> length b \<Longrightarrow> poke k xs b ! j = b ! j"
  by (simp add: poke_def nth_append)

lemma nth_poke_above [codec_simps]:
  "k + length xs \<le> j \<Longrightarrow> j < length b \<Longrightarrow> poke k xs b ! j = b ! j"
  by (auto simp: poke_def nth_append)

lemma subslice_update_below [codec_simps]: "k < i \<Longrightarrow> subslice i j (b[k := x]) = subslice i j b"
  by (simp add: subslice_def)

lemma subslice_update_above [codec_simps]: "j \<le> k \<Longrightarrow> subslice i j (b[k := x]) = subslice i j b"
  by (cases "i \<le> j") (simp_all add: subslice_def take_drop)

lemma subslice_append_left [codec_simps]: "j \<le> length a \<Longrightarrow> subslice i j (a @ b) = subslice i j a"
  by (simp add: subslice_def)

lemma subslice_append_right [codec_simps]:
  "length a \<le> i \<Longrightarrow> subslice i j (a @ b) = subslice (i - length a) (j - length a) b"
  by (simp add: subslice_def)

lemma subslice_replicate [codec_simps]:
  "j \<le> n \<Longrightarrow> subslice i j (replicate n x) = replicate (j - i) x"
  by (simp add: subslice_def)

lemma subslice_all [codec_simps]: "j = length b \<Longrightarrow> subslice 0 j b = b"
  by (simp add: subslice_def)

lemma subslice_take [codec_simps]: "j \<le> n \<Longrightarrow> subslice i j (take n b) = subslice i j b"
  by (simp add: subslice_def drop_take)

lemma subslice_drop: "subslice i j (drop k b) = subslice (k + i) (k + j) b"
  by (simp add: subslice_def add.commute)

lemma subslice_full [codec_simps]: "subslice i j b @ drop j b = drop i b" if "i \<le> j"
proof -
  have "take (j - i) (drop i b) @ drop (j - i) (drop i b) = drop i b"
    by (rule append_take_drop_id)
  with that show ?thesis by (simp add: subslice_def)
qed

lemma take_subslice: "i \<le> j \<Longrightarrow> take i b @ subslice i j b = take j b"
  using take_add [of i "j - i" b] by (simp add: subslice_def)

lemma subslice_join: "i \<le> j \<Longrightarrow> j \<le> k \<Longrightarrow> subslice i j b @ subslice j k b = subslice i k b"
  using take_add [of "j - i" "k - j" "drop i b"] by (simp add: subslice_def)

section \<open>Step relations and their invariants\<close>

text \<open>
  The contract between a component's step relation and its invariant. Each state machine
  of the development interprets it, and reads off what holds in every reachable state.
\<close>

locale transition_system =
  fixes initial :: "'s \<Rightarrow> bool"
    and step :: "'s \<Rightarrow> 's \<Rightarrow> bool"
    and invariant :: "'s \<Rightarrow> bool"
  assumes invariant_initial: "initial s \<Longrightarrow> invariant s"
    and invariant_step: "step s t \<Longrightarrow> invariant s \<Longrightarrow> invariant t"
begin

lemma invariant_run: "step\<^sup>*\<^sup>* s t \<Longrightarrow> invariant s \<Longrightarrow> invariant t"
  by (induction rule: rtranclp_induct) (auto intro: invariant_step)

lemma invariant_reachable: "initial s \<Longrightarrow> step\<^sup>*\<^sup>* s t \<Longrightarrow> invariant t"
  by (blast intro: invariant_run invariant_initial)

end

text \<open>Two reachable states of one run, where a relation between them is kept by every step.\<close>

locale monotone_steps =
  fixes step :: "'s \<Rightarrow> 's \<Rightarrow> bool"
    and rel :: "'s \<Rightarrow> 's \<Rightarrow> bool"
  assumes rel_refl: "rel s s"
    and rel_trans: "rel s t \<Longrightarrow> rel t u \<Longrightarrow> rel s u"
    and rel_step: "step s t \<Longrightarrow> rel s t"
begin

lemma rel_run: "step\<^sup>*\<^sup>* s t \<Longrightarrow> rel s t"
  by (induction rule: rtranclp_induct) (auto intro: rel_refl rel_trans rel_step)

end

section \<open>Lists and maps\<close>

lemma list_all_nth_conv: "list_all P xs \<longleftrightarrow> (\<forall>i < length xs. P (xs ! i))"
  by (simp add: list_all_length)

lemma sum_list_update_nat:
  "i < length (xs :: nat list) \<Longrightarrow> sum_list (xs[i := x]) + xs ! i = sum_list xs + x"
  by (induction xs arbitrary: i) (auto split: nat.splits)

lemma distinct_filter_bit: "distinct (filter P [a..<b])"
  by simp

end
