(* ===== verification/Go_Bytes.thy ===== *)
theory Go_Bytes
  imports Gq_Prelude
begin

text \<open>
  Go's \<^verbatim>\<open>encoding/binary\<close> byte orders, once for every width: \<open>put_be n w\<close> are the \<open>n\<close>
  bytes \<^verbatim>\<open>BigEndian.PutUint..\<close> writes, \<open>get_be\<close> what \<^verbatim>\<open>BigEndian.Uint..\<close> reads, and
  \<open>put_le\<close>, \<open>get_le\<close> the little-endian ones. The locale \<open>fixed_codec\<close> is the contract
  of every fixed-width field and record codec of the program.
\<close>

definition put_be :: "nat \<Rightarrow> 'a::len word \<Rightarrow> byte list" where
  "put_be n w = map (\<lambda>i. ucast (drop_bit (8 * i) w)) (rev [0..<n])"

definition get_be :: "byte list \<Rightarrow> 'a::len word" where
  "get_be bs = foldl (\<lambda>acc b. push_bit 8 acc OR ucast b) 0 bs"

definition put_le :: "nat \<Rightarrow> 'a::len word \<Rightarrow> byte list" where
  "put_le n w = rev (put_be n w)"

definition get_le :: "byte list \<Rightarrow> 'a::len word" where
  "get_le bs = get_be (rev bs)"

lemma length_put_be [simp]: "length (put_be n w) = n"
  by (simp add: put_be_def)

lemma length_put_le [simp]: "length (put_le n w) = n"
  by (simp add: put_le_def)

lemma get_be_snoc: "get_be (bs @ [b]) = push_bit 8 (get_be bs) OR ucast b"
  by (simp add: get_be_def)

lemma get_be_Nil [simp]: "get_be [] = 0"
  by (simp add: get_be_def)

lemma bit_get_be:
  "bit (get_be bs :: 'a::len word) k \<longleftrightarrow>
     k < LENGTH('a) \<and> k < 8 * length bs \<and> bit (rev bs ! (k div 8)) (k mod 8)"
proof (induction bs arbitrary: k rule: rev_induct)
  case Nil
  then show ?case by simp
next
  case (snoc b bs)
  show ?case
  proof (cases "k < 8")
    case True
    then show ?thesis
      by (auto simp: get_be_snoc bit_simps)
  next
    case False
    then obtain m where m: "k = m + 8" by (metis add.commute le_Suc_ex not_less)
    have "\<not> bit b (m + 8)"
      using bit_imp_le_length [of b "m + 8"] by auto
    moreover have "(m + 8) div 8 = Suc (m div 8)" by simp
    ultimately show ?thesis using m
      by (auto simp: get_be_snoc bit_simps snoc.IH)
  qed
qed

lemma nth_rev_put_be: "i < n \<Longrightarrow> rev (put_be n w) ! i = ucast (drop_bit (8 * i) w)"
  by (simp add: put_be_def rev_map)

lemma get_be_put_be [codec_simps]:
  fixes w :: "'a::len word"
  assumes "LENGTH('a) \<le> 8 * n"
  shows "get_be (put_be n w) = w"
proof (rule bit_word_eqI)
  fix k assume k: "k < LENGTH('a)"
  with assms have "k div 8 < n" by auto
  then show "bit (get_be (put_be n w) :: 'a word) k \<longleftrightarrow> bit w k"
    using k assms by (simp add: bit_get_be nth_rev_put_be bit_simps)
qed

lemma put_be_get_be:
  assumes "8 * length bs \<le> LENGTH('a::len)"
  shows "put_be (length bs) (get_be bs :: 'a word) = bs"
proof -
  have "rev (put_be (length bs) (get_be bs :: 'a word)) = rev bs"
  proof (rule nth_equalityI)
    fix i assume "i < length (rev (put_be (length bs) (get_be bs :: 'a word)))"
    then have i: "i < length bs" by simp
    show "rev (put_be (length bs) (get_be bs :: 'a word)) ! i = rev bs ! i"
    proof (rule bit_word_eqI)
      fix k assume k: "k < LENGTH(8)"
      then have "8 * i + k < 8 * length bs" using i by auto
      with k assms i show "bit (rev (put_be (length bs) (get_be bs :: 'a word)) ! i) k \<longleftrightarrow>
          bit (rev bs ! i) k"
        by (simp add: nth_rev_put_be bit_simps bit_get_be)
    qed
  qed simp
  then show ?thesis by simp
qed

lemma get_le_put_le [codec_simps]:
  "LENGTH('a::len) \<le> 8 * n \<Longrightarrow> get_le (put_le n (w :: 'a word)) = w"
  by (simp add: get_le_def put_le_def get_be_put_be)

lemma put_le_get_le:
  "8 * length bs \<le> LENGTH('a::len) \<Longrightarrow> put_le (length bs) (get_le bs :: 'a word) = bs"
  using put_be_get_be [of "rev bs", where 'a = 'a] by (simp add: put_le_def get_le_def)

section \<open>Zero buffers and identifiers\<close>

text \<open>A \<^verbatim>\<open>[16]byte\<close> identifier (a poll ID or a voter token), and its zero value.\<close>

definition is_id16 :: "byte list \<Rightarrow> bool" where
  "is_id16 t \<longleftrightarrow> length t = 16"

definition zero16 :: "byte list" where
  "zero16 = replicate 16 0"

lemma length_zero16 [simp]: "length zero16 = 16"
  by (simp add: zero16_def)

section \<open>Fixed-width codecs\<close>

text \<open>
  A fixed-width codec writes every valid value in exactly \<open>width\<close> bytes and reads it
  back. What a client needs of one (a table of records is cut at the right places and
  read back whole) is proved once here.
\<close>

fun chunks :: "nat \<Rightarrow> nat \<Rightarrow> 'a list \<Rightarrow> 'a list list" where
  "chunks w 0 bs = []"
| "chunks w (Suc n) bs = take w bs # chunks w n (drop w bs)"

lemma length_chunks [simp]: "length (chunks w n bs) = n"
  by (induction w n bs rule: chunks.induct) auto

lemma chunks_concat:
  "(\<And>x. x \<in> set xss \<Longrightarrow> length x = w) \<Longrightarrow> chunks w (length xss) (concat xss @ rest) = xss"
  by (induction xss) auto

lemma length_concat_fixed:
  "(\<And>x. x \<in> set xss \<Longrightarrow> length x = w) \<Longrightarrow> length (concat xss) = length xss * w"
  by (induction xss) auto

lemma nth_chunks:
  "i < n \<Longrightarrow> chunks w n bs ! i = subslice (i * w) ((i + 1) * w) bs"
proof (induction w n bs arbitrary: i rule: chunks.induct)
  case (1 w bs)
  then show ?case by simp
next
  case (2 w n bs)
  then show ?case by (cases i) (simp_all add: subslice_def add.commute)
qed

locale fixed_codec =
  fixes enc :: "'v \<Rightarrow> byte list"
    and dec :: "byte list \<Rightarrow> 'v"
    and valid :: "'v \<Rightarrow> bool"
    and width :: nat
  assumes enc_width: "valid v \<Longrightarrow> length (enc v) = width"
    and dec_enc: "valid v \<Longrightarrow> dec (enc v) = v"
begin

lemma enc_inj: "valid v \<Longrightarrow> valid w \<Longrightarrow> enc v = enc w \<Longrightarrow> v = w"
  by (metis dec_enc)

lemma table_width: "list_all valid vs \<Longrightarrow> length (concat (map enc vs)) = length vs * width"
  by (induction vs) (auto simp: enc_width)

lemma table_chunks:
  "list_all valid vs \<Longrightarrow> chunks width (length vs) (concat (map enc vs) @ rest) = map enc vs"
  by (induction vs) (auto simp: enc_width)

lemma table_roundtrip:
  "list_all valid vs \<Longrightarrow>
     map dec (chunks width (length vs) (concat (map enc vs) @ rest)) = vs"
  by (simp add: table_chunks list_all_iff dec_enc map_idI)

lemma table_nth:
  assumes "list_all valid vs" and "i < length vs"
  shows "dec (subslice (i * width) ((i + 1) * width) (concat (map enc vs) @ rest)) = vs ! i"
proof -
  have "subslice (i * width) ((i + 1) * width) (concat (map enc vs) @ rest)
      = chunks width (length vs) (concat (map enc vs) @ rest) ! i"
    using assms(2) by (simp add: nth_chunks)
  also have "\<dots> = enc (vs ! i)"
    using assms by (simp add: table_chunks)
  finally show ?thesis
    using assms by (simp add: dec_enc list_all_iff)
qed

end

interpretation be32: fixed_codec "put_be 4 :: u32 \<Rightarrow> byte list" get_be "\<lambda>_. True" 4
  by unfold_locales (simp_all add: get_be_put_be)

interpretation be64: fixed_codec "put_be 8 :: u64 \<Rightarrow> byte list" get_be "\<lambda>_. True" 8
  by unfold_locales (simp_all add: get_be_put_be)

interpretation le32: fixed_codec "put_le 4 :: u32 \<Rightarrow> byte list" get_le "\<lambda>_. True" 4
  by unfold_locales (simp_all add: get_le_put_le)

interpretation le64: fixed_codec "put_le 8 :: u64 \<Rightarrow> byte list" get_le "\<lambda>_. True" 8
  by unfold_locales (simp_all add: get_le_put_le)

end
