(* ===== verification/Go_Crypto.thy ===== *)
theory Go_Crypto
  imports Go_Bytes
begin

text \<open>
  The two digests of Go's standard library the program relies on: \<^verbatim>\<open>hash/crc32\<close> with
  the Castagnoli table (the integrity of the file journal) and \<^verbatim>\<open>crypto/sha256\<close> (the
  routing of a voter token to a partition or shard, the session keys). Both are written
  out, so that every definition of the program that uses them computes. For CRC-32C the
  theory proves the guarantee the journal relies on: a change confined to four
  consecutive bytes is always detected.
\<close>

unbundle bit_operations_syntax

section \<open>CRC-32C\<close>

definition crc_poly :: u32 where "crc_poly = 0x82f63b78"

definition crc_bit :: "u32 \<Rightarrow> u32" where
  "crc_bit c = (if bit c 0 then drop_bit 1 c XOR crc_poly else drop_bit 1 c)"

text \<open>The table entry of a byte, and one step of \<^verbatim>\<open>crc32.Update\<close>.\<close>

definition crc_entry :: "byte \<Rightarrow> u32" where
  "crc_entry b = (crc_bit ^^ 8) (ucast b)"

definition crc_byte :: "u32 \<Rightarrow> byte \<Rightarrow> u32" where
  "crc_byte c b = crc_entry (ucast c XOR b) XOR drop_bit 8 c"

definition crc32c :: "byte list \<Rightarrow> u32" where
  "crc32c bs = NOT (foldl crc_byte (NOT 0) bs)"

lemma crc_poly_bits: "bit crc_poly 31" "\<not> bit crc_poly 0"
  by (simp_all add: crc_poly_def)

lemma crc_bit_xor: "crc_bit (a XOR b) = crc_bit a XOR crc_bit b"
  by (rule bit_word_eqI) (auto simp: crc_bit_def bit_simps)

lemma crc_bit_top: "bit (crc_bit c) 31 \<longleftrightarrow> bit c 0"
  using crc_poly_bits(1) by (auto simp: crc_bit_def bit_simps dest: bit_imp_le_length)

lemma inj_crc_bit: "crc_bit a = crc_bit b \<Longrightarrow> a = b"
proof -
  assume eq: "crc_bit a = crc_bit b"
  then have low: "bit a 0 = bit b 0" by (metis crc_bit_top)
  with eq have sh: "drop_bit 1 a = drop_bit 1 b"
    by (auto simp: crc_bit_def xor_cancel_right split: if_splits)
  show "a = b"
  proof (rule bit_word_eqI)
    fix n
    show "bit a n = bit b n"
    proof (cases n)
      case 0
      with low show ?thesis by simp
    next
      case (Suc m)
      have "bit (drop_bit 1 a) m = bit (drop_bit 1 b) m" using sh by simp
      with Suc show ?thesis by (simp add: bit_simps)
    qed
  qed
qed

lemma crc_bits_xor: "(crc_bit ^^ n) (a XOR b) = (crc_bit ^^ n) a XOR (crc_bit ^^ n) b"
  by (induction n) (simp_all add: crc_bit_xor)

lemma inj_crc_bits: "(crc_bit ^^ n) a = (crc_bit ^^ n) b \<Longrightarrow> a = b"
  by (induction n) (auto dest: inj_crc_bit)

lemma crc_bits_low_zero: "(\<And>k. k < n \<Longrightarrow> \<not> bit c k) \<Longrightarrow> (crc_bit ^^ n) c = drop_bit n c"
proof (induction n)
  case 0
  then show ?case by simp
next
  case (Suc n)
  then have IH: "(crc_bit ^^ n) c = drop_bit n c" by simp
  from Suc.prems [of n] have "\<not> bit (drop_bit n c) 0" by (simp add: bit_simps)
  then have "crc_bit (drop_bit n c) = drop_bit (Suc n) c"
    by (simp add: crc_bit_def)
  with IH show ?case by simp
qed

lemma crc_byte_eq: "crc_byte c b = (crc_bit ^^ 8) (c XOR ucast b)"
proof -
  let ?hi = "c AND NOT (mask 8)"
  have split: "c XOR ucast b = ucast (ucast c XOR b :: byte) XOR ?hi"
    by (rule bit_word_eqI)
      (auto simp: bit_simps dest: bit_imp_le_length)
  have "(crc_bit ^^ 8) ?hi = drop_bit 8 ?hi"
    by (rule crc_bits_low_zero) (auto simp: bit_simps)
  also have "drop_bit 8 ?hi = drop_bit 8 c"
    by (rule bit_word_eqI) (auto simp: bit_simps dest: bit_imp_le_length)
  finally show ?thesis
    by (simp only: crc_byte_def crc_entry_def split crc_bits_xor)
qed

lemma inj_crc_byte_state: "crc_byte c b = crc_byte d b \<Longrightarrow> c = d"
proof -
  assume "crc_byte c b = crc_byte d b"
  then have "c XOR ucast b = d XOR ucast b"
    by (auto simp: crc_byte_eq dest: inj_crc_bits)
  then show "c = d" by (simp add: xor_cancel_right)
qed

lemma inj_crc_fold_state: "foldl crc_byte c bs = foldl crc_byte d bs \<Longrightarrow> c = d"
  by (induction bs arbitrary: c d) (auto dest: inj_crc_byte_state)

lemma get_le_Cons: "(get_le (b # bs) :: u32) = ucast b XOR push_bit 8 (get_le bs)"
  by (rule bit_word_eqI)
    (auto simp: get_le_def get_be_snoc bit_simps dest: bit_imp_le_length)

lemma crc_bits_push:
  assumes "\<And>k. 32 - n \<le> k \<Longrightarrow> \<not> bit x k" and "n \<le> 32"
  shows "(crc_bit ^^ n) (push_bit n x) = (x :: u32)"
proof -
  have "(crc_bit ^^ n) (push_bit n x) = drop_bit n (push_bit n x)"
    by (rule crc_bits_low_zero) (simp add: bit_simps)
  also have "\<dots> = x"
  proof (rule bit_word_eqI)
    fix k assume "k < LENGTH(32)"
    with assms show "bit (drop_bit n (push_bit n x)) k = bit x k"
      by (cases "32 - n \<le> k") (auto simp: bit_simps)
  qed
  finally show ?thesis .
qed

text \<open>Up to four bytes enter the register as one little-endian word.\<close>

lemma crc_fold_word:
  "length bs \<le> 4 \<Longrightarrow> foldl crc_byte c bs = (crc_bit ^^ (8 * length bs)) (c XOR get_le bs)"
proof (induction bs arbitrary: c)
  case Nil
  then show ?case by (simp add: get_le_def)
next
  case (Cons b bs)
  let ?w = "get_le bs :: u32"
  have small: "\<not> bit ?w k" if "32 - 8 \<le> k" for k
    using that Cons.prems by (auto simp: get_le_def bit_get_be)
  have push: "(crc_bit ^^ 8) (push_bit 8 ?w) = ?w"
    using small by (intro crc_bits_push) auto
  have "foldl crc_byte c (b # bs) = (crc_bit ^^ (8 * length bs)) (crc_byte c b XOR ?w)"
    using Cons by simp
  also have "crc_byte c b XOR ?w = (crc_bit ^^ 8) (c XOR get_le (b # bs))"
    by (simp add: crc_byte_eq get_le_Cons crc_bits_xor push xor.assoc)
  also have "(crc_bit ^^ (8 * length bs)) ((crc_bit ^^ 8) z) = (crc_bit ^^ (8 * length (b # bs))) z"
    for z
  proof -
    have "8 * length (b # bs) = 8 * length bs + 8" by simp
    then show ?thesis by (simp only: funpow_add comp_apply)
  qed
  finally show ?case .
qed

lemma crc_fold_short_inj:
  assumes "foldl crc_byte c xs = foldl crc_byte c ys" and "length xs = length ys" and "length ys \<le> 4"
  shows "xs = ys"
proof -
  from assms have "c XOR get_le xs = c XOR (get_le ys :: u32)"
    by (auto simp: crc_fold_word dest: inj_crc_bits)
  then have "(get_le xs :: u32) = get_le ys" by (simp add: xor_cancel_left)
  moreover have "put_le (length xs) (get_le xs :: u32) = xs"
    by (rule put_le_get_le) (use assms in simp)
  moreover have "put_le (length ys) (get_le ys :: u32) = ys"
    by (rule put_le_get_le) (use assms in simp)
  ultimately show ?thesis using assms(2) by metis
qed

text \<open>
  The contract of the journal's checksum, for its clients: equal sums and a difference
  confined to at most four consecutive bytes leave no difference at all.
\<close>

locale burst_checksum =
  fixes sum :: "byte list \<Rightarrow> 'c"
  assumes burst: "sum (p @ a @ s) = sum (p @ b @ s) \<Longrightarrow> length a = length b \<Longrightarrow> length b \<le> 4
    \<Longrightarrow> a = b"
begin

lemma single_byte:
  assumes "i < length xs" and "sum (xs[i := x]) = sum xs"
  shows "xs ! i = x"
proof -
  have "sum (take i xs @ [x] @ drop (Suc i) xs) = sum (take i xs @ [xs ! i] @ drop (Suc i) xs)"
    using assms by (simp add: upd_conv_take_nth_drop Cons_nth_drop_Suc)
  from burst [OF this] show ?thesis by simp
qed

end

interpretation crc: burst_checksum crc32c
proof
  fix p a s b
  assume eq: "crc32c (p @ a @ s) = crc32c (p @ b @ s)" and len: "length a = length b" "length b \<le> 4"
  let ?c = "foldl crc_byte (NOT 0) p"
  from eq have "NOT (NOT (foldl crc_byte (foldl crc_byte ?c a) s))
      = NOT (NOT (foldl crc_byte (foldl crc_byte ?c b) s))"
    by (simp only: crc32c_def foldl_append)
  then have "foldl crc_byte ?c a = foldl crc_byte ?c b"
    by (auto dest: inj_crc_fold_state)
  with len show "a = b" by (blast intro: crc_fold_short_inj)
qed

text \<open>
  Evaluation rules: one register step on a literal at a time, so that the simplifier
  computes a checksum without copying an unevaluated register. The known answer of the
  CRC-32C catalogue (the ASCII digits 1 to 9) checks the definition against Go's table.
\<close>

lemma crc_bit_numeral: "crc_bit (numeral n) =
    (if bit (numeral n :: u32) 0 then drop_bit 1 (numeral n) XOR 0x82f63b78
     else drop_bit 1 (numeral n))"
  by (simp only: crc_bit_def crc_poly_def)

lemma crc_bit_neg_numeral: "crc_bit (- numeral n) =
    (if bit (- numeral n :: u32) 0 then drop_bit 1 (- numeral n) XOR 0x82f63b78
     else drop_bit 1 (- numeral n))"
  by (simp only: crc_bit_def crc_poly_def)

lemma crc_bit_zero_one: "crc_bit 0 = 0" "crc_bit 1 = 0x82f63b78"
  by (simp_all add: crc_bit_def crc_poly_def)

lemma crc_bits_8:
  "(crc_bit ^^ 8) c = crc_bit (crc_bit (crc_bit (crc_bit (crc_bit (crc_bit (crc_bit (crc_bit c)))))))"
  by (simp add: numeral_eq_Suc)

lemmas crc_eval = crc32c_def crc_byte_eq crc_bits_8 crc_bit_numeral crc_bit_neg_numeral
  crc_bit_zero_one

lemma crc32c_check_value:
  "crc32c [0x31, 0x32, 0x33, 0x34, 0x35, 0x36, 0x37, 0x38, 0x39] = 0xe3069283"
  by (simp add: crc_eval)

section \<open>SHA-256\<close>

text \<open>The constants are kept as numbers of eight words, most significant first.\<close>

definition octet_words :: "int \<Rightarrow> u32 list" where
  "octet_words x = map (\<lambda>i. word_of_int (x div 2 ^ (32 * (7 - i)))) [0..<8]"

definition sha_K :: "u32 list" where
  "sha_K = concat (map octet_words [
    0x428a2f9871374491b5c0fbcfe9b5dba53956c25b59f111f1923f82a4ab1c5ed5,
    0xd807aa9812835b01243185be550c7dc372be5d7480deb1fe9bdc06a7c19bf174,
    0xe49b69c1efbe47860fc19dc6240ca1cc2de92c6f4a7484aa5cb0a9dc76f988da,
    0x983e5152a831c66db00327c8bf597fc7c6e00bf3d5a7914706ca635114292967,
    0x27b70a852e1b21384d2c6dfc53380d13650a7354766a0abb81c2c92e92722c85,
    0xa2bfe8a1a81a664bc24b8b70c76c51a3d192e819d6990624f40e3585106aa070,
    0x19a4c1161e376c082748774c34b0bcb5391c0cb34ed8aa4a5b9cca4f682e6ff3,
    0x748f82ee78a5636f84c878148cc7020890befffaa4506cebbef9a3f7c67178f2])"

definition sha_H :: "u32 list" where
  "sha_H = octet_words
    0x6a09e667bb67ae853c6ef372a54ff53a510e527f9b05688c1f83d9ab5be0cd19"

text \<open>The padded message, cut into 64-byte blocks.\<close>

definition sha_pad :: "byte list \<Rightarrow> byte list" where
  "sha_pad m = m @ [0x80] @ replicate ((119 - length m mod 64) mod 64) 0
     @ put_be 8 (of_nat (8 * length m) :: u64)"

definition sha_blocks :: "byte list \<Rightarrow> byte list list" where
  "sha_blocks m = chunks 64 (length (sha_pad m) div 64) (sha_pad m)"

definition sha_s0 :: "u32 \<Rightarrow> u32" where
  "sha_s0 x = word_rotr 7 x XOR word_rotr 18 x XOR drop_bit 3 x"
definition sha_s1 :: "u32 \<Rightarrow> u32" where
  "sha_s1 x = word_rotr 17 x XOR word_rotr 19 x XOR drop_bit 10 x"
definition sha_S0 :: "u32 \<Rightarrow> u32" where
  "sha_S0 x = word_rotr 2 x XOR word_rotr 13 x XOR word_rotr 22 x"
definition sha_S1 :: "u32 \<Rightarrow> u32" where
  "sha_S1 x = word_rotr 6 x XOR word_rotr 11 x XOR word_rotr 25 x"

text \<open>The message schedule, newest word first while it grows.\<close>

fun sha_extend :: "nat \<Rightarrow> u32 list \<Rightarrow> u32 list" where
  "sha_extend 0 ws = ws"
| "sha_extend (Suc n) ws =
     sha_extend n ((sha_s1 (ws ! 1) + ws ! 6 + sha_s0 (ws ! 14) + ws ! 15) # ws)"

definition sha_schedule :: "byte list \<Rightarrow> u32 list" where
  "sha_schedule block = rev (sha_extend 48 (rev (map get_be (chunks 4 16 block))))"

fun sha_round :: "u32 list \<Rightarrow> u32 \<times> u32 \<Rightarrow> u32 list" where
  "sha_round [a, b, c, d, e, f, g, h] (k, w) =
     (let t1 = h + sha_S1 e + ((e AND f) XOR (NOT e AND g)) + k + w;
          t2 = sha_S0 a + ((a AND b) XOR (a AND c) XOR (b AND c))
      in [t1 + t2, a, b, c, d + t1, e, f, g])"
| "sha_round st _ = st"

definition sha_compress :: "u32 list \<Rightarrow> byte list \<Rightarrow> u32 list" where
  "sha_compress h block =
     map2 (+) h (foldl sha_round h (zip sha_K (sha_schedule block)))"

definition sha256 :: "byte list \<Rightarrow> byte list" where
  "sha256 m = concat (map (put_be 4) (foldl sha_compress sha_H (sha_blocks m)))"

lemma length_sha_round: "length (sha_round st kw) = length st"
  by (induction st kw rule: sha_round.induct) (simp_all add: Let_def)

lemma length_sha_rounds: "length (foldl sha_round st kws) = length st"
  by (induction kws arbitrary: st) (simp_all add: length_sha_round)

lemma length_sha_compress: "length (sha_compress h block) = length h"
  by (simp add: sha_compress_def length_sha_rounds)

lemma length_sha256: "length (sha256 m) = 32"
proof -
  have fold: "length (foldl sha_compress h bs) = length h" for h bs
    by (induction bs arbitrary: h) (simp_all add: length_sha_compress)
  have "length (concat (map (put_be 4) hs)) = 4 * length (hs :: u32 list)" for hs
    by (induction hs) simp_all
  then show ?thesis by (simp add: sha256_def fold sha_H_def octet_words_def)
qed

text \<open>The known answer of FIPS 180-4 for the three bytes of ``abc''.\<close>

lemma sha256_abc:
  "sha256 [0x61, 0x62, 0x63] =
     [0xba, 0x78, 0x16, 0xbf, 0x8f, 0x01, 0xcf, 0xea, 0x41, 0x41, 0x40, 0xde, 0x5d, 0xae, 0x22, 0x23,
      0xb0, 0x03, 0x61, 0xa3, 0x96, 0x17, 0x7a, 0x9c, 0xb4, 0x10, 0xff, 0x61, 0xf2, 0x00, 0x15, 0xad]"
  by code_simp

end
