(* ===== verification/Votecore.thy ===== *)
theory Votecore
  imports Go_Crypto "HOL-Library.AList"
begin

text \<open>
  The bounded in-memory voting core (\<^verbatim>\<open>internal/votecore/engine.go\<close>): a poll's engine
  with its shards, \<^verbatim>\<open>Submit\<close>, \<^verbatim>\<open>Seal\<close> and \<^verbatim>\<open>Lookup\<close>.

  A shard's \<^verbatim>\<open>map[[16]byte]uint32\<close> is an association list with distinct keys
  (\<open>AList.update\<close> assigns, \<open>length\<close> is \<^verbatim>\<open>len\<close>); its counters are natural numbers,
  which the capacity bound keeps far below 2^64. A critical section of \<^verbatim>\<open>Submit\<close> is two
  steps of the model, the admission decision (made while the shard's lock is held) and
  the store that releases the lock, so that sealing can fall between them;
  \<open>Submit\<close> is their composition.
\<close>

unbundle bit_operations_syntax

record vc_config =
  vcPollID :: "byte list"
  vcStartsAt :: time
  vcEndsAt :: time
  vcAllowedMask :: u32
  vcMultiple :: bool
  vcShards :: int
  vcCapacity :: u64

record vc_input =
  vcToken :: "byte list"
  vcChoice :: u32

datatype vc_status = Accepted | Duplicate | Closed | NotOpen | Invalid | CapacityExceeded

record vc_result =
  resStatus :: vc_status
  resChoice :: u32

record snapshot =
  snTotal :: nat
  snCounts :: "nat list"
  snClosed :: bool

record shard =
  shVotes :: "(byte list \<times> u32) list"
  shCounts :: "nat list"
  shCapacity :: nat

record engine =
  eCfg :: vc_config
  eStartNS :: u64
  eEndNS :: u64
  eShards :: "shard list"
  eSealed :: bool

datatype vc_error = ErrInvalidConfig | ErrStillOpen

section \<open>Construction\<close>

definition vc_config_bad :: "vc_config \<Rightarrow> bool" where
  "vc_config_bad c \<longleftrightarrow>
     vcPollID c = zero16 \<or> is_zero_time (vcStartsAt c) \<or>
     time_sub (vcEndsAt c) (vcStartsAt c) \<noteq> minute \<or> vcAllowedMask c = 0 \<or>
     vcShards c < 1 \<or> vcShards c > 4096 \<or> vcShards c AND (vcShards c - 1) \<noteq> 0 \<or>
     vcCapacity c < word_of_int (vcShards c) \<or> vcCapacity c > 200000000"

definition empty_shard :: "nat \<Rightarrow> shard" where
  "empty_shard limit = \<lparr>shVotes = [], shCounts = replicate 32 0, shCapacity = limit\<rparr>"

text \<open>The share of shard \<open>i\<close>: the first \<^verbatim>\<open>Capacity % Shards\<close> shards hold one vote more.\<close>

definition shard_limit :: "vc_config \<Rightarrow> nat \<Rightarrow> nat" where
  "shard_limit c i =
     (let n = word_of_int (vcShards c) :: u64;
          base = vcCapacity c div n; extra = vcCapacity c mod n
      in unat (if of_nat i < extra then base + 1 else base))"

definition New :: "vc_config \<Rightarrow> vc_error + engine" where
  "New c =
     (if vc_config_bad c then Inl ErrInvalidConfig
      else Inr \<lparr>eCfg = c, eStartNS = unixNano (vcStartsAt c), eEndNS = unixNano (vcEndsAt c),
        eShards = map (\<lambda>i. empty_shard (shard_limit c i)) [0..<nat (vcShards c)],
        eSealed = False\<rparr>)"

definition Partition :: "engine \<Rightarrow> byte list \<Rightarrow> nat" where
  "Partition e token =
     unat ((get_be (take 8 (sha256 (vcPollID (eCfg e) @ token))) :: u64)
       AND (of_nat (length (eShards e)) - 1))"

section \<open>Submitting a vote\<close>

definition vc_bad_input :: "vc_config \<Rightarrow> vc_input \<Rightarrow> bool" where
  "vc_bad_input c inp \<longleftrightarrow>
     vcToken inp = zero16 \<or> vcChoice inp = 0 \<or> vcChoice inp AND NOT (vcAllowedMask c) \<noteq> 0 \<or>
     (\<not> vcMultiple c \<and> onesCount32 (vcChoice inp) \<noteq> 1)"

text \<open>
  The counters of the chosen bits: \<^verbatim>\<open>for mask := choice; mask != 0; mask &= mask - 1\<close>.
\<close>

lemma and_minus_one_less: "(m :: u32) \<noteq> 0 \<Longrightarrow> unat (m AND (m - 1)) < unat m"
proof -
  assume m: "m \<noteq> 0"
  have "m AND (m - 1) \<le> m - 1" by (metis and.commute word_and_le1)
  also have "m - 1 < m" using m by (simp add: word_less_nat_alt unat_minus_one unat_gt_0)
  finally show ?thesis by (simp add: word_less_nat_alt)
qed

function bump_counts :: "u32 \<Rightarrow> nat list \<Rightarrow> nat list" where
  "bump_counts m counts =
     (if m = 0 then counts
      else bump_counts (m AND (m - 1))
        (counts[trailingZeros32 m := Suc (counts ! trailingZeros32 m)]))"
  by pat_completeness auto
termination
  by (relation "measure (\<lambda>(m, counts). unat m)") (auto simp: and_minus_one_less)

declare bump_counts.simps [simp del]

definition mk_result :: "vc_status \<Rightarrow> vc_result" where
  "mk_result s = \<lparr>resStatus = s, resChoice = 0\<rparr>"

text \<open>
  What the critical section decides, in the order of the code: \<open>Inl\<close> a result to return
  (\<open>True\<close> beside it when the deadline was observed, which seals the engine), \<open>Inr ()\<close>
  to store the vote. The clock is read once, after the lock is held.
\<close>

definition submit_decide ::
  "engine \<Rightarrow> time \<Rightarrow> vc_input \<Rightarrow> (vc_result \<times> bool) + unit" where
  "submit_decide e clock inp =
     (let s = eShards e ! Partition e (vcToken inp); now = unixNano clock in
      if eSealed e then Inl (mk_result Closed, False)
      else if now <s eStartNS e then Inl (mk_result NotOpen, False)
      else if eEndNS e \<le>s now then Inl (mk_result Closed, True)
      else case map_of (shVotes s) (vcToken inp) of
        Some previous \<Rightarrow>
          if previous \<noteq> 0 then Inl (\<lparr>resStatus = Duplicate, resChoice = previous\<rparr>, False)
          else if shCapacity s \<le> length (shVotes s) then Inl (mk_result CapacityExceeded, False)
          else Inr ()
      | None \<Rightarrow>
          if shCapacity s \<le> length (shVotes s) then Inl (mk_result CapacityExceeded, False)
          else Inr ())"

definition store_vote :: "vc_input \<Rightarrow> shard \<Rightarrow> shard" where
  "store_vote inp s =
     s\<lparr>shVotes := AList.update (vcToken inp) (vcChoice inp) (shVotes s),
       shCounts := bump_counts (vcChoice inp) (shCounts s)\<rparr>"

definition submit_store :: "engine \<Rightarrow> vc_input \<Rightarrow> engine \<times> vc_result" where
  "submit_store e inp =
     (let i = Partition e (vcToken inp) in
      (e\<lparr>eShards := (eShards e)[i := store_vote inp (eShards e ! i)]\<rparr>,
       \<lparr>resStatus = Accepted, resChoice = vcChoice inp\<rparr>))"

definition Submit :: "engine \<Rightarrow> time \<Rightarrow> vc_input \<Rightarrow> engine \<times> vc_result" where
  "Submit e clock inp =
     (if vc_bad_input (eCfg e) inp then (e, mk_result Invalid)
      else case submit_decide e clock inp of
        Inl (r, seals) \<Rightarrow> (if seals then e\<lparr>eSealed := True\<rparr> else e, r)
      | Inr _ \<Rightarrow> submit_store e inp)"

section \<open>Sealing and reading\<close>

definition add_shard :: "snapshot \<Rightarrow> shard \<Rightarrow> snapshot" where
  "add_shard r s =
     r\<lparr>snTotal := snTotal r + length (shVotes s), snCounts := map2 (+) (snCounts r) (shCounts s)\<rparr>"

definition empty_snapshot :: snapshot where
  "empty_snapshot = \<lparr>snTotal = 0, snCounts = replicate 32 0, snClosed = True\<rparr>"

definition seal_refused :: "engine \<Rightarrow> time \<Rightarrow> bool" where
  "seal_refused e clock \<longleftrightarrow> \<not> eSealed e \<and> unixNano clock <s eEndNS e"

definition Seal :: "engine \<Rightarrow> time \<Rightarrow> engine \<times> (vc_error + snapshot)" where
  "Seal e clock =
     (if seal_refused e clock then (e, Inl ErrStillOpen)
      else (e\<lparr>eSealed := True\<rparr>, Inr (foldl add_shard empty_snapshot (eShards e))))"

definition Lookup :: "engine \<Rightarrow> byte list \<Rightarrow> u32 \<times> bool" where
  "Lookup e token =
     (case map_of (shVotes (eShards e ! Partition e token)) token of
        None \<Rightarrow> (0, False)
      | Some choice \<Rightarrow> (choice, True))"

section \<open>Counting the chosen bits\<close>

lemma trailingZeros32_bit:
  assumes "m \<noteq> 0"
  shows "bit m (trailingZeros32 m)" and "trailingZeros32 m < 32"
    and "j < trailingZeros32 m \<Longrightarrow> \<not> bit m j"
proof -
  from assms obtain k where "bit m k" by (auto simp: bit_eq_iff)
  moreover from this have "k < 32" by (auto dest: bit_imp_le_length)
  ultimately have ne: "filter (bit m) [0..<32] \<noteq> []" by (auto simp: filter_empty_conv)
  then obtain i ks where cons: "filter (bit m) [0..<32] = i # ks" by (cases "filter (bit m) [0..<32]") auto
  then have tz: "trailingZeros32 m = i" by (simp add: trailingZeros32_def)
  from cons have i: "i \<in> set (filter (bit m) [0..<32])" by simp
  then show "bit m (trailingZeros32 m)" and "trailingZeros32 m < 32" by (simp_all add: tz)
  have sorted: "sorted (i # ks)" using cons by (metis sorted_wrt_filter sorted_upt)
  show "\<not> bit m j" if j: "j < trailingZeros32 m"
  proof
    assume "bit m j"
    with j i have "j \<in> set (filter (bit m) [0..<32])" by (simp add: tz)
    with cons sorted have "i \<le> j" by auto
    with j show False by (simp add: tz)
  qed
qed

lemma bit_clear_lowest:
  assumes "(m :: u32) \<noteq> 0"
  shows "bit (m AND (m - 1)) k \<longleftrightarrow> bit m k \<and> k \<noteq> trailingZeros32 m"
proof -
  let ?t = "trailingZeros32 m" and ?q = "unset_bit (trailingZeros32 m) m"
  note tz = trailingZeros32_bit [OF assms]
  have "m = ?q OR push_bit ?t 1"
    by (rule bit_word_eqI) (use tz in \<open>auto simp: bit_simps\<close>)
  also have "\<dots> = ?q + push_bit ?t 1"
    by (rule disjunctive_add_eq_or [symmetric]) (auto intro!: bit_word_eqI simp: bit_simps)
  finally have "m - 1 = ?q + (2 ^ ?t - 1)" by (simp add: push_bit_eq_mult)
  also have "\<dots> = ?q + mask ?t" by (simp add: mask_eq_exp_minus_1)
  also have "\<dots> = ?q OR mask ?t"
    by (rule disjunctive_add_eq_or) (use tz(3) in \<open>auto intro!: bit_word_eqI simp: bit_simps\<close>)
  finally have "m - 1 = ?q OR mask ?t" .
  then show ?thesis
    using tz by (auto simp: bit_simps dest: bit_imp_le_length)
qed

lemma bump_counts_spec:
  "length counts = 32 \<Longrightarrow>
     length (bump_counts m counts) = 32 \<and>
     (\<forall>k < 32. bump_counts m counts ! k = counts ! k + of_bool (bit m k))"
proof (induction m counts rule: bump_counts.induct)
  case (1 m counts)
  show ?case
  proof (cases "m = 0")
    case True
    with 1 show ?thesis by (simp add: bump_counts.simps [of 0])
  next
    case False
    note tz = trailingZeros32_bit [OF False]
    show ?thesis
      using "1.IH" [OF False] "1.prems" tz False
      by (auto simp: bump_counts.simps [of m] bit_clear_lowest nth_list_update)
  qed
qed

text \<open>How many votes carry bit \<open>k\<close>.\<close>

definition tally :: "nat \<Rightarrow> (byte list \<times> u32) list \<Rightarrow> nat" where
  "tally k votes = length (filter (\<lambda>(t, c). bit c k) votes)"

lemma tally_append [simp]: "tally k (xs @ ys) = tally k xs + tally k ys"
  by (simp add: tally_def)

lemma tally_Nil [simp]: "tally k [] = 0"
  by (simp add: tally_def)

lemma tally_Cons [simp]: "tally k ((t, c) # xs) = of_bool (bit c k) + tally k xs"
  by (simp add: tally_def)

lemma update_fresh: "t \<notin> fst ` set al \<Longrightarrow> AList.update t c al = al @ [(t, c)]"
  by (induction al) auto

section \<open>The invariant of an engine\<close>

definition wf_shard :: "engine \<Rightarrow> nat \<Rightarrow> shard \<Rightarrow> bool" where
  "wf_shard e i s \<longleftrightarrow>
     distinct (map fst (shVotes s)) \<and>
     length (shCounts s) = 32 \<and> (\<forall>k < 32. shCounts s ! k = tally k (shVotes s)) \<and>
     length (shVotes s) \<le> shCapacity s \<and> shCapacity s = shard_limit (eCfg e) i \<and>
     (\<forall>(t, c) \<in> set (shVotes s). Partition e t = i \<and> \<not> vc_bad_input (eCfg e) \<lparr>vcToken = t, vcChoice = c\<rparr>)"

definition wf_engine :: "engine \<Rightarrow> bool" where
  "wf_engine e \<longleftrightarrow>
     \<not> vc_config_bad (eCfg e) \<and>
     eStartNS e = unixNano (vcStartsAt (eCfg e)) \<and> eEndNS e = unixNano (vcEndsAt (eCfg e)) \<and>
     length (eShards e) = nat (vcShards (eCfg e)) \<and>
     (\<forall>i < length (eShards e). wf_shard e i (eShards e ! i))"

lemma Partition_lt: "eShards e \<noteq> [] \<Longrightarrow> length (eShards e) < 2 ^ 64 \<Longrightarrow>
    Partition e t < length (eShards e)"
proof -
  assume ne: "eShards e \<noteq> []" and small: "length (eShards e) < 2 ^ 64"
  let ?n = "length (eShards e)"
  have un: "unat (of_nat ?n :: u64) = ?n" using small by (simp add: unat_of_nat)
  with ne have "(of_nat ?n :: u64) \<noteq> 0" by (metis length_0_conv unsigned_0)
  then have "unat ((of_nat ?n :: u64) - 1) < ?n"
    using ne by (simp add: unat_minus_one un)
  moreover have "Partition e t \<le> unat ((of_nat ?n :: u64) - 1)"
    unfolding Partition_def by (rule word_le_nat_alt [THEN iffD1]) (metis and.commute word_and_le1)
  ultimately show ?thesis by simp
qed

lemma wf_engine_shards:
  "wf_engine e \<Longrightarrow> eShards e \<noteq> [] \<and> length (eShards e) \<le> 4096"
  by (auto simp: wf_engine_def vc_config_bad_def)

lemma wf_Partition_lt: "wf_engine e \<Longrightarrow> Partition e t < length (eShards e)"
  using wf_engine_shards [of e] by (intro Partition_lt) auto

lemma Partition_cong:
  "eCfg e' = eCfg e \<Longrightarrow> length (eShards e') = length (eShards e) \<Longrightarrow> Partition e' t = Partition e t"
  by (simp add: Partition_def)

lemma wf_shard_cong:
  "eCfg e' = eCfg e \<Longrightarrow> length (eShards e') = length (eShards e) \<Longrightarrow> wf_shard e' i s = wf_shard e i s"
  by (simp add: wf_shard_def Partition_def)

lemma New_wf: "New c = Inr e \<Longrightarrow> wf_engine e"
  by (auto simp: New_def wf_engine_def wf_shard_def empty_shard_def split: if_splits)

lemma wf_seal [simp]: "wf_engine (e\<lparr>eSealed := b\<rparr>) = wf_engine e"
  by (simp add: wf_engine_def wf_shard_def Partition_def)

text \<open>A vote that was admitted under the lock of its shard may be stored.\<close>

definition storable :: "engine \<Rightarrow> vc_input \<Rightarrow> bool" where
  "storable e inp \<longleftrightarrow>
     \<not> vc_bad_input (eCfg e) inp \<and>
     vcToken inp \<notin> fst ` set (shVotes (eShards e ! Partition e (vcToken inp))) \<and>
     length (shVotes (eShards e ! Partition e (vcToken inp)))
       < shCapacity (eShards e ! Partition e (vcToken inp))"

lemma vc_bad_input_choice: "\<not> vc_bad_input c inp \<Longrightarrow> vcChoice inp \<noteq> 0"
  by (simp add: vc_bad_input_def)

lemma wf_vote_nonzero:
  assumes "wf_engine e" and "map_of (shVotes (eShards e ! i)) t = Some c" and "i < length (eShards e)"
  shows "c \<noteq> 0" and "Partition e t = i"
proof -
  from assms have "(t, c) \<in> set (shVotes (eShards e ! i))" "wf_shard e i (eShards e ! i)"
    by (auto simp: wf_engine_def dest: map_of_SomeD)
  then show "c \<noteq> 0" and "Partition e t = i"
    by (auto simp: wf_shard_def vc_bad_input_def)
qed

lemma decide_storable:
  assumes "wf_engine e" and "\<not> vc_bad_input (eCfg e) inp" and "submit_decide e clock inp = Inr ()"
  shows "storable e inp"
proof -
  let ?s = "eShards e ! Partition e (vcToken inp)"
  have "map_of (shVotes ?s) (vcToken inp) = None"
    using assms(3) wf_vote_nonzero(1) [OF assms(1) _ wf_Partition_lt [OF assms(1)]]
    by (auto simp: submit_decide_def Let_def split: if_splits option.splits)
  with assms show ?thesis
    by (auto simp: storable_def submit_decide_def Let_def map_of_eq_None_iff
        split: if_splits option.splits)
qed

lemma wf_shard_store:
  assumes "wf_shard e i s" and "Partition e (vcToken inp) = i" and "\<not> vc_bad_input (eCfg e) inp"
    and "vcToken inp \<notin> fst ` set (shVotes s)" and "length (shVotes s) < shCapacity s"
  shows "wf_shard e i (store_vote inp s)"
proof -
  have votes: "shVotes (store_vote inp s) = shVotes s @ [(vcToken inp, vcChoice inp)]"
    using assms(4) by (simp add: store_vote_def update_fresh)
  have counts: "shCounts (store_vote inp s) = bump_counts (vcChoice inp) (shCounts s)"
    and cap: "shCapacity (store_vote inp s) = shCapacity s"
    by (simp_all add: store_vote_def)
  have "\<not> vc_bad_input (eCfg e) \<lparr>vcToken = vcToken inp, vcChoice = vcChoice inp\<rparr>"
    using assms(3) by (simp add: vc_bad_input_def)
  then show ?thesis
    using assms bump_counts_spec [of "shCounts s" "vcChoice inp"]
    by (auto simp: wf_shard_def votes counts cap)
qed

lemma wf_engine_update:
  assumes "wf_engine e" and "i < length (eShards e)" and "wf_shard e i s"
  shows "wf_engine (e\<lparr>eShards := (eShards e)[i := s]\<rparr>)"
proof -
  have cong: "wf_shard (e\<lparr>eShards := (eShards e)[i := s]\<rparr>) j x = wf_shard e j x" for j x
    by (rule wf_shard_cong) simp_all
  show ?thesis using assms by (auto simp: wf_engine_def cong nth_list_update)
qed

lemma wf_store:
  assumes "wf_engine e" and "storable e inp"
  shows "wf_engine (fst (submit_store e inp))"
proof -
  let ?i = "Partition e (vcToken inp)"
  have i: "?i < length (eShards e)" by (rule wf_Partition_lt [OF assms(1)])
  then have "wf_shard e ?i (eShards e ! ?i)" using assms(1) by (simp add: wf_engine_def)
  then have "wf_shard e ?i (store_vote inp (eShards e ! ?i))"
    using assms(2) by (intro wf_shard_store) (simp_all add: storable_def)
  with assms(1) i show ?thesis
    by (simp add: submit_store_def Let_def wf_engine_update)
qed

lemma Submit_cases:
  obtains (invalid) "vc_bad_input (eCfg e) inp" "Submit e clock inp = (e, mk_result Invalid)"
  | (rejected) r seals where "\<not> vc_bad_input (eCfg e) inp" "submit_decide e clock inp = Inl (r, seals)"
      "Submit e clock inp = (if seals then e\<lparr>eSealed := True\<rparr> else e, r)"
  | (stored) "\<not> vc_bad_input (eCfg e) inp" "submit_decide e clock inp = Inr ()"
      "Submit e clock inp = submit_store e inp"
proof -
  consider (a) "vc_bad_input (eCfg e) inp"
    | (b) r seals where "\<not> vc_bad_input (eCfg e) inp" "submit_decide e clock inp = Inl (r, seals)"
    | (c) "\<not> vc_bad_input (eCfg e) inp" "submit_decide e clock inp = Inr ()"
    by (cases "submit_decide e clock inp") auto
  then show thesis
  proof cases
    case a
    then show ?thesis by (intro invalid) (simp_all add: Submit_def)
  next
    case b
    then show ?thesis by (intro rejected) (simp_all add: Submit_def)
  next
    case c
    then show ?thesis by (intro stored) (simp_all add: Submit_def)
  qed
qed

lemma Submit_wf: "wf_engine e \<Longrightarrow> wf_engine (fst (Submit e clock inp))"
  by (cases rule: Submit_cases [of e inp clock]) (auto intro: wf_store decide_storable)

lemma Seal_wf: "wf_engine e \<Longrightarrow> wf_engine (fst (Seal e clock))"
  by (simp add: Seal_def)

end
