(* ===== verification/Ballot.thy ===== *)
theory Ballot
  imports Gq_Prelude
begin

text \<open>
  The contract every vote store of the program keeps, whatever holds the votes: each
  voter token has at most one recorded choice, an event records a choice only for a token
  that has none, and nothing else changes what a lookup returns. The in-memory core, the
  database function and the audit of a journal interpret it; their clients get that the
  first recorded choice of a token is final, and that the final record is the log of the
  accepted votes.
\<close>

locale ballot_box =
  fixes lookup :: "'s \<Rightarrow> 't \<Rightarrow> 'c option"
    and cast :: "'s \<Rightarrow> 'e \<Rightarrow> 's"
    and recorded :: "'s \<Rightarrow> 'e \<Rightarrow> ('t \<times> 'c) option"
    and inv :: "'s \<Rightarrow> bool"
  assumes inv_cast: "inv s \<Longrightarrow> inv (cast s e)"
    and cast_recorded: "inv s \<Longrightarrow> recorded s e = Some (t, c) \<Longrightarrow>
      lookup s t = None \<and> lookup (cast s e) = (lookup s)(t \<mapsto> c)"
    and cast_ignored: "inv s \<Longrightarrow> recorded s e = None \<Longrightarrow> lookup (cast s e) = lookup s"
begin

fun accepted_log :: "'s \<Rightarrow> 'e list \<Rightarrow> ('t \<times> 'c) list" where
  "accepted_log s [] = []"
| "accepted_log s (e # es) =
     (case recorded s e of None \<Rightarrow> accepted_log (cast s e) es
      | Some p \<Rightarrow> p # accepted_log (cast s e) es)"

lemma inv_run: "inv s \<Longrightarrow> inv (foldl cast s es)"
  by (induction es arbitrary: s) (auto intro: inv_cast)

lemma lookup_cast_le: "inv s \<Longrightarrow> lookup s \<subseteq>\<^sub>m lookup (cast s e)"
proof (cases "recorded s e")
  case None
  moreover assume "inv s"
  ultimately show ?thesis by (simp add: cast_ignored)
next
  case (Some p)
  obtain t c where p: "p = (t, c)" by (cases p)
  assume "inv s"
  from cast_recorded [OF this Some [unfolded p]] show ?thesis
    by (auto simp: map_le_def dom_def)
qed

lemma first_choice_final:
  "inv s \<Longrightarrow> lookup s t = Some c \<Longrightarrow> lookup (foldl cast s es) t = Some c"
proof (induction es arbitrary: s)
  case Nil
  then show ?case by simp
next
  case (Cons e es)
  from lookup_cast_le [OF Cons.prems(1), of e] Cons.prems(2) have "lookup (cast s e) t = Some c"
    by (metis domI map_le_def)
  with Cons show ?case by (simp add: inv_cast)
qed

lemma lookup_log:
  "inv s \<Longrightarrow> lookup (foldl cast s es) = lookup s ++ map_of (accepted_log s es) \<and>
     distinct (map fst (accepted_log s es)) \<and> fst ` set (accepted_log s es) \<inter> dom (lookup s) = {}"
proof (induction es arbitrary: s)
  case Nil
  then show ?case by simp
next
  case (Cons e es)
  note IH = Cons.IH [OF inv_cast [OF Cons.prems, of e]]
  show ?case
  proof (cases "recorded s e")
    case None
    with IH show ?thesis by (simp add: cast_ignored [OF Cons.prems])
  next
    case (Some p)
    obtain t c where p: "p = (t, c)" by (cases p)
    note rec = cast_recorded [OF Cons.prems Some [unfolded p]]
    with IH have fresh: "t \<notin> fst ` set (accepted_log (cast s e) es)" by auto
    then have "map_of (accepted_log (cast s e) es) t = None" by (simp add: map_of_eq_None_iff)
    with rec have upd: "lookup (cast s e) ++ map_of (accepted_log (cast s e) es)
        = lookup s ++ (map_of (accepted_log (cast s e) es))(t \<mapsto> c)"
      by (auto simp: map_add_def fun_eq_iff split: option.splits)
    have "lookup (foldl cast s (e # es)) = lookup s ++ map_of (accepted_log s (e # es))"
      using IH upd by (simp only: foldl.simps accepted_log.simps Some p option.case map_of.simps fst_conv snd_conv)
    moreover have "distinct (map fst (accepted_log s (e # es)))"
      using IH fresh by (simp add: Some p)
    moreover have "fst ` set (accepted_log s (e # es)) \<inter> dom (lookup s) = {}"
      using IH rec by (auto simp: Some p)
    ultimately show ?thesis by blast
  qed
qed

end

end
