(* ===== verification/Votecore_Run.thy ===== *)
theory Votecore_Run
  imports Votecore Ballot
begin

text \<open>
  What the in-memory core promises. First the sequential view: \<open>Submit\<close> is a ballot box
  over the exact token, and a snapshot counts it. Then the concurrent one: any number of
  submitters and one sealer move between the critical sections of the engine, the sealer
  adding up one shard at a time, and the snapshot it returns is the final record.
\<close>

section \<open>The exact record behind the shards\<close>

definition ballots :: "engine \<Rightarrow> byte list \<Rightarrow> u32 option" where
  "ballots e t = map_of (shVotes (eShards e ! Partition e t)) t"

definition all_votes :: "engine \<Rightarrow> (byte list \<times> u32) list" where
  "all_votes e = concat (map shVotes (eShards e))"

definition recorded :: "engine \<Rightarrow> time \<times> vc_input \<Rightarrow> (byte list \<times> u32) option" where
  "recorded e ev =
     (case ev of (clock, inp) \<Rightarrow>
        if resStatus (snd (Submit e clock inp)) = Accepted then Some (vcToken inp, vcChoice inp) else None)"

definition submit_event :: "engine \<Rightarrow> time \<times> vc_input \<Rightarrow> engine" where
  "submit_event e ev = fst (Submit e (fst ev) (snd ev))"

lemma Lookup_ballots: "Lookup e t = (case ballots e t of None \<Rightarrow> (0, False) | Some c \<Rightarrow> (c, True))"
  by (simp add: Lookup_def ballots_def)

lemma ballots_seal [simp]: "ballots (e\<lparr>eSealed := b\<rparr>) = ballots e"
  by (simp add: ballots_def Partition_def fun_eq_iff)

lemma ballots_store:
  assumes "wf_engine e" and "storable e inp"
  shows "ballots e (vcToken inp) = None"
    and "ballots (fst (submit_store e inp)) = (ballots e)(vcToken inp \<mapsto> vcChoice inp)"
proof -
  let ?i = "Partition e (vcToken inp)"
  show none: "ballots e (vcToken inp) = None"
    using assms(2) by (simp add: ballots_def storable_def map_of_eq_None_iff)
  show "ballots (fst (submit_store e inp)) = (ballots e)(vcToken inp \<mapsto> vcChoice inp)"
  proof
    fix t
    have part: "Partition (e\<lparr>eShards := (eShards e)[?i := s]\<rparr>) t = Partition e t" for s
      by (rule Partition_cong) simp_all
    show "ballots (fst (submit_store e inp)) t = ((ballots e)(vcToken inp \<mapsto> vcChoice inp)) t"
    proof (cases "Partition e t = ?i")
      case True
      with wf_Partition_lt [OF assms(1), of "vcToken inp"] show ?thesis
        by (auto simp: ballots_def submit_store_def Let_def part store_vote_def update_conv)
    next
      case False
      then have "t \<noteq> vcToken inp" by auto
      with False show ?thesis
        by (simp add: ballots_def submit_store_def Let_def part)
    qed
  qed
qed

lemma decide_not_accepted: "submit_decide e clock inp = Inl (r, b) \<Longrightarrow> resStatus r \<noteq> Accepted"
  by (auto simp: submit_decide_def Let_def mk_result_def split: if_splits option.splits)

interpretation core: ballot_box ballots submit_event recorded wf_engine
proof
  fix e :: engine and ev :: "time \<times> vc_input"
  obtain clock inp where ev: "ev = (clock, inp)" by (cases ev)
  assume wf: "wf_engine e"
  then show "wf_engine (submit_event e ev)" by (simp add: submit_event_def Submit_wf)
  { fix t c assume "recorded e ev = Some (t, c)"
    then have acc: "resStatus (snd (Submit e clock inp)) = Accepted"
      and tc: "t = vcToken inp" "c = vcChoice inp"
      by (auto simp: ev recorded_def split: if_splits)
    show "ballots e t = None \<and> ballots (submit_event e ev) = (ballots e)(t \<mapsto> c)"
    proof (cases rule: Submit_cases [of e inp clock])
      case stored
      with ballots_store [OF wf decide_storable [OF wf stored(1,2)]] show ?thesis
        by (simp add: submit_event_def ev tc)
    qed (use acc decide_not_accepted in \<open>auto simp: mk_result_def\<close>)
  }
  { assume "recorded e ev = None"
    then have acc: "resStatus (snd (Submit e clock inp)) \<noteq> Accepted"
      by (auto simp: ev recorded_def split: if_splits)
    then show "ballots (submit_event e ev) = ballots e"
      by (cases rule: Submit_cases [of e inp clock])
        (auto simp: submit_event_def ev submit_store_def Let_def)
  }
qed

section \<open>Capacity\<close>

lemma unat_plus_one_small: "unat (w :: u64) \<le> 200000000 \<Longrightarrow> unat (w + 1) = unat w + 1"
  by (simp add: unat_word_ariths)

lemma shard_limit_nat:
  assumes "\<not> vc_config_bad c" and "i < nat (vcShards c)"
  shows "shard_limit c i = unat (vcCapacity c) div nat (vcShards c)
    + (if i < unat (vcCapacity c) mod nat (vcShards c) then 1 else 0)"
proof -
  let ?n = "word_of_int (vcShards c) :: u64" and ?c = "vcCapacity c"
  from assms(1) have sh: "1 \<le> vcShards c" "vcShards c \<le> 4096" and cap: "unat ?c \<le> 200000000"
    by (auto simp: vc_config_bad_def word_le_nat_alt not_less)
  have "?n = of_nat (nat (vcShards c))" using sh by simp
  then have n: "unat ?n = nat (vcShards c)" using sh by (simp add: unat_of_nat del: of_nat_nat)
  have i: "unat (of_nat i :: u64) = i"
    using assms(2) sh by (intro unat_of_nat [THEN trans]) simp
  have base: "unat (?c div ?n) = unat ?c div nat (vcShards c)"
    and extra: "unat (?c mod ?n) = unat ?c mod nat (vcShards c)"
    by (simp_all add: unat_div unat_mod n)
  have "unat ?c div nat (vcShards c) \<le> unat ?c" by simp
  with cap have "unat (?c div ?n) \<le> 200000000" unfolding base by linarith
  then have "unat (?c div ?n + 1) = unat (?c div ?n) + 1"
    by (rule unat_plus_one_small)
  then show ?thesis
    by (simp add: shard_limit_def Let_def word_less_nat_alt i base extra)
qed

lemma sum_split_share:
  "n > 0 \<Longrightarrow> (\<Sum>i < n. c div n + (if i < c mod n then 1 else 0)) = (c :: nat)"
proof -
  assume n: "n > 0"
  have "(\<Sum>i < n. if i < c mod n then 1 else 0 :: nat) = (\<Sum>i \<in> {i \<in> {..<n}. i < c mod n}. 1)"
    by (rule sum.inter_filter [symmetric]) simp
  also have "{i \<in> {..<n}. i < c mod n} = {..< c mod n}" using mod_less_divisor [OF n, of c] by auto
  finally show ?thesis by (simp add: sum.distrib)
qed

definition total_capacity :: "engine \<Rightarrow> nat" where
  "total_capacity e = sum_list (map shCapacity (eShards e))"

lemma wf_total_capacity: "wf_engine e \<Longrightarrow> total_capacity e = unat (vcCapacity (eCfg e))"
proof -
  assume wf: "wf_engine e"
  let ?n = "nat (vcShards (eCfg e))" and ?c = "unat (vcCapacity (eCfg e))"
  have len: "length (eShards e) = ?n" and bad: "\<not> vc_config_bad (eCfg e)"
    using wf by (simp_all add: wf_engine_def)
  have cap: "shCapacity (eShards e ! i) = ?c div ?n + (if i < ?c mod ?n then 1 else 0)" if "i < ?n" for i
    using wf that len shard_limit_nat [OF bad that] by (simp add: wf_engine_def wf_shard_def)
  have "total_capacity e = (\<Sum>i < ?n. shCapacity (eShards e ! i))"
    by (simp add: total_capacity_def sum_list_sum_nth len atLeast0LessThan)
  also have "\<dots> = ?c" using cap bad by (simp add: sum_split_share vc_config_bad_def)
  finally show ?thesis .
qed

lemma all_votes_le_capacity: "wf_engine e \<Longrightarrow> length (all_votes e) \<le> total_capacity e"
proof -
  assume "wf_engine e"
  then have "\<forall>s \<in> set (eShards e). length (shVotes s) \<le> shCapacity s"
    by (auto simp: wf_engine_def wf_shard_def in_set_conv_nth)
  then show ?thesis
    by (auto simp: all_votes_def total_capacity_def length_concat comp_def intro: sum_list_mono)
qed

section \<open>What a snapshot counts\<close>

lemma add_shards:
  assumes "\<forall>s \<in> set ss. length (shCounts s) = 32 \<and> (\<forall>k < 32. shCounts s ! k = tally k (shVotes s))"
    and "length (snCounts r) = 32"
  shows "snTotal (foldl add_shard r ss) = snTotal r + length (concat (map shVotes ss)) \<and>
    length (snCounts (foldl add_shard r ss)) = 32 \<and>
    (\<forall>k < 32. snCounts (foldl add_shard r ss) ! k = snCounts r ! k + tally k (concat (map shVotes ss))) \<and>
    snClosed (foldl add_shard r ss) = snClosed r"
  using assms
proof (induction ss arbitrary: r)
  case Nil
  then show ?case by simp
next
  case (Cons s ss)
  then show ?case by (simp add: add_shard_def)
qed

definition snapshot_of :: "engine \<Rightarrow> snapshot \<Rightarrow> bool" where
  "snapshot_of e sn \<longleftrightarrow>
     snClosed sn \<and> snTotal sn = length (all_votes e) \<and> length (snCounts sn) = 32 \<and>
     (\<forall>k < 32. snCounts sn ! k = tally k (all_votes e))"

lemma snapshot_of_shards: "wf_engine e \<Longrightarrow> snapshot_of e (foldl add_shard empty_snapshot (eShards e))"
proof -
  assume "wf_engine e"
  then have "\<forall>s \<in> set (eShards e). length (shCounts s) = 32 \<and>
      (\<forall>k < 32. shCounts s ! k = tally k (shVotes s))"
    by (auto simp: wf_engine_def wf_shard_def in_set_conv_nth)
  from add_shards [OF this, of empty_snapshot] show ?thesis
    by (simp add: snapshot_of_def all_votes_def empty_snapshot_def)
qed

text \<open>Every token is counted once: the votes of all shards have different tokens.\<close>

lemma concat_distinct_keys:
  "(\<And>i. i < length xss \<Longrightarrow> distinct (map fst (xss ! i))) \<Longrightarrow>
   (\<And>i t c. i < length xss \<Longrightarrow> (t, c) \<in> set (xss ! i) \<Longrightarrow> f t = n + i) \<Longrightarrow>
     distinct (map fst (concat xss)) \<and> (\<forall>(t, c) \<in> set (concat xss). n \<le> f t)"
proof (induction xss arbitrary: n)
  case Nil
  then show ?case by simp
next
  case (Cons xs xss)
  have "distinct (map fst (concat xss)) \<and> (\<forall>(t, c) \<in> set (concat xss). Suc n \<le> f t)"
  proof (rule Cons.IH)
    fix i assume "i < length xss"
    then show "distinct (map fst (xss ! i))" using Cons.prems(1) [of "Suc i"] by simp
  next
    fix i t c assume "i < length xss" "(t, c) \<in> set (xss ! i)"
    then show "f t = Suc n + i" using Cons.prems(2) [of "Suc i" t c] by simp
  qed
  moreover have "distinct (map fst xs)" "\<And>t c. (t, c) \<in> set xs \<Longrightarrow> f t = n"
    using Cons.prems(1) [of 0] Cons.prems(2) [of 0] by auto
  ultimately show ?case by (fastforce simp: image_iff)
qed

lemma all_votes_distinct: "wf_engine e \<Longrightarrow> distinct (map fst (all_votes e))"
  using concat_distinct_keys [of "map shVotes (eShards e)" "Partition e" 0]
  by (fastforce simp: wf_engine_def wf_shard_def all_votes_def)

lemma map_of_all_votes: "wf_engine e \<Longrightarrow> map_of (all_votes e) = ballots e"
proof
  fix t assume wf: "wf_engine e"
  have mem: "(t, c) \<in> set (all_votes e) \<longleftrightarrow> (t, c) \<in> set (shVotes (eShards e ! Partition e t))" for c
    using wf wf_Partition_lt [OF wf, of t]
    by (fastforce simp: all_votes_def wf_engine_def wf_shard_def in_set_conv_nth [of _ "eShards e"])
  have "distinct (map fst (shVotes (eShards e ! Partition e t)))"
    using wf wf_Partition_lt [OF wf, of t] by (simp add: wf_engine_def wf_shard_def)
  then have "map_of (all_votes e) t = Some c \<longleftrightarrow> ballots e t = Some c" for c
    using mem all_votes_distinct [OF wf] by (simp add: ballots_def)
  then show "map_of (all_votes e) t = ballots e t" by (metis not_None_eq)
qed

section \<open>Concurrent submitters and a sealer\<close>

text \<open>
  The state of a run: the engine, the vote each shard's lock holder has been admitted to
  store (\<open>rHeld\<close>), how many shards the running \<^verbatim>\<open>Seal\<close> has summed up (\<open>rSealAt\<close>, with
  the partial result \<open>rSnap\<close>), and the snapshot returned last. Every step may read
  another clock value; the wall clock may go back.
\<close>

record vc_run =
  rEngine :: engine
  rHeld :: "nat \<Rightarrow> vc_input option"
  rSealAt :: "nat option"
  rSnap :: snapshot
  rDone :: "snapshot option"

inductive vc_step :: "vc_run \<Rightarrow> vc_run \<Rightarrow> bool" where
  reject: "\<not> vc_bad_input (eCfg (rEngine s)) inp \<Longrightarrow>
    rHeld s (Partition (rEngine s) (vcToken inp)) = None \<Longrightarrow>
    submit_decide (rEngine s) clock inp = Inl (r, seals) \<Longrightarrow>
    vc_step s (if seals then s\<lparr>rEngine := (rEngine s)\<lparr>eSealed := True\<rparr>\<rparr> else s)"
| admit: "\<not> vc_bad_input (eCfg (rEngine s)) inp \<Longrightarrow>
    i = Partition (rEngine s) (vcToken inp) \<Longrightarrow> rHeld s i = None \<Longrightarrow>
    submit_decide (rEngine s) clock inp = Inr () \<Longrightarrow>
    vc_step s (s\<lparr>rHeld := (rHeld s)(i := Some inp)\<rparr>)"
| store: "rHeld s i = Some inp \<Longrightarrow>
    vc_step s (s\<lparr>rEngine := fst (submit_store (rEngine s) inp), rHeld := (rHeld s)(i := None)\<rparr>)"
| seal_begin: "\<not> seal_refused (rEngine s) clock \<Longrightarrow> rSealAt s = None \<Longrightarrow>
    vc_step s (s\<lparr>rEngine := (rEngine s)\<lparr>eSealed := True\<rparr>, rSealAt := Some 0, rSnap := empty_snapshot\<rparr>)"
| seal_visit: "rSealAt s = Some k \<Longrightarrow> k < length (eShards (rEngine s)) \<Longrightarrow> rHeld s k = None \<Longrightarrow>
    vc_step s (s\<lparr>rSealAt := Some (Suc k), rSnap := add_shard (rSnap s) (eShards (rEngine s) ! k)\<rparr>)"
| seal_return: "rSealAt s = Some k \<Longrightarrow> k = length (eShards (rEngine s)) \<Longrightarrow>
    vc_step s (s\<lparr>rSealAt := None, rDone := Some (rSnap s)\<rparr>)"

definition vc_start :: "engine \<Rightarrow> vc_run" where
  "vc_start e = \<lparr>rEngine = e, rHeld = (\<lambda>_. None), rSealAt = None, rSnap = empty_snapshot, rDone = None\<rparr>"

definition aggregate :: "engine \<Rightarrow> snapshot" where
  "aggregate e = foldl add_shard empty_snapshot (eShards e)"

definition vc_inv :: "vc_run \<Rightarrow> bool" where
  "vc_inv s \<longleftrightarrow>
     wf_engine (rEngine s) \<and>
     (\<forall>i inp. rHeld s i = Some inp \<longrightarrow>
        i = Partition (rEngine s) (vcToken inp) \<and> storable (rEngine s) inp) \<and>
     (\<forall>k. rSealAt s = Some k \<longrightarrow> eSealed (rEngine s) \<and> k \<le> length (eShards (rEngine s)) \<and>
        (\<forall>j < k. rHeld s j = None) \<and>
        rSnap s = foldl add_shard empty_snapshot (take k (eShards (rEngine s)))) \<and>
     (\<forall>sn. rDone s = Some sn \<longrightarrow> eSealed (rEngine s) \<and>
        (\<forall>j < length (eShards (rEngine s)). rHeld s j = None) \<and> sn = aggregate (rEngine s))"

lemma sealed_admits_nothing: "eSealed e \<Longrightarrow> submit_decide e clock inp \<noteq> Inr ()"
  by (simp add: submit_decide_def Let_def)

lemma storable_seal [simp]: "storable (e\<lparr>eSealed := b\<rparr>) inp = storable e inp"
  by (simp add: storable_def Partition_def)

lemma Partition_seal [simp]: "Partition (e\<lparr>eSealed := b\<rparr>) t = Partition e t"
  by (simp add: Partition_def)

lemma aggregate_seal [simp]: "aggregate (e\<lparr>eSealed := b\<rparr>) = aggregate e"
  by (simp add: aggregate_def)

lemma submit_store_fields:
  "eCfg (fst (submit_store e inp)) = eCfg e" "eSealed (fst (submit_store e inp)) = eSealed e"
  "length (eShards (fst (submit_store e inp))) = length (eShards e)"
  "Partition (fst (submit_store e inp)) t = Partition e t"
  by (simp_all add: submit_store_def Let_def Partition_def)

lemma submit_store_other:
  "j \<noteq> Partition e (vcToken inp) \<Longrightarrow> eShards (fst (submit_store e inp)) ! j = eShards e ! j"
  by (simp add: submit_store_def Let_def)

lemma storable_store_other:
  "Partition e (vcToken v) \<noteq> Partition e (vcToken inp) \<Longrightarrow>
     storable (fst (submit_store e inp)) v = storable e v"
  by (simp add: storable_def submit_store_fields submit_store_other)

lemma take_store_other:
  assumes "k \<le> Partition e (vcToken inp)"
  shows "take k (eShards (fst (submit_store e inp))) = take k (eShards e)"
  using assms by (simp add: submit_store_def Let_def)

lemma vc_inv_wf: "vc_inv s \<Longrightarrow> wf_engine (rEngine s)"
  by (simp add: vc_inv_def)

lemma vc_inv_held:
  assumes "vc_inv s" and "rHeld s i = Some inp"
  shows "i = Partition (rEngine s) (vcToken inp)" and "storable (rEngine s) inp"
    and "i < length (eShards (rEngine s))" and "rDone s = None"
proof -
  show i: "i = Partition (rEngine s) (vcToken inp)" and "storable (rEngine s) inp"
    using assms by (simp_all add: vc_inv_def)
  show lt: "i < length (eShards (rEngine s))"
    unfolding i by (rule wf_Partition_lt [OF vc_inv_wf [OF assms(1)]])
  show "rDone s = None"
  proof (rule ccontr)
    assume "rDone s \<noteq> None"
    then obtain sn where "rDone s = Some sn" by auto
    with assms(1) lt have "rHeld s i = None" by (simp add: vc_inv_def)
    with assms(2) show False by simp
  qed
qed

lemma vc_inv_sealing:
  assumes "vc_inv s" and "rSealAt s = Some k"
  shows "eSealed (rEngine s)" "k \<le> length (eShards (rEngine s))" "j < k \<Longrightarrow> rHeld s j = None"
    "rSnap s = foldl add_shard empty_snapshot (take k (eShards (rEngine s)))"
  using assms by (simp_all add: vc_inv_def)

lemma vc_inv_done:
  assumes "vc_inv s" and "rDone s = Some sn"
  shows "eSealed (rEngine s)" "sn = aggregate (rEngine s)"
  using assms by (simp_all add: vc_inv_def)

lemma vc_step_store_inv:
  assumes inv: "vc_inv s" and held: "rHeld s i = Some inp"
  shows "vc_inv (s\<lparr>rEngine := fst (submit_store (rEngine s) inp), rHeld := (rHeld s)(i := None)\<rparr>)"
proof -
  let ?e = "rEngine s" and ?e' = "fst (submit_store (rEngine s) inp)"
  note h = vc_inv_held [OF inv held]
  have seal: "take k (eShards ?e') = take k (eShards ?e)" if "rSealAt s = Some k" for k
  proof (rule take_store_other)
    show "k \<le> Partition ?e (vcToken inp)"
      using vc_inv_sealing(3) [OF inv that, of i] held h(1) by (metis not_less option.distinct(1))
  qed
  have other: "storable ?e' v \<and> j = Partition ?e' (vcToken v)"
    if "rHeld s j = Some v" "j \<noteq> i" for j v
    using vc_inv_held [OF inv that(1)] that(2) h(1)
    by (simp add: storable_store_other submit_store_fields)
  have "wf_engine ?e'" by (rule wf_store [OF vc_inv_wf [OF inv] h(2)])
  with other show ?thesis
    unfolding vc_inv_def
    by (simp add: submit_store_fields h(4) seal vc_inv_sealing [OF inv] cong: conj_cong)
qed

lemma vc_step_inv: "vc_step s t \<Longrightarrow> vc_inv s \<Longrightarrow> vc_inv t"
proof (induction rule: vc_step.induct)
  case (reject s inp clock r seals)
  then show ?case by (auto simp: vc_inv_def)
next
  case (admit s inp i clock)
  then have "\<not> eSealed (rEngine s)" using sealed_admits_nothing by blast
  with admit show ?case by (auto simp: vc_inv_def intro: decide_storable)
next
  case (store s i inp)
  then show ?case by (intro vc_step_store_inv)
next
  case (seal_begin s clock)
  then show ?case by (auto simp: vc_inv_def)
next
  case (seal_visit s k)
  then show ?case by (auto simp: vc_inv_def take_Suc_conv_app_nth less_Suc_eq)
next
  case (seal_return s k)
  then show ?case by (auto simp: vc_inv_def aggregate_def)
qed

interpretation vc: transition_system "\<lambda>s. \<exists>e. wf_engine e \<and> s = vc_start e" vc_step vc_inv
proof
  show "vc_inv s" if "\<exists>e. wf_engine e \<and> s = vc_start e" for s
    using that by (auto simp: vc_inv_def vc_start_def)
  show "vc_inv t" if "vc_inv s" "vc_step s t" for s t
    using that(2,1) by (rule vc_step_inv)
qed

text \<open>What no step takes back: a seal, the votes stored, and the value of a returned snapshot.\<close>

definition vc_later :: "vc_run \<Rightarrow> vc_run \<Rightarrow> bool" where
  "vc_later s t \<longleftrightarrow> vc_inv s \<longrightarrow>
     vc_inv t \<and> (eSealed (rEngine s) \<longrightarrow> eSealed (rEngine t)) \<and>
     ballots (rEngine s) \<subseteq>\<^sub>m ballots (rEngine t) \<and>
     (rDone s \<noteq> None \<longrightarrow> eShards (rEngine t) = eShards (rEngine s) \<and> rDone t = rDone s)"

lemma vc_step_later: "vc_step s t \<Longrightarrow> vc_later s t"
proof (cases rule: vc_step.cases)
  fix i inp
  assume st: "vc_step s t" and held: "rHeld s i = Some inp"
    and t: "t = s\<lparr>rEngine := fst (submit_store (rEngine s) inp), rHeld := (rHeld s)(i := None)\<rparr>"
  show ?thesis unfolding vc_later_def
  proof
    assume inv: "vc_inv s"
    note h = vc_inv_held [OF inv held]
    have "ballots (rEngine s) \<subseteq>\<^sub>m ballots (rEngine t)"
      using ballots_store [OF vc_inv_wf [OF inv] h(2)] by (auto simp: t map_le_def dom_def)
    then show "vc_inv t \<and> (eSealed (rEngine s) \<longrightarrow> eSealed (rEngine t)) \<and>
        ballots (rEngine s) \<subseteq>\<^sub>m ballots (rEngine t) \<and>
        (rDone s \<noteq> None \<longrightarrow> eShards (rEngine t) = eShards (rEngine s) \<and> rDone t = rDone s)"
      using vc_step_inv [OF st inv] h(4) by (simp add: t submit_store_fields)
  qed
next
  fix k
  assume st: "vc_step s t" and at: "rSealAt s = Some k" "k = length (eShards (rEngine s))"
    and t: "t = s\<lparr>rSealAt := None, rDone := Some (rSnap s)\<rparr>"
  have "rDone t = rDone s" if "vc_inv s" "rDone s = Some sn" for sn
    using vc_inv_sealing(4) [OF that(1) at(1)] vc_inv_done(2) [OF that]
    by (simp add: t that(2) at(2) aggregate_def)
  then show ?thesis
    using vc_step_inv [OF st] by (auto simp: vc_later_def t)
qed (use vc_step_inv in \<open>auto simp: vc_later_def\<close>)

interpretation vc_mono: monotone_steps vc_step vc_later
proof
  show "vc_later s s" for s by (simp add: vc_later_def)
  show "vc_later s u" if "vc_later s t" "vc_later t u" for s t u
    using that map_le_trans [of "ballots (rEngine s)" "ballots (rEngine t)" "ballots (rEngine u)"]
    by (simp add: vc_later_def)
  show "vc_later s t" if "vc_step s t" for s t using that by (rule vc_step_later)
qed

lemma snapshot_of_aggregate: "wf_engine e \<Longrightarrow> snapshot_of e (aggregate e)"
  by (simp add: aggregate_def snapshot_of_shards)

lemma snapshot_final_run:
  assumes "vc_inv s" and "rDone s = Some sn" and "vc_step\<^sup>*\<^sup>* s t"
  shows "snapshot_of (rEngine t) sn \<and> rDone t = Some sn \<and> eSealed (rEngine t)"
proof -
  have later: "vc_later s t" by (rule vc_mono.rel_run [OF assms(3)])
  with assms(1,2) have inv: "vc_inv t" and kept: "rDone t = Some sn" by (auto simp: vc_later_def)
  then have "wf_engine (rEngine t)" "sn = aggregate (rEngine t)" "eSealed (rEngine t)"
    by (auto simp: vc_inv_def)
  with kept show ?thesis by (simp add: snapshot_of_aggregate)
qed

text \<open>Progress: a sealer is never stuck, once the lock holder of the next shard has stored.\<close>

lemma sealer_can_move:
  assumes "vc_inv s" and "rSealAt s = Some k"
  shows "\<exists>t. vc_step s t"
proof -
  have "k \<le> length (eShards (rEngine s))" using assms by (simp add: vc_inv_def)
  then consider "k = length (eShards (rEngine s))" | "k < length (eShards (rEngine s))" "rHeld s k = None"
    | inp where "rHeld s k = Some inp"
    by (cases "rHeld s k") (auto simp: le_less)
  then show ?thesis
    by cases (use assms in \<open>auto intro: vc_step.intros\<close>)
qed

end
