(* ===== verification/Votecore_Props.thy ===== *)
theory Votecore_Props
  imports Votecore_Run "HOL-Library.Multiset"
begin

text \<open>
  The properties of the in-memory core, over runs of \<open>Submit\<close> from a fresh engine and over
  the concurrent runs of \<open>vc_step\<close>, with a small engine that serves as their witness.
\<close>

section \<open>A sequence of submissions and its accepted votes\<close>

fun run_submits :: "engine \<Rightarrow> (time \<times> vc_input) list \<Rightarrow> engine \<times> vc_result list" where
  "run_submits e [] = (e, [])"
| "run_submits e ((clock, inp) # evs) =
     (case Submit e clock inp of (e1, r) \<Rightarrow>
        (case run_submits e1 evs of (e2, rs) \<Rightarrow> (e2, r # rs)))"

definition accepted_votes :: "(time \<times> vc_input) list \<Rightarrow> vc_result list \<Rightarrow> (byte list \<times> u32) list" where
  "accepted_votes evs rs =
     [(vcToken inp, vcChoice inp). ((clock, inp), r) \<leftarrow> zip evs rs, resStatus r = Accepted]"

lemma accepted_votes_Nil [simp]: "accepted_votes [] rs = []"
  by (simp add: accepted_votes_def)

lemma accepted_votes_Cons [simp]:
  "accepted_votes ((clock, inp) # evs) (r # rs) =
     (if resStatus r = Accepted then [(vcToken inp, vcChoice inp)] else []) @ accepted_votes evs rs"
  by (simp add: accepted_votes_def)

lemma run_submits_log:
  "run_submits e evs = (e', rs) \<Longrightarrow>
     e' = foldl submit_event e evs \<and> accepted_votes evs rs = core.accepted_log e evs"
proof (induction evs arbitrary: e e' rs)
  case Nil
  then show ?case by simp
next
  case (Cons ev evs)
  obtain clock inp where ev: "ev = (clock, inp)" by (cases ev)
  obtain e1 r where s: "Submit e clock inp = (e1, r)" by (cases "Submit e clock inp")
  obtain e2 rs' where run: "run_submits e1 evs = (e2, rs')" by (cases "run_submits e1 evs")
  have "submit_event e (clock, inp) = e1"
    and "recorded e (clock, inp) = (if resStatus r = Accepted then Some (vcToken inp, vcChoice inp) else None)"
    by (simp_all add: submit_event_def recorded_def s)
  with Cons.IH [OF run] Cons.prems show ?case by (auto simp: ev s run)
qed

lemma ballots_New: "New c = Inr e \<Longrightarrow> ballots e = Map.empty"
proof
  fix t assume new: "New c = Inr e"
  then have "Partition e t < length (eShards e)" by (intro wf_Partition_lt New_wf)
  with new show "ballots e t = None"
    by (auto simp: ballots_def New_def empty_shard_def split: if_splits)
qed

lemma run_submits_votes:
  assumes "New c = Inr e" and "run_submits e evs = (e', rs)"
  shows "wf_engine e'" and "ballots e' = map_of (accepted_votes evs rs)"
    and "distinct (map fst (accepted_votes evs rs))"
proof -
  note wf = New_wf [OF assms(1)] and log = run_submits_log [OF assms(2)]
  from core.inv_run [OF wf, of evs] show "wf_engine e'" by (simp add: log)
  from core.lookup_log [OF wf, of evs] show "ballots e' = map_of (accepted_votes evs rs)"
    and "distinct (map fst (accepted_votes evs rs))"
    by (simp_all add: log ballots_New [OF assms(1)])
qed

lemma same_map_same_tally:
  assumes "map_of xs = map_of ys" and "distinct (map fst xs)" and "distinct (map fst ys)"
  shows "length xs = length ys" and "tally k xs = tally k ys"
proof -
  have set: "set xs = set ys"
    using assms by (metis map_of_inject_set)
  with assms have m: "mset xs = mset ys"
    by (simp add: distinct_map set_eq_iff_mset_eq_distinct [symmetric])
  then show "length xs = length ys" by (rule mset_eq_length)
  show "tally k xs = tally k ys"
    unfolding tally_def using m by (metis mset_filter size_mset)
qed

lemma run_submits_snapshot:
  assumes new: "New c = Inr e" and run: "run_submits e evs = (e', rs)" and sn: "snapshot_of e' sn"
  shows "snTotal sn = length (accepted_votes evs rs)"
    and "k < 32 \<Longrightarrow> snCounts sn ! k = tally k (accepted_votes evs rs)"
proof -
  note r = run_submits_votes [OF new run]
  have "map_of (all_votes e') = map_of (accepted_votes evs rs)"
    by (simp add: map_of_all_votes [OF r(1)] r(2))
  note eq = same_map_same_tally [OF this all_votes_distinct [OF r(1)] r(3)]
  from sn eq show "snTotal sn = length (accepted_votes evs rs)"
    and "k < 32 \<Longrightarrow> snCounts sn ! k = tally k (accepted_votes evs rs)"
    by (simp_all add: snapshot_of_def)
qed

lemma Submit_cfg: "Submit e clock inp = (e1, r) \<Longrightarrow> eCfg e1 = eCfg e"
  by (cases rule: Submit_cases [of e inp clock]) (auto simp: submit_store_def Let_def)

lemma run_submits_same_cfg: "run_submits e evs = (e', rs) \<Longrightarrow> eCfg e' = eCfg e"
  by (induction e evs arbitrary: e' rs rule: run_submits.induct)
    (fastforce split: prod.splits dest: Submit_cfg)+

lemma run_submits_cfg: "New c = Inr e \<Longrightarrow> run_submits e evs = (e', rs) \<Longrightarrow> eCfg e' = c"
  using run_submits_same_cfg [of e evs e' rs] by (auto simp: New_def split: if_splits)

lemma sealed_stays_closed:
  "eSealed e \<Longrightarrow> eSealed (fst (Submit e clock inp)) \<and> resStatus (snd (Submit e clock inp)) \<noteq> Accepted \<and>
     eShards (fst (Submit e clock inp)) = eShards e"
  by (simp add: Submit_def submit_decide_def Let_def mk_result_def)

section \<open>A small engine\<close>

definition demo_config :: vc_config where
  "demo_config = \<lparr>vcPollID = replicate 16 7, vcStartsAt = 0, vcEndsAt = minute, vcAllowedMask = 7,
     vcMultiple = True, vcShards = 1, vcCapacity = 2\<rparr>"

definition demo_input :: "byte \<Rightarrow> u32 \<Rightarrow> vc_input" where
  "demo_input n c = \<lparr>vcToken = [n, 0, 0, 0, 0, 0, 0, 0, 0, 0, 0, 0, 0, 0, 0, 0], vcChoice = c\<rparr>"

definition demo_engine :: engine where
  "demo_engine = \<lparr>eCfg = demo_config, eStartNS = 0, eEndNS = 60000000000,
     eShards = [empty_shard 2], eSealed = False\<rparr>"

lemma demo_New: "New demo_config = Inr demo_engine"
  by (simp add: New_def demo_config_def demo_engine_def vc_config_bad_def zero16_def time_sub_def
      is_zero_time_def jan1_def unixNano_def shard_limit_def Let_def word_less_nat_alt)

text \<open>An engine of one shard keeps every token in it.\<close>

lemma one_shard_Partition: "length (eShards e) = 1 \<Longrightarrow> Partition e t = 0"
  by (simp add: Partition_def)

lemma zero16_list: "zero16 = [0, 0, 0, 0, 0, 0, 0, 0, 0, 0, 0, 0, 0, 0, 0, 0]"
  by (simp add: zero16_def numeral_eq_Suc)

lemma counts32_list: "replicate 32 (0 :: nat) =
    [0, 0, 0, 0, 0, 0, 0, 0, 0, 0, 0, 0, 0, 0, 0, 0, 0, 0, 0, 0, 0, 0, 0, 0, 0, 0, 0, 0, 0, 0, 0, 0]"
  by (simp add: numeral_eq_Suc)

lemmas demo_eval = counts32_list demo_engine_def demo_config_def demo_input_def one_shard_Partition Submit_def
  vc_bad_input_def zero16_list submit_decide_def Let_def mk_result_def empty_shard_def unixNano_def
  submit_store_def store_vote_def onesCount32_def trailingZeros32_def bump_counts.simps
  word_sless_alt word_sle_eq

definition demo_events :: "(time \<times> vc_input) list" where
  "demo_events = [(5, demo_input 1 5), (4, demo_input 1 2), (9, demo_input 2 1), (20, demo_input 3 4)]"

lemma demo_run: "\<exists>e'. run_submits demo_engine demo_events = (e', map2 vc_result.make
    [Accepted, Duplicate, Accepted, CapacityExceeded] [5, 5, 1, 0])"
  by (simp add: demo_events_def demo_eval vc_result.make_def)

lemma demo_run_obtain:
  obtains e' rs where "run_submits demo_engine demo_events = (e', rs)"
    and "accepted_votes demo_events rs = [(vcToken (demo_input 1 5), 5), (vcToken (demo_input 2 1), 1)]"
proof -
  from demo_run obtain e' where run: "run_submits demo_engine demo_events = (e', map2 vc_result.make
    [Accepted, Duplicate, Accepted, CapacityExceeded] [5, 5, 1, 0])" ..
  then show ?thesis
    by (rule that) (simp add: demo_events_def demo_input_def vc_result.make_def)
qed

section \<open>Properties\<close>

text \<open>C1. Whatever is submitted to a fresh engine, under whatever clock values, each voter token is
  accepted at most once, and \<^verbatim>\<open>Lookup\<close> returns exactly the choice of the accepted submission of
  that token, or nothing when there was none.\<close>

theorem core_lookup_exact:
  assumes "New c = Inr e" and "run_submits e evs = (e', rs)"
  shows "distinct (map fst (accepted_votes evs rs)) \<and>
    Lookup e' t = (case map_of (accepted_votes evs rs) t of None \<Rightarrow> (0, False) | Some choice \<Rightarrow> (choice, True))"
  using run_submits_votes [OF assms] by (simp add: Lookup_ballots)

theorem core_lookup_exact_witness:
  "\<exists>e' rs. run_submits demo_engine demo_events = (e', rs) \<and>
     Lookup e' (vcToken (demo_input 1 2)) = (5, True) \<and> Lookup e' (vcToken (demo_input 3 4)) = (0, False)"
proof -
  obtain e' rs where run: "run_submits demo_engine demo_events = (e', rs)"
    and acc: "accepted_votes demo_events rs = [(vcToken (demo_input 1 5), 5), (vcToken (demo_input 2 1), 1)]"
    by (rule demo_run_obtain)
  note at = core_lookup_exact [OF demo_New run]
  have "Lookup e' (vcToken (demo_input 1 2)) = (5, True)" "Lookup e' (vcToken (demo_input 3 4)) = (0, False)"
    using at [of "vcToken (demo_input 1 2)"] at [of "vcToken (demo_input 3 4)"]
    by (simp_all add: acc demo_input_def)
  with run show ?thesis by blast
qed

text \<open>When \<^verbatim>\<open>Seal\<close> succeeds, the snapshot counts exactly the accepted submissions: the total
  is their number, counter \<open>k\<close> is the number of them that chose option bit \<open>k\<close>, and a later
  \<^verbatim>\<open>Seal\<close>, under any clock, returns the same snapshot.\<close>

theorem core_seal_counts_accepted:
  assumes "New c = Inr e" and "run_submits e evs = (e', rs)" and "Seal e' clock = (e'', Inr sn)"
  shows "snTotal sn = length (accepted_votes evs rs) \<and> length (snCounts sn) = 32 \<and>
    (\<forall>k < 32. snCounts sn ! k = length (filter (\<lambda>(token, choice). bit choice k) (accepted_votes evs rs))) \<and>
    Seal e'' later = (e'', Inr sn)"
proof -
  note r = run_submits_votes [OF assms(1,2)]
  have sn: "sn = aggregate e'" and e'': "e'' = e'\<lparr>eSealed := True\<rparr>"
    using assms(3) by (auto simp: Seal_def aggregate_def split: if_splits)
  have "snapshot_of e' sn" unfolding sn by (rule snapshot_of_aggregate [OF r(1)])
  with run_submits_snapshot [OF assms(1,2) this] show ?thesis
    by (simp add: snapshot_of_def tally_def Seal_def seal_refused_def e'' sn aggregate_def)
qed

theorem core_seal_counts_accepted_witness:
  "\<exists>e' rs e'' sn. run_submits demo_engine demo_events = (e', rs) \<and> Seal e' minute = (e'', Inr sn) \<and>
     snTotal sn = 2 \<and> snCounts sn ! 0 = 2 \<and> snCounts sn ! 2 = 1"
proof -
  obtain e' rs where run: "run_submits demo_engine demo_events = (e', rs)"
    and acc: "accepted_votes demo_events rs = [(vcToken (demo_input 1 5), 5), (vcToken (demo_input 2 1), 1)]"
    by (rule demo_run_obtain)
  have "\<not> seal_refused e' minute"
    using run_submits_votes(1) [OF demo_New run] run_submits_cfg [OF demo_New run]
    by (simp add: seal_refused_def wf_engine_def demo_config_def)
  then obtain e'' sn where seal: "Seal e' minute = (e'', Inr sn)" by (simp add: Seal_def)
  from core_seal_counts_accepted [OF demo_New run seal]
  have "snTotal sn = 2 \<and> snCounts sn ! 0 = 2 \<and> snCounts sn ! 2 = 1"
    by (simp add: acc bit_numeral_rec(1) bit_numeral_rec(2) del: bit_numeral_rec)
  with run seal show ?thesis by blast
qed


text \<open>The witness run: a vote is admitted, the sealer starts while that vote is held, the vote is
  stored, and the sealer then sums the shard up.\<close>

definition demo_held :: vc_run where
  "demo_held = (vc_start demo_engine)\<lparr>rHeld := (\<lambda>_. None)(0 := Some (demo_input 1 5))\<rparr>"

definition demo_sealing :: vc_run where
  "demo_sealing = demo_held\<lparr>rEngine := demo_engine\<lparr>eSealed := True\<rparr>, rSealAt := Some 0\<rparr>"

lemma demo_vc_run:
  "\<exists>s. vc_step\<^sup>*\<^sup>* (vc_start demo_engine) s \<and>
     rDone s = Some (add_shard empty_snapshot (store_vote (demo_input 1 5) (empty_shard 2)))"
proof -
  have 1: "vc_step (vc_start demo_engine) demo_held"
    using vc_step.admit [of "vc_start demo_engine" "demo_input 1 5" 0 5]
    by (simp add: demo_held_def vc_start_def demo_eval)
  have 2: "vc_step demo_held demo_sealing"
    using vc_step.seal_begin [of demo_held minute]
    by (simp add: demo_held_def demo_sealing_def vc_start_def seal_refused_def demo_engine_def
        unixNano_def word_sless_alt)
  let ?s3 = "demo_sealing\<lparr>rEngine := fst (submit_store (rEngine demo_sealing) (demo_input 1 5)),
    rHeld := (rHeld demo_sealing)(0 := None)\<rparr>"
  have 3: "vc_step demo_sealing ?s3"
    by (rule vc_step.store) (simp add: demo_sealing_def demo_held_def)
  have len: "eShards (rEngine ?s3) = [store_vote (demo_input 1 5) (empty_shard 2)]"
    by (simp add: demo_sealing_def submit_store_def Let_def one_shard_Partition demo_engine_def)
  let ?s4 = "?s3\<lparr>rSealAt := Some (Suc 0), rSnap := add_shard (rSnap ?s3) (eShards (rEngine ?s3) ! 0)\<rparr>"
  have 4: "vc_step ?s3 ?s4"
    by (rule vc_step.seal_visit) (unfold len, simp_all add: demo_sealing_def)
  have 5: "vc_step ?s4 (?s4\<lparr>rSealAt := None, rDone := Some (rSnap ?s4)\<rparr>)"
    by (rule vc_step.seal_return [where k = "Suc 0"]) (use len in simp_all)
  have snap: "rSnap ?s4 = add_shard empty_snapshot (store_vote (demo_input 1 5) (empty_shard 2))"
    unfolding len by (simp add: demo_sealing_def demo_held_def vc_start_def)
  from 1 2 3 4 5 have "vc_step\<^sup>*\<^sup>* (vc_start demo_engine) (?s4\<lparr>rSealAt := None, rDone := Some (rSnap ?s4)\<rparr>)"
    by (meson converse_rtranclp_into_rtranclp rtranclp.rtrancl_refl)
  with snap show ?thesis by fastforce
qed


definition shard_full :: "engine \<Rightarrow> byte list \<Rightarrow> bool" where
  "shard_full e token \<longleftrightarrow>
     (let s = eShards e ! Partition e token in shCapacity s \<le> length (shVotes s))"

lemma sless_unixNano: "nano_range a \<Longrightarrow> nano_range b \<Longrightarrow> unixNano a <s unixNano b \<longleftrightarrow> a < b"
  by (simp add: word_sless_alt timeOfNano_unixNano [unfolded timeOfNano_def])

lemma sle_unixNano: "nano_range a \<Longrightarrow> nano_range b \<Longrightarrow> unixNano a \<le>s unixNano b \<longleftrightarrow> a \<le> b"
  by (simp add: word_sle_eq timeOfNano_unixNano [unfolded timeOfNano_def])

lemma Submit_admitted:
  assumes "wf_engine e" and "\<not> vc_bad_input (eCfg e) inp" and "\<not> eSealed e"
    and "\<not> unixNano clock <s eStartNS e" and "\<not> eEndNS e \<le>s unixNano clock"
  shows "ballots e (vcToken inp) = Some choice \<Longrightarrow>
      Submit e clock inp = (e, \<lparr>resStatus = Duplicate, resChoice = choice\<rparr>)"
    and "ballots e (vcToken inp) = None \<Longrightarrow> shard_full e (vcToken inp) \<Longrightarrow>
      Submit e clock inp = (e, \<lparr>resStatus = CapacityExceeded, resChoice = 0\<rparr>)"
    and "ballots e (vcToken inp) = None \<Longrightarrow> \<not> shard_full e (vcToken inp) \<Longrightarrow>
      Submit e clock inp = submit_store e inp \<and> storable e inp"
proof -
  note simps = Submit_def submit_decide_def Let_def mk_result_def ballots_def shard_full_def
  show "Submit e clock inp = (e, \<lparr>resStatus = Duplicate, resChoice = choice\<rparr>)"
    if "ballots e (vcToken inp) = Some choice"
    using that wf_vote_nonzero(1) [OF assms(1) _ wf_Partition_lt [OF assms(1)]] assms
    by (simp add: simps)
  show "Submit e clock inp = (e, \<lparr>resStatus = CapacityExceeded, resChoice = 0\<rparr>)"
    if "ballots e (vcToken inp) = None" "shard_full e (vcToken inp)"
    using that assms by (simp add: simps)
  show "Submit e clock inp = submit_store e inp \<and> storable e inp"
    if "ballots e (vcToken inp) = None" "\<not> shard_full e (vcToken inp)"
  proof -
    from that assms have dec: "submit_decide e clock inp = Inr ()" by (simp add: simps)
    with assms(2) decide_storable [OF assms(1,2) dec] show ?thesis by (simp add: Submit_def)
  qed
qed

text \<open>C21. Inside the admission window of an unsealed engine, a valid submission is answered by what
  \<^verbatim>\<open>Lookup\<close> says of its token: a duplicate gets the first choice back and changes nothing; a new
  token is refused without a change when its shard is full; otherwise it is accepted, becomes
  visible to \<^verbatim>\<open>Lookup\<close>, and no other token's choice changes.\<close>

theorem core_submit_in_window:
  assumes "New c = Inr e0" and "run_submits e0 evs = (e, rs)"
    and "nano_range (vcStartsAt c)" and "nano_range (vcEndsAt c)"
    and "vcStartsAt c \<le> clock" and "clock < vcEndsAt c"
    and "\<not> eSealed e" and "\<not> vc_bad_input c inp"
  shows "case Lookup e (vcToken inp) of
      (previous, True) \<Rightarrow> Submit e clock inp = (e, \<lparr>resStatus = Duplicate, resChoice = previous\<rparr>)
    | (_, False) \<Rightarrow>
        if shard_full e (vcToken inp)
        then Submit e clock inp = (e, \<lparr>resStatus = CapacityExceeded, resChoice = 0\<rparr>)
        else snd (Submit e clock inp) = \<lparr>resStatus = Accepted, resChoice = vcChoice inp\<rparr> \<and>
          Lookup (fst (Submit e clock inp)) = (Lookup e)(vcToken inp := (vcChoice inp, True))"
proof -
  note wf = run_submits_votes(1) [OF assms(1,2)] and cfg = run_submits_cfg [OF assms(1,2)]
  have nano: "nano_range clock" by (rule nano_range_between [OF assms(3-6)])
  have window: "\<not> unixNano clock <s eStartNS e" "\<not> eEndNS e \<le>s unixNano clock"
    using wf assms nano by (simp_all add: wf_engine_def cfg sless_unixNano sle_unixNano)
  have valid: "\<not> vc_bad_input (eCfg e) inp" using assms(8) by (simp add: cfg)
  note adm = Submit_admitted [OF wf valid assms(7) window]
  show ?thesis
  proof (cases "ballots e (vcToken inp)")
    case (Some choice)
    with adm(1) show ?thesis by (simp add: Lookup_ballots)
  next
    case None
    with adm(2,3) ballots_store(2) [OF wf] show ?thesis
      by (auto simp: Lookup_ballots fun_eq_iff submit_store_def Let_def)
  qed
qed

theorem core_submit_in_window_witness:
  "snd (Submit demo_engine 7 (demo_input 9 4)) = \<lparr>resStatus = Accepted, resChoice = 4\<rparr>"
proof -
  have run: "run_submits demo_engine [] = (demo_engine, [])" by simp
  have fresh: "Lookup demo_engine (vcToken (demo_input 9 4)) = (0, False)"
    "\<not> shard_full demo_engine (vcToken (demo_input 9 4))"
    by (simp_all add: Lookup_def shard_full_def demo_eval)
  from core_submit_in_window [OF demo_New run, of 7 "demo_input 9 4"] fresh show ?thesis
    by (simp add: nano_range_def demo_config_def) (simp add: demo_eval)
qed

text \<open>Closing is irreversible: after a successful \<^verbatim>\<open>Seal\<close> every submission, whatever the clock says
  later, is answered \<^verbatim>\<open>Closed\<close> (or \<^verbatim>\<open>Invalid\<close>, when it is malformed) with nothing stored, and the
  seal itself never happens before the deadline unless the engine had already observed it.\<close>

theorem core_closed_irreversible:
  assumes "Seal e clock = (e1, Inr sn)" and "run_submits e1 evs = (e2, rs)"
  shows "(\<forall>r \<in> set rs. resStatus r = Closed \<or> resStatus r = Invalid) \<and> e2 = e1 \<and>
    (eSealed e \<or> eEndNS e \<le>s unixNano clock)"
proof -
  have sealed: "eSealed e1" and time: "eSealed e \<or> eEndNS e \<le>s unixNano clock"
    using assms(1) by (auto simp: Seal_def seal_refused_def word_sless_alt word_sle_eq split: if_splits)
  have step: "fst (Submit e clock inp) = e \<and> resStatus (snd (Submit e clock inp)) \<in> {Closed, Invalid}"
    if "eSealed e" for e clock inp
    using that by (simp add: Submit_def submit_decide_def Let_def mk_result_def)
  have "eSealed e1 \<Longrightarrow> run_submits e1 evs = (e2, rs) \<Longrightarrow>
      (\<forall>r \<in> set rs. resStatus r = Closed \<or> resStatus r = Invalid) \<and> e2 = e1"
  proof (induction evs arbitrary: e2 rs)
    case (Cons ev evs)
    obtain clock inp where ev: "ev = (clock, inp)" by (cases ev)
    from step [OF Cons.prems(1), of clock inp]
    obtain r where "Submit e1 clock inp = (e1, r)" "resStatus r = Closed \<or> resStatus r = Invalid"
      by (metis insert_iff prod.collapse singletonD)
    with Cons show ?case by (auto simp: ev split: prod.splits)
  qed simp
  with sealed assms(2) time show ?thesis by simp
qed

theorem core_closed_irreversible_witness:
  "\<exists>e1 sn e2 r. Seal demo_engine minute = (e1, Inr sn) \<and> run_submits e1 [(0, demo_input 1 5)] = (e2, [r]) \<and>
     (resStatus r = Closed \<or> resStatus r = Invalid)"
proof -
  obtain e1 sn where seal: "Seal demo_engine minute = (e1, Inr sn)"
    by (simp add: Seal_def seal_refused_def demo_eval)
  have run: "run_submits e1 [(0, demo_input 1 5)]
      = (fst (Submit e1 0 (demo_input 1 5)), [snd (Submit e1 0 (demo_input 1 5))])"
    by (simp split: prod.splits)
  from core_closed_irreversible [OF seal run] seal run show ?thesis by auto
qed

text \<open>A new engine splits its capacity exactly: the limits of the shards add up to
  \<^verbatim>\<open>Capacity\<close>, no two differ by more than one and none is empty, and however many submissions
  follow, the number of accepted votes stays within it.\<close>

theorem core_capacity_bound:
  assumes "New c = Inr e" and "run_submits e evs = (e', rs)"
  shows "sum_list (map shCapacity (eShards e)) = unat (vcCapacity c) \<and>
    (\<forall>i < length (eShards e). \<forall>j < length (eShards e). 1 \<le> shCapacity (eShards e ! i) \<and>
       shCapacity (eShards e ! i) \<le> shCapacity (eShards e ! j) + 1) \<and>
    length (accepted_votes evs rs) \<le> unat (vcCapacity c)"
proof -
  note wf = New_wf [OF assms(1)] and r = run_submits_votes [OF assms]
  have cfg: "eCfg e = c" and bad: "\<not> vc_config_bad c"
    using assms(1) by (auto simp: New_def split: if_splits)
  have sum: "sum_list (map shCapacity (eShards e)) = unat (vcCapacity c)"
    using wf_total_capacity [OF wf] by (simp add: total_capacity_def cfg)
  have n: "word_of_int (vcShards c) \<le> vcCapacity c" "1 \<le> vcShards c" "vcShards c \<le> 4096"
    using bad by (auto simp: vc_config_bad_def)
  have "unat (word_of_int (vcShards c) :: u64) = nat (vcShards c)"
    using n(2,3) by (simp add: unsigned_of_int take_bit_int_eq_self)
  with n(1) have "nat (vcShards c) \<le> unat (vcCapacity c)" by (simp add: word_le_nat_alt)
  then have base: "1 \<le> unat (vcCapacity c) div nat (vcShards c)"
    using n(2) div_le_mono [of "nat (vcShards c)" "unat (vcCapacity c)" "nat (vcShards c)"] by simp
  have lim: "shCapacity (eShards e ! i) = unat (vcCapacity c) div nat (vcShards c)
      + (if i < unat (vcCapacity c) mod nat (vcShards c) then 1 else 0)" if "i < length (eShards e)" for i
    using wf that shard_limit_nat [OF bad, of i] by (simp add: wf_engine_def wf_shard_def cfg)
  have "length (accepted_votes evs rs) = length (all_votes e')"
    using same_map_same_tally(1) [OF _ all_votes_distinct [OF r(1)] r(3)]
    by (simp add: map_of_all_votes [OF r(1)] r(2))
  also have "\<dots> \<le> unat (vcCapacity c)"
    using all_votes_le_capacity [OF r(1)] by (simp add: wf_total_capacity [OF r(1)] run_submits_cfg [OF assms])
  finally show ?thesis using sum base by (auto simp: lim)
qed

theorem core_capacity_bound_witness:
  "\<exists>e' rs. run_submits demo_engine demo_events = (e', rs) \<and>
     length (accepted_votes demo_events rs) \<le> 2 \<and> shCapacity (eShards demo_engine ! 0) \<ge> 1"
proof -
  obtain e' rs where run: "run_submits demo_engine demo_events = (e', rs)" by fastforce
  from core_capacity_bound [OF demo_New run] run show ?thesis
    by (auto simp: demo_config_def demo_engine_def)
qed

end
