(* ===== verification/Poll.thy ===== *)
theory Poll
  imports Gq_Prelude
begin

text \<open>
  The poll domain (\<^verbatim>\<open>internal/poll/poll.go\<close>): the state a poll shows at an instant, the
  validation of a new poll, and the normal form of a set of chosen options.

  A Go string is a list of runes (code points): \<^verbatim>\<open>utf8.RuneCountInString\<close> is its length.
  The strings of this package are texts, decoded from JSON, so they are valid UTF-8.
  \<^verbatim>\<open>unicode.ToLower\<close> is a data table of the standard library, and is the parameter
  \<open>lower\<close>; nothing is assumed of it.
\<close>

section \<open>Runes\<close>

type_synonym rune = nat

text \<open>\<^verbatim>\<open>unicode.IsSpace\<close> and \<^verbatim>\<open>strings.TrimSpace\<close>.\<close>

definition isSpace :: "rune \<Rightarrow> bool" where
  "isSpace r \<longleftrightarrow> r \<in> {9, 10, 11, 12, 13, 32, 133, 160, 5760, 8232, 8233, 8239, 8287, 12288}
     \<or> (8192 \<le> r \<and> r \<le> 8202)"

definition trimSpace :: "rune list \<Rightarrow> rune list" where
  "trimSpace s = rev (dropWhile isSpace (rev (dropWhile isSpace s)))"

lemma dropWhile_idem: "dropWhile P (dropWhile P xs) = dropWhile P xs"
  by (induction xs) auto

lemma trimSpace_fix:
  "s = [] \<or> (\<not> isSpace (hd s) \<and> \<not> isSpace (last s)) \<Longrightarrow> trimSpace s = s"
  using dropWhile_eq_self_iff [of isSpace s] dropWhile_eq_self_iff [of isSpace "rev s"]
  by (auto simp: trimSpace_def hd_rev)

lemma trimSpace_ends:
  "trimSpace s = [] \<or> (\<not> isSpace (hd (trimSpace s)) \<and> \<not> isSpace (last (trimSpace s)))"
proof -
  let ?d = "dropWhile isSpace s"
  have "trimSpace s = [] \<or> \<not> isSpace (last (trimSpace s))"
    using hd_dropWhile [of isSpace "rev ?d"] by (auto simp: trimSpace_def last_rev)
  moreover have "trimSpace s = [] \<or> \<not> isSpace (hd (trimSpace s))"
  proof (cases "trimSpace s")
    case (Cons a xs)
    have "?d = trimSpace s @ rev (takeWhile isSpace (rev ?d))"
      by (metis trimSpace_def rev_append rev_rev_ident takeWhile_dropWhile_id)
    then have "?d \<noteq> [] \<and> hd ?d = a" using Cons by (metis append_Cons list.sel(1) list.distinct(1))
    with Cons show ?thesis by (metis hd_dropWhile list.sel(1))
  qed simp
  ultimately show ?thesis by blast
qed

lemma trimSpace_idem [simp]: "trimSpace (trimSpace s) = trimSpace s"
  by (rule trimSpace_fix) (use trimSpace_ends in blast)

section \<open>Polls and their state\<close>

record option_t =
  optID :: int
  optLabel :: "rune list"

record poll =
  pollID :: string
  pollQuestion :: "rune list"
  pollType :: string
  pollOptions :: "option_t list"
  pollStartsAt :: time
  pollEndsAt :: time
  pollCreatedAt :: time
  pollFinalizedAt :: "time option"

definition State :: "poll \<Rightarrow> time \<Rightarrow> string" where
  "State p now =
     (if pollFinalizedAt p \<noteq> None then ''final''
      else if now < pollStartsAt p then ''scheduled''
      else if now < pollEndsAt p then ''open''
      else ''processing'')"

text \<open>The order in which a poll goes through its states.\<close>

definition state_rank :: "string \<Rightarrow> nat" where
  "state_rank s = (if s = ''scheduled'' then 0 else if s = ''open'' then 1
     else if s = ''processing'' then 2 else 3)"

lemma State_rank:
  "state_rank (State p now) =
     (if pollFinalizedAt p \<noteq> None then 3 else if now < pollStartsAt p then 0
      else if now < pollEndsAt p then 1 else 2)"
  by (simp add: State_def state_rank_def)

section \<open>Creating a poll\<close>

record create_input =
  inQuestion :: "rune list"
  inType :: string
  inOptions :: "rune list list"
  inStartsAt :: "time option"

datatype create_error = QuestionLength | UnknownType | OptionCount | ABOptionCount
  | OptionLength | OptionsNotDistinct

text \<open>
  The loop over the options trims each one in place before it checks it, so an error
  leaves the earlier options trimmed; \<open>seen\<close> holds the lower-cased labels so far.
\<close>

fun validate_options ::
  "(rune \<Rightarrow> rune) \<Rightarrow> rune list set \<Rightarrow> rune list list \<Rightarrow> rune list list \<times> create_error option" where
  "validate_options lower seen [] = ([], None)"
| "validate_options lower seen (x # xs) =
     (let t = trimSpace x in
      if length t < 1 \<or> length t > 100 then (t # xs, Some OptionLength)
      else let key = map lower t in
        if key \<in> seen then (t # xs, Some OptionsNotDistinct)
        else let (ys, e) = validate_options lower (insert key seen) xs in (t # ys, e))"

definition Validate ::
  "(rune \<Rightarrow> rune) \<Rightarrow> create_input \<Rightarrow> create_input \<times> create_error option" where
  "Validate lower inp =
     (let inp = inp\<lparr>inQuestion := trimSpace (inQuestion inp)\<rparr> in
      if length (inQuestion inp) < 1 \<or> length (inQuestion inp) > 300 then (inp, Some QuestionLength)
      else if inType inp \<noteq> ''ab'' \<and> inType inp \<noteq> ''single'' \<and> inType inp \<noteq> ''multiple''
      then (inp, Some UnknownType)
      else if length (inOptions inp) < 2 \<or> length (inOptions inp) > 20 then (inp, Some OptionCount)
      else if inType inp = ''ab'' \<and> length (inOptions inp) \<noteq> 2 then (inp, Some ABOptionCount)
      else let (os, e) = validate_options lower {} (inOptions inp) in (inp\<lparr>inOptions := os\<rparr>, e))"

lemma validate_options_ok:
  "snd (validate_options lower seen xs) = None \<longleftrightarrow>
     (\<forall>x \<in> set xs. 1 \<le> length (trimSpace x) \<and> length (trimSpace x) \<le> 100) \<and>
     distinct (map (map lower \<circ> trimSpace) xs) \<and>
     seen \<inter> set (map (map lower \<circ> trimSpace) xs) = {}"
  by (induction lower seen xs rule: validate_options.induct)
    (auto simp: Let_def case_prod_beta Suc_le_eq not_less)

lemma validate_options_trims:
  "snd (validate_options lower seen xs) = None \<Longrightarrow>
     fst (validate_options lower seen xs) = map trimSpace xs"
  by (induction lower seen xs rule: validate_options.induct)
    (auto simp: Let_def case_prod_beta split: if_splits)

text \<open>What an accepted poll is, stated without the order of the checks.\<close>

definition acceptable_poll :: "(rune \<Rightarrow> rune) \<Rightarrow> create_input \<Rightarrow> bool" where
  "acceptable_poll lower inp \<longleftrightarrow>
     length (trimSpace (inQuestion inp)) \<in> {1..300} \<and>
     inType inp \<in> {''ab'', ''single'', ''multiple''} \<and>
     length (inOptions inp) \<in> {2..20} \<and>
     (inType inp = ''ab'' \<longrightarrow> length (inOptions inp) = 2) \<and>
     (\<forall>x \<in> set (inOptions inp). length (trimSpace x) \<in> {1..100}) \<and>
     distinct (map (map lower \<circ> trimSpace) (inOptions inp))"

definition normal_input :: "create_input \<Rightarrow> create_input" where
  "normal_input inp =
     inp\<lparr>inQuestion := trimSpace (inQuestion inp), inOptions := map trimSpace (inOptions inp)\<rparr>"

lemma Validate_ok_iff: "snd (Validate lower inp) = None \<longleftrightarrow> acceptable_poll lower inp"
  by (auto simp: Validate_def acceptable_poll_def Let_def case_prod_beta validate_options_ok
      Suc_le_eq not_less)

lemma Validate_ok_result:
  "acceptable_poll lower inp \<Longrightarrow> Validate lower inp = (normal_input inp, None)"
  using validate_options_trims [of lower "{}" "inOptions inp"] Validate_ok_iff [of lower inp]
  by (auto simp: Validate_def normal_input_def Let_def case_prod_beta prod_eq_iff split: if_splits)

lemma acceptable_normal: "acceptable_poll lower (normal_input inp) \<longleftrightarrow> acceptable_poll lower inp"
  by (auto simp: acceptable_poll_def normal_input_def comp_def)

section \<open>Chosen options\<close>

datatype choice_error = ChoiceCount | InvalidOption | DuplicateOption

text \<open>The loop of \<^verbatim>\<open>NormalizeChoices\<close> over the sorted copy; \<open>prev\<close> is \<^verbatim>\<open>result[i-1]\<close>.\<close>

fun check_choices :: "int option \<Rightarrow> int list \<Rightarrow> choice_error option" where
  "check_choices prev [] = None"
| "check_choices prev (v # vs) =
     (if v < 1 \<or> v > 20 then Some InvalidOption
      else if prev = Some v then Some DuplicateOption
      else check_choices (Some v) vs)"

definition NormalizeChoices :: "int list \<Rightarrow> choice_error + int list" where
  "NormalizeChoices choices =
     (if length choices = 0 \<or> length choices > 20 then Inl ChoiceCount
      else let result = sort choices in
        case check_choices None result of Some e \<Rightarrow> Inl e | None \<Rightarrow> Inr result)"

lemma check_choices_ok:
  "sorted vs \<Longrightarrow> (\<And>p. prev = Some p \<Longrightarrow> \<forall>v \<in> set vs. p \<le> v) \<Longrightarrow>
     check_choices prev vs = None \<longleftrightarrow>
       (\<forall>v \<in> set vs. 1 \<le> v \<and> v \<le> 20) \<and> distinct vs \<and> (\<forall>p. prev = Some p \<longrightarrow> p \<notin> set vs)"
proof (induction vs arbitrary: prev)
  case Nil
  then show ?case by simp
next
  case (Cons v vs)
  from Cons.prems(1) have IH: "check_choices (Some v) vs = None \<longleftrightarrow>
      (\<forall>v \<in> set vs. 1 \<le> v \<and> v \<le> 20) \<and> distinct vs \<and> v \<notin> set vs"
    using Cons.IH [of "Some v"] by simp
  show ?case
  proof (cases prev)
    case None
    with IH show ?thesis by auto
  next
    case (Some p)
    with Cons.prems have "p \<le> v" "\<forall>w \<in> set vs. v \<le> w" by auto
    with IH Some show ?thesis by force
  qed
qed

text \<open>A set of options a ballot may carry: 1 to 20 different option identifiers.\<close>

definition choice_set :: "int list \<Rightarrow> bool" where
  "choice_set cs \<longleftrightarrow> cs \<noteq> [] \<and> distinct cs \<and> set cs \<subseteq> {1..20}"

lemma choice_set_length: "choice_set cs \<Longrightarrow> length cs \<le> 20"
proof -
  assume cs: "choice_set cs"
  then have "card (set cs) \<le> card {1..20 :: int}"
    by (intro card_mono) (auto simp: choice_set_def)
  with cs show ?thesis by (simp add: choice_set_def distinct_card)
qed

lemma NormalizeChoices_ok: "NormalizeChoices cs = Inr r \<longleftrightarrow> choice_set cs \<and> r = sort cs"
proof -
  have "check_choices None (sort cs) = None \<longleftrightarrow> (\<forall>v \<in> set cs. 1 \<le> v \<and> v \<le> 20) \<and> distinct cs"
    using check_choices_ok [of "sort cs" None] by simp
  then show ?thesis
    using choice_set_length [of cs]
    by (auto simp: NormalizeChoices_def choice_set_def Let_def split: option.splits)
qed

section \<open>What a repository answers\<close>

record receipt =
  rcStatus :: string
  rcChoices :: "int list"
  rcAcceptedAt :: "time option"

text \<open>One element of the options of a result: identifier, label and votes.\<close>

type_synonym option_count = "int \<times> rune list \<times> int"

record poll_results =
  prPollID :: string
  prState :: string
  prTotalVotes :: int
  prOptions :: "option_count list"
  prCalculatedAt :: time

text \<open>The answers of the repository: a value, a poll not found, an overlap, or another error.\<close>

datatype 'v repo_answer = Answer 'v | NotFound | Overlap | Failed

section \<open>Properties\<close>

text \<open>C23. \<^verbatim>\<open>Validate\<close> accepts an input exactly when its trimmed question and options have the
  allowed lengths, its type and number of options fit, and no two labels agree after trimming and
  lower-casing; it then leaves the normal form in place, and validating that again changes nothing.\<close>

theorem poll_Validate_exact:
  "(snd (Validate lower inp) = None \<longleftrightarrow> acceptable_poll lower inp) \<and>
   (case Validate lower inp of
      (out, None) \<Rightarrow> out = normal_input inp \<and> Validate lower out = (out, None)
    | (out, Some e) \<Rightarrow> True)"
proof (cases "acceptable_poll lower inp")
  case True
  have "normal_input (normal_input inp) = normal_input inp" by (simp add: normal_input_def comp_def)
  with True Validate_ok_result [of lower inp] Validate_ok_result [of lower "normal_input inp"]
  show ?thesis by (simp add: acceptable_normal)
next
  case False
  with Validate_ok_iff [of lower inp] show ?thesis by (auto split: prod.splits option.splits)
qed

text \<open>C24. \<^verbatim>\<open>NormalizeChoices\<close> accepts exactly the lists of 1 to 20 different option numbers between
  1 and 20, and returns them in increasing order, so two orders of the same choice get one form.\<close>

theorem poll_NormalizeChoices_exact:
  "((\<exists>r. NormalizeChoices cs = Inr r) \<longleftrightarrow> cs \<noteq> [] \<and> distinct cs \<and> (\<forall>v \<in> set cs. 1 \<le> v \<and> v \<le> 20)) \<and>
   (\<forall>r. NormalizeChoices cs = Inr r \<longrightarrow> sorted r \<and> set r = set cs \<and>
      (\<forall>ds. distinct ds \<longrightarrow> set ds = set cs \<longrightarrow> NormalizeChoices ds = Inr r))"
proof -
  have set: "choice_set cs \<longleftrightarrow> cs \<noteq> [] \<and> distinct cs \<and> (\<forall>v \<in> set cs. 1 \<le> v \<and> v \<le> 20)"
    by (auto simp: choice_set_def)
  have same: "NormalizeChoices ds = Inr (sort cs)"
    if "choice_set cs" "distinct ds" "set ds = set cs" for ds
  proof -
    have "sort ds = sort cs"
      by (rule sorted_distinct_set_unique) (use that in \<open>simp_all add: choice_set_def\<close>)
    moreover have "choice_set ds" using that by (auto simp: choice_set_def)
    ultimately show ?thesis by (simp add: NormalizeChoices_ok)
  qed
  then show ?thesis by (simp add: NormalizeChoices_ok set [symmetric])
qed

theorem poll_NormalizeChoices_exact_witness:
  "NormalizeChoices [3, 1] = Inr [1, 3] \<and> NormalizeChoices [1, 3] = Inr [1, 3] \<and> sorted [1, 3 :: int]"
proof -
  have "NormalizeChoices [3, 1] = Inr [1, 3]" by (simp add: NormalizeChoices_def Let_def)
  moreover from this conjunct2 [OF poll_NormalizeChoices_exact [of "[3, 1]"]]
  have "\<forall>ds. distinct ds \<longrightarrow> set ds = set [3, 1] \<longrightarrow> NormalizeChoices ds = Inr [1, 3]" by blast
  then have "NormalizeChoices [1, 3] = Inr [1, 3]" by (simp add: insert_commute)
  ultimately show ?thesis by simp
qed

text \<open>The state of a poll never goes back: as time passes, and once it is finalized, its rank
  among scheduled, open, processing and final does not decrease; it is open exactly during
  \<^verbatim>\<open>[StartsAt, EndsAt)\<close> of a poll that is not final.\<close>

theorem poll_State_monotone:
  assumes "now \<le> later" and "p' = p \<or> p' = p\<lparr>pollFinalizedAt := Some at\<rparr>"
  shows "state_rank (State p now) \<le> state_rank (State p' later) \<and>
    (pollStartsAt p \<le> pollEndsAt p \<longrightarrow>
      (State p now = ''open'' \<longleftrightarrow> pollFinalizedAt p = None \<and> pollStartsAt p \<le> now \<and> now < pollEndsAt p))"
  using assms by (auto simp: State_rank) (auto simp: State_def)

definition sample_poll :: poll where
  "sample_poll = \<lparr>pollID = ''a'', pollQuestion = [], pollType = ''ab'', pollOptions = [], pollStartsAt = 1,
     pollEndsAt = 9, pollCreatedAt = 0, pollFinalizedAt = None\<rparr>"

theorem poll_State_monotone_witness:
  "state_rank (State sample_poll 5) \<le> state_rank (State (sample_poll\<lparr>pollFinalizedAt := Some 10\<rparr>) 20)"
  using poll_State_monotone [of 5 20 "sample_poll\<lparr>pollFinalizedAt := Some 10\<rparr>" sample_poll 10] by simp

end
