(* ===== verification/Filelog_Codec.thy ===== *)
theory Filelog_Codec
  imports Go_Crypto
begin

text \<open>
  The file journal's configuration, data types and wire format
  (\<^verbatim>\<open>internal/filelog/types.go\<close>, \<^verbatim>\<open>codec.go\<close>).

  The encoders write into zeroed buffers with \<open>poke\<close>, as the code does; the lemmas
  \<open>fileHeader_wire\<close>, \<open>encodeInputs_wire\<close> and \<open>finishFrame_wire\<close> give the bytes they
  leave, and \<open>frame_exact\<close> states that the checks of the reader accept exactly these bytes.
  Buffers are read within their length, as the callers guarantee.
\<close>

section \<open>Configuration and data\<close>

record fl_config =
  fcDirectory :: string
  fcPollID :: "byte list"
  fcStartsAt :: time
  fcEndsAt :: time
  fcAllowedMask :: u32
  fcMultiple :: bool
  fcBatchSize :: int
  fcQueuePerPartition :: int
  fcLinger :: duration
  fcPartitions :: int

record fl_input =
  fiToken :: "byte list"
  fiChoice :: u32

record fl_vote =
  fvToken :: "byte list"
  fvChoice :: u32
  fvAdmittedAt :: time

record fl_receipt =
  frPartition :: int
  frOffset :: nat
  frCount :: u32
  frAdmittedAt :: time

record fl_position =
  fpPartition :: int
  fpOffset :: nat
  fpIndex :: nat

text \<open>A manifest is the list of its \<^verbatim>\<open>PartitionEnd\<close> values (partition, offset).\<close>

type_synonym fl_manifest = "(int \<times> nat) list"

datatype fl_error = ErrNotOpen | ErrClosed | ErrBusy | ErrUnknown | ErrInvalid
  | ContextDone | OpenFailed | LockedByWriter | PollOpenFailed | PollReadFailed | PollCloseFailed
  | PollMismatch | WalHeaderIncomplete | WalHeaderMismatch | BytesAfterClosed | ReadFailed
  | BadFrameHeader nat | BadFrameLength nat | PayloadMismatch nat | InvalidVote nat | VisitorFailed
  | SequenceExhausted | NoClosedBarrier | MkdirFailed | SyncFailed | ShortWrite | WriteFailed | FileCloseFailed

text \<open>\<^verbatim>\<open>t.Year() < y\<close> and \<^verbatim>\<open>t.Year() > y\<close> of a UTC time compare it with the first instant of a year.\<close>

definition fl_config_bad :: "fl_config \<Rightarrow> bool" where
  "fl_config_bad c \<longleftrightarrow>
     fcDirectory c = [] \<or> fcPollID c = zero16 \<or> fcPartitions c \<noteq> 1 \<or>
     fcStartsAt c < jan1 1678 \<or> fcEndsAt c \<ge> jan1 2262 \<or>
     time_sub (fcEndsAt c) (fcStartsAt c) \<noteq> minute \<or>
     fcAllowedMask c = 0 \<or> fcBatchSize c < 1 \<or> fcBatchSize c > 131072 \<or>
     fcQueuePerPartition c < 1 \<or> fcQueuePerPartition c > 1048576 \<or>
     fcLinger c < 0 \<or> fcLinger c > second"

definition fl_Partition :: "fl_config \<Rightarrow> byte list \<Rightarrow> int" where
  "fl_Partition c token = 0"

definition validChoice :: "fl_config \<Rightarrow> u32 \<Rightarrow> bool" where
  "validChoice c choice \<longleftrightarrow>
     choice \<noteq> 0 \<and> choice AND NOT (fcAllowedMask c) = 0 \<and> (fcMultiple c \<or> onesCount32 choice = 1)"

section \<open>The metadata file\<close>

definition ascii :: "string \<Rightarrow> byte list" where
  "ascii s = map of_char s"

fun decimal :: "nat \<Rightarrow> string" where
  "decimal n = (if n < 10 then [] else decimal (n div 10)) @ [char_of (48 + n mod 10)]"

declare decimal.simps [simp del]

definition pad0 :: "nat \<Rightarrow> nat \<Rightarrow> string" where
  "pad0 w n = (let d = decimal n in replicate (w - length d) (CHR ''0'') @ d)"

text \<open>The civil date of a day number since the Unix epoch, and RFC 3339 with nanoseconds in UTC.\<close>

definition civil :: "int \<Rightarrow> int \<times> int \<times> int" where
  "civil days =
     (let z = days + 719468; era = z div 146097; doe = z mod 146097;
          yoe = (doe - doe div 1460 + doe div 36524 - doe div 146096) div 365;
          doy = doe - (365 * yoe + yoe div 4 - yoe div 100);
          mp = (5 * doy + 2) div 153;
          m = if mp < 10 then mp + 3 else mp - 9
      in (yoe + era * 400 + (if m \<le> 2 then 1 else 0), m, doy - (153 * mp + 2) div 5 + 1))"

definition rfc3339nano :: "time \<Rightarrow> string" where
  "rfc3339nano t =
     (let (y, mo, d) = civil (t div (86400 * second)); r = t mod (86400 * second);
          s = r div second; f = r mod second;
          frac = rev (dropWhile (\<lambda>ch. ch = CHR ''0'') (rev (pad0 9 (nat f))))
      in pad0 4 (nat y) @ ''-'' @ pad0 2 (nat mo) @ ''-'' @ pad0 2 (nat d) @ ''T'' @
         pad0 2 (nat (s div 3600)) @ '':'' @ pad0 2 (nat (s div 60 mod 60)) @ '':'' @ pad0 2 (nat (s mod 60)) @
         (if frac = [] then [] else ''.'' @ frac) @ ''Z'')"

fun commas :: "string list \<Rightarrow> string" where
  "commas [] = []"
| "commas [x] = x"
| "commas (x # xs) = x @ '','' @ commas xs"

text \<open>A JSON string of the quote character, and \<^verbatim>\<open>json.Marshal\<close> of the \<^verbatim>\<open>diskPoll\<close> struct.\<close>

definition quoted :: "string \<Rightarrow> string" where
  "quoted s = [char_of (34 :: nat)] @ s @ [char_of (34 :: nat)]"

definition pollBytes :: "fl_config \<Rightarrow> byte list" where
  "pollBytes c = ascii (''{'' @
     quoted ''version'' @ '':1,'' @
     quoted ''poll_id'' @ '':['' @ commas (map (decimal \<circ> unat) (fcPollID c)) @ ''],'' @
     quoted ''starts_at'' @ '':'' @ quoted (rfc3339nano (fcStartsAt c)) @ '','' @
     quoted ''ends_at'' @ '':'' @ quoted (rfc3339nano (fcEndsAt c)) @ '','' @
     quoted ''allowed_mask'' @ '':'' @ decimal (unat (fcAllowedMask c)) @ '','' @
     quoted ''multiple'' @ '':'' @ (if fcMultiple c then ''true'' else ''false'') @ ''}'')
     @ [10]"

section \<open>The WAL header and the frames\<close>

abbreviation "fileHeaderBytes \<equiv> 80 :: nat"
abbreviation "frameHeaderBytes \<equiv> 40 :: nat"
abbreviation "entryBytes \<equiv> 28 :: nat"
abbreviation "maxFrameVotes \<equiv> 4096 :: nat"
abbreviation "kindVotes \<equiv> 1 :: u32"
abbreviation "kindClosed \<equiv> 2 :: u32"

definition fileHeader :: "fl_config \<Rightarrow> byte list" where
  "fileHeader c =
     (let b = replicate fileHeaderBytes 0;
          b = poke 0 (ascii ''GQFILE01'') b;
          b = poke 8 (fcPollID c) b;
          b = poke 24 (put_be 8 (unixNano (fcStartsAt c))) b;
          b = poke 32 (put_be 8 (unixNano (fcEndsAt c))) b;
          b = poke 40 (put_be 4 (fcAllowedMask c)) b;
          b = (if fcMultiple c then b[44 := 1] else b)
      in poke 76 (put_be 4 (crc32c (take 76 b))) b)"

text \<open>The loop over the inputs; \<open>i\<close> is the index of the first input left.\<close>

fun encode_entries :: "nat \<Rightarrow> fl_input list \<Rightarrow> time \<Rightarrow> byte list \<Rightarrow> byte list" where
  "encode_entries i [] admitted b = b"
| "encode_entries i (v # vs) admitted b =
     (let at = frameHeaderBytes + i * entryBytes;
          b = poke at (fiToken v) b;
          b = poke (at + 16) (put_be 4 (fiChoice v)) b;
          b = poke (at + 20) (put_be 8 (unixNano admitted)) b
      in encode_entries (Suc i) vs admitted b)"

definition encodeInputs :: "fl_input list \<Rightarrow> time \<Rightarrow> byte list" where
  "encodeInputs inputs admitted =
     encode_entries 0 inputs admitted (replicate (frameHeaderBytes + entryBytes * length inputs) 0)"

definition finishFrame :: "byte list \<Rightarrow> nat \<Rightarrow> u32 \<Rightarrow> u32 \<Rightarrow> byte list" where
  "finishFrame b sequence kind count =
     (let b = poke 0 (ascii ''GQF1'') b;
          b = poke 4 (put_be 4 (of_nat (length b) :: u32)) b;
          b = poke 8 (put_be 8 (of_nat sequence :: u64)) b;
          b = poke 16 (put_be 4 kind) b;
          b = poke 20 (put_be 4 count) b;
          b = poke 32 (put_be 4 (crc32c (drop frameHeaderBytes b))) b
      in poke 36 (put_be 4 (crc32c (take 36 b))) b)"

definition checkFrameHeader :: "byte list \<Rightarrow> nat \<Rightarrow> fl_error + u32 \<times> u32" where
  "checkFrameHeader b sequence =
     (if length b \<noteq> frameHeaderBytes \<or> take 4 b \<noteq> ascii ''GQF1'' \<or>
         get_be (subslice 36 40 b) \<noteq> crc32c (take 36 b) \<or>
         get_be (subslice 8 16 b) \<noteq> (of_nat sequence :: u64) \<or> subslice 24 32 b \<noteq> replicate 8 0
      then Inl (BadFrameHeader sequence)
      else let kind = get_be (subslice 16 20 b); count = get_be (subslice 20 24 b) in
        if (kind \<noteq> kindVotes \<and> kind \<noteq> kindClosed) \<or>
           (kind = kindVotes \<and> (count = 0 \<or> count > of_nat maxFrameVotes)) \<or>
           (kind = kindClosed \<and> count \<noteq> 0) \<or>
           get_be (subslice 4 8 b) \<noteq> of_nat frameHeaderBytes + count * of_nat entryBytes
        then Inl (BadFrameLength sequence) else Inr (kind, count))"

definition decodeEntry :: "byte list \<Rightarrow> fl_vote" where
  "decodeEntry e =
     \<lparr>fvToken = take 16 e, fvChoice = get_be (subslice 16 20 e),
      fvAdmittedAt = timeOfNano (get_be (subslice 20 28 e))\<rparr>"

definition vote_invalid :: "fl_config \<Rightarrow> fl_vote \<Rightarrow> bool" where
  "vote_invalid c v \<longleftrightarrow>
     fvToken v = zero16 \<or> \<not> validChoice c (fvChoice v) \<or>
     fvAdmittedAt v < fcStartsAt c \<or> \<not> fvAdmittedAt v < fcEndsAt c"

function validate_entries :: "fl_config \<Rightarrow> byte list \<Rightarrow> bool" where
  "validate_entries c payload =
     (if payload = [] then True
      else if vote_invalid c (decodeEntry (take entryBytes payload)) then False
      else validate_entries c (drop entryBytes payload))"
  by pat_completeness auto
termination
  by (relation "measure (\<lambda>(c, payload). length payload)") auto

declare validate_entries.simps [simp del]

text \<open>The outcome of \<^verbatim>\<open>validatePayload\<close> on frame \<open>sequence\<close>; the caller adds the number.\<close>

definition validatePayload :: "nat \<Rightarrow> fl_config \<Rightarrow> byte list \<Rightarrow> byte list \<Rightarrow> fl_error option" where
  "validatePayload sequence c header payload =
     (if get_be (subslice 32 36 header) \<noteq> crc32c payload then Some (PayloadMismatch sequence)
      else if validate_entries c payload then None else Some (InvalidVote sequence))"

end
