(* ===== verification/Filelog_Wire.thy ===== *)
theory Filelog_Wire
  imports Filelog_Codec
begin

text \<open>
  The bytes of the file journal, as the concatenation of their fields, and the exactness
  of the reader's checks: the encoders produce these bytes, and the header and payload
  checks accept no others.
\<close>

lemma length_ascii [simp]: "length (ascii s) = length s"
  by (simp add: ascii_def)

section \<open>Pokes into a zeroed buffer\<close>

lemma poke_append: "poke (length p + k) xs (p @ b) = p @ poke k xs b"
  by (simp add: poke_def add.assoc)

lemma poke_zero: "length xs \<le> length b \<Longrightarrow> poke 0 xs b = xs @ drop (length xs) b"
  by (simp add: poke_def)

lemma replicate_split: "n \<le> m \<Longrightarrow> replicate m x = replicate n x @ replicate (m - n) x"
  by (metis le_add_diff_inverse replicate_add)

lemma poke_fill:
  "k = length p \<Longrightarrow> length xs + m' = m \<Longrightarrow>
     poke k xs (p @ replicate m 0 @ r) = (p @ xs) @ replicate m' 0 @ r"
  by (auto simp: poke_def)

section \<open>Entries\<close>

definition entry_wire :: "fl_vote \<Rightarrow> byte list" where
  "entry_wire v = fvToken v @ put_be 4 (fvChoice v) @ put_be 8 (unixNano (fvAdmittedAt v))"

definition entry_ok :: "fl_vote \<Rightarrow> bool" where
  "entry_ok v \<longleftrightarrow> length (fvToken v) = 16 \<and> nano_range (fvAdmittedAt v)"

definition vote_of :: "time \<Rightarrow> fl_input \<Rightarrow> fl_vote" where
  "vote_of admitted inp = \<lparr>fvToken = fiToken inp, fvChoice = fiChoice inp, fvAdmittedAt = admitted\<rparr>"

lemma length_entry_wire: "length (fvToken v) = 16 \<Longrightarrow> length (entry_wire v) = 28"
  by (simp add: entry_wire_def)

lemma decode_entry_wire: "entry_ok v \<Longrightarrow> decodeEntry (entry_wire v) = v"
  by (simp add: decodeEntry_def entry_wire_def entry_ok_def subslice_def codec_simps)

interpretation entry: fixed_codec entry_wire decodeEntry entry_ok 28
  by unfold_locales (simp_all add: decode_entry_wire length_entry_wire entry_ok_def)

lemma put_get4: "length b = 4 \<Longrightarrow> put_be 4 (get_be b :: u32) = b"
  using put_be_get_be [of b, where 'a = 32] by simp

lemma put_get8: "length b = 8 \<Longrightarrow> put_be 8 (get_be b :: u64) = b"
  using put_be_get_be [of b, where 'a = 64] by simp

lemma timeOfNano_range: "nano_range (timeOfNano w)"
  using sint_range_size [of w] by (simp add: nano_range_def timeOfNano_def word_size)

lemma unixNano_timeOfNano [simp]: "unixNano (timeOfNano w) = w"
  by (simp add: unixNano_def timeOfNano_def)

text \<open>Every 28 bytes are the encoding of the entry they decode to.\<close>

lemma entry_wire_decode:
  assumes "length e = 28"
  shows "entry_wire (decodeEntry e) = e" and "entry_ok (decodeEntry e)"
proof -
  have "e = take 16 e @ subslice 16 20 e @ subslice 20 28 e"
    using assms by (simp add: take_subslice subslice_join)
  moreover have "length (subslice 16 20 e) = 4" "length (subslice 20 28 e) = 8"
    using assms by (simp_all add: length_subslice)
  ultimately show "entry_wire (decodeEntry e) = e"
    by (simp add: entry_wire_def decodeEntry_def put_get4 put_get8)
  show "entry_ok (decodeEntry e)"
    using assms by (simp add: entry_ok_def decodeEntry_def timeOfNano_range)
qed

definition entries_wire :: "fl_vote list \<Rightarrow> byte list" where
  "entries_wire vs = concat (map entry_wire vs)"

lemma entries_wire_simps [simp]:
  "entries_wire [] = []" "entries_wire (v # vs) = entry_wire v @ entries_wire vs"
  by (simp_all add: entries_wire_def)

lemma length_entries_wire: "list_all entry_ok vs \<Longrightarrow> length (entries_wire vs) = 28 * length vs"
  using entry.table_width [of vs] by (simp add: entries_wire_def)

section \<open>Encoding inputs\<close>

lemma encode_entries_wire:
  "\<forall>v \<in> set vs. length (fiToken v) = 16 \<Longrightarrow> length p = 40 + i * 28 \<Longrightarrow>
     encode_entries i vs admitted (p @ replicate (28 * length vs) 0)
       = p @ entries_wire (map (vote_of admitted) vs)"
proof (induction vs arbitrary: i p)
  case Nil
  then show ?case by simp
next
  case (Cons v vs)
  let ?t = "fiToken v" and ?c = "put_be 4 (fiChoice v)" and ?n = "put_be 8 (unixNano admitted)"
  have tok: "length ?t = 16" using Cons.prems by simp
  have "poke (60 + i * 28) ?n (poke (56 + i * 28) ?c (poke (40 + i * 28) ?t
      (p @ replicate (28 * length (v # vs)) 0)))
    = (p @ entry_wire (vote_of admitted v)) @ replicate (28 * length vs) 0"
    using poke_fill [of "40 + i * 28" p ?t "28 * length vs + 12" "28 * length (v # vs)" "[]"]
      poke_fill [of "56 + i * 28" "p @ ?t" ?c "28 * length vs + 8" "28 * length vs + 12" "[]"]
      poke_fill [of "60 + i * 28" "p @ ?t @ ?c" ?n "28 * length vs" "28 * length vs + 8" "[]"]
      tok Cons.prems(2)
    by (simp add: entry_wire_def vote_of_def)
  moreover have "length (p @ entry_wire (vote_of admitted v)) = 40 + Suc i * 28"
    using tok Cons.prems(2) by (simp add: length_entry_wire vote_of_def)
  ultimately show ?case
    using Cons.IH [of "p @ entry_wire (vote_of admitted v)" "Suc i"] Cons.prems(1)
    by (simp add: add.commute add.left_commute)
qed

lemma encodeInputs_wire:
  "\<forall>v \<in> set vs. length (fiToken v) = 16 \<Longrightarrow>
     encodeInputs vs admitted = replicate 40 0 @ entries_wire (map (vote_of admitted) vs)"
  using encode_entries_wire [of vs "replicate 40 0" 0 admitted]
  by (simp add: encodeInputs_def replicate_add)

section \<open>Frame headers\<close>

definition header_prefix :: "nat \<Rightarrow> u32 \<Rightarrow> u32 \<Rightarrow> byte list \<Rightarrow> byte list" where
  "header_prefix sequence kind count payload =
     ascii ''GQF1'' @ put_be 4 (of_nat (40 + length payload) :: u32) @ put_be 8 (of_nat sequence :: u64) @
     put_be 4 kind @ put_be 4 count @ replicate 8 0 @ put_be 4 (crc32c payload)"

definition frame_header :: "nat \<Rightarrow> u32 \<Rightarrow> u32 \<Rightarrow> byte list \<Rightarrow> byte list" where
  "frame_header sequence kind count payload =
     header_prefix sequence kind count payload @ put_be 4 (crc32c (header_prefix sequence kind count payload))"

lemma length_header_prefix [simp]: "length (header_prefix sequence kind count payload) = 36"
  by (simp add: header_prefix_def)

lemma length_frame_header [simp]: "length (frame_header sequence kind count payload) = 40"
  by (simp add: frame_header_def)

lemma finishFrame_wire:
  "finishFrame (replicate 40 0 @ payload) sequence kind count
     = frame_header sequence kind count payload @ payload"
proof -
  let ?l = "put_be 4 (of_nat (40 + length payload) :: u32)"
  define p1 where "p1 = ascii ''GQF1''"
  define p2 where "p2 = p1 @ ?l"
  define p3 where "p3 = p2 @ put_be 8 (of_nat sequence :: u64)"
  define p4 where "p4 = p3 @ put_be 4 kind"
  define p5 where "p5 = p4 @ put_be 4 count"
  define p6 where "p6 = p5 @ replicate 8 0"
  define p7 where "p7 = p6 @ put_be 4 (crc32c payload)"
  note defs = p1_def p2_def p3_def p4_def p5_def p6_def p7_def
  have len: "length p1 = 4" "length p2 = 8" "length p3 = 16" "length p4 = 20" "length p5 = 24"
    "length p6 = 32" "length p7 = 36" by (simp_all add: defs)
  have p7: "p7 = header_prefix sequence kind count payload"
    by (simp add: defs header_prefix_def)
  have 1: "poke 0 (ascii ''GQF1'') (replicate 40 0 @ payload) = p1 @ replicate 36 0 @ payload"
    using poke_fill [of 0 "[]" "ascii ''GQF1''" 36 40 payload] by (simp add: p1_def)
  have 2: "poke 4 ?l (p1 @ replicate 36 0 @ payload) = p2 @ replicate 32 0 @ payload"
    unfolding p2_def by (rule poke_fill) (simp_all add: len)
  have 3: "poke 8 (put_be 8 (of_nat sequence :: u64)) (p2 @ replicate 32 0 @ payload)
      = p3 @ replicate 24 0 @ payload"
    unfolding p3_def by (rule poke_fill) (simp_all add: len)
  have 4: "poke 16 (put_be 4 kind) (p3 @ replicate 24 0 @ payload) = p4 @ replicate 20 0 @ payload"
    unfolding p4_def by (rule poke_fill) (simp_all add: len)
  have "poke 20 (put_be 4 count) (p4 @ replicate 20 0 @ payload) = p5 @ replicate 16 0 @ payload"
    unfolding p5_def by (rule poke_fill) (simp_all add: len)
  also have "\<dots> = p6 @ replicate 8 0 @ payload"
    using replicate_split [of 8 16 "0 :: byte"] by (simp add: p6_def)
  finally have 5: "poke 20 (put_be 4 count) (p4 @ replicate 20 0 @ payload) = p6 @ replicate 8 0 @ payload" .
  have 6: "poke 32 (put_be 4 (crc32c payload)) (p6 @ replicate 8 0 @ payload) = p7 @ replicate 4 0 @ payload"
    unfolding p7_def by (rule poke_fill) (simp_all add: len)
  have "poke 36 (put_be 4 (crc32c p7)) (p7 @ replicate 4 0 @ payload)
      = (p7 @ put_be 4 (crc32c p7)) @ replicate 0 0 @ payload"
    by (rule poke_fill) (simp_all add: len)
  then have 7: "poke 36 (put_be 4 (crc32c p7)) (p7 @ replicate 4 0 @ payload)
      = frame_header sequence kind count payload @ payload"
    by (simp add: frame_header_def p7)
  have d: "drop 40 (p6 @ replicate 8 0 @ payload) = payload" "take 36 (p7 @ replicate 4 0 @ payload) = p7"
    "length (p1 @ replicate 36 0 @ payload) = 40 + length payload" by (simp_all add: len)
  show ?thesis
    unfolding finishFrame_def Let_def 1 d(3) 2 3 4 5 d(1) 6 d(2) 7 ..
qed

lemma frame_header_fields:
  fixes sequence kind count payload
  defines "h \<equiv> frame_header sequence kind count payload"
  shows "take 4 h = ascii ''GQF1''" "subslice 4 8 h = put_be 4 (of_nat (40 + length payload) :: u32)"
    "subslice 8 16 h = put_be 8 (of_nat sequence :: u64)" "subslice 16 20 h = put_be 4 kind"
    "subslice 20 24 h = put_be 4 count" "subslice 24 32 h = replicate 8 0"
    "subslice 32 36 h = put_be 4 (crc32c payload)" "take 36 h = header_prefix sequence kind count payload"
    "subslice 36 40 h = put_be 4 (crc32c (header_prefix sequence kind count payload))"
  by (simp_all add: h_def frame_header_def) (simp_all add: header_prefix_def subslice_def)

lemma header_split:
  assumes "length h = 40"
  shows "h = take 4 h @ subslice 4 8 h @ subslice 8 16 h @ subslice 16 20 h @ subslice 20 24 h @
      subslice 24 32 h @ subslice 32 36 h @ subslice 36 40 h"
    and "take 36 h = take 4 h @ subslice 4 8 h @ subslice 8 16 h @ subslice 16 20 h @ subslice 20 24 h @
      subslice 24 32 h @ subslice 32 36 h"
  using assms by (simp_all add: subslice_join take_subslice)

definition kind_count_ok :: "u32 \<Rightarrow> u32 \<Rightarrow> bool" where
  "kind_count_ok kind count \<longleftrightarrow>
     (kind = kindVotes \<and> count \<noteq> 0 \<and> count \<le> 4096) \<or> (kind = kindClosed \<and> count = 0)"

lemma frame_length_word:
  assumes "kind_count_ok kind count" and "n = unat count * 28"
  shows "of_nat (40 + n) = (40 + count * 28 :: u32)"
  using assms(2) by simp

lemma checkFrameHeader_frame:
  assumes "kind_count_ok kind count" and "length payload = unat count * 28"
  shows "checkFrameHeader (frame_header sequence kind count payload) sequence = Inr (kind, count)"
proof -
  note f = frame_header_fields [of sequence kind count payload]
  have len: "of_nat (40 + length payload) = (40 + count * 28 :: u32)"
    by (rule frame_length_word [OF assms])
  have kc: "\<not> ((kind \<noteq> kindVotes \<and> kind \<noteq> kindClosed) \<or>
      (kind = kindVotes \<and> (count = 0 \<or> count > 4096)) \<or> (kind = kindClosed \<and> count \<noteq> 0))"
    using assms(1) by (auto simp: kind_count_ok_def)
  show ?thesis
    unfolding checkFrameHeader_def f len
    using kc by (simp add: get_be_put_be Let_def)
qed

lemma checkFrameHeader_exact:
  assumes len: "length h = 40" and ok: "checkFrameHeader h sequence = Inr (kind, count)"
    and crc: "get_be (subslice 32 36 h) = crc32c payload" and pay: "length payload = unat count * 28"
  shows "kind_count_ok kind count" and "h = frame_header sequence kind count payload"
proof -
  have h: "take 4 h = ascii ''GQF1''" "get_be (subslice 36 40 h) = crc32c (take 36 h)"
    "get_be (subslice 8 16 h) = (of_nat sequence :: u64)" "subslice 24 32 h = replicate 8 0"
    "get_be (subslice 16 20 h) = kind" "get_be (subslice 20 24 h) = count"
    "get_be (subslice 4 8 h) = 40 + count * 28"
    and kc: "kind_count_ok kind count"
    using ok by (auto simp: checkFrameHeader_def Let_def kind_count_ok_def split: if_splits)
  show "kind_count_ok kind count" by (rule kc)
  have w4: "subslice i (i + 4) h = put_be 4 (get_be (subslice i (i + 4) h) :: u32)" if "i \<le> 36" for i
    using that len by (intro put_get4 [symmetric]) (simp add: length_subslice)
  have w8: "subslice 8 16 h = put_be 8 (get_be (subslice 8 16 h) :: u64)"
    using len by (intro put_get8 [symmetric]) (simp add: length_subslice)
  have words: "subslice 4 8 h = put_be 4 (40 + count * 28)" "subslice 8 16 h = put_be 8 (of_nat sequence :: u64)"
    "subslice 16 20 h = put_be 4 kind" "subslice 20 24 h = put_be 4 count"
    "subslice 32 36 h = put_be 4 (crc32c payload)" "subslice 36 40 h = put_be 4 (crc32c (take 36 h))"
    using w4 [of 4] w8 w4 [of 16] w4 [of 20] w4 [of 32] w4 [of 36] h crc by simp_all
  have len_word: "of_nat (40 + length payload) = (40 + count * 28 :: u32)"
    by (rule frame_length_word [OF kc pay])
  have "take 36 h = header_prefix sequence kind count payload"
    unfolding header_prefix_def len_word using header_split(2) [OF len] words h(1,4) by simp
  with words have "h = take 36 h @ put_be 4 (crc32c (take 36 h))"
    using append_take_drop_id [of 36 h] len by (simp add: subslice_def)
  with \<open>take 36 h = _\<close> show "h = frame_header sequence kind count payload"
    by (simp add: frame_header_def)
qed

text \<open>One altered byte of a header is always noticed.\<close>

lemma checkFrameHeader_altered:
  assumes "i < 40" and "x \<noteq> frame_header sequence kind count payload ! i"
  shows "\<exists>e. checkFrameHeader ((frame_header sequence kind count payload)[i := x]) sequence = Inl e"
proof -
  let ?h = "frame_header sequence kind count payload" and ?p = "header_prefix sequence kind count payload"
  have "get_be (subslice 36 40 (?h[i := x])) \<noteq> crc32c (take 36 (?h[i := x]))"
  proof (cases "i < 36")
    case True
    have "?h ! i = ?p ! i" using True by (simp add: frame_header_def nth_append)
    with assms have "crc32c (?p[i := x]) \<noteq> crc32c ?p"
      using True crc.single_byte [of i ?p x] by auto
    moreover have "take 36 (?h[i := x]) = ?p[i := x]"
      using True frame_header_fields(8) [of sequence kind count payload] by (simp add: take_update_swap)
    ultimately show ?thesis
      using True frame_header_fields(9) [of sequence kind count payload]
      by (simp add: subslice_update_below get_be_put_be)
  next
    case False
    let ?t = "put_be 4 (crc32c ?p)"
    have t: "subslice 36 40 (?h[i := x]) = ?t[i - 36 := x]" and nth: "?h ! i = ?t ! (i - 36)"
      using False assms(1) by (simp_all add: frame_header_def subslice_def list_update_append nth_append)
    have "put_be 4 (get_be (?t[i - 36 := x]) :: u32) = ?t[i - 36 := x]" by (rule put_get4) simp
    moreover have "?t[i - 36 := x] \<noteq> ?t"
    proof
      assume same: "?t[i - 36 := x] = ?t"
      have "i - 36 < length ?t" using assms(1) False by simp
      then have "?t[i - 36 := x] ! (i - 36) = x" by (rule nth_list_update_eq)
      with same nth assms(2) show False by simp
    qed
    ultimately have "get_be (?t[i - 36 := x]) \<noteq> crc32c ?p" by metis
    moreover have "take 36 (?h[i := x]) = ?p"
      using False frame_header_fields(8) [of sequence kind count payload] by simp
    ultimately show ?thesis using t by simp
  qed
  then show ?thesis by (auto simp: checkFrameHeader_def)
qed

section \<open>Payloads and whole frames\<close>

lemma validate_entries_wire:
  "list_all entry_ok vs \<Longrightarrow> validate_entries c (entries_wire vs) \<longleftrightarrow> (\<forall>v \<in> set vs. \<not> vote_invalid c v)"
proof (induction vs)
  case Nil
  then show ?case by (simp add: validate_entries.simps)
next
  case (Cons v vs)
  then have len: "length (entry_wire v) = 28" and dec: "decodeEntry (entry_wire v) = v"
    by (simp_all add: decode_entry_wire entry.enc_width)
  then have ne: "entry_wire v \<noteq> []" by auto
  with Cons len dec show ?case
    by (subst validate_entries.simps) simp
qed

lemma payload_decode:
  "length payload = n * 28 \<Longrightarrow> \<exists>vs. length vs = n \<and> list_all entry_ok vs \<and> payload = entries_wire vs"
proof (induction n arbitrary: payload)
  case 0
  then show ?case by simp
next
  case (Suc n)
  have "length (drop 28 payload) = n * 28" using Suc.prems by simp
  from Suc.IH [OF this] obtain vs where vs: "length vs = n" "list_all entry_ok vs"
    and tail: "drop 28 payload = entries_wire vs" by blast
  have e: "length (take 28 payload) = 28" using Suc.prems by simp
  have "payload = entries_wire (decodeEntry (take 28 payload) # vs)"
    using entry_wire_decode(1) [OF e] tail append_take_drop_id [of 28 payload] by simp
  with vs entry_wire_decode(2) [OF e] show ?case
    by (intro exI [of _ "decodeEntry (take 28 payload) # vs"]) simp
qed

datatype fl_frame = VotesFrame "fl_vote list" | ClosedFrame

fun frame_votes :: "fl_frame \<Rightarrow> fl_vote list" where
  "frame_votes (VotesFrame vs) = vs"
| "frame_votes ClosedFrame = []"

definition frame_kind :: "fl_frame \<Rightarrow> u32" where
  "frame_kind f = (case f of VotesFrame _ \<Rightarrow> kindVotes | ClosedFrame \<Rightarrow> kindClosed)"

definition frame_count :: "fl_frame \<Rightarrow> u32" where
  "frame_count f = of_nat (length (frame_votes f))"

definition frame_payload :: "fl_frame \<Rightarrow> byte list" where
  "frame_payload f = entries_wire (frame_votes f)"

definition frame_wire :: "nat \<Rightarrow> fl_frame \<Rightarrow> byte list" where
  "frame_wire sequence f =
     frame_header sequence (frame_kind f) (frame_count f) (frame_payload f) @ frame_payload f"

definition frame_ok :: "fl_config \<Rightarrow> fl_frame \<Rightarrow> bool" where
  "frame_ok c f \<longleftrightarrow>
     list_all entry_ok (frame_votes f) \<and> (\<forall>v \<in> set (frame_votes f). \<not> vote_invalid c v) \<and>
     length (frame_votes f) \<le> 4096 \<and> (f \<noteq> ClosedFrame \<longrightarrow> frame_votes f \<noteq> [])"

lemma frame_ok_facts:
  assumes "frame_ok c f"
  shows "kind_count_ok (frame_kind f) (frame_count f)"
    and "unat (frame_count f) = length (frame_votes f)"
    and "length (frame_payload f) = unat (frame_count f) * 28"
    and "validatePayload n c (frame_header s k m (frame_payload f)) (frame_payload f) = None"
proof -
  have small: "length (frame_votes f) \<le> 4096" and ok: "list_all entry_ok (frame_votes f)"
    using assms by (simp_all add: frame_ok_def)
  show n: "unat (frame_count f) = length (frame_votes f)"
    using small by (simp add: frame_count_def unat_of_nat)
  then show "length (frame_payload f) = unat (frame_count f) * 28"
    using ok by (simp add: frame_payload_def length_entries_wire)
  have le: "frame_count f \<le> 4096" using n small by (simp add: word_le_nat_alt)
  have nz: "frame_count f \<noteq> 0" if "frame_votes f \<noteq> []" using n that by auto
  show "kind_count_ok (frame_kind f) (frame_count f)"
    using le nz assms by (cases f) (auto simp: kind_count_ok_def frame_kind_def frame_ok_def, simp add: frame_count_def)
  show "validatePayload n c (frame_header s k m (frame_payload f)) (frame_payload f) = None"
    using assms validate_entries_wire [OF ok, of c]
    by (simp add: validatePayload_def frame_header_fields get_be_put_be frame_payload_def frame_ok_def)
qed

lemma length_frame_wire:
  "frame_ok c f \<Longrightarrow> length (frame_wire sequence f) = 40 + 28 * length (frame_votes f)"
  by (simp add: frame_wire_def frame_ok_facts)

text \<open>What the reader accepts is exactly the wire form of a valid frame.\<close>

lemma frame_exact:
  assumes "length h = 40" and "checkFrameHeader h sequence = Inr (kind, count)"
    and "length body = unat count * 28" and "validatePayload sequence c h body = None"
  shows "\<exists>f. frame_ok c f \<and> h @ body = frame_wire sequence f \<and> kind = frame_kind f \<and> count = frame_count f \<and>
    body = frame_payload f"
proof -
  have crc: "get_be (subslice 32 36 h) = crc32c body" and val: "validate_entries c body"
    using assms(4) by (auto simp: validatePayload_def split: if_splits)
  note ex = checkFrameHeader_exact [OF assms(1,2) crc assms(3)]
  obtain vs where vs: "length vs = unat count" "list_all entry_ok vs" "body = entries_wire vs"
    using payload_decode [OF assms(3)] by blast
  have small: "length vs \<le> 4096" using ex(1) vs(1) by (auto simp: kind_count_ok_def word_le_nat_alt)
  have good: "\<forall>v \<in> set vs. \<not> vote_invalid c v" using val vs validate_entries_wire by simp
  show ?thesis
  proof (cases "kind = kindVotes")
    case True
    then have "vs \<noteq> []" using ex(1) vs(1) by (auto simp: kind_count_ok_def unat_eq_zero)
    with True small good vs ex(2) show ?thesis
      by (intro exI [of _ "VotesFrame vs"])
        (simp add: frame_ok_def frame_wire_def frame_kind_def frame_count_def frame_payload_def)
  next
    case False
    then have "kind = kindClosed" "vs = []" "count = 0" using ex(1) vs(1) by (auto simp: kind_count_ok_def)
    with vs ex(2) show ?thesis
      by (intro exI [of _ ClosedFrame])
        (simp add: frame_ok_def frame_wire_def frame_kind_def frame_count_def frame_payload_def)
  qed
qed

end
