(* ===== verification/Filelog_Scan.thy ===== *)
theory Filelog_Scan
  imports Filelog_Wire
begin

text \<open>
  Reading a journal back (\<^verbatim>\<open>internal/filelog/scan.go\<close>): \<^verbatim>\<open>Scan\<close> and \<^verbatim>\<open>Replay\<close>.

  The environment of a scan is a value: which system calls fail, the content of the
  metadata file, the content of the WAL (with a read error at its end or not), and the
  iterations at which the context is found done. The visitor is a function on a state of
  its caller; its flag says that it returned an error.
\<close>

section \<open>The environment and the reader\<close>

record scan_env =
  seContextDone :: bool
  seOpenFails :: bool
  seLockFails :: bool
  sePollOpenFails :: bool
  sePollBytes :: "byte list"
  sePollReadFails :: bool
  sePollCloseFails :: bool
  seWal :: "byte list"
  seReadFails :: bool
  seDoneAt :: "nat \<Rightarrow> bool"

type_synonym 's visitor = "fl_position \<Rightarrow> fl_vote \<Rightarrow> 's \<Rightarrow> 's \<times> bool"

record scan_result =
  srManifest :: fl_manifest
  srClosed :: bool
  srIncompleteTail :: bool
  srFrames :: nat
  srVotes :: nat
  srValidBytes :: nat

definition empty_result :: scan_result where
  "empty_result = \<lparr>srManifest = [], srClosed = False, srIncompleteTail = False,
     srFrames = 0, srVotes = 0, srValidBytes = 0\<rparr>"

text \<open>\<^verbatim>\<open>io.ReadFull\<close> of \<open>n\<close> bytes from what is left, which ends in EOF or in a read error.\<close>

datatype read_outcome = ReadOk "byte list" "byte list" | ReadEOF | ReadShort | ReadErr

definition readFull :: "bool \<Rightarrow> byte list \<Rightarrow> nat \<Rightarrow> read_outcome" where
  "readFull fails rest n =
     (if n \<le> length rest then ReadOk (take n rest) (drop n rest)
      else if fails then ReadErr
      else if rest = [] then ReadEOF else ReadShort)"

section \<open>One frame\<close>

text \<open>The visitor loop over a validated frame; \<open>index\<close> is the index of the next entry.\<close>

fun visit_entries :: "'s visitor option \<Rightarrow> nat \<Rightarrow> byte list \<Rightarrow> nat \<Rightarrow> nat \<Rightarrow> 's \<Rightarrow> 's \<times> bool" where
  "visit_entries visit sequence body index 0 s = (s, False)"
| "visit_entries visit sequence body index (Suc left) s =
     (case visit of
        None \<Rightarrow> visit_entries visit sequence body (Suc index) left s
      | Some vf \<Rightarrow>
          (case vf \<lparr>fpPartition = 0, fpOffset = sequence, fpIndex = index\<rparr>
              (decodeEntry (drop (index * entryBytes) body)) s of
             (s, True) \<Rightarrow> (s, True)
           | (s, False) \<Rightarrow> visit_entries visit sequence body (Suc index) left s))"

datatype 's scan_next =
    Stop scan_result "fl_error option" 's
  | Continue "byte list" scan_result 's

text \<open>One iteration of the loop of \<^verbatim>\<open>Scan\<close>, from its \<^verbatim>\<open>ctx.Err()\<close> to the sequence check.\<close>

definition scan_frame ::
  "scan_env \<Rightarrow> fl_config \<Rightarrow> 's visitor option \<Rightarrow> nat \<Rightarrow> byte list \<Rightarrow> scan_result \<Rightarrow> 's \<Rightarrow> 's scan_next" where
  "scan_frame env c visit sequence rest r s =
     (if seDoneAt env sequence then Stop r (Some ContextDone) s
      else let first = readFull (seReadFails env) rest frameHeaderBytes in
        if first = ReadEOF then Stop r None s
        else if srClosed r then Stop r (Some BytesAfterClosed) s
        else case first of
          ReadShort \<Rightarrow> Stop (r\<lparr>srIncompleteTail := True\<rparr>) None s
        | ReadErr \<Rightarrow> Stop r (Some ReadFailed) s
        | ReadEOF \<Rightarrow> Stop r None s
        | ReadOk header rest1 \<Rightarrow>
            (case checkFrameHeader header sequence of
               Inl e \<Rightarrow> Stop r (Some e) s
             | Inr (kind, count) \<Rightarrow>
                 (case readFull (seReadFails env) rest1 (unat count * entryBytes) of
                    ReadEOF \<Rightarrow> Stop (r\<lparr>srIncompleteTail := True\<rparr>) None s
                  | ReadShort \<Rightarrow> Stop (r\<lparr>srIncompleteTail := True\<rparr>) None s
                  | ReadErr \<Rightarrow> Stop r (Some ReadFailed) s
                  | ReadOk body rest2 \<Rightarrow>
                      (case validatePayload sequence c header body of
                         Some e \<Rightarrow> Stop r (Some e) s
                       | None \<Rightarrow>
                           (case (if kind = kindClosed then (s, False)
                                  else visit_entries visit sequence body 0 (unat count) s) of
                              (s1, True) \<Rightarrow> Stop r (Some VisitorFailed) s1
                            | (s1, False) \<Rightarrow>
                                let r1 = (if kind = kindClosed
                                    then r\<lparr>srClosed := True, srManifest := [(0, sequence)]\<rparr>
                                    else r\<lparr>srVotes := srVotes r + unat count\<rparr>);
                                  r2 = r1\<lparr>srFrames := srFrames r1 + 1,
                                    srValidBytes := srValidBytes r1 + (frameHeaderBytes + length body)\<rparr>
                                in if sequence = 2 ^ 63 - 1 then Stop r2 (Some SequenceExhausted) s1
                                   else Continue rest2 r2 s1)))))"

lemma scan_frame_consumes:
  "scan_frame env c visit sequence rest r s = Continue rest' r' s' \<Longrightarrow> length rest' < length rest"
  by (auto simp: scan_frame_def Let_def readFull_def split: if_splits sum.splits option.splits prod.splits
      read_outcome.splits bool.splits)

function scan_loop ::
  "scan_env \<Rightarrow> fl_config \<Rightarrow> 's visitor option \<Rightarrow> nat \<Rightarrow> byte list \<Rightarrow> scan_result \<Rightarrow> 's
     \<Rightarrow> scan_result \<times> fl_error option \<times> 's" where
  "scan_loop env c visit sequence rest r s =
     (case scan_frame env c visit sequence rest r s of
        Stop r' e s' \<Rightarrow> (r', e, s')
      | Continue rest' r' s' \<Rightarrow> scan_loop env c visit (Suc sequence) rest' r' s')"
  by pat_completeness auto
termination
  by (relation "measure (\<lambda>(env, c, visit, sequence, rest, r, s). length rest)")
    (auto dest: scan_frame_consumes)

declare scan_loop.simps [simp del]

section \<open>Scan and Replay\<close>

definition Scan ::
  "scan_env \<Rightarrow> fl_config \<Rightarrow> 's visitor option \<Rightarrow> 's \<Rightarrow> scan_result \<times> fl_error option \<times> 's" where
  "Scan env c visit s =
     (let refuse = (\<lambda>e. (empty_result, Some e, s)) in
      if fl_config_bad c then refuse ErrInvalid
      else if seContextDone env then refuse ContextDone
      else if seOpenFails env then refuse OpenFailed
      else if seLockFails env then refuse LockedByWriter
      else if sePollOpenFails env then refuse PollOpenFailed
      else if sePollReadFails env then refuse PollReadFailed
      else if sePollCloseFails env then refuse PollCloseFailed
      else if take 4097 (sePollBytes env) \<noteq> pollBytes c then refuse PollMismatch
      else case readFull (seReadFails env) (seWal env) fileHeaderBytes of
        ReadOk header rest \<Rightarrow>
          if header \<noteq> fileHeader c then refuse WalHeaderMismatch
          else scan_loop env c visit 0 rest (empty_result\<lparr>srValidBytes := fileHeaderBytes\<rparr>) s
      | _ \<Rightarrow> refuse WalHeaderIncomplete)"

definition Replay ::
  "scan_env \<Rightarrow> fl_config \<Rightarrow> 's visitor option \<Rightarrow> 's \<Rightarrow> (fl_error + fl_manifest) \<times> 's" where
  "Replay env c visit s =
     (case Scan env c visit s of
        (r, Some e, s') \<Rightarrow> (Inl e, s')
      | (r, None, s') \<Rightarrow>
          (if \<not> srClosed r \<or> srIncompleteTail r then Inl NoClosedBarrier else Inr (srManifest r), s'))"

end
