(* ===== verification/Filelog_Journal.thy ===== *)
theory Filelog_Journal
  imports Filelog_Scan
begin

text \<open>
  What a scan returns, for every content of the WAL. A journal is a list of frames;
  \<open>frames_wire\<close> are its bytes and \<open>journal_entries\<close> the votes a reader is shown, with their
  positions. The main lemmas follow the loop over whole frames (\<open>scan_loop_frames\<close>) and,
  conversely, recover the frames from a scan that returned no error (\<open>scan_loop_exact\<close>).
\<close>

section \<open>Journals\<close>

fun frames_wire :: "nat \<Rightarrow> fl_frame list \<Rightarrow> byte list" where
  "frames_wire n [] = []"
| "frames_wire n (f # fs) = frame_wire n f @ frames_wire (Suc n) fs"

definition frame_entries :: "nat \<Rightarrow> fl_frame \<Rightarrow> (fl_position \<times> fl_vote) list" where
  "frame_entries n f =
     zip (map (\<lambda>i. \<lparr>fpPartition = 0, fpOffset = n, fpIndex = i\<rparr>) [0..<length (frame_votes f)]) (frame_votes f)"

fun journal_entries :: "nat \<Rightarrow> fl_frame list \<Rightarrow> (fl_position \<times> fl_vote) list" where
  "journal_entries n [] = []"
| "journal_entries n (f # fs) = frame_entries n f @ journal_entries (Suc n) fs"

fun deliver :: "(fl_position \<Rightarrow> fl_vote \<Rightarrow> 's \<Rightarrow> 's \<times> bool) \<Rightarrow> (fl_position \<times> fl_vote) list \<Rightarrow> 's \<Rightarrow> 's \<times> bool" where
  "deliver vf [] s = (s, False)"
| "deliver vf ((p, v) # es) s = (case vf p v s of (s, True) \<Rightarrow> (s, True) | (s, False) \<Rightarrow> deliver vf es s)"

definition apply_visitor :: "'s visitor option \<Rightarrow> (fl_position \<times> fl_vote) list \<Rightarrow> 's \<Rightarrow> 's \<times> bool" where
  "apply_visitor visit es s = (case visit of None \<Rightarrow> (s, False) | Some vf \<Rightarrow> deliver vf es s)"

lemma deliver_append:
  "deliver vf (es @ fs) s = (case deliver vf es s of (s, True) \<Rightarrow> (s, True) | (s, False) \<Rightarrow> deliver vf fs s)"
  by (induction vf es s rule: deliver.induct) (auto split: prod.splits bool.splits)

lemma apply_visitor_Nil [simp]: "apply_visitor visit [] s = (s, False)"
  by (simp add: apply_visitor_def split: option.splits)

lemma apply_visitor_append:
  "apply_visitor visit (es @ fs) s =
     (case apply_visitor visit es s of (s, True) \<Rightarrow> (s, True) | (s, False) \<Rightarrow> apply_visitor visit fs s)"
  by (cases visit) (auto simp: apply_visitor_def deliver_append split: prod.splits bool.splits)

text \<open>What a frame adds to the result.\<close>

definition advance :: "nat \<Rightarrow> fl_frame \<Rightarrow> scan_result \<Rightarrow> scan_result" where
  "advance n f r =
     \<lparr>srManifest = (if f = ClosedFrame then [(0, n)] else srManifest r),
      srClosed = (f = ClosedFrame \<or> srClosed r), srIncompleteTail = srIncompleteTail r,
      srFrames = srFrames r + 1, srVotes = srVotes r + length (frame_votes f),
      srValidBytes = srValidBytes r + length (frame_wire n f)\<rparr>"

fun advance_all :: "nat \<Rightarrow> fl_frame list \<Rightarrow> scan_result \<Rightarrow> scan_result" where
  "advance_all n [] r = r"
| "advance_all n (f # fs) r = advance_all (Suc n) fs (advance n f r)"

section \<open>The visitor loop\<close>

lemma decodeEntry_take: "decodeEntry (take 28 e) = decodeEntry e"
  by (simp add: decodeEntry_def subslice_take)

lemma entries_wire_append: "entries_wire (xs @ ys) = entries_wire xs @ entries_wire ys"
  by (simp add: entries_wire_def)

lemma visit_entries_deliver:
  "list_all entry_ok (pre @ vs) \<Longrightarrow>
     visit_entries visit n (entries_wire (pre @ vs)) (length pre) (length vs) s =
       apply_visitor visit
         (zip (map (\<lambda>i. \<lparr>fpPartition = 0, fpOffset = n, fpIndex = i\<rparr>) [length pre..<length pre + length vs]) vs) s"
proof (induction vs arbitrary: pre s)
  case Nil
  then show ?case by simp
next
  case (Cons v vs)
  have body: "pre @ v # vs = (pre @ [v]) @ vs" by simp
  have at: "drop (length pre * 28) (entries_wire (pre @ v # vs)) = entry_wire v @ entries_wire vs"
    using Cons.prems by (simp add: entries_wire_append length_entries_wire mult.commute)
  have dec: "decodeEntry (entry_wire v @ entries_wire vs) = v"
    using Cons.prems decodeEntry_take [of "entry_wire v @ entries_wire vs"]
    by (simp add: entry.enc_width decode_entry_wire)
  have range: "[length pre..<length pre + length (v # vs)]
      = length pre # [Suc (length pre)..<Suc (length pre) + length vs]"
    by (subst upt_conv_Cons) simp_all
  have IH: "visit_entries visit n (entries_wire (pre @ v # vs)) (Suc (length pre)) (length vs) s =
      apply_visitor visit (zip (map (\<lambda>i. \<lparr>fpPartition = 0, fpOffset = n, fpIndex = i\<rparr>)
        [Suc (length pre)..<Suc (length pre) + length vs]) vs) s" for s
    using Cons.IH [of "pre @ [v]" s] Cons.prems by simp
  show ?case
    unfolding range using IH
    by (cases visit) (auto simp: at dec apply_visitor_def simp del: upt_Suc split: prod.splits bool.splits)
qed

lemma visit_frame:
  assumes "frame_ok c f" and "m = unat (frame_count f)"
  shows "visit_entries visit n (frame_payload f) 0 m s = apply_visitor visit (frame_entries n f) s"
  using visit_entries_deliver [of "[]" "frame_votes f" visit n s] assms
  by (simp add: frame_entries_def frame_payload_def frame_ok_def frame_ok_facts(2) [OF assms(1)])

section \<open>Whole frames\<close>

lemma scan_frame_whole:
  assumes "frame_ok c f" and "\<not> srClosed r" and "\<not> seDoneAt env n" and "n < 2 ^ 63 - 1"
  shows "scan_frame env c visit n (frame_wire n f @ rest) r s =
    (case apply_visitor visit (frame_entries n f) s of
       (s1, True) \<Rightarrow> Stop r (Some VisitorFailed) s1
     | (s1, False) \<Rightarrow> Continue rest (advance n f r) s1)"
proof -
  note facts = frame_ok_facts [OF assms(1)]
  have r1: "readFull (seReadFails env) (frame_wire n f @ rest) 40
      = ReadOk (frame_header n (frame_kind f) (frame_count f) (frame_payload f)) (frame_payload f @ rest)"
    by (simp add: readFull_def frame_wire_def)
  have r2: "readFull (seReadFails env) (frame_payload f @ rest) (length (frame_votes f) * 28)
      = ReadOk (frame_payload f) rest"
    by (simp add: readFull_def facts(2,3))
  note check = checkFrameHeader_frame [OF facts(1) facts(3)]
  have wire: "length (frame_wire n f) = 40 + length (frame_payload f)"
    by (simp add: frame_wire_def)
  show ?thesis
  proof (cases f)
    case (VotesFrame vs)
    then have kind: "frame_kind f \<noteq> kindClosed" "f \<noteq> ClosedFrame" by (simp_all add: frame_kind_def)
    obtain s1 b where v: "apply_visitor visit (frame_entries n f) s = (s1, b)"
      by (cases "apply_visitor visit (frame_entries n f) s")
    have vis: "visit_entries visit n (frame_payload f) 0 (length (frame_votes f)) s = (s1, b)"
      unfolding visit_frame [OF assms(1) facts(2) [symmetric]] by (rule v)
    show ?thesis
      using assms(2-4) kind
      by (cases b) (simp_all add: scan_frame_def Let_def r1 r2 check facts(4) v vis advance_def wire facts(2))
  next
    case ClosedFrame
    then have cl: "frame_kind f = kindClosed" "frame_entries n f = []" "length (frame_votes f) = 0"
      and adv: "advance n f r = \<lparr>srManifest = [(0, n)], srClosed = True, srIncompleteTail = srIncompleteTail r,
        srFrames = srFrames r + 1, srVotes = srVotes r, srValidBytes = srValidBytes r + (40 + length (frame_payload f))\<rparr>"
      by (simp_all add: frame_kind_def frame_entries_def advance_def frame_wire_def)
    have r3: "readFull (seReadFails env) (frame_payload f @ rest) 0 = ReadOk (frame_payload f) rest"
      using r2 cl(3) by simp
    show ?thesis
      using assms(2-4) unfolding adv
      by (simp add: scan_frame_def Let_def r1 r3 check [unfolded cl(1)] facts(4) cl facts(2))
  qed
qed

section \<open>The loop over whole frames\<close>

text \<open>The open part of a journal: valid frames of votes, within the sequence numbers.\<close>

definition open_journal :: "fl_config \<Rightarrow> nat \<Rightarrow> fl_frame list \<Rightarrow> bool" where
  "open_journal c n fs \<longleftrightarrow> list_all (frame_ok c) fs \<and> ClosedFrame \<notin> set fs \<and> n + length fs < 2 ^ 63 - 1"

lemma open_journal_Cons:
  "open_journal c n (f # fs) \<longleftrightarrow> frame_ok c f \<and> f \<noteq> ClosedFrame \<and> n < 2 ^ 63 - 1 \<and> open_journal c (Suc n) fs"
  by (auto simp: open_journal_def)

lemma advance_open: "f \<noteq> ClosedFrame \<Longrightarrow> srClosed (advance n f r) = srClosed r"
  by (simp add: advance_def)

lemma scan_loop_frames:
  assumes "open_journal c n fs" and "\<not> srClosed r" and "\<And>k. \<not> seDoneAt env k"
    and "apply_visitor visit (journal_entries n fs) s = (s1, False)"
  shows "scan_loop env c visit n (frames_wire n fs @ rest) r s =
    scan_loop env c visit (n + length fs) rest (advance_all n fs r) s1"
  using assms
proof (induction fs arbitrary: n r s)
  case Nil
  then show ?case by simp
next
  case (Cons f fs)
  note open_f = Cons.prems(1) [unfolded open_journal_Cons]
  obtain s2 where v: "apply_visitor visit (frame_entries n f) s = (s2, False)"
    and rest: "apply_visitor visit (journal_entries (Suc n) fs) s2 = (s1, False)"
    using Cons.prems(4) by (auto simp: apply_visitor_append split: prod.splits bool.splits)
  have "scan_frame env c visit n (frame_wire n f @ (frames_wire (Suc n) fs @ rest)) r s
      = Continue (frames_wire (Suc n) fs @ rest) (advance n f r) s2"
    using scan_frame_whole [of c f r env n visit "frames_wire (Suc n) fs @ rest" s] open_f Cons.prems(2,3) v
    by simp
  then show ?case
    using Cons.IH [of "Suc n" "advance n f r" s2] open_f Cons.prems(2,3) rest
    by (subst scan_loop.simps) (simp add: advance_open)
qed

lemma scan_loop_visitor_error:
  assumes "open_journal c n fs" and "\<not> srClosed r" and "\<And>k. \<not> seDoneAt env k"
    and "apply_visitor visit (journal_entries n fs) s = (s1, True)"
  shows "\<exists>r'. scan_loop env c visit n (frames_wire n fs @ rest) r s = (r', Some VisitorFailed, s1)"
  using assms
proof (induction fs arbitrary: n r s)
  case Nil
  then show ?case by simp
next
  case (Cons f fs)
  note open_f = Cons.prems(1) [unfolded open_journal_Cons]
  note step = scan_frame_whole [of c f r env n visit "frames_wire (Suc n) fs @ rest" s]
  show ?case
  proof (cases "apply_visitor visit (frame_entries n f) s")
    case (Pair s2 b)
    show ?thesis
    proof (cases b)
      case True
      with Pair Cons.prems(4) have "s2 = s1" by (simp add: apply_visitor_append)
      with True Pair step open_f Cons.prems(2,3) show ?thesis
        by (subst scan_loop.simps) simp
    next
      case False
      with Pair Cons.prems(4) have "apply_visitor visit (journal_entries (Suc n) fs) s2 = (s1, True)"
        by (simp add: apply_visitor_append)
      with Cons.IH [of "Suc n" "advance n f r" s2] False Pair step open_f Cons.prems(2,3) show ?thesis
        by (subst scan_loop.simps) (simp add: advance_open)
    qed
  qed
qed

text \<open>The end of the input, and a CLOSED frame at the end of the journal.\<close>

lemma scan_loop_end:
  assumes "\<not> seDoneAt env n" and "\<not> seReadFails env"
  shows "scan_loop env c visit n [] r s = (r, None, s)"
  by (subst scan_loop.simps) (simp add: scan_frame_def readFull_def assms)

lemma scan_loop_closed_end:
  assumes "\<not> srClosed r" and "\<And>k. \<not> seDoneAt env k" and "\<not> seReadFails env" and "n < 2 ^ 63 - 1"
  shows "scan_loop env c visit n (frame_wire n ClosedFrame) r s = (advance n ClosedFrame r, None, s)"
proof -
  have "frame_ok c ClosedFrame" by (simp add: frame_ok_def)
  from scan_frame_whole [OF this assms(1) assms(2) assms(4), where rest = "[]" and s = s and visit = visit] assms
  show ?thesis
    by (subst scan_loop.simps) (simp add: frame_entries_def scan_loop_end)
qed

lemma advance_all_snoc: "advance_all n (fs @ [f]) r = advance (n + length fs) f (advance_all n fs r)"
  by (induction fs arbitrary: n r) auto

lemma advance_all_open:
  "ClosedFrame \<notin> set fs \<Longrightarrow> advance_all n fs r =
     r\<lparr>srFrames := srFrames r + length fs, srVotes := srVotes r + length (concat (map frame_votes fs)),
       srValidBytes := srValidBytes r + length (frames_wire n fs)\<rparr>"
  by (induction fs arbitrary: n r) (auto simp: advance_def)

section \<open>From a successful scan back to the frames\<close>

lemma scan_frame_continue:
  assumes "scan_frame env c visit n rest r s = Continue rest' r1 s1" and "n \<le> 2 ^ 63 - 1"
  shows "\<exists>f. frame_ok c f \<and> rest = frame_wire n f @ rest' \<and> r1 = advance n f r \<and>
    apply_visitor visit (frame_entries n f) s = (s1, False) \<and> \<not> srClosed r \<and> n < 2 ^ 63 - 1"
proof -
  let ?h = "take 40 rest"
  obtain kind count where len: "40 \<le> length rest" and check: "checkFrameHeader ?h n = Inr (kind, count)"
    and body: "unat count * 28 \<le> length (drop 40 rest)"
    and val: "validatePayload n c ?h (take (unat count * 28) (drop 40 rest)) = None"
    and r: "\<not> srClosed r" "\<not> seDoneAt env n" and n: "n \<noteq> 2 ^ 63 - 1"
    and rest': "rest' = drop (unat count * 28) (drop 40 rest)"
    using assms(1)
    by (auto simp: scan_frame_def Let_def readFull_def split: if_splits sum.splits option.splits prod.splits
        bool.splits)
  have "length ?h = 40" "length (take (unat count * 28) (drop 40 rest)) = unat count * 28"
    using len body by simp_all
  from frame_exact [OF this(1) check this(2) val] obtain f where f: "frame_ok c f"
    "?h @ take (unat count * 28) (drop 40 rest) = frame_wire n f" by blast
  have "rest = ?h @ drop 40 rest" by (rule append_take_drop_id [symmetric])
  also have "drop 40 rest = take (unat count * 28) (drop 40 rest) @ rest'"
    unfolding rest' by (rule append_take_drop_id [symmetric])
  finally have split: "rest = frame_wire n f @ rest'" by (metis append_assoc f(2))
  have "n < 2 ^ 63 - 1" using n assms(2) by linarith
  from scan_frame_whole [OF f(1) r this, of visit rest' s] assms(1) split f(1) r(1) this
  show ?thesis by (intro exI [of _ f]) (auto split: prod.splits bool.splits)
qed

definition partial_frame :: "nat \<Rightarrow> byte list \<Rightarrow> bool" where
  "partial_frame n t \<longleftrightarrow> t \<noteq> [] \<and>
     (length t < 40 \<or>
      (\<exists>kind count. checkFrameHeader (take 40 t) n = Inr (kind, count) \<and> length t < 40 + unat count * 28))"

lemma scan_frame_stop:
  assumes "scan_frame env c visit n rest r s = Stop r1 None s1"
  shows "s1 = s \<and> \<not> seReadFails env \<and>
    (rest = [] \<and> r1 = r \<or> partial_frame n rest \<and> \<not> srClosed r \<and> r1 = r\<lparr>srIncompleteTail := True\<rparr>)"
  using assms
  by (auto simp: scan_frame_def Let_def readFull_def partial_frame_def split: if_splits sum.splits option.splits
      prod.splits bool.splits)

lemma scan_frame_partial:
  assumes "partial_frame n rest" and "\<not> srClosed r" and "\<not> seDoneAt env n" and "\<not> seReadFails env"
  shows "scan_frame env c visit n rest r s = Stop (r\<lparr>srIncompleteTail := True\<rparr>) None s"
  using assms by (auto simp: scan_frame_def Let_def readFull_def partial_frame_def split: sum.splits)

lemma scan_loop_exact:
  assumes "scan_loop env c visit n rest r s = (r', None, s')" and "n \<le> 2 ^ 63 - 1" and "\<not> srClosed r"
  shows "\<exists>fs closed tail. list_all (frame_ok c) fs \<and> ClosedFrame \<notin> set fs \<and>
    rest = frames_wire n (fs @ (if closed then [ClosedFrame] else [])) @ tail \<and>
    (tail = [] \<or> \<not> closed \<and> partial_frame (n + length fs) tail) \<and>
    apply_visitor visit (journal_entries n fs) s = (s', False) \<and>
    r' = (advance_all n (fs @ (if closed then [ClosedFrame] else [])) r)
      \<lparr>srIncompleteTail := tail \<noteq> [] \<or> srIncompleteTail r\<rparr>"
  using assms
proof (induction env c visit n rest r s rule: scan_loop.induct)
  case (1 env c visit n rest r s)
  show ?case
  proof (cases "scan_frame env c visit n rest r s")
    case (Stop r1 e s1)
    with "1.prems"(1) have e: "e = None" "r1 = r'" "s1 = s'" by (simp_all add: scan_loop.simps [of env])
    with scan_frame_stop [of env c visit n rest r s r1 s1] Stop show ?thesis
      by (intro exI [of _ "[]"] exI [of _ False] exI [of _ rest]) (auto simp: partial_frame_def)
  next
    case (Continue rest1 r1 s1)
    obtain f where f: "frame_ok c f" "rest = frame_wire n f @ rest1" "r1 = advance n f r"
      "apply_visitor visit (frame_entries n f) s = (s1, False)" and n: "n < 2 ^ 63 - 1"
      using scan_frame_continue [OF Continue "1.prems"(2)] by blast
    have loop: "scan_loop env c visit (Suc n) rest1 r1 s1 = (r', None, s')"
      using "1.prems"(1) Continue by (simp add: scan_loop.simps [of env c visit n])
    show ?thesis
    proof (cases "f = ClosedFrame")
      case True
      then have closed: "srClosed r1" "s1 = s" using f(3,4) by (simp_all add: advance_def frame_entries_def)
      have "rest1 = [] \<and> r' = r1 \<and> s' = s1"
      proof (cases "scan_frame env c visit (Suc n) rest1 r1 s1")
        case (Stop r2 e s2)
        with loop have "e = None" "r2 = r'" "s2 = s'" by (simp_all add: scan_loop.simps [of env c visit "Suc n"])
        with scan_frame_stop [of env c visit "Suc n" rest1 r1 s1 r2 s2] Stop closed show ?thesis by auto
      next
        case (Continue rest2 r2 s2)
        with scan_frame_continue [OF Continue] n closed show ?thesis by auto
      qed
      with True f closed show ?thesis
        by (intro exI [of _ "[]"] exI [of _ True] exI [of _ "[]"]) (simp add: advance_def)
    next
      case False
      with f(3) "1.prems"(3) have "\<not> srClosed r1" by (simp add: advance_open)
      from "1.IH" [OF Continue loop _ this] n obtain fs closed tail where
        IH: "list_all (frame_ok c) fs" "ClosedFrame \<notin> set fs"
        "rest1 = frames_wire (Suc n) (fs @ (if closed then [ClosedFrame] else [])) @ tail"
        "tail = [] \<or> \<not> closed \<and> partial_frame (Suc n + length fs) tail"
        "apply_visitor visit (journal_entries (Suc n) fs) s1 = (s', False)"
        "r' = (advance_all (Suc n) (fs @ (if closed then [ClosedFrame] else [])) r1)
          \<lparr>srIncompleteTail := tail \<noteq> [] \<or> srIncompleteTail r1\<rparr>" by auto
      have "srIncompleteTail r1 = srIncompleteTail r" by (simp add: f(3) advance_def)
      with f IH False show ?thesis
        by (intro exI [of _ "f # fs"] exI [of _ closed] exI [of _ tail]) (simp add: apply_visitor_append)
    qed
  qed
qed

end
