(* ===== verification/Filelog_Scans.thy ===== *)
theory Filelog_Scans
  imports Filelog_Journal
begin

text \<open>
  The properties of reading a file journal: a written journal is read back exactly, a
  successful scan determines the bytes of the file, a cut file loses whole frames only,
  and one altered byte never passes.
\<close>

section \<open>The metadata file fits the reader's limit\<close>

lemma length_decimal: "n < 10 ^ k \<Longrightarrow> 0 < k \<Longrightarrow> length (decimal n) \<le> k"
proof (induction k arbitrary: n)
  case 0
  then show ?case by simp
next
  case (Suc k)
  show ?case
  proof (cases "n < 10")
    case True
    then show ?thesis by (simp add: decimal.simps [of n])
  next
    case False
    with Suc.prems have "n div 10 < 10 ^ k" "0 < k" by (auto simp: less_mult_imp_div_less mult.commute intro: gr0I)
    with Suc.IH [of "n div 10"] False show ?thesis by (simp add: decimal.simps [of n])
  qed
qed

lemma length_pad0: "n < 10 ^ k \<Longrightarrow> 0 < k \<Longrightarrow> w \<le> k \<Longrightarrow> length (pad0 w n) \<le> k"
  using length_decimal [of n k] by (simp add: pad0_def Let_def)

lemma div_within: "a \<le> x \<Longrightarrow> x \<le> b \<Longrightarrow> 0 < (k :: int) \<Longrightarrow> a div k \<le> x div k \<and> x div k \<le> b div k"
  by (simp add: zdiv_mono1)

lemma civil_bounds:
  assumes "civil days = (y, m, d)" and "- 200000 \<le> days" and "days \<le> 200000"
  shows "y < 10000" and "m < 100000" and "d < 10000000"
proof -
  define z era doe where "z = days + 719468" and "era = z div 146097" and "doe = z mod 146097"
  define yoe where "yoe = (doe - doe div 1460 + doe div 36524 - doe div 146096) div 365"
  define doy where "doy = doe - (365 * yoe + yoe div 4 - yoe div 100)"
  define mp where "mp = (5 * doy + 2) div 153"
  have "civil days = (yoe + era * 400 + (if (if mp < 10 then mp + 3 else mp - 9) \<le> 2 then 1 else 0),
      if mp < 10 then mp + 3 else mp - 9, doy - (153 * mp + 2) div 5 + 1)"
    unfolding civil_def Let_def z_def era_def doe_def yoe_def doy_def mp_def by (rule refl)
  then have ymd: "y = yoe + era * 400 + (if (if mp < 10 then mp + 3 else mp - 9) \<le> 2 then 1 else 0)"
    "m = (if mp < 10 then mp + 3 else mp - 9)" "d = doy - (153 * mp + 2) div 5 + 1"
    unfolding assms(1) by simp_all
  have bounded: "0 \<le> x \<Longrightarrow> x \<le> n \<Longrightarrow> 0 < k \<Longrightarrow> 0 \<le> x div k \<and> x div k \<le> n" for x n k :: int
    by (metis div_by_1 int_one_le_iff_zero_less order_trans pos_imp_zdiv_nonneg_iff zdiv_mono2 zero_less_one)
  have doe: "0 \<le> doe" "doe \<le> 146097" by (simp_all add: doe_def less_imp_le)
  have "- 300000 \<le> doe - doe div 1460 + doe div 36524 - doe div 146096"
    "doe - doe div 1460 + doe div 36524 - doe div 146096 \<le> 300000"
    using bounded [OF doe, of 1460] bounded [OF doe, of 36524] bounded [OF doe, of 146096] doe by linarith+
  from div_within [OF this, of 365] have yoe: "- 822 \<le> yoe" "yoe \<le> 821" unfolding yoe_def by simp_all
  define q r where "q = yoe div 4" and "r = yoe div 100"
  have "- 206 \<le> q" "q \<le> 206" "- 9 \<le> r" "r \<le> 9"
    using div_within [OF yoe, of 4] div_within [OF yoe, of 100] by (simp_all add: q_def r_def)
  then have doy: "- 299990 \<le> doy" "doy \<le> 600000"
    using doe yoe unfolding doy_def q_def [symmetric] r_def [symmetric] by - linarith+
  then have "- 1500000 \<le> 5 * doy + 2" "5 * doy + 2 \<le> 3000002" by simp_all
  from div_within [OF this, of 153] have mp: "- 9804 \<le> mp" "mp \<le> 20000" unfolding mp_def by simp_all
  then have "- 1500100 \<le> 153 * mp + 2" "153 * mp + 2 \<le> 4000000" by linarith+
  from div_within [OF this, of 5] have e: "- 300020 \<le> (153 * mp + 2) div 5" by simp
  have "z \<le> 919468" using assms(3) by (simp add: z_def)
  with div_within [of z z 919468 146097] have era: "era \<le> 6" by (simp add: era_def)
  show "y < 10000" using ymd(1) yoe era by (simp split: if_splits)
  show "m < 100000" using ymd(2) mp by (simp split: if_splits)
  show "d < 10000000" using ymd(3) doy e by linarith
qed

lemma length_rfc3339nano:
  assumes "- 200000 * 86400 * second \<le> t" and "t \<le> 200000 * 86400 * second"
  shows "length (rfc3339nano t) \<le> 60"
proof -
  obtain y mo d where c: "civil (t div (86400 * second)) = (y, mo, d)" by (cases "civil (t div (86400 * second))")
  have days: "- 200000 \<le> t div (86400 * second)" "t div (86400 * second) \<le> 200000"
    using div_within [OF assms, of "86400 * second"] by simp_all
  note b = civil_bounds [OF c days]
  define s f where "s = t mod (86400 * second) div second" and "f = t mod (86400 * second) mod second"
  have "0 \<le> t mod (86400 * second)" "t mod (86400 * second) < 86400 * second"
    by (rule pos_mod_sign, simp) (rule pos_mod_bound, simp)
  then have "0 \<le> t mod (86400 * second)" "t mod (86400 * second) \<le> 86399999999999" by linarith+
  from div_within [OF this, of second] have s: "0 \<le> s" "s \<le> 86399" unfolding s_def by simp_all
  from div_within [OF s, of 3600] div_within [OF s, of 60] have sh: "0 \<le> s div 3600" "s div 3600 < 100" by simp_all
  have f: "0 \<le> f" "f < 10 ^ 9" unfolding f_def by simp_all
  have "length (dropWhile (\<lambda>ch. ch = CHR ''0'') (rev (pad0 9 (nat f)))) \<le> length (rev (pad0 9 (nat f)))"
    by (rule length_dropWhile_le)
  also have "\<dots> \<le> 9" using f length_pad0 [of "nat f" 9 9] by (simp add: nat_less_iff)
  finally have frac: "length (dropWhile (\<lambda>ch. ch = CHR ''0'') (rev (pad0 9 (nat f)))) \<le> 9" .
  have h: "length (pad0 2 (nat (s div 3600))) \<le> 2"
    using sh by (intro length_pad0) (simp_all add: nat_less_iff)
  have m60: "length (pad0 2 (nat (x mod 60))) \<le> 2" for x :: int
  proof (rule length_pad0)
    have "x mod 60 < 60" by (rule pos_mod_bound) simp
    then show "nat (x mod 60) < 10 ^ 2" by simp
  qed simp_all
  have ymd: "length (pad0 4 (nat y)) \<le> 4" "length (pad0 2 (nat mo)) \<le> 5" "length (pad0 2 (nat d)) \<le> 7"
    using b by (intro length_pad0; simp)+
  define frac where "frac = rev (dropWhile (\<lambda>ch. ch = CHR ''0'') (rev (pad0 9 (nat f))))"
  have "rfc3339nano t = pad0 4 (nat y) @ ''-'' @ pad0 2 (nat mo) @ ''-'' @ pad0 2 (nat d) @ ''T'' @
      pad0 2 (nat (s div 3600)) @ '':'' @ pad0 2 (nat (s div 60 mod 60)) @ '':'' @ pad0 2 (nat (s mod 60)) @
      (if frac = [] then [] else ''.'' @ frac) @ ''Z''"
    unfolding rfc3339nano_def c Let_def prod.case s_def f_def frac_def by (rule refl)
  moreover have "length frac \<le> 9" unfolding frac_def using frac by simp
  then have "length (if frac = [] then [] else ''.'' @ frac) \<le> 10" by simp
  ultimately show ?thesis
    using h ymd m60 [of "s div 60"] m60 [of s]
    by (simp only: length_append length_Cons list.size)
qed

lemma length_commas: "(\<And>x. x \<in> set xs \<Longrightarrow> length x \<le> n) \<Longrightarrow> length (commas xs) \<le> length xs * (n + 1)"
proof (induction xs rule: commas.induct)
  case (3 x y xs)
  then have "length x \<le> n" "length (commas (y # xs)) \<le> length (y # xs) * (n + 1)" by simp_all
  then show ?case by simp
qed auto

lemma year_days: "jan1 1678 \<ge> - 200000 * 86400 * second" "jan1 2262 \<le> 200000 * 86400 * second"
  by (simp_all add: jan1_def)

lemma fl_config_times:
  assumes "\<not> fl_config_bad c"
  shows "fcEndsAt c = fcStartsAt c + minute" "jan1 1678 \<le> fcStartsAt c" "fcEndsAt c < jan1 2262"
  using assms by (simp_all add: fl_config_bad_def time_sub_minute)

lemma length_pollBytes:
  assumes "\<not> fl_config_bad c" and "length (fcPollID c) = 16"
  shows "length (pollBytes c) \<le> 4097"
proof -
  note t = fl_config_times [OF assms(1)] year_days
  have r: "length (rfc3339nano (fcStartsAt c)) \<le> 60" "length (rfc3339nano (fcEndsAt c)) \<le> 60"
    using t by (intro length_rfc3339nano; linarith)+
  have "length (decimal (unat (b :: byte))) \<le> 3" for b
  proof (rule length_decimal)
    have "unat b < 2 ^ LENGTH(8)" by (rule unsigned_less)
    then show "unat b < 10 ^ 3" by simp
  qed simp
  then have "length (commas (map (decimal \<circ> unat) (fcPollID c))) \<le> length (map (decimal \<circ> unat) (fcPollID c)) * (3 + 1)"
    by (intro length_commas) auto
  then have i: "length (commas (map (decimal \<circ> unat) (fcPollID c))) \<le> 64" using assms(2) by simp
  have m: "length (decimal (unat (fcAllowedMask c))) \<le> 10"
  proof (rule length_decimal)
    have "unat (fcAllowedMask c) < 2 ^ LENGTH(32)" by (rule unsigned_less)
    then show "unat (fcAllowedMask c) < 10 ^ 10" by simp
  qed simp
  have b: "length (if fcMultiple c then ''true'' else ''false'') \<le> 5" by simp
  show ?thesis
    using r i m b unfolding pollBytes_def quoted_def
    by (simp only: length_append length_Cons list.size length_ascii)
qed

section \<open>A scan without system-call failures\<close>

text \<open>A configuration the store accepts, its poll ID being 16 bytes; and an environment in which
  every system call succeeds and the metadata file is the one the store wrote.\<close>

definition fl_config_ok :: "fl_config \<Rightarrow> bool" where
  "fl_config_ok c \<longleftrightarrow> \<not> fl_config_bad c \<and> length (fcPollID c) = 16"

definition quiet_env :: "fl_config \<Rightarrow> byte list \<Rightarrow> scan_env" where
  "quiet_env c wal = \<lparr>seContextDone = False, seOpenFails = False, seLockFails = False, sePollOpenFails = False,
     sePollBytes = pollBytes c, sePollReadFails = False, sePollCloseFails = False, seWal = wal,
     seReadFails = False, seDoneAt = (\<lambda>_. False)\<rparr>"

lemma length_fileHeader: "length (fcPollID c) = 16 \<Longrightarrow> length (fileHeader c) = 80"
  by (simp add: fileHeader_def Let_def length_poke)

definition start_result :: scan_result where
  "start_result = empty_result\<lparr>srValidBytes := fileHeaderBytes\<rparr>"

lemma Scan_quiet:
  assumes "fl_config_ok c"
  shows "Scan (quiet_env c (fileHeader c @ rest)) c visit s =
    scan_loop (quiet_env c (fileHeader c @ rest)) c visit 0 rest start_result s"
  using assms length_pollBytes [of c] length_fileHeader [of c]
  by (simp add: Scan_def quiet_env_def readFull_def start_result_def fl_config_ok_def)

lemma Scan_quiet_start:
  assumes "fl_config_ok c" and "Scan (quiet_env c wal) c visit s = (r, None, s')"
  shows "\<exists>rest. wal = fileHeader c @ rest"
proof -
  have "take 80 wal = fileHeader c"
    using assms(2) by (auto simp: Scan_def quiet_env_def readFull_def Let_def split: if_splits)
  then show ?thesis by (metis append_take_drop_id)
qed

text \<open>The bytes a store writes for a configuration and a list of frames.\<close>

definition journal_bytes :: "fl_config \<Rightarrow> fl_frame list \<Rightarrow> byte list" where
  "journal_bytes c fs = fileHeader c @ frames_wire 0 fs"

lemma frames_wire_append: "frames_wire n (fs @ gs) = frames_wire n fs @ frames_wire (n + length fs) gs"
  by (induction fs arbitrary: n) auto

definition collect :: "fl_position \<Rightarrow> fl_vote \<Rightarrow> (fl_position \<times> fl_vote) list \<Rightarrow> (fl_position \<times> fl_vote) list \<times> bool" where
  "collect p v s = (s @ [(p, v)], False)"

lemma deliver_collect: "deliver collect es s = (s @ es, False)"
  by (induction es arbitrary: s) (auto simp: collect_def)

lemma apply_collect: "apply_visitor (Some collect) es s = (s @ es, False)"
  by (simp add: apply_visitor_def deliver_collect)

section \<open>A written journal is read back\<close>

lemma scan_written_open:
  assumes "fl_config_ok c" and "open_journal c 0 fs" and "apply_visitor visit (journal_entries 0 fs) s = (s', False)"
  shows "Scan (quiet_env c (journal_bytes c fs)) c visit s = (advance_all 0 fs start_result, None, s')"
proof -
  have "scan_loop (quiet_env c (journal_bytes c fs)) c visit 0 (frames_wire 0 fs @ []) start_result s
      = scan_loop (quiet_env c (journal_bytes c fs)) c visit (0 + length fs) [] (advance_all 0 fs start_result) s'"
    by (rule scan_loop_frames [OF assms(2) _ _ assms(3)]) (simp_all add: quiet_env_def start_result_def empty_result_def)
  with Scan_quiet [OF assms(1), of "frames_wire 0 fs" visit s] show ?thesis
    by (simp add: journal_bytes_def scan_loop_end quiet_env_def)
qed

lemma scan_written_closed:
  assumes "fl_config_ok c" and "open_journal c 0 fs" and "apply_visitor visit (journal_entries 0 fs) s = (s', False)"
  shows "Scan (quiet_env c (journal_bytes c (fs @ [ClosedFrame]))) c visit s =
    (advance_all 0 (fs @ [ClosedFrame]) start_result, None, s')"
proof -
  let ?env = "quiet_env c (journal_bytes c (fs @ [ClosedFrame]))"
  have open_r: "\<not> srClosed (advance_all 0 fs start_result)"
    using assms(2) by (simp add: advance_all_open open_journal_def start_result_def empty_result_def)
  have small: "length fs < 2 ^ 63 - 1" using assms(2) by (simp add: open_journal_def)
  have "scan_loop ?env c visit 0 (frames_wire 0 fs @ frame_wire (length fs) ClosedFrame) start_result s
      = scan_loop ?env c visit (0 + length fs) (frame_wire (length fs) ClosedFrame) (advance_all 0 fs start_result) s'"
    by (rule scan_loop_frames [OF assms(2) _ _ assms(3)]) (simp_all add: quiet_env_def start_result_def empty_result_def)
  also have "\<dots> = (advance (length fs) ClosedFrame (advance_all 0 fs start_result), None, s')"
    using scan_loop_closed_end [OF open_r, of ?env "length fs" c visit s'] small by (simp add: quiet_env_def)
  finally show ?thesis
    using Scan_quiet [OF assms(1), of "frames_wire 0 (fs @ [ClosedFrame])" visit s]
    by (simp add: journal_bytes_def frames_wire_append advance_all_snoc)
qed

section \<open>Cut and altered journals\<close>

lemma frames_cut:
  "k \<le> length (frames_wire n fs) \<Longrightarrow> \<exists>j t. j \<le> length fs \<and> take k (frames_wire n fs) = frames_wire n (take j fs) @ t \<and>
     (t = [] \<or> j < length fs \<and> (\<exists>m. 0 < m \<and> m < length (frame_wire (n + j) (fs ! j)) \<and> t = take m (frame_wire (n + j) (fs ! j))))"
proof (induction fs arbitrary: k n)
  case Nil
  then show ?case by simp
next
  case (Cons f fs)
  show ?case
  proof (cases "k < length (frame_wire n f)")
    case True
    then show ?thesis
      by (intro exI [of _ 0] exI [of _ "take k (frame_wire n f)"]) auto
  next
    case False
    let ?k = "k - length (frame_wire n f)"
    have "?k \<le> length (frames_wire (Suc n) fs)" using Cons.prems by simp
    from Cons.IH [OF this] obtain j t where IH: "j \<le> length fs"
      "take ?k (frames_wire (Suc n) fs) = frames_wire (Suc n) (take j fs) @ t"
      "t = [] \<or> j < length fs \<and> (\<exists>m. 0 < m \<and> m < length (frame_wire (Suc n + j) (fs ! j)) \<and>
         t = take m (frame_wire (Suc n + j) (fs ! j)))" by blast
    with False show ?thesis
      by (intro exI [of _ "Suc j"] exI [of _ t]) auto
  qed
qed

lemma partial_cut:
  assumes "frame_ok c f" and "0 < m" and "m < length (frame_wire n f)"
  shows "partial_frame n (take m (frame_wire n f))"
proof (cases "m < 40")
  case True
  have "length (take m (frame_wire n f)) = m" using assms(3) by simp
  with True assms(2) show ?thesis by (auto simp: partial_frame_def simp del: length_take)
next
  case False
  note facts = frame_ok_facts [OF assms(1)]
  have "take 40 (take m (frame_wire n f)) = frame_header n (frame_kind f) (frame_count f) (frame_payload f)"
    using False by (simp add: frame_wire_def)
  moreover have "length (take m (frame_wire n f)) < 40 + unat (frame_count f) * 28"
    using assms(3) facts(3) by (simp add: frame_wire_def)
  ultimately show ?thesis
    using checkFrameHeader_frame [OF facts(1,3)] False assms(2,3)
    by (auto simp: partial_frame_def)
qed

lemma scan_written_cut:
  assumes "fl_config_ok c" and "open_journal c 0 fs" and "80 \<le> k" and "k \<le> length (journal_bytes c fs)"
  shows "\<exists>j \<le> length fs. \<exists>t. take k (journal_bytes c fs) = journal_bytes c (take j fs) @ t \<and>
    (j < length fs \<longrightarrow> k < length (journal_bytes c (take (Suc j) fs))) \<and>
    Scan (quiet_env c (take k (journal_bytes c fs))) c (Some collect) [] =
      ((advance_all 0 (take j fs) start_result)\<lparr>srIncompleteTail := t \<noteq> []\<rparr>, None, journal_entries 0 (take j fs))"
proof -
  have hdr: "length (fileHeader c) = 80" using assms(1) by (simp add: fl_config_ok_def length_fileHeader)
  have "k - 80 \<le> length (frames_wire 0 fs)" using assms(4) hdr by (simp add: journal_bytes_def)
  from frames_cut [OF this] obtain j t where j: "j \<le> length fs"
    and cut: "take (k - 80) (frames_wire 0 fs) = frames_wire 0 (take j fs) @ t"
    and t: "t = [] \<or> j < length fs \<and> (\<exists>m. 0 < m \<and> m < length (frame_wire j (fs ! j)) \<and> t = take m (frame_wire j (fs ! j)))"
    by auto
  have bytes: "take k (journal_bytes c fs) = fileHeader c @ frames_wire 0 (take j fs) @ t"
    using assms(3) hdr cut by (simp add: journal_bytes_def)
  have open_j: "open_journal c 0 (take j fs)"
    using assms(2) j by (auto simp: open_journal_def list_all_iff dest: in_set_takeD)
  let ?env = "quiet_env c (take k (journal_bytes c fs))" and ?r = "advance_all 0 (take j fs) start_result"
  have open_r: "\<not> srClosed ?r" "\<not> srIncompleteTail ?r"
    using open_j by (simp_all add: advance_all_open open_journal_def start_result_def empty_result_def)
  have "Scan ?env c (Some collect) [] = scan_loop ?env c (Some collect) 0 (frames_wire 0 (take j fs) @ t) start_result []"
    using Scan_quiet [OF assms(1), of "frames_wire 0 (take j fs) @ t" "Some collect" "[]"] by (simp add: bytes)
  also have "\<dots> = scan_loop ?env c (Some collect) (0 + length (take j fs)) t ?r (journal_entries 0 (take j fs))"
    by (rule scan_loop_frames [OF open_j])
      (simp_all add: quiet_env_def start_result_def empty_result_def apply_collect)
  also have "\<dots> = (?r\<lparr>srIncompleteTail := t \<noteq> []\<rparr>, None, journal_entries 0 (take j fs))"
  proof (cases "t = []")
    case True
    with open_r show ?thesis by (simp add: scan_loop_end quiet_env_def)
  next
    case False
    with t obtain m where m: "j < length fs" "0 < m" "m < length (frame_wire j (fs ! j))"
      "t = take m (frame_wire j (fs ! j))" by blast
    have "frame_ok c (fs ! j)" using assms(2) m(1) by (simp add: open_journal_def list_all_iff)
    with m have "partial_frame j t" by (simp add: partial_cut)
    with False j open_r show ?thesis
      by (subst scan_loop.simps) (simp add: scan_frame_partial quiet_env_def min_def)
  qed
  finally have scan: "Scan ?env c (Some collect) [] = \<dots>" .
  have "k < length (journal_bytes c (take (Suc j) fs))" if lt: "j < length fs"
  proof -
    have "length t < length (frame_wire j (fs ! j))"
      using t by (cases "t = []") (auto simp: frame_wire_def)
    moreover have "k = 80 + length (frames_wire 0 (take j fs)) + length t"
      using assms(3,4) arg_cong [OF bytes, of length] hdr by simp
    ultimately show ?thesis
      using lt by (simp add: journal_bytes_def hdr take_Suc_conv_app_nth frames_wire_append)
  qed
  with scan j bytes show ?thesis
    by (intro exI [of _ j] conjI exI [of _ t]) (simp_all add: journal_bytes_def)
qed

text \<open>One altered byte in a frame stops the scan there with an error.\<close>

lemma scan_frame_altered:
  assumes ok: "frame_ok c f" and i: "i < length (frame_wire n f)" and x: "x \<noteq> frame_wire n f ! i"
    and r: "\<not> srClosed r" and at: "\<not> seDoneAt env n"
  shows "\<exists>e. scan_frame env c visit n ((frame_wire n f)[i := x] @ rest) r s = Stop r (Some e) s"
proof -
  note facts = frame_ok_facts [OF ok]
  let ?h = "frame_header n (frame_kind f) (frame_count f) (frame_payload f)" and ?p = "frame_payload f"
  show ?thesis
  proof (cases "i < 40")
    case True
    then have w: "(frame_wire n f)[i := x] = ?h[i := x] @ ?p" and "x \<noteq> ?h ! i"
      using x by (simp_all add: frame_wire_def list_update_append1 nth_append)
    from checkFrameHeader_altered [OF True this(2)] obtain e
      where e: "checkFrameHeader (?h[i := x]) n = Inl e" by blast
    have "readFull (seReadFails env) ((frame_wire n f)[i := x] @ rest) 40 = ReadOk (?h[i := x]) (?p @ rest)"
      unfolding w by (simp add: readFull_def)
    with e r at show ?thesis by (simp add: scan_frame_def)
  next
    case False
    define j where "j = i - 40"
    have w: "(frame_wire n f)[i := x] = ?h @ ?p[j := x]" and jx: "x \<noteq> ?p ! j" "j < length ?p"
      using x i False by (simp_all add: frame_wire_def list_update_append nth_append j_def)
    have "crc32c (?p[j := x]) \<noteq> crc32c ?p" using crc.single_byte [OF jx(2), of x] jx(1) by auto
    then have bad: "validatePayload n c ?h (?p[j := x]) = Some (PayloadMismatch n)"
      by (simp add: validatePayload_def frame_header_fields get_be_put_be)
    have r1: "readFull (seReadFails env) ((frame_wire n f)[i := x] @ rest) 40 = ReadOk ?h (?p[j := x] @ rest)"
      unfolding w by (simp add: readFull_def)
    have r2: "readFull (seReadFails env) (?p[j := x] @ rest) (unat (frame_count f) * 28) = ReadOk (?p[j := x]) rest"
      using facts(3) by (simp add: readFull_def)
    show ?thesis
      using r at by (simp add: scan_frame_def r1 r2 checkFrameHeader_frame [OF facts(1,3)] bad)
  qed
qed

lemma frames_altered:
  "i < length (frames_wire n fs) \<Longrightarrow> x \<noteq> frames_wire n fs ! i \<Longrightarrow>
     \<exists>pre f post j. fs = pre @ f # post \<and> j < length (frame_wire (n + length pre) f) \<and>
       x \<noteq> frame_wire (n + length pre) f ! j \<and>
       (frames_wire n fs)[i := x] = frames_wire n pre @ (frame_wire (n + length pre) f)[j := x] @
         frames_wire (Suc (n + length pre)) post"
proof (induction fs arbitrary: n i)
  case Nil
  then show ?case by simp
next
  case (Cons f fs)
  show ?case
  proof (cases "i < length (frame_wire n f)")
    case True
    with Cons.prems show ?thesis
      by (intro exI [of _ "[]"] exI [of _ f] exI [of _ fs] exI [of _ i])
        (simp add: list_update_append1 nth_append)
  next
    case False
    let ?i = "i - length (frame_wire n f)"
    have "?i < length (frames_wire (Suc n) fs)" "x \<noteq> frames_wire (Suc n) fs ! ?i"
      using Cons.prems False by (simp_all add: nth_append)
    from Cons.IH [OF this] obtain pre g post j where IH: "fs = pre @ g # post"
      "j < length (frame_wire (Suc n + length pre) g)" "x \<noteq> frame_wire (Suc n + length pre) g ! j"
      "(frames_wire (Suc n) fs)[?i := x] = frames_wire (Suc n) pre @ (frame_wire (Suc n + length pre) g)[j := x] @
         frames_wire (Suc (Suc n + length pre)) post" by blast
    have "(frames_wire n (f # fs))[i := x] = frame_wire n f @ (frames_wire (Suc n) fs)[?i := x]"
      using False by (simp add: list_update_append)
    with IH show ?thesis
      by (intro exI [of _ "f # pre"] exI [of _ g] exI [of _ post] exI [of _ j]) simp
  qed
qed

lemma scan_altered:
  assumes "fl_config_ok c" and "open_journal c 0 fs" and "js = fs @ (if closed then [ClosedFrame] else [])"
    and "i < length (journal_bytes c js)" and "x \<noteq> journal_bytes c js ! i"
  shows "\<exists>r e s'. Scan (quiet_env c ((journal_bytes c js)[i := x])) c visit s = (r, Some e, s')"
proof -
  have hdr: "length (fileHeader c) = 80" using assms(1) by (simp add: fl_config_ok_def length_fileHeader)
  show ?thesis
  proof (cases "i < 80")
    case True
    then have bytes: "(journal_bytes c js)[i := x] = (fileHeader c)[i := x] @ frames_wire 0 js"
      and "x \<noteq> fileHeader c ! i"
      using assms(5) hdr by (simp_all add: journal_bytes_def list_update_append1 nth_append)
    then have "(fileHeader c)[i := x] \<noteq> fileHeader c" using True hdr by (metis nth_list_update_eq)
    with assms(1) hdr length_pollBytes [of c] show ?thesis
      unfolding bytes by (simp add: Scan_def quiet_env_def readFull_def fl_config_ok_def Let_def)
  next
    case False
    define k where "k = i - 80"
    have bytes: "(journal_bytes c js)[i := x] = fileHeader c @ (frames_wire 0 js)[k := x]"
      and k: "k < length (frames_wire 0 js)" "x \<noteq> frames_wire 0 js ! k"
      using False assms(4,5) hdr by (simp_all add: journal_bytes_def list_update_append nth_append k_def)
    from frames_altered [OF k] obtain pre f post j where split: "js = pre @ f # post"
      and j: "j < length (frame_wire (length pre) f)" "x \<noteq> frame_wire (length pre) f ! j"
      and wire: "(frames_wire 0 js)[k := x] = frames_wire 0 pre @ ((frame_wire (length pre) f)[j := x] @
        frames_wire (Suc (length pre)) post)" by auto
    have "pre @ f # post = fs \<or> (\<exists>post'. pre @ f # post' = fs) \<or> (pre = fs \<and> f = ClosedFrame)"
      using split assms(3) by (cases post rule: rev_cases) (auto split: if_splits)
    then have pre: "open_journal c 0 pre" and ok: "frame_ok c f"
      using assms(2) by (auto simp: open_journal_def) (auto simp: frame_ok_def)
    let ?env = "quiet_env c ((journal_bytes c js)[i := x])"
    let ?t = "(frame_wire (length pre) f)[j := x] @ frames_wire (Suc (length pre)) post"
    have quiet: "\<And>k. \<not> seDoneAt ?env k" "\<not> srClosed start_result"
      by (simp_all add: quiet_env_def start_result_def empty_result_def)
    have scan: "Scan ?env c visit s = scan_loop ?env c visit 0 (frames_wire 0 pre @ ?t) start_result s"
      using Scan_quiet [OF assms(1), of "(frames_wire 0 js)[k := x]" visit s] by (simp add: bytes wire)
    obtain s1 b where v: "apply_visitor visit (journal_entries 0 pre) s = (s1, b)"
      by (cases "apply_visitor visit (journal_entries 0 pre) s")
    show ?thesis
    proof (cases b)
      case True
      with scan_loop_visitor_error [OF pre quiet(2,1), of visit s s1 ?t] v scan show ?thesis by auto
    next
      case False
      let ?r = "advance_all 0 pre start_result"
      have loop: "scan_loop ?env c visit 0 (frames_wire 0 pre @ ?t) start_result s
          = scan_loop ?env c visit (0 + length pre) ?t ?r s1"
        using scan_loop_frames [OF pre quiet(2,1), of visit s s1 ?t] v False by simp
      have "\<not> srClosed ?r"
        using pre by (simp add: advance_all_open open_journal_def start_result_def empty_result_def)
      from scan_frame_altered [OF ok j this quiet(1), of visit "frames_wire (Suc (length pre)) post" s1]
      show ?thesis
        unfolding scan loop by (subst scan_loop.simps) auto
    qed
  qed
qed

lemma length_frames_wire_ge: "40 * length fs \<le> length (frames_wire n fs)"
proof (induction fs arbitrary: n)
  case Nil
  then show ?case by simp
next
  case (Cons f fs)
  have "40 \<le> length (frame_wire n f)" by (simp add: frame_wire_def)
  moreover have "40 * length fs \<le> length (frames_wire (Suc n) fs)" by (rule Cons.IH)
  ultimately show ?case by simp
qed

section \<open>A cut in a closed journal\<close>

lemma length_journal_mono:
  assumes "i \<le> j"
  shows "length (journal_bytes c (take i fs)) \<le> length (journal_bytes c (take j fs))"
proof -
  have "take j fs = take i fs @ drop i (take j fs)" using assms
    by (metis append_take_drop_id min.absorb1 take_take)
  then have "frames_wire 0 (take j fs) = frames_wire 0 (take i fs) @ frames_wire (length (take i fs)) (drop i (take j fs))"
    by (metis add_0 frames_wire_append)
  then show ?thesis by (simp add: journal_bytes_def)
qed

lemma scan_closed_cut:
  assumes "fl_config_ok c" and "open_journal c 0 fs" and "80 \<le> k"
  shows "\<exists>j r. j \<le> length fs \<and>
    Scan (quiet_env c (take k (journal_bytes c (fs @ [ClosedFrame])))) c (Some collect) [] = (r, None, journal_entries 0 (take j fs)) \<and>
    (\<forall>i \<le> length fs. length (journal_bytes c (take i fs)) \<le> k \<longrightarrow> i \<le> j)"
proof -
  let ?js = "fs @ [ClosedFrame]" and ?cl = "frame_wire (length fs) ClosedFrame"
  have hdr: "length (fileHeader c) = 80" using assms(1) by (simp add: fl_config_ok_def length_fileHeader)
  have bytes: "journal_bytes c ?js = journal_bytes c fs @ ?cl"
    by (simp add: journal_bytes_def frames_wire_append)
  consider "length (journal_bytes c ?js) \<le> k" | "k \<le> length (journal_bytes c fs)"
    | "length (journal_bytes c fs) < k" "k < length (journal_bytes c ?js)" by linarith
  then show ?thesis
  proof cases
    case 1
    with scan_written_closed [OF assms(1,2) apply_collect] show ?thesis
      by (intro exI [of _ "length fs"]) simp
  next
    case 2
    obtain j and t :: "byte list" where j: "j \<le> length fs"
      "j < length fs \<longrightarrow> k < length (journal_bytes c (take (Suc j) fs))"
      "Scan (quiet_env c (take k (journal_bytes c fs))) c (Some collect) [] =
        ((advance_all 0 (take j fs) start_result)\<lparr>srIncompleteTail := t \<noteq> []\<rparr>, None, journal_entries 0 (take j fs))"
      using scan_written_cut [OF assms 2] by (elim exE conjE) (rule that, assumption+)
    have "i \<le> j" if "i \<le> length fs" "length (journal_bytes c (take i fs)) \<le> k" for i
    proof (rule ccontr)
      assume "\<not> i \<le> j"
      then have "length (journal_bytes c (take (Suc j) fs)) \<le> length (journal_bytes c (take i fs))" "j < length fs"
        using that by (auto intro: length_journal_mono)
      with j(2) that(2) show False by simp
    qed
    with j 2 bytes show ?thesis by auto
  next
    case 3
    define m where "m = k - length (journal_bytes c fs)"
    have cut: "take k (journal_bytes c ?js) = fileHeader c @ frames_wire 0 fs @ take m ?cl"
      using 3 by (simp add: bytes m_def) (simp add: journal_bytes_def)
    have part: "partial_frame (length fs) (take m ?cl)"
      using 3 by (intro partial_cut [of c]) (simp_all add: m_def bytes frame_ok_def)
    let ?env = "quiet_env c (take k (journal_bytes c ?js))" and ?r = "advance_all 0 fs start_result"
    have open_r: "\<not> srClosed ?r"
      using assms(2) by (simp add: advance_all_open open_journal_def start_result_def empty_result_def)
    have "Scan ?env c (Some collect) [] = scan_loop ?env c (Some collect) 0 (frames_wire 0 fs @ take m ?cl) start_result []"
      unfolding cut by (rule Scan_quiet [OF assms(1)])
    also have "\<dots> = scan_loop ?env c (Some collect) (0 + length fs) (take m ?cl) ?r (journal_entries 0 fs)"
      by (rule scan_loop_frames [OF assms(2)])
        (simp_all add: quiet_env_def start_result_def empty_result_def apply_collect)
    also have "\<dots> = (?r\<lparr>srIncompleteTail := True\<rparr>, None, journal_entries 0 fs)"
      using part open_r by (subst scan_loop.simps) (simp add: scan_frame_partial quiet_env_def)
    finally show ?thesis by (intro exI [of _ "length fs"]) simp
  qed
qed

end
