(* ===== verification/Filelog_Store.thy ===== *)
theory Filelog_Store
  imports Filelog_Scans
begin

text \<open>
  The live file journal (\<^verbatim>\<open>internal/filelog/store.go\<close>): \<^verbatim>\<open>New\<close>, \<^verbatim>\<open>SubmitFrame\<close>, the writer
  goroutine \<^verbatim>\<open>run\<close> with \<^verbatim>\<open>flush\<close>, \<^verbatim>\<open>syncGroup\<close>, \<^verbatim>\<open>writeAll\<close> and \<^verbatim>\<open>drainFailure\<close>, then \<^verbatim>\<open>Seal\<close>,
  \<^verbatim>\<open>Close\<close> and \<^verbatim>\<open>Metrics\<close>.

  The state is the \<^verbatim>\<open>Store\<close> struct with the local variables of \<^verbatim>\<open>run\<close> (\<open>w...\<close>) and the file
  (\<open>dWritten\<close>, the bytes written; \<open>dSynced\<close>, how many of them a successful sync covered).
  \<open>stAnswers\<close> are the answers sent on the jobs' channels, \<open>stOutcomes\<close> what \<^verbatim>\<open>SubmitFrame\<close> returned;
  \<open>jbInputs\<close> records the inputs a job was made from. Each definition below is one critical section
  or one step of the writer; \<open>fl_step\<close> interleaves them. System calls take their outcome as an
  argument: a write reports \<open>(n, failed)\<close> for each call and has written the \<open>n\<close> bytes it reports.
\<close>

section \<open>State\<close>

record fl_job =
  jbInputs :: "fl_input list"
  jbData :: "byte list"
  jbCount :: nat
  jbAdmitted :: time

datatype w_phase = WIdle | WHold fl_job | WRoom fl_job | WCheck | WDrain | WSeal | WExit | WDone

record fl_store =
  stCfg :: fl_config
  stAdmissionClosed :: bool
  stQueueClosed :: bool
  stSealRequested :: bool
  stPoison :: "fl_error option"
  stManifest :: fl_manifest
  stQueuedVotes :: nat
  stQueue :: "fl_job list"
  stAnswers :: "(fl_job \<times> fl_receipt \<times> fl_error option) list"
  stOutcomes :: "(fl_job \<times> (fl_error + fl_receipt)) list"
  wPhase :: w_phase
  wSequence :: nat
  wBatch :: "fl_job list"
  wVotes :: nat
  wTick :: bool
  dWritten :: "byte list"
  dSynced :: nat
  mActive :: nat
  mDurableVotes :: nat
  mDurableFrames :: nat
  mGroups :: nat
  mWalBytes :: nat
  mAcknowledged :: nat
  mUnknown :: nat
  mBusy :: nat

section \<open>Writing\<close>

function writeAll ::
  "(nat \<Rightarrow> int \<times> bool) \<Rightarrow> nat \<Rightarrow> byte list \<Rightarrow> byte list \<Rightarrow> byte list \<times> fl_error option" where
  "writeAll wr call written b =
     (if b = [] then (written, None)
      else let (n, failed) = wr call in
        if n < 0 \<or> n > int (length b) then (written, Some ShortWrite)
        else let written = written @ take (nat n) b; b = drop (nat n) b in
          if failed then (written, Some WriteFailed)
          else if n = 0 then (written, Some ShortWrite)
          else writeAll wr (Suc call) written b)"
  by pat_completeness auto
termination
  by (relation "measure (\<lambda>(wr, call, written, b). length b)") auto

declare writeAll.simps [simp del]

definition syncGroup ::
  "(nat \<Rightarrow> int \<times> bool) \<Rightarrow> bool \<Rightarrow> byte list \<Rightarrow> fl_store \<Rightarrow> fl_store \<times> fl_error option" where
  "syncGroup wr sync_ok data s =
     (case writeAll wr 0 (dWritten s) data of
        (written, Some e) \<Rightarrow> (s\<lparr>dWritten := written\<rparr>, Some e)
      | (written, None) \<Rightarrow>
          let s = s\<lparr>dWritten := written, mWalBytes := mWalBytes s + length data\<rparr> in
          if sync_ok then (s\<lparr>dSynced := length written, mGroups := mGroups s + 1\<rparr>, None)
          else (s, Some SyncFailed))"

section \<open>Creating a store\<close>

text \<open>Which calls of \<^verbatim>\<open>New\<close> fail, in their order.\<close>

record new_env =
  neContextDone :: bool
  neMkdirFails :: bool
  neOpenDirFails :: bool
  neOpenParentFails :: bool
  neOpenWalFails :: bool
  neLockFails :: bool
  neOpenPollFails :: bool
  nePollWrites :: "nat \<Rightarrow> int \<times> bool"
  nePollSyncFails :: bool
  nePollCloseFails :: bool
  neHeaderWrites :: "nat \<Rightarrow> int \<times> bool"
  neWalSyncFails :: bool
  neDirSyncFails :: bool
  neParentSyncFails :: bool
  neContextDoneAfter :: bool

definition new_store :: "fl_config \<Rightarrow> fl_store" where
  "new_store c = \<lparr>stCfg = c, stAdmissionClosed = False, stQueueClosed = False, stSealRequested = False,
     stPoison = None, stManifest = [], stQueuedVotes = 0, stQueue = [], stAnswers = [], stOutcomes = [],
     wPhase = WIdle, wSequence = 0, wBatch = [], wVotes = 0, wTick = False,
     dWritten = fileHeader c, dSynced = fileHeaderBytes, mActive = 0, mDurableVotes = 0, mDurableFrames = 0,
     mGroups = 0, mWalBytes = fileHeaderBytes, mAcknowledged = 0, mUnknown = 0, mBusy = 0\<rparr>"

definition New_fl :: "new_env \<Rightarrow> fl_config \<Rightarrow> fl_error + fl_store" where
  "New_fl env c =
     (if fl_config_bad c then Inl ErrInvalid
      else if neContextDone env then Inl ContextDone
      else if neMkdirFails env then Inl MkdirFailed
      else if neOpenDirFails env then Inl OpenFailed
      else if neOpenParentFails env then Inl OpenFailed
      else if neOpenWalFails env then Inl OpenFailed
      else if neLockFails env then Inl LockedByWriter
      else if neOpenPollFails env then Inl PollOpenFailed
      else let poll = snd (writeAll (nePollWrites env) 0 [] (pollBytes c));
        poll = (if poll = None \<and> nePollSyncFails env then Some SyncFailed else poll);
        poll = (if poll = None \<and> nePollCloseFails env then Some PollCloseFailed else poll)
      in case poll of Some e \<Rightarrow> Inl e | None \<Rightarrow>
        (case snd (writeAll (neHeaderWrites env) 0 [] (fileHeader c)) of Some e \<Rightarrow> Inl e | None \<Rightarrow>
          if neWalSyncFails env \<or> neDirSyncFails env \<or> neParentSyncFails env then Inl SyncFailed
          else if neContextDoneAfter env then Inl ContextDone
          else Inr (new_store c)))"

section \<open>Submitting\<close>

definition input_bad :: "fl_config \<Rightarrow> fl_input \<Rightarrow> bool" where
  "input_bad c inp \<longleftrightarrow> fiToken inp = zero16 \<or> \<not> validChoice c (fiChoice inp)"

text \<open>
  \<^verbatim>\<open>SubmitFrame\<close> up to the enqueue: \<open>done1\<close> and \<open>done2\<close> are the two context checks, \<open>observed\<close>
  and \<open>admitted\<close> the two clock readings, all under the mutex but the first.
\<close>

definition submit_frame ::
  "bool \<Rightarrow> bool \<Rightarrow> time \<Rightarrow> time \<Rightarrow> fl_input list \<Rightarrow> fl_store \<Rightarrow> fl_store \<times> (fl_error + fl_job)" where
  "submit_frame done1 done2 observed admitted inputs s =
     (let c = stCfg s in
      if inputs = [] \<or> length inputs > maxFrameVotes \<or> int (length inputs) > fcBatchSize c then (s, Inl ErrInvalid)
      else if \<exists>inp \<in> set inputs. input_bad c inp then (s, Inl ErrInvalid)
      else if done1 then (s, Inl ContextDone)
      else case stPoison s of
        Some e \<Rightarrow> (s, Inl e)
      | None \<Rightarrow>
          if stAdmissionClosed s then (s, Inl ErrClosed)
          else if \<not> observed < fcEndsAt c then (s\<lparr>stAdmissionClosed := True\<rparr>, Inl ErrClosed)
          else if observed < fcStartsAt c then (s, Inl ErrNotOpen)
          else if int (stQueuedVotes s + length inputs) > fcQueuePerPartition c
          then (s\<lparr>mBusy := mBusy s + length inputs\<rparr>, Inl ErrBusy)
          else if admitted < fcStartsAt c then (s, Inl ErrNotOpen)
          else if \<not> admitted < fcEndsAt c then (s\<lparr>stAdmissionClosed := True\<rparr>, Inl ErrClosed)
          else if done2 then (s, Inl ContextDone)
          else let j = \<lparr>jbInputs = inputs, jbData = encodeInputs inputs admitted, jbCount = length inputs,
                jbAdmitted = admitted\<rparr>
            in (s\<lparr>stQueuedVotes := stQueuedVotes s + length inputs, stQueue := stQueue s @ [j]\<rparr>, Inr j))"

text \<open>The final \<^verbatim>\<open>select\<close> of \<^verbatim>\<open>SubmitFrame\<close>: the answer arrives, or the context is done first.\<close>

definition submit_answered :: "fl_job \<Rightarrow> fl_receipt \<Rightarrow> fl_error option \<Rightarrow> fl_store \<Rightarrow> fl_store" where
  "submit_answered j r err s =
     (case err of
        None \<Rightarrow> s\<lparr>mAcknowledged := mAcknowledged s + jbCount j, stOutcomes := stOutcomes s @ [(j, Inr r)]\<rparr>
      | Some e \<Rightarrow> s\<lparr>mUnknown := mUnknown s + jbCount j, stOutcomes := stOutcomes s @ [(j, Inl e)]\<rparr>)"

definition submit_abandoned :: "fl_job \<Rightarrow> fl_store \<Rightarrow> fl_store" where
  "submit_abandoned j s =
     s\<lparr>mUnknown := mUnknown s + jbCount j, stOutcomes := stOutcomes s @ [(j, Inl ErrUnknown)]\<rparr>"

section \<open>Stopping\<close>

definition stopQueue :: "fl_store \<Rightarrow> fl_store" where
  "stopQueue s = s\<lparr>stAdmissionClosed := True, stQueueClosed := True\<rparr>"

definition fail :: "fl_error \<Rightarrow> fl_store \<Rightarrow> fl_store" where
  "fail e s = stopQueue (if stPoison s = None then s\<lparr>stPoison := Some ErrUnknown\<rparr> else s)"

definition release :: "fl_job \<Rightarrow> fl_store \<Rightarrow> fl_store" where
  "release j s = s\<lparr>stQueuedVotes := stQueuedVotes s - jbCount j\<rparr>"

text \<open>
  \<^verbatim>\<open>waitUntil\<close> over the successive clock readings and context checks: \<open>True\<close> when the time was
  reached, \<open>False\<close> when the context ended first; \<open>None\<close> while it still waits.
\<close>

fun waitUntil :: "time \<Rightarrow> (bool \<times> time \<times> bool) list \<Rightarrow> bool option" where
  "waitUntil until [] = None"
| "waitUntil until ((done_before, now, done_waiting) # rs) =
     (if done_before then Some False
      else if time_sub until now \<le> 0 then Some True
      else if done_waiting then Some False
      else waitUntil until rs)"

text \<open>\<^verbatim>\<open>Seal\<close> after its wait, and what it returns once the writer is done; \<^verbatim>\<open>Close\<close>.\<close>

definition seal_request :: "fl_store \<Rightarrow> fl_store" where
  "seal_request s = (if stQueueClosed s then s else stopQueue (s\<lparr>stSealRequested := True\<rparr>))"

definition seal_result :: "fl_store \<Rightarrow> fl_error + fl_manifest" where
  "seal_result s =
     (case stPoison s of
        Some e \<Rightarrow> Inl e
      | None \<Rightarrow> if stManifest s = [] then Inl ErrClosed else Inr (stManifest s))"

section \<open>The writer\<close>

definition batch_data :: "nat \<Rightarrow> fl_job list \<Rightarrow> byte list" where
  "batch_data sequence batch =
     concat (map (\<lambda>(i, j). finishFrame (jbData j) (sequence + i) kindVotes (of_nat (jbCount j)))
       (zip [0..<length batch] batch))"

definition batch_answers :: "nat \<Rightarrow> fl_job list \<Rightarrow> fl_error option \<Rightarrow> (fl_job \<times> fl_receipt \<times> fl_error option) list" where
  "batch_answers sequence batch err =
     map (\<lambda>(i, j). (j, \<lparr>frPartition = 0, frOffset = sequence + i, frCount = of_nat (jbCount j),
        frAdmittedAt = jbAdmitted j\<rparr>, err)) (zip [0..<length batch] batch)"

definition flush :: "(nat \<Rightarrow> int \<times> bool) \<Rightarrow> bool \<Rightarrow> fl_store \<Rightarrow> fl_store \<times> fl_error option" where
  "flush wr sync_ok s =
     (if wBatch s = [] then (s, None)
      else let s = s\<lparr>wTick := False\<rparr>;
        (s, err) = (if wSequence s + length (wBatch s) > 2 ^ 63 - 1 then (s, Some SequenceExhausted)
          else syncGroup wr sync_ok (batch_data (wSequence s) (wBatch s)) s);
        (s, err) = (case err of
            Some e \<Rightarrow> (let s = fail e s in (s, stPoison s))
          | None \<Rightarrow> (s\<lparr>mDurableVotes := mDurableVotes s + wVotes s,
              mDurableFrames := mDurableFrames s + length (wBatch s)\<rparr>, None))
      in (s\<lparr>stAnswers := stAnswers s @ batch_answers (wSequence s) (wBatch s) err,
            wSequence := wSequence s + length (wBatch s), wBatch := [], wVotes := 0, mActive := 0\<rparr>, err))"

text \<open>The answer of a job that was never written.\<close>

definition answer_error :: "fl_job \<Rightarrow> fl_store \<Rightarrow> fl_store" where
  "answer_error j s =
     s\<lparr>stAnswers := stAnswers s @ [(j, \<lparr>frPartition = 0, frOffset = 0, frCount = 0, frAdmittedAt = jan1 1\<rparr>, stPoison s)]\<rparr>"

definition w_dequeue :: "fl_store \<Rightarrow> fl_store" where
  "w_dequeue s = (case stQueue s of [] \<Rightarrow> s | j # q \<Rightarrow> s\<lparr>stQueue := q, wPhase := WHold j\<rparr>)"

text \<open>Make room for the dequeued job, still charged to the queue; a failure answers it and drains.\<close>

definition w_room :: "(nat \<Rightarrow> int \<times> bool) \<Rightarrow> bool \<Rightarrow> fl_job \<Rightarrow> fl_store \<Rightarrow> fl_store" where
  "w_room wr sync_ok j s =
     (if int (wVotes s + jbCount j) > fcBatchSize (stCfg s)
      then case flush wr sync_ok s of
          (s, Some e) \<Rightarrow> (answer_error j (release j s))\<lparr>wPhase := WDrain\<rparr>
        | (s, None) \<Rightarrow> s\<lparr>wPhase := WRoom j\<rparr>
      else s\<lparr>wPhase := WRoom j\<rparr>)"

definition w_append :: "fl_job \<Rightarrow> fl_store \<Rightarrow> fl_store" where
  "w_append j s =
     (let s = release j s; s = s\<lparr>wBatch := wBatch s @ [j], wVotes := wVotes s + jbCount j\<rparr>
      in s\<lparr>mActive := wVotes s,
           wTick := (if wVotes s = jbCount j \<and> fcLinger (stCfg s) > 0 then True else wTick s),
           wPhase := WCheck\<rparr>)"

definition w_check :: "(nat \<Rightarrow> int \<times> bool) \<Rightarrow> bool \<Rightarrow> fl_store \<Rightarrow> fl_store" where
  "w_check wr sync_ok s =
     (if int (wVotes s) \<ge> fcBatchSize (stCfg s) \<or> fcLinger (stCfg s) = 0
      then case flush wr sync_ok s of
          (s, Some e) \<Rightarrow> s\<lparr>wPhase := WDrain\<rparr>
        | (s, None) \<Rightarrow> s\<lparr>wPhase := WIdle\<rparr>
      else s\<lparr>wPhase := WIdle\<rparr>)"

definition w_tick :: "(nat \<Rightarrow> int \<times> bool) \<Rightarrow> bool \<Rightarrow> fl_store \<Rightarrow> fl_store" where
  "w_tick wr sync_ok s =
     (case flush wr sync_ok s of (s, Some e) \<Rightarrow> s\<lparr>wPhase := WDrain\<rparr> | (s, None) \<Rightarrow> s)"

definition w_drain :: "fl_store \<Rightarrow> fl_store" where
  "w_drain s =
     (case stQueue s of
        [] \<Rightarrow> s\<lparr>wPhase := WExit\<rparr>
      | j # q \<Rightarrow> answer_error j (release j (s\<lparr>stQueue := q\<rparr>)))"

text \<open>The queue is closed and empty: the last group, then the CLOSED frame when a seal was asked for.\<close>

definition w_last :: "(nat \<Rightarrow> int \<times> bool) \<Rightarrow> bool \<Rightarrow> fl_store \<Rightarrow> fl_store" where
  "w_last wr sync_ok s =
     (case flush wr sync_ok s of (s, Some e) \<Rightarrow> s\<lparr>wPhase := WExit\<rparr> | (s, None) \<Rightarrow> s\<lparr>wPhase := WSeal\<rparr>)"

definition w_seal :: "(nat \<Rightarrow> int \<times> bool) \<Rightarrow> bool \<Rightarrow> fl_store \<Rightarrow> fl_store" where
  "w_seal wr sync_ok s =
     (if stSealRequested s
      then case syncGroup wr sync_ok (finishFrame (replicate frameHeaderBytes 0) (wSequence s) kindClosed 0) s of
          (s, Some e) \<Rightarrow> (fail e s)\<lparr>wPhase := WExit\<rparr>
        | (s, None) \<Rightarrow> s\<lparr>stManifest := [(0, wSequence s)], wPhase := WExit\<rparr>
      else s\<lparr>wPhase := WExit\<rparr>)"

definition w_exit :: "bool \<Rightarrow> fl_store \<Rightarrow> fl_store" where
  "w_exit close_fails s = (if close_fails then fail FileCloseFailed s else s)\<lparr>wPhase := WDone\<rparr>"

definition Metrics :: "fl_store \<Rightarrow> (string \<times> nat) list" where
  "Metrics s =
     [(''queued_votes'', stQueuedVotes s), (''active_votes'', mActive s),
      (''durable_votes'', mDurableVotes s), (''durable_frames'', mDurableFrames s),
      (''group_syncs'', mGroups s), (''wal_bytes'', mWalBytes s),
      (''acknowledged_votes'', mAcknowledged s), (''unknown_votes'', mUnknown s), (''busy_votes'', mBusy s)]
     @ (if stPoison s \<noteq> None then [(''poisoned'', 1)] else [])"

section \<open>Interleaving\<close>

definition held :: "fl_store \<Rightarrow> fl_job list" where
  "held s = (case wPhase s of WHold j \<Rightarrow> [j] | WRoom j \<Rightarrow> [j] | _ \<Rightarrow> [])"

text \<open>The jobs whose callers may still be waiting.\<close>

definition submitted_jobs :: "fl_store \<Rightarrow> fl_job list" where
  "submitted_jobs s = stQueue s @ held s @ wBatch s @ map fst (stAnswers s)"

text \<open>The writer goroutine, one iteration or part of one at a time.\<close>

inductive fl_writer :: "fl_store \<Rightarrow> fl_store \<Rightarrow> bool" where
  dequeue: "wPhase s = WIdle \<Longrightarrow> stQueue s \<noteq> [] \<Longrightarrow> fl_writer s (w_dequeue s)"
| room: "wPhase s = WHold j \<Longrightarrow> fl_writer s (w_room wr sync_ok j s)"
| append: "wPhase s = WRoom j \<Longrightarrow> fl_writer s (w_append j s)"
| check: "wPhase s = WCheck \<Longrightarrow> fl_writer s (w_check wr sync_ok s)"
| tick: "wPhase s = WIdle \<Longrightarrow> wTick s \<Longrightarrow> fl_writer s (w_tick wr sync_ok s)"
| last: "wPhase s = WIdle \<Longrightarrow> stQueue s = [] \<Longrightarrow> stQueueClosed s \<Longrightarrow> fl_writer s (w_last wr sync_ok s)"
| write_closed: "wPhase s = WSeal \<Longrightarrow> fl_writer s (w_seal wr sync_ok s)"
| drain: "wPhase s = WDrain \<Longrightarrow> stQueueClosed s \<or> stQueue s \<noteq> [] \<Longrightarrow> fl_writer s (w_drain s)"
| exit: "wPhase s = WExit \<Longrightarrow> fl_writer s (w_exit close_fails s)"

text \<open>The writer and any number of callers.\<close>

inductive fl_step :: "fl_store \<Rightarrow> fl_store \<Rightarrow> bool" where
  writer: "fl_writer s t \<Longrightarrow> fl_step s t"
| submit: "submit_frame done1 done2 observed admitted inputs s = (s', outcome) \<Longrightarrow>
    \<forall>inp \<in> set inputs. length (fiToken inp) = 16 \<Longrightarrow> fl_step s s'"
| answered: "(j, r, err) \<in> set (stAnswers s) \<Longrightarrow> fl_step s (submit_answered j r err s)"
| abandoned: "j \<in> set (submitted_jobs s) \<Longrightarrow> fl_step s (submit_abandoned j s)"
| seal: "waitUntil (fcEndsAt (stCfg s)) readings = Some True \<Longrightarrow> fl_step s (seal_request s)"
| close: "fl_step s (stopQueue s)"

end
