(* ===== verification/Filelog_Store_Inv.thy ===== *)
theory Filelog_Store_Inv
  imports Filelog_Store
begin

text \<open>
  The invariant of the live journal: the admission bounds of the queue and of the active
  batch, and the relation between the answers sent and the bytes a sync has covered. Every
  step keeps it, so it holds in every reachable state.
\<close>

section \<open>What a write leaves behind\<close>

lemma writeAll_prefix:
  "writeAll wr call w b = (w', e) \<Longrightarrow> \<exists>k \<le> length b. w' = w @ take k b \<and> (e = None \<longrightarrow> k = length b)"
proof (induction wr call w b arbitrary: w' e rule: writeAll.induct)
  case (1 wr call w b)
  show ?case
  proof (cases "b = []")
    case True
    with "1.prems" show ?thesis by (simp add: writeAll.simps [of wr call w "[]"])
  next
    case False
    obtain n failed where wr: "wr call = (n, failed)" by (cases "wr call")
    show ?thesis
    proof (cases "n < 0 \<or> n > int (length b) \<or> failed \<or> n = 0")
      case True
      with "1.prems" False wr show ?thesis
        by (auto simp: writeAll.simps [of wr call w b] Let_def split: if_splits intro: exI [of _ 0] exI [of _ "nat n"])
    next
      case ok: False
      let ?w = "w @ take (nat n) b" and ?b = "drop (nat n) b"
      have run: "writeAll wr (Suc call) ?w ?b = (w', e)"
        using "1.prems" False wr ok by (simp add: writeAll.simps [of wr call w b])
      from "1.IH" [OF False wr [symmetric] refl _ refl refl _ _ run] ok obtain k where
        k: "k \<le> length ?b" "w' = ?w @ take k ?b" "e = None \<longrightarrow> k = length ?b" by auto
      have "take (nat n) b @ take k ?b = take (nat n + k) b" by (simp add: take_add)
      with k ok show ?thesis by (intro exI [of _ "nat n + k"]) auto
    qed
  qed
qed

lemma map_zip_upt_Cons:
  "map (\<lambda>(i, y). f (n + i) y) (zip [0..<length (x # xs)] (x # xs))
     = f n x # map (\<lambda>(i, y). f (Suc n + i) y) (zip [0..<length xs] xs)"
proof -
  have "[0..<length (x # xs)] = 0 # map Suc [0..<length xs]"
    by (simp add: upt_conv_Cons map_Suc_upt del: upt_Suc)
  then show ?thesis by (simp add: zip_map1 case_prod_unfold)
qed

section \<open>Jobs and their frames\<close>

definition job_ok :: "fl_config \<Rightarrow> fl_job \<Rightarrow> bool" where
  "job_ok c j \<longleftrightarrow>
     jbInputs j \<noteq> [] \<and> length (jbInputs j) \<le> 4096 \<and> int (length (jbInputs j)) \<le> fcBatchSize c \<and>
     (\<forall>inp \<in> set (jbInputs j). length (fiToken inp) = 16 \<and> \<not> input_bad c inp) \<and>
     fcStartsAt c \<le> jbAdmitted j \<and> jbAdmitted j < fcEndsAt c \<and>
     jbCount j = length (jbInputs j) \<and> jbData j = encodeInputs (jbInputs j) (jbAdmitted j)"

definition frame_of :: "fl_job \<Rightarrow> fl_frame" where
  "frame_of j = VotesFrame (map (vote_of (jbAdmitted j)) (jbInputs j))"

lemma config_nano:
  assumes "\<not> fl_config_bad c" and "fcStartsAt c \<le> t" and "t < fcEndsAt c"
  shows "nano_range t"
proof -
  have "jan1 1678 \<le> t" "t < jan1 2262" using assms fl_config_times [OF assms(1)] by linarith+
  then show ?thesis by (simp add: nano_range_def jan1_def)
qed

lemma frame_of_ok:
  assumes "fl_config_ok c" and "job_ok c j"
  shows "frame_ok c (frame_of j)" and "frame_of j \<noteq> ClosedFrame"
    and "frame_count (frame_of j) = of_nat (jbCount j)"
proof -
  have "nano_range (jbAdmitted j)"
    using assms by (intro config_nano [of c]) (simp_all add: fl_config_ok_def job_ok_def)
  then show "frame_ok c (frame_of j)"
    using assms by (auto simp: frame_ok_def frame_of_def job_ok_def list_all_iff entry_ok_def vote_of_def
        vote_invalid_def input_bad_def)
  show "frame_of j \<noteq> ClosedFrame" by (simp add: frame_of_def)
  show "frame_count (frame_of j) = of_nat (jbCount j)"
    using assms(2) by (simp add: frame_of_def frame_count_def job_ok_def)
qed

lemma finish_job:
  assumes "fl_config_ok c" and "job_ok c j"
  shows "finishFrame (jbData j) n kindVotes (of_nat (jbCount j)) = frame_wire n (frame_of j)"
proof -
  have "jbData j = replicate 40 0 @ entries_wire (map (vote_of (jbAdmitted j)) (jbInputs j))"
    using assms(2) by (simp add: job_ok_def encodeInputs_wire)
  then show ?thesis
    using frame_of_ok(3) [OF assms]
    by (simp add: finishFrame_wire frame_wire_def frame_payload_def frame_of_def frame_kind_def)
qed

lemma finish_closed: "finishFrame (replicate 40 0) n kindClosed 0 = frame_wire n ClosedFrame"
  using finishFrame_wire [of "[]" n kindClosed 0]
  by (simp add: frame_wire_def frame_kind_def frame_count_def frame_payload_def)

lemma batch_data_wire:
  "fl_config_ok c \<Longrightarrow> \<forall>j \<in> set batch. job_ok c j \<Longrightarrow> batch_data n batch = frames_wire n (map frame_of batch)"
proof (induction batch arbitrary: n)
  case Nil
  then show ?case by (simp add: batch_data_def)
next
  case (Cons j batch)
  have "batch_data n (j # batch) = finishFrame (jbData j) n kindVotes (of_nat (jbCount j)) @ batch_data (Suc n) batch"
    unfolding batch_data_def
    by (subst map_zip_upt_Cons [where f = "\<lambda>i j. finishFrame (jbData j) i kindVotes (of_nat (jbCount j))"]) simp
  with Cons show ?case by (simp add: finish_job)
qed

lemma batch_answers_nth:
  "(j, r, e) \<in> set (batch_answers n batch err) \<longleftrightarrow>
     e = err \<and> (\<exists>i < length batch. j = batch ! i \<and>
       r = \<lparr>frPartition = 0, frOffset = n + i, frCount = of_nat (jbCount j), frAdmittedAt = jbAdmitted j\<rparr>)"
proof -
  have "zip [0..<length batch] batch = map (\<lambda>i. (i, batch ! i)) [0..<length batch]"
    by (rule nth_equalityI) simp_all
  then have "set (zip [0..<length batch] batch) = (\<lambda>i. (i, batch ! i)) ` {0..<length batch}" by simp
  then show ?thesis unfolding batch_answers_def by auto
qed

section \<open>The bounds of the queue\<close>

definition charged :: "fl_store \<Rightarrow> nat" where
  "charged s = sum_list (map jbCount (stQueue s @ held s))"

definition queue_inv :: "fl_store \<Rightarrow> bool" where
  "queue_inv s \<longleftrightarrow>
     fl_config_ok (stCfg s) \<and>
     (\<forall>j \<in> set (stQueue s @ held s @ wBatch s). job_ok (stCfg s) j) \<and>
     charged s = stQueuedVotes s \<and> int (stQueuedVotes s) \<le> fcQueuePerPartition (stCfg s) \<and>
     sum_list (map jbCount (wBatch s)) = wVotes s \<and> int (wVotes s) \<le> fcBatchSize (stCfg s) \<and>
     (\<forall>j. wPhase s = WRoom j \<longrightarrow> int (wVotes s + jbCount j) \<le> fcBatchSize (stCfg s)) \<and>
     (stPoison s \<noteq> None \<longrightarrow> stQueueClosed s) \<and> (stQueueClosed s \<longrightarrow> stAdmissionClosed s) \<and>
     (stSealRequested s \<longrightarrow> stQueueClosed s) \<and>
     (wPhase s \<in> {WSeal, WExit, WDone} \<longrightarrow> stQueue s = [] \<and> stQueueClosed s) \<and>
     (wPhase s = WDrain \<longrightarrow> stPoison s \<noteq> None)"

lemma queue_inv_new: "fl_config_ok c \<Longrightarrow> queue_inv (new_store c)"
  by (simp add: queue_inv_def new_store_def charged_def held_def fl_config_ok_def fl_config_bad_def)

text \<open>How the parts of the state move in a flush.\<close>

lemma syncGroup_frame:
  assumes "syncGroup wr sync_ok data s = (s', e)"
  shows "s' = s\<lparr>dWritten := dWritten s', dSynced := dSynced s', mWalBytes := mWalBytes s', mGroups := mGroups s'\<rparr>"
    and "\<exists>k \<le> length data. dWritten s' = dWritten s @ take k data \<and>
      (if e = None then k = length data \<and> dSynced s' = length (dWritten s') else dSynced s' = dSynced s)"
proof -
  obtain w x where w: "writeAll wr 0 (dWritten s) data = (w, x)" by (cases "writeAll wr 0 (dWritten s) data")
  note pre = writeAll_prefix [OF w]
  show "s' = s\<lparr>dWritten := dWritten s', dSynced := dSynced s', mWalBytes := mWalBytes s', mGroups := mGroups s'\<rparr>"
    using assms w by (auto simp: syncGroup_def Let_def split: option.splits if_splits)
  show "\<exists>k \<le> length data. dWritten s' = dWritten s @ take k data \<and>
      (if e = None then k = length data \<and> dSynced s' = length (dWritten s') else dSynced s' = dSynced s)"
    using assms w pre by (auto simp: syncGroup_def Let_def split: option.splits if_splits)
qed

lemma syncGroup_fields:
  assumes "syncGroup wr sync_ok data s = (s', e)"
  shows "stCfg s' = stCfg s" "stQueue s' = stQueue s" "wBatch s' = wBatch s" "wVotes s' = wVotes s"
    "stQueuedVotes s' = stQueuedVotes s" "wPhase s' = wPhase s" "stPoison s' = stPoison s"
    "stQueueClosed s' = stQueueClosed s" "stAdmissionClosed s' = stAdmissionClosed s"
    "stSealRequested s' = stSealRequested s" "stAnswers s' = stAnswers s" "stOutcomes s' = stOutcomes s"
    "wSequence s' = wSequence s" "stManifest s' = stManifest s" "wTick s' = wTick s"
  using assms by (auto simp: syncGroup_def Let_def split: option.splits if_splits prod.splits)

lemma flush_cases:
  obtains (empty) "wBatch s = []" "flush wr sync_ok s = (s, None)"
  | (flushed) s1 where "wBatch s \<noteq> []" "wSequence s + length (wBatch s) \<le> 2 ^ 63 - 1"
      "syncGroup wr sync_ok (batch_data (wSequence s) (wBatch s)) (s\<lparr>wTick := False\<rparr>) = (s1, None)"
      "flush wr sync_ok s = (s1\<lparr>mDurableVotes := mDurableVotes s1 + wVotes s, mDurableFrames := mDurableFrames s1 + length (wBatch s),
        stAnswers := stAnswers s @ batch_answers (wSequence s) (wBatch s) None,
        wSequence := wSequence s + length (wBatch s), wBatch := [], wVotes := 0, mActive := 0\<rparr>, None)"
  | (failed) s1 e where "wBatch s \<noteq> []" "s1 = s\<lparr>wTick := False\<rparr> \<or>
        syncGroup wr sync_ok (batch_data (wSequence s) (wBatch s)) (s\<lparr>wTick := False\<rparr>) = (s1, Some e)"
      "flush wr sync_ok s = ((fail e s1)\<lparr>
        stAnswers := stAnswers s @ batch_answers (wSequence s) (wBatch s) (stPoison (fail e s1)),
        wSequence := wSequence s + length (wBatch s), wBatch := [], wVotes := 0, mActive := 0\<rparr>,
        stPoison (fail e s1))"
proof -
  let ?t = "s\<lparr>wTick := False\<rparr>" and ?d = "batch_data (wSequence s) (wBatch s)"
  obtain s1 x where sync: "syncGroup wr sync_ok ?d ?t = (s1, x)" by (cases "syncGroup wr sync_ok ?d ?t")
  note f = syncGroup_fields [OF sync]
  consider "wBatch s = []" | "wBatch s \<noteq> []" "wSequence s + length (wBatch s) > 2 ^ 63 - 1"
    | "wBatch s \<noteq> []" "wSequence s + length (wBatch s) \<le> 2 ^ 63 - 1" "x = None"
    | e where "wBatch s \<noteq> []" "wSequence s + length (wBatch s) \<le> 2 ^ 63 - 1" "x = Some e" by fastforce
  then show thesis
  proof cases
    case 1
    then show thesis by (intro empty) (simp_all add: flush_def)
  next
    case 2
    then show thesis
      by (intro failed [of ?t SequenceExhausted]) (simp_all add: flush_def fail_def stopQueue_def Let_def)
  next
    case 3
    with sync show thesis
      by (intro flushed [of s1]) (simp_all add: flush_def f Let_def)
  next
    case 4
    with sync show thesis
      by (intro failed [of s1 e]) (simp_all add: flush_def f fail_def stopQueue_def Let_def)
  qed
qed

lemma fail_fields:
  "stCfg (fail e s) = stCfg s" "stQueue (fail e s) = stQueue s" "wBatch (fail e s) = wBatch s"
  "wVotes (fail e s) = wVotes s" "stQueuedVotes (fail e s) = stQueuedVotes s" "wPhase (fail e s) = wPhase s"
  "stPoison (fail e s) \<noteq> None" "stQueueClosed (fail e s)" "stAdmissionClosed (fail e s)"
  "stSealRequested (fail e s) = stSealRequested s" "stAnswers (fail e s) = stAnswers s"
  "stOutcomes (fail e s) = stOutcomes s" "wSequence (fail e s) = wSequence s" "stManifest (fail e s) = stManifest s"
  "dWritten (fail e s) = dWritten s" "dSynced (fail e s) = dSynced s" "wTick (fail e s) = wTick s"
  by (simp_all add: fail_def stopQueue_def)

lemma flush_fields:
  assumes "flush wr sync_ok s = (s', e)"
  shows "stCfg s' = stCfg s" "stQueue s' = stQueue s" "wBatch s' = []" "stQueuedVotes s' = stQueuedVotes s"
    "wPhase s' = wPhase s" "stSealRequested s' = stSealRequested s" "stOutcomes s' = stOutcomes s"
    "stManifest s' = stManifest s" "e = None \<Longrightarrow> stPoison s' = stPoison s \<and> stQueueClosed s' = stQueueClosed s \<and>
      stAdmissionClosed s' = stAdmissionClosed s"
    "e \<noteq> None \<Longrightarrow> stPoison s' \<noteq> None \<and> stQueueClosed s' \<and> stAdmissionClosed s'"
    "wVotes s' = (if wBatch s = [] then wVotes s else 0)"
proof -
  have "stCfg s' = stCfg s \<and> stQueue s' = stQueue s \<and> wBatch s' = [] \<and> stQueuedVotes s' = stQueuedVotes s \<and>
    wPhase s' = wPhase s \<and> stSealRequested s' = stSealRequested s \<and> stOutcomes s' = stOutcomes s \<and>
    stManifest s' = stManifest s \<and>
    (e = None \<longrightarrow> stPoison s' = stPoison s \<and> stQueueClosed s' = stQueueClosed s \<and>
      stAdmissionClosed s' = stAdmissionClosed s) \<and>
    (e \<noteq> None \<longrightarrow> stPoison s' \<noteq> None \<and> stQueueClosed s' \<and> stAdmissionClosed s') \<and>
    wVotes s' = (if wBatch s = [] then wVotes s else 0)"
  proof (cases rule: flush_cases [of s wr sync_ok])
    case empty
    with assms show ?thesis by simp
  next
    case (flushed s1)
    from syncGroup_fields [OF flushed(3)] flushed(1,4) assms show ?thesis by auto
  next
    case (failed s1 x)
    have "stCfg s1 = stCfg s" "stQueue s1 = stQueue s" "stQueuedVotes s1 = stQueuedVotes s" "wPhase s1 = wPhase s"
      "stSealRequested s1 = stSealRequested s" "stOutcomes s1 = stOutcomes s" "stManifest s1 = stManifest s"
      using failed(2) by (auto simp: syncGroup_fields)
    with failed(1,3) assms show ?thesis by (auto simp: fail_fields)
  qed
  then show "stCfg s' = stCfg s" "stQueue s' = stQueue s" "wBatch s' = []" "stQueuedVotes s' = stQueuedVotes s"
    "wPhase s' = wPhase s" "stSealRequested s' = stSealRequested s" "stOutcomes s' = stOutcomes s"
    "stManifest s' = stManifest s" "e = None \<Longrightarrow> stPoison s' = stPoison s \<and> stQueueClosed s' = stQueueClosed s \<and>
      stAdmissionClosed s' = stAdmissionClosed s"
    "e \<noteq> None \<Longrightarrow> stPoison s' \<noteq> None \<and> stQueueClosed s' \<and> stAdmissionClosed s'"
    "wVotes s' = (if wBatch s = [] then wVotes s else 0)" by simp_all
qed

definition new_job :: "fl_input list \<Rightarrow> time \<Rightarrow> fl_job" where
  "new_job inputs admitted = \<lparr>jbInputs = inputs, jbData = encodeInputs inputs admitted, jbCount = length inputs,
     jbAdmitted = admitted\<rparr>"

lemma submit_refused:
  assumes "submit_frame done1 done2 observed admitted inputs s = (s', Inl e)"
  shows "s' = s \<or> s' = s\<lparr>stAdmissionClosed := True\<rparr> \<or> s' = s\<lparr>mBusy := mBusy s + length inputs\<rparr>"
  using assms unfolding submit_frame_def Let_def
  by (simp split: if_split_asm option.split_asm)

lemma submit_queued:
  assumes "submit_frame done1 done2 observed admitted inputs s = (s', Inr j)"
  shows "j = new_job inputs admitted"
    and "s' = s\<lparr>stQueuedVotes := stQueuedVotes s + length inputs, stQueue := stQueue s @ [j]\<rparr>"
    and "inputs \<noteq> []" "length inputs \<le> 4096" "int (length inputs) \<le> fcBatchSize (stCfg s)"
    and "\<forall>inp \<in> set inputs. \<not> input_bad (stCfg s) inp"
    and "int (stQueuedVotes s + length inputs) \<le> fcQueuePerPartition (stCfg s)"
    and "fcStartsAt (stCfg s) \<le> admitted" "admitted < fcEndsAt (stCfg s)"
    and "stPoison s = None" "\<not> stAdmissionClosed s"
    and "fcStartsAt (stCfg s) \<le> observed" "observed < fcEndsAt (stCfg s)"
  using assms unfolding submit_frame_def Let_def new_job_def
  by (auto split: if_split_asm option.split_asm)

text \<open>The invariant reads these fields only.\<close>

lemma queue_inv_cong:
  assumes "stCfg t = stCfg s" "stQueue t = stQueue s" "wPhase t = wPhase s" "wBatch t = wBatch s"
    "stQueuedVotes t = stQueuedVotes s" "wVotes t = wVotes s" "stPoison t = stPoison s"
    "stQueueClosed t = stQueueClosed s" "stAdmissionClosed t = stAdmissionClosed s"
    "stSealRequested t = stSealRequested s"
  shows "queue_inv t = queue_inv s"
  unfolding queue_inv_def charged_def held_def assms ..

lemma queue_inv_closing:
  "queue_inv s \<Longrightarrow> queue_inv (s\<lparr>stAdmissionClosed := True\<rparr>)"
  "queue_inv s \<Longrightarrow> queue_inv (stopQueue s)"
  "queue_inv s \<Longrightarrow> queue_inv (stopQueue (s\<lparr>stSealRequested := True\<rparr>))"
  "queue_inv s \<Longrightarrow> queue_inv (fail e s)"
  by (auto simp: queue_inv_def charged_def held_def stopQueue_def fail_def)

lemma queue_inv_submit:
  assumes "queue_inv s" and "submit_frame done1 done2 observed admitted inputs s = (s', outcome)"
    and "\<forall>inp \<in> set inputs. length (fiToken inp) = 16"
  shows "queue_inv s'"
proof (cases outcome)
  case (Inl e)
  with submit_refused assms have "s' = s \<or> s' = s\<lparr>stAdmissionClosed := True\<rparr> \<or> s' = s\<lparr>mBusy := mBusy s + length inputs\<rparr>"
    by blast
  then show ?thesis
    using assms(1) queue_inv_closing(1) queue_inv_cong [of "s\<lparr>mBusy := mBusy s + length inputs\<rparr>" s] by auto
next
  case (Inr j)
  note q = submit_queued [OF assms(2) [unfolded Inr]]
  have j: "job_ok (stCfg s) j" "jbCount j = length inputs" using q assms(3) by (simp_all add: job_ok_def new_job_def)
  have "\<not> stQueueClosed s" using assms(1) q(11) by (simp add: queue_inv_def)
  moreover have "held s' = held s" unfolding q(2) by (simp add: held_def)
  ultimately show ?thesis
    using assms(1) j q(7) q(10) unfolding q(2) by (auto simp: queue_inv_def charged_def)
qed

lemma charged_held: "j \<in> set (held s) \<Longrightarrow> jbCount j \<le> charged s"
  by (auto simp: charged_def held_def split: w_phase.splits)

text \<open>A flush and what the writer does next: the queue's bookkeeping is not touched.\<close>

lemma queue_inv_flush:
  assumes "queue_inv s" and "flush wr sync_ok s = (s', e)"
    and "wPhase s \<notin> {WSeal, WExit, WDone, WDrain}"
  shows "queue_inv s'" and "wVotes s' = 0" and "e \<noteq> None \<Longrightarrow> stPoison s' \<noteq> None"
proof -
  note f = flush_fields [OF assms(2)]
  have votes: "wVotes s' = 0" using assms(1) f(11) by (auto simp: queue_inv_def)
  show "wVotes s' = 0" by (rule votes)
  show "e \<noteq> None \<Longrightarrow> stPoison s' \<noteq> None" using f(10) by blast
  have batch: "0 \<le> fcBatchSize (stCfg s)" using assms(1) by (auto simp: queue_inv_def)
  have room: "int (jbCount j) \<le> fcBatchSize (stCfg s)" if "wPhase s = WRoom j" for j
    using assms(1) that by (auto simp: queue_inv_def)
  have "charged s' = charged s" by (simp add: charged_def held_def f)
  then show "queue_inv s'"
    using assms(1,3) votes batch room f by (cases e) (auto simp: queue_inv_def held_def)
qed

lemma queue_inv_phase:
  "queue_inv s \<Longrightarrow> held s = [] \<Longrightarrow> held (s\<lparr>wPhase := ph\<rparr>) = [] \<Longrightarrow>
   (ph \<in> {WSeal, WExit, WDone} \<Longrightarrow> stQueue s = [] \<and> stQueueClosed s) \<Longrightarrow>
   (ph = WDrain \<Longrightarrow> stPoison s \<noteq> None) \<Longrightarrow> queue_inv (s\<lparr>wPhase := ph\<rparr>)"
  by (cases ph) (auto simp: queue_inv_def charged_def held_def)

lemma held_phase: "wPhase s \<in> {WIdle, WCheck, WDrain, WSeal, WExit, WDone} \<Longrightarrow> held s = []"
  by (auto simp: held_def)

lemma queue_inv_room:
  assumes inv: "queue_inv s" and ph: "wPhase s = WHold j"
  shows "queue_inv (w_room wr sync_ok j s)"
proof (cases "int (wVotes s + jbCount j) > fcBatchSize (stCfg s)")
  case False
  then show ?thesis using inv ph by (auto simp: w_room_def queue_inv_def charged_def held_def)
next
  case True
  obtain s1 e where fl: "flush wr sync_ok s = (s1, e)" by (cases "flush wr sync_ok s")
  note q = queue_inv_flush [OF inv fl] and f = flush_fields [OF fl]
  have held: "held s1 = [j]" using ph f by (simp add: held_def)
  have q1: "queue_inv s1" and v: "wVotes s1 = 0" using q ph by simp_all
  have cnt: "int (jbCount j) \<le> fcBatchSize (stCfg s1)" using q1 held by (auto simp: queue_inv_def job_ok_def)
  show ?thesis
  proof (cases e)
    case None
    with True fl q1 v cnt held show ?thesis
      by (auto simp: w_room_def queue_inv_def charged_def held_def split: w_phase.splits)
  next
    case (Some x)
    have "stPoison s1 \<noteq> None" using f(10) Some by blast
    moreover have "stQueuedVotes s1 = sum_list (map jbCount (stQueue s1)) + jbCount j"
      using q1 held by (simp add: queue_inv_def charged_def)
    ultimately show ?thesis
      using True fl q1 v Some
      by (auto simp: w_room_def answer_error_def release_def queue_inv_def charged_def held_def)
  qed
qed

lemma queue_inv_append:
  assumes inv: "queue_inv s" and ph: "wPhase s = WRoom j"
  shows "queue_inv (w_append j s)"
  using inv ph by (auto simp: w_append_def release_def Let_def queue_inv_def charged_def held_def)

lemma queue_inv_drain:
  assumes inv: "queue_inv s" and ph: "wPhase s = WDrain" and "stQueueClosed s \<or> stQueue s \<noteq> []"
  shows "queue_inv (w_drain s)"
  using assms by (cases "stQueue s")
    (auto simp: w_drain_def answer_error_def release_def queue_inv_def charged_def held_def)

lemma queue_inv_seal:
  assumes inv: "queue_inv s" and ph: "wPhase s = WSeal"
  shows "queue_inv (w_seal wr sync_ok s)"
proof (cases "stSealRequested s")
  case False
  then show ?thesis using assms by (auto simp: w_seal_def queue_inv_def charged_def held_def)
next
  case True
  obtain s1 e where sync: "syncGroup wr sync_ok (finishFrame (replicate frameHeaderBytes 0) (wSequence s) kindClosed 0) s = (s1, e)"
    by (cases "syncGroup wr sync_ok (finishFrame (replicate frameHeaderBytes 0) (wSequence s) kindClosed 0) s")
  note f = syncGroup_fields [OF sync]
  have "queue_inv s1" using inv by (simp add: queue_inv_def charged_def held_def f)
  then show ?thesis
    using True sync ph f queue_inv_closing(4) [of s1]
    by (auto simp: w_seal_def queue_inv_def charged_def held_def fail_fields split: option.splits)
qed

lemma queue_inv_writer: "fl_writer s t \<Longrightarrow> queue_inv s \<Longrightarrow> queue_inv t"
proof (induction rule: fl_writer.induct)
  case (dequeue s)
  then show ?case by (cases "stQueue s") (auto simp: w_dequeue_def queue_inv_def charged_def held_def)
next
  case (room s j wr sync_ok)
  then show ?case by (intro queue_inv_room)
next
  case (append s j)
  then show ?case by (intro queue_inv_append)
next
  case (check s wr sync_ok)
  obtain s1 e where fl: "flush wr sync_ok s = (s1, e)" by (cases "flush wr sync_ok s")
  have "held s = []" "held s1 = []" using check flush_fields(5) [OF fl] by (simp_all add: held_def)
  then show ?case
    using check fl queue_inv_flush [OF check(2) fl]
    by (auto simp: w_check_def held_def split: option.splits intro!: queue_inv_phase)
next
  case (tick s wr sync_ok)
  obtain s1 e where fl: "flush wr sync_ok s = (s1, e)" by (cases "flush wr sync_ok s")
  have "held s1 = []" using tick flush_fields(5) [OF fl] by (simp add: held_def)
  then show ?case
    using tick fl queue_inv_flush [OF tick(3) fl]
    by (auto simp: w_tick_def held_def split: option.splits intro!: queue_inv_phase)
next
  case (last s wr sync_ok)
  obtain s1 e where fl: "flush wr sync_ok s = (s1, e)" by (cases "flush wr sync_ok s")
  note f = flush_fields [OF fl]
  have "held s1 = []" "stQueue s1 = []" "stQueueClosed s1"
    using last f by (simp_all add: held_def) (cases e; simp)
  then show ?case
    using last fl queue_inv_flush [OF last(4) fl]
    by (auto simp: w_last_def held_def split: option.splits intro!: queue_inv_phase)
next
  case (write_closed s wr sync_ok)
  then show ?case by (intro queue_inv_seal)
next
  case (drain s)
  then show ?case by (intro queue_inv_drain)
next
  case (exit s close_fails)
  then show ?case
    using queue_inv_closing(4) [of s]
    by (auto simp: w_exit_def held_def fail_fields intro!: queue_inv_phase) (auto simp: queue_inv_def)
qed

lemma queue_inv_step: "fl_step s t \<Longrightarrow> queue_inv s \<Longrightarrow> queue_inv t"
proof (induction rule: fl_step.induct)
  case (writer s t)
  then show ?case by (rule queue_inv_writer)
next
  case (submit done1 done2 observed admitted inputs s s' outcome)
  then show ?case by (blast intro: queue_inv_submit)
next
  case (answered j r err s)
  then show ?case
    by (auto simp: submit_answered_def queue_inv_def charged_def held_def split: option.splits)
next
  case (abandoned j s)
  then show ?case by (auto simp: submit_abandoned_def queue_inv_def charged_def held_def)
next
  case (seal s readings)
  then show ?case by (auto simp: seal_request_def stopQueue_def queue_inv_def charged_def held_def)
next
  case (close s)
  then show ?case by (auto simp: stopQueue_def queue_inv_def charged_def held_def)
qed

section \<open>The answers and the bytes on disk\<close>

definition acked :: "fl_config \<Rightarrow> fl_frame list \<Rightarrow> nat \<Rightarrow> fl_job \<Rightarrow> fl_receipt \<Rightarrow> bool" where
  "acked c fs n j r \<longleftrightarrow>
     job_ok c j \<and> frPartition r = 0 \<and> frCount r = of_nat (jbCount j) \<and> frAdmittedAt r = jbAdmitted j \<and>
     frOffset r < length fs \<and> fs ! frOffset r = frame_of j \<and>
     length (journal_bytes c (take (Suc (frOffset r)) fs)) \<le> n"

lemma acked_mono: "acked c fs n j r \<Longrightarrow> n \<le> n' \<Longrightarrow> acked c (fs @ gs) n' j r"
  by (simp add: acked_def nth_append)

lemma journal_bytes_append: "journal_bytes c (fs @ gs) = journal_bytes c fs @ frames_wire (length fs) gs"
  by (simp add: journal_bytes_def frames_wire_append)

definition writing :: "w_phase \<Rightarrow> bool" where
  "writing ph \<longleftrightarrow> ph \<notin> {WDrain, WExit, WDone}"

definition disk_inv :: "fl_store \<Rightarrow> fl_frame list \<Rightarrow> bool" where
  "disk_inv s fs \<longleftrightarrow>
     list_all (frame_ok (stCfg s)) fs \<and> ClosedFrame \<notin> set fs \<and> length fs = wSequence s \<and>
     (\<exists>k. dWritten s = take k (journal_bytes (stCfg s) (fs @ [ClosedFrame]))) \<and>
     80 \<le> dSynced s \<and> dSynced s \<le> length (dWritten s) \<and>
     (\<forall>j r. (j, r, None) \<in> set (stAnswers s) \<longrightarrow> acked (stCfg s) fs (dSynced s) j r) \<and>
     (\<forall>j r. (j, Inr r) \<in> set (stOutcomes s) \<longrightarrow> acked (stCfg s) fs (dSynced s) j r) \<and>
     (writing (wPhase s) \<longrightarrow> stPoison s = None \<and> stManifest s = [] \<and>
        dWritten s = journal_bytes (stCfg s) fs \<and> dSynced s = length (dWritten s)) \<and>
     (stManifest s \<noteq> [] \<longrightarrow> stManifest s = [(0, length fs)] \<and> stSealRequested s \<and>
        dWritten s = journal_bytes (stCfg s) (fs @ [ClosedFrame]) \<and> dSynced s = length (dWritten s))"

lemma disk_inv_cong:
  assumes "stCfg t = stCfg s" "wSequence t = wSequence s" "dWritten t = dWritten s" "dSynced t = dSynced s"
    "stAnswers t = stAnswers s" "stOutcomes t = stOutcomes s" "wPhase t = wPhase s" "stPoison t = stPoison s"
    "stManifest t = stManifest s" "stSealRequested t = stSealRequested s"
  shows "disk_inv t fs = disk_inv s fs"
  unfolding disk_inv_def assms ..

lemma disk_inv_new: "fl_config_ok c \<Longrightarrow> disk_inv (new_store c) []"
proof -
  assume "fl_config_ok c"
  then have len: "length (fileHeader c) = 80" by (simp add: fl_config_ok_def length_fileHeader)
  then have "\<exists>k. fileHeader c = take k (journal_bytes c [ClosedFrame])"
    by (intro exI [of _ 80]) (simp add: journal_bytes_def)
  with len show ?thesis
    by (simp add: disk_inv_def new_store_def) (simp add: journal_bytes_def)
qed

text \<open>A step that leaves the disk alone and keeps, or gives up, the writing phases.\<close>

lemma disk_inv_phase:
  "disk_inv s fs \<Longrightarrow> (writing ph \<Longrightarrow> writing (wPhase s)) \<Longrightarrow> disk_inv (s\<lparr>wPhase := ph\<rparr>) fs"
  by (auto simp: disk_inv_def)

lemma disk_inv_fail:
  "disk_inv s fs \<Longrightarrow> \<not> writing ph \<Longrightarrow> disk_inv ((fail e s)\<lparr>wPhase := ph\<rparr>) fs"
  by (auto simp: disk_inv_def fail_fields)

lemma disk_inv_answer_error:
  "disk_inv s fs \<Longrightarrow> stPoison s \<noteq> None \<Longrightarrow> disk_inv (answer_error j s) fs"
  by (auto simp: disk_inv_def answer_error_def)

lemma disk_inv_release: "disk_inv (release j s) fs = disk_inv s fs"
  by (rule disk_inv_cong) (simp_all add: release_def)

lemma batch_acked:
  assumes ok: "fl_config_ok c" "\<forall>j \<in> set batch. job_ok c j"
    and mem: "(j, r, None) \<in> set (batch_answers (length fs) batch err)"
    and n: "length (journal_bytes c (fs @ map frame_of batch)) \<le> n"
  shows "acked c (fs @ map frame_of batch) n j r"
proof -
  from mem obtain i where i: "i < length batch" "j = batch ! i"
    "r = \<lparr>frPartition = 0, frOffset = length fs + i, frCount = of_nat (jbCount j), frAdmittedAt = jbAdmitted j\<rparr>"
    by (auto simp: batch_answers_nth)
  have "length (journal_bytes c (take (Suc (length fs + i)) (fs @ map frame_of batch)))
      \<le> length (journal_bytes c (take (length (fs @ map frame_of batch)) (fs @ map frame_of batch)))"
    using i(1) by (intro length_journal_mono) simp
  with i ok(2) n show ?thesis by (simp add: acked_def nth_append del: take_append)
qed

lemma disk_inv_flush:
  assumes q: "queue_inv s" and d: "disk_inv s fs" and w: "writing (wPhase s)"
    and fl: "flush wr sync_ok s = (s', e)"
  shows "e = None \<Longrightarrow> disk_inv s' (fs @ map frame_of (wBatch s))"
    and "e \<noteq> None \<Longrightarrow> \<not> writing ph \<Longrightarrow> disk_inv (s'\<lparr>wPhase := ph\<rparr>) (fs @ map frame_of (wBatch s))"
proof -
  let ?c = "stCfg s" and ?gs = "map frame_of (wBatch s)"
  have ok: "fl_config_ok ?c" "\<forall>j \<in> set (wBatch s). job_ok ?c j" using q by (simp_all add: queue_inv_def)
  have data: "batch_data (wSequence s) (wBatch s) = frames_wire (wSequence s) ?gs" by (rule batch_data_wire [OF ok])
  have seq: "length fs = wSequence s" using d by (simp add: disk_inv_def)
  have written: "dWritten s = journal_bytes ?c fs" "dSynced s = length (dWritten s)" "stPoison s = None" "stManifest s = []"
    using d w by (simp_all add: disk_inv_def)
  have frames: "list_all (frame_ok ?c) (fs @ ?gs)" "ClosedFrame \<notin> set (fs @ ?gs)"
  proof -
    have "list_all (frame_ok ?c) fs" "ClosedFrame \<notin> set fs" using d by (simp_all add: disk_inv_def)
    moreover have "frame_ok ?c (frame_of j)" if "j \<in> set (wBatch s)" for j
      using frame_of_ok(1) [OF ok(1)] ok(2) that by blast
    ultimately show "list_all (frame_ok ?c) (fs @ ?gs)" "ClosedFrame \<notin> set (fs @ ?gs)"
      by (auto simp: list_all_iff frame_of_def)
  qed
  have all: "journal_bytes ?c (fs @ ?gs) = dWritten s @ frames_wire (wSequence s) ?gs"
    by (simp add: journal_bytes_append written seq)
  have "disk_inv s' (fs @ ?gs) \<and> (e = None) \<or> e \<noteq> None \<and> (\<not> writing ph \<longrightarrow> disk_inv (s'\<lparr>wPhase := ph\<rparr>) (fs @ ?gs))"
  proof (cases rule: flush_cases [of s wr sync_ok])
    case empty
    with fl d show ?thesis by simp
  next
    case (flushed s1)
    let ?t = "s\<lparr>wTick := False\<rparr>"
    note f = syncGroup_fields [OF flushed(3)]
    from syncGroup_frame(2) [OF flushed(3)] have disk: "dWritten s1 = journal_bytes ?c (fs @ ?gs)"
      "dSynced s1 = length (dWritten s1)" by (auto simp: all data)
    have k: "\<exists>k. dWritten s1 = take k (journal_bytes ?c ((fs @ ?gs) @ [ClosedFrame]))"
      unfolding disk journal_bytes_append [of _ "fs @ ?gs"]
      by (intro exI [of _ "length (journal_bytes ?c (fs @ ?gs))"]) simp
    have grow: "dSynced s \<le> dSynced s1" unfolding disk written by (simp add: journal_bytes_append)
    have new: "acked ?c (fs @ ?gs) (dSynced s1) j r"
      if "(j, r, None) \<in> set (batch_answers (wSequence s) (wBatch s) None)" for j r
      using batch_acked [OF ok, of j r fs None "dSynced s1"] that disk seq by simp
    have old: "acked ?c (fs @ ?gs) (dSynced s1) j r" if "acked ?c fs (dSynced s) j r" for j r
      using that grow by (rule acked_mono)
    have "disk_inv s' (fs @ ?gs)"
      using d flushed(4) fl frames k new old f disk seq written grow
      by (auto simp: disk_inv_def)
    with flushed(4) fl show ?thesis by simp
  next
    case (failed s1 x)
    obtain k where k: "dWritten s1 = dWritten s @ take k (frames_wire (wSequence s) ?gs)" "dSynced s1 = dSynced s"
      and same: "stCfg s1 = ?c" "stAnswers s1 = stAnswers s" "stOutcomes s1 = stOutcomes s" "stManifest s1 = []"
      "stSealRequested s1 = stSealRequested s"
    proof -
      from failed(2) show thesis
      proof
        assume "s1 = s\<lparr>wTick := False\<rparr>"
        then show thesis by (intro that [of 0]) (simp_all add: written)
      next
        assume sync: "syncGroup wr sync_ok (batch_data (wSequence s) (wBatch s)) (s\<lparr>wTick := False\<rparr>) = (s1, Some x)"
        from syncGroup_frame(2) [OF sync] syncGroup_fields [OF sync] show thesis
          by (auto simp: data written intro: that)
      qed
    qed
    have pre: "\<exists>k. dWritten s1 = take k (journal_bytes ?c ((fs @ ?gs) @ [ClosedFrame]))"
      unfolding k journal_bytes_append [of _ "fs @ ?gs"] all
      by (intro exI [of _ "length (dWritten s) + min k (length (frames_wire (wSequence s) ?gs))"]) (simp add: min_def)
    have e: "stPoison (fail x s1) \<noteq> None" by (simp add: fail_fields)
    have no_ack: "(j, r, None) \<notin> set (batch_answers (wSequence s) (wBatch s) (stPoison (fail x s1)))" for j r
      using e by (auto simp: batch_answers_nth)
    have old: "acked ?c (fs @ ?gs) (dSynced s) j r" if "acked ?c fs (dSynced s) j r" for j r
      using that by (rule acked_mono) simp
    have "disk_inv (s'\<lparr>wPhase := ph\<rparr>) (fs @ ?gs)" if "\<not> writing ph"
      using d failed(3) fl frames pre no_ack old same k(2) seq that
      by (auto simp: disk_inv_def fail_fields k(1))
    with failed(3) fl e show ?thesis by auto
  qed
  then show "e = None \<Longrightarrow> disk_inv s' (fs @ ?gs)"
    and "e \<noteq> None \<Longrightarrow> \<not> writing ph \<Longrightarrow> disk_inv (s'\<lparr>wPhase := ph\<rparr>) (fs @ ?gs)" by auto
qed

lemma disk_inv_seal:
  assumes d: "disk_inv s fs" and w: "wPhase s = WSeal"
  shows "disk_inv (w_seal wr sync_ok s) fs"
proof (cases "stSealRequested s")
  case False
  with disk_inv_phase [OF d, of WExit] show ?thesis by (simp add: w_seal_def writing_def)
next
  case True
  let ?data = "finishFrame (replicate frameHeaderBytes 0) (wSequence s) kindClosed 0"
  obtain s1 e where sync: "syncGroup wr sync_ok ?data s = (s1, e)" by (cases "syncGroup wr sync_ok ?data s")
  note f = syncGroup_fields [OF sync]
  have seq: "length fs = wSequence s" and written: "dWritten s = journal_bytes (stCfg s) fs"
    "dSynced s = length (dWritten s)" "stManifest s = []"
    using d w by (simp_all add: disk_inv_def writing_def)
  have all: "journal_bytes (stCfg s) (fs @ [ClosedFrame]) = dWritten s @ ?data"
    by (simp add: journal_bytes_append written seq finish_closed)
  obtain k where sw: "dWritten s1 = dWritten s @ take k ?data"
    "if e = None then k = length ?data \<and> dSynced s1 = length (dWritten s1) else dSynced s1 = dSynced s"
    using syncGroup_frame(2) [OF sync] by blast
  then have k: "dWritten s1 = dWritten s @ take k ?data"
    "e = None \<longrightarrow> k = length ?data \<and> dSynced s1 = length (dWritten s1)" "e \<noteq> None \<longrightarrow> dSynced s1 = dSynced s"
    by (simp, meson, meson)
  have pre: "\<exists>k. dWritten s1 = take k (journal_bytes (stCfg s) (fs @ [ClosedFrame]))"
    unfolding all k(1) by (intro exI [of _ "length (dWritten s) + k"]) simp
  have grow: "dSynced s \<le> dSynced s1" using k written by (cases e) simp_all
  have old: "acked (stCfg s) fs (dSynced s1) j r" if "acked (stCfg s) fs (dSynced s) j r" for j r
    using acked_mono [OF that grow, of "[]"] by simp
  show ?thesis
  proof (cases e)
    case None
    with k all have "dWritten s1 = journal_bytes (stCfg s) (fs @ [ClosedFrame])" "dSynced s1 = length (dWritten s1)"
      by simp_all
    with None True sync d f pre old seq grow show ?thesis
      by (auto simp: w_seal_def disk_inv_def writing_def)
  next
    case (Some x)
    with True sync d f pre old seq grow k written show ?thesis
      by (auto simp: w_seal_def disk_inv_def writing_def fail_fields)
  qed
qed

definition fl_inv :: "fl_store \<Rightarrow> bool" where
  "fl_inv s \<longleftrightarrow> queue_inv s \<and> (\<exists>fs. disk_inv s fs)"

lemma disk_inv_writer: "fl_writer s t \<Longrightarrow> queue_inv s \<Longrightarrow> disk_inv s fs \<Longrightarrow> \<exists>fs. disk_inv t fs"
proof (induction rule: fl_writer.induct)
  case (dequeue s)
  then show ?case
    by (intro exI [of _ fs]) (cases "stQueue s"; auto simp: w_dequeue_def disk_inv_def writing_def)
next
  case (room s j wr sync_ok)
  obtain s1 e where fl: "flush wr sync_ok s = (s1, e)" by (cases "flush wr sync_ok s")
  have w: "writing (wPhase s)" using room by (simp add: writing_def)
  note d = disk_inv_flush [OF room(2,3) w fl]
  show ?case
  proof (cases "int (wVotes s + jbCount j) > fcBatchSize (stCfg s)")
    case False
    with disk_inv_phase [OF room(3), of "WRoom j"] w show ?thesis by (auto simp: w_room_def)
  next
    case full: True
    show ?thesis
    proof (cases e)
      case None
      with full fl d(1) w show ?thesis
        by (auto simp: w_room_def writing_def flush_fields(5) [OF fl] room(1) intro!: disk_inv_phase exI)
    next
      case (Some x)
      have "disk_inv (s1\<lparr>wPhase := WDrain\<rparr>) (fs @ map frame_of (wBatch s))"
        using d(2) [of WDrain] Some by (simp add: writing_def)
      moreover have "stPoison (release j (s1\<lparr>wPhase := WDrain\<rparr>)) \<noteq> None"
        using flush_fields(10) [OF fl] Some by (simp add: release_def)
      moreover have "(answer_error j (release j s1))\<lparr>wPhase := WDrain\<rparr> = answer_error j (release j (s1\<lparr>wPhase := WDrain\<rparr>))"
        by (simp add: answer_error_def release_def)
      ultimately show ?thesis
        using full fl Some by (auto simp: w_room_def disk_inv_release intro!: exI disk_inv_answer_error)
    qed
  qed
next
  case (append s j)
  then show ?case
    by (intro exI [of _ fs]) (auto simp: w_append_def release_def Let_def disk_inv_def writing_def)
next
  case (check s wr sync_ok)
  obtain s1 e where fl: "flush wr sync_ok s = (s1, e)" by (cases "flush wr sync_ok s")
  have w: "writing (wPhase s)" using check by (simp add: writing_def)
  note d = disk_inv_flush [OF check(2,3) w fl]
  have w1: "writing (wPhase s1)" using w flush_fields(5) [OF fl] by simp
  have idle: "disk_inv (s\<lparr>wPhase := WIdle\<rparr>) fs" using disk_inv_phase [OF check(3), of WIdle] w by simp
  show ?case
  proof (cases e)
    case None
    from disk_inv_phase [OF d(1) [OF None], of WIdle] w1 None fl idle show ?thesis
      by (auto simp: w_check_def)
  next
    case (Some x)
    with d(2) [of WDrain] fl idle show ?thesis by (auto simp: w_check_def writing_def)
  qed
next
  case (tick s wr sync_ok)
  obtain s1 e where fl: "flush wr sync_ok s = (s1, e)" by (cases "flush wr sync_ok s")
  have w: "writing (wPhase s)" using tick by (simp add: writing_def)
  note d = disk_inv_flush [OF tick(3,4) w fl]
  from fl d(1) d(2) [of WDrain] show ?case
    by (cases e) (auto simp: w_tick_def writing_def)
next
  case (last s wr sync_ok)
  obtain s1 e where fl: "flush wr sync_ok s = (s1, e)" by (cases "flush wr sync_ok s")
  have w: "writing (wPhase s)" using last by (simp add: writing_def)
  note d = disk_inv_flush [OF last(4,5) w fl]
  have w1: "writing (wPhase s1)" using w flush_fields(5) [OF fl] by simp
  show ?case
  proof (cases e)
    case None
    from disk_inv_phase [OF d(1) [OF None], of WSeal] w1 None fl show ?thesis by (auto simp: w_last_def)
  next
    case (Some x)
    with d(2) [of WExit] fl show ?thesis by (auto simp: w_last_def writing_def)
  qed
next
  case (write_closed s wr sync_ok)
  then show ?case by (blast intro: disk_inv_seal)
next
  case (drain s)
  have "stPoison s \<noteq> None" using drain by (simp add: queue_inv_def)
  show ?case
  proof (cases "stQueue s")
    case Nil
    with disk_inv_phase [OF drain(4), of WExit] show ?thesis by (auto simp: w_drain_def writing_def)
  next
    case (Cons j q)
    have "disk_inv (s\<lparr>stQueue := q\<rparr>) fs = disk_inv s fs" by (rule disk_inv_cong) simp_all
    then have "disk_inv (release j (s\<lparr>stQueue := q\<rparr>)) fs" using drain(4) by (simp add: disk_inv_release)
    with Cons \<open>stPoison s \<noteq> None\<close> show ?thesis
      by (auto simp: w_drain_def release_def intro!: exI [of _ fs] disk_inv_answer_error)
  qed
next
  case (exit s close_fails)
  then show ?case
    using disk_inv_fail [of s fs WDone FileCloseFailed] disk_inv_phase [of s fs WDone]
    by (auto simp: w_exit_def writing_def)
qed

lemma disk_inv_step: "fl_step s t \<Longrightarrow> queue_inv s \<Longrightarrow> disk_inv s fs \<Longrightarrow> \<exists>fs. disk_inv t fs"
proof (induction rule: fl_step.induct)
  case (writer s t)
  then show ?case by (rule disk_inv_writer)
next
  case (submit done1 done2 observed admitted inputs s s' outcome)
  have "stCfg s' = stCfg s \<and> wSequence s' = wSequence s \<and> dWritten s' = dWritten s \<and> dSynced s' = dSynced s \<and>
    stAnswers s' = stAnswers s \<and> stOutcomes s' = stOutcomes s \<and> wPhase s' = wPhase s \<and>
    stPoison s' = stPoison s \<and> stManifest s' = stManifest s \<and> stSealRequested s' = stSealRequested s"
  proof (cases outcome)
    case (Inl e)
    with submit_refused [of done1 done2 observed admitted inputs s s' e] submit show ?thesis by auto
  next
    case (Inr j)
    with submit_queued(2) [of done1 done2 observed admitted inputs s s' j] submit show ?thesis by simp
  qed
  then have "disk_inv s' fs = disk_inv s fs" by (intro disk_inv_cong) simp_all
  with submit show ?case by blast
next
  case (answered j r err s)
  then show ?case
    by (intro exI [of _ fs]) (auto simp: submit_answered_def disk_inv_def split: option.splits)
next
  case (abandoned j s)
  then show ?case by (intro exI [of _ fs]) (auto simp: submit_abandoned_def disk_inv_def)
next
  case (seal s readings)
  then show ?case
    by (intro exI [of _ fs]) (auto simp: seal_request_def stopQueue_def disk_inv_def)
next
  case (close s)
  then show ?case by (intro exI [of _ fs]) (auto simp: stopQueue_def disk_inv_def)
qed

interpretation fl: transition_system "\<lambda>s. \<exists>c. fl_config_ok c \<and> s = new_store c" fl_step fl_inv
proof
  show "fl_inv s" if "\<exists>c. fl_config_ok c \<and> s = new_store c" for s
    using that queue_inv_new disk_inv_new by (auto simp: fl_inv_def)
  show "fl_inv t" if "fl_step s t" "fl_inv s" for s t
    using that queue_inv_step disk_inv_step by (auto simp: fl_inv_def)
qed

end
