(* ===== verification/Filelog_Scan_Props.thy ===== *)
theory Filelog_Scan_Props
  imports Filelog_Scans
begin

text \<open>
  The properties of the file journal's reader and their witnesses on a journal of one
  frame.
\<close>

section \<open>A small journal\<close>

definition demo_fl_config :: fl_config where
  "demo_fl_config = \<lparr>fcDirectory = ''journal'', fcPollID = replicate 16 7, fcStartsAt = 0, fcEndsAt = minute,
     fcAllowedMask = 7, fcMultiple = True, fcBatchSize = 4, fcQueuePerPartition = 8, fcLinger = 0, fcPartitions = 1\<rparr>"

definition demo_vote :: "byte \<Rightarrow> u32 \<Rightarrow> fl_vote" where
  "demo_vote n choice = \<lparr>fvToken = n # replicate 15 0, fvChoice = choice, fvAdmittedAt = 25\<rparr>"

definition demo_frames :: "fl_frame list" where
  "demo_frames = [VotesFrame [demo_vote 1 5, demo_vote 2 1]]"

lemma demo_fl_config_ok: "fl_config_ok demo_fl_config"
  by (simp add: fl_config_ok_def fl_config_bad_def demo_fl_config_def zero16_def jan1_def time_sub_def)

lemma replicate_neq_Cons: "b \<noteq> x \<Longrightarrow> b # bs \<noteq> replicate n x"
  by (cases n) auto

lemma demo_vote_ok:
  "b \<noteq> 0 \<Longrightarrow> choice \<in> {1, 5} \<Longrightarrow> entry_ok (demo_vote b choice) \<and> \<not> vote_invalid demo_fl_config (demo_vote b choice)"
  by (auto simp: entry_ok_def vote_invalid_def demo_vote_def demo_fl_config_def validChoice_def nano_range_def
      zero16_def replicate_neq_Cons)

lemma demo_open_journal: "open_journal demo_fl_config 0 demo_frames"
  using demo_vote_ok [of 1 5] demo_vote_ok [of 2 1]
  by (simp add: open_journal_def demo_frames_def frame_ok_def)

section \<open>Properties\<close>



text \<open>C20. A replay that succeeds determines the file: \<^verbatim>\<open>Replay\<close> accepts a WAL, with votes \<open>es\<close> shown to
  the visitor, exactly when the file is, byte for byte, the header and the encodings of valid frames
  of votes followed by one CLOSED frame, with nothing after it.\<close>

theorem filelog_replay_exact:
  assumes "fl_config_ok c" and "length wal < 2 ^ 63"
  shows "Replay (quiet_env c wal) c (Some collect) [] = (Inr m, es) \<longleftrightarrow>
    (\<exists>fs. open_journal c 0 fs \<and> wal = journal_bytes c (fs @ [ClosedFrame]) \<and>
       m = [(0, length fs)] \<and> es = journal_entries 0 fs)"
proof
  assume "Replay (quiet_env c wal) c (Some collect) [] = (Inr m, es)"
  then obtain r where scan: "Scan (quiet_env c wal) c (Some collect) [] = (r, None, es)"
    and r: "srClosed r" "\<not> srIncompleteTail r" "m = srManifest r"
    by (auto simp: Replay_def split: prod.splits option.splits if_splits)
  obtain rest where wal: "wal = fileHeader c @ rest" using Scan_quiet_start [OF assms(1) scan] ..
  have open_r: "\<not> srClosed start_result" "\<not> srIncompleteTail start_result"
    by (simp_all add: start_result_def empty_result_def)
  have "scan_loop (quiet_env c wal) c (Some collect) 0 rest start_result [] = (r, None, es)"
    using scan Scan_quiet [OF assms(1), of rest "Some collect" "[]"] by (simp add: wal)
  from scan_loop_exact [OF this _ open_r(1)] obtain fs closed tail where
    fs: "list_all (frame_ok c) fs" "ClosedFrame \<notin> set fs"
    and rest: "rest = frames_wire 0 (fs @ (if closed then [ClosedFrame] else [])) @ tail"
    and es: "apply_visitor (Some collect) (journal_entries 0 fs) [] = (es, False)"
    and res: "r = (advance_all 0 (fs @ (if closed then [ClosedFrame] else [])) start_result)
      \<lparr>srIncompleteTail := tail \<noteq> [] \<or> srIncompleteTail start_result\<rparr>" by auto
  have tail: "tail = []" using r(2) res by simp
  have closed: "closed" using r(1) res fs(2) open_r by (cases closed) (auto simp: advance_all_open)
  have "40 * length (fs @ [ClosedFrame]) \<le> length rest"
    using length_frames_wire_ge [of "fs @ [ClosedFrame]" 0] rest closed tail by simp
  then have "length fs < 2 ^ 63 - 1" using assms(2) wal by simp
  with fs have "open_journal c 0 fs" by (simp add: open_journal_def)
  with closed tail wal rest es res r(3) show "\<exists>fs. open_journal c 0 fs \<and>
      wal = journal_bytes c (fs @ [ClosedFrame]) \<and> m = [(0, length fs)] \<and> es = journal_entries 0 fs"
    by (intro exI [of _ fs]) (simp add: journal_bytes_def advance_all_snoc advance_def apply_collect)
next
  assume "\<exists>fs. open_journal c 0 fs \<and> wal = journal_bytes c (fs @ [ClosedFrame]) \<and>
    m = [(0, length fs)] \<and> es = journal_entries 0 fs"
  then obtain fs where fs: "open_journal c 0 fs" "wal = journal_bytes c (fs @ [ClosedFrame])"
    "m = [(0, length fs)]" "es = journal_entries 0 fs" by blast
  have "\<not> srIncompleteTail (advance_all 0 fs start_result)"
    using fs(1) by (simp add: advance_all_open open_journal_def start_result_def empty_result_def)
  with scan_written_closed [OF assms(1) fs(1) apply_collect] fs(2-4)
  show "Replay (quiet_env c wal) c (Some collect) [] = (Inr m, es)"
    by (simp add: Replay_def advance_all_snoc advance_def)
qed

lemma demo_journal_length: "length (journal_bytes demo_fl_config (demo_frames @ [ClosedFrame])) = 216"
proof -
  have "length (fileHeader demo_fl_config) = 80"
    using demo_fl_config_ok by (simp add: fl_config_ok_def length_fileHeader)
  moreover have "length (frame_wire 0 (VotesFrame [demo_vote 1 5, demo_vote 2 1])) = 96"
    using demo_open_journal length_frame_wire [of demo_fl_config "VotesFrame [demo_vote 1 5, demo_vote 2 1]" 0]
    by (simp add: open_journal_def demo_frames_def)
  moreover have "length (frame_wire (Suc 0) ClosedFrame) = 40"
    using length_frame_wire [of demo_fl_config ClosedFrame "Suc 0"] by (simp add: frame_ok_def)
  ultimately show ?thesis by (simp add: journal_bytes_def demo_frames_def)
qed

theorem filelog_replay_exact_witness:
  "Replay (quiet_env demo_fl_config (journal_bytes demo_fl_config (demo_frames @ [ClosedFrame]))) demo_fl_config
     (Some collect) [] = (Inr [(0, 1)], journal_entries 0 demo_frames)"
proof -
  have small: "length (journal_bytes demo_fl_config (demo_frames @ [ClosedFrame])) < 2 ^ 63"
    by (simp add: demo_journal_length)
  have "\<exists>fs. open_journal demo_fl_config 0 fs \<and>
      journal_bytes demo_fl_config (demo_frames @ [ClosedFrame]) = journal_bytes demo_fl_config (fs @ [ClosedFrame]) \<and>
      [(0 :: int, 1)] = [(0, length fs)] \<and> journal_entries 0 demo_frames = journal_entries 0 fs"
    using demo_open_journal by (intro exI [of _ demo_frames]) (simp add: demo_frames_def)
  with filelog_replay_exact [OF demo_fl_config_ok small] show ?thesis by blast
qed

text \<open>A journal cut short, as by a crash in the middle of a write, loses whole frames only: a scan of
  its first \<open>k\<close> bytes succeeds, shows exactly the votes of the frames that are completely there, and
  reports an incomplete tail exactly when bytes of a further frame are left over.\<close>

theorem filelog_scan_truncated:
  assumes "fl_config_ok c" and "open_journal c 0 fs" and "80 \<le> k" and "k \<le> length (journal_bytes c fs)"
  shows "\<exists>j \<le> length fs. \<exists>r. Scan (quiet_env c (take k (journal_bytes c fs))) c (Some collect) []
        = (r, None, journal_entries 0 (take j fs)) \<and>
    srFrames r = j \<and> \<not> srClosed r \<and> srValidBytes r = length (journal_bytes c (take j fs)) \<and>
    srValidBytes r \<le> k \<and> (srIncompleteTail r \<longleftrightarrow> srValidBytes r < k) \<and>
    (j < length fs \<longrightarrow> k < length (journal_bytes c (take (Suc j) fs)))"
proof -
  from scan_written_cut [OF assms] obtain j t where j: "j \<le> length fs"
    and cut: "take k (journal_bytes c fs) = journal_bytes c (take j fs) @ t"
    and more: "j < length fs \<longrightarrow> k < length (journal_bytes c (take (Suc j) fs))"
    and scan: "Scan (quiet_env c (take k (journal_bytes c fs))) c (Some collect) [] =
      ((advance_all 0 (take j fs) start_result)\<lparr>srIncompleteTail := t \<noteq> []\<rparr>, None, journal_entries 0 (take j fs))"
    by blast
  have "ClosedFrame \<notin> set (take j fs)" using assms(2) by (auto simp: open_journal_def dest: in_set_takeD)
  moreover have "length (fileHeader c) = 80" using assms(1) by (simp add: fl_config_ok_def length_fileHeader)
  moreover have "k = length (journal_bytes c (take j fs)) + length t"
    using assms(4) arg_cong [OF cut, of length] by simp
  ultimately show ?thesis
    using j more scan
    by (intro exI [of _ j] conjI exI [of _ "(advance_all 0 (take j fs) start_result)\<lparr>srIncompleteTail := t \<noteq> []\<rparr>"])
      (auto simp: advance_all_open start_result_def empty_result_def journal_bytes_def min_def)
qed

theorem filelog_scan_truncated_witness:
  "\<exists>r. Scan (quiet_env demo_fl_config (take 100 (journal_bytes demo_fl_config demo_frames))) demo_fl_config
     (Some collect) [] = (r, None, []) \<and> srIncompleteTail r"
proof -
  have hdr: "length (fileHeader demo_fl_config) = 80"
    using demo_fl_config_ok by (simp add: fl_config_ok_def length_fileHeader)
  have frame: "length (frame_wire 0 (VotesFrame [demo_vote 1 5, demo_vote 2 1])) = 96"
    using demo_open_journal length_frame_wire [of demo_fl_config "VotesFrame [demo_vote 1 5, demo_vote 2 1]" 0]
    by (simp add: open_journal_def demo_frames_def)
  then have len: "length (journal_bytes demo_fl_config demo_frames) = 176"
    by (simp add: journal_bytes_def hdr demo_frames_def)
  from filelog_scan_truncated [OF demo_fl_config_ok demo_open_journal, of 100]
  obtain j r where j: "j \<le> length demo_frames" "srValidBytes r \<le> 100"
    and scan: "Scan (quiet_env demo_fl_config (take 100 (journal_bytes demo_fl_config demo_frames))) demo_fl_config
      (Some collect) [] = (r, None, journal_entries 0 (take j demo_frames))"
    and r: "srValidBytes r = length (journal_bytes demo_fl_config (take j demo_frames))"
      "srIncompleteTail r \<longleftrightarrow> srValidBytes r < 100" by (auto simp: len)
  have "j = 0 \<or> j = 1" using j(1) by (auto simp: demo_frames_def)
  with j(2) r(1) len have "j = 0" by (auto simp: demo_frames_def)
  with scan r hdr show ?thesis by (simp add: journal_bytes_def)
qed

text \<open>C26. No silent corruption: change any one byte of a written journal, closed or not, to another value,
  and the scan returns an error, whatever the visitor does.\<close>

theorem filelog_scan_detects_altered_byte:
  assumes "fl_config_ok c" and "open_journal c 0 fs" and "js = fs \<or> js = fs @ [ClosedFrame]"
    and "i < length (journal_bytes c js)" and "x \<noteq> journal_bytes c js ! i"
  shows "\<exists>e. fst (snd (Scan (quiet_env c ((journal_bytes c js)[i := x])) c visit s)) = Some e"
proof -
  obtain closed where "js = fs @ (if closed then [ClosedFrame] else [])"
    using assms(3) by (metis append_Nil2)
  from scan_altered [OF assms(1,2) this assms(4,5), of visit s] show ?thesis by auto
qed

theorem filelog_scan_detects_altered_byte_witness:
  "\<exists>e. fst (snd (Scan (quiet_env demo_fl_config
     ((journal_bytes demo_fl_config (demo_frames @ [ClosedFrame]))
        [200 := journal_bytes demo_fl_config (demo_frames @ [ClosedFrame]) ! 200 + 1]))
     demo_fl_config (None :: unit visitor option) ())) = Some e"
  by (rule filelog_scan_detects_altered_byte [OF demo_fl_config_ok demo_open_journal])
    (simp_all add: demo_journal_length)

end
