(* ===== verification/Filelog_Store_Props.thy ===== *)
theory Filelog_Store_Props
  imports Filelog_Store_Inv Filelog_Scan_Props
begin

text \<open>
  The properties of the live journal: what an acknowledgement means after a crash, the
  bounds of the queue, what a completed seal leaves on disk, and that closing is final and
  the writer always finishes.
\<close>

section \<open>What no step takes back\<close>

definition fl_later :: "fl_store \<Rightarrow> fl_store \<Rightarrow> bool" where
  "fl_later s t \<longleftrightarrow>
     stCfg t = stCfg s \<and> (stAdmissionClosed s \<longrightarrow> stAdmissionClosed t) \<and> (stQueueClosed s \<longrightarrow> stQueueClosed t) \<and>
     (stPoison s \<noteq> None \<longrightarrow> stPoison t = stPoison s) \<and> set (stOutcomes s) \<subseteq> set (stOutcomes t) \<and>
     set (stAnswers s) \<subseteq> set (stAnswers t)"

lemma fl_later_fail: "fl_later s (fail e s)"
  by (auto simp: fl_later_def fail_def stopQueue_def)

lemma fl_later_trans: "fl_later s t \<Longrightarrow> fl_later t u \<Longrightarrow> fl_later s u"
  by (auto simp: fl_later_def)

lemma fl_later_flush: "flush wr sync_ok s = (s', e) \<Longrightarrow> fl_later s s'"
proof (cases rule: flush_cases [of s wr sync_ok])
  case empty
  moreover assume "flush wr sync_ok s = (s', e)"
  ultimately show ?thesis by (simp add: fl_later_def)
next
  case (flushed s1)
  moreover assume "flush wr sync_ok s = (s', e)"
  ultimately show ?thesis using syncGroup_fields [OF flushed(3)] by (auto simp: fl_later_def)
next
  case (failed s1 x)
  have "fl_later s s1" using failed(2) by (auto simp: fl_later_def syncGroup_fields)
  moreover assume "flush wr sync_ok s = (s', e)"
  ultimately show ?thesis
    using failed(3) fl_later_fail [of s1 x] by (auto simp: fl_later_def fail_fields)
qed

lemma fl_writer_later: "fl_writer s t \<Longrightarrow> fl_later s t"
proof (induction rule: fl_writer.induct)
  case (room s j wr sync_ok)
  obtain s1 e where fl: "flush wr sync_ok s = (s1, e)" by (cases "flush wr sync_ok s")
  from fl_later_flush [OF fl] show ?case
    by (auto simp: w_room_def fl fl_later_def answer_error_def release_def split: option.splits)
next
  case (check s wr sync_ok)
  obtain s1 e where fl: "flush wr sync_ok s = (s1, e)" by (cases "flush wr sync_ok s")
  from fl_later_flush [OF fl] show ?case
    by (auto simp: w_check_def fl fl_later_def split: option.splits)
next
  case (tick s wr sync_ok)
  obtain s1 e where fl: "flush wr sync_ok s = (s1, e)" by (cases "flush wr sync_ok s")
  from fl_later_flush [OF fl] show ?case
    by (auto simp: w_tick_def fl fl_later_def split: option.splits)
next
  case (last s wr sync_ok)
  obtain s1 e where fl: "flush wr sync_ok s = (s1, e)" by (cases "flush wr sync_ok s")
  from fl_later_flush [OF fl] show ?case
    by (auto simp: w_last_def fl fl_later_def split: option.splits)
next
  case (write_closed s wr sync_ok)
  let ?data = "finishFrame (replicate frameHeaderBytes 0) (wSequence s) kindClosed 0"
  obtain s1 e where sync: "syncGroup wr sync_ok ?data s = (s1, e)" by (cases "syncGroup wr sync_ok ?data s")
  have "fl_later s s1" using syncGroup_fields [OF sync] by (simp add: fl_later_def)
  then show ?case
    using fl_later_trans [OF _ fl_later_fail, of s s1]
    by (auto simp: w_seal_def sync fl_later_def split: option.splits)
next
  case (exit s close_fails)
  then show ?case using fl_later_fail [of s] by (auto simp: w_exit_def fl_later_def)
qed (auto simp: fl_later_def w_dequeue_def w_append_def w_drain_def answer_error_def release_def Let_def
    split: list.splits)

lemma fl_step_later: "fl_step s t \<Longrightarrow> fl_later s t"
proof (induction rule: fl_step.induct)
  case (writer s t)
  then show ?case by (rule fl_writer_later)
next
  case (submit done1 done2 observed admitted inputs s s' outcome)
  show ?case
  proof (cases outcome)
    case (Inl e)
    with submit_refused [of done1 done2 observed admitted inputs s s' e] submit show ?thesis
      by (auto simp: fl_later_def)
  next
    case (Inr j)
    with submit_queued(2) [of done1 done2 observed admitted inputs s s' j] submit show ?thesis
      by (simp add: fl_later_def)
  qed
qed (auto simp: fl_later_def submit_answered_def submit_abandoned_def seal_request_def
    stopQueue_def split: option.splits)

interpretation fl_mono: monotone_steps fl_step fl_later
proof
  show "fl_later s s" for s by (simp add: fl_later_def)
  show "fl_later s u" if "fl_later s t" "fl_later t u" for s t u using that by (rule fl_later_trans)
  show "fl_later s t" if "fl_step s t" for s t using that by (rule fl_step_later)
qed

section \<open>The writer finishes\<close>

definition phase_rank :: "w_phase \<Rightarrow> nat" where
  "phase_rank ph = (case ph of WHold _ \<Rightarrow> 8 | WRoom _ \<Rightarrow> 7 | WCheck \<Rightarrow> 6 | WIdle \<Rightarrow> 5 | WDrain \<Rightarrow> 4
     | WSeal \<Rightarrow> 3 | WExit \<Rightarrow> 2 | WDone \<Rightarrow> 0)"

text \<open>A bound on the steps the writer still takes once the queue is closed.\<close>

definition writer_rank :: "fl_store \<Rightarrow> nat" where
  "writer_rank s = 20 * length (stQueue s) + 2 * phase_rank (wPhase s) + (if wTick s then 1 else 0)"

definition tick_inv :: "fl_store \<Rightarrow> bool" where
  "tick_inv s \<longleftrightarrow> (wTick s \<longrightarrow> wBatch s \<noteq> [])"

lemma flush_tick:
  assumes "flush wr sync_ok s = (s', e)" and "tick_inv s"
  shows "\<not> wTick s'"
proof (cases rule: flush_cases [of s wr sync_ok])
  case empty
  with assms show ?thesis by (simp add: tick_inv_def)
next
  case (flushed s1)
  with assms(1) syncGroup_fields [OF flushed(3)] show ?thesis by auto
next
  case (failed s1 x)
  with assms(1) show ?thesis by (auto simp: syncGroup_fields fail_fields)
qed

lemma tick_inv_writer:
  assumes "fl_writer s t" and "tick_inv s"
  shows "tick_inv t \<and> (stQueueClosed s \<longrightarrow> writer_rank t < writer_rank s)"
  using assms
proof (induction rule: fl_writer.induct)
  case (dequeue s)
  then show ?case
    by (cases "stQueue s") (auto simp: w_dequeue_def tick_inv_def writer_rank_def phase_rank_def)
next
  case (room s j wr sync_ok)
  obtain s1 e where fl: "flush wr sync_ok s = (s1, e)" by (cases "flush wr sync_ok s")
  from flush_tick [OF fl room(2)] flush_fields(2,5) [OF fl] room show ?case
    by (auto simp: w_room_def fl tick_inv_def writer_rank_def phase_rank_def answer_error_def release_def
        split: option.splits)
next
  case (append s j)
  then show ?case
    by (auto simp: w_append_def release_def Let_def tick_inv_def writer_rank_def phase_rank_def)
next
  case (check s wr sync_ok)
  obtain s1 e where fl: "flush wr sync_ok s = (s1, e)" by (cases "flush wr sync_ok s")
  from flush_tick [OF fl check(2)] flush_fields(2,5) [OF fl] check show ?case
    by (auto simp: w_check_def fl tick_inv_def writer_rank_def phase_rank_def split: option.splits)
next
  case (tick s wr sync_ok)
  obtain s1 e where fl: "flush wr sync_ok s = (s1, e)" by (cases "flush wr sync_ok s")
  from flush_tick [OF fl tick(3)] flush_fields(2,5) [OF fl] tick show ?case
    by (auto simp: w_tick_def fl tick_inv_def writer_rank_def phase_rank_def split: option.splits)
next
  case (last s wr sync_ok)
  obtain s1 e where fl: "flush wr sync_ok s = (s1, e)" by (cases "flush wr sync_ok s")
  from flush_tick [OF fl last(4)] flush_fields(2,5) [OF fl] last show ?case
    by (auto simp: w_last_def fl tick_inv_def writer_rank_def phase_rank_def split: option.splits)
next
  case (write_closed s wr sync_ok)
  let ?data = "finishFrame (replicate frameHeaderBytes 0) (wSequence s) kindClosed 0"
  obtain s1 e where sync: "syncGroup wr sync_ok ?data s = (s1, e)" by (cases "syncGroup wr sync_ok ?data s")
  from syncGroup_fields [OF sync] write_closed show ?case
    by (auto simp: w_seal_def sync tick_inv_def writer_rank_def phase_rank_def fail_fields split: option.splits)
next
  case (drain s)
  then show ?case
    by (cases "stQueue s")
      (auto simp: w_drain_def answer_error_def release_def tick_inv_def writer_rank_def phase_rank_def)
next
  case (exit s close_fails)
  then show ?case
    by (auto simp: w_exit_def fail_fields tick_inv_def writer_rank_def phase_rank_def)
qed

lemma tick_inv_step: "fl_step s t \<Longrightarrow> tick_inv s \<Longrightarrow> tick_inv t"
proof (induction rule: fl_step.induct)
  case (writer s t)
  then show ?case by (simp add: tick_inv_writer)
next
  case (submit done1 done2 observed admitted inputs s s' outcome)
  show ?case
  proof (cases outcome)
    case (Inl e)
    with submit_refused [of done1 done2 observed admitted inputs s s' e] submit show ?thesis
      by (auto simp: tick_inv_def)
  next
    case (Inr j)
    with submit_queued(2) [of done1 done2 observed admitted inputs s s' j] submit show ?thesis
      by (simp add: tick_inv_def)
  qed
qed (auto simp: tick_inv_def submit_answered_def submit_abandoned_def seal_request_def stopQueue_def
    split: option.splits)

interpretation fl_tick: transition_system "\<lambda>s. \<exists>c. fl_config_ok c \<and> s = new_store c" fl_step tick_inv
proof
  show "tick_inv s" if "\<exists>c. fl_config_ok c \<and> s = new_store c" for s
    using that by (auto simp: tick_inv_def new_store_def)
  show "tick_inv t" if "fl_step s t" "tick_inv s" for s t using that by (rule tick_inv_step)
qed

lemma writer_moves:
  assumes "stQueueClosed s" and "wPhase s \<noteq> WDone"
  shows "\<exists>t. fl_writer s t"
  using assms
  by (cases "wPhase s"; cases "stQueue s = []") (blast intro: fl_writer.intros)+

section \<open>Reachable states\<close>

lemma fl_reachable:
  assumes "fl_config_ok c" and "fl_step\<^sup>*\<^sup>* (new_store c) s"
  shows "queue_inv s" and "\<exists>fs. disk_inv s fs" and "tick_inv s" and "stCfg s = c"
proof -
  have start: "\<exists>c'. fl_config_ok c' \<and> new_store c = new_store c'" using assms(1) by blast
  show "queue_inv s" and "\<exists>fs. disk_inv s fs"
    using fl.invariant_reachable [OF start assms(2)] by (simp_all add: fl_inv_def)
  show "tick_inv s" by (rule fl_tick.invariant_reachable [OF start assms(2)])
  show "stCfg s = c" using fl_mono.rel_run [OF assms(2)] by (simp add: fl_later_def new_store_def)
qed

lemma disk_inv_open: "disk_inv s fs \<Longrightarrow> wSequence s < 2 ^ 63 - 1 \<Longrightarrow> open_journal (stCfg s) 0 fs"
  by (simp add: disk_inv_def open_journal_def)

lemma disk_inv_prefix:
  assumes "disk_inv s fs"
  shows "\<exists>w. dWritten s = take w (journal_bytes (stCfg s) (fs @ [ClosedFrame])) \<and> 80 \<le> dSynced s \<and> dSynced s \<le> w"
proof -
  have "\<exists>w. dWritten s = take w (journal_bytes (stCfg s) (fs @ [ClosedFrame]))"
    and "80 \<le> dSynced s" "dSynced s \<le> length (dWritten s)"
    using assms by (simp_all only: disk_inv_def)
  then show ?thesis by (metis length_take min.bounded_iff)
qed

lemma entries_at:
  "i < length fs \<Longrightarrow> set (frame_entries (n + i) (fs ! i)) \<subseteq> set (journal_entries n fs)"
proof (induction fs arbitrary: n i)
  case Nil
  then show ?case by simp
next
  case (Cons f fs)
  then show ?case using Cons.IH [of "i - 1" "Suc n"] by (cases i) auto
qed

lemma acked_entry:
  assumes "acked c fs n j r" and "frOffset r < m" and "m \<le> length fs" and "i < length (jbInputs j)"
  shows "(\<lparr>fpPartition = 0, fpOffset = frOffset r, fpIndex = i\<rparr>, vote_of (jbAdmitted j) (jbInputs j ! i))
    \<in> set (journal_entries 0 (take m fs))"
proof -
  have f: "take m fs ! frOffset r = frame_of j" and o: "frOffset r < length (take m fs)"
    using assms by (simp_all add: acked_def)
  have "(\<lparr>fpPartition = 0, fpOffset = frOffset r, fpIndex = i\<rparr>, vote_of (jbAdmitted j) (jbInputs j ! i))
      \<in> set (frame_entries (frOffset r) (frame_of j))"
    using assms(4) by (auto simp: frame_entries_def frame_of_def in_set_zip intro!: exI [of _ i])
  with entries_at [OF o, of 0] show ?thesis unfolding f by auto
qed

section \<open>A small run\<close>

lemma writeAll_whole: "b \<noteq> [] \<Longrightarrow> writeAll (\<lambda>_. (int (length b), False)) call w b = (w @ b, None)"
  by (simp add: writeAll.simps [of _ call w b] writeAll.simps [of _ "Suc call" "w @ b" "[]"])

lemma w_seal_written:
  assumes "stSealRequested s" and "data = finishFrame (replicate 40 0) (wSequence s) kindClosed 0" and "data \<noteq> []"
  shows "w_seal (\<lambda>_. (int (length data), False)) True s =
    s\<lparr>dWritten := dWritten s @ data, mWalBytes := mWalBytes s + length data,
      dSynced := length (dWritten s @ data), mGroups := mGroups s + 1, stManifest := [(0, wSequence s)], wPhase := WExit\<rparr>"
  using assms(1) unfolding w_seal_def assms(2) [symmetric] syncGroup_def writeAll_whole [OF assms(3)] by simp

definition demo_fl_input :: fl_input where
  "demo_fl_input = \<lparr>fiToken = 1 # replicate 15 0, fiChoice = 5\<rparr>"

definition demo_job :: fl_job where
  "demo_job = new_job [demo_fl_input] 25"

definition demo_receipt :: fl_receipt where
  "demo_receipt = \<lparr>frPartition = 0, frOffset = 0, frCount = 1, frAdmittedAt = 25\<rparr>"

text \<open>One frame is submitted, written, synced and acknowledged; the seal is requested after the deadline
  and the writer closes the journal.\<close>

definition demo_queued :: fl_store where
  "demo_queued = (new_store demo_fl_config)\<lparr>stQueuedVotes := 1, stQueue := [demo_job]\<rparr>"

definition demo_synced :: fl_store where
  "demo_synced = (let data = batch_data 0 [demo_job]; file = fileHeader demo_fl_config @ data in
     (new_store demo_fl_config)\<lparr>dWritten := file, mWalBytes := 80 + length data, dSynced := length file,
       mGroups := 1, mDurableVotes := 1, mDurableFrames := 1, stAnswers := [(demo_job, demo_receipt, None)],
       wSequence := 1\<rparr>)"

definition demo_acked :: fl_store where
  "demo_acked = demo_synced\<lparr>mAcknowledged := 1, stOutcomes := [(demo_job, Inr demo_receipt)]\<rparr>"

definition demo_sealed :: fl_store where
  "demo_sealed = w_exit False (w_seal (\<lambda>_. (int (length (finishFrame (replicate frameHeaderBytes 0) 1 kindClosed 0)), False)) True
     (w_last (\<lambda>_. (0, False)) True (seal_request demo_acked)))"

lemma demo_fl_fields:
  "fcStartsAt demo_fl_config = 0" "fcEndsAt demo_fl_config = minute" "fcBatchSize demo_fl_config = 4"
  "fcQueuePerPartition demo_fl_config = 8" "fcLinger demo_fl_config = 0"
  by (simp_all add: demo_fl_config_def)

lemma demo_fl_input_ok: "\<not> input_bad demo_fl_config demo_fl_input" "length (fiToken demo_fl_input) = 16"
  by (auto simp: input_bad_def demo_fl_input_def demo_fl_config_def validChoice_def zero16_def replicate_neq_Cons)

lemma demo_job_ok: "job_ok demo_fl_config demo_job"
  using demo_fl_input_ok by (simp add: job_ok_def demo_job_def new_job_def) (simp add: demo_fl_config_def)

lemma demo_batch: "batch_data 0 [demo_job] \<noteq> []"
proof -
  have "batch_data 0 [demo_job] = frames_wire 0 (map frame_of [demo_job])"
    by (rule batch_data_wire [OF demo_fl_config_ok]) (simp add: demo_job_ok)
  moreover have "40 \<le> length (frames_wire 0 (map frame_of [demo_job]))"
    using length_frames_wire_ge [of "map frame_of [demo_job]" 0] by simp
  ultimately show ?thesis by auto
qed

lemma demo_submit: "fl_step (new_store demo_fl_config) demo_queued"
proof (rule fl_step.submit [where inputs = "[demo_fl_input]"])
  show "submit_frame False False 25 25 [demo_fl_input] (new_store demo_fl_config) = (demo_queued, Inr demo_job)"
    using demo_fl_input_ok(1)
    by (simp add: submit_frame_def new_store_def demo_queued_def demo_job_def new_job_def demo_fl_fields Let_def)
  show "\<forall>inp \<in> set [demo_fl_input]. length (fiToken inp) = 16" by (simp add: demo_fl_input_ok)
qed

lemma demo_write: "fl_step\<^sup>*\<^sup>* demo_queued demo_synced"
proof -
  let ?data = "batch_data 0 [demo_job]"
  note ne = demo_batch
  let ?wr = "\<lambda>_ :: nat. (int (length ?data), False)"
  let ?s2 = "w_dequeue demo_queued" and ?s3 = "w_room ?wr True demo_job (w_dequeue demo_queued)"
  let ?s4 = "w_append demo_job ?s3"
  have s2: "?s2 = (new_store demo_fl_config)\<lparr>stQueuedVotes := 1, wPhase := WHold demo_job\<rparr>"
    by (simp add: w_dequeue_def demo_queued_def new_store_def)
  have cnt: "jbCount demo_job = 1" "jbAdmitted demo_job = 25" by (simp_all add: demo_job_def new_job_def)
  have s3: "?s3 = (new_store demo_fl_config)\<lparr>stQueuedVotes := 1, wPhase := WRoom demo_job\<rparr>"
    unfolding s2 by (simp add: w_room_def new_store_def demo_fl_fields cnt)
  have s4: "?s4 = (new_store demo_fl_config)\<lparr>wBatch := [demo_job], wVotes := 1, mActive := 1, wPhase := WCheck\<rparr>"
    unfolding s3 by (simp add: w_append_def release_def new_store_def demo_fl_fields cnt)
  have s5: "w_check ?wr True ?s4 = demo_synced"
    unfolding s4
    by (simp add: w_check_def flush_def syncGroup_def writeAll_whole [OF ne] new_store_def demo_fl_fields
        demo_synced_def batch_answers_def demo_receipt_def cnt Let_def)
  have "fl_writer demo_queued ?s2"
    by (rule fl_writer.dequeue) (simp_all add: demo_queued_def new_store_def)
  moreover have "fl_writer ?s2 ?s3" by (rule fl_writer.room) (simp add: s2)
  moreover have "fl_writer ?s3 ?s4" by (rule fl_writer.append) (simp add: s3)
  moreover have "fl_writer ?s4 demo_synced" unfolding s5 [symmetric] by (rule fl_writer.check) (simp add: s4)
  ultimately show ?thesis by (meson converse_rtranclp_into_rtranclp fl_step.writer rtranclp.rtrancl_refl)
qed

lemma demo_ack: "fl_step demo_synced demo_acked"
proof -
  have "demo_acked = submit_answered demo_job demo_receipt None demo_synced"
    by (simp add: demo_acked_def submit_answered_def demo_synced_def new_store_def Let_def demo_job_def new_job_def)
  moreover have "fl_step demo_synced (submit_answered demo_job demo_receipt None demo_synced)"
    by (rule fl_step.answered) (simp add: demo_synced_def Let_def)
  ultimately show ?thesis by simp
qed

lemma demo_acked_run: "fl_step\<^sup>*\<^sup>* (new_store demo_fl_config) demo_acked"
  using demo_submit demo_write demo_ack
  by (meson converse_rtranclp_into_rtranclp rtranclp.rtrancl_into_rtrancl)

lemma demo_sealed_run: "fl_step\<^sup>*\<^sup>* demo_acked demo_sealed"
proof -
  let ?data = "finishFrame (replicate frameHeaderBytes 0) 1 kindClosed 0"
  let ?s1 = "seal_request demo_acked" and ?s2 = "w_last (\<lambda>_. (0, False)) True (seal_request demo_acked)"
  let ?s3 = "w_seal (\<lambda>_. (int (length ?data), False)) True ?s2"
  have "?data \<noteq> []" by (simp add: finishFrame_wire [of "[]", simplified] frame_header_def header_prefix_def)
  have s1: "?s1 = demo_acked\<lparr>stSealRequested := True, stAdmissionClosed := True, stQueueClosed := True\<rparr>"
    by (simp add: seal_request_def stopQueue_def demo_acked_def demo_synced_def new_store_def Let_def)
  have s2: "?s2 = ?s1\<lparr>wPhase := WSeal\<rparr>"
    unfolding s1 by (simp add: w_last_def flush_def demo_acked_def demo_synced_def new_store_def Let_def)
  have "stSealRequested ?s2" "wSequence ?s2 = 1"
    by (simp_all add: s2) (simp_all add: seal_request_def stopQueue_def demo_acked_def demo_synced_def new_store_def Let_def)
  with w_seal_written [OF this(1), of ?data] \<open>?data \<noteq> []\<close> have p3: "wPhase ?s3 = WExit" by simp
  have "fl_step demo_acked ?s1"
    by (rule fl_step.seal [where readings = "[(False, minute, False)]"])
      (simp add: demo_acked_def demo_synced_def new_store_def Let_def demo_fl_fields time_sub_def)
  moreover have "fl_writer ?s1 ?s2"
    by (rule fl_writer.last) (simp_all add: seal_request_def stopQueue_def demo_acked_def demo_synced_def new_store_def Let_def)
  moreover have "fl_writer ?s2 ?s3" by (rule fl_writer.write_closed) (simp add: s2)
  moreover have "fl_writer ?s3 demo_sealed" unfolding demo_sealed_def by (rule fl_writer.exit) (rule p3(1))
  ultimately show ?thesis by (meson converse_rtranclp_into_rtranclp fl_step.writer rtranclp.rtrancl_refl)
qed

section \<open>Properties\<close>



text \<open>The memory of the journal is bounded, in every reachable state: the votes charged to the queue are
  those of the queued frames and of the frame the writer holds, and never exceed
  \<^verbatim>\<open>QueuePerPartition\<close>; the active batch never exceeds \<^verbatim>\<open>BatchSize\<close>; every frame in
  them is valid, not empty and admitted within the poll.\<close>

theorem filelog_queue_bounded:
  assumes "fl_config_ok c" and "fl_step\<^sup>*\<^sup>* (new_store c) s"
  shows "stQueuedVotes s = sum_list (map (length \<circ> jbInputs) (stQueue s @ held s)) \<and>
    int (stQueuedVotes s) \<le> fcQueuePerPartition c \<and>
    wVotes s = sum_list (map (length \<circ> jbInputs) (wBatch s)) \<and> int (wVotes s) \<le> fcBatchSize c \<and>
    (\<forall>j \<in> set (stQueue s @ held s @ wBatch s). jbInputs j \<noteq> [] \<and>
       fcStartsAt c \<le> jbAdmitted j \<and> jbAdmitted j < fcEndsAt c \<and> (\<forall>inp \<in> set (jbInputs j). \<not> input_bad c inp))"
proof -
  note reach = fl_reachable [OF assms]
  have cnt: "map jbCount js = map (length \<circ> jbInputs) js" if "\<forall>j \<in> set js. job_ok c j" for js
    using that by (simp add: job_ok_def)
  have q: "queue_inv s" "stCfg s = c" using reach by simp_all
  then have jobs: "\<forall>j \<in> set (stQueue s @ held s). job_ok c j" "\<forall>j \<in> set (wBatch s). job_ok c j"
    by (auto simp: queue_inv_def)
  have "charged s = stQueuedVotes s" "sum_list (map jbCount (wBatch s)) = wVotes s"
    "int (stQueuedVotes s) \<le> fcQueuePerPartition c" "int (wVotes s) \<le> fcBatchSize c"
    using q by (simp_all add: queue_inv_def)
  then show ?thesis
    unfolding charged_def cnt [OF jobs(1)] cnt [OF jobs(2)] using jobs by (auto simp: job_ok_def)
qed

theorem filelog_queue_bounded_witness:
  "int (stQueuedVotes demo_acked) \<le> 8 \<and> int (wVotes demo_acked) \<le> 4"
  using filelog_queue_bounded [OF demo_fl_config_ok demo_acked_run] by (simp add: demo_fl_fields)

text \<open>C9. A seal that reports success is a complete journal: when \<^verbatim>\<open>Seal\<close> returns a manifest, \<^verbatim>\<open>Replay\<close> of the
  file, of which at least the synced bytes are left, succeeds with the same manifest and shows exactly
  the frames that were written, among them every acknowledged vote.\<close>

theorem filelog_seal_replays:
  assumes "fl_config_ok c" and "fl_step\<^sup>*\<^sup>* (new_store c) s" and "seal_result s = Inr m"
    and "dSynced s \<le> k" and "wSequence s < 2 ^ 63 - 1"
  shows "\<exists>es. Replay (quiet_env c (take k (dWritten s))) c (Some collect) [] = (Inr m, es) \<and>
    m = [(0, wSequence s)] \<and>
    (\<forall>j r i. (j, Inr r) \<in> set (stOutcomes s) \<longrightarrow> i < length (jbInputs j) \<longrightarrow>
       (\<lparr>fpPartition = 0, fpOffset = frOffset r, fpIndex = i\<rparr>, vote_of (jbAdmitted j) (jbInputs j ! i)) \<in> set es)"
proof -
  note reach = fl_reachable [OF assms(1,2)]
  obtain fs where d: "disk_inv s fs" using reach(2) ..
  have m: "stManifest s \<noteq> []" "m = stManifest s"
    using assms(3) by (auto simp: seal_result_def split: option.splits if_splits)
  have "stManifest s = [(0, length fs)]" and bytes: "dWritten s = journal_bytes c (fs @ [ClosedFrame])"
    "dSynced s = length (dWritten s)" and seq: "length fs = wSequence s"
    using d m(1) reach(4) by (simp_all add: disk_inv_def)
  then have man: "m = [(0, length fs)]" using m by simp
  have opn: "open_journal c 0 fs" using disk_inv_open [OF d assms(5)] reach(4) by simp
  have whole: "take k (dWritten s) = journal_bytes c (fs @ [ClosedFrame])" using assms(4) bytes by simp
  have "\<not> srIncompleteTail (advance_all 0 fs start_result)"
    using opn by (simp add: advance_all_open open_journal_def start_result_def empty_result_def)
  then have replay: "Replay (quiet_env c (take k (dWritten s))) c (Some collect) [] = (Inr m, journal_entries 0 fs)"
    using scan_written_closed [OF assms(1) opn apply_collect] man
    by (simp add: whole Replay_def advance_all_snoc advance_def)
  have "(\<lparr>fpPartition = 0, fpOffset = frOffset r, fpIndex = i\<rparr>, vote_of (jbAdmitted j) (jbInputs j ! i))
      \<in> set (journal_entries 0 fs)" if "(j, Inr r) \<in> set (stOutcomes s)" "i < length (jbInputs j)" for j r i
  proof -
    have "acked c fs (dSynced s) j r" using d that(1) reach(4) by (simp add: disk_inv_def)
    from acked_entry [OF this _ order_refl that(2)] this show ?thesis by (simp add: acked_def)
  qed
  with replay man seq show ?thesis by auto
qed

theorem filelog_seal_replays_witness:
  "\<exists>es. Replay (quiet_env demo_fl_config (dWritten demo_sealed)) demo_fl_config (Some collect) [] = (Inr [(0, 1)], es) \<and>
     (\<lparr>fpPartition = 0, fpOffset = 0, fpIndex = 0\<rparr>, vote_of 25 demo_fl_input) \<in> set es"
proof -
  have run: "fl_step\<^sup>*\<^sup>* (new_store demo_fl_config) demo_sealed"
    using demo_acked_run demo_sealed_run by (rule rtranclp_trans)
  let ?data = "finishFrame (replicate frameHeaderBytes 0) 1 kindClosed 0"
  have "?data \<noteq> []" by (simp add: finishFrame_wire [of "[]", simplified] frame_header_def header_prefix_def)
  let ?s2 = "w_last (\<lambda>_. (0, False)) True (seal_request demo_acked)"
  have s2: "?s2 = demo_acked\<lparr>stSealRequested := True, stAdmissionClosed := True, stQueueClosed := True, wPhase := WSeal\<rparr>"
    by (simp add: w_last_def flush_def seal_request_def stopQueue_def demo_acked_def demo_synced_def new_store_def Let_def)
  have fields: "stPoison ?s2 = None" "stOutcomes ?s2 = [(demo_job, Inr demo_receipt)]" "stSealRequested ?s2" "wSequence ?s2 = 1"
    by (simp_all add: s2) (simp_all add: demo_acked_def demo_synced_def new_store_def Let_def)
  have sealed: "demo_sealed = (w_seal (\<lambda>_. (int (length ?data), False)) True ?s2)\<lparr>wPhase := WDone\<rparr>"
    by (simp add: demo_sealed_def w_exit_def)
  have "seal_result demo_sealed = Inr [(0, 1)]" "stOutcomes demo_sealed = [(demo_job, Inr demo_receipt)]"
    "wSequence demo_sealed = 1" "dSynced demo_sealed \<le> length (dWritten demo_sealed)"
    unfolding sealed using w_seal_written [OF fields(3), of ?data] fields \<open>?data \<noteq> []\<close>
    by (simp_all add: seal_result_def)
  then show ?thesis
    using filelog_seal_replays [OF demo_fl_config_ok run, of "[(0, 1)]" "length (dWritten demo_sealed)"]
    by (fastforce simp: demo_job_def new_job_def demo_receipt_def)
qed

text \<open>Closing is final: once a caller of a journal was answered \<^verbatim>\<open>ErrClosed\<close> (because the deadline was
  observed, or the queue was stopped), no later \<^verbatim>\<open>SubmitFrame\<close> admits anything, whatever the clock
  reads then; and a journal whose write or sync has failed never admits again either.\<close>

theorem filelog_closed_final:
  assumes "fl_config_ok c" and "fl_step\<^sup>*\<^sup>* (new_store c) s"
    and "submit_frame d1 d2 observed admitted inputs s = (s1, Inl ErrClosed) \<or> s1 = s \<and> stPoison s \<noteq> None"
    and "fl_step\<^sup>*\<^sup>* s1 t"
  shows "\<exists>e. snd (submit_frame d1' d2' observed' admitted' inputs' t) = Inl e"
proof -
  note reach = fl_reachable [OF assms(1,2)]
  have "stAdmissionClosed s1"
  proof (cases "stPoison s")
    case None
    with assms(3) have "submit_frame d1 d2 observed admitted inputs s = (s1, Inl ErrClosed)" by simp
    with None show ?thesis unfolding submit_frame_def Let_def by (auto split: if_split_asm)
  next
    case (Some e)
    then have closed: "stAdmissionClosed s" using reach(1) by (auto simp: queue_inv_def)
    from assms(3) show ?thesis
    proof
      assume "submit_frame d1 d2 observed admitted inputs s = (s1, Inl ErrClosed)"
      from submit_refused [OF this] closed show ?thesis by auto
    qed (use closed in simp)
  qed
  then have "stAdmissionClosed t" using fl_mono.rel_run [OF assms(4)] by (simp add: fl_later_def)
  then have "\<exists>u e. submit_frame d1' d2' observed' admitted' inputs' t = (u, Inl e)"
    unfolding submit_frame_def Let_def by (simp split: option.split)
  then show ?thesis by auto
qed

theorem filelog_closed_final_witness:
  "\<exists>s1. submit_frame False False minute 25 [demo_fl_input] (new_store demo_fl_config) = (s1, Inl ErrClosed) \<and>
     (\<exists>e. snd (submit_frame False False 25 25 [demo_fl_input] s1) = Inl e)"
proof -
  let ?s1 = "(new_store demo_fl_config)\<lparr>stAdmissionClosed := True\<rparr>"
  have s1: "submit_frame False False minute 25 [demo_fl_input] (new_store demo_fl_config) = (?s1, Inl ErrClosed)"
    using demo_fl_input_ok(1) by (simp add: submit_frame_def new_store_def demo_fl_fields Let_def)
  from filelog_closed_final [OF demo_fl_config_ok rtranclp.rtrancl_refl disjI1 [OF s1] rtranclp.rtrancl_refl]
  show ?thesis using s1 by blast
qed

text \<open>C27. The writer always finishes, so \<^verbatim>\<open>Close\<close> and \<^verbatim>\<open>Seal\<close> return: once the queue is closed, as long as it
  is not done the writer has a step to take, whatever the disk does, each of its steps lowers the bound
  \<open>writer_rank\<close>, and no step of any caller raises it.\<close>

theorem filelog_writer_finishes:
  assumes "fl_config_ok c" and "fl_step\<^sup>*\<^sup>* (new_store c) s" and "stQueueClosed s"
  shows "(wPhase s \<noteq> WDone \<longrightarrow> (\<exists>t. fl_writer s t)) \<and>
    (\<forall>t. fl_writer s t \<longrightarrow> writer_rank t < writer_rank s) \<and>
    (\<forall>t. fl_step s t \<longrightarrow> stQueueClosed t \<and> writer_rank t \<le> writer_rank s)"
proof -
  note reach = fl_reachable [OF assms(1,2)]
  have "stAdmissionClosed s" using reach(1) assms(3) by (simp add: queue_inv_def)
  then have sub: "stQueue s' = stQueue s \<and> wPhase s' = wPhase s \<and> wTick s' = wTick s"
    if "submit_frame d1 d2 o1 a1 ins s = (s', outcome)" for d1 d2 o1 a1 ins s' outcome
  proof (cases outcome)
    case (Inl e)
    with submit_refused [of d1 d2 o1 a1 ins s s' e] that show ?thesis by auto
  next
    case (Inr j)
    with submit_queued(11) [of d1 d2 o1 a1 ins s s' j] that \<open>stAdmissionClosed s\<close> show ?thesis by simp
  qed
  have "writer_rank t \<le> writer_rank s" if "fl_step s t" for t
    using that
  proof (cases rule: fl_step.cases)
    case writer
    with tick_inv_writer [OF _ reach(3)] assms(3) show ?thesis by (simp add: less_imp_le)
  next
    case (submit d1 d2 o1 a1 ins outcome)
    with sub [OF submit(1)] show ?thesis by (simp add: writer_rank_def)
  qed (auto simp: writer_rank_def submit_answered_def submit_abandoned_def seal_request_def stopQueue_def
      split: option.splits)
  moreover have "stQueueClosed t" if "fl_step s t" for t
    using fl_step_later [OF that] assms(3) by (simp add: fl_later_def)
  ultimately show ?thesis
    using writer_moves [OF assms(3)] tick_inv_writer [OF _ reach(3)] assms(3) by blast
qed

theorem filelog_writer_finishes_witness:
  "\<exists>t. fl_writer (stopQueue (new_store demo_fl_config)) t \<and>
     writer_rank t < writer_rank (stopQueue (new_store demo_fl_config))"
proof -
  let ?s = "stopQueue (new_store demo_fl_config)"
  have run: "fl_step\<^sup>*\<^sup>* (new_store demo_fl_config) ?s" using fl_step.close by blast
  have "stQueueClosed ?s" "wPhase ?s \<noteq> WDone" by (simp_all add: stopQueue_def new_store_def)
  with filelog_writer_finishes [OF demo_fl_config_ok run] show ?thesis by blast
qed

end
