(* ===== verification/Go_Net.thy ===== *)
theory Go_Net
  imports Gq_Prelude
begin

text \<open>
  The parts of Go's \<^verbatim>\<open>net\<close> and \<^verbatim>\<open>strings\<close> packages the configuration checks rely on:
  \<^verbatim>\<open>net.SplitHostPort\<close>, \<^verbatim>\<open>net.ParseIP\<close> (both address families, zones refused) and
  \<^verbatim>\<open>IP.IsLoopback\<close>, and the string searches they use. Strings are lists of bytes
  (\<open>char\<close>), as in Go.
\<close>

section \<open>Strings\<close>

definition index_byte :: "char \<Rightarrow> string \<Rightarrow> nat option" where
  "index_byte ch s = (case filter (\<lambda>i. s ! i = ch) [0..<length s] of [] \<Rightarrow> None | i # _ \<Rightarrow> Some i)"

definition last_index_byte :: "char \<Rightarrow> string \<Rightarrow> nat option" where
  "last_index_byte ch s = (case filter (\<lambda>i. s ! i = ch) (rev [0..<length s]) of [] \<Rightarrow> None | i # _ \<Rightarrow> Some i)"

definition has_prefix :: "string \<Rightarrow> string \<Rightarrow> bool" where
  "has_prefix s p \<longleftrightarrow> take (length p) s = p"

definition code :: "char \<Rightarrow> nat" where
  "code ch = of_char ch"

definition digit :: "char \<Rightarrow> bool" where
  "digit ch \<longleftrightarrow> 48 \<le> code ch \<and> code ch \<le> 57"

definition lower :: "char \<Rightarrow> bool" where
  "lower ch \<longleftrightarrow> 97 \<le> code ch \<and> code ch \<le> 122"

definition upper :: "char \<Rightarrow> bool" where
  "upper ch \<longleftrightarrow> 65 \<le> code ch \<and> code ch \<le> 90"

definition hex_value :: "char \<Rightarrow> nat option" where
  "hex_value ch =
     (if digit ch then Some (code ch - 48)
      else if 97 \<le> code ch \<and> code ch \<le> 102 then Some (code ch - 87)
      else if 65 \<le> code ch \<and> code ch \<le> 70 then Some (code ch - 55) else None)"

text \<open>\<^verbatim>\<open>hex.DecodeString\<close>: an even number of hexadecimal digits of either case.\<close>

fun hex_decode :: "string \<Rightarrow> byte list option" where
  "hex_decode [] = Some []"
| "hex_decode [ch] = None"
| "hex_decode (a # b # s) =
     (case (hex_value a, hex_value b) of
        (Some x, Some y) \<Rightarrow> (case hex_decode s of None \<Rightarrow> None | Some r \<Rightarrow> Some (of_nat (16 * x + y) # r))
      | _ \<Rightarrow> None)"

lemma hex_decode_some:
  "hex_decode s \<noteq> None \<longleftrightarrow> even (length s) \<and> (\<forall>ch \<in> set s. hex_value ch \<noteq> None)"
  by (induction s rule: hex_decode.induct) (auto split: option.splits)

lemma hex_decode_length: "hex_decode s = Some bs \<Longrightarrow> length s = 2 * length bs"
  by (induction s arbitrary: bs rule: hex_decode.induct) (auto split: option.splits)

section \<open>Host and port\<close>

definition split_host_port :: "string \<Rightarrow> (string \<times> string) option" where
  "split_host_port hostport =
     (case last_index_byte (CHR '':'') hostport of
        None \<Rightarrow> None
      | Some i \<Rightarrow>
          let split = (if hostport ! 0 = CHR ''['' then
              (case index_byte (CHR '']'') hostport of
                 None \<Rightarrow> None
               | Some e \<Rightarrow> if e + 1 \<noteq> i then None else Some (subslice 1 e hostport, 1, e + 1))
            else let host = take i hostport in
              if CHR '':'' \<in> set host then None else Some (host, 0, 0))
          in case split of
               None \<Rightarrow> None
             | Some (host, j, k) \<Rightarrow>
                 if CHR ''['' \<in> set (drop j hostport) \<or> CHR '']'' \<in> set (drop k hostport) then None
                 else Some (host, drop (i + 1) hostport))"

section \<open>IP addresses\<close>

text \<open>The loop over an IPv4 text: previous byte (none at the start), value and digits of the field, fields read.\<close>

fun ipv4_fields :: "char option \<Rightarrow> nat \<Rightarrow> nat \<Rightarrow> byte list \<Rightarrow> string \<Rightarrow> byte list option" where
  "ipv4_fields prev val digits fields [] =
     (if length fields < 3 then None else Some (fields @ [of_nat val]))"
| "ipv4_fields prev val digits fields (ch # s) =
     (if digit ch then
        if digits = 1 \<and> val = 0 then None
        else let val = val * 10 + (code ch - 48) in
          if val > 255 then None else ipv4_fields (Some ch) val (digits + 1) fields s
      else if ch = CHR ''.'' then
        if prev = None \<or> s = [] \<or> prev = Some (CHR ''.'') then None
        else if length fields = 3 then None
        else ipv4_fields (Some ch) 0 0 (fields @ [of_nat val]) s
      else None)"

definition parse_ipv4 :: "string \<Rightarrow> byte list option" where
  "parse_ipv4 s = ipv4_fields None 0 0 [] s"

text \<open>The leading hexadecimal digits of a group: their value and the rest, at most four of them.\<close>

fun hex_group :: "nat \<Rightarrow> nat \<Rightarrow> string \<Rightarrow> (nat \<times> nat \<times> string) option" where
  "hex_group off acc [] = Some (off, acc, [])"
| "hex_group off acc (ch # s) =
     (case hex_value ch of
        None \<Rightarrow> Some (off, acc, ch # s)
      | Some d \<Rightarrow> if off > 3 then None else hex_group (Suc off) (acc * 16 + d) s)"

lemma hex_group_length: "hex_group off acc s = Some (off', acc', s') \<Longrightarrow> length s' \<le> length s"
  by (induction off acc s rule: hex_group.induct) (auto split: option.splits if_splits)

text \<open>
  The groups of an IPv6 text: the bytes read so far, where the ellipsis stood, and at the
  end what is left of the text.
\<close>

function ipv6_groups :: "byte list \<Rightarrow> nat option \<Rightarrow> string \<Rightarrow> (byte list \<times> nat option \<times> string) option" where
  "ipv6_groups ip ellipsis s =
     (if length ip \<ge> 16 then Some (ip, ellipsis, s)
      else case hex_group 0 0 s of
        None \<Rightarrow> None
      | Some (off, acc, rest) \<Rightarrow>
          if off = 0 then None
          else if rest \<noteq> [] \<and> hd rest = CHR ''.'' then
            if ellipsis = None \<and> length ip \<noteq> 12 then None
            else if length ip + 4 > 16 then None
            else (case parse_ipv4 s of None \<Rightarrow> None | Some fields \<Rightarrow> Some (ip @ fields, ellipsis, []))
          else let ip = ip @ [of_nat (acc div 256), of_nat acc] in
            if rest = [] then Some (ip, ellipsis, [])
            else if hd rest \<noteq> CHR '':'' \<or> length rest = 1 then None
            else let s = tl rest in
              if hd s = CHR '':'' then
                if ellipsis \<noteq> None then None
                else if tl s = [] then Some (ip, Some (length ip), [])
                else ipv6_groups ip (Some (length ip)) (tl s)
              else ipv6_groups ip ellipsis s)"
  by pat_completeness auto
termination
  by (relation "measure (\<lambda>(ip, ellipsis, s). 16 - length ip)") auto

declare ipv6_groups.simps [simp del]

definition parse_ipv6 :: "string \<Rightarrow> byte list option" where
  "parse_ipv6 s =
     (if CHR ''%'' \<in> set s then None
      else let lead = take 2 s = ''::''; s = (if lead then drop 2 s else s) in
        if lead \<and> s = [] then Some (replicate 16 0)
        else case ipv6_groups [] (if lead then Some 0 else None) s of
          None \<Rightarrow> None
        | Some (ip, ellipsis, rest) \<Rightarrow>
            if rest \<noteq> [] then None
            else if length ip < 16 then
              (case ellipsis of None \<Rightarrow> None
               | Some e \<Rightarrow> Some (take e ip @ replicate (16 - length ip) 0 @ drop e ip))
            else if ellipsis \<noteq> None then None else Some ip)"

text \<open>\<^verbatim>\<open>net.ParseIP\<close>: the first of the bytes \<^verbatim>\<open>.:%\<close> decides the family; the result has 16 bytes.\<close>

definition parse_ip :: "string \<Rightarrow> byte list option" where
  "parse_ip s =
     (case filter (\<lambda>ch. ch = CHR ''.'' \<or> ch = CHR '':'' \<or> ch = CHR ''%'') s of
        [] \<Rightarrow> None
      | ch # _ \<Rightarrow>
          if ch = CHR ''.'' then map_option (\<lambda>b. replicate 10 0 @ [255, 255] @ b) (parse_ipv4 s)
          else if ch = CHR '':'' then parse_ipv6 s else None)"

definition is_loopback :: "byte list \<Rightarrow> bool" where
  "is_loopback ip \<longleftrightarrow>
     (if take 12 ip = replicate 10 0 @ [255, 255] then ip ! 12 = 127 else ip = replicate 15 0 @ [1])"

text \<open>Addresses of each kind, as the package documentation gives them.\<close>

lemma parse_ip_examples:
  "map_option is_loopback (parse_ip ''127.0.0.1'') = Some True"
  "map_option is_loopback (parse_ip ''::1'') = Some True"
  "map_option is_loopback (parse_ip ''10.0.0.1'') = Some False"
  "parse_ip ''127.0.0.01'' = None" "parse_ip ''1:2:3:4:5:6:7'' = None" "parse_ip ''localhost'' = None"
  "split_host_port ''[::1]:9092'' = Some (''::1'', ''9092'')" "split_host_port ''::1:9092'' = None"
  by code_simp+

end
