(* ===== verification/Votelog_Codec.thy ===== *)
theory Votelog_Codec
  imports Filelog_Wire Go_Net
begin

text \<open>
  The Kafka journal's configuration, data types and record formats
  (\<^verbatim>\<open>internal/votelog/types.go\<close>, \<^verbatim>\<open>frame.go\<close>): the 80-byte record of a vote or of a
  control barrier, and the frame that carries up to 4096 votes in one record.

  The lemmas give the bytes the encoders leave (\<open>record_wire\<close>, \<open>frame_wire2\<close>) and show
  that the decoders read them back and accept nothing else.
\<close>

section \<open>Configuration and data\<close>

record vl_config =
  lcBrokers :: "string list"
  lcTopic :: string
  lcPollID :: "byte list"
  lcPartitions :: int
  lcStartsAt :: time
  lcEndsAt :: time
  lcAllowedMask :: u32
  lcMultiple :: bool
  lcBatchSize :: int
  lcLinger :: duration
  lcQueuePerPartition :: int
  lcTransactionTimeout :: duration

datatype vl_error = LogNotOpen | LogClosed | LogBusy | LogUnknown | LogInvalid
  | BrokerNotLoopback | ConfigMismatch | BadJournalVote | BadControlRecord
  | FrameCountBounds | BadFrameVote | BadFrameFormat | BadFrameCount
  | ClientFailed | LogContextDone | FetchFailed | UnexpectedPartition | PrefixExpired | NotTransactional
  | NoInitialConfig | FrameOutside | FrameAfterBarrier | FrameRouting | NoInitialBarrier | VoteAfterClosed
  | VoteRouting | RepeatedClosed | BarrierSkipped | BarrierNotBoot | VisitRefused
  | AuditLimit | DeliveredTwice | TopicNotReady | ReplicaCount | ConfigsFailed | DurabilityMismatch
  | OffsetsNotReadable | InitialIncomplete | IndexPanic

text \<open>The regular expression of owned topics.\<close>

definition owned_suffix :: "string \<Rightarrow> bool" where
  "owned_suffix s \<longleftrightarrow>
     8 \<le> length s \<and> length s \<le> 100 \<and> list_all (\<lambda>ch. lower ch \<or> digit ch \<or> ch = CHR ''_'') s"

definition ownedTopic :: "string \<Rightarrow> bool" where
  "ownedTopic s \<longleftrightarrow>
     (has_prefix s ''gqlog_'' \<and> owned_suffix (drop 6 s)) \<or>
     (has_prefix s ''gigaquizz_logbench_'' \<and> owned_suffix (drop 19 s))"

definition loopback_broker :: "string \<Rightarrow> bool" where
  "loopback_broker address =
     (case split_host_port address of
        None \<Rightarrow> False
      | Some (host, port) \<Rightarrow> (case parse_ip host of None \<Rightarrow> False | Some ip \<Rightarrow> is_loopback ip))"

definition vl_validate :: "vl_config \<Rightarrow> vl_error option" where
  "vl_validate c =
     (if \<not> ownedTopic (lcTopic c) \<or> lcPollID c = zero16 \<or> lcPartitions c < 1 \<or> lcPartitions c > 256 \<or>
         time_sub (lcEndsAt c) (lcStartsAt c) \<noteq> minute \<or> is_zero_time (lcStartsAt c) \<or> lcAllowedMask c = 0 \<or>
         lcBatchSize c < 1 \<or> lcBatchSize c > 4096 \<or> lcQueuePerPartition c < 1 \<or> lcQueuePerPartition c > 8192 \<or>
         lcLinger c < millisecond \<or> lcLinger c > second \<or>
         lcTransactionTimeout c < second \<or> lcTransactionTimeout c > 30 * second
      then Some LogInvalid
      else if length (lcBrokers c) < 1 \<or> length (lcBrokers c) > 3 then Some LogInvalid
      else if \<not> list_all loopback_broker (lcBrokers c) then Some BrokerNotLoopback
      else None)"

definition vl_validChoice :: "vl_config \<Rightarrow> u32 \<Rightarrow> bool" where
  "vl_validChoice c choice \<longleftrightarrow>
     choice \<noteq> 0 \<and> choice AND NOT (lcAllowedMask c) = 0 \<and> (lcMultiple c \<or> onesCount32 choice = 1)"

text \<open>\<^verbatim>\<open>int32(h % uint64(c.Partitions))\<close>; an \<^verbatim>\<open>int\<close> converts to \<^verbatim>\<open>uint64\<close> modulo \<open>2 ^ 64\<close>.\<close>

definition vl_Partition :: "vl_config \<Rightarrow> byte list \<Rightarrow> int" where
  "vl_Partition c token =
     sint (ucast ((get_be (take 8 (sha256 (lcPollID c @ token))) :: u64) mod word_of_int (lcPartitions c)) :: u32)"

record vl_input =
  liToken :: "byte list"
  liChoice :: u32

record vl_receipt =
  lrPartition :: int
  lrOffset :: int
  lrIndex :: nat
  lrAdmittedAt :: time

record vl_position =
  lpPartition :: int
  lpOffset :: int
  lpIndex :: nat

record vl_vote =
  lvToken :: "byte list"
  lvChoice :: u32
  lvAdmittedAt :: time

record vl_manifest =
  lmTopic :: string
  lmPartitions :: "(int \<times> int) list"
  lmStartsAt :: time
  lmEndsAt :: time

definition no_vote :: vl_vote where
  "no_vote = \<lparr>lvToken = zero16, lvChoice = 0, lvAdmittedAt = jan1 1\<rparr>"

section \<open>Records\<close>

abbreviation "recordVote \<equiv> 1 :: byte"
abbreviation "recordBoot \<equiv> 2 :: byte"
abbreviation "recordClosed \<equiv> 3 :: byte"
abbreviation "recordBytes \<equiv> 80 :: nat"
abbreviation "frameVersion \<equiv> 2 :: byte"
abbreviation "frameEntryBytes \<equiv> 28 :: nat"
abbreviation "maxLogFrameVotes \<equiv> 4096 :: nat"

definition encodeRecord :: "vl_config \<Rightarrow> byte \<Rightarrow> vl_vote \<Rightarrow> byte list" where
  "encodeRecord c kind v =
     (let b = replicate recordBytes 0;
          b = b[0 := 1, 1 := kind];
          b = (if lcMultiple c then b[2 := 1] else b);
          b = poke 4 (put_be 4 (lvChoice v)) b;
          b = poke 8 (lcPollID c) b;
          b = poke 24 (lvToken v) b;
          b = (if \<not> is_zero_time (lvAdmittedAt v) then poke 40 (put_be 8 (unixNano (lvAdmittedAt v))) b else b);
          b = poke 48 (put_be 8 (unixNano (lcStartsAt c))) b;
          b = poke 56 (put_be 8 (unixNano (lcEndsAt c))) b;
          b = poke 64 (put_be 4 (word_of_int (lcPartitions c) :: u32)) b
      in poke 68 (put_be 4 (lcAllowedMask c)) b)"

definition decodeRecord :: "vl_config \<Rightarrow> byte list \<Rightarrow> vl_error + byte \<times> vl_vote" where
  "decodeRecord c b =
     (if length b \<noteq> recordBytes \<or> b ! 0 \<noteq> 1 \<or> b ! 1 < recordVote \<or> b ! 1 > recordClosed \<or> b ! 2 > 1 \<or> b ! 3 \<noteq> 0 \<or>
         (b ! 2 = 1) \<noteq> lcMultiple c \<or> subslice 8 24 b \<noteq> lcPollID c \<or>
         get_be (subslice 48 56 b) \<noteq> unixNano (lcStartsAt c) \<or> get_be (subslice 56 64 b) \<noteq> unixNano (lcEndsAt c) \<or>
         uint (get_be (subslice 64 68 b) :: u32) \<noteq> lcPartitions c \<or>
         get_be (subslice 68 72 b) \<noteq> lcAllowedMask c \<or> get_be (subslice 72 80 b) \<noteq> (0 :: u64)
      then Inl ConfigMismatch
      else let choice = get_be (subslice 4 8 b); token = subslice 24 40 b in
        if b ! 1 = recordVote then
          let at = timeOfNano (get_be (subslice 40 48 b)) in
          if token = zero16 \<or> \<not> vl_validChoice c choice \<or> at < lcStartsAt c \<or> \<not> at < lcEndsAt c
          then Inl BadJournalVote
          else Inr (b ! 1, \<lparr>lvToken = token, lvChoice = choice, lvAdmittedAt = at\<rparr>)
        else if token \<noteq> zero16 \<or> choice \<noteq> 0 \<or> get_be (subslice 40 48 b) \<noteq> (0 :: u64)
        then Inl BadControlRecord
        else Inr (b ! 1, \<lparr>lvToken = token, lvChoice = choice, lvAdmittedAt = jan1 1\<rparr>))"

text \<open>\<^verbatim>\<open>unknown(err)\<close> wraps every error as the unknown outcome.\<close>

definition vl_unknown :: "'e option \<Rightarrow> vl_error option" where
  "vl_unknown err = (case err of None \<Rightarrow> None | Some e \<Rightarrow> Some LogUnknown)"

section \<open>Frames\<close>

definition validFrameVote :: "vl_config \<Rightarrow> vl_vote \<Rightarrow> bool" where
  "validFrameVote c v \<longleftrightarrow>
     lvToken v \<noteq> zero16 \<and> vl_validChoice c (lvChoice v) \<and>
     \<not> lvAdmittedAt v < lcStartsAt c \<and> lvAdmittedAt v < lcEndsAt c"

definition frameVote :: "byte list \<Rightarrow> vl_vote" where
  "frameVote e = \<lparr>lvToken = take 16 e, lvChoice = get_be (subslice 16 20 e),
     lvAdmittedAt = timeOfNano (get_be (subslice 20 28 e))\<rparr>"

text \<open>The loop over the votes; \<open>i\<close> is the index of the first vote left.\<close>

fun encode_frame_entries :: "nat \<Rightarrow> vl_vote list \<Rightarrow> byte list \<Rightarrow> byte list" where
  "encode_frame_entries i [] b = b"
| "encode_frame_entries i (v # vs) b =
     (let at = recordBytes + i * frameEntryBytes;
          b = poke at (lvToken v) b;
          b = poke (at + 16) (put_be 4 (lvChoice v)) b;
          b = poke (at + 20) (put_be 8 (unixNano (lvAdmittedAt v))) b
      in encode_frame_entries (Suc i) vs b)"

definition encodeFrame :: "vl_config \<Rightarrow> vl_vote list \<Rightarrow> vl_error + byte list" where
  "encodeFrame c votes =
     (case vl_validate c of Some e \<Rightarrow> Inl e | None \<Rightarrow>
        if length votes < 1 \<or> length votes > maxLogFrameVotes then Inl FrameCountBounds
        else if \<not> list_all (validFrameVote c) votes then Inl BadFrameVote
        else let b = replicate (recordBytes + length votes * frameEntryBytes) 0;
               b = poke 0 (encodeRecord c recordBoot no_vote) b;
               b = b[0 := frameVersion, 1 := recordVote];
               b = poke 72 (put_be 4 (of_nat (length votes) :: u32)) b;
               b = poke 76 (put_be 4 (of_nat frameEntryBytes :: u32)) b
             in Inr (encode_frame_entries 0 votes b))"

definition frame_entry :: "byte list \<Rightarrow> nat \<Rightarrow> vl_vote" where
  "frame_entry b i = frameVote (take frameEntryBytes (drop (recordBytes + i * frameEntryBytes) b))"

text \<open>The visitor loop of a validated frame, over the indices left.\<close>

fun visit_frame ::
  "(nat \<Rightarrow> vl_vote \<Rightarrow> 's \<Rightarrow> 's \<times> vl_error option) \<Rightarrow> byte list \<Rightarrow> nat list \<Rightarrow> 's \<Rightarrow> 's \<times> vl_error option" where
  "visit_frame visit b [] s = (s, None)"
| "visit_frame visit b (i # is) s =
     (case visit i (frame_entry b i) s of
        (s, Some e) \<Rightarrow> (s, Some e)
      | (s, None) \<Rightarrow> visit_frame visit b is s)"

definition decodeFrame ::
  "vl_config \<Rightarrow> byte list \<Rightarrow> (nat \<Rightarrow> vl_vote \<Rightarrow> 's \<Rightarrow> 's \<times> vl_error option) option \<Rightarrow> 's
     \<Rightarrow> 's \<times> vl_error option" where
  "decodeFrame c b visit s =
     (if length b < recordBytes \<or> b ! 0 \<noteq> frameVersion \<or> b ! 1 \<noteq> recordVote then (s, Some BadFrameFormat)
      else let count = get_be (subslice 72 76 b) :: u32 in
        if count < 1 \<or> count > of_nat maxLogFrameVotes \<or>
           get_be (subslice 76 80 b) \<noteq> (of_nat frameEntryBytes :: u32) \<or>
           length b \<noteq> recordBytes + unat count * frameEntryBytes
        then (s, Some BadFrameCount)
        else let header = (take recordBytes b)[0 := 1, 1 := recordBoot];
                 header = poke 72 (replicate 8 0) header in
          case decodeRecord c header of
            Inl e \<Rightarrow> (s, Some e)
          | Inr _ \<Rightarrow>
              if \<not> list_all (\<lambda>i. validFrameVote c (frame_entry b i)) [0..<unat count] then (s, Some BadFrameVote)
              else case visit of
                None \<Rightarrow> (s, None)
              | Some f \<Rightarrow> visit_frame f b [0..<unat count] s)"

end
