(* ===== verification/Votelog_Wire.thy ===== *)
theory Votelog_Wire
  imports Votelog_Codec
begin

text \<open>
  The bytes of the Kafka journal's records and frames, as the concatenation of their
  fields: the encoders of \<open>Votelog_Codec\<close> produce them, its decoders read them back, and
  a record or a frame the decoders accept is one of them.
\<close>

section \<open>Records\<close>

definition vote_nanos :: "time \<Rightarrow> byte list" where
  "vote_nanos t = (if is_zero_time t then replicate 8 0 else put_be 8 (unixNano t))"

definition record_tail :: "vl_config \<Rightarrow> byte list" where
  "record_tail c = put_be 8 (unixNano (lcStartsAt c)) @ put_be 8 (unixNano (lcEndsAt c)) @
     put_be 4 (word_of_int (lcPartitions c) :: u32) @ put_be 4 (lcAllowedMask c)"

definition record_wire :: "vl_config \<Rightarrow> byte \<Rightarrow> vl_vote \<Rightarrow> byte list" where
  "record_wire c kind v =
     [1, kind, if lcMultiple c then 1 else 0, 0] @ put_be 4 (lvChoice v) @ lcPollID c @ lvToken v @
     vote_nanos (lvAdmittedAt v) @ record_tail c @ replicate 8 0"

lemma length_vote_nanos [simp]: "length (vote_nanos t) = 8"
  by (simp add: vote_nanos_def)

lemma length_record_tail [simp]: "length (record_tail c) = 24"
  by (simp add: record_tail_def)

lemma length_record_wire:
  "length (lcPollID c) = 16 \<Longrightarrow> length (lvToken v) = 16 \<Longrightarrow> length (record_wire c kind v) = 80"
  by (simp add: record_wire_def)

lemma poke_fill0:
  "k = length p \<Longrightarrow> length xs + m' = m \<Longrightarrow> poke k xs (p @ replicate m 0) = (p @ xs) @ replicate m' 0"
  using poke_fill [of k p xs m' m "[]"] by simp

lemma record_head:
  "(if multiple then (replicate 80 (0 :: byte))[0 := 1, 1 := kind, 2 := 1] else (replicate 80 0)[0 := 1, 1 := kind])
     = [1, kind, if multiple then 1 else 0, 0] @ replicate 76 0"
  by (simp add: numeral_eq_Suc)

lemma encodeRecord_wire:
  assumes "length (lcPollID c) = 16" and "length (lvToken v) = 16"
  shows "encodeRecord c kind v = record_wire c kind v"
proof -
  define p0 where "p0 = [1, kind, if lcMultiple c then 1 else 0, 0]"
  define p1 where "p1 = p0 @ put_be 4 (lvChoice v)"
  define p2 where "p2 = p1 @ lcPollID c"
  define p3 where "p3 = p2 @ lvToken v"
  define p4 where "p4 = p3 @ vote_nanos (lvAdmittedAt v)"
  define p5 where "p5 = p4 @ put_be 8 (unixNano (lcStartsAt c))"
  define p6 where "p6 = p5 @ put_be 8 (unixNano (lcEndsAt c))"
  define p7 where "p7 = p6 @ put_be 4 (word_of_int (lcPartitions c) :: u32)"
  note defs = p0_def p1_def p2_def p3_def p4_def p5_def p6_def p7_def
  have len: "length p0 = 4" "length p1 = 8" "length p2 = 24" "length p3 = 40" "length p4 = 48"
    "length p5 = 56" "length p6 = 64" "length p7 = 68" using assms by (simp_all add: defs)
  have 1: "poke 4 (put_be 4 (lvChoice v)) (p0 @ replicate 76 0) = p1 @ replicate 72 0"
    unfolding p1_def by (rule poke_fill0) (simp_all add: len)
  have 2: "poke 8 (lcPollID c) (p1 @ replicate 72 0) = p2 @ replicate 56 0"
    unfolding p2_def by (rule poke_fill0) (simp_all add: len assms)
  have 3: "poke 24 (lvToken v) (p2 @ replicate 56 0) = p3 @ replicate 40 0"
    unfolding p3_def by (rule poke_fill0) (simp_all add: len assms)
  have 4: "(if \<not> is_zero_time (lvAdmittedAt v) then poke 40 (put_be 8 (unixNano (lvAdmittedAt v))) (p3 @ replicate 40 0)
      else p3 @ replicate 40 0) = p4 @ replicate 32 0"
  proof (cases "is_zero_time (lvAdmittedAt v)")
    case True
    then show ?thesis using replicate_split [of 8 40 "0 :: byte"] by (simp add: p4_def vote_nanos_def)
  next
    case False
    then have "poke 40 (put_be 8 (unixNano (lvAdmittedAt v))) (p3 @ replicate 40 0) = p4 @ replicate 32 0"
      unfolding p4_def vote_nanos_def if_not_P [OF False] by (intro poke_fill0) (simp_all add: len)
    with False show ?thesis by simp
  qed
  have 5: "poke 48 (put_be 8 (unixNano (lcStartsAt c))) (p4 @ replicate 32 0) = p5 @ replicate 24 0"
    unfolding p5_def by (rule poke_fill0) (simp_all add: len)
  have 6: "poke 56 (put_be 8 (unixNano (lcEndsAt c))) (p5 @ replicate 24 0) = p6 @ replicate 16 0"
    unfolding p6_def by (rule poke_fill0) (simp_all add: len)
  have 7: "poke 64 (put_be 4 (word_of_int (lcPartitions c) :: u32)) (p6 @ replicate 16 0) = p7 @ replicate 12 0"
    unfolding p7_def by (rule poke_fill0) (simp_all add: len)
  have 8: "poke 68 (put_be 4 (lcAllowedMask c)) (p7 @ replicate 12 0)
      = (p7 @ put_be 4 (lcAllowedMask c)) @ replicate 8 0"
    by (rule poke_fill0) (simp_all add: len)
  have "record_wire c kind v = (p7 @ put_be 4 (lcAllowedMask c)) @ replicate 8 0"
    by (simp add: record_wire_def record_tail_def defs)
  then show ?thesis
    unfolding encodeRecord_def Let_def record_head p0_def [symmetric] 1 2 3 4 5 6 7 8 ..
qed

text \<open>Which records a journal of \<open>c\<close> may hold: an admitted vote, or a control record without content.\<close>

definition record_ok :: "vl_config \<Rightarrow> byte \<Rightarrow> vl_vote \<Rightarrow> bool" where
  "record_ok c kind v \<longleftrightarrow>
     (kind = recordVote \<and> length (lvToken v) = 16 \<and> nano_range (lvAdmittedAt v) \<and> validFrameVote c v) \<or>
     ((kind = recordBoot \<or> kind = recordClosed) \<and> v = no_vote)"

definition vl_wf :: "vl_config \<Rightarrow> bool" where
  "vl_wf c \<longleftrightarrow> length (lcPollID c) = 16 \<and> 0 \<le> lcPartitions c \<and> lcPartitions c < 2 ^ 32"

lemma vl_validate_bounds:
  assumes "vl_validate c = None"
  shows "1 \<le> lcPartitions c" "lcPartitions c \<le> 256" "lcEndsAt c = lcStartsAt c + minute"
    "1 \<le> lcBatchSize c" "lcBatchSize c \<le> 4096" "1 \<le> lcQueuePerPartition c" "lcQueuePerPartition c \<le> 8192"
    "lcPollID c \<noteq> zero16"
  using assms by (simp_all add: vl_validate_def time_sub_minute split: if_splits)

lemma vl_wf_validate: "vl_validate c = None \<Longrightarrow> length (lcPollID c) = 16 \<Longrightarrow> vl_wf c"
  using vl_validate_bounds(1,2) [of c] by (simp add: vl_wf_def)

lemma record_ok_token: "record_ok c kind v \<Longrightarrow> length (lvToken v) = 16"
  by (auto simp: record_ok_def no_vote_def)

lemma zero_time_not_nano: "is_zero_time t \<Longrightarrow> \<not> nano_range t"
  by (simp add: is_zero_time_def nano_range_def jan1_def)

lemma record_wire_fields:
  fixes kind
  assumes "length (lcPollID c) = 16" and "length (lvToken v) = 16"
  defines "b \<equiv> record_wire c kind v"
  shows "b ! 0 = 1" "b ! 1 = kind" "b ! 2 = (if lcMultiple c then 1 else 0)" "b ! 3 = 0"
    "subslice 4 8 b = put_be 4 (lvChoice v)" "subslice 8 24 b = lcPollID c" "subslice 24 40 b = lvToken v"
    "subslice 40 48 b = vote_nanos (lvAdmittedAt v)" "subslice 48 56 b = put_be 8 (unixNano (lcStartsAt c))"
    "subslice 56 64 b = put_be 8 (unixNano (lcEndsAt c))"
    "subslice 64 68 b = put_be 4 (word_of_int (lcPartitions c) :: u32)"
    "subslice 68 72 b = put_be 4 (lcAllowedMask c)" "subslice 72 80 b = replicate 8 0"
  using assms(1,2)
  by (simp_all add: b_def record_wire_def record_tail_def subslice_def numeral_eq_Suc)

lemma get_be_zeros: "get_be (replicate n 0) = 0"
  by (rule bit_word_eqI) (auto simp: bit_get_be)

lemma decodeRecord_wire:
  assumes wf: "vl_wf c" and ok: "record_ok c kind v"
  shows "decodeRecord c (record_wire c kind v) = Inr (kind, v)"
proof -
  have id: "length (lcPollID c) = 16" and p: "uint (word_of_int (lcPartitions c) :: u32) = lcPartitions c"
    using wf by (simp_all add: vl_wf_def uint_word_of_int)
  note tok = record_ok_token [OF ok]
  note f = record_wire_fields [OF id tok, of kind] length_record_wire [OF id tok, of kind]
  have z: "is_zero_time (jan1 1)" by (simp add: is_zero_time_def)
  have k: "\<not> kind < 1 \<and> \<not> kind > 3" using ok by (auto simp: record_ok_def)
  show ?thesis
  proof (cases "kind = recordVote")
    case True
    with ok have v: "validFrameVote c v" "nano_range (lvAdmittedAt v)" by (auto simp: record_ok_def)
    then have "\<not> is_zero_time (lvAdmittedAt v)" using zero_time_not_nano by blast
    with v True k show ?thesis
      unfolding decodeRecord_def f Let_def
      by (simp add: get_be_put_be p get_be_zeros vote_nanos_def timeOfNano_unixNano validFrameVote_def)
  next
    case False
    with ok have v: "v = no_vote" by (auto simp: record_ok_def)
    with False k z show ?thesis
      unfolding decodeRecord_def f Let_def
      by (simp add: get_be_put_be p get_be_zeros vote_nanos_def no_vote_def)
  qed
qed

lemma record_split:
  assumes "length b = 80"
  shows "b = [b ! 0, b ! 1, b ! 2, b ! 3] @ subslice 4 8 b @ subslice 8 24 b @ subslice 24 40 b @ subslice 40 48 b @
    subslice 48 56 b @ subslice 56 64 b @ subslice 64 68 b @ subslice 68 72 b @ subslice 72 80 b"
proof -
  have "[b ! 0, b ! 1, b ! 2, b ! 3] = subslice 0 4 b"
    using assms by (intro nth_equalityI) (auto simp: subslice_def numeral_eq_Suc less_Suc_eq)
  then show ?thesis
    using assms by (simp add: subslice_join subslice_all)
qed

lemma get_be_zero_bytes: "length b = 8 \<Longrightarrow> get_be b = (0 :: u64) \<Longrightarrow> b = replicate 8 0"
  using put_get8 [of b] by (simp add: put_be_def numeral_eq_Suc)

lemma byte_kinds:
  fixes k :: byte
  assumes "\<not> k < 1" "\<not> k > 3"
  shows "k = 1 \<or> k = 2 \<or> k = 3"
proof -
  have "unat k = 1 \<or> unat k = 2 \<or> unat k = 3"
    using assms by (auto simp: word_less_nat_alt)
  then show ?thesis by (simp add: word_unat_eq_iff)
qed

lemma byte_flag: "\<not> (k :: byte) > 1 \<Longrightarrow> k = 0 \<or> k = 1"
proof -
  assume "\<not> k > 1"
  then have "unat k = 0 \<or> unat k = 1" by (auto simp: word_less_nat_alt)
  then show ?thesis by (simp add: word_unat_eq_iff)
qed

lemma subslice_words:
  assumes "length b = n"
  shows "i + 4 \<le> n \<Longrightarrow> get_be (subslice i (i + 4) b) = (x :: u32) \<Longrightarrow> subslice i (i + 4) b = put_be 4 x"
    and "i + 8 \<le> n \<Longrightarrow> get_be (subslice i (i + 8) b) = (y :: u64) \<Longrightarrow> subslice i (i + 8) b = put_be 8 y"
  using assms put_get4 [of "subslice i (i + 4) b"] put_get8 [of "subslice i (i + 8) b"]
  by (auto simp: length_subslice)

lemma decodeRecord_exact:
  assumes wf: "length (lcPollID c) = 16" and ok: "decodeRecord c b = Inr (kind, v)"
  shows "record_ok c kind v" and "b = record_wire c kind v"
proof -
  have len: "length b = 80" and b0: "b ! 0 = 1" and k: "\<not> b ! 1 < 1" "\<not> b ! 1 > 3" and b2: "\<not> b ! 2 > 1"
    and b3: "b ! 3 = 0" and mult: "(b ! 2 = 1) = lcMultiple c" and id: "subslice 8 24 b = lcPollID c"
    and st: "get_be (subslice 48 56 b) = unixNano (lcStartsAt c)"
    and en: "get_be (subslice 56 64 b) = unixNano (lcEndsAt c)"
    and pa: "uint (get_be (subslice 64 68 b) :: u32) = lcPartitions c"
    and ma: "get_be (subslice 68 72 b) = lcAllowedMask c" and ze: "get_be (subslice 72 80 b) = (0 :: u64)"
    using ok by (auto simp: decodeRecord_def split: if_splits)
  have flag: "b ! 2 = (if lcMultiple c then 1 else 0)" using mult byte_flag [OF b2] by auto
  have pa': "get_be (subslice 64 68 b) = (word_of_int (lcPartitions c) :: u32)" using pa by (metis word_of_int_uint)
  have tail: "subslice 48 56 b @ subslice 56 64 b @ subslice 64 68 b @ subslice 68 72 b = record_tail c"
    and last: "subslice 72 80 b = replicate 8 0"
    using subslice_words(2) [OF len, of 48] subslice_words(2) [OF len, of 56] subslice_words(1) [OF len, of 64]
      subslice_words(1) [OF len, of 68] st en pa' ma get_be_zero_bytes [of "subslice 72 80 b"] ze len
    by (simp_all add: record_tail_def length_subslice)
  have choice: "subslice 4 8 b = put_be 4 (get_be (subslice 4 8 b) :: u32)"
    and at: "subslice 40 48 b = put_be 8 (get_be (subslice 40 48 b) :: u64)"
    using subslice_words(1) [OF len, of 4] subslice_words(2) [OF len, of 40] by simp_all
  have tok: "length (subslice 24 40 b) = 16" using len by (simp add: length_subslice)
  have kind: "kind = b ! 1" using ok by (auto simp: decodeRecord_def Let_def split: if_splits)
  have whole: "b = [1, kind, if lcMultiple c then 1 else 0, 0] @ subslice 4 8 b @ lcPollID c @ subslice 24 40 b @
      subslice 40 48 b @ record_tail c @ replicate 8 0"
    using record_split [OF len] unfolding b0 b3 flag id last kind [symmetric] tail [symmetric] by simp
  have "record_ok c kind v \<and> subslice 4 8 b = put_be 4 (lvChoice v) \<and> subslice 24 40 b = lvToken v \<and>
      subslice 40 48 b = vote_nanos (lvAdmittedAt v)"
  proof (cases "b ! 1 = recordVote")
    case True
    let ?at = "timeOfNano (get_be (subslice 40 48 b))"
    have v: "v = \<lparr>lvToken = subslice 24 40 b, lvChoice = get_be (subslice 4 8 b), lvAdmittedAt = ?at\<rparr>"
      and good: "subslice 24 40 b \<noteq> zero16" "vl_validChoice c (get_be (subslice 4 8 b))"
        "\<not> ?at < lcStartsAt c" "?at < lcEndsAt c"
      using ok True by (auto simp: decodeRecord_def Let_def split: if_splits)
    have "\<not> is_zero_time ?at" using zero_time_not_nano timeOfNano_range by blast
    then show ?thesis
      using v good kind True tok choice at timeOfNano_range
      by (simp add: record_ok_def validFrameVote_def vote_nanos_def)
  next
    case False
    then have v: "v = \<lparr>lvToken = subslice 24 40 b, lvChoice = get_be (subslice 4 8 b), lvAdmittedAt = jan1 1\<rparr>"
      and none: "subslice 24 40 b = zero16" "get_be (subslice 4 8 b) = (0 :: u32)" "get_be (subslice 40 48 b) = (0 :: u64)"
      using ok by (auto simp: decodeRecord_def Let_def split: if_splits)
    have z: "is_zero_time (jan1 1)" by (simp add: is_zero_time_def)
    have "subslice 40 48 b = replicate 8 0"
      using none(3) len by (intro get_be_zero_bytes) (simp_all add: length_subslice)
    then show ?thesis
      using v none kind False byte_kinds [OF k] choice z
      by (auto simp: record_ok_def no_vote_def vote_nanos_def)
  qed
  then show "record_ok c kind v" and "b = record_wire c kind v"
    using whole by (simp_all add: record_wire_def)
qed

end
