(* ===== verification/Votelog_Frames.thy ===== *)
theory Votelog_Frames
  imports Votelog_Wire
begin

text \<open>
  The frames of the Kafka journal as bytes: \<open>log_frame\<close> is what \<open>encodeFrame\<close> produces,
  and \<open>decodeFrame\<close> accepts these byte strings only, handing their votes to the visitor in
  order. An entry has the layout of the file journal's entries.
\<close>

definition log_entry :: "vl_vote \<Rightarrow> fl_vote" where
  "log_entry v = \<lparr>fvToken = lvToken v, fvChoice = lvChoice v, fvAdmittedAt = lvAdmittedAt v\<rparr>"

definition log_entry_ok :: "vl_config \<Rightarrow> vl_vote \<Rightarrow> bool" where
  "log_entry_ok c v \<longleftrightarrow> length (lvToken v) = 16 \<and> nano_range (lvAdmittedAt v) \<and> validFrameVote c v"

definition log_frame_ok :: "vl_config \<Rightarrow> vl_vote list \<Rightarrow> bool" where
  "log_frame_ok c votes \<longleftrightarrow> votes \<noteq> [] \<and> length votes \<le> 4096 \<and> list_all (log_entry_ok c) votes"

definition log_header :: "vl_config \<Rightarrow> nat \<Rightarrow> byte list" where
  "log_header c n =
     [2, 1, if lcMultiple c then 1 else 0, 0] @ replicate 4 0 @ lcPollID c @ zero16 @ replicate 8 0 @
     record_tail c @ put_be 4 (of_nat n :: u32) @ put_be 4 (28 :: u32)"

definition log_frame :: "vl_config \<Rightarrow> vl_vote list \<Rightarrow> byte list" where
  "log_frame c votes = log_header c (length votes) @ entries_wire (map log_entry votes)"

lemma frameVote_entry: "log_entry (frameVote e) = decodeEntry e"
  by (simp add: log_entry_def frameVote_def decodeEntry_def)

lemma log_entry_inj: "log_entry v = log_entry w \<Longrightarrow> v = w"
  by (simp add: log_entry_def)

lemma entries_ok: "list_all (log_entry_ok c) votes \<Longrightarrow> list_all entry_ok (map log_entry votes)"
  by (auto simp: list_all_iff log_entry_ok_def entry_ok_def log_entry_def)

lemma log_entry_width: "log_entry_ok c v \<Longrightarrow> length (entry_wire (log_entry v)) = 28"
  by (simp add: length_entry_wire log_entry_ok_def log_entry_def)

lemma frameVote_wire: "log_entry_ok c v \<Longrightarrow> frameVote (entry_wire (log_entry v)) = v"
  using frameVote_entry [of "entry_wire (log_entry v)"] decode_entry_wire [of "log_entry v"]
  by (intro log_entry_inj) (simp add: log_entry_ok_def entry_ok_def log_entry_def)

interpretation log_entries: fixed_codec "\<lambda>v. entry_wire (log_entry v)" frameVote "log_entry_ok c" 28
  by unfold_locales (simp_all add: frameVote_wire log_entry_width)

lemma entries_wire_map: "entries_wire (map log_entry votes) = concat (map (\<lambda>v. entry_wire (log_entry v)) votes)"
  by (simp add: entries_wire_def comp_def)

lemma length_log_header: "length (lcPollID c) = 16 \<Longrightarrow> length (log_header c n) = 80"
  by (simp add: log_header_def)

lemma length_log_frame:
  "length (lcPollID c) = 16 \<Longrightarrow> list_all (log_entry_ok c) votes \<Longrightarrow> length (log_frame c votes) = 80 + 28 * length votes"
  by (simp add: log_frame_def length_log_header length_entries_wire entries_ok)

section \<open>Encoding\<close>

lemma encode_frame_entries_wire:
  "\<forall>v \<in> set vs. length (lvToken v) = 16 \<Longrightarrow> length p = 80 + i * 28 \<Longrightarrow>
     encode_frame_entries i vs (p @ replicate (28 * length vs) 0) = p @ entries_wire (map log_entry vs)"
proof (induction vs arbitrary: i p)
  case Nil
  then show ?case by simp
next
  case (Cons v vs)
  let ?t = "lvToken v" and ?c = "put_be 4 (lvChoice v)" and ?n = "put_be 8 (unixNano (lvAdmittedAt v))"
  have tok: "length ?t = 16" using Cons.prems by simp
  have "poke (100 + i * 28) ?n (poke (96 + i * 28) ?c (poke (80 + i * 28) ?t
      (p @ replicate (28 * length (v # vs)) 0)))
    = (p @ entry_wire (log_entry v)) @ replicate (28 * length vs) 0"
    using poke_fill0 [of "80 + i * 28" p ?t "28 * length vs + 12" "28 * length (v # vs)"]
      poke_fill0 [of "96 + i * 28" "p @ ?t" ?c "28 * length vs + 8" "28 * length vs + 12"]
      poke_fill0 [of "100 + i * 28" "p @ ?t @ ?c" ?n "28 * length vs" "28 * length vs + 8"]
      tok Cons.prems(2)
    by (simp add: entry_wire_def log_entry_def)
  moreover have "length (p @ entry_wire (log_entry v)) = 80 + Suc i * 28"
    using tok Cons.prems(2) by (simp add: length_entry_wire log_entry_def)
  ultimately show ?case
    using Cons.IH [of "p @ entry_wire (log_entry v)" "Suc i"] Cons.prems(1)
    by (simp add: add.commute add.left_commute)
qed

lemma zero_put_be: "put_be n (0 :: 'a::len word) = replicate n 0"
  by (rule nth_equalityI) (simp_all add: put_be_def)

lemma boot_wire:
  "record_wire c kind no_vote = [1, kind, if lcMultiple c then 1 else 0, 0] @ replicate 4 0 @ lcPollID c @ zero16 @
     replicate 8 0 @ record_tail c @ replicate 8 0"
  by (simp add: record_wire_def no_vote_def zero_put_be vote_nanos_def is_zero_time_def)

lemma encodeFrame_wire:
  assumes "vl_validate c = None" and id: "length (lcPollID c) = 16" and ok: "log_frame_ok c votes"
  shows "encodeFrame c votes = Inr (log_frame c votes)"
proof -
  let ?n = "length votes"
  define h where "h = [2, 1, if lcMultiple c then 1 else 0, 0] @ replicate 4 0 @ lcPollID c @ zero16 @ replicate 8 0 @ record_tail c"
  have len: "length h = 72" by (simp add: h_def id)
  have tok: "length (lvToken no_vote) = 16" by (simp add: no_vote_def)
  have rep: "replicate (80 + ?n * 28) (0 :: byte) = replicate 80 0 @ replicate (28 * ?n) 0"
    by (simp add: replicate_add mult.commute)
  have "poke 0 (encodeRecord c recordBoot no_vote) (replicate (80 + ?n * 28) 0)
      = record_wire c recordBoot no_vote @ replicate (28 * ?n) 0"
    unfolding encodeRecord_wire [OF id tok] by (simp add: poke_def rep length_record_wire [OF id tok])
  also have "\<dots>[0 := frameVersion, 1 := recordVote] = h @ replicate (8 + 28 * ?n) 0"
    by (simp add: boot_wire h_def replicate_add)
  finally have 1: "(poke 0 (encodeRecord c recordBoot no_vote) (replicate (80 + ?n * 28) 0))[0 := frameVersion, 1 := recordVote]
      = h @ replicate (8 + 28 * ?n) 0" .
  have 2: "poke 72 (put_be 4 (of_nat ?n :: u32)) (h @ replicate (8 + 28 * ?n) 0)
      = (h @ put_be 4 (of_nat ?n :: u32)) @ replicate (4 + 28 * ?n) 0"
    by (rule poke_fill0) (simp_all add: len)
  have 3: "poke 76 (put_be 4 (of_nat frameEntryBytes :: u32)) ((h @ put_be 4 (of_nat ?n :: u32)) @ replicate (4 + 28 * ?n) 0)
      = log_header c ?n @ replicate (28 * ?n) 0"
    using poke_fill0 [of 76 "h @ put_be 4 (of_nat ?n :: u32)" "put_be 4 (28 :: u32)" "28 * ?n" "4 + 28 * ?n"] len
    by (simp add: log_header_def h_def)
  have "encode_frame_entries 0 votes (log_header c ?n @ replicate (28 * ?n) 0) = log_frame c votes"
    unfolding log_frame_def using ok length_log_header [OF id]
    by (intro encode_frame_entries_wire) (auto simp: log_frame_ok_def list_all_iff log_entry_ok_def)
  moreover have "list_all (validFrameVote c) votes" "\<not> ?n < 1" "\<not> ?n > 4096"
    using ok by (auto simp: log_frame_ok_def list_all_iff log_entry_ok_def Suc_le_eq)
  ultimately show ?thesis
    using assms(1) unfolding encodeFrame_def Let_def 1 2 3 by simp
qed

section \<open>Decoding\<close>

fun visit_list :: "(nat \<Rightarrow> vl_vote \<Rightarrow> 's \<Rightarrow> 's \<times> vl_error option) \<Rightarrow> (nat \<times> vl_vote) list \<Rightarrow> 's \<Rightarrow> 's \<times> vl_error option" where
  "visit_list f [] s = (s, None)"
| "visit_list f ((i, v) # vs) s =
     (case f i v s of (s, Some e) \<Rightarrow> (s, Some e) | (s, None) \<Rightarrow> visit_list f vs s)"

lemma visit_frame_list: "visit_frame f b is s = visit_list f (map (\<lambda>i. (i, frame_entry b i)) is) s"
  by (induction "is" arbitrary: s) (auto split: prod.splits option.splits)

lemma frame_entry_log:
  assumes id: "length (lcPollID c) = 16" and ok: "list_all (log_entry_ok c) votes" and i: "i < length votes"
  shows "frame_entry (log_frame c votes) i = votes ! i"
proof -
  let ?e = "concat (map (\<lambda>v. entry_wire (log_entry v)) votes)"
  have "take 28 (drop (80 + i * 28) (log_frame c votes)) = subslice (i * 28) ((i + 1) * 28) ?e"
    by (simp add: log_frame_def length_log_header [OF id] subslice_def entries_wire_map)
  with log_entries.table_nth [OF ok i, of "[]"] show ?thesis by (simp add: frame_entry_def)
qed

text \<open>The header the decoder checks is the one of a BOOT record.\<close>

lemma frame_header_record:
  assumes id: "length (lcPollID c) = 16" and len: "length b \<ge> 80" and b0: "b ! 0 = 2" and b1: "b ! 1 = 1"
  shows "poke 72 (replicate 8 0) ((take 80 b)[0 := 1, 1 := recordBoot]) = record_wire c recordBoot no_vote
    \<longleftrightarrow> take 72 b = take 72 (log_header c n)"
proof -
  let ?h = "(take 80 b)[0 := 1, 1 := recordBoot]"
  have cut: "take 72 (take 80 b) = take 72 b" by simp
  define r where "r = drop 2 (take 72 b)"
  have r: "take 72 b = 2 # 1 # r"
    using len b0 b1 Cons_nth_drop_Suc [of 0 "take 72 b"] Cons_nth_drop_Suc [of 1 "take 72 b"]
    by (simp add: r_def numeral_2_eq_2)
  have "poke 72 (replicate 8 0) ?h = take 72 ?h @ replicate 8 0" using len by (simp add: poke_def)
  also have "take 72 ?h = (take 72 b)[0 := 1, 1 := recordBoot]" by (simp add: take_update_swap)
  also have "\<dots> = 1 # 2 # r" by (simp add: r)
  finally have L: "poke 72 (replicate 8 0) ?h = (1 # 2 # r) @ replicate 8 0" .
  define q where "q = [if lcMultiple c then 1 else 0, 0] @ replicate 4 0 @ lcPollID c @ zero16 @ replicate 8 0 @ record_tail c"
  have "length q = 70" by (simp add: q_def id)
  moreover have "record_wire c recordBoot no_vote = (1 # 2 # q) @ replicate 8 0" by (simp add: boot_wire q_def)
  moreover have "log_header c n = (2 # 1 # q) @ put_be 4 (of_nat n :: u32) @ put_be 4 (28 :: u32)"
    by (simp add: log_header_def q_def)
  ultimately show ?thesis unfolding L r(1) by simp
qed

text \<open>Reading back: the frame of valid votes is accepted, and its votes are visited in order.\<close>

lemma decodeFrame_log:
  assumes wf: "vl_wf c" and ok: "log_frame_ok c votes"
  shows "decodeFrame c (log_frame c votes) visit s =
    (case visit of None \<Rightarrow> (s, None) | Some f \<Rightarrow> visit_list f (zip [0..<length votes] votes) s)"
proof -
  let ?n = "length votes" and ?b = "log_frame c votes" and ?w = "of_nat (length votes) :: u32"
  have id: "length (lcPollID c) = 16" using wf by (simp add: vl_wf_def)
  have all: "list_all (log_entry_ok c) votes" and n: "0 < ?n" "?n \<le> 4096" using ok by (auto simp: log_frame_ok_def)
  have len: "length ?b = 80 + 28 * ?n" by (rule length_log_frame [OF id all])
  have un: "unat ?w = ?n" using n by (simp add: unat_of_nat)
  then have w: "\<not> ?w < 1" "\<not> ?w > 4096" using n by (auto simp: word_less_nat_alt)
  have b: "?b ! 0 = 2" "?b ! 1 = 1" "subslice 72 76 ?b = put_be 4 ?w" "subslice 76 80 ?b = put_be 4 (28 :: u32)"
    by (simp_all add: log_frame_def log_header_def subslice_def id)
  have "take 72 ?b = take 72 (log_header c ?n)" by (simp add: log_frame_def length_log_header [OF id])
  then have "poke 72 (replicate 8 0) ((take 80 ?b)[0 := 1, 1 := recordBoot]) = record_wire c recordBoot no_vote"
    using frame_header_record [OF id _ b(1,2)] len by simp
  moreover have "decodeRecord c (record_wire c recordBoot no_vote) = Inr (recordBoot, no_vote)"
    by (rule decodeRecord_wire [OF wf]) (simp add: record_ok_def)
  ultimately have hdr: "decodeRecord c (poke 72 (replicate 8 0) ((take 80 ?b)[0 := 1, 1 := recordBoot])) = Inr (recordBoot, no_vote)"
    by simp
  have ent: "map (\<lambda>i. (i, frame_entry ?b i)) [0..<?n] = zip [0..<?n] votes"
    by (rule nth_equalityI) (simp_all add: frame_entry_log [OF id all])
  have val: "list_all (\<lambda>i. validFrameVote c (frame_entry ?b i)) [0..<?n]"
    using all by (simp add: list_all_iff frame_entry_log [OF id all] log_entry_ok_def)
  show ?thesis
    unfolding decodeFrame_def Let_def b hdr
    using w un len val by (cases visit) (simp_all add: get_be_put_be visit_frame_list ent)
qed

text \<open>What is accepted is the frame of some valid votes.\<close>

lemma decodeFrame_exact:
  fixes visit :: "(nat \<Rightarrow> vl_vote \<Rightarrow> 's \<Rightarrow> 's \<times> vl_error option) option"
  assumes id: "length (lcPollID c) = 16" and acc: "decodeFrame c b None () = ((), None)"
  shows "\<exists>votes. log_frame_ok c votes \<and> b = log_frame c votes"
proof -
  let ?w = "get_be (subslice 72 76 b) :: u32"
  define n where "n = unat ?w"
  have b: "length b \<ge> 80" "b ! 0 = 2" "b ! 1 = 1" and w: "\<not> ?w < 1" "\<not> ?w > 4096"
    and e28: "get_be (subslice 76 80 b) = (28 :: u32)" and len: "length b = 80 + n * 28"
    using acc by (auto simp: decodeFrame_def Let_def n_def split: if_splits)
  obtain r where dec: "decodeRecord c (poke 72 (replicate 8 0) ((take 80 b)[0 := 1, 1 := recordBoot])) = Inr r"
    and val: "list_all (\<lambda>i. validFrameVote c (frame_entry b i)) [0..<n]"
    using acc by (auto simp: decodeFrame_def Let_def n_def split: if_splits sum.splits)
  let ?h = "poke 72 (replicate 8 0) ((take 80 b)[0 := 1, 1 := recordBoot])"
  obtain k v where r: "r = (k, v)" by (cases r)
  note ex = decodeRecord_exact [OF id dec [unfolded r]]
  have "?h ! 1 = recordBoot" using b(1) by (simp add: poke_def nth_append)
  moreover have "record_wire c k v ! 1 = k" by (simp add: record_wire_def)
  ultimately have k: "k = recordBoot" using ex(2) by simp
  then have "v = no_vote" using ex(1) by (auto simp: record_ok_def)
  with ex(2) k have "?h = record_wire c recordBoot no_vote" by simp
  then have t72: "take 72 b = take 72 (log_header c n)"
    using frame_header_record [OF id b] by blast
  obtain es where es: "length es = n" "list_all entry_ok es" "drop 80 b = entries_wire es"
    using payload_decode [of "drop 80 b" n] len by auto
  define votes where "votes = map (\<lambda>e. \<lparr>lvToken = fvToken e, lvChoice = fvChoice e, lvAdmittedAt = fvAdmittedAt e\<rparr>) es"
  have entries_back: "map log_entry votes = es" by (simp add: votes_def comp_def log_entry_def map_idI)
  have "take 80 b = take 72 b @ subslice 72 76 b @ subslice 76 80 b"
    by (simp add: subslice_join take_subslice)
  also have "subslice 72 76 b = put_be 4 (of_nat n :: u32)"
    using subslice_words(1) [OF refl, of 72 b ?w] b(1) by (simp add: n_def)
  also have "subslice 76 80 b = put_be 4 (28 :: u32)"
    using subslice_words(1) [OF refl, of 76 b 28] b(1) e28 by simp
  finally have "take 80 b = log_header c n"
    unfolding t72 by (simp add: log_header_def id)
  then have whole: "b = log_frame c votes"
    using append_take_drop_id [of 80 b] es(1,3) entries_back by (simp add: log_frame_def votes_def)
  have n: "n \<noteq> 0" "n \<le> 4096" using w by (auto simp: n_def word_less_nat_alt)
  have "log_entry_ok c (votes ! i)" if i: "i < n" for i
  proof -
    have nz: "entry_ok (es ! i)" using es i by (simp add: list_all_iff)
    have e: "log_entry (votes ! i) = es ! i" using i es(1) by (simp add: votes_def log_entry_def)
    have "take 28 (drop (80 + i * 28) b) = entry_wire (es ! i)"
      using nth_chunks [of i n 28 "entries_wire es"] entry.table_chunks [OF es(2), of "[]"] i es(1,3)
      by (simp add: subslice_def entries_wire_def drop_drop [symmetric] add.commute [of 80])
    then have "frame_entry b i = votes ! i"
      using e nz decode_entry_wire [OF nz] frameVote_entry [of "entry_wire (es ! i)"]
      by (intro log_entry_inj) (simp add: frame_entry_def)
    moreover have "validFrameVote c (frame_entry b i)" using val i by (simp add: list_all_iff)
    ultimately have "validFrameVote c (votes ! i)" by simp
    moreover have "entry_ok (log_entry (votes ! i))" using nz e by simp
    ultimately show ?thesis by (simp add: log_entry_ok_def entry_ok_def log_entry_def)
  qed
  then have "log_frame_ok c votes"
    using n es(1) by (auto simp: log_frame_ok_def list_all_length votes_def)
  with whole show ?thesis by blast
qed

text \<open>Whatever the visitor, a frame is refused without a visit, or visited whole.\<close>

lemma decodeFrame_cases:
  "decodeFrame c b visit s =
     (case decodeFrame c b None () of
        (_, Some e) \<Rightarrow> (s, Some e)
      | (_, None) \<Rightarrow> (case visit of None \<Rightarrow> (s, None)
          | Some f \<Rightarrow> visit_frame f b [0..<unat (get_be (subslice 72 76 b) :: u32)] s))"
  by (simp add: decodeFrame_def Let_def split: sum.splits option.splits)

end
