(* ===== verification/Votelog_Audit.thy ===== *)
theory Votelog_Audit
  imports Votelog_Frames Ballot
begin

text \<open>
  Reading a Kafka journal back (\<^verbatim>\<open>internal/votelog/audit.go\<close>): \<^verbatim>\<open>scan\<close>,
  \<^verbatim>\<open>verifyFirstRecords\<close>, \<^verbatim>\<open>replay\<close>, \<^verbatim>\<open>Replay\<close> and \<^verbatim>\<open>Audit\<close>.

  The Kafka client is not part of the repository: what \<^verbatim>\<open>PollRecords\<close> hands out is the
  argument \<open>fetches\<close>, one value for each call with the context and fetch errors found after
  it. When the fetches end before every partition is finished the scan is still polling, and
  its result is \<open>None\<close>. A visitor is a function on a state of its caller.
\<close>

section \<open>Scanning\<close>

record kafka_record =
  krPartition :: int
  krOffset :: int
  krKey :: "byte list"
  krValue :: "byte list"
  krTransactional :: bool

record kafka_partition =
  kpPartition :: int
  kpLogStartOffset :: int
  kpRecords :: "kafka_record list"

record kafka_fetch =
  kfContextDone :: bool
  kfErrors :: "vl_error list"
  kfPartitions :: "kafka_partition list"

type_synonym 's record_visit = "kafka_record \<Rightarrow> 's \<Rightarrow> 's \<times> (vl_error + bool)"
type_synonym 's vote_visit = "vl_position \<Rightarrow> vl_vote \<Rightarrow> 's \<Rightarrow> 's \<times> vl_error option"

text \<open>
  The loop variables of \<^verbatim>\<open>scan\<close>: which partitions are finished, how many remain, and the
  state of the visitor. Indexing \<^verbatim>\<open>done\<close> outside its range is a panic.
\<close>

type_synonym 's scan_state = "bool list \<times> int \<times> 's"

fun scan_records :: "'s record_visit \<Rightarrow> kafka_record list \<Rightarrow> 's scan_state \<Rightarrow> 's scan_state \<times> vl_error option" where
  "scan_records visit [] st = (st, None)"
| "scan_records visit (r # rs) (fin, remaining, s) =
     (let p = nat (krPartition r) in
      if krPartition r < 0 \<or> p \<ge> length fin then ((fin, remaining, s), Some IndexPanic)
      else if fin ! p then scan_records visit rs (fin, remaining, s)
      else if \<not> krTransactional r then ((fin, remaining, s), Some NotTransactional)
      else case visit r s of
        (s, Inl e) \<Rightarrow> ((fin, remaining, s), Some e)
      | (s, Inr True) \<Rightarrow> scan_records visit rs (fin[p := True], remaining - 1, s)
      | (s, Inr False) \<Rightarrow> scan_records visit rs (fin, remaining, s))"

fun scan_partitions ::
  "vl_config \<Rightarrow> 's record_visit \<Rightarrow> kafka_partition list \<Rightarrow> 's scan_state \<Rightarrow> 's scan_state \<times> vl_error option" where
  "scan_partitions c visit [] st = (st, None)"
| "scan_partitions c visit (p # ps) st =
     (if kpPartition p < 0 \<or> kpPartition p \<ge> lcPartitions c then (st, Some UnexpectedPartition)
      else if kpLogStartOffset p > 0 then (st, Some PrefixExpired)
      else case scan_records visit (kpRecords p) st of
        (st, Some e) \<Rightarrow> (st, Some e)
      | (st, None) \<Rightarrow> scan_partitions c visit ps st)"

fun scan_fetches ::
  "vl_config \<Rightarrow> 's record_visit \<Rightarrow> kafka_fetch list \<Rightarrow> 's scan_state \<Rightarrow> ('s scan_state \<times> vl_error option) option" where
  "scan_fetches c visit fetches (fin, remaining, s) =
     (if \<not> remaining > 0 then Some ((fin, remaining, s), None)
      else case fetches of
        [] \<Rightarrow> None
      | f # fs \<Rightarrow>
          if kfContextDone f then Some ((fin, remaining, s), Some LogContextDone)
          else case kfErrors f of
            e # _ \<Rightarrow> Some ((fin, remaining, s), Some e)
          | [] \<Rightarrow>
              (case scan_partitions c visit (kfPartitions f) (fin, remaining, s) of
                 (st, Some e) \<Rightarrow> Some (st, Some e)
               | (st, None) \<Rightarrow> scan_fetches c visit fs st))"

declare scan_fetches.simps [simp del]

definition vl_scan ::
  "bool \<Rightarrow> vl_config \<Rightarrow> kafka_fetch list \<Rightarrow> 's record_visit \<Rightarrow> 's \<Rightarrow> ('s \<times> vl_error option) option" where
  "vl_scan client_fails c fetches visit s =
     (if client_fails then Some (s, Some ClientFailed)
      else case scan_fetches c visit fetches (replicate (nat (lcPartitions c)) False, lcPartitions c, s) of
        None \<Rightarrow> None
      | Some ((fin, remaining, s), e) \<Rightarrow> Some (s, e))"

section \<open>Verifying the first records\<close>

definition first_record_visit :: "vl_config \<Rightarrow> unit record_visit" where
  "first_record_visit c r s =
     (case decodeRecord c (krValue r) of
        Inl e \<Rightarrow> (s, Inl e)
      | Inr (kind, v) \<Rightarrow>
          if kind \<noteq> recordBoot \<or> length (krKey r) \<noteq> 0 then (s, Inl NoInitialConfig) else (s, Inr True))"

definition verifyFirstRecords :: "bool \<Rightarrow> vl_config \<Rightarrow> kafka_fetch list \<Rightarrow> vl_error option option" where
  "verifyFirstRecords client_fails c fetches =
     map_option snd (vl_scan client_fails c fetches (first_record_visit c) ())"

section \<open>Replay\<close>

text \<open>The state of \<^verbatim>\<open>replay\<close>: the offsets of the CLOSED records, the partitions with a BOOT, the visitor's.\<close>

type_synonym 's replay_state = "int list \<times> bool list \<times> 's"

definition frame_visit ::
  "vl_config \<Rightarrow> 's vote_visit option \<Rightarrow> kafka_record \<Rightarrow> nat \<Rightarrow> vl_vote \<Rightarrow> 's \<Rightarrow> 's \<times> vl_error option" where
  "frame_visit c visit r index v s =
     (if vl_Partition c (lvToken v) \<noteq> krPartition r then (s, Some FrameRouting)
      else case visit of
        None \<Rightarrow> (s, None)
      | Some f \<Rightarrow> f \<lparr>lpPartition = krPartition r, lpOffset = krOffset r, lpIndex = index\<rparr> v s)"

definition replay_frame ::
  "vl_config \<Rightarrow> int list option \<Rightarrow> 's vote_visit option \<Rightarrow> 's replay_state record_visit" where
  "replay_frame c barriers visit r st =
     (let (closed, seenBoot, s) = st; p = nat (krPartition r) in
      if \<not> seenBoot ! p \<or> closed ! p \<ge> 0 \<or> length (krKey r) \<noteq> 0 then (st, Inl FrameOutside)
      else if barriers \<noteq> None \<and> krOffset r \<ge> the barriers ! p then (st, Inl FrameAfterBarrier)
      else case decodeFrame c (krValue r) (Some (frame_visit c visit r)) s of
        (s, Some e) \<Rightarrow> ((closed, seenBoot, s), Inl e)
      | (s, None) \<Rightarrow> ((closed, seenBoot, s), Inr False))"

text \<open>The switch on the kind of a record that is not a frame.\<close>

definition replay_kind ::
  "vl_config \<Rightarrow> 's vote_visit option \<Rightarrow> kafka_record \<Rightarrow> byte \<Rightarrow> vl_vote \<Rightarrow> 's replay_state
     \<Rightarrow> 's replay_state \<times> vl_error option" where
  "replay_kind c visit r kind v st =
     (let (closed, seenBoot, s) = st; p = nat (krPartition r) in
      if kind = recordBoot then
        if length (krKey r) \<noteq> 0 then (st, Some LogInvalid)
        else ((closed, seenBoot[p := True], s), None)
      else if kind = recordVote then
        if closed ! p \<ge> 0 then (st, Some VoteAfterClosed)
        else if vl_Partition c (lvToken v) \<noteq> krPartition r \<or> krKey r \<noteq> lvToken v then (st, Some VoteRouting)
        else (case visit of
            None \<Rightarrow> (st, None)
          | Some f \<Rightarrow>
              (case f \<lparr>lpPartition = krPartition r, lpOffset = krOffset r, lpIndex = 0\<rparr> v s of
                 (s, e) \<Rightarrow> ((closed, seenBoot, s), e)))
      else if kind = recordClosed then
        if length (krKey r) \<noteq> 0 \<or> closed ! p \<ge> 0 then (st, Some RepeatedClosed)
        else ((closed[p := krOffset r], seenBoot, s), None)
      else (st, None))"

definition replay_visit ::
  "vl_config \<Rightarrow> int list option \<Rightarrow> 's vote_visit option \<Rightarrow> 's replay_state record_visit" where
  "replay_visit c barriers visit r st =
     (let p = nat (krPartition r) in
      if length (krValue r) > 0 \<and> krValue r ! 0 = frameVersion then replay_frame c barriers visit r st
      else case decodeRecord c (krValue r) of
        Inl e \<Rightarrow> (st, Inl e)
      | Inr (kind, v) \<Rightarrow>
          if \<not> fst (snd st) ! p \<and> kind \<noteq> recordBoot then (st, Inl NoInitialBarrier)
          else (case replay_kind c visit r kind v st of
            (st, Some e) \<Rightarrow> (st, Inl e)
          | (st, None) \<Rightarrow>
              (case barriers of
                 None \<Rightarrow> (st, Inr (kind = recordClosed))
               | Some bs \<Rightarrow>
                   if krOffset r > bs ! p then (st, Inl BarrierSkipped)
                   else if krOffset r = bs ! p then
                     if kind \<noteq> recordBoot then (st, Inl BarrierNotBoot) else (st, Inr True)
                   else (st, Inr False))))"

definition vl_replay ::
  "bool \<Rightarrow> vl_config \<Rightarrow> kafka_fetch list \<Rightarrow> int list option \<Rightarrow> 's vote_visit option \<Rightarrow> 's
     \<Rightarrow> (int list \<times> 's \<times> vl_error option) option" where
  "vl_replay client_fails c fetches barriers visit s =
     (let n = nat (lcPartitions c) in
      case vl_scan client_fails c fetches (replay_visit c barriers visit) (replicate n (-1), replicate n False, s) of
        None \<Rightarrow> None
      | Some ((closed, seenBoot, s), e) \<Rightarrow> Some (closed, s, e))"

definition manifest_of :: "vl_config \<Rightarrow> int list \<Rightarrow> vl_manifest" where
  "manifest_of c closed =
     \<lparr>lmTopic = lcTopic c, lmPartitions = zip (map int [0..<length closed]) closed,
      lmStartsAt = lcStartsAt c, lmEndsAt = lcEndsAt c\<rparr>"

definition vl_Replay ::
  "bool \<Rightarrow> vl_config \<Rightarrow> kafka_fetch list \<Rightarrow> 's vote_visit option \<Rightarrow> 's
     \<Rightarrow> ((vl_error + vl_manifest) \<times> 's) option" where
  "vl_Replay client_fails c fetches visit s =
     (case vl_validate c of Some e \<Rightarrow> Some (Inl e, s) | None \<Rightarrow>
        (case vl_replay client_fails c fetches None visit s of
           None \<Rightarrow> None
         | Some (closed, s, Some e) \<Rightarrow> Some (Inl e, s)
         | Some (closed, s, None) \<Rightarrow> Some (Inr (manifest_of c closed), s)))"

section \<open>The audit\<close>

record vl_audit =
  auCanonical :: "byte list \<rightharpoonup> vl_vote"
  auRecords :: "vl_position \<rightharpoonup> vl_vote"
  auTotal :: nat
  auCounts :: "nat list"

definition empty_audit :: vl_audit where
  "empty_audit = \<lparr>auCanonical = Map.empty, auRecords = Map.empty, auTotal = 0, auCounts = replicate 32 0\<rparr>"

text \<open>One more for each set bit of the choice.\<close>

definition count_bits :: "u32 \<Rightarrow> nat list \<Rightarrow> nat list" where
  "count_bits choice counts = map (\<lambda>i. if bit choice i then counts ! i + 1 else counts ! i) [0..<32]"

definition audit_visit :: "vl_audit vote_visit" where
  "audit_visit pos v a =
     (if auTotal a \<ge> 12000000 then (a, Some AuditLimit)
      else if auRecords a pos \<noteq> None then (a, Some DeliveredTwice)
      else let a = a\<lparr>auRecords := (auRecords a)(pos \<mapsto> v), auTotal := auTotal a + 1\<rparr> in
        if auCanonical a (lvToken v) = None
        then (a\<lparr>auCanonical := (auCanonical a)(lvToken v \<mapsto> v), auCounts := count_bits (lvChoice v) (auCounts a)\<rparr>, None)
        else (a, None))"

definition vl_Audit ::
  "bool \<Rightarrow> vl_config \<Rightarrow> kafka_fetch list \<Rightarrow> (vl_error + vl_manifest \<times> vl_audit) option" where
  "vl_Audit client_fails c fetches =
     (case vl_validate c of Some e \<Rightarrow> Some (Inl e) | None \<Rightarrow>
        (case vl_replay client_fails c fetches None (Some audit_visit) empty_audit of
           None \<Rightarrow> None
         | Some (closed, a, Some e) \<Rightarrow> Some (Inl e)
         | Some (closed, a, None) \<Rightarrow> Some (Inr (manifest_of c closed, a))))"

end
