(* ===== verification/Votelog_Replay.thy ===== *)
theory Votelog_Replay
  imports Votelog_Audit "HOL-Library.Sublist"
begin

text \<open>
  What a successful replay of the Kafka journal says about the journal: the records it
  consumed of each partition are a prefix of what the partition delivered, they follow the
  grammar BOOT (BOOT | votes)* CLOSED, and the visitor saw exactly their votes, in the order
  of the partition, whatever the interleaving of the partitions in the fetches.
\<close>

section \<open>The grammar of a partition\<close>

datatype log_item = Boot | Votes "(vl_position \<times> vl_vote) list" | ClosedItem

fun item_votes :: "log_item \<Rightarrow> (vl_position \<times> vl_vote) list" where
  "item_votes (Votes vs) = vs"
| "item_votes Boot = []"
| "item_votes ClosedItem = []"

definition items_votes :: "log_item list \<Rightarrow> (vl_position \<times> vl_vote) list" where
  "items_votes items = concat (map item_votes items)"

definition at_record :: "kafka_record \<Rightarrow> nat \<times> vl_vote \<Rightarrow> vl_position \<times> vl_vote" where
  "at_record r = (\<lambda>(i, v). (\<lparr>lpPartition = krPartition r, lpOffset = krOffset r, lpIndex = i\<rparr>, v))"

definition collect_entry :: "nat \<Rightarrow> vl_vote \<Rightarrow> (nat \<times> vl_vote) list \<Rightarrow> (nat \<times> vl_vote) list \<times> vl_error option" where
  "collect_entry i v acc = (acc @ [(i, v)], None)"

text \<open>The item a record stands for; \<open>None\<close> when no valid journal of \<open>c\<close> holds it.\<close>

definition log_item :: "vl_config \<Rightarrow> kafka_record \<Rightarrow> log_item option" where
  "log_item c r =
     (if length (krValue r) > 0 \<and> krValue r ! 0 = frameVersion then
        (case decodeFrame c (krValue r) (Some collect_entry) [] of
           (vs, None) \<Rightarrow>
             if krKey r = [] \<and> list_all (\<lambda>(i, v). vl_Partition c (lvToken v) = krPartition r) vs
             then Some (Votes (map (at_record r) vs)) else None
         | _ \<Rightarrow> None)
      else case decodeRecord c (krValue r) of
        Inl e \<Rightarrow> None
      | Inr (kind, v) \<Rightarrow>
          if kind = recordVote then
            if vl_Partition c (lvToken v) = krPartition r \<and> krKey r = lvToken v
            then Some (Votes [at_record r (0, v)]) else None
          else if krKey r \<noteq> [] then None
          else if kind = recordBoot then Some Boot else Some ClosedItem)"

definition open_log :: "bool \<Rightarrow> log_item list \<Rightarrow> bool" where
  "open_log booted items \<longleftrightarrow>
     (if booted then items \<noteq> [] \<and> hd items = Boot else items = []) \<and> ClosedItem \<notin> set items"

definition closed_log :: "log_item list \<Rightarrow> bool" where
  "closed_log items \<longleftrightarrow> items \<noteq> [] \<and> last items = ClosedItem \<and> open_log True (butlast items)"

section \<open>Visiting a list of votes\<close>

fun visit_all :: "'s vote_visit \<Rightarrow> (vl_position \<times> vl_vote) list \<Rightarrow> 's \<Rightarrow> 's \<times> vl_error option" where
  "visit_all f [] s = (s, None)"
| "visit_all f ((pos, v) # L) s =
     (case f pos v s of (s, Some e) \<Rightarrow> (s, Some e) | (s, None) \<Rightarrow> visit_all f L s)"

lemma visit_all_append:
  "visit_all f (L @ M) s = (case visit_all f L s of (s, Some e) \<Rightarrow> (s, Some e) | (s, None) \<Rightarrow> visit_all f M s)"
  by (induction f L s rule: visit_all.induct) (auto split: prod.splits option.splits)

lemma visit_list_collect: "visit_list collect_entry vs acc = (acc @ vs, None)"
  by (induction vs arbitrary: acc) (auto simp: collect_entry_def)

lemma visit_list_frame:
  "visit_list (frame_visit c (Some f) r) vs s = (s', None) \<longleftrightarrow>
     list_all (\<lambda>(i, v). vl_Partition c (lvToken v) = krPartition r) vs \<and>
     visit_all f (map (at_record r) vs) s = (s', None)"
  by (induction vs arbitrary: s) (auto simp: frame_visit_def at_record_def split: prod.splits option.splits)

lemma decodeFrame_ok:
  assumes wf: "vl_wf c" and ok: "decodeFrame c b (Some f) s = (s', None)"
  shows "\<exists>vs. decodeFrame c b (Some collect_entry) [] = (vs, None) \<and> visit_list f vs s = (s', None)"
proof -
  have id: "length (lcPollID c) = 16" using wf by (simp add: vl_wf_def)
  obtain u e where ue: "decodeFrame c b None () = (u, e)" by (cases "decodeFrame c b None ()")
  with ok have "e = None" using decodeFrame_cases [of c b "Some f" s] by (cases e) auto
  with ue obtain votes where "log_frame_ok c votes" "b = log_frame c votes"
    using decodeFrame_exact [OF id, of b] by auto
  with ok show ?thesis
    using decodeFrame_log [OF wf, of votes "Some f" s] decodeFrame_log [OF wf, of votes "Some collect_entry" "[]"]
    by (simp add: visit_list_collect)
qed

section \<open>One record\<close>

lemma replay_visit_item:
  assumes wf: "vl_wf c" and p: "p = nat (krPartition r)"
    and ok: "replay_visit c None (Some f) r (closed, seen, s) = ((closed', seen', s'), Inr b)"
  shows "\<exists>item. log_item c r = Some item \<and> visit_all f (item_votes item) s = (s', None) \<and>
    (case item of
       Boot \<Rightarrow> closed' = closed \<and> seen' = seen[p := True] \<and> \<not> b
     | Votes _ \<Rightarrow> closed' = closed \<and> seen' = seen \<and> seen ! p \<and> \<not> b
     | ClosedItem \<Rightarrow> closed' = closed[p := krOffset r] \<and> seen' = seen \<and> seen ! p \<and> b)"
proof (cases "length (krValue r) > 0 \<and> krValue r ! 0 = frameVersion")
  case True
  then have "replay_frame c None (Some f) r (closed, seen, s) = ((closed', seen', s'), Inr b)"
    using ok by (simp add: replay_visit_def Let_def)
  then have dec: "decodeFrame c (krValue r) (Some (frame_visit c (Some f) r)) s = (s', None)"
    and rest: "krKey r = []" "seen ! p" "closed' = closed" "seen' = seen" "\<not> b"
    by (auto simp: replay_frame_def Let_def p split: if_splits prod.splits option.splits)
  from decodeFrame_ok [OF wf dec] obtain vs where
    vs: "decodeFrame c (krValue r) (Some collect_entry) [] = (vs, None)"
      "visit_list (frame_visit c (Some f) r) vs s = (s', None)" by blast
  with True rest show ?thesis
    by (intro exI [of _ "Votes (map (at_record r) vs)"]) (simp add: log_item_def visit_list_frame)
next
  case False
  then obtain kind v where dec: "decodeRecord c (krValue r) = Inr (kind, v)"
    using ok by (auto simp: replay_visit_def Let_def split: sum.splits)
  have kinds: "kind = recordVote \<or> kind = recordBoot \<or> kind = recordClosed"
    using decodeRecord_exact(1) [OF _ dec] wf by (auto simp: record_ok_def vl_wf_def)
  from False dec ok have rk: "replay_kind c (Some f) r kind v (closed, seen, s) = ((closed', seen', s'), None)"
    and b: "b = (kind = recordClosed)" and seen: "kind \<noteq> recordBoot \<Longrightarrow> seen ! p"
    by (auto simp: replay_visit_def Let_def p split: if_splits prod.splits option.splits)
  consider "kind = recordBoot" | "kind = recordVote" | "kind = recordClosed" using kinds by blast
  then show ?thesis
  proof cases
    case 1
    with rk have "krKey r = []" "closed' = closed" "seen' = seen[p := True]" "s' = s"
      by (auto simp: replay_kind_def Let_def p split: if_splits)
    with 1 False dec b show ?thesis
      unfolding log_item_def by (intro exI [of _ Boot]) auto
  next
    case 2
    with rk have "vl_Partition c (lvToken v) = krPartition r" "krKey r = lvToken v" "closed' = closed" "seen' = seen"
      "f \<lparr>lpPartition = krPartition r, lpOffset = krOffset r, lpIndex = 0\<rparr> v s = (s', None)"
      by (auto simp: replay_kind_def Let_def p split: if_splits prod.splits)
    with 2 False dec b seen show ?thesis
      unfolding log_item_def by (intro exI [of _ "Votes [at_record r (0, v)]"]) (auto simp: at_record_def)
  next
    case 3
    with rk have "krKey r = []" "closed' = closed[p := krOffset r]" "seen' = seen" "s' = s"
      by (auto simp: replay_kind_def Let_def p split: if_splits)
    with 3 False dec b seen show ?thesis
      unfolding log_item_def by (intro exI [of _ ClosedItem]) auto
  qed
qed

lemma log_item_partition:
  assumes "log_item c r = Some item" and "pv \<in> set (item_votes item)"
  shows "lpPartition (fst pv) = krPartition r"
  using assms by (auto simp: log_item_def at_record_def split: if_splits sum.splits option.splits prod.splits)

section \<open>The loop of the scan\<close>

definition fetched :: "kafka_fetch list \<Rightarrow> kafka_record list" where
  "fetched fs = concat (map (\<lambda>f. concat (map kpRecords (kfPartitions f))) fs)"

definition delivered :: "nat \<Rightarrow> kafka_record list \<Rightarrow> kafka_record list" where
  "delivered p rs = filter (\<lambda>r. krPartition r = int p) rs"

definition votes_at :: "nat \<Rightarrow> (vl_position \<times> vl_vote) list \<Rightarrow> (vl_position \<times> vl_vote) list" where
  "votes_at p L = filter (\<lambda>pv. lpPartition (fst pv) = int p) L"

definition part_ok ::
  "vl_config \<Rightarrow> kafka_record list \<Rightarrow> (vl_position \<times> vl_vote) list \<Rightarrow> bool \<Rightarrow> int \<Rightarrow> bool \<Rightarrow> bool" where
  "part_ok c D L fin closed booted \<longleftrightarrow>
     (\<exists>rs items. map (log_item c) rs = map Some items \<and> items_votes items = L \<and>
        (if fin then prefix rs D \<and> closed_log items \<and> closed = krOffset (last rs)
         else rs = D \<and> open_log booted items \<and> closed = -1))"

definition scan_inv ::
  "vl_config \<Rightarrow> 's vote_visit \<Rightarrow> 's \<Rightarrow> kafka_record list \<Rightarrow> 's replay_state scan_state \<Rightarrow> bool" where
  "scan_inv c f s0 D = (\<lambda>(fin, remaining, closed, seen, s).
     length fin = nat (lcPartitions c) \<and> length closed = length fin \<and> length seen = length fin \<and>
     remaining = int (count_list fin False) \<and>
     (\<exists>L. visit_all f L s0 = (s, None) \<and>
        (\<forall>pv \<in> set L. 0 \<le> lpPartition (fst pv) \<and> lpPartition (fst pv) < lcPartitions c) \<and>
        (\<forall>p < length fin. part_ok c (delivered p D) (votes_at p L) (fin ! p) (closed ! p) (seen ! p))))"

lemma delivered_append: "delivered p (D @ rs) = delivered p D @ delivered p rs"
  by (simp add: delivered_def)

lemma votes_at_append: "votes_at p (L @ M) = votes_at p L @ votes_at p M"
  by (simp add: votes_at_def)

lemma votes_at_item:
  assumes "log_item c r = Some item"
  shows "votes_at p (item_votes item) = (if krPartition r = int p then item_votes item else [])"
  using log_item_partition [OF assms] by (auto simp: votes_at_def filter_id_conv filter_empty_conv)

lemma part_ok_fin: "part_ok c D L True closed booted \<Longrightarrow> part_ok c (D @ E) L True closed booted"
  unfolding part_ok_def by (auto dest: prefix_prefix)

lemma part_ok_next:
  assumes "part_ok c D L False closed booted" and "log_item c r = Some item"
  shows "item \<noteq> ClosedItem \<Longrightarrow> booted' = (booted \<or> item = Boot) \<Longrightarrow> booted \<or> item = Boot \<Longrightarrow>
      part_ok c (D @ [r]) (L @ item_votes item) False closed booted'"
    and "item = ClosedItem \<Longrightarrow> booted \<Longrightarrow> part_ok c (D @ [r]) (L @ item_votes item) True (krOffset r) booted'"
proof -
  obtain items where items: "map (log_item c) D = map Some items" "items_votes items = L" "open_log booted items"
      "closed = -1" using assms(1) by (auto simp: part_ok_def)
  have ext: "map (log_item c) (D @ [r]) = map Some (items @ [item])"
      "items_votes (items @ [item]) = L @ item_votes item"
    using items assms(2) by (simp_all add: items_votes_def)
  {
    assume "item \<noteq> ClosedItem" "booted' = (booted \<or> item = Boot)" "booted \<or> item = Boot"
    with items have "open_log booted' (items @ [item])"
      by (auto simp: open_log_def hd_append split: if_splits)
    with ext items(4) show "part_ok c (D @ [r]) (L @ item_votes item) False closed booted'"
      unfolding part_ok_def by (intro exI [of _ "D @ [r]"] exI [of _ "items @ [item]"]) simp
  next
    assume "item = ClosedItem" "booted"
    with items have "closed_log (items @ [item])" by (simp add: closed_log_def)
    with ext show "part_ok c (D @ [r]) (L @ item_votes item) True (krOffset r) booted'"
      unfolding part_ok_def by (intro exI [of _ "D @ [r]"] exI [of _ "items @ [item]"]) simp
  }
qed

lemma count_list_finish:
  "p < length fin \<Longrightarrow> \<not> fin ! p \<Longrightarrow> int (count_list (fin[p := True]) False) = int (count_list fin False) - 1"
proof (induction fin arbitrary: p)
  case (Cons a fin)
  then show ?case by (cases p) (auto simp: count_list_0_iff)
qed simp

lemma scan_inv_record:
  assumes wf: "vl_wf c" and inv: "scan_inv c f s0 D (fin, remaining, closed, seen, s)"
    and rng: "\<not> krPartition r < 0" "nat (krPartition r) < length fin" and fresh: "\<not> fin ! nat (krPartition r)"
    and vis: "replay_visit c None (Some f) r (closed, seen, s) = ((closed', seen', s'), Inr b)"
  shows "scan_inv c f s0 (D @ [r])
    (if b then fin[nat (krPartition r) := True] else fin, if b then remaining - 1 else remaining, closed', seen', s')"
proof -
  define p where "p = nat (krPartition r)"
  have pr: "krPartition r = int p" using rng(1) by (simp add: p_def)
  have pl: "p < length fin" and pf: "\<not> fin ! p" using rng(2) fresh by (simp_all add: p_def)
  obtain L where L: "visit_all f L s0 = (s, None)"
    and inr: "\<forall>pv \<in> set L. 0 \<le> lpPartition (fst pv) \<and> lpPartition (fst pv) < lcPartitions c"
    and parts: "\<And>q. q < length fin \<Longrightarrow> part_ok c (delivered q D) (votes_at q L) (fin ! q) (closed ! q) (seen ! q)"
    and len: "length fin = nat (lcPartitions c)" "length closed = length fin" "length seen = length fin"
    and rem: "remaining = int (count_list fin False)"
    using inv by (auto simp: scan_inv_def)
  from replay_visit_item [OF wf p_def vis] obtain item where item: "log_item c r = Some item"
    and va: "visit_all f (item_votes item) s = (s', None)"
    and upd: "case item of
       Boot \<Rightarrow> closed' = closed \<and> seen' = seen[p := True] \<and> \<not> b
     | Votes _ \<Rightarrow> closed' = closed \<and> seen' = seen \<and> seen ! p \<and> \<not> b
     | ClosedItem \<Rightarrow> closed' = closed[p := krOffset r] \<and> seen' = seen \<and> seen ! p \<and> b" by blast
  have L': "visit_all f (L @ item_votes item) s0 = (s', None)"
    using L va by (simp add: visit_all_append)
  have own: "part_ok c (delivered p D @ [r]) (votes_at p L @ item_votes item) b (closed' ! p) (seen' ! p)"
  proof -
    have "part_ok c (delivered p D) (votes_at p L) False (closed ! p) (seen ! p)"
      using parts [OF pl] pf by simp
    from part_ok_next [OF this item, of "seen' ! p"] show ?thesis
      using upd pl len by (cases item) auto
  qed
  have "part_ok c (delivered q (D @ [r])) (votes_at q (L @ item_votes item))
      ((if b then fin[p := True] else fin) ! q) (closed' ! q) (seen' ! q)" if q: "q < length fin" for q
  proof (cases "q = p")
    case True
    then show ?thesis
      using own pl pf pr by (cases b) (simp_all add: delivered_append votes_at_append votes_at_item [OF item] delivered_def)
  next
    case False
    then have "closed' ! q = closed ! q" "seen' ! q = seen ! q" using upd by (auto split: log_item.splits)
    with False parts [OF q] pr show ?thesis
      by (simp add: delivered_append votes_at_append votes_at_item [OF item] delivered_def)
  qed
  moreover have "length closed' = length fin" "length seen' = length fin" using upd len by (auto split: log_item.splits)
  moreover have "(if b then remaining - 1 else remaining) = int (count_list (if b then fin[p := True] else fin) False)"
    using rem count_list_finish [OF pl pf] by simp
  moreover have "\<forall>pv \<in> set (L @ item_votes item). 0 \<le> lpPartition (fst pv) \<and> lpPartition (fst pv) < lcPartitions c"
    using inr log_item_partition [OF item] pl len(1) pr by auto
  ultimately show ?thesis
    using L' len(1) unfolding scan_inv_def p_def [symmetric] by (auto intro!: exI [of _ "L @ item_votes item"])
qed

lemma scan_inv_skip:
  assumes "scan_inv c f s0 D (fin, remaining, closed, seen, s)" and "krPartition r = int p" and "fin ! p"
  shows "scan_inv c f s0 (D @ [r]) (fin, remaining, closed, seen, s)"
proof -
  obtain L where L: "visit_all f L s0 = (s, None)"
    and inr: "\<forall>pv \<in> set L. 0 \<le> lpPartition (fst pv) \<and> lpPartition (fst pv) < lcPartitions c"
    and parts: "\<And>q. q < length fin \<Longrightarrow> part_ok c (delivered q D) (votes_at q L) (fin ! q) (closed ! q) (seen ! q)"
    using assms(1) by (auto simp: scan_inv_def)
  have "part_ok c (delivered q (D @ [r])) (votes_at q L) (fin ! q) (closed ! q) (seen ! q)" if "q < length fin" for q
    using parts [OF that] assms(2,3) part_ok_fin by (cases "q = p") (auto simp: delivered_append delivered_def)
  with L inr assms(1) show ?thesis by (auto simp: scan_inv_def)
qed

lemma scan_records_inv:
  "vl_wf c \<Longrightarrow> scan_inv c f s0 D (fin, remaining, closed, seen, s) \<Longrightarrow>
     scan_records (replay_visit c None (Some f)) rs (fin, remaining, closed, seen, s) = (st', None) \<Longrightarrow>
     scan_inv c f s0 (D @ rs) st'"
proof (induction rs arbitrary: D fin remaining closed seen s)
  case Nil
  then show ?case by simp
next
  case (Cons r rs)
  let ?p = "nat (krPartition r)"
  have rng: "\<not> krPartition r < 0" "?p < length fin"
    using Cons.prems(3) by (auto simp: Let_def split: if_splits)
  show ?case
  proof (cases "fin ! ?p")
    case True
    have "scan_inv c f s0 (D @ [r]) (fin, remaining, closed, seen, s)"
      by (rule scan_inv_skip [OF Cons.prems(2), of r ?p]) (use True rng in auto)
    with Cons.IH [OF Cons.prems(1) this] Cons.prems(3) rng True show ?thesis by simp
  next
    case False
    obtain closed' seen' s' out where v: "replay_visit c None (Some f) r (closed, seen, s) = ((closed', seen', s'), out)"
      by (metis prod.exhaust)
    with Cons.prems(3) rng False obtain b where b: "out = Inr b"
      by (cases out) (auto simp: Let_def split: if_splits)
    note inv = scan_inv_record [OF Cons.prems(1,2) rng False v [unfolded b]]
    show ?thesis
    proof (cases b)
      case True
      with Cons.IH [OF Cons.prems(1) inv [unfolded if_P [OF True]]] Cons.prems(3) v b rng False show ?thesis
        by (simp add: Let_def split: if_splits)
    next
      case nb: False
      with Cons.IH [OF Cons.prems(1) inv [unfolded if_not_P [OF nb]]] Cons.prems(3) v b rng False show ?thesis
        by (simp add: Let_def split: if_splits)
    qed
  qed
qed

lemma scan_partitions_inv:
  "vl_wf c \<Longrightarrow> scan_inv c f s0 D st \<Longrightarrow>
     scan_partitions c (replay_visit c None (Some f)) ps st = (st', None) \<Longrightarrow>
     scan_inv c f s0 (D @ concat (map kpRecords ps)) st'"
proof (induction ps arbitrary: D st)
  case Nil
  then show ?case by simp
next
  case (Cons p ps)
  obtain fin remaining closed seen s where st: "st = (fin, remaining, closed, seen, s)" by (metis prod.exhaust)
  obtain st1 where "scan_records (replay_visit c None (Some f)) (kpRecords p) st = (st1, None)"
    and rest: "scan_partitions c (replay_visit c None (Some f)) ps st1 = (st', None)"
    using Cons.prems(3) by (auto split: if_splits prod.splits option.splits)
  with scan_records_inv [OF Cons.prems(1) Cons.prems(2) [unfolded st]] st
  have "scan_inv c f s0 (D @ kpRecords p) st1" by simp
  from Cons.IH [OF Cons.prems(1) this rest] show ?case by simp
qed

lemma scan_fetches_inv:
  assumes wf: "vl_wf c"
  shows "scan_inv c f s0 D st \<Longrightarrow> scan_fetches c (replay_visit c None (Some f)) fetches st = Some (st', None) \<Longrightarrow>
    \<exists>rest. prefix rest fetches \<and> scan_inv c f s0 (D @ fetched rest) st' \<and> fst (snd st') \<le> 0"
proof (induction fetches arbitrary: D st)
  case Nil
  then show ?case
    by (cases st) (auto simp: scan_fetches.simps fetched_def split: if_splits)
next
  case (Cons h fs)
  obtain fin remaining s where st: "st = (fin, remaining, s)" by (metis prod.exhaust)
  show ?case
  proof (cases "remaining > 0")
    case False
    with Cons.prems st show ?thesis
      by (intro exI [of _ "[]"]) (auto simp: scan_fetches.simps fetched_def)
  next
    case True
    then obtain st1 where "scan_partitions c (replay_visit c None (Some f)) (kfPartitions h) st = (st1, None)"
      and rest: "scan_fetches c (replay_visit c None (Some f)) fs st1 = Some (st', None)"
      using Cons.prems(2) st
      by (auto simp: scan_fetches.simps [of c _ "h # fs"] split: if_splits prod.splits option.splits list.splits)
    with scan_partitions_inv [OF wf Cons.prems(1)]
    have "scan_inv c f s0 (D @ concat (map kpRecords (kfPartitions h))) st1" by simp
    from Cons.IH [OF this rest] obtain r where "prefix r fs" "fst (snd st') \<le> 0"
      "scan_inv c f s0 ((D @ concat (map kpRecords (kfPartitions h))) @ fetched r) st'" by blast
    then show ?thesis by (intro exI [of _ "h # r"]) (simp add: fetched_def)
  qed
qed

end
