(* ===== verification/Votelog_Store.thy ===== *)
theory Votelog_Store
  imports Votelog_Replay
begin

text \<open>
  The live Kafka journal (\<^verbatim>\<open>internal/votelog/store.go\<close>, \<^verbatim>\<open>frame_submit.go\<close>): the store and
  its partition writers, \<^verbatim>\<open>Submit\<close>, \<^verbatim>\<open>SubmitFrame\<close>, the writer goroutine \<^verbatim>\<open>run\<close> with
  \<^verbatim>\<open>flush\<close> and \<^verbatim>\<open>commit\<close>, then \<^verbatim>\<open>Seal\<close>, \<^verbatim>\<open>Close\<close> and \<^verbatim>\<open>Metrics\<close>.

  A writer is the \<^verbatim>\<open>writer\<close> struct with the local variables of \<^verbatim>\<open>run\<close>. The Kafka client is
  not part of the repository: each call of a transaction takes its outcome as an argument,
  and \<open>vwLog\<close> is the partition's sequence of records in committed transactions. A transaction
  whose commit call succeeded is in it with the offsets the client reported; one whose commit
  call failed may or may not be (\<open>txLanded\<close>); one that failed earlier is not, as the writer
  closes its client and never uses the epoch again. \<open>vwAnswers\<close> are the values sent on the
  \<^verbatim>\<open>result\<close> channels.
\<close>

section \<open>State\<close>

record vl_pending =
  vpVote :: vl_vote
  vpFrame :: "vl_vote list"

definition pending_size :: "vl_pending \<Rightarrow> nat" where
  "pending_size p = (if vpFrame p \<noteq> [] then length (vpFrame p) else 1)"

text \<open>What \<^verbatim>\<open>Metrics\<close> reads of a failure: the stage of the transaction, and the kind of the cause.\<close>

record vl_failure =
  vfStage :: "string option"
  vfKafkaCode :: "int option"
  vfDeadline :: bool
  vfClientClosed :: bool

datatype l_phase = LIdle | LHold vl_pending | LRoom vl_pending | LCheck | LClose | LDrain | LDone

record vl_writer =
  vwPartition :: int
  vwClosing :: bool
  vwSealed :: bool
  vwFailed :: bool
  vwFailure :: "vl_failure option"
  vwEnd :: int
  vwJobs :: "vl_pending list"
  vwQueuedVotes :: int
  vwSealSignal :: bool
  vwPhase :: l_phase
  vwSealing :: bool
  vwBatch :: "vl_pending list"
  vwBatchVotes :: nat
  vwLog :: "kafka_record list"
  vwAnswers :: "(vl_pending \<times> (vl_error + vl_receipt)) list"

record vl_counters =
  ctAdmitted :: nat
  ctConfirmed :: nat
  ctTransactions :: nat
  ctTransactionRecords :: nat
  ctMaxBatch :: nat
  ctFailures :: nat
  ctCommittedFrames :: nat
  ctCommittedValueBytes :: nat
  ctCommittedKeyBytes :: nat

type_synonym vl_state = "vl_counters \<times> vl_writer"

text \<open>
  The writer \<^verbatim>\<open>New\<close> starts for a partition: \<open>closed\<close> is the offset of its CLOSED record, negative
  when it has none, and \<open>log\<close> what is committed, the new writer's BOOT record last.
\<close>

definition new_writer :: "int \<Rightarrow> int \<Rightarrow> kafka_record list \<Rightarrow> vl_writer" where
  "new_writer part closed log =
     \<lparr>vwPartition = part, vwClosing = closed \<ge> 0, vwSealed = closed \<ge> 0, vwFailed = False, vwFailure = None,
      vwEnd = (if closed \<ge> 0 then closed else -1), vwJobs = [], vwQueuedVotes = 0, vwSealSignal = False,
      vwPhase = LIdle, vwSealing = False, vwBatch = [], vwBatchVotes = 0, vwLog = log, vwAnswers = []\<rparr>"

definition zero_counters :: vl_counters where
  "zero_counters = \<lparr>ctAdmitted = 0, ctConfirmed = 0, ctTransactions = 0, ctTransactionRecords = 0, ctMaxBatch = 0,
     ctFailures = 0, ctCommittedFrames = 0, ctCommittedValueBytes = 0, ctCommittedKeyBytes = 0\<rparr>"

section \<open>Transactions\<close>

text \<open>The outcomes of the calls of one transaction: \<open>None\<close> is success, otherwise the cause of the failure.\<close>

record vl_transaction =
  txBegin :: "vl_failure option"
  txProduce :: "vl_failure option"
  txBeforeHook :: "vl_failure option"
  txEnd :: "vl_failure option"
  txAfterHook :: "vl_failure option"
  txOffset :: "nat \<Rightarrow> int"
  txLanded :: bool

definition at_stage :: "string \<Rightarrow> vl_failure \<Rightarrow> vl_failure option" where
  "at_stage stage e = Some (e\<lparr>vfStage := Some stage\<rparr>)"

definition with_offsets :: "(nat \<Rightarrow> int) \<Rightarrow> kafka_record list \<Rightarrow> kafka_record list" where
  "with_offsets offset records = map (\<lambda>(i, r). r\<lparr>krOffset := offset i\<rparr>) (zip [0..<length records] records)"

definition vl_commit ::
  "vl_transaction \<Rightarrow> kafka_record list \<Rightarrow> bool \<Rightarrow> vl_state \<Rightarrow> vl_state \<times> vl_failure option" where
  "vl_commit tx records runtime st =
     (let (ct, w) = st; landed = (ct, w\<lparr>vwLog := vwLog w @ with_offsets (txOffset tx) records\<rparr>) in
      case txBegin tx of Some e \<Rightarrow> (st, at_stage ''begin'' e) | None \<Rightarrow>
      (case txProduce tx of Some e \<Rightarrow> (st, at_stage ''produce'' e) | None \<Rightarrow>
      (case (if runtime then txBeforeHook tx else None) of Some e \<Rightarrow> (st, at_stage ''before_commit_hook'' e) | None \<Rightarrow>
      (case txEnd tx of Some e \<Rightarrow> (if txLanded tx then landed else st, at_stage ''commit'' e) | None \<Rightarrow>
        if \<not> runtime then (landed, None)
        else let (ct, w) = landed;
               ct = ct\<lparr>ctTransactions := ctTransactions ct + 1,
                 ctTransactionRecords := ctTransactionRecords ct + length records,
                 ctMaxBatch := max (ctMaxBatch ct) (length records)\<rparr>
             in case txAfterHook tx of
                  Some e \<Rightarrow> ((ct, w), at_stage ''after_commit_hook'' e)
                | None \<Rightarrow> ((ct, w), None)))))"

section \<open>Submitting\<close>

text \<open>
  \<^verbatim>\<open>Submit\<close> up to the enqueue; \<open>ctx_done\<close> is the caller's context, \<open>stopped\<close> what
  \<^verbatim>\<open>s.ctx.Err()\<close> showed, \<open>now\<close> the clock read under the mutex. The writer is the one of the
  token's partition. The capacity of \<^verbatim>\<open>jobs\<close> is \<^verbatim>\<open>QueuePerPartition\<close>.
\<close>

definition vl_Submit ::
  "vl_config \<Rightarrow> bool \<Rightarrow> bool \<Rightarrow> time \<Rightarrow> byte list \<Rightarrow> u32 \<Rightarrow> vl_state \<Rightarrow> vl_state \<times> (vl_error + vl_pending)" where
  "vl_Submit c ctx_done stopped now token choice st =
     (let (ct, w) = st in
      if token = zero16 \<or> \<not> vl_validChoice c choice then (st, Inl LogInvalid)
      else if ctx_done then (st, Inl LogUnknown)
      else if vwSealed w \<or> vwClosing w then (st, Inl LogClosed)
      else if vwFailed w \<or> stopped then (st, Inl LogUnknown)
      else if vwQueuedVotes w \<ge> lcQueuePerPartition c \<or> int (length (vwJobs w)) = lcQueuePerPartition c
      then (st, Inl LogBusy)
      else if now < lcStartsAt c then (st, Inl LogNotOpen)
      else if \<not> now < lcEndsAt c then (st, Inl LogClosed)
      else let p = \<lparr>vpVote = \<lparr>lvToken = token, lvChoice = choice, lvAdmittedAt = now\<rparr>, vpFrame = []\<rparr>
        in ((ct\<lparr>ctAdmitted := ctAdmitted ct + 1\<rparr>,
             w\<lparr>vwQueuedVotes := vwQueuedVotes w + 1, vwJobs := vwJobs w @ [p]\<rparr>), Inr p))"

definition frame_input_bad :: "vl_config \<Rightarrow> int \<Rightarrow> vl_input \<Rightarrow> bool" where
  "frame_input_bad c part inp \<longleftrightarrow>
     liToken inp = zero16 \<or> \<not> vl_validChoice c (liChoice inp) \<or> vl_Partition c (liToken inp) \<noteq> part"

definition vl_SubmitFrame ::
  "vl_config \<Rightarrow> bool \<Rightarrow> bool \<Rightarrow> time \<Rightarrow> vl_input list \<Rightarrow> vl_state \<Rightarrow> vl_state \<times> (vl_error + vl_pending)" where
  "vl_SubmitFrame c ctx_done stopped now inputs st =
     (let (ct, w) = st in
      if length inputs = 0 \<or> int (length inputs) > lcBatchSize c \<or> length inputs > 4096 then (st, Inl LogInvalid)
      else if \<exists>inp \<in> set inputs. frame_input_bad c (vl_Partition c (liToken (hd inputs))) inp then (st, Inl LogInvalid)
      else if ctx_done then (st, Inl LogUnknown)
      else if vwSealed w \<or> vwClosing w then (st, Inl LogClosed)
      else if vwFailed w \<or> stopped then (st, Inl LogUnknown)
      else if vwQueuedVotes w + int (length inputs) > lcQueuePerPartition c \<or>
        int (length (vwJobs w)) = lcQueuePerPartition c then (st, Inl LogBusy)
      else if now < lcStartsAt c then (st, Inl LogNotOpen)
      else if \<not> now < lcEndsAt c then (st, Inl LogClosed)
      else let votes = map (\<lambda>inp. \<lparr>lvToken = liToken inp, lvChoice = liChoice inp, lvAdmittedAt = now\<rparr>) inputs;
             p = \<lparr>vpVote = no_vote, vpFrame = votes\<rparr>
        in ((ct\<lparr>ctAdmitted := ctAdmitted ct + length votes\<rparr>,
             w\<lparr>vwQueuedVotes := vwQueuedVotes w + int (length votes), vwJobs := vwJobs w @ [p]\<rparr>), Inr p))"

text \<open>The final \<^verbatim>\<open>select\<close>: the writer's answer, or the caller's or the store's context first.\<close>

definition submit_result :: "(vl_error + vl_receipt) option \<Rightarrow> vl_error + vl_receipt" where
  "submit_result answer = (case answer of Some r \<Rightarrow> r | None \<Rightarrow> Inl LogUnknown)"

record vl_frame_receipt =
  vrPartition :: int
  vrOffset :: int
  vrCount :: nat
  vrAdmittedAt :: time

definition submit_frame_result :: "vl_pending \<Rightarrow> (vl_error + vl_receipt) option \<Rightarrow> vl_error + vl_frame_receipt" where
  "submit_frame_result p answer =
     (case answer of
        Some (Inr r) \<Rightarrow> Inr \<lparr>vrPartition = lrPartition r, vrOffset = lrOffset r, vrCount = length (vpFrame p),
          vrAdmittedAt = lrAdmittedAt r\<rparr>
      | Some (Inl e) \<Rightarrow> Inl e
      | None \<Rightarrow> Inl LogUnknown)"

section \<open>The writer\<close>

definition vl_answer :: "vl_error + vl_receipt \<Rightarrow> vl_pending list \<Rightarrow> vl_writer \<Rightarrow> vl_writer" where
  "vl_answer out ps w = w\<lparr>vwAnswers := vwAnswers w @ map (\<lambda>p. (p, out)) ps\<rparr>"

definition plain_record :: "int \<Rightarrow> byte list \<Rightarrow> byte list \<Rightarrow> kafka_record" where
  "plain_record part key value =
     \<lparr>krPartition = part, krOffset = 0, krKey = key, krValue = value, krTransactional = True\<rparr>"

definition pending_record :: "vl_config \<Rightarrow> int \<Rightarrow> vl_pending \<Rightarrow> vl_error + kafka_record" where
  "pending_record c part p =
     (if vpFrame p \<noteq> [] then
        (case encodeFrame c (vpFrame p) of Inl e \<Rightarrow> Inl e | Inr value \<Rightarrow> Inr (plain_record part [] value))
      else Inr (plain_record part (lvToken (vpVote p)) (encodeRecord c recordVote (vpVote p))))"

fun pending_records :: "vl_config \<Rightarrow> int \<Rightarrow> vl_pending list \<Rightarrow> vl_error + kafka_record list" where
  "pending_records c part [] = Inr []"
| "pending_records c part (p # ps) =
     (case pending_record c part p of Inl e \<Rightarrow> Inl e | Inr r \<Rightarrow>
        (case pending_records c part ps of Inl e \<Rightarrow> Inl e | Inr rs \<Rightarrow> Inr (r # rs)))"

definition pending_receipt :: "int \<Rightarrow> vl_pending \<Rightarrow> int \<Rightarrow> vl_receipt" where
  "pending_receipt part p offset =
     \<lparr>lrPartition = part, lrOffset = offset, lrIndex = 0,
      lrAdmittedAt = (if vpFrame p \<noteq> [] then lvAdmittedAt (hd (vpFrame p)) else lvAdmittedAt (vpVote p))\<rparr>"

text \<open>The counters of a committed batch.\<close>

definition count_committed :: "vl_pending list \<Rightarrow> kafka_record list \<Rightarrow> vl_counters \<Rightarrow> vl_counters" where
  "count_committed batch records ct =
     ct\<lparr>ctCommittedFrames := ctCommittedFrames ct + length (filter (\<lambda>p. vpFrame p \<noteq> []) batch),
        ctConfirmed := ctConfirmed ct + sum_list (map pending_size batch),
        ctCommittedValueBytes := ctCommittedValueBytes ct + sum_list (map (length \<circ> krValue) records),
        ctCommittedKeyBytes := ctCommittedKeyBytes ct + sum_list (map (length \<circ> krKey) records)\<rparr>"

text \<open>\<^verbatim>\<open>flush\<close> of the writer, on the batch it is given.\<close>

definition flush_batch ::
  "vl_config \<Rightarrow> vl_transaction \<Rightarrow> vl_pending list \<Rightarrow> vl_state \<Rightarrow> vl_state \<times> vl_failure option" where
  "flush_batch c tx batch st =
     (if batch = [] then (st, None)
      else case pending_records c (vwPartition (snd st)) batch of
        Inl e \<Rightarrow> (let (ct, w) = st in
          ((ct, vl_answer (Inl LogUnknown) batch w),
           Some \<lparr>vfStage = None, vfKafkaCode = None, vfDeadline = False, vfClientClosed = False\<rparr>))
      | Inr records \<Rightarrow>
          (case vl_commit tx records True st of
             ((ct, w), Some e) \<Rightarrow> ((ct, vl_answer (Inl LogUnknown) batch w), Some e)
           | ((ct, w), None) \<Rightarrow>
               ((count_committed batch records ct,
                 w\<lparr>vwAnswers := vwAnswers w @ map (\<lambda>(i, p). (p, Inr (pending_receipt (vwPartition w) p (txOffset tx i))))
                   (zip [0..<length batch] batch)\<rparr>), None)))"

definition vl_fail :: "vl_failure \<Rightarrow> vl_state \<Rightarrow> vl_state" where
  "vl_fail e st = (let (ct, w) = st in
     (ct\<lparr>ctFailures := ctFailures ct + 1\<rparr>, w\<lparr>vwFailed := True, vwFailure := Some e\<rparr>))"

text \<open>The closure \<^verbatim>\<open>flush\<close> of \<^verbatim>\<open>run\<close>: it empties the batch, and a failure stops the writer.\<close>

definition run_flush :: "vl_config \<Rightarrow> vl_transaction \<Rightarrow> vl_state \<Rightarrow> vl_state \<times> bool" where
  "run_flush c tx st =
     (let (ct, w) = st in
      case flush_batch c tx (vwBatch w) (ct, w\<lparr>vwBatch := [], vwBatchVotes := 0\<rparr>) of
        (st, Some e) \<Rightarrow> (vl_fail e st, False)
      | (st, None) \<Rightarrow> (st, True))"

definition to_phase :: "l_phase \<Rightarrow> vl_state \<Rightarrow> vl_state" where
  "to_phase ph st = (fst st, (snd st)\<lparr>vwPhase := ph\<rparr>)"

definition l_dequeue :: "vl_state \<Rightarrow> vl_state" where
  "l_dequeue st = (let (ct, w) = st in
     case vwJobs w of [] \<Rightarrow> st | p # q \<Rightarrow> (ct, w\<lparr>vwJobs := q, vwPhase := LHold p\<rparr>))"

text \<open>\<^verbatim>\<open>appendJob\<close>: room in the batch, then the credits and the batch, then the flush of a full batch.\<close>

definition l_room :: "vl_config \<Rightarrow> vl_transaction \<Rightarrow> vl_pending \<Rightarrow> vl_state \<Rightarrow> vl_state" where
  "l_room c tx p st =
     (if int (vwBatchVotes (snd st) + pending_size p) > lcBatchSize c
      then case run_flush c tx st of
          ((ct, w), False) \<Rightarrow> (ct, (vl_answer (Inl LogUnknown) [p] w)\<lparr>vwPhase := LDrain\<rparr>)
        | (st, True) \<Rightarrow> to_phase (LRoom p) st
      else to_phase (LRoom p) st)"

definition l_append :: "vl_pending \<Rightarrow> vl_state \<Rightarrow> vl_state" where
  "l_append p st = (let (ct, w) = st in
     (ct, w\<lparr>vwQueuedVotes := vwQueuedVotes w - int (pending_size p), vwBatch := vwBatch w @ [p],
            vwBatchVotes := vwBatchVotes w + pending_size p, vwPhase := LCheck\<rparr>))"

definition l_check :: "vl_config \<Rightarrow> vl_transaction \<Rightarrow> vl_state \<Rightarrow> vl_state" where
  "l_check c tx st =
     (if int (vwBatchVotes (snd st)) < lcBatchSize c then to_phase LIdle st
      else case run_flush c tx st of
          (st, False) \<Rightarrow> to_phase LDrain st
        | (st, True) \<Rightarrow> to_phase LIdle st)"

definition l_tick :: "vl_config \<Rightarrow> vl_transaction \<Rightarrow> vl_state \<Rightarrow> vl_state" where
  "l_tick c tx st =
     (case run_flush c tx st of (st, False) \<Rightarrow> to_phase LDrain st | (st, True) \<Rightarrow> st)"

definition l_seal :: "vl_state \<Rightarrow> vl_state" where
  "l_seal st = (let (ct, w) = st in (ct, w\<lparr>vwSealSignal := False, vwSealing := True\<rparr>))"

definition l_last :: "vl_config \<Rightarrow> vl_transaction \<Rightarrow> vl_state \<Rightarrow> vl_state" where
  "l_last c tx st =
     (case run_flush c tx st of (st, False) \<Rightarrow> to_phase LDrain st | (st, True) \<Rightarrow> to_phase LClose st)"

definition l_close :: "vl_config \<Rightarrow> vl_transaction \<Rightarrow> vl_state \<Rightarrow> vl_state" where
  "l_close c tx st =
     (case vl_commit tx [plain_record (vwPartition (snd st)) [] (encodeRecord c recordClosed no_vote)] False st of
        (st, Some e) \<Rightarrow> to_phase LDrain (vl_fail e st)
      | ((ct, w), None) \<Rightarrow> (ct, w\<lparr>vwSealed := True, vwEnd := txOffset tx 0, vwPhase := LDrain\<rparr>))"

text \<open>The deferred function of \<^verbatim>\<open>run\<close>: what is left of the batch, then of the queue, is answered as unknown.\<close>

definition l_drain :: "vl_state \<Rightarrow> vl_state" where
  "l_drain st = (let (ct, w) = st in
     case vwBatch w of
       p # b \<Rightarrow> (ct, (vl_answer (Inl LogUnknown) [p] w)\<lparr>vwBatch := b\<rparr>)
     | [] \<Rightarrow> (case vwJobs w of
         p # q \<Rightarrow> (ct, (vl_answer (Inl LogUnknown) [p] w)\<lparr>vwJobs := q\<rparr>)
       | [] \<Rightarrow> (ct, w\<lparr>vwPhase := LDone\<rparr>)))"

section \<open>Sealing and reporting\<close>

text \<open>
  \<^verbatim>\<open>waitUntil\<close> over the successive clock readings and context checks: \<open>True\<close> when the time was
  reached, \<open>False\<close> when the context ended first; \<open>None\<close> while it still waits.
\<close>

fun vl_waitUntil :: "time \<Rightarrow> (bool \<times> time \<times> bool) list \<Rightarrow> bool option" where
  "vl_waitUntil until [] = None"
| "vl_waitUntil until ((done_before, now, done_waiting) # rs) =
     (if done_before then Some False
      else if time_sub until now \<le> 0 then Some True
      else if done_waiting then Some False
      else vl_waitUntil until rs)"

text \<open>\<^verbatim>\<open>Seal\<close> for one writer, before it waits for the writer to end, and after.\<close>

datatype seal_outcome = SealOk | SealError vl_error | SealWait

definition seal_begin :: "vl_writer \<Rightarrow> vl_writer \<times> seal_outcome" where
  "seal_begin w =
     (if vwSealed w then (w, SealOk)
      else if vwFailed w then (w, SealError LogUnknown)
      else if \<not> vwClosing w then (w\<lparr>vwClosing := True, vwSealSignal := True\<rparr>, SealWait)
      else (w, SealWait))"

definition seal_end :: "vl_writer \<Rightarrow> vl_error option" where
  "seal_end w = (if vwSealed w then None else Some LogUnknown)"

text \<open>\<^verbatim>\<open>parallel\<close> returns the error that arrived first; which one it is is the argument \<open>pick\<close>.\<close>

definition parallel_error :: "nat \<Rightarrow> 'e option list \<Rightarrow> 'e option" where
  "parallel_error pick results =
     (case filter (\<lambda>r. r \<noteq> None) results of [] \<Rightarrow> None | errs \<Rightarrow> errs ! (pick mod length errs))"

definition seal_manifest :: "vl_config \<Rightarrow> vl_writer list \<Rightarrow> vl_manifest" where
  "seal_manifest c ws =
     \<lparr>lmTopic = lcTopic c, lmPartitions = map (\<lambda>w. (vwPartition w, vwEnd w)) ws,
      lmStartsAt = lcStartsAt c, lmEndsAt = lcEndsAt c\<rparr>"

definition Seal_result ::
  "vl_config \<Rightarrow> nat \<Rightarrow> vl_error option list \<Rightarrow> vl_writer list \<Rightarrow> vl_error + vl_manifest" where
  "Seal_result c pick results ws =
     (case parallel_error pick results of Some e \<Rightarrow> Inl e | None \<Rightarrow> Inr (seal_manifest c ws))"

text \<open>The counters of \<^verbatim>\<open>Metrics\<close>, then one entry for each cause found in a writer's failure.\<close>

definition failure_keys :: "vl_failure \<Rightarrow> (string \<times> int) list" where
  "failure_keys e =
     (case vfStage e of None \<Rightarrow> [] | Some stage \<Rightarrow> [(''failed_at_'' @ stage, 0)]) @
     (case vfKafkaCode e of None \<Rightarrow> [] | Some k \<Rightarrow> [(''failure_kafka_code_'', k)]) @
     (if vfDeadline e then [(''failure_deadline'', 0)] else []) @
     (if vfClientClosed e then [(''failure_client_closed'', 0)] else [])"

definition vl_Metrics :: "vl_counters \<Rightarrow> vl_writer list \<Rightarrow> (string \<times> int) \<Rightarrow> nat option" where
  "vl_Metrics ct ws =
     (let base = map_of
        [((''admitted'', 0), ctAdmitted ct), ((''committed_attempts'', 0), ctConfirmed ct),
         ((''transactions'', 0), ctTransactions ct), ((''transaction_records'', 0), ctTransactionRecords ct),
         ((''max_batch_records'', 0), ctMaxBatch ct), ((''failed_writers'', 0), ctFailures ct),
         ((''committed_frames'', 0), ctCommittedFrames ct), ((''committed_value_bytes'', 0), ctCommittedValueBytes ct),
         ((''committed_key_bytes'', 0), ctCommittedKeyBytes ct)];
        keys = concat (map (\<lambda>w. case vwFailure w of None \<Rightarrow> [] | Some e \<Rightarrow> failure_keys e) ws)
      in (\<lambda>k. if k \<in> set keys then Some (count_list keys k) else base k))"

section \<open>Interleaving\<close>

text \<open>The offsets a partition assigns: after every earlier one, and increasing within a transaction.\<close>

definition offsets_fresh :: "kafka_record list \<Rightarrow> (nat \<Rightarrow> int) \<Rightarrow> bool" where
  "offsets_fresh log offset \<longleftrightarrow> (\<forall>r \<in> set log. krOffset r < offset 0) \<and> (\<forall>i j. i < j \<longrightarrow> offset i < offset j)"

inductive vl_writer_step :: "vl_config \<Rightarrow> bool \<Rightarrow> vl_state \<Rightarrow> vl_state \<Rightarrow> bool" for c cancelled where
  dequeue: "vwPhase w = LIdle \<Longrightarrow> vwJobs w \<noteq> [] \<Longrightarrow> vl_writer_step c cancelled (ct, w) (l_dequeue (ct, w))"
| room: "vwPhase w = LHold p \<Longrightarrow> offsets_fresh (vwLog w) (txOffset tx) \<Longrightarrow>
    vl_writer_step c cancelled (ct, w) (l_room c tx p (ct, w))"
| append: "vwPhase w = LRoom p \<Longrightarrow> vl_writer_step c cancelled (ct, w) (l_append p (ct, w))"
| check: "vwPhase w = LCheck \<Longrightarrow> offsets_fresh (vwLog w) (txOffset tx) \<Longrightarrow>
    vl_writer_step c cancelled (ct, w) (l_check c tx (ct, w))"
| tick: "vwPhase w = LIdle \<Longrightarrow> \<not> vwSealing w \<Longrightarrow> offsets_fresh (vwLog w) (txOffset tx) \<Longrightarrow>
    vl_writer_step c cancelled (ct, w) (l_tick c tx (ct, w))"
| seal: "vwPhase w = LIdle \<Longrightarrow> \<not> vwSealing w \<Longrightarrow> vwSealSignal w \<Longrightarrow>
    vl_writer_step c cancelled (ct, w) (l_seal (ct, w))"
| last: "vwPhase w = LIdle \<Longrightarrow> vwSealing w \<Longrightarrow> vwJobs w = [] \<Longrightarrow> offsets_fresh (vwLog w) (txOffset tx) \<Longrightarrow>
    vl_writer_step c cancelled (ct, w) (l_last c tx (ct, w))"
| close: "vwPhase w = LClose \<Longrightarrow> offsets_fresh (vwLog w) (txOffset tx) \<Longrightarrow>
    vl_writer_step c cancelled (ct, w) (l_close c tx (ct, w))"
| cancel: "vwPhase w = LIdle \<Longrightarrow> \<not> vwSealing w \<Longrightarrow> cancelled \<Longrightarrow>
    vl_writer_step c cancelled (ct, w) (to_phase LDrain (ct, w))"
| drain: "vwPhase w = LDrain \<Longrightarrow> vl_writer_step c cancelled (ct, w) (l_drain (ct, w))"

text \<open>The store: its configuration, its context, the counters and the writers, one for each partition.\<close>

record vl_store =
  vsCfg :: vl_config
  vsCancelled :: bool
  vsCounters :: vl_counters
  vsWriters :: "vl_writer list"

definition set_writer :: "nat \<Rightarrow> vl_state \<Rightarrow> vl_store \<Rightarrow> vl_store" where
  "set_writer i st s = s\<lparr>vsCounters := fst st, vsWriters := (vsWriters s)[i := snd st]\<rparr>"

definition get_writer :: "nat \<Rightarrow> vl_store \<Rightarrow> vl_state" where
  "get_writer i s = (vsCounters s, vsWriters s ! i)"

inductive vl_step :: "vl_store \<Rightarrow> vl_store \<Rightarrow> bool" where
  run: "i < length (vsWriters s) \<Longrightarrow> vl_writer_step (vsCfg s) (vsCancelled s) (get_writer i s) st \<Longrightarrow>
    vl_step s (set_writer i st s)"
| submit: "i = nat (vl_Partition (vsCfg s) token) \<Longrightarrow> length token = 16 \<Longrightarrow> (stopped \<longrightarrow> vsCancelled s) \<Longrightarrow>
    vl_step s (set_writer i (fst (vl_Submit (vsCfg s) ctx_done stopped now token choice (get_writer i s))) s)"
| submit_frame: "inputs \<noteq> [] \<Longrightarrow> i = nat (vl_Partition (vsCfg s) (liToken (hd inputs))) \<Longrightarrow>
    \<forall>inp \<in> set inputs. length (liToken inp) = 16 \<Longrightarrow> (stopped \<longrightarrow> vsCancelled s) \<Longrightarrow>
    vl_step s (set_writer i (fst (vl_SubmitFrame (vsCfg s) ctx_done stopped now inputs (get_writer i s))) s)"
| seal: "i < length (vsWriters s) \<Longrightarrow> vl_waitUntil (lcEndsAt (vsCfg s)) readings = Some True \<Longrightarrow>
    vl_step s (set_writer i (vsCounters s, fst (seal_begin (vsWriters s ! i))) s)"
| close: "vl_step s (s\<lparr>vsCancelled := True\<rparr>)"

end
