(* ===== verification/Votelog_Store_Inv.thy ===== *)
theory Votelog_Store_Inv
  imports Votelog_Store
begin

text \<open>
  The invariant of the live Kafka journal: the queue and the batch within their bounds,
  every committed record a valid item of the partition's journal, every receipt the position
  of a committed record that holds the submitted votes, and nothing committed after CLOSED.
\<close>

section \<open>Committed records\<close>

definition store_cfg_ok :: "vl_config \<Rightarrow> bool" where
  "store_cfg_ok c \<longleftrightarrow> vl_validate c = None \<and> length (lcPollID c) = 16 \<and> nano_range (lcStartsAt c) \<and> nano_range (lcEndsAt c)"

definition pending_votes :: "vl_pending \<Rightarrow> (nat \<times> vl_vote) list" where
  "pending_votes p = (if vpFrame p \<noteq> [] then zip [0..<length (vpFrame p)] (vpFrame p) else [(0, vpVote p)])"

definition pending_ok :: "vl_config \<Rightarrow> int \<Rightarrow> vl_pending \<Rightarrow> bool" where
  "pending_ok c part p \<longleftrightarrow>
     (\<forall>(i, v) \<in> set (pending_votes p). log_entry_ok c v \<and> vl_Partition c (lvToken v) = part) \<and>
     length (vpFrame p) \<le> 4096 \<and> int (pending_size p) \<le> lcBatchSize c"

lemma pending_votes_frame: "vpFrame p \<noteq> [] \<Longrightarrow> (\<forall>(i, v) \<in> set (pending_votes p). P v) \<longleftrightarrow> list_all P (vpFrame p)"
  by (auto simp: pending_votes_def set_zip list_all_length)

lemma pending_record_item:
  assumes cfg: "store_cfg_ok c" and ok: "pending_ok c part p"
  shows "\<exists>r. pending_record c part p = Inr r \<and> (\<forall>off. krPartition (r\<lparr>krOffset := off\<rparr>) = part \<and>
    krTransactional (r\<lparr>krOffset := off\<rparr>) \<and>
    log_item c (r\<lparr>krOffset := off\<rparr>) = Some (Votes (map (at_record (r\<lparr>krOffset := off\<rparr>)) (pending_votes p))))"
proof -
  have val: "vl_validate c = None" and id: "length (lcPollID c) = 16" using cfg by (simp_all add: store_cfg_ok_def)
  note wf = vl_wf_validate [OF val id]
  show ?thesis
  proof (cases "vpFrame p = []")
    case False
    let ?vs = "vpFrame p"
    have fo: "log_frame_ok c ?vs" and route: "list_all (\<lambda>v. vl_Partition c (lvToken v) = part) ?vs"
      using ok False pending_votes_frame [OF False, of "log_entry_ok c"]
        pending_votes_frame [OF False, of "\<lambda>v. vl_Partition c (lvToken v) = part"]
      by (auto simp: pending_ok_def log_frame_ok_def)
    have "log_frame c ?vs ! 0 = 2" "log_frame c ?vs \<noteq> []" by (simp_all add: log_frame_def log_header_def)
    moreover have "list_all (\<lambda>(i, v). vl_Partition c (lvToken v) = part) (zip [0..<length ?vs] ?vs)"
      using route by (auto simp: list_all_iff set_zip list_all_length)
    ultimately show ?thesis
      using False encodeFrame_wire [OF val id fo] decodeFrame_log [OF wf fo, of "Some collect_entry" "[]"]
      by (simp add: pending_record_def plain_record_def log_item_def visit_list_collect pending_votes_def)
  next
    case True
    let ?v = "vpVote p"
    have le: "log_entry_ok c ?v" "vl_Partition c (lvToken ?v) = part"
      using ok True by (auto simp: pending_ok_def pending_votes_def)
    then have ro: "record_ok c 1 ?v" by (simp add: record_ok_def log_entry_ok_def)
    note w = encodeRecord_wire [OF id record_ok_token [OF ro], of 1] decodeRecord_wire [OF wf ro]
    have "record_wire c 1 ?v ! 0 = 1" "record_wire c 1 ?v \<noteq> []" by (simp_all add: record_wire_def)
    with w le True show ?thesis
      by (simp add: pending_record_def plain_record_def log_item_def pending_votes_def at_record_def)
  qed
qed

lemma pending_records_items:
  assumes cfg: "store_cfg_ok c"
  shows "\<forall>p \<in> set ps. pending_ok c part p \<Longrightarrow> \<exists>rs. pending_records c part ps = Inr rs \<and> length rs = length ps \<and>
    (\<forall>i < length ps. \<forall>off. let r = (rs ! i)\<lparr>krOffset := off\<rparr> in krPartition r = part \<and> krTransactional r \<and>
       log_item c r = Some (Votes (map (at_record r) (pending_votes (ps ! i)))))"
proof (induction ps)
  case Nil
  then show ?case by simp
next
  case (Cons p ps)
  then obtain rs where rs: "pending_records c part ps = Inr rs" "length rs = length ps"
    "\<forall>i < length ps. \<forall>off. let r = (rs ! i)\<lparr>krOffset := off\<rparr> in krPartition r = part \<and> krTransactional r \<and>
       log_item c r = Some (Votes (map (at_record r) (pending_votes (ps ! i))))" by auto
  obtain r where r: "pending_record c part p = Inr r" "\<forall>off. krPartition (r\<lparr>krOffset := off\<rparr>) = part \<and>
    krTransactional (r\<lparr>krOffset := off\<rparr>) \<and>
    log_item c (r\<lparr>krOffset := off\<rparr>) = Some (Votes (map (at_record (r\<lparr>krOffset := off\<rparr>)) (pending_votes p)))"
    using pending_record_item [OF cfg, of part p] Cons.prems by auto
  show ?case
    using rs r by (intro exI [of _ "r # rs"]) (auto simp: Let_def nth_Cons split: nat.splits)
qed

section \<open>The log of a writer\<close>

text \<open>A receipt points at a committed record that holds the votes of its submission.\<close>

definition receipt_ok :: "vl_config \<Rightarrow> int \<Rightarrow> kafka_record list \<Rightarrow> vl_pending \<times> (vl_error + vl_receipt) \<Rightarrow> bool" where
  "receipt_ok c part log ans = (case ans of
     (p, Inl e) \<Rightarrow> True
   | (p, Inr rc) \<Rightarrow> lrPartition rc = part \<and> (\<exists>r \<in> set log. krOffset r = lrOffset rc \<and>
       log_item c r = Some (Votes (map (at_record r) (pending_votes p)))))"

text \<open>
  A log is open, or holds a CLOSED record at the given offset that only recovery BOOT records
  follow.
\<close>

definition ended_log :: "int \<Rightarrow> kafka_record list \<Rightarrow> log_item list \<Rightarrow> bool" where
  "ended_log e log items \<longleftrightarrow> (\<exists>n. n \<le> length log \<and> closed_log (take n items) \<and> set (drop n items) \<subseteq> {Boot} \<and>
     e = krOffset (last (take n log)))"

definition log_ok :: "vl_config \<Rightarrow> int \<Rightarrow> int option \<Rightarrow> kafka_record list \<Rightarrow> bool" where
  "log_ok c part closed log \<longleftrightarrow>
     sorted_wrt (<) (map krOffset log) \<and> (\<forall>r \<in> set log. krPartition r = part \<and> krTransactional r) \<and>
     (\<exists>items. map (log_item c) log = map Some items \<and>
        (case closed of None \<Rightarrow> open_log True items | Some e \<Rightarrow> ended_log e log items))"

lemma receipt_ok_append: "receipt_ok c part log ans \<Longrightarrow> receipt_ok c part (log @ log2) ans"
  by (auto simp: receipt_ok_def split: prod.splits sum.splits)

lemma open_log_votes: "open_log True items \<Longrightarrow> \<forall>i \<in> set its. \<exists>vs. i = Votes vs \<Longrightarrow> open_log True (items @ its)"
  by (auto simp: open_log_def)

lemma length_with_offsets [simp]: "length (with_offsets off rs) = length rs"
  by (simp add: with_offsets_def)

lemma nth_with_offsets: "i < length rs \<Longrightarrow> with_offsets off rs ! i = (rs ! i)\<lparr>krOffset := off i\<rparr>"
  by (simp add: with_offsets_def)

lemma sorted_with_offsets:
  assumes "sorted_wrt (<) (map krOffset log)" and "offsets_fresh log off"
  shows "sorted_wrt (<) (map krOffset (log @ with_offsets off rs))"
proof -
  have "krOffset r < krOffset r'" if r: "r \<in> set log" and r': "r' \<in> set (with_offsets off rs)" for r r'
  proof -
    obtain i where "i < length rs" "krOffset r' = off i"
      using r' unfolding in_set_conv_nth by (auto simp: nth_with_offsets)
    moreover have "off 0 \<le> off i" using assms(2) by (cases i) (auto simp: offsets_fresh_def less_imp_le)
    ultimately show ?thesis using assms(2) r by (auto simp: offsets_fresh_def intro: less_le_trans)
  qed
  moreover have "sorted_wrt (<) (map krOffset (with_offsets off rs))"
    using assms(2) by (auto simp: sorted_wrt_iff_nth_less nth_with_offsets offsets_fresh_def)
  ultimately show ?thesis using assms(1) by (auto simp: sorted_wrt_append)
qed

lemma log_ok_extend:
  assumes ok: "log_ok c part None log" and fresh: "offsets_fresh log off"
    and item: "\<And>i. i < length rs \<Longrightarrow> krPartition ((rs ! i)\<lparr>krOffset := off i\<rparr>) = part \<and>
      krTransactional ((rs ! i)\<lparr>krOffset := off i\<rparr>) \<and> log_item c ((rs ! i)\<lparr>krOffset := off i\<rparr>) = Some (its ! i)"
    and len: "length its = length rs"
  shows "\<forall>i \<in> set its. \<exists>vs. i = Votes vs \<Longrightarrow> log_ok c part None (log @ with_offsets off rs)"
    and "its = [ClosedItem] \<Longrightarrow> log_ok c part (Some (off 0)) (log @ with_offsets off rs)"
proof -
  obtain items where items: "map (log_item c) log = map Some items" "open_log True items"
    using ok by (auto simp: log_ok_def)
  have "map (log_item c) (with_offsets off rs) = map Some its"
    using item len by (intro nth_equalityI) (simp_all add: nth_with_offsets)
  with items(1) have all: "map (log_item c) (log @ with_offsets off rs) = map Some (items @ its)" by simp
  have part: "krPartition r = part \<and> krTransactional r" if "r \<in> set (with_offsets off rs)" for r
    using that item by (metis in_set_conv_nth length_with_offsets nth_with_offsets)
  have sorted: "sorted_wrt (<) (map krOffset (log @ with_offsets off rs))"
    using ok fresh by (intro sorted_with_offsets) (simp_all add: log_ok_def)
  have base: "\<forall>r \<in> set (log @ with_offsets off rs). krPartition r = part \<and> krTransactional r"
    using ok part by (auto simp: log_ok_def)
  {
    assume "\<forall>i \<in> set its. \<exists>vs. i = Votes vs"
    with open_log_votes [OF items(2)] have "open_log True (items @ its)" .
    with sorted base all show "log_ok c part None (log @ with_offsets off rs)"
      unfolding log_ok_def by (intro conjI exI [of _ "items @ its"]) simp_all
  next
    assume its: "its = [ClosedItem]"
    with len obtain r where rs: "rs = [r]" by (cases rs) auto
    have n: "length log = length items" using items(1) by (metis length_map)
    have "closed_log (items @ its)" using items(2) its by (simp add: closed_log_def)
    then have "ended_log (off 0) (log @ with_offsets off rs) (items @ its)"
      unfolding ended_log_def using n its rs nth_with_offsets [of 0 rs off]
      by (intro exI [of _ "Suc (length log)"]) (simp add: with_offsets_def)
    with sorted base all show "log_ok c part (Some (off 0)) (log @ with_offsets off rs)"
      unfolding log_ok_def by (intro conjI exI [of _ "items @ its"]) simp_all
  }
qed

section \<open>The writer\<close>

definition l_held :: "vl_writer \<Rightarrow> vl_pending list" where
  "l_held w = (case vwPhase w of LHold p \<Rightarrow> [p] | LRoom p \<Rightarrow> [p] | _ \<Rightarrow> [])"

definition sizes :: "vl_pending list \<Rightarrow> nat" where
  "sizes ps = sum_list (map pending_size ps)"

lemma sizes_simps [simp]: "sizes [] = 0" "sizes (p # ps) = pending_size p + sizes ps" "sizes (ps @ qs) = sizes ps + sizes qs"
  by (simp_all add: sizes_def)

definition l_ended :: "vl_writer \<Rightarrow> bool" where
  "l_ended w \<longleftrightarrow> vwPhase w = LDrain \<or> vwPhase w = LDone"

text \<open>The queue, its credits and the batch.\<close>

definition queue_ok :: "vl_config \<Rightarrow> vl_writer \<Rightarrow> bool" where
  "queue_ok c w \<longleftrightarrow>
     (\<forall>p \<in> set (vwJobs w @ l_held w @ vwBatch w). pending_ok c (vwPartition w) p) \<and>
     int (sizes (vwJobs w @ l_held w)) \<le> vwQueuedVotes w \<and> vwQueuedVotes w \<le> lcQueuePerPartition c \<and>
     sizes (vwBatch w) \<le> vwBatchVotes w \<and> int (vwBatchVotes w) \<le> lcBatchSize c \<and>
     (\<forall>p. vwPhase w = LRoom p \<longrightarrow> int (vwBatchVotes w + pending_size p) \<le> lcBatchSize c)"

text \<open>The committed records and the answers.\<close>

definition journal_ok :: "vl_config \<Rightarrow> vl_writer \<Rightarrow> bool" where
  "journal_ok c w \<longleftrightarrow>
     (\<forall>a \<in> set (vwAnswers w). receipt_ok c (vwPartition w) (vwLog w) a) \<and>
     (if vwSealed w then log_ok c (vwPartition w) (Some (vwEnd w)) (vwLog w)
      else log_ok c (vwPartition w) None (vwLog w) \<or> (l_ended w \<and> (\<exists>e. log_ok c (vwPartition w) (Some e) (vwLog w))))"

text \<open>The states the writer and its flags can be in together.\<close>

definition flags_ok :: "bool \<Rightarrow> vl_writer \<Rightarrow> bool" where
  "flags_ok cancelled w \<longleftrightarrow>
     (vwSealed w \<longrightarrow> vwClosing w \<and> vwJobs w = [] \<and> vwBatch w = [] \<and>
        (l_ended w \<or> (vwPhase w = LIdle \<and> \<not> vwSealing w \<and> \<not> vwSealSignal w))) \<and>
     (l_ended w \<longrightarrow> vwSealed w \<or> vwFailed w \<or> cancelled) \<and>
     (vwSealing w \<or> vwSealSignal w \<longrightarrow> vwClosing w) \<and>
     (vwPhase w = LClose \<longrightarrow> vwSealing w \<and> vwJobs w = [] \<and> vwBatch w = []) \<and>
     (vwPhase w = LDone \<longrightarrow> vwBatch w = [] \<and> (vwJobs w = [] \<or> cancelled))"

definition vl_writer_inv :: "vl_config \<Rightarrow> bool \<Rightarrow> vl_writer \<Rightarrow> bool" where
  "vl_writer_inv c cancelled w \<longleftrightarrow> queue_ok c w \<and> journal_ok c w \<and> flags_ok cancelled w"

text \<open>What a flush does to the writer, whatever its outcome.\<close>

definition flushed :: "vl_writer \<Rightarrow> vl_writer \<Rightarrow> bool" where
  "flushed w w' \<longleftrightarrow> vwPartition w' = vwPartition w \<and> vwClosing w' = vwClosing w \<and> vwSealed w' = vwSealed w \<and>
     vwEnd w' = vwEnd w \<and> vwJobs w' = vwJobs w \<and> vwQueuedVotes w' = vwQueuedVotes w \<and>
     vwSealSignal w' = vwSealSignal w \<and> vwPhase w' = vwPhase w \<and> vwSealing w' = vwSealing w \<and>
     vwBatch w' = [] \<and> vwBatchVotes w' = 0 \<and> (vwFailed w \<longrightarrow> vwFailed w')"

definition answers_ok :: "vl_config \<Rightarrow> vl_writer \<Rightarrow> bool" where
  "answers_ok c w \<longleftrightarrow> (\<forall>a \<in> set (vwAnswers w). receipt_ok c (vwPartition w) (vwLog w) a)"

lemma run_flush_empty:
  "vwBatch w = [] \<Longrightarrow> run_flush c tx (ct, w) = ((ct, w\<lparr>vwBatch := [], vwBatchVotes := 0\<rparr>), True)"
  by (simp add: run_flush_def flush_batch_def)

lemma vl_commit_cases:
  assumes "vl_commit tx rs runtime (ct, w) = ((ct', w'), err)"
  shows "(w' = w \<and> err \<noteq> None) \<or> w' = w\<lparr>vwLog := vwLog w @ with_offsets (txOffset tx) rs\<rparr>"
  using assms by (auto simp: vl_commit_def at_stage_def Let_def split: option.splits if_splits)

lemma run_flush_facts:
  assumes cfg: "store_cfg_ok c" and ps: "\<forall>p \<in> set (vwBatch w). pending_ok c (vwPartition w) p"
    and log: "log_ok c (vwPartition w) None (vwLog w)" and ans: "answers_ok c w"
    and fresh: "offsets_fresh (vwLog w) (txOffset tx)" and run: "run_flush c tx (ct, w) = ((ct', w'), b)"
  shows "flushed w w' \<and> log_ok c (vwPartition w) None (vwLog w') \<and> answers_ok c w' \<and> (b \<or> vwFailed w')"
proof (cases "vwBatch w = []")
  case True
  with run log ans show ?thesis by (auto simp: run_flush_empty flushed_def answers_ok_def)
next
  case False
  let ?ps = "vwBatch w" and ?part = "vwPartition w"
  let ?w0 = "w\<lparr>vwBatch := [], vwBatchVotes := 0\<rparr>"
  obtain rs where rs: "pending_records c ?part ?ps = Inr rs" "length rs = length ?ps"
    and items: "\<And>i off. i < length ?ps \<Longrightarrow> let r = (rs ! i)\<lparr>krOffset := off\<rparr> in krPartition r = ?part \<and> krTransactional r \<and>
      log_item c r = Some (Votes (map (at_record r) (pending_votes (?ps ! i))))"
    using pending_records_items [OF cfg ps] by blast
  obtain ct1 w1 err where com: "vl_commit tx rs True (ct, ?w0) = ((ct1, w1), err)" by (metis prod.exhaust)
  define lg where "lg = vwLog w @ with_offsets (txOffset tx) rs"
  have grown: "log_ok c ?part None lg"
    unfolding lg_def
    by (rule log_ok_extend(1) [OF log fresh, where its = "map (\<lambda>i. Votes (map (at_record ((rs ! i)\<lparr>krOffset := txOffset tx i\<rparr>))
        (pending_votes (?ps ! i)))) [0..<length rs]"])
      (use items rs(2) in \<open>auto simp: Let_def\<close>)
  have w1: "(w1 = ?w0 \<and> err \<noteq> None) \<or> w1 = ?w0\<lparr>vwLog := lg\<rparr>"
    using vl_commit_cases [OF com] by (simp add: lg_def)
  have log1: "log_ok c ?part None (vwLog w1)" and pre: "\<exists>ext. vwLog w1 = vwLog w @ ext"
    using w1 grown log by (auto simp: lg_def)
  have old: "\<forall>a \<in> set (vwAnswers w). receipt_ok c ?part (vwLog w1) a"
    using ans pre receipt_ok_append by (auto simp: answers_ok_def)
  show ?thesis
  proof (cases err)
    case None
    then have lw: "w1 = ?w0\<lparr>vwLog := lg\<rparr>" using w1 by blast
    define new where "new = map (\<lambda>(i, p). (p, Inr (pending_receipt ?part p (txOffset tx i)) :: vl_error + vl_receipt)) (zip [0..<length ?ps] ?ps)"
    have w': "w' = w1\<lparr>vwAnswers := vwAnswers w @ new\<rparr>" and b: b
      using run False rs(1) com None lw by (simp_all add: run_flush_def flush_batch_def new_def)
    have "receipt_ok c ?part lg a" if a: "a \<in> set new" for a
    proof -
      obtain i where i: "i < length ?ps" and ai: "a = (?ps ! i, Inr (pending_receipt ?part (?ps ! i) (txOffset tx i)))"
        using a by (auto simp: new_def set_zip)
      let ?r = "(rs ! i)\<lparr>krOffset := txOffset tx i\<rparr>"
      have "?r \<in> set lg"
        using i rs(2) nth_with_offsets [of i rs "txOffset tx"] unfolding lg_def
        by (metis Un_iff length_with_offsets nth_mem set_append)
      moreover have "krOffset ?r = txOffset tx i" by simp
      moreover have "log_item c ?r = Some (Votes (map (at_record ?r) (pending_votes (?ps ! i))))"
        using items [OF i] by (simp add: Let_def)
      ultimately show ?thesis unfolding ai receipt_ok_def
        by (auto simp: pending_receipt_def intro!: bexI [of _ ?r])
    qed
    with old lw grown show ?thesis by (auto simp: w' flushed_def answers_ok_def b)
  next
    case (Some e)
    then have w': "w' = (vl_answer (Inl LogUnknown) ?ps w1)\<lparr>vwFailed := True, vwFailure := Some e\<rparr>"
      using run False rs(1) com by (simp add: run_flush_def flush_batch_def vl_fail_def)
    have "receipt_ok c ?part (vwLog w1) (p, Inl LogUnknown)" for p by (simp add: receipt_ok_def)
    with old log1 w1 show ?thesis by (auto simp: w' flushed_def answers_ok_def vl_answer_def)
  qed
qed

section \<open>Every step of the writer\<close>

lemma inv_open_log:
  assumes "vl_writer_inv c cancelled w" and "\<not> l_ended w" and "\<not> vwSealed w"
  shows "log_ok c (vwPartition w) None (vwLog w)" and "answers_ok c w"
    and "\<forall>p \<in> set (vwBatch w). pending_ok c (vwPartition w) p"
  using assms by (auto simp: vl_writer_inv_def journal_ok_def answers_ok_def queue_ok_def)

text \<open>A flush outside the drain keeps the journal, empties the batch, and a failure is recorded.\<close>

lemma run_flush_inv:
  assumes cfg: "store_cfg_ok c" and inv: "vl_writer_inv c cancelled w" and live: "\<not> l_ended w"
    and fresh: "offsets_fresh (vwLog w) (txOffset tx)" and run: "run_flush c tx (ct, w) = ((ct', w'), b)"
  shows "flushed w w' \<and> answers_ok c w' \<and> (b \<or> vwFailed w') \<and>
    (if vwSealed w then log_ok c (vwPartition w) (Some (vwEnd w)) (vwLog w')
     else log_ok c (vwPartition w) None (vwLog w'))"
proof (cases "vwSealed w")
  case True
  then have "vwBatch w = []" using inv by (simp add: vl_writer_inv_def flags_ok_def)
  with run have "w' = w\<lparr>vwBatch := [], vwBatchVotes := 0\<rparr>" "b" by (simp_all add: run_flush_empty)
  with True inv show ?thesis
    by (auto simp: flushed_def answers_ok_def vl_writer_inv_def journal_ok_def)
next
  case False
  note lg = inv_open_log [OF inv live False]
  from run_flush_facts [OF cfg lg(3,1,2) fresh run] False show ?thesis by simp
qed

lemma flushed_queue:
  assumes "queue_ok c w" and "flushed w w'" and "store_cfg_ok c"
  shows "queue_ok c w'"
proof -
  have "1 \<le> lcBatchSize c" using vl_validate_bounds(4) assms(3) by (simp add: store_cfg_ok_def)
  with assms show ?thesis by (auto simp: queue_ok_def flushed_def l_held_def)
qed

lemma flush_then_phase:
  assumes cfg: "store_cfg_ok c" and inv: "vl_writer_inv c cancelled w" and live: "\<not> l_ended w"
    and fresh: "offsets_fresh (vwLog w) (txOffset tx)" and run: "run_flush c tx (ct, w) = ((ct', w'), b)"
    and ph: "ph = LIdle \<or> (ph = LDrain \<and> \<not> b) \<or> (ph = LClose \<and> vwSealing w \<and> vwJobs w = [])"
    and nosealed: "\<not> vwSealed w \<or> ph = vwPhase w"
  shows "vl_writer_inv c cancelled (w'\<lparr>vwPhase := ph\<rparr>)"
proof -
  note f = run_flush_inv [OF cfg inv live fresh run]
  have q: "queue_ok c w'" using flushed_queue inv f cfg by (auto simp: vl_writer_inv_def)
  have "queue_ok c (w'\<lparr>vwPhase := ph\<rparr>)"
    using q ph by (auto simp: queue_ok_def l_held_def)
  moreover have "journal_ok c (w'\<lparr>vwPhase := ph\<rparr>)"
    using f by (auto simp: journal_ok_def answers_ok_def flushed_def)
  moreover have "flags_ok cancelled (w'\<lparr>vwPhase := ph\<rparr>)"
    using f ph nosealed inv live by (auto simp: flags_ok_def flushed_def vl_writer_inv_def l_ended_def)
  ultimately show ?thesis by (simp add: vl_writer_inv_def)
qed

lemma receipt_ok_answer: "receipt_ok c part log (p, Inl e)"
  by (simp add: receipt_ok_def)

lemma inv_room:
  assumes cfg: "store_cfg_ok c" and inv: "vl_writer_inv c cancelled w" and ph: "vwPhase w = LHold p"
    and fresh: "offsets_fresh (vwLog w) (txOffset tx)" and st: "st = l_room c tx p (ct, w)"
  shows "vl_writer_inv c cancelled (snd st) \<and> vwPartition (snd st) = vwPartition w"
proof (cases "int (vwBatchVotes w + pending_size p) > lcBatchSize c")
  case False
  with inv ph show ?thesis
    by (auto simp: st l_room_def to_phase_def vl_writer_inv_def queue_ok_def journal_ok_def flags_ok_def l_held_def l_ended_def)
next
  case True
  have live: "\<not> l_ended w" "\<not> vwSealed w" using inv ph by (auto simp: l_ended_def vl_writer_inv_def flags_ok_def)
  obtain ct' w' b where run: "run_flush c tx (ct, w) = ((ct', w'), b)" by (metis prod.exhaust)
  note f = run_flush_inv [OF cfg inv live(1) fresh run]
  have q: "queue_ok c w'" using flushed_queue inv f cfg by (auto simp: vl_writer_inv_def)
  have p: "pending_ok c (vwPartition w) p" using inv ph by (auto simp: vl_writer_inv_def queue_ok_def l_held_def)
  show ?thesis
  proof (cases b)
    case True
    with f q p ph live inv \<open>int (vwBatchVotes w + pending_size p) > lcBatchSize c\<close> run show ?thesis
      by (auto simp: st l_room_def to_phase_def vl_writer_inv_def queue_ok_def journal_ok_def flags_ok_def l_held_def
          l_ended_def flushed_def answers_ok_def pending_ok_def)
  next
    case False
    with f q ph live inv \<open>int (vwBatchVotes w + pending_size p) > lcBatchSize c\<close> run show ?thesis
      by (auto simp: st l_room_def vl_answer_def vl_writer_inv_def queue_ok_def journal_ok_def flags_ok_def l_held_def
          l_ended_def flushed_def answers_ok_def receipt_ok_answer)
  qed
qed

lemma inv_flush_step:
  assumes cfg: "store_cfg_ok c" and inv: "vl_writer_inv c cancelled w" and live: "\<not> l_ended w"
    and fresh: "offsets_fresh (vwLog w) (txOffset tx)"
    and ph: "ph = LIdle \<or> (ph = LClose \<and> vwSealing w \<and> vwJobs w = [])" and nosealed: "\<not> vwSealed w \<or> ph = vwPhase w"
    and st: "st = (case run_flush c tx (ct, w) of (st, False) \<Rightarrow> to_phase LDrain st | (st, True) \<Rightarrow> to_phase ph st)"
  shows "vl_writer_inv c cancelled (snd st) \<and> vwPartition (snd st) = vwPartition w"
proof -
  obtain ct' w' b where run: "run_flush c tx (ct, w) = ((ct', w'), b)" by (metis prod.exhaust)
  have part: "vwPartition w' = vwPartition w" using run_flush_inv [OF cfg inv live fresh run] by (simp add: flushed_def)
  show ?thesis
  proof (cases b)
    case True
    with flush_then_phase [OF cfg inv live fresh run _ nosealed] ph run part show ?thesis
      by (auto simp: st to_phase_def)
  next
    case False
    have "\<not> vwSealed w"
    proof
      assume "vwSealed w"
      then have "vwBatch w = []" using inv by (simp add: vl_writer_inv_def flags_ok_def)
      with run False show False by (simp add: run_flush_empty)
    qed
    with False flush_then_phase [OF cfg inv live fresh run, of LDrain] run part show ?thesis
      by (auto simp: st to_phase_def)
  qed
qed

lemma inv_close:
  assumes cfg: "store_cfg_ok c" and inv: "vl_writer_inv c cancelled w" and ph: "vwPhase w = LClose"
    and fresh: "offsets_fresh (vwLog w) (txOffset tx)" and st: "st = l_close c tx (ct, w)"
  shows "vl_writer_inv c cancelled (snd st) \<and> vwPartition (snd st) = vwPartition w"
proof -
  let ?r = "plain_record (vwPartition w) [] (encodeRecord c recordClosed no_vote)"
  have live: "\<not> l_ended w" "\<not> vwSealed w" and idle: "vwJobs w = []" "vwBatch w = []" "vwSealing w"
    using inv ph by (auto simp: l_ended_def vl_writer_inv_def flags_ok_def)
  note lg = inv_open_log [OF inv live]
  have id: "length (lcPollID c) = 16" and wf: "vl_wf c"
    using cfg vl_wf_validate by (auto simp: store_cfg_ok_def)
  have ok: "record_ok c 3 no_vote" by (simp add: record_ok_def)
  have "log_item c (?r\<lparr>krOffset := off\<rparr>) = Some ClosedItem" for off
    using encodeRecord_wire [OF id record_ok_token [OF ok], of 3] decodeRecord_wire [OF wf ok]
    by (simp add: log_item_def plain_record_def record_wire_def)
  then have closed: "log_ok c (vwPartition w) (Some (txOffset tx 0)) (vwLog w @ with_offsets (txOffset tx) [?r])"
    by (intro log_ok_extend(2) [OF lg(1) fresh, where its = "[ClosedItem]"]) (simp_all add: plain_record_def)
  obtain ct' w' err where com: "vl_commit tx [?r] False (ct, w) = ((ct', w'), err)" by (metis prod.exhaust)
  have cases: "(w' = w \<and> err \<noteq> None) \<or> w' = w\<lparr>vwLog := vwLog w @ with_offsets (txOffset tx) [?r]\<rparr>"
    by (rule vl_commit_cases [OF com])
  have ans: "\<forall>a \<in> set (vwAnswers w). receipt_ok c (vwPartition w) (vwLog w @ with_offsets (txOffset tx) [?r]) a"
    using lg(2) receipt_ok_append by (auto simp: answers_ok_def)
  show ?thesis
  proof (cases err)
    case None
    with cases com have "st = (ct', (w\<lparr>vwLog := vwLog w @ with_offsets (txOffset tx) [?r]\<rparr>)
        \<lparr>vwSealed := True, vwEnd := txOffset tx 0, vwPhase := LDrain\<rparr>)"
      by (auto simp: st l_close_def)
    with closed ans inv idle ph show ?thesis
      by (auto simp: vl_writer_inv_def queue_ok_def journal_ok_def flags_ok_def l_held_def l_ended_def)
  next
    case (Some e)
    with com have st': "st = to_phase LDrain (vl_fail e (ct', w'))" by (simp add: st l_close_def)
    from cases show ?thesis
    proof
      assume "w' = w \<and> err \<noteq> None"
      with inv idle ph lg live show ?thesis
        by (auto simp: st' to_phase_def vl_fail_def vl_writer_inv_def queue_ok_def journal_ok_def flags_ok_def l_held_def l_ended_def)
    next
      assume "w' = w\<lparr>vwLog := vwLog w @ with_offsets (txOffset tx) [?r]\<rparr>"
      with inv idle ph ans closed live show ?thesis
        by (auto simp: st' to_phase_def vl_fail_def vl_writer_inv_def queue_ok_def journal_ok_def flags_ok_def l_held_def l_ended_def)
    qed
  qed
qed

lemma inv_drain:
  assumes inv: "vl_writer_inv c cancelled w" and ph: "vwPhase w = LDrain" and st: "st = l_drain (ct, w)"
  shows "vl_writer_inv c cancelled (snd st) \<and> vwPartition (snd st) = vwPartition w"
proof (cases "vwBatch w")
  case (Cons p b)
  with inv ph show ?thesis
    by (auto simp: st l_drain_def vl_answer_def vl_writer_inv_def queue_ok_def journal_ok_def flags_ok_def l_held_def
        l_ended_def receipt_ok_answer)
next
  case Nil
  show ?thesis
  proof (cases "vwJobs w")
    case (Cons p q)
    with Nil inv ph show ?thesis
      by (auto simp: st l_drain_def vl_answer_def vl_writer_inv_def queue_ok_def journal_ok_def flags_ok_def l_held_def
          l_ended_def receipt_ok_answer)
  next
    case jobs: Nil
    with Nil inv ph show ?thesis
      by (auto simp: st l_drain_def vl_writer_inv_def queue_ok_def journal_ok_def flags_ok_def l_held_def l_ended_def)
  qed
qed

lemma writer_step_inv:
  assumes cfg: "store_cfg_ok c"
  shows "vl_writer_step c cancelled st st' \<Longrightarrow> vl_writer_inv c cancelled (snd st) \<Longrightarrow>
    vl_writer_inv c cancelled (snd st') \<and> vwPartition (snd st') = vwPartition (snd st)"
proof (induction rule: vl_writer_step.induct)
  case (dequeue w ct)
  then obtain p q where "vwJobs w = p # q" by (cases "vwJobs w") auto
  with dequeue show ?case
    by (auto simp: l_dequeue_def vl_writer_inv_def queue_ok_def journal_ok_def flags_ok_def l_held_def l_ended_def)
next
  case (room w p tx ct)
  with inv_room [OF cfg _ _ _ refl] show ?case by simp
next
  case (append w p ct)
  then show ?case
    by (auto simp: l_append_def vl_writer_inv_def queue_ok_def journal_ok_def flags_ok_def l_held_def l_ended_def)
next
  case (check w tx ct)
  show ?case
  proof (cases "int (vwBatchVotes w) < lcBatchSize c")
    case True
    with check show ?thesis
      by (auto simp: l_check_def to_phase_def vl_writer_inv_def queue_ok_def journal_ok_def flags_ok_def l_held_def l_ended_def)
  next
    case False
    then have "l_check c tx (ct, w) = (case run_flush c tx (ct, w) of (st, False) \<Rightarrow> to_phase LDrain st | (st, True) \<Rightarrow> to_phase LIdle st)"
      by (simp add: l_check_def)
    with inv_flush_step [OF cfg _ _ _ _ _ this] check show ?thesis
      by (auto simp: l_ended_def vl_writer_inv_def flags_ok_def)
  qed
next
  case (tick w tx ct)
  obtain ct' w' b where run: "run_flush c tx (ct, w) = ((ct', w'), b)" by (metis prod.exhaust)
  have live: "\<not> l_ended w" using tick by (simp add: l_ended_def)
  have "vwPhase w' = LIdle" using run_flush_inv [OF cfg _ live _ run] tick by (simp add: flushed_def)
  then have "l_tick c tx (ct, w) = (case run_flush c tx (ct, w) of (st, False) \<Rightarrow> to_phase LDrain st | (st, True) \<Rightarrow> to_phase LIdle st)"
    using run by (cases b) (simp_all add: l_tick_def to_phase_def)
  with inv_flush_step [OF cfg _ _ _ _ _ this] tick live show ?case by auto
next
  case (seal w ct)
  then show ?case
    by (auto simp: l_seal_def vl_writer_inv_def queue_ok_def journal_ok_def flags_ok_def l_held_def l_ended_def)
next
  case (last w tx ct)
  have "l_last c tx (ct, w) = (case run_flush c tx (ct, w) of (st, False) \<Rightarrow> to_phase LDrain st | (st, True) \<Rightarrow> to_phase LClose st)"
    by (simp add: l_last_def)
  with inv_flush_step [OF cfg _ _ _ _ _ this] last show ?case
    by (auto simp: l_ended_def vl_writer_inv_def flags_ok_def)
next
  case (close w tx ct)
  with inv_close [OF cfg _ _ _ refl] show ?case by simp
next
  case (cancel w ct)
  then show ?case
    by (auto simp: to_phase_def vl_writer_inv_def queue_ok_def journal_ok_def flags_ok_def l_held_def l_ended_def)
next
  case (drain w ct)
  with inv_drain [OF _ _ refl] show ?case by simp
qed

end
