(* ===== verification/Votelog_Audit_Props.thy ===== *)
theory Votelog_Audit_Props
  imports Votelog_Replay
begin

text \<open>
  What \<^verbatim>\<open>Replay\<close> and \<^verbatim>\<open>Audit\<close> of the Kafka journal promise: the grammar of an accepted
  journal, the audit as the first vote of every token with its counts, and the independence
  of both from the order in which the client delivers the partitions.
\<close>

section \<open>A successful scan\<close>

definition partition_log ::
  "vl_config \<Rightarrow> kafka_record list \<Rightarrow> nat \<Rightarrow> log_item list \<Rightarrow> int \<Rightarrow> bool" where
  "partition_log c R p items closed \<longleftrightarrow>
     closed_log items \<and>
     (\<exists>rs. prefix rs (delivered p R) \<and> map (log_item c) rs = map Some items \<and> closed = krOffset (last rs))"

lemma all_finished: "int (count_list fin False) \<le> 0 \<Longrightarrow> p < length fin \<Longrightarrow> fin ! p"
  by (metis (full_types) count_list_0_iff nth_mem of_nat_le_0_iff)

lemma delivered_prefix: "prefix rest fetches \<Longrightarrow> prefix (delivered p (fetched rest)) (delivered p (fetched fetches))"
  by (auto simp: prefix_def fetched_def delivered_def)

lemma scan_inv_init:
  assumes "n = nat (lcPartitions c)" and "0 \<le> lcPartitions c"
  shows "scan_inv c f s0 [] (replicate n False, lcPartitions c, replicate n (-1), replicate n False, s0)"
proof -
  have "count_list (replicate m False) False = m" for m by (induction m) auto
  then have "int (count_list (replicate n False) False) = lcPartitions c" using assms by simp
  with assms show ?thesis
    by (auto simp: scan_inv_def part_ok_def delivered_def votes_at_def items_votes_def open_log_def intro!: exI [of _ "[]"])
qed

lemma vl_replay_success:
  assumes wf: "vl_wf c" and ok: "vl_replay client_fails c fetches None (Some f) s0 = Some (closed, s, None)"
  shows "length closed = nat (lcPartitions c) \<and> (\<exists>L. visit_all f L s0 = (s, None) \<and>
    (\<forall>pv \<in> set L. 0 \<le> lpPartition (fst pv) \<and> lpPartition (fst pv) < lcPartitions c) \<and>
    (\<forall>p < nat (lcPartitions c). \<exists>items. partition_log c (fetched fetches) p items (closed ! p) \<and>
       votes_at p L = items_votes items))"
proof -
  let ?n = "nat (lcPartitions c)"
  have nn: "0 \<le> lcPartitions c" using wf by (simp add: vl_wf_def)
  obtain fin remaining seen where
    fet: "scan_fetches c (replay_visit c None (Some f)) fetches
      (replicate ?n False, lcPartitions c, replicate ?n (-1), replicate ?n False, s0) = Some ((fin, remaining, closed, seen, s), None)"
    using ok by (auto simp: vl_replay_def vl_scan_def Let_def split: if_splits option.splits prod.splits)
  from scan_fetches_inv [OF wf scan_inv_init [OF refl nn] fet] obtain rest where pre: "prefix rest fetches"
    and inv: "scan_inv c f s0 (fetched rest) (fin, remaining, closed, seen, s)" and rem: "remaining \<le> 0" by auto
  from inv obtain L where L: "visit_all f L s0 = (s, None)"
    "\<forall>pv \<in> set L. 0 \<le> lpPartition (fst pv) \<and> lpPartition (fst pv) < lcPartitions c"
    and parts: "\<And>p. p < length fin \<Longrightarrow> part_ok c (delivered p (fetched rest)) (votes_at p L) (fin ! p) (closed ! p) (seen ! p)"
    and len: "length fin = ?n" "length closed = length fin" and cnt: "remaining = int (count_list fin False)"
    by (auto simp: scan_inv_def)
  have "\<exists>items. partition_log c (fetched fetches) p items (closed ! p) \<and> votes_at p L = items_votes items" if p: "p < ?n" for p
  proof -
    have "fin ! p" using all_finished rem cnt p len(1) by simp
    with parts [of p] p len(1) obtain rs items where "map (log_item c) rs = map Some items" "items_votes items = votes_at p L"
      "prefix rs (delivered p (fetched rest))" "closed_log items" "closed ! p = krOffset (last rs)"
      by (auto simp: part_ok_def)
    with delivered_prefix [OF pre, of p] prefix_order.trans show ?thesis
      unfolding partition_log_def by metis
  qed
  with L len show ?thesis by auto
qed

text \<open>The log of a partition is determined by what was delivered of it.\<close>

lemma closed_log_prefix:
  "closed_log items \<Longrightarrow> closed_log items' \<Longrightarrow> prefix items items' \<Longrightarrow> items = items'"
  by (auto simp: closed_log_def open_log_def prefix_def butlast_append dest: in_set_butlastD split: if_splits)
    (metis append_butlast_last_id in_set_conv_decomp)+

lemma partition_log_unique:
  assumes "partition_log c R p items closed" and "partition_log c R' p items' closed'"
    and "prefix (delivered p R) (delivered p R') \<or> prefix (delivered p R') (delivered p R)"
  shows "items = items' \<and> closed = closed'"
proof -
  obtain rs rs' where rs: "prefix rs (delivered p R)" "map (log_item c) rs = map Some items" "closed = krOffset (last rs)"
      "prefix rs' (delivered p R')" "map (log_item c) rs' = map Some items'" "closed' = krOffset (last rs')"
    and cl: "closed_log items" "closed_log items'"
    using assms(1,2) by (auto simp: partition_log_def)
  then have "prefix rs rs' \<or> prefix rs' rs"
    using assms(3) by (meson prefix_order.trans prefix_same_cases)
  then have "prefix items items' \<or> prefix items' items"
    using rs by (metis map_mono_prefix inj_Some prefix_map_rightE map_injective)
  then have eq: "items = items'" using cl closed_log_prefix by blast
  have "length rs = length rs'" using rs eq by (metis length_map)
  with \<open>prefix rs rs' \<or> prefix rs' rs\<close> have "rs = rs'" by (auto simp: prefix_def)
  with eq rs show ?thesis by simp
qed

section \<open>The audit as a ballot box\<close>

definition audit_cast :: "vl_audit \<Rightarrow> vl_position \<times> vl_vote \<Rightarrow> vl_audit" where
  "audit_cast a pv = fst (audit_visit (fst pv) (snd pv) a)"

definition audit_recorded :: "vl_audit \<Rightarrow> vl_position \<times> vl_vote \<Rightarrow> (byte list \<times> vl_vote) option" where
  "audit_recorded a pv =
     (if snd (audit_visit (fst pv) (snd pv) a) = None \<and> auCanonical a (lvToken (snd pv)) = None
      then Some (lvToken (snd pv), snd pv) else None)"

interpretation audit: ballot_box auCanonical audit_cast audit_recorded "\<lambda>_. True"
  by unfold_locales (auto simp: audit_cast_def audit_recorded_def audit_visit_def Let_def split: if_splits)

definition by_token :: "(vl_position \<times> vl_vote) list \<Rightarrow> (byte list \<times> vl_vote) list" where
  "by_token L = map (\<lambda>pv. (lvToken (snd pv), snd pv)) L"

definition audit_inv :: "vl_audit \<Rightarrow> bool" where
  "audit_inv a \<longleftrightarrow> finite (dom (auCanonical a)) \<and> length (auCounts a) = 32 \<and>
     (\<forall>i < 32. auCounts a ! i = card {t. \<exists>v. auCanonical a t = Some v \<and> bit (lvChoice v) i})"

lemma audit_inv_empty: "audit_inv empty_audit"
  by (simp add: audit_inv_def empty_audit_def)

lemma audit_inv_visit:
  assumes inv: "audit_inv a" and vis: "audit_visit pos v a = (a', None)"
  shows "audit_inv a'"
proof (cases "auCanonical a (lvToken v)")
  case (Some w)
  with inv vis show ?thesis by (auto simp: audit_visit_def audit_inv_def Let_def split: if_splits)
next
  case None
  with vis have a': "auCanonical a' = (auCanonical a)(lvToken v \<mapsto> v)" "auCounts a' = count_bits (lvChoice v) (auCounts a)"
    by (auto simp: audit_visit_def Let_def split: if_splits)
  have "auCounts a' ! i = card {t. \<exists>w. auCanonical a' t = Some w \<and> bit (lvChoice w) i}" if i: "i < 32" for i
  proof -
    let ?A = "{t. \<exists>w. auCanonical a t = Some w \<and> bit (lvChoice w) i}"
    have fin: "finite ?A" using inv by (auto simp: audit_inv_def dom_def elim: rev_finite_subset)
    have new: "lvToken v \<notin> ?A" using None by simp
    have "{t. \<exists>w. auCanonical a' t = Some w \<and> bit (lvChoice w) i} = (if bit (lvChoice v) i then insert (lvToken v) ?A else ?A)"
      using None by (auto simp: a' split: if_splits)
    then show ?thesis using inv i fin new by (simp add: a' count_bits_def audit_inv_def)
  qed
  then show ?thesis using inv by (simp add: audit_inv_def a' count_bits_def)
qed

lemma audit_visit_one:
  assumes "audit_visit pos v a = (a1, None)"
  shows "auTotal a < 12000000" "auRecords a pos = None" "auTotal a1 = Suc (auTotal a)"
    "auRecords a1 = (auRecords a)(pos \<mapsto> v)"
    "auCanonical a1 = (if auCanonical a (lvToken v) = None then (auCanonical a)(lvToken v \<mapsto> v) else auCanonical a)"
  using assms by (auto simp: audit_visit_def Let_def split: if_splits)

lemma visit_all_Cons:
  "visit_all f ((pos, v) # L) s = (s', None) \<longleftrightarrow> (\<exists>s1. f pos v s = (s1, None) \<and> visit_all f L s1 = (s', None))"
  by (auto split: prod.splits option.splits)

lemma map_add_first: "(if m t = None then m(t \<mapsto> v) else m) = [t \<mapsto> v] ++ m"
  by (auto simp: map_add_def fun_eq_iff split: option.splits)

lemma audit_visit_all:
  "visit_all audit_visit L a = (a', None) \<Longrightarrow>
     auCanonical a' = map_of (by_token L) ++ auCanonical a \<and>
     auTotal a' = auTotal a + length L \<and> (auTotal a \<le> 12000000 \<longrightarrow> auTotal a' \<le> 12000000) \<and>
     auRecords a' = map_of L ++ auRecords a \<and> distinct (map fst L) \<and> fst ` set L \<inter> dom (auRecords a) = {} \<and>
     (audit_inv a \<longrightarrow> audit_inv a')"
proof (induction L arbitrary: a)
  case Nil
  then show ?case by (simp add: by_token_def)
next
  case (Cons pv L)
  obtain pos v where pv: "pv = (pos, v)" by (cases pv)
  obtain a1 where v1: "audit_visit pos v a = (a1, None)" and v2: "visit_all audit_visit L a1 = (a', None)"
    using Cons.prems unfolding pv visit_all_Cons by blast
  note one = audit_visit_one [OF v1] and IH = Cons.IH [OF v2]
  have fresh: "pos \<notin> fst ` set L" using IH one(4) by auto
  have "map_of (pv # L) ++ auRecords a = map_of L ++ auRecords a1"
    using fresh one(2,4) unfolding pv
    by (auto simp: map_add_def fun_eq_iff map_of_eq_None_iff split: option.splits)
  moreover have "map_of (by_token (pv # L)) ++ auCanonical a = map_of (by_token L) ++ auCanonical a1"
  proof -
    have "map_of (by_token (pv # L)) = map_of (by_token L) ++ [lvToken v \<mapsto> v]" by (simp add: by_token_def pv)
    then show ?thesis by (simp add: one(5) map_add_first del: map_add_upd)
  qed
  moreover have "fst ` set (pv # L) \<inter> dom (auRecords a) = {}" using IH one(2,4) pv by auto
  moreover have "audit_inv a \<longrightarrow> audit_inv a'" using IH audit_inv_visit [OF _ v1] by blast
  moreover have "distinct (map fst (pv # L))" "length (pv # L) = Suc (length L)" using IH fresh pv by simp_all
  ultimately show ?case using IH one(1,3) by (simp del: map_of.simps distinct.simps list.map)
qed

section \<open>Routing\<close>

lemma vl_Partition_range:
  assumes "1 \<le> lcPartitions c" and "lcPartitions c \<le> 256"
  shows "0 \<le> vl_Partition c t" and "vl_Partition c t < lcPartitions c"
proof -
  let ?h = "get_be (take 8 (sha256 (lcPollID c @ t))) :: u64"
  let ?m = "?h mod word_of_int (lcPartitions c)"
  have p: "uint (word_of_int (lcPartitions c) :: u64) = lcPartitions c"
    using assms by (simp add: uint_word_of_int)
  have u: "uint ?m = uint ?h mod lcPartitions c" by (simp add: uint_mod_distrib p)
  then have m: "0 \<le> uint ?m" "uint ?m < lcPartitions c" using assms by simp_all
  define x where "x = uint ?m"
  have x: "0 \<le> x" "x < 256" using m assms by (simp_all add: x_def)
  have "uint (ucast ?m :: u32) = take_bit 32 x" by (simp add: x_def unsigned_ucast_eq)
  also have "\<dots> = x" using x by (simp add: take_bit_int_eq_self)
  finally have "sint (ucast ?m :: u32) = signed_take_bit 31 x" by (simp add: sint_uint)
  also have "\<dots> = x" using x by (simp add: signed_take_bit_int_eq_self)
  finally have "sint (ucast ?m :: u32) = uint ?m" by (simp add: x_def)
  then show "0 \<le> vl_Partition c t" "vl_Partition c t < lcPartitions c"
    using m by (simp_all add: vl_Partition_def)
qed

lemma log_item_routing:
  assumes "log_item c r = Some item" and "pv \<in> set (item_votes item)"
  shows "vl_Partition c (lvToken (snd pv)) = krPartition r"
  using assms by (auto simp: log_item_def at_record_def list_all_iff split: if_splits sum.splits option.splits prod.splits)

lemma items_routing:
  assumes "partition_log c R p items closed" and "pv \<in> set (items_votes items)"
  shows "vl_Partition c (lvToken (snd pv)) = int p"
proof -
  obtain rs where rs: "prefix rs (delivered p R)" "map (log_item c) rs = map Some items"
    using assms(1) by (auto simp: partition_log_def)
  obtain i where i: "i < length items" "pv \<in> set (item_votes (items ! i))"
  proof -
    from assms(2) obtain item where "item \<in> set items" "pv \<in> set (item_votes item)" by (auto simp: items_votes_def)
    with that show ?thesis by (metis in_set_conv_nth)
  qed
  have "length rs = length items" using rs(2) by (metis length_map)
  with i rs(2) have it: "log_item c (rs ! i) = Some (items ! i)" by (metis nth_map)
  have "rs ! i \<in> set (delivered p R)"
    using rs(1) i \<open>length rs = length items\<close> by (metis nth_mem set_mono_prefix subsetD)
  then have "krPartition (rs ! i) = int p" by (simp add: delivered_def)
  with log_item_routing [OF it i(2)] show ?thesis by simp
qed

lemma map_of_by_token_filter:
  "\<forall>pv \<in> set L. lvToken (snd pv) = t \<longrightarrow> P pv \<Longrightarrow> map_of (by_token L) t = map_of (by_token (filter P L)) t"
  by (induction L) (auto simp: by_token_def)

lemma length_votes_at:
  "\<forall>pv \<in> set L. 0 \<le> lpPartition (fst pv) \<and> lpPartition (fst pv) < int n \<Longrightarrow>
     length L = (\<Sum>p < n. length (votes_at p L))"
proof (induction L)
  case Nil
  then show ?case by (simp add: votes_at_def)
next
  case (Cons pv L)
  then obtain q where q: "lpPartition (fst pv) = int q" "q < n"
    by (metis list.set_intros(1) nonneg_int_cases of_nat_less_iff)
  have "length (votes_at p (pv # L)) = length (votes_at p L) + (if p = q then 1 else 0)" for p
    using q by (auto simp: votes_at_def)
  with Cons q show ?case by (simp add: sum.distrib sum.delta')
qed

text \<open>What \<open>Audit\<close> returns, in terms of the logs of the partitions.\<close>

lemma audit_facts:
  assumes id: "length (lcPollID c) = 16" and ok: "vl_Audit client_fails c fetches = Some (Inr (m, a))"
  shows "length (lmPartitions m) = nat (lcPartitions c) \<and> (\<exists>items.
    (\<forall>p < nat (lcPartitions c). partition_log c (fetched fetches) p (items p) (snd (lmPartitions m ! p)) \<and>
       fst (lmPartitions m ! p) = int p) \<and>
    (\<forall>t. auCanonical a t = map_of (by_token (items_votes (items (nat (vl_Partition c t))))) t) \<and>
    auTotal a = (\<Sum>p < nat (lcPartitions c). length (items_votes (items p))) \<and> auTotal a \<le> 12000000 \<and>
    audit_inv a)"
proof -
  have val: "vl_validate c = None" using ok by (auto simp: vl_Audit_def split: option.splits)
  note bounds = vl_validate_bounds [OF val]
  obtain closed where rep: "vl_replay client_fails c fetches None (Some audit_visit) empty_audit = Some (closed, a, None)"
    and m: "m = manifest_of c closed"
    using ok val by (auto simp: vl_Audit_def split: option.splits)
  let ?n = "nat (lcPartitions c)"
  from vl_replay_success [OF vl_wf_validate [OF val id] rep] obtain L where
    len: "length closed = ?n" and L: "visit_all audit_visit L empty_audit = (a, None)"
    and inr: "\<forall>pv \<in> set L. 0 \<le> lpPartition (fst pv) \<and> lpPartition (fst pv) < lcPartitions c"
    and logs: "\<forall>p < ?n. \<exists>items. partition_log c (fetched fetches) p items (closed ! p) \<and> votes_at p L = items_votes items"
    by blast
  from logs obtain items where items: "\<And>p. p < ?n \<Longrightarrow> partition_log c (fetched fetches) p (items p) (closed ! p)"
    "\<And>p. p < ?n \<Longrightarrow> votes_at p L = items_votes (items p)" by metis
  note aud = audit_visit_all [OF L]
  have can: "auCanonical a t = map_of (by_token (items_votes (items (nat (vl_Partition c t))))) t" for t
  proof -
    have q: "nat (vl_Partition c t) < ?n" "int (nat (vl_Partition c t)) = vl_Partition c t"
      using vl_Partition_range [OF bounds(1,2), of t] bounds(1) by simp_all
    have "lpPartition (fst pv) = int (nat (vl_Partition c t))" if "pv \<in> set L" "lvToken (snd pv) = t" for pv
    proof -
      define p where "p = nat (lpPartition (fst pv))"
      from inr that(1) have p: "lpPartition (fst pv) = int p" "p < ?n" by (auto simp: p_def)
      then have "pv \<in> set (items_votes (items p))" 
        using that(1) by (simp add: items(2) [symmetric]) (simp add: votes_at_def)
      from items_routing [OF items(1) [OF p(2)] this] that(2) p(1) q(2) show ?thesis by simp
    qed
    then have "map_of (by_token L) t = map_of (by_token (votes_at (nat (vl_Partition c t)) L)) t"
      unfolding votes_at_def by (intro map_of_by_token_filter) blast
    then show ?thesis using aud items(2) [OF q(1)] by (simp add: empty_audit_def)
  qed
  have man: "length (lmPartitions m) = ?n" "\<And>p. p < ?n \<Longrightarrow> lmPartitions m ! p = (int p, closed ! p)"
    by (simp_all add: m manifest_of_def len)
  have "auTotal a = (\<Sum>p < ?n. length (items_votes (items p)))"
    using aud length_votes_at [of L ?n] inr items(2) bounds(1) by (simp add: empty_audit_def)
  moreover have "auTotal a \<le> 12000000" "audit_inv a" using aud audit_inv_empty by (simp_all add: empty_audit_def)
  ultimately show ?thesis using man items(1) can by (intro conjI exI [of _ items]) auto
qed

end
