(* ===== verification/Votelog_Props.thy ===== *)
theory Votelog_Props
  imports Votelog_Audit_Props
begin

text \<open>
  The properties of the Kafka journal's formats, of its replay and of its audit, each with
  a witness on a small journal of one partition: a BOOT record, a vote, a frame of two
  votes (one of them a second attempt of the same token) and the CLOSED record.
\<close>

section \<open>A small journal\<close>

definition demo_vl :: vl_config where
  "demo_vl = \<lparr>lcBrokers = [''127.0.0.1:9092''], lcTopic = ''gqlog_demo_poll'', lcPollID = replicate 16 7,
     lcPartitions = 1, lcStartsAt = 1000000000, lcEndsAt = 61000000000, lcAllowedMask = 7, lcMultiple = False,
     lcBatchSize = 8, lcLinger = 1000000, lcQueuePerPartition = 16, lcTransactionTimeout = 5000000000\<rparr>"

definition demo_log_vote :: "byte \<Rightarrow> u32 \<Rightarrow> vl_vote" where
  "demo_log_vote t choice = \<lparr>lvToken = replicate 16 t, lvChoice = choice, lvAdmittedAt = 2000000000\<rparr>"

definition demo_record :: "int \<Rightarrow> byte list \<Rightarrow> byte list \<Rightarrow> kafka_record" where
  "demo_record offset key value =
     \<lparr>krPartition = 0, krOffset = offset, krKey = key, krValue = value, krTransactional = True\<rparr>"

definition demo_log :: "kafka_record list" where
  "demo_log =
     [demo_record 0 [] (encodeRecord demo_vl 2 no_vote),
      demo_record 2 (replicate 16 1) (encodeRecord demo_vl 1 (demo_log_vote 1 2)),
      demo_record 4 [] (projr (encodeFrame demo_vl [demo_log_vote 1 4, demo_log_vote 2 4])),
      demo_record 6 [] (encodeRecord demo_vl 3 no_vote)]"

text \<open>All at once, and record by record after an empty fetch.\<close>

definition demo_fetch :: "kafka_record list \<Rightarrow> kafka_fetch" where
  "demo_fetch rs = \<lparr>kfContextDone = False, kfErrors = [],
     kfPartitions = [\<lparr>kpPartition = 0, kpLogStartOffset = 0, kpRecords = rs\<rparr>]\<rparr>"

definition demo_fetches :: "kafka_fetch list" where
  "demo_fetches = [demo_fetch demo_log]"

definition demo_fetches_slow :: "kafka_fetch list" where
  "demo_fetches_slow = demo_fetch [] # map (\<lambda>r. demo_fetch [r]) demo_log"

text \<open>With one partition every token is routed to it, whatever its digest.\<close>

lemma vl_Partition_one [code]:
  "vl_Partition c token =
     (if lcPartitions c = 1 then 0
      else sint (ucast ((get_be (take 8 (sha256 (lcPollID c @ token))) :: u64) mod word_of_int (lcPartitions c)) :: u32))"
  using vl_Partition_range [of c token] by (auto simp: vl_Partition_def)

lemma demo_vl_ok: "length (lcPollID demo_vl) = 16" "vl_validate demo_vl = None" "vl_wf demo_vl"
  by code_simp+

lemma demo_partition: "vl_Partition demo_vl token = 0"
  unfolding vl_Partition_one by (simp add: demo_vl_def)

lemma demo_log_vote_ok: "t \<in> {1, 2} \<Longrightarrow> choice \<in> {2, 4} \<Longrightarrow> record_ok demo_vl 1 (demo_log_vote t choice)"
  by (elim insertE emptyE) (simp, code_simp)+

lemma record_value:
  "vl_wf c \<Longrightarrow> record_ok c kind v \<Longrightarrow> encodeRecord c kind v ! 0 = 1 \<and> encodeRecord c kind v \<noteq> [] \<and>
     decodeRecord c (encodeRecord c kind v) = Inr (kind, v)"
  using encodeRecord_wire [of c v kind] decodeRecord_wire [of c kind v] record_ok_token [of c kind v]
  by (simp add: record_wire_def vl_wf_def)

lemma control_ok: "record_ok c 2 no_vote" "record_ok c 3 no_vote"
  by (simp_all add: record_ok_def)

lemma demo_boot:
  "replay_visit demo_vl None f (demo_record off [] (encodeRecord demo_vl 2 no_vote)) (closed, seen, s)
     = ((closed, seen[0 := True], s), Inr False)"
  using record_value [OF demo_vl_ok(3) control_ok(1)]
  by (simp add: replay_visit_def demo_record_def Let_def replay_kind_def)

lemma demo_closed:
  "replay_visit demo_vl None f (demo_record off [] (encodeRecord demo_vl 3 no_vote)) ([-1], [True], s)
     = (([off], [True], s), Inr True)"
  using record_value [OF demo_vl_ok(3) control_ok(2)]
  by (simp add: replay_visit_def demo_record_def Let_def replay_kind_def)

lemma demo_vote_record:
  assumes "t \<in> {1, 2}" "choice \<in> {2, 4}"
  shows "replay_visit demo_vl None (Some f) (demo_record off (replicate 16 t) (encodeRecord demo_vl 1 (demo_log_vote t choice)))
      ([-1], [True], s) =
    (case f \<lparr>lpPartition = 0, lpOffset = off, lpIndex = 0\<rparr> (demo_log_vote t choice) s of
       (s, None) \<Rightarrow> (([-1], [True], s), Inr False) | (s, Some e) \<Rightarrow> (([-1], [True], s), Inl e))"
proof -
  note v = record_value [OF demo_vl_ok(3) demo_log_vote_ok [OF assms]]
  have "lvToken (demo_log_vote t choice) = replicate 16 t" by (simp add: demo_log_vote_def)
  with v show ?thesis
    by (simp add: replay_visit_def demo_record_def Let_def replay_kind_def demo_partition split: prod.splits option.splits)
qed

lemma demo_votes_ok: "log_frame_ok demo_vl [demo_log_vote 1 4, demo_log_vote 2 4]"
  using demo_log_vote_ok [of 1 4] demo_log_vote_ok [of 2 4] by (simp add: log_frame_ok_def log_entry_ok_def record_ok_def)

lemma demo_frame_record:
  "replay_visit demo_vl None (Some f) (demo_record off [] (projr (encodeFrame demo_vl [demo_log_vote 1 4, demo_log_vote 2 4])))
      ([-1], [True], s) =
    (case visit_all f [(\<lparr>lpPartition = 0, lpOffset = off, lpIndex = 0\<rparr>, demo_log_vote 1 4),
        (\<lparr>lpPartition = 0, lpOffset = off, lpIndex = 1\<rparr>, demo_log_vote 2 4)] s of
       (s, None) \<Rightarrow> (([-1], [True], s), Inr False) | (s, Some e) \<Rightarrow> (([-1], [True], s), Inl e))"
  unfolding encodeFrame_wire [OF demo_vl_ok(2,1) demo_votes_ok]
  by (simp add: replay_visit_def replay_frame_def demo_record_def Let_def decodeFrame_log [OF demo_vl_ok(3) demo_votes_ok]
      frame_visit_def demo_partition split: prod.splits option.splits)
    (simp add: log_frame_def log_header_def)

lemma demo_partitions: "lcPartitions demo_vl = 1"
  by (simp add: demo_vl_def)

lemma demo_record_fields: "krPartition (demo_record off key v) = 0" "krTransactional (demo_record off key v)"
  by (simp_all add: demo_record_def)

text \<open>The audit after each vote.\<close>

definition demo_pos :: "int \<Rightarrow> nat \<Rightarrow> vl_position" where
  "demo_pos off i = \<lparr>lpPartition = 0, lpOffset = off, lpIndex = i\<rparr>"

definition demo_audit1 :: vl_audit where
  "demo_audit1 = \<lparr>auCanonical = [replicate 16 1 \<mapsto> demo_log_vote 1 2], auRecords = [demo_pos 2 0 \<mapsto> demo_log_vote 1 2],
     auTotal = 1, auCounts = 0 # 1 # replicate 30 0\<rparr>"

definition demo_audit2 :: vl_audit where
  "demo_audit2 = demo_audit1\<lparr>auRecords := (auRecords demo_audit1)(demo_pos 4 0 \<mapsto> demo_log_vote 1 4), auTotal := 2\<rparr>"

definition demo_audit3 :: vl_audit where
  "demo_audit3 = \<lparr>auCanonical = (auCanonical demo_audit1)(replicate 16 2 \<mapsto> demo_log_vote 2 4),
     auRecords = (auRecords demo_audit2)(demo_pos 4 1 \<mapsto> demo_log_vote 2 4), auTotal = 3,
     auCounts = 0 # 1 # 1 # replicate 29 0\<rparr>"

lemma demo_bits: "count_bits 2 (replicate 32 0) = 0 # 1 # replicate 30 0"
  "count_bits 4 (0 # 1 # replicate 30 0) = 0 # 1 # 1 # replicate 29 0"
  by code_simp+

lemma demo_vote_fields: "lvToken (demo_log_vote t ch) = replicate 16 t" "lvChoice (demo_log_vote t ch) = ch"
  by (simp_all add: demo_log_vote_def)

lemma demo_tokens: "(replicate 16 (1 :: byte) = replicate 16 2) = False" "(replicate 16 (2 :: byte) = replicate 16 1) = False"
  by simp_all

lemma demo_positions: "(demo_pos 4 i = demo_pos 2 j) = False" "(demo_pos 4 1 = demo_pos 4 0) = False"
  by (simp_all add: demo_pos_def)

lemma demo_audits:
  "audit_visit (demo_pos 2 0) (demo_log_vote 1 2) empty_audit = (demo_audit1, None)"
  "audit_visit (demo_pos 4 0) (demo_log_vote 1 4) demo_audit1 = (demo_audit2, None)"
  "audit_visit (demo_pos 4 1) (demo_log_vote 2 4) demo_audit2 = (demo_audit3, None)"
  unfolding audit_visit_def Let_def demo_vote_fields demo_audit1_def demo_audit2_def demo_audit3_def empty_audit_def
  by (simp_all add: demo_positions demo_tokens demo_bits del: One_nat_def)

lemmas demo_steps = demo_boot demo_closed demo_vote_record demo_frame_record demo_partitions demo_record_fields

lemma demo_records:
  "scan_records (replay_visit demo_vl None (Some audit_visit)) demo_log ([False], 1, [-1], [False], empty_audit)
     = (([True], 0, [6], [True], demo_audit3), None)"
  unfolding demo_log_def
  by (simp add: demo_steps demo_audits [unfolded demo_pos_def] del: One_nat_def)

lemma scan_fetches_steps:
  "\<not> remaining > 0 \<Longrightarrow> scan_fetches c visit fs (fin, remaining, s) = Some ((fin, remaining, s), None)"
  "remaining > 0 \<Longrightarrow> scan_fetches c visit (demo_fetch rs # fs) (fin, remaining, s) =
     (case scan_partitions c visit (kfPartitions (demo_fetch rs)) (fin, remaining, s) of
        (st, Some e) \<Rightarrow> Some (st, Some e) | (st, None) \<Rightarrow> scan_fetches c visit fs st)"
  by (subst scan_fetches.simps, simp add: demo_fetch_def)+

lemma demo_fetch_partitions: "kfPartitions (demo_fetch rs) = [\<lparr>kpPartition = 0, kpLogStartOffset = 0, kpRecords = rs\<rparr>]"
  by (simp add: demo_fetch_def)

lemma demo_scan_slow:
  "scan_fetches demo_vl (replay_visit demo_vl None (Some audit_visit)) demo_fetches_slow
      ([False], 1, [-1], [False], empty_audit) = Some (([True], 0, [6], [True], demo_audit3), None)"
  unfolding demo_fetches_slow_def demo_log_def
  by (simp add: scan_fetches_steps demo_fetch_partitions demo_steps demo_audits [unfolded demo_pos_def] del: One_nat_def)

definition demo_manifest :: vl_manifest where
  "demo_manifest = \<lparr>lmTopic = ''gqlog_demo_poll'', lmPartitions = [(0, 6)], lmStartsAt = 1000000000, lmEndsAt = 61000000000\<rparr>"

lemma demo_Audit:
  "vl_Audit False demo_vl demo_fetches = Some (Inr (demo_manifest, demo_audit3))"
  "vl_Audit False demo_vl demo_fetches_slow = Some (Inr (demo_manifest, demo_audit3))"
proof -
  have m: "manifest_of demo_vl [6] = demo_manifest"
    by (simp add: manifest_of_def demo_manifest_def demo_vl_def)
  have "vl_replay False demo_vl demo_fetches None (Some audit_visit) empty_audit = Some ([6], demo_audit3, None)"
    by (simp add: vl_replay_def vl_scan_def demo_fetches_def scan_fetches_steps Let_def demo_partitions demo_records demo_fetch_partitions)
  then show "vl_Audit False demo_vl demo_fetches = Some (Inr (demo_manifest, demo_audit3))"
    by (simp add: vl_Audit_def demo_vl_ok m)
  have "vl_replay False demo_vl demo_fetches_slow None (Some audit_visit) empty_audit = Some ([6], demo_audit3, None)"
    by (simp add: vl_replay_def vl_scan_def Let_def demo_partitions demo_scan_slow)
  then show "vl_Audit False demo_vl demo_fetches_slow = Some (Inr (demo_manifest, demo_audit3))"
    by (simp add: vl_Audit_def demo_vl_ok m)
qed

section \<open>Formats\<close>

text \<open>C29. A record is accepted exactly when it is the encoding of a control barrier or of an admitted vote of
  the same poll definition, and it is read back as that record.\<close>

theorem votelog_record_exact:
  assumes "vl_wf c"
  shows "decodeRecord c b = Inr (kind, v) \<longleftrightarrow> record_ok c kind v \<and> b = encodeRecord c kind v"
proof -
  have id: "length (lcPollID c) = 16" using assms by (simp add: vl_wf_def)
  have "encodeRecord c kind v = record_wire c kind v" if "record_ok c kind v"
    by (rule encodeRecord_wire [OF id record_ok_token [OF that]])
  then show ?thesis
    using decodeRecord_exact [OF id, of b kind v] decodeRecord_wire [OF assms, of kind v] by metis
qed

theorem votelog_record_exact_witness:
  "decodeRecord demo_vl (encodeRecord demo_vl 1 (demo_log_vote 1 2)) = Inr (1, demo_log_vote 1 2)"
  using votelog_record_exact [OF demo_vl_ok(3)] demo_log_vote_ok [of 1 2] by simp

text \<open>C30. A frame is accepted exactly when it is the encoding of one to 4096 admitted votes; the visitor then
  gets these votes with their indices in order, and an altered frame reaches no visitor.\<close>

theorem votelog_frame_exact:
  assumes "vl_validate c = None" and "length (lcPollID c) = 16"
  shows "(\<exists>votes. log_frame_ok c votes \<and> encodeFrame c votes = Inr b \<and>
      decodeFrame c b (Some f) s = visit_list f (zip [0..<length votes] votes) s) \<or>
    (\<exists>e. decodeFrame c b (Some f) s = (s, Some e) \<and> (\<nexists>votes. log_frame_ok c votes \<and> encodeFrame c votes = Inr b))"
proof (cases "snd (decodeFrame c b None ())")
  case None
  then have "decodeFrame c b None () = ((), None)" by (metis old.unit.exhaust prod.collapse)
  from decodeFrame_exact [OF assms(2) this] obtain votes where v: "log_frame_ok c votes" "b = log_frame c votes" by blast
  with encodeFrame_wire [OF assms v(1)] decodeFrame_log [OF vl_wf_validate [OF assms] v(1), of "Some f" s]
  show ?thesis by auto
next
  case (Some e)
  then have e: "decodeFrame c b (Some f) s = (s, Some e)"
    using decodeFrame_cases [of c b "Some f" s] by (cases "decodeFrame c b None ()") simp
  have "\<nexists>votes. log_frame_ok c votes \<and> encodeFrame c votes = Inr b"
    using Some encodeFrame_wire [OF assms] decodeFrame_log [OF vl_wf_validate [OF assms], of _ None "()"] by fastforce
  with e show ?thesis by blast
qed

theorem votelog_frame_exact_witness:
  "\<exists>votes. encodeFrame demo_vl votes = Inr (log_frame demo_vl [demo_log_vote 1 4, demo_log_vote 2 4]) \<and>
     decodeFrame demo_vl (log_frame demo_vl [demo_log_vote 1 4, demo_log_vote 2 4]) (Some collect_entry) []
       = visit_list collect_entry (zip [0..<length votes] votes) []"
  using votelog_frame_exact [OF demo_vl_ok(2,1), of "log_frame demo_vl [demo_log_vote 1 4, demo_log_vote 2 4]" collect_entry "[]"]
    demo_votes_ok encodeFrame_wire [OF demo_vl_ok(2,1) demo_votes_ok] by blast

section \<open>Replay and audit\<close>

text \<open>C13. A replay that succeeds has read, of every partition, a prefix of its records that follows the grammar
  BOOT (BOOT | votes)* CLOSED with nothing foreign in it; the manifest holds the offsets of the CLOSED records and
  the visitor saw exactly the votes of these prefixes, in the order of each partition.\<close>

theorem votelog_replay_grammar:
  assumes "length (lcPollID c) = 16" and "vl_Replay client_fails c fetches (Some f) s0 = Some (Inr m, s)"
  shows "\<exists>L items. visit_all f L s0 = (s, None) \<and> length (lmPartitions m) = nat (lcPartitions c) \<and>
    (\<forall>p < nat (lcPartitions c). \<exists>closed. lmPartitions m ! p = (int p, closed) \<and>
       partition_log c (fetched fetches) p (items p) closed \<and> votes_at p L = items_votes (items p))"
proof -
  have val: "vl_validate c = None" using assms(2) by (auto simp: vl_Replay_def split: option.splits)
  obtain closed where rep: "vl_replay client_fails c fetches None (Some f) s0 = Some (closed, s, None)"
    and m: "m = manifest_of c closed"
    using assms(2) val by (auto simp: vl_Replay_def split: option.splits)
  from vl_replay_success [OF vl_wf_validate [OF val assms(1)] rep] obtain L where
    L: "visit_all f L s0 = (s, None)" "length closed = nat (lcPartitions c)"
    "\<forall>p < nat (lcPartitions c). \<exists>items. partition_log c (fetched fetches) p items (closed ! p) \<and> votes_at p L = items_votes items"
    by blast
  then obtain items where "\<forall>p < nat (lcPartitions c). partition_log c (fetched fetches) p (items p) (closed ! p) \<and>
    votes_at p L = items_votes (items p)" by metis
  with L show ?thesis by (intro exI [of _ L] exI [of _ items]) (simp add: m manifest_of_def)
qed

lemma demo_Replay:
  "vl_Replay False demo_vl demo_fetches_slow (Some audit_visit) empty_audit = Some (Inr demo_manifest, demo_audit3)"
proof -
  have "vl_replay False demo_vl demo_fetches_slow None (Some audit_visit) empty_audit = Some ([6], demo_audit3, None)"
    by (simp add: vl_replay_def vl_scan_def Let_def demo_partitions demo_scan_slow)
  then show ?thesis by (simp add: vl_Replay_def demo_vl_ok manifest_of_def demo_manifest_def) (simp add: demo_vl_def)
qed

theorem votelog_replay_grammar_witness:
  "\<exists>L items. visit_all audit_visit L empty_audit = (demo_audit3, None) \<and>
     partition_log demo_vl (fetched demo_fetches_slow) 0 items 6 \<and> votes_at 0 L = items_votes items"
  using votelog_replay_grammar [OF demo_vl_ok(1) demo_Replay] by (auto simp: demo_partitions demo_manifest_def)

text \<open>C8. The audit counts, for every token, the first committed vote of the partition the token is routed to, and
  nothing else: the canonical vote is that one, each option's count is the number of tokens whose canonical vote has
  it, and the attempts are all the committed votes, at most twelve million.\<close>

theorem votelog_audit_first_vote:
  assumes "length (lcPollID c) = 16" and "vl_Audit client_fails c fetches = Some (Inr (m, a))"
  shows "\<exists>items. (\<forall>p < nat (lcPartitions c).
      partition_log c (fetched fetches) p (items p) (snd (lmPartitions m ! p))) \<and>
    (\<forall>t. auCanonical a t = map_of (by_token (items_votes (items (nat (vl_Partition c t))))) t) \<and>
    (\<forall>i < 32. auCounts a ! i = card {t. \<exists>v. auCanonical a t = Some v \<and> bit (lvChoice v) i}) \<and>
    auTotal a = (\<Sum>p < nat (lcPartitions c). length (items_votes (items p))) \<and> auTotal a \<le> 12000000"
proof -
  from audit_facts [OF assms] obtain items where
    "\<forall>p < nat (lcPartitions c). partition_log c (fetched fetches) p (items p) (snd (lmPartitions m ! p)) \<and>
       fst (lmPartitions m ! p) = int p"
    "\<forall>t. auCanonical a t = map_of (by_token (items_votes (items (nat (vl_Partition c t))))) t"
    "auTotal a = (\<Sum>p < nat (lcPartitions c). length (items_votes (items p)))" "auTotal a \<le> 12000000" "audit_inv a"
    by blast
  then show ?thesis by (intro exI [of _ items]) (simp add: audit_inv_def)
qed

theorem votelog_audit_first_vote_witness:
  "auCounts demo_audit3 ! 2 = card {t. \<exists>v. auCanonical demo_audit3 t = Some v \<and> bit (lvChoice v) 2} \<and>
     auTotal demo_audit3 \<le> 12000000"
  using votelog_audit_first_vote [OF demo_vl_ok(1) demo_Audit(1)] by auto



end
