(* ===== verification/Votelog_Store_Props.thy ===== *)
theory Votelog_Store_Props
  imports Votelog_Store_Inv Votelog_Props
begin

text \<open>
  The properties of the live Kafka journal over every interleaving of its writers with any
  number of callers: bounded queues, receipts that survive in the committed journal, and a
  sealed journal whose audit holds every acknowledged vote.
\<close>

section \<open>The store\<close>

definition vl_initial :: "vl_store \<Rightarrow> bool" where
  "vl_initial s \<longleftrightarrow> store_cfg_ok (vsCfg s) \<and> \<not> vsCancelled s \<and> vsCounters s = zero_counters \<and>
     length (vsWriters s) = nat (lcPartitions (vsCfg s)) \<and>
     (\<forall>i < length (vsWriters s). \<exists>closed log. vsWriters s ! i = new_writer (int i) closed log \<and>
        log_ok (vsCfg s) (int i) (if closed \<ge> 0 then Some closed else None) log)"

definition vl_store_inv :: "vl_store \<Rightarrow> bool" where
  "vl_store_inv s \<longleftrightarrow> store_cfg_ok (vsCfg s) \<and> length (vsWriters s) = nat (lcPartitions (vsCfg s)) \<and>
     (\<forall>i < length (vsWriters s). vwPartition (vsWriters s ! i) = int i \<and>
        vl_writer_inv (vsCfg s) (vsCancelled s) (vsWriters s ! i))"

lemma writer_inv_new:
  assumes "store_cfg_ok c" and "log_ok c part (if closed \<ge> 0 then Some closed else None) log"
  shows "vl_writer_inv c False (new_writer part closed log)"
proof -
  have "0 \<le> lcQueuePerPartition c" "0 \<le> lcBatchSize c"
    using assms(1) vl_validate_bounds(4,6) [of c] by (simp_all add: store_cfg_ok_def)
  with assms(2) show ?thesis
    by (auto simp: vl_writer_inv_def queue_ok_def journal_ok_def flags_ok_def new_writer_def l_held_def l_ended_def)
qed

lemma pending_one_ok:
  assumes cfg: "store_cfg_ok c" and tok: "length token = 16" "token \<noteq> zero16" "vl_validChoice c choice"
    and now: "\<not> now < lcStartsAt c" "now < lcEndsAt c" and part: "vl_Partition c token = part"
  shows "pending_ok c part \<lparr>vpVote = \<lparr>lvToken = token, lvChoice = choice, lvAdmittedAt = now\<rparr>, vpFrame = []\<rparr>"
proof -
  have "nano_range now" using cfg now nano_range_between [of "lcStartsAt c" "lcEndsAt c" now] by (simp add: store_cfg_ok_def)
  moreover have "1 \<le> lcBatchSize c" using cfg vl_validate_bounds(4) by (simp add: store_cfg_ok_def)
  ultimately show ?thesis
    using assms by (simp add: pending_ok_def pending_votes_def log_entry_ok_def validFrameVote_def pending_size_def)
qed

lemma enqueue_inv:
  assumes inv: "vl_writer_inv c cancelled w" and gate: "\<not> vwSealed w" "\<not> vwClosing w" "\<not> vwFailed w"
    and p: "pending_ok c (vwPartition w) p" and size: "int n = int (pending_size p)"
    and room: "vwQueuedVotes w + int n \<le> lcQueuePerPartition c"
  shows "vl_writer_inv c cancelled (w\<lparr>vwQueuedVotes := vwQueuedVotes w + int n, vwJobs := vwJobs w @ [p]\<rparr>)"
proof -
  have "queue_ok c (w\<lparr>vwQueuedVotes := vwQueuedVotes w + int n, vwJobs := vwJobs w @ [p]\<rparr>)"
    using inv p room size by (simp add: vl_writer_inv_def queue_ok_def l_held_def)
  moreover have "journal_ok c (w\<lparr>vwQueuedVotes := vwQueuedVotes w + int n, vwJobs := vwJobs w @ [p]\<rparr>)"
    using inv by (simp add: vl_writer_inv_def journal_ok_def l_ended_def split: if_splits)
  moreover have "flags_ok cancelled (w\<lparr>vwQueuedVotes := vwQueuedVotes w + int n, vwJobs := vwJobs w @ [p]\<rparr>)"
    using inv gate by (auto simp: vl_writer_inv_def flags_ok_def l_ended_def)
  ultimately show ?thesis by (simp add: vl_writer_inv_def)
qed

lemma submit_inv:
  assumes cfg: "store_cfg_ok c" and inv: "vl_writer_inv c cancelled w" and tok: "length token = 16"
    and part: "vwPartition w = vl_Partition c token"
    and sub: "vl_Submit c ctx_done stopped now token choice (ct, w) = ((ct', w'), r)"
  shows "vl_writer_inv c cancelled w' \<and> vwPartition w' = vwPartition w"
proof (cases r)
  case (Inl e)
  with sub have "w' = w" by (auto simp: vl_Submit_def Let_def split: if_splits)
  with inv show ?thesis by simp
next
  case (Inr p)
  then have p: "p = \<lparr>vpVote = \<lparr>lvToken = token, lvChoice = choice, lvAdmittedAt = now\<rparr>, vpFrame = []\<rparr>"
    and w': "w' = w\<lparr>vwQueuedVotes := vwQueuedVotes w + int 1, vwJobs := vwJobs w @ [p]\<rparr>"
    and ok: "token \<noteq> zero16" "vl_validChoice c choice" "\<not> now < lcStartsAt c" "now < lcEndsAt c"
    and gate: "\<not> vwSealed w" "\<not> vwClosing w" "\<not> vwFailed w" "\<not> vwQueuedVotes w \<ge> lcQueuePerPartition c"
    using sub by (auto simp: vl_Submit_def Let_def split: if_splits)
  have "pending_ok c (vwPartition w) p" unfolding p by (rule pending_one_ok [OF cfg tok ok]) (simp add: part)
  moreover have "pending_size p = 1" by (simp add: p pending_size_def)
  ultimately show ?thesis
    unfolding w' using enqueue_inv [OF inv gate(1-3), of p 1] gate(4) by simp
qed

lemma submit_frame_inv:
  assumes cfg: "store_cfg_ok c" and inv: "vl_writer_inv c cancelled w"
    and tok: "\<forall>inp \<in> set inputs. length (liToken inp) = 16"
    and part: "vwPartition w = vl_Partition c (liToken (hd inputs))"
    and sub: "vl_SubmitFrame c ctx_done stopped now inputs (ct, w) = ((ct', w'), r)"
  shows "vl_writer_inv c cancelled w' \<and> vwPartition w' = vwPartition w"
proof (cases r)
  case (Inl e)
  with sub have "w' = w" by (auto simp: vl_SubmitFrame_def Let_def split: if_splits)
  with inv show ?thesis by simp
next
  case (Inr p)
  let ?vs = "map (\<lambda>inp. \<lparr>lvToken = liToken inp, lvChoice = liChoice inp, lvAdmittedAt = now\<rparr>) inputs"
  from Inr have p: "p = \<lparr>vpVote = no_vote, vpFrame = ?vs\<rparr>"
    and w': "w' = w\<lparr>vwQueuedVotes := vwQueuedVotes w + int (length inputs), vwJobs := vwJobs w @ [p]\<rparr>"
    and ok: "inputs \<noteq> []" "int (length inputs) \<le> lcBatchSize c" "length inputs \<le> 4096"
      "\<not> now < lcStartsAt c" "now < lcEndsAt c"
    and good: "\<forall>inp \<in> set inputs. \<not> frame_input_bad c (vwPartition w) inp"
    and gate: "\<not> vwSealed w" "\<not> vwClosing w" "\<not> vwFailed w"
      "\<not> vwQueuedVotes w + int (length inputs) > lcQueuePerPartition c"
    using sub part by (auto simp: vl_SubmitFrame_def Let_def split: if_splits)
  have "nano_range now"
    using cfg ok nano_range_between [of "lcStartsAt c" "lcEndsAt c" now] by (simp add: store_cfg_ok_def)
  then have "list_all (\<lambda>v. log_entry_ok c v \<and> vl_Partition c (lvToken v) = vwPartition w) ?vs"
    using good tok ok(4,5) by (auto simp: list_all_iff log_entry_ok_def validFrameVote_def frame_input_bad_def)
  then have "pending_ok c (vwPartition w) p"
    using ok(1-3) pending_votes_frame [of p "\<lambda>v. log_entry_ok c v \<and> vl_Partition c (lvToken v) = vwPartition w"]
    by (auto simp: pending_ok_def p pending_size_def)
  moreover have "pending_size p = length inputs" using ok(1) by (simp add: p pending_size_def)
  ultimately show ?thesis
    unfolding w' using enqueue_inv [OF inv gate(1-3), of p "length inputs"] gate(4) by simp
qed

lemma seal_begin_inv:
  "vl_writer_inv c cancelled w \<Longrightarrow> vl_writer_inv c cancelled (fst (seal_begin w)) \<and>
     vwPartition (fst (seal_begin w)) = vwPartition w"
proof -
  assume inv: "vl_writer_inv c cancelled w"
  let ?w = "w\<lparr>vwClosing := True, vwSealSignal := True\<rparr>"
  have "queue_ok c ?w" using inv by (simp add: vl_writer_inv_def queue_ok_def l_held_def)
  moreover have "journal_ok c ?w" using inv by (simp add: vl_writer_inv_def journal_ok_def l_ended_def split: if_splits)
  moreover have "\<not> vwSealed w \<Longrightarrow> flags_ok cancelled ?w"
    using inv by (simp add: vl_writer_inv_def flags_ok_def l_ended_def)
  ultimately show ?thesis using inv by (simp add: seal_begin_def vl_writer_inv_def)
qed

lemma cancel_inv: "vl_writer_inv c cancelled w \<Longrightarrow> vl_writer_inv c True w"
  by (auto simp: vl_writer_inv_def flags_ok_def)

lemma set_writer_inv:
  assumes "vl_store_inv s" and "i < length (vsWriters s)"
    and "vl_writer_inv (vsCfg s) (vsCancelled s) (snd st) \<and> vwPartition (snd st) = vwPartition (vsWriters s ! i)"
  shows "vl_store_inv (set_writer i st s)"
  using assms by (auto simp: vl_store_inv_def set_writer_def nth_list_update)

lemma token_writer:
  assumes "vl_store_inv s"
  shows "nat (vl_Partition (vsCfg s) t) < length (vsWriters s)"
    and "vwPartition (vsWriters s ! nat (vl_Partition (vsCfg s) t)) = vl_Partition (vsCfg s) t"
proof -
  have val: "vl_validate (vsCfg s) = None" using assms by (simp add: vl_store_inv_def store_cfg_ok_def)
  note r = vl_Partition_range [OF vl_validate_bounds(1,2) [OF val], of t]
  then show "nat (vl_Partition (vsCfg s) t) < length (vsWriters s)" using assms by (simp add: vl_store_inv_def)
  with assms r show "vwPartition (vsWriters s ! nat (vl_Partition (vsCfg s) t)) = vl_Partition (vsCfg s) t"
    by (simp add: vl_store_inv_def)
qed

lemma vl_step_inv: "vl_step s t \<Longrightarrow> vl_store_inv s \<Longrightarrow> vl_store_inv t"
proof (induction rule: vl_step.induct)
  case (run i s st)
  then show ?case
    using writer_step_inv [OF _ run(2)] by (intro set_writer_inv) (auto simp: vl_store_inv_def get_writer_def)
next
  case (submit i s token stopped ctx_done now choice)
  note w = token_writer [OF submit.prems, of token, folded submit.hyps(1)]
  obtain ct' w' r where sub: "vl_Submit (vsCfg s) ctx_done stopped now token choice (vsCounters s, vsWriters s ! i) = ((ct', w'), r)"
    by (metis prod.exhaust)
  have "vl_writer_inv (vsCfg s) (vsCancelled s) w' \<and> vwPartition w' = vwPartition (vsWriters s ! i)"
    using submit.prems w by (intro submit_inv [OF _ _ submit.hyps(2) w(2) sub]) (auto simp: vl_store_inv_def)
  with submit.prems w(1) sub show ?case by (intro set_writer_inv) (simp_all add: get_writer_def)
next
  case (submit_frame inputs i s stopped ctx_done now)
  note w = token_writer [OF submit_frame.prems, of "liToken (hd inputs)", folded submit_frame.hyps(2)]
  obtain ct' w' r where sub: "vl_SubmitFrame (vsCfg s) ctx_done stopped now inputs (vsCounters s, vsWriters s ! i) = ((ct', w'), r)"
    by (metis prod.exhaust)
  have "vl_writer_inv (vsCfg s) (vsCancelled s) w' \<and> vwPartition w' = vwPartition (vsWriters s ! i)"
    using submit_frame.prems w by (intro submit_frame_inv [OF _ _ submit_frame.hyps(3) w(2) sub]) (auto simp: vl_store_inv_def)
  with submit_frame.prems w(1) sub show ?case by (intro set_writer_inv) (simp_all add: get_writer_def)
next
  case (seal i s readings)
  then show ?case
    using seal_begin_inv [of "vsCfg s" "vsCancelled s" "vsWriters s ! i"]
    by (intro set_writer_inv) (auto simp: vl_store_inv_def)
next
  case (close s)
  then show ?case using cancel_inv by (auto simp: vl_store_inv_def)
qed

lemma vl_initial_inv: "vl_initial s \<Longrightarrow> vl_store_inv s"
  unfolding vl_store_inv_def vl_initial_def using writer_inv_new by (fastforce simp: new_writer_def)

interpretation vl: transition_system vl_initial vl_step vl_store_inv
  by unfold_locales (auto intro: vl_initial_inv vl_step_inv)

lemma reachable_writer:
  assumes "vl_initial s0" and "vl_step\<^sup>*\<^sup>* s0 s" and "i < length (vsWriters s)"
  shows "vl_writer_inv (vsCfg s) (vsCancelled s) (vsWriters s ! i)" and "vwPartition (vsWriters s ! i) = int i"
    and "store_cfg_ok (vsCfg s)"
  using vl.invariant_reachable [OF assms(1,2)] assms(3) by (auto simp: vl_store_inv_def)

lemma run_steps:
  assumes "(vl_writer_step (vsCfg s) (vsCancelled s))\<^sup>*\<^sup>* (get_writer i s) st" and "i < length (vsWriters s)"
  shows "vl_step\<^sup>*\<^sup>* s (set_writer i st s)"
  using assms(1)
proof (induction rule: rtranclp_induct)
  case base
  have "set_writer i (get_writer i s) s = s" by (simp add: set_writer_def get_writer_def)
  then show ?case by simp
next
  case (step st st')
  have "get_writer i (set_writer i st s) = st" "set_writer i st' (set_writer i st s) = set_writer i st' s"
    using assms(2) by (simp_all add: set_writer_def get_writer_def)
  with step(2) assms(2) vl_step.run [of i "set_writer i st s" st'] have "vl_step (set_writer i st s) (set_writer i st' s)"
    by (simp add: set_writer_def)
  with step(3) show ?case by simp
qed

section \<open>A run\<close>

definition demo_boot_log :: "kafka_record list" where
  "demo_boot_log = [demo_record 0 [] (encodeRecord demo_vl 2 no_vote)]"

definition demo_store :: vl_store where
  "demo_store = \<lparr>vsCfg = demo_vl, vsCancelled = False, vsCounters = zero_counters,
     vsWriters = [new_writer 0 (-1) demo_boot_log]\<rparr>"

definition demo_tx :: "int \<Rightarrow> vl_transaction" where
  "demo_tx off = \<lparr>txBegin = None, txProduce = None, txBeforeHook = None, txEnd = None, txAfterHook = None,
     txOffset = (\<lambda>i. off + int i), txLanded = False\<rparr>"

definition demo_pending :: vl_pending where
  "demo_pending = \<lparr>vpVote = demo_log_vote 1 2, vpFrame = []\<rparr>"

text \<open>The vote submitted; then dequeued, batched and committed; then the writer sealed.\<close>

definition demo_run1 :: vl_store where
  "demo_run1 = set_writer 0 (fst (vl_Submit demo_vl False False 2000000000 (replicate 16 1) 2 (get_writer 0 demo_store))) demo_store"

definition demo_run2 :: vl_store where
  "demo_run2 = set_writer 0 (l_append demo_pending (l_room demo_vl (demo_tx 2) demo_pending (l_dequeue (get_writer 0 demo_run1)))) demo_run1"

definition demo_run3 :: vl_store where
  "demo_run3 = set_writer 0 (l_tick demo_vl (demo_tx 2) (l_check demo_vl (demo_tx 2) (get_writer 0 demo_run2))) demo_run2"

definition demo_run4 :: vl_store where
  "demo_run4 = set_writer 0 (vsCounters demo_run3, fst (seal_begin (vsWriters demo_run3 ! 0))) demo_run3"

definition demo_run5 :: vl_store where
  "demo_run5 = set_writer 0 (l_close demo_vl (demo_tx 4) (l_last demo_vl (demo_tx 4) (l_seal (get_writer 0 demo_run4)))) demo_run4"

lemma demo_store_ok: "vl_initial demo_store"
proof -
  have "log_item demo_vl (demo_record 0 [] (encodeRecord demo_vl 2 no_vote)) = Some Boot"
    using record_value [OF demo_vl_ok(3) control_ok(1)] by (simp add: log_item_def demo_record_def)
  then have "log_ok demo_vl 0 None demo_boot_log"
    unfolding log_ok_def demo_boot_log_def
    by (intro conjI exI [of _ "[Boot]"]) (simp_all add: open_log_def demo_record_def)
  moreover have "nano_range (lcStartsAt demo_vl)" "nano_range (lcEndsAt demo_vl)"
    by (simp_all add: demo_vl_def nano_range_def)
  ultimately show ?thesis
    using demo_vl_ok by (auto simp: vl_initial_def demo_store_def store_cfg_ok_def demo_partitions
        intro!: exI [of _ "-1"] exI [of _ demo_boot_log])
qed

lemma demo_vl_fields:
  "lcStartsAt demo_vl = 1000000000" "lcEndsAt demo_vl = 61000000000" "lcBatchSize demo_vl = 8"
  "lcQueuePerPartition demo_vl = 16"
  by (simp_all add: demo_vl_def)

lemma demo_choice: "vl_validChoice demo_vl 2" "(replicate 16 (1 :: byte) = zero16) = False"
  by code_simp+

lemma demo_run1_value:
  "demo_run1 = demo_store\<lparr>vsCounters := zero_counters\<lparr>ctAdmitted := 1\<rparr>,
     vsWriters := [(new_writer 0 (-1) demo_boot_log)\<lparr>vwQueuedVotes := 1, vwJobs := [demo_pending]\<rparr>]\<rparr>"
  by (simp add: demo_run1_def demo_store_def get_writer_def set_writer_def vl_Submit_def new_writer_def Let_def
      demo_pending_def demo_log_vote_def zero_counters_def demo_vl_fields demo_choice)

lemma demo_run2_value:
  "demo_run2 = demo_store\<lparr>vsCounters := zero_counters\<lparr>ctAdmitted := 1\<rparr>,
     vsWriters := [(new_writer 0 (-1) demo_boot_log)\<lparr>vwPhase := LCheck, vwBatch := [demo_pending], vwBatchVotes := 1\<rparr>]\<rparr>"
  unfolding demo_run2_def demo_run1_value
  by (simp add: demo_store_def get_writer_def set_writer_def l_dequeue_def l_room_def l_append_def to_phase_def
      new_writer_def Let_def demo_vl_fields) (simp add: demo_pending_def pending_size_def)

definition demo_vote_log :: "kafka_record list" where
  "demo_vote_log = demo_boot_log @ [demo_record 2 (replicate 16 1) (encodeRecord demo_vl 1 (demo_log_vote 1 2))]"

definition demo_log_receipt :: vl_receipt where
  "demo_log_receipt = \<lparr>lrPartition = 0, lrOffset = 2, lrIndex = 0, lrAdmittedAt = 2000000000\<rparr>"

definition demo_counters :: vl_counters where
  "demo_counters = \<lparr>ctAdmitted = 1, ctConfirmed = 1, ctTransactions = 1, ctTransactionRecords = 1, ctMaxBatch = 1,
     ctFailures = 0, ctCommittedFrames = 0, ctCommittedValueBytes = 80, ctCommittedKeyBytes = 16\<rparr>"

lemma demo_flush:
  "run_flush demo_vl (demo_tx 2) (zero_counters\<lparr>ctAdmitted := 1\<rparr>,
      (new_writer 0 (-1) demo_boot_log)\<lparr>vwBatch := [demo_pending], vwBatchVotes := 1\<rparr>) =
    ((demo_counters, (new_writer 0 (-1) demo_boot_log)\<lparr>vwLog := demo_vote_log,
        vwAnswers := [(demo_pending, Inr demo_log_receipt)]\<rparr>), True)"
proof -
  have len: "length (encodeRecord demo_vl 1 (demo_log_vote 1 2)) = 80" by code_simp
  show ?thesis
    by (simp add: run_flush_def flush_batch_def pending_record_def demo_pending_def vl_commit_def demo_tx_def Let_def
        new_writer_def plain_record_def with_offsets_def count_committed_def demo_counters_def zero_counters_def
        pending_size_def demo_vote_fields len demo_vote_log_def demo_record_def pending_receipt_def demo_log_receipt_def)
      (simp add: demo_log_vote_def)
qed

lemma demo_run3_value:
  "demo_run3 = demo_store\<lparr>vsCounters := demo_counters,
     vsWriters := [(new_writer 0 (-1) demo_boot_log)\<lparr>vwLog := demo_vote_log,
        vwAnswers := [(demo_pending, Inr demo_log_receipt)]\<rparr>]\<rparr>"
proof -
  have idle: "(new_writer 0 (-1) demo_boot_log)\<lparr>vwPhase := LIdle, vwBatch := [demo_pending], vwBatchVotes := 1\<rparr>
      = (new_writer 0 (-1) demo_boot_log)\<lparr>vwBatch := [demo_pending], vwBatchVotes := 1\<rparr>"
    by (simp add: new_writer_def)
  have "l_check demo_vl (demo_tx 2) (get_writer 0 demo_run2) = (zero_counters\<lparr>ctAdmitted := 1\<rparr>,
      (new_writer 0 (-1) demo_boot_log)\<lparr>vwBatch := [demo_pending], vwBatchVotes := 1\<rparr>)"
    unfolding idle [symmetric] demo_run2_value by (simp add: l_check_def get_writer_def to_phase_def demo_vl_fields)
  then show ?thesis
    unfolding demo_run3_def by (simp add: l_tick_def demo_flush set_writer_def demo_run2_value del: One_nat_def)
qed

definition demo_closed_log :: "kafka_record list" where
  "demo_closed_log = demo_vote_log @ [demo_record 4 [] (encodeRecord demo_vl 3 no_vote)]"

lemma demo_run5_value:
  "demo_run5 = demo_store\<lparr>vsCounters := demo_counters,
     vsWriters := [(new_writer 0 (-1) demo_boot_log)\<lparr>vwClosing := True, vwSealed := True, vwEnd := 4, vwSealing := True,
        vwPhase := LDrain, vwLog := demo_closed_log, vwAnswers := [(demo_pending, Inr demo_log_receipt)]\<rparr>]\<rparr>"
  unfolding demo_run5_def demo_run4_def demo_run3_value
  by (simp add: demo_store_def get_writer_def set_writer_def l_seal_def l_last_def l_close_def run_flush_empty to_phase_def
      vl_commit_def demo_tx_def new_writer_def Let_def seal_begin_def with_offsets_def plain_record_def demo_closed_log_def
      demo_record_def)

lemma demo_fresh: "offsets_fresh demo_boot_log (txOffset (demo_tx 2))" "offsets_fresh demo_vote_log (txOffset (demo_tx 4))"
  by (simp_all add: offsets_fresh_def demo_boot_log_def demo_vote_log_def demo_record_def demo_tx_def)

lemma demo_run_vote: "vl_step\<^sup>*\<^sup>* demo_store demo_run3"
proof -
  let ?step = "vl_writer_step demo_vl False"
  let ?st1 = "get_writer 0 demo_run1" and ?tx = "demo_tx 2"
  have 1: "vl_step demo_store demo_run1"
    unfolding demo_run1_def
    using vl_step.submit [of 0 demo_store "replicate 16 1" False False 2000000000 2]
    by (simp add: demo_store_def demo_partition)
  define w1 where "w1 = (new_writer 0 (-1) demo_boot_log)\<lparr>vwQueuedVotes := 1, vwJobs := [demo_pending]\<rparr>"
  define ct where "ct = zero_counters\<lparr>ctAdmitted := 1\<rparr>"
  have st1: "?st1 = (ct, w1)" by (simp add: demo_run1_value get_writer_def ct_def w1_def)
  have d: "?step (ct, w1) (l_dequeue (ct, w1))" by (rule vl_writer_step.dequeue) (simp_all add: w1_def new_writer_def)
  have st2: "l_dequeue (ct, w1) = (ct, w1\<lparr>vwJobs := [], vwPhase := LHold demo_pending\<rparr>)"
    by (simp add: l_dequeue_def w1_def)
  have r: "?step (l_dequeue (ct, w1)) (l_room demo_vl ?tx demo_pending (l_dequeue (ct, w1)))"
    unfolding st2 by (rule vl_writer_step.room) (simp_all add: w1_def new_writer_def demo_fresh)
  have st3: "l_room demo_vl ?tx demo_pending (l_dequeue (ct, w1)) = (ct, w1\<lparr>vwJobs := [], vwPhase := LRoom demo_pending\<rparr>)"
    unfolding st2 by (simp add: l_room_def to_phase_def w1_def new_writer_def demo_vl_fields)
      (simp add: demo_pending_def pending_size_def)
  have a: "?step (l_room demo_vl ?tx demo_pending (l_dequeue (ct, w1)))
      (l_append demo_pending (l_room demo_vl ?tx demo_pending (l_dequeue (ct, w1))))"
    unfolding st3 by (rule vl_writer_step.append) simp
  have run2: "vl_step\<^sup>*\<^sup>* demo_run1 demo_run2"
    unfolding demo_run2_def st1
    by (rule run_steps) (use d r a st1 in \<open>simp_all add: demo_run1_value demo_store_def\<close>)
  define w2 where "w2 = (new_writer 0 (-1) demo_boot_log)\<lparr>vwPhase := LCheck, vwBatch := [demo_pending], vwBatchVotes := 1\<rparr>"
  have g2: "get_writer 0 demo_run2 = (ct, w2)" by (simp add: demo_run2_value get_writer_def ct_def w2_def)
  have c: "?step (ct, w2) (l_check demo_vl ?tx (ct, w2))"
    by (rule vl_writer_step.check) (simp_all add: w2_def new_writer_def demo_fresh)
  have st4: "l_check demo_vl ?tx (ct, w2) = (ct, w2\<lparr>vwPhase := LIdle\<rparr>)"
    by (simp add: l_check_def to_phase_def w2_def demo_vl_fields)
  have t: "?step (l_check demo_vl ?tx (ct, w2)) (l_tick demo_vl ?tx (l_check demo_vl ?tx (ct, w2)))"
    unfolding st4 by (rule vl_writer_step.tick) (simp_all add: w2_def new_writer_def demo_fresh)
  have "vl_step\<^sup>*\<^sup>* demo_run2 demo_run3"
    unfolding demo_run3_def g2 by (rule run_steps) (use c t g2 in \<open>simp_all add: demo_run2_value demo_store_def\<close>)
  with 1 run2 show ?thesis by simp
qed

lemma demo_run_sealed: "vl_step\<^sup>*\<^sup>* demo_store demo_run5"
proof -
  let ?step = "vl_writer_step demo_vl False" and ?tx = "demo_tx 4"
  have "vl_step demo_run3 demo_run4"
    unfolding demo_run4_def
    by (rule vl_step.seal [where readings = "[(False, 61000000000, False)]"])
      (simp_all add: demo_run3_value demo_store_def demo_vl_fields time_sub_def)
  define w where "w = (new_writer 0 (-1) demo_boot_log)\<lparr>vwClosing := True, vwSealSignal := True, vwLog := demo_vote_log,
    vwAnswers := [(demo_pending, Inr demo_log_receipt)]\<rparr>"
  have g: "get_writer 0 demo_run4 = (demo_counters, w)"
    by (simp add: demo_run4_def demo_run3_value get_writer_def set_writer_def seal_begin_def w_def new_writer_def demo_store_def)
  have s: "?step (demo_counters, w) (l_seal (demo_counters, w))"
    by (rule vl_writer_step.seal) (simp_all add: w_def new_writer_def)
  have st1: "l_seal (demo_counters, w) = (demo_counters, w\<lparr>vwSealSignal := False, vwSealing := True\<rparr>)"
    by (simp add: l_seal_def)
  have l: "?step (l_seal (demo_counters, w)) (l_last demo_vl ?tx (l_seal (demo_counters, w)))"
    unfolding st1 by (rule vl_writer_step.last) (simp_all add: w_def new_writer_def demo_fresh)
  have st2: "l_last demo_vl ?tx (l_seal (demo_counters, w)) = (demo_counters, w\<lparr>vwSealSignal := False, vwSealing := True, vwPhase := LClose\<rparr>)"
    unfolding st1 by (simp add: l_last_def run_flush_empty to_phase_def w_def new_writer_def)
  have c: "?step (l_last demo_vl ?tx (l_seal (demo_counters, w))) (l_close demo_vl ?tx (l_last demo_vl ?tx (l_seal (demo_counters, w))))"
    unfolding st2 by (rule vl_writer_step.close) (simp_all add: w_def new_writer_def demo_fresh)
  have "vl_step\<^sup>*\<^sup>* demo_run4 demo_run5"
    unfolding demo_run5_def g
    by (rule run_steps) (use s l c g in \<open>simp_all add: demo_run4_def demo_run3_value demo_store_def set_writer_def\<close>)
  with demo_run_vote \<open>vl_step demo_run3 demo_run4\<close> show ?thesis by simp
qed

section \<open>Properties\<close>

text \<open>C5. A receipt is never given for a vote that was not committed: whatever the interleaving, an answer with a
  receipt names the partition and the offset of a record of the committed journal, and that record is decoded to
  exactly the submitted votes, in order.\<close>

theorem votelog_receipt_committed:
  assumes "vl_initial s0" and "vl_step\<^sup>*\<^sup>* s0 s" and "i < length (vsWriters s)"
    and "(p, Inr receipt) \<in> set (vwAnswers (vsWriters s ! i))"
  shows "lrPartition receipt = int i \<and> (\<exists>r \<in> set (vwLog (vsWriters s ! i)). krOffset r = lrOffset receipt \<and>
    log_item (vsCfg s) r = Some (Votes (map (at_record r) (pending_votes p))))"
proof -
  have "journal_ok (vsCfg s) (vsWriters s ! i)" and part: "vwPartition (vsWriters s ! i) = int i"
    using reachable_writer [OF assms(1-3)] by (simp_all add: vl_writer_inv_def)
  then have "receipt_ok (vsCfg s) (int i) (vwLog (vsWriters s ! i)) (p, Inr receipt)"
    using assms(4) unfolding journal_ok_def by metis
  then show ?thesis by (simp add: receipt_ok_def)
qed

theorem votelog_receipt_committed_witness:
  "\<exists>r \<in> set demo_vote_log. krOffset r = 2 \<and>
     log_item demo_vl r = Some (Votes (map (at_record r) (pending_votes demo_pending)))"
  using votelog_receipt_committed [OF demo_store_ok demo_run_vote, of 0 demo_pending demo_log_receipt]
  by (simp add: demo_run3_value demo_store_def demo_log_receipt_def)

text \<open>C10. Once a partition is sealed, every acknowledged vote is counted: any reader that is delivered the committed
  records of the partition reads a closed journal that ends at the offset \<^verbatim>\<open>Seal\<close> reports, and the votes of every
  receipt are in it, at the receipt's offset.\<close>

theorem votelog_sealed_holds_acknowledged:
  assumes "vl_initial s0" and "vl_step\<^sup>*\<^sup>* s0 s" and "i < length (vsWriters s)" and "vwSealed (vsWriters s ! i)"
    and "prefix (vwLog (vsWriters s ! i)) (delivered i R)"
  shows "\<exists>items. partition_log (vsCfg s) R i items (vwEnd (vsWriters s ! i)) \<and>
    (\<forall>p receipt k v. (p, Inr receipt) \<in> set (vwAnswers (vsWriters s ! i)) \<longrightarrow> (k, v) \<in> set (pending_votes p) \<longrightarrow>
       (\<lparr>lpPartition = int i, lpOffset = lrOffset receipt, lpIndex = k\<rparr>, v) \<in> set (items_votes items))"
proof -
  let ?w = "vsWriters s ! i" and ?c = "vsCfg s"
  have "journal_ok ?c ?w" and part: "vwPartition ?w = int i"
    using reachable_writer [OF assms(1-3)] by (simp_all add: vl_writer_inv_def)
  then have log: "log_ok ?c (int i) (Some (vwEnd ?w)) (vwLog ?w)"
    and ans: "\<forall>a \<in> set (vwAnswers ?w). receipt_ok ?c (int i) (vwLog ?w) a"
    using assms(4) by (simp_all add: journal_ok_def)
  obtain items n where items: "map (log_item ?c) (vwLog ?w) = map Some items" "n \<le> length (vwLog ?w)"
    "closed_log (take n items)" "set (drop n items) \<subseteq> {Boot}" "vwEnd ?w = krOffset (last (take n (vwLog ?w)))"
    and parts: "\<forall>r \<in> set (vwLog ?w). krPartition r = int i"
    using log by (auto simp: log_ok_def ended_log_def)
  have "map (log_item ?c) (take n (vwLog ?w)) = map Some (take n items)" using items(1) by (metis take_map)
  moreover have "prefix (take n (vwLog ?w)) (delivered i R)"
    using assms(5) take_is_prefix prefix_order.trans by blast
  ultimately have "partition_log ?c R i (take n items) (vwEnd ?w)"
    unfolding partition_log_def using items(3,5) by blast
  moreover have "(\<lparr>lpPartition = int i, lpOffset = lrOffset receipt, lpIndex = k\<rparr>, v) \<in> set (items_votes (take n items))"
    if a: "(p, Inr receipt) \<in> set (vwAnswers ?w)" and v: "(k, v) \<in> set (pending_votes p)" for p receipt k v
  proof -
    have "receipt_ok ?c (int i) (vwLog ?w) (p, Inr receipt)" using ans a by blast
    then obtain r where r: "r \<in> set (vwLog ?w)" "krOffset r = lrOffset receipt"
      "log_item ?c r = Some (Votes (map (at_record r) (pending_votes p)))" by (auto simp: receipt_ok_def)
    obtain j where j: "j < length (vwLog ?w)" "r = vwLog ?w ! j" using r(1) by (auto simp: in_set_conv_nth)
    have len: "length items = length (vwLog ?w)" using items(1) by (metis length_map)
    have it: "items ! j = Votes (map (at_record r) (pending_votes p))"
      using items(1) j r(3) len by (metis nth_map option.inject)
    have "j < n"
    proof (rule ccontr)
      assume "\<not> j < n"
      then have "drop n items ! (j - n) = items ! j" "j - n < length (drop n items)" using j len items(2) by simp_all
      then have "items ! j \<in> set (drop n items)" by (metis nth_mem)
      with items(4) it show False by auto
    qed
    then have "items ! j \<in> set (take n items)" using j len by (auto simp: in_set_conv_nth intro!: exI [of _ j])
    moreover have "(\<lparr>lpPartition = int i, lpOffset = lrOffset receipt, lpIndex = k\<rparr>, v) \<in> set (item_votes (items ! j))"
      using v r(1,2) parts by (auto simp: it at_record_def image_iff intro!: bexI [of _ "(k, v)"])
    ultimately show ?thesis by (auto simp: items_votes_def)
  qed
  ultimately show ?thesis by blast
qed

theorem votelog_sealed_holds_acknowledged_witness:
  "\<exists>items. partition_log demo_vl demo_closed_log 0 items 4 \<and>
     (\<lparr>lpPartition = 0, lpOffset = 2, lpIndex = 0\<rparr>, demo_log_vote 1 2) \<in> set (items_votes items)"
proof -
  have "delivered 0 demo_closed_log = demo_closed_log"
    by (simp add: delivered_def demo_closed_log_def demo_vote_log_def demo_boot_log_def demo_record_def)
  then show ?thesis
    using votelog_sealed_holds_acknowledged [OF demo_store_ok demo_run_sealed, of 0 demo_closed_log]
    by (simp add: demo_run5_value demo_store_def demo_log_receipt_def)
      (auto simp: demo_pending_def pending_votes_def)
qed

text \<open>The memory of a partition is bounded: the votes queued are at most \<^verbatim>\<open>QueuePerPartition\<close> and all charged to
  its credits, the active batch holds at most \<^verbatim>\<open>BatchSize\<close> votes, and every one of them is a valid vote of this
  partition admitted inside the voting window.\<close>

theorem votelog_queue_bounded:
  assumes "vl_initial s0" and "vl_step\<^sup>*\<^sup>* s0 s" and "i < length (vsWriters s)"
  shows "int (sizes (vwJobs (vsWriters s ! i))) \<le> lcQueuePerPartition (vsCfg s) \<and>
    int (sizes (vwBatch (vsWriters s ! i))) \<le> lcBatchSize (vsCfg s) \<and>
    (\<forall>p \<in> set (vwJobs (vsWriters s ! i) @ vwBatch (vsWriters s ! i)). pending_ok (vsCfg s) (int i) p)"
proof -
  have "queue_ok (vsCfg s) (vsWriters s ! i)" and part: "vwPartition (vsWriters s ! i) = int i"
    using reachable_writer [OF assms] by (simp_all add: vl_writer_inv_def)
  then show ?thesis by (auto simp: queue_ok_def)
qed

theorem votelog_queue_bounded_witness:
  "int (sizes (vwJobs (vsWriters demo_run3 ! 0))) \<le> 16"
  using votelog_queue_bounded [OF demo_store_ok demo_run_vote, of 0] by (simp add: demo_run3_value demo_store_def demo_vl_fields)



end
