(* ===== verification/Votelog_Open.thy ===== *)
theory Votelog_Open
  imports Votelog_Store
begin

text \<open>
  Opening a Kafka journal (\<^verbatim>\<open>CreateTopic\<close>, \<^verbatim>\<open>readyTopic\<close> and \<^verbatim>\<open>New\<close> of
  \<^verbatim>\<open>internal/votelog/store.go\<close>) and the benchmark's HTTP handler (\<^verbatim>\<open>http.go\<close>).

  The admin client's answers, the outcomes of the calls and the contexts found done are
  arguments. Polling loops take the sequence of answers; a loop whose answers end before
  it does is still waiting, which is \<open>None\<close>.
\<close>

section \<open>Topics\<close>

record kadm_partition =
  tpFailed :: bool
  tpLeader :: int
  tpReplicas :: nat
  tpISR :: nat

text \<open>One answer of \<^verbatim>\<open>ListTopics\<close>: whether the call failed, the topic if it is listed, and its own error.\<close>

record kadm_topic =
  ktCallFailed :: bool
  ktListed :: bool
  ktFailed :: bool
  ktPartitions :: "kadm_partition list"

definition partition_ready :: "bool \<Rightarrow> kadm_partition \<Rightarrow> bool" where
  "partition_ready allISR p \<longleftrightarrow> \<not> tpFailed p \<and> tpLeader p \<ge> 0 \<and> tpReplicas p = 3 \<and> (\<not> allISR \<or> tpISR p = 3)"

definition topic_ready :: "vl_config \<Rightarrow> bool \<Rightarrow> kadm_topic \<Rightarrow> bool" where
  "topic_ready c allISR t \<longleftrightarrow>
     \<not> ktCallFailed t \<and> ktListed t \<and> \<not> ktFailed t \<and> int (length (ktPartitions t)) = lcPartitions c \<and>
     list_all (partition_ready allISR) (ktPartitions t)"

text \<open>Each answer comes with whether the context ended before the next attempt.\<close>

fun readyTopic :: "vl_config \<Rightarrow> bool \<Rightarrow> (kadm_topic \<times> bool) list \<Rightarrow> (vl_error + kadm_topic) option" where
  "readyTopic c allISR [] = None"
| "readyTopic c allISR ((t, ended) # ts) =
     (if topic_ready c allISR t then Some (Inr t)
      else if ended then Some (Inl TopicNotReady)
      else readyTopic c allISR ts)"

definition topic_configs :: "(string \<times> string) list" where
  "topic_configs =
     [(''min.insync.replicas'', ''2''), (''unclean.leader.election.enable'', ''false''), (''cleanup.policy'', ''delete''),
      (''retention.ms'', ''86400000''), (''segment.bytes'', ''67108864''), (''compression.type'', ''producer'')]"

text \<open>
  \<open>create\<close> is the admin client's \<^verbatim>\<open>CreateTopics\<close>: partitions, replicas and configuration to the
  call's error or the topic's.
\<close>

definition CreateTopic ::
  "bool \<Rightarrow> (int \<Rightarrow> nat \<Rightarrow> (string \<times> string) list \<Rightarrow> string \<Rightarrow> vl_error option) \<Rightarrow> (kadm_topic \<times> bool) list
     \<Rightarrow> vl_config \<Rightarrow> vl_error option option" where
  "CreateTopic client_fails create answers c =
     (case vl_validate c of Some e \<Rightarrow> Some (Some e) | None \<Rightarrow>
        if client_fails then Some (Some ClientFailed)
        else case create (lcPartitions c) 3 topic_configs (lcTopic c) of Some e \<Rightarrow> Some (Some e) | None \<Rightarrow>
          (case readyTopic c True answers of
             None \<Rightarrow> None
           | Some (Inl e) \<Rightarrow> Some (Some e)
           | Some (Inr t) \<Rightarrow> Some None))"

section \<open>The configuration of the topic\<close>

record kadm_resource =
  krsFailed :: bool
  krsConfigs :: "(string \<times> string option) list"

definition required_configs :: "(string \<times> string) list" where
  "required_configs =
     [(''min.insync.replicas'', ''2''), (''unclean.leader.election.enable'', ''false''), (''cleanup.policy'', ''delete'')]"

text \<open>The keys found with the required value, over resources whose description did not fail.\<close>

fun matched_configs :: "kadm_resource list \<Rightarrow> (vl_error + string set)" where
  "matched_configs [] = Inr {}"
| "matched_configs (r # rs) =
     (if krsFailed r then Inl ConfigsFailed
      else case matched_configs rs of
        Inl e \<Rightarrow> Inl e
      | Inr keys \<Rightarrow> Inr (set (map fst (filter (\<lambda>(k, v). (k, v) \<in> set (map (\<lambda>(k, v). (k, Some v)) required_configs))
          (krsConfigs r))) \<union> keys))"

section \<open>End offsets\<close>

record kadm_offset =
  koFailed :: bool
  koOffset :: int

definition ends_ready :: "vl_config \<Rightarrow> bool \<times> kadm_offset list \<Rightarrow> bool" where
  "ends_ready c ends \<longleftrightarrow> \<not> fst ends \<and> int (length (snd ends)) = lcPartitions c \<and>
     list_all (\<lambda>p. \<not> koFailed p \<and> koOffset p \<ge> 0) (snd ends)"

fun wait_ends :: "vl_config \<Rightarrow> ((bool \<times> kadm_offset list) \<times> bool) list \<Rightarrow> (vl_error + kadm_offset list) option" where
  "wait_ends c [] = None"
| "wait_ends c ((ends, ended) # es) =
     (if ends_ready c ends then Some (Inr (snd ends))
      else if ended then Some (Inl OffsetsNotReadable)
      else wait_ends c es)"

section \<open>Acquiring the partitions\<close>

text \<open>
  The attempts of \<^verbatim>\<open>ProducerID\<close>: success, an error that may be retried, or another one; with
  whether the context ended while waiting.
\<close>

datatype id_attempt = IdOk | IdRetriable bool | IdFailed

fun acquire_id :: "id_attempt list \<Rightarrow> vl_error option option" where
  "acquire_id [] = None"
| "acquire_id (IdOk # as) = Some None"
| "acquire_id (IdFailed # as) = Some (Some ClientFailed)"
| "acquire_id (IdRetriable ended # as) = (if ended then Some (Some LogContextDone) else acquire_id as)"

text \<open>The identifier, then the BOOT record of the new owner: its offset, and the log with it.\<close>

definition acquire ::
  "vl_config \<Rightarrow> id_attempt list \<Rightarrow> vl_transaction \<Rightarrow> int \<Rightarrow> kafka_record list
     \<Rightarrow> (vl_error option \<times> int \<times> kafka_record list) option" where
  "acquire c attempts tx part log =
     (case acquire_id attempts of
        None \<Rightarrow> None
      | Some (Some e) \<Rightarrow> Some (Some e, 0, log)
      | Some None \<Rightarrow>
          (case vl_commit tx [plain_record part [] (encodeRecord c recordBoot no_vote)] False
              (zero_counters, new_writer part (-1) log) of
             (st, Some e) \<Rightarrow> Some (Some LogUnknown, 0, vwLog (snd st))
           | (st, None) \<Rightarrow> Some (None, txOffset tx 0, vwLog (snd st))))"

section \<open>New\<close>

record open_env =
  oeAdminFails :: bool
  oeTopics :: "(kadm_topic \<times> bool) list"
  oeConfigsFail :: bool
  oeConfigs :: "kadm_resource list"
  oeEnds :: "((bool \<times> kadm_offset list) \<times> bool) list"
  oeFirstClientFails :: bool
  oeFirst :: "kafka_fetch list"
  oeFirstDeadline :: bool
  oeWriterFails :: "nat \<Rightarrow> bool"
  oeAttempts :: "nat \<Rightarrow> id_attempt list"
  oeBoot :: "nat \<Rightarrow> vl_transaction"
  oePick :: nat
  oeReplayClientFails :: bool
  oeReplay :: "kafka_fetch list"
  oeLogs :: "nat \<Rightarrow> kafka_record list"

text \<open>The check of an existing topic: a deadline passed while reading is reported as incomplete.\<close>

definition verify_existing :: "open_env \<Rightarrow> vl_config \<Rightarrow> vl_error option option" where
  "verify_existing env c =
     (case verifyFirstRecords (oeFirstClientFails env) c (oeFirst env) of
        None \<Rightarrow> None
      | Some (Some e) \<Rightarrow> Some (Some (if e = LogContextDone \<and> oeFirstDeadline env then InitialIncomplete else e))
      | Some None \<Rightarrow> Some None)"

text \<open>The barriers of all partitions: the error \<^verbatim>\<open>parallel\<close> picks, or the offsets and the logs.\<close>

definition acquire_all :: "open_env \<Rightarrow> vl_config \<Rightarrow> (vl_error + int list \<times> kafka_record list list) option" where
  "acquire_all env c =
     (let runs = map (\<lambda>i. acquire c (oeAttempts env i) (oeBoot env i) (int i) (oeLogs env i)) [0..<nat (lcPartitions c)] in
      if None \<in> set runs then None
      else case parallel_error (oePick env) (map (fst \<circ> the) runs) of
        Some e \<Rightarrow> Some (Inl LogUnknown)
      | None \<Rightarrow> Some (Inr (map (fst \<circ> snd \<circ> the) runs, map (snd \<circ> snd \<circ> the) runs)))"

definition start_writers :: "int list \<Rightarrow> kafka_record list list \<Rightarrow> vl_writer list" where
  "start_writers closed logs = map (\<lambda>(i, e, log). new_writer (int i) e log) (zip [0..<length closed] (zip closed logs))"

definition New_vl :: "open_env \<Rightarrow> vl_config \<Rightarrow> (vl_error + vl_store) option" where
  "New_vl env c =
     (case vl_validate c of Some e \<Rightarrow> Some (Inl e) | None \<Rightarrow>
      if oeAdminFails env then Some (Inl ClientFailed)
      else case readyTopic c False (oeTopics env) of None \<Rightarrow> None | Some (Inl e) \<Rightarrow> Some (Inl e) | Some (Inr topic) \<Rightarrow>
      if \<not> list_all (\<lambda>p. tpReplicas p = 3) (ktPartitions topic) then Some (Inl ReplicaCount)
      else if oeConfigsFail env then Some (Inl ConfigsFailed)
      else case matched_configs (oeConfigs env) of Inl e \<Rightarrow> Some (Inl e) | Inr keys \<Rightarrow>
      if card keys \<noteq> 3 then Some (Inl DurabilityMismatch)
      else case wait_ends c (oeEnds env) of None \<Rightarrow> None | Some (Inl e) \<Rightarrow> Some (Inl e) | Some (Inr ends) \<Rightarrow>
      let fresh = list_all (\<lambda>p. koOffset p = 0) ends in
      case (if fresh then Some None else verify_existing env c) of
        None \<Rightarrow> None
      | Some (Some e) \<Rightarrow> Some (Inl e)
      | Some None \<Rightarrow>
      if \<exists>i < nat (lcPartitions c). oeWriterFails env i then Some (Inl ClientFailed)
      else case acquire_all env c of None \<Rightarrow> None | Some (Inl e) \<Rightarrow> Some (Inl e) | Some (Inr (barriers, logs)) \<Rightarrow>
      (case vl_replay (oeReplayClientFails env) c (oeReplay env) (Some barriers) (None :: unit vote_visit option) () of
         None \<Rightarrow> None
       | Some (closed, s, Some e) \<Rightarrow> Some (Inl e)
       | Some (closed, s, None) \<Rightarrow>
           Some (Inr \<lparr>vsCfg = c, vsCancelled = False, vsCounters = zero_counters,
             vsWriters = start_writers closed logs\<rparr>)))"

section \<open>The HTTP handler\<close>

text \<open>
  A request of \<^verbatim>\<open>POST /vote\<close>: what the JSON decoder read from at most 256 bytes (the token as
  text and the choice), and whether the body ended there.
\<close>

record http_vote =
  hvDecoded :: "(string \<times> u32) option"
  hvEnded :: bool

record http_reply =
  hrStatus :: nat
  hrLabel :: string
  hrRetryAfter :: bool
  hrReceipt :: "vl_receipt option"

definition error_reply :: "vl_error \<Rightarrow> http_reply" where
  "error_reply e =
     (let reply = (\<lambda>code label. \<lparr>hrStatus = code, hrLabel = label, hrRetryAfter = False, hrReceipt = None\<rparr>) in
      case e of
        LogInvalid \<Rightarrow> reply 400 ''invalid''
      | LogClosed \<Rightarrow> reply 410 ''closed''
      | LogNotOpen \<Rightarrow> reply 425 ''not_open''
      | LogBusy \<Rightarrow> (reply 429 ''busy'')\<lparr>hrRetryAfter := True\<rparr>
      | _ \<Rightarrow> reply 503 ''unknown'')"

text \<open>\<open>submit\<close> is \<^verbatim>\<open>Submit\<close> on the store, from the token and the choice to its result.\<close>

definition handle_vote :: "(byte list \<Rightarrow> u32 \<Rightarrow> vl_error + vl_receipt) \<Rightarrow> http_vote \<Rightarrow> http_reply" where
  "handle_vote submit req =
     (let invalid = \<lparr>hrStatus = 400, hrLabel = ''invalid'', hrRetryAfter = False, hrReceipt = None\<rparr> in
      case hvDecoded req of
        None \<Rightarrow> invalid
      | Some (text, choice) \<Rightarrow>
          if \<not> hvEnded req then invalid
          else case hex_decode text of
            None \<Rightarrow> invalid
          | Some token \<Rightarrow>
              if length token \<noteq> 16 then invalid
              else case submit token choice of
                Inl e \<Rightarrow> error_reply e
              | Inr receipt \<Rightarrow> \<lparr>hrStatus = 202, hrLabel = [], hrRetryAfter = False, hrReceipt = Some receipt\<rparr>)"

definition handle_health :: "bool \<Rightarrow> vl_counters \<Rightarrow> nat" where
  "handle_health cancelled ct = (if cancelled \<or> ctFailures ct > 0 then 503 else 204)"

end
