(* ===== verification/Http_Auth.thy ===== *)
theory Http_Auth
  imports Go_Crypto Go_Net Filelog_Codec "HOL-Library.AList"
begin

text \<open>
  Administrator sessions (\<^verbatim>\<open>internal/httpapi/auth.go\<close>): the password check with its
  rate limiter, the table of at most 256 sessions keyed by the digest of their cookie, and
  logout.

  The limiter's tokens are a \<^verbatim>\<open>float64\<close> number of seconds; here they are kept exactly, in
  billionths (\<open>auTokens\<close> is ten billion when full), so that a nanosecond refills one unit.
  The session table is a list of digests with their expiry; the order of a Go map is not
  observable in what the code does with it. The random bytes and the clock are arguments.
\<close>

record auth =
  auPassword :: "byte list"
  auSessions :: "(byte list \<times> time) list"
  auTokens :: int
  auLastRefill :: time
  auSecure :: bool

abbreviation "oneToken \<equiv> 1000000000 :: int"

definition newAuth :: "string \<Rightarrow> bool \<Rightarrow> time \<Rightarrow> auth" where
  "newAuth password secure now =
     \<lparr>auPassword = sha256 (ascii password), auSessions = [], auTokens = 10 * oneToken, auLastRefill = now,
      auSecure = secure\<rparr>"

text \<open>\<^verbatim>\<open>hex.EncodeToString\<close>.\<close>

definition hex_digit :: "nat \<Rightarrow> char" where
  "hex_digit d = char_of (if d < 10 then 48 + d else 87 + d)"

definition hex_encode :: "byte list \<Rightarrow> string" where
  "hex_encode bs = concat (map (\<lambda>b. [hex_digit (unat b div 16), hex_digit (unat b mod 16)]) bs)"

definition refill :: "time \<Rightarrow> auth \<Rightarrow> auth" where
  "refill now a = a\<lparr>auTokens := min (10 * oneToken) (auTokens a + time_sub now (auLastRefill a)), auLastRefill := now\<rparr>"

text \<open>
  \<^verbatim>\<open>login\<close>: the status and, on success, the cookie's value. \<open>random\<close> is what \<^verbatim>\<open>rand.Read\<close>
  returned, \<open>None\<close> when it failed.
\<close>

definition login :: "time \<Rightarrow> byte list option \<Rightarrow> string \<Rightarrow> auth \<Rightarrow> auth \<times> nat \<times> string option" where
  "login now random password a =
     (let a = refill now a in
      if sha256 (ascii password) \<noteq> auPassword a then
        if auTokens a < oneToken then (a, 429, None)
        else (a\<lparr>auTokens := auTokens a - oneToken\<rparr>, 401, None)
      else let a = a\<lparr>auSessions := filter (\<lambda>(key, expiry). now < expiry) (auSessions a)\<rparr> in
        if length (auSessions a) \<ge> 256 then (a, 429, None)
        else case random of
          None \<Rightarrow> (a, 503, None)
        | Some b \<Rightarrow>
            let token = hex_encode b in
            (a\<lparr>auSessions := AList.update (sha256 (ascii token)) (now + 8 * hour) (auSessions a)\<rparr>, 200, Some token))"

text \<open>\<^verbatim>\<open>valid\<close> of the request's session cookie, \<open>None\<close> when it has none.\<close>

definition valid :: "time \<Rightarrow> string option \<Rightarrow> auth \<Rightarrow> auth \<times> bool" where
  "valid now cookie a =
     (case cookie of
        None \<Rightarrow> (a, False)
      | Some v \<Rightarrow>
          if length v \<noteq> 64 then (a, False)
          else let key = sha256 (ascii v) in
            (case map_of (auSessions a) key of
               Some expiry \<Rightarrow>
                 if now < expiry then (a, True) else (a\<lparr>auSessions := AList.delete key (auSessions a)\<rparr>, False)
             | None \<Rightarrow> (a\<lparr>auSessions := AList.delete key (auSessions a)\<rparr>, False)))"

definition logout :: "string option \<Rightarrow> auth \<Rightarrow> auth" where
  "logout cookie a =
     (case cookie of None \<Rightarrow> a
      | Some v \<Rightarrow> a\<lparr>auSessions := AList.delete (sha256 (ascii v)) (auSessions a)\<rparr>)"

section \<open>The session table\<close>

text \<open>The operations as events; each returns whether it was a refused password.\<close>

datatype auth_event =
    Login time "byte list option" string
  | Check time "string option"
  | Logout "string option"

fun auth_step :: "auth \<Rightarrow> auth_event \<Rightarrow> auth" where
  "auth_step a (Login now random password) = fst (login now random password a)"
| "auth_step a (Check now cookie) = fst (valid now cookie a)"
| "auth_step a (Logout cookie) = logout cookie a"

definition session_inv :: "auth \<Rightarrow> bool" where
  "session_inv a \<longleftrightarrow> distinct (map fst (auSessions a)) \<and> length (auSessions a) \<le> 256 \<and>
     auTokens a \<le> 10 * oneToken"

lemma length_delete_le: "length (AList.delete k xs) \<le> length xs"
  by (simp add: AList.delete_eq)

lemma distinct_fst_filter: "distinct (map fst xs) \<Longrightarrow> distinct (map fst (filter P xs))"
  by (induction xs) auto

lemma length_update_le: "length (AList.update k v xs) \<le> Suc (length xs)"
  by (induction xs) auto

lemma session_inv_new: "session_inv (newAuth password secure now)"
  by (simp add: session_inv_def newAuth_def)

lemma refill_sessions [simp]: "auSessions (refill now a) = auSessions a" "auPassword (refill now a) = auPassword a"
  by (simp_all add: refill_def)

lemma session_inv_step: "session_inv a \<Longrightarrow> session_inv (auth_step a e)"
proof (cases e)
  case (Login now random password)
  assume inv: "session_inv a"
  have t: "auTokens (refill now a) \<le> 10 * oneToken" by (simp add: refill_def)
  let ?live = "filter (\<lambda>(key, expiry). now < expiry) (auSessions a)"
  have f: "distinct (map fst ?live)" "length ?live \<le> 256"
    using inv distinct_fst_filter le_trans [OF length_filter_le] by (auto simp: session_inv_def)
  have "distinct (map fst (AList.update k v ?live))" for k v
    using f(1) by (rule AList.distinct_update)
  moreover have "length ?live < 256 \<Longrightarrow> length (AList.update k v ?live) \<le> 256" for k v
    using length_update_le [of k v ?live] by simp
  ultimately show ?thesis
    using inv t f by (auto simp: Login login_def session_inv_def Let_def split: option.splits)
next
  case (Check now cookie)
  assume inv: "session_inv a"
  have "distinct (map fst (AList.delete k (auSessions a)))" "length (AList.delete k (auSessions a)) \<le> 256" for k
    using inv AList.distinct_delete le_trans [OF length_delete_le] by (auto simp: session_inv_def)
  with inv show ?thesis
    by (auto simp: Check valid_def session_inv_def Let_def split: option.splits)
next
  case (Logout cookie)
  assume inv: "session_inv a"
  have "distinct (map fst (AList.delete k (auSessions a)))" "length (AList.delete k (auSessions a)) \<le> 256" for k
    using inv AList.distinct_delete le_trans [OF length_delete_le] by (auto simp: session_inv_def)
  with inv show ?thesis by (auto simp: Logout logout_def session_inv_def split: option.splits)
qed

text \<open>What the table holds: a digest is there with the expiry of the last login that issued it.\<close>

lemma map_of_filter_val:
  "distinct (map fst xs) \<Longrightarrow> map_of (filter (\<lambda>(k, v). P v) xs) k = (case map_of xs k of Some v \<Rightarrow> if P v then Some v else None | None \<Rightarrow> None)"
proof (induction xs)
  case (Cons x xs)
  obtain k' v where x: "x = (k', v)" by (cases x)
  have "map_of (filter (\<lambda>(k, v). P v) xs) k' = None"
    using Cons.prems by (auto simp: x map_of_eq_None_iff)
  with Cons x show ?case by (auto split: option.splits)
qed simp

lemma valid_true_iff:
  "snd (valid now cookie a) \<longleftrightarrow> (\<exists>v expiry. cookie = Some v \<and> length v = 64 \<and>
     map_of (auSessions a) (sha256 (ascii v)) = Some expiry \<and> now < expiry)"
  by (auto simp: valid_def Let_def split: option.splits)

text \<open>A digest enters the table only by a login with the right password; every other step can only remove one.\<close>

definition issued :: "auth \<Rightarrow> auth_event \<Rightarrow> (byte list \<times> time) option" where
  "issued a e = (case e of
     Login now random password \<Rightarrow>
       (case login now random password a of
          (_, _, Some token) \<Rightarrow> Some (sha256 (ascii token), now + 8 * hour)
        | _ \<Rightarrow> None)
   | _ \<Rightarrow> None)"

lemma session_origin:
  assumes "map_of (auSessions (auth_step a e)) key = Some expiry" and "session_inv a"
  shows "issued a e = Some (key, expiry) \<or> map_of (auSessions a) key = Some expiry"
proof (cases e)
  case (Login now random password)
  with assms show ?thesis
    using map_of_filter_val [of "auSessions a" "\<lambda>v. now < v" key]
    by (auto simp: login_def issued_def session_inv_def Let_def update_conv split: if_splits option.splits)
next
  case (Check now cookie)
  with assms show ?thesis
    by (auto simp: valid_def Let_def delete_conv split: if_splits option.splits)
next
  case (Logout cookie)
  with assms show ?thesis by (auto simp: logout_def delete_conv split: if_splits option.splits)
qed

end
