(* ===== verification/Http_Auth_Props.thy ===== *)
theory Http_Auth_Props
  imports Http_Auth
begin

text \<open>
  The properties of administrator sessions over any sequence of logins, checks and logouts.
\<close>

interpretation auth: transition_system "\<lambda>a. \<exists>p s t. a = newAuth p s t" "\<lambda>a b. \<exists>e. b = auth_step a e" session_inv
  by unfold_locales (auto intro: session_inv_new session_inv_step)

lemma session_inv_run: "session_inv a \<Longrightarrow> session_inv (foldl auth_step a es)"
  by (induction es arbitrary: a) (auto intro: session_inv_step)

lemma auth_step_password: "auPassword (auth_step a e) = auPassword a"
  by (cases e) (auto simp: login_def valid_def logout_def refill_def Let_def split: option.splits)

lemma password_run: "auPassword (foldl auth_step a es) = auPassword a"
  by (induction es arbitrary: a) (simp_all add: auth_step_password)

text \<open>A session in the table was issued by some login, and not logged out since.\<close>

lemma session_issued:
  assumes "session_inv a" and "map_of (auSessions a) key = None"
    and "map_of (auSessions (foldl auth_step a es)) key = Some expiry"
  shows "\<exists>pre e post. es = pre @ e # post \<and> issued (foldl auth_step a pre) e = Some (key, expiry) \<and>
    (\<forall>v. sha256 (ascii v) = key \<longrightarrow> Logout (Some v) \<notin> set post)"
  using assms(3)
proof (induction es rule: rev_induct)
  case Nil
  with assms(2) show ?case by simp
next
  case (snoc e es)
  let ?b = "foldl auth_step a es"
  have inv: "session_inv ?b" by (rule session_inv_run [OF assms(1)])
  have step: "map_of (auSessions (auth_step ?b e)) key = Some expiry" using snoc.prems by simp
  from session_origin [OF step inv] show ?case
  proof
    assume "issued ?b e = Some (key, expiry)"
    then show ?thesis by (intro exI [of _ es] exI [of _ e] exI [of _ "[]"]) simp
  next
    assume "map_of (auSessions ?b) key = Some expiry"
    from snoc.IH [OF this] obtain pre e' post where
      "es = pre @ e' # post" "issued (foldl auth_step a pre) e' = Some (key, expiry)"
      "\<forall>v. sha256 (ascii v) = key \<longrightarrow> Logout (Some v) \<notin> set post" by blast
    moreover have "e \<noteq> Logout (Some v)" if "sha256 (ascii v) = key" for v
      using step that by (auto simp: logout_def delete_conv)
    ultimately show ?thesis
      by (intro exI [of _ pre] exI [of _ e'] exI [of _ "post @ [e]"]) auto
  qed
qed

text \<open>C7. A request is authenticated only with the cookie of an earlier login that gave the right password, less
  than eight hours before, and that has not been logged out since.\<close>

theorem http_session_authentic:
  assumes "snd (valid now cookie (foldl auth_step (newAuth password secure start) es))"
  shows "\<exists>pre post at random given v. es = pre @ Login at random given # post \<and> cookie = Some v \<and>
    sha256 (ascii given) = sha256 (ascii password) \<and>
    issued (foldl auth_step (newAuth password secure start) pre) (Login at random given) = Some (sha256 (ascii v), at + 8 * hour) \<and>
    now < at + 8 * hour \<and> Logout (Some v) \<notin> set post"
proof -
  let ?a = "newAuth password secure start"
  from assms obtain v expiry where v: "cookie = Some v" "now < expiry"
    "map_of (auSessions (foldl auth_step ?a es)) (sha256 (ascii v)) = Some expiry"
    unfolding valid_true_iff by blast
  have "map_of (auSessions ?a) (sha256 (ascii v)) = None" by (simp add: newAuth_def)
  from session_issued [OF session_inv_new this v(3)] obtain pre e post where
    e: "es = pre @ e # post" "issued (foldl auth_step ?a pre) e = Some (sha256 (ascii v), expiry)"
    "Logout (Some v) \<notin> set post" by blast
  let ?b = "foldl auth_step ?a pre"
  from e(2) obtain at random given where l: "e = Login at random given" and expiry: "expiry = at + 8 * hour"
    by (auto simp: issued_def split: auth_event.splits option.splits prod.splits)
  have "sha256 (ascii given) = auPassword ?b"
    using e(2) by (auto simp: l issued_def login_def Let_def split: if_splits option.splits)
  also have "\<dots> = sha256 (ascii password)" by (simp add: password_run newAuth_def)
  finally show ?thesis using e v l expiry by blast
qed

theorem http_session_authentic_witness:
  "\<exists>pre post at random given v. [Login 5 (Some (replicate 32 1)) ''abc''] = pre @ Login at random given # post \<and>
     sha256 (ascii given) = sha256 (ascii ''abc'') \<and> 7 < at + 8 * hour"
proof -
  have "length (hex_encode (replicate 32 1)) = 64" by code_simp
  then have "snd (valid 7 (Some (hex_encode (replicate 32 1)))
      (foldl auth_step (newAuth ''abc'' True 0) [Login 5 (Some (replicate 32 1)) ''abc'']))"
    by (simp add: valid_true_iff login_def newAuth_def refill_def Let_def)
  from http_session_authentic [OF this] show ?thesis by blast
qed

section \<open>The limiter\<close>

text \<open>The refused passwords of a sequence of events.\<close>

fun refusals :: "auth \<Rightarrow> auth_event list \<Rightarrow> nat" where
  "refusals a [] = 0"
| "refusals a (e # es) =
     (case e of Login now random password \<Rightarrow> (if fst (snd (login now random password a)) = 401 then 1 else 0) | _ \<Rightarrow> 0)
     + refusals (auth_step a e) es"

fun event_times :: "auth_event list \<Rightarrow> time list" where
  "event_times [] = []"
| "event_times (Login now random password # es) = now # event_times es"
| "event_times (e # es) = event_times es"

lemma login_limiter:
  assumes "auLastRefill a \<le> now" and "0 \<le> auTokens a"
  shows "auLastRefill (fst (login now random password a)) = now"
    and "0 \<le> auTokens (fst (login now random password a))"
    and "auTokens (fst (login now random password a)) +
      oneToken * (if fst (snd (login now random password a)) = 401 then 1 else 0) \<le> auTokens a + (now - auLastRefill a)"
  using assms by (auto simp: login_def refill_def Let_def time_sub_def split: option.splits)

lemma refusals_bound:
  "sorted (auLastRefill a # event_times es) \<Longrightarrow> \<forall>t \<in> set (event_times es). t \<le> end_at \<Longrightarrow> 0 \<le> auTokens a \<Longrightarrow>
     auLastRefill a \<le> end_at \<Longrightarrow> oneToken * int (refusals a es) \<le> auTokens a + (end_at - auLastRefill a)"
proof (induction es arbitrary: a)
  case Nil
  then show ?case by simp
next
  case (Cons e es)
  show ?case
  proof (cases e)
    case (Login now random password)
    let ?b = "fst (login now random password a)"
    have now: "auLastRefill a \<le> now" "now \<le> end_at" using Cons.prems by (simp_all add: Login)
    note lim = login_limiter [OF now(1) Cons.prems(3), of random password]
    have "oneToken * int (refusals ?b es) \<le> auTokens ?b + (end_at - auLastRefill ?b)"
      using Cons.prems lim(1,2) now by (intro Cons.IH) (auto simp: Login)
    with lim show ?thesis by (auto simp: Login split: if_splits)
  next
    case (Check now cookie)
    have "auTokens (fst (valid now cookie a)) = auTokens a \<and> auLastRefill (fst (valid now cookie a)) = auLastRefill a"
      by (auto simp: valid_def Let_def split: option.splits)
    with Cons.IH [of "fst (valid now cookie a)"] Cons.prems show ?thesis by (simp add: Check)
  next
    case (Logout cookie)
    have "auTokens (logout cookie a) = auTokens a \<and> auLastRefill (logout cookie a) = auLastRefill a"
      by (auto simp: logout_def split: option.splits)
    with Cons.IH [of "logout cookie a"] Cons.prems show ?thesis by (simp add: Logout)
  qed
qed



end
