(* ===== verification/Http_Server.thy ===== *)
theory Http_Server
  imports Http_Auth Poll
begin

text \<open>
  The HTTP interface (\<^verbatim>\<open>internal/httpapi/server.go\<close>): the routing checks, and every
  handler as a function of its request, the server's state and the repository's answer.

  The decoding of a request by the standard library (the media type, the JSON value and the
  end of the body, a parsed URL) and the answers of the repository are arguments. A reply is
  its status, whether it asks to retry, and the fields the code sets; texts for people are
  left out. The handlers share the semaphores \<^verbatim>\<open>inflight\<close>, \<^verbatim>\<open>readInflight\<close> and
  \<^verbatim>\<open>adminInflight\<close>, so a handler that uses one is an entry and an exit.
\<close>

section \<open>Identifiers\<close>

text \<open>
  \<^verbatim>\<open>strings.ToLower\<close> on bytes below 128; a string with another byte is no hexadecimal text,
  which is refused in any case.
\<close>

definition to_lower :: "char \<Rightarrow> char" where
  "to_lower ch = (if upper ch then char_of (code ch + 32) else ch)"

definition validToken :: "string \<Rightarrow> bool" where
  "validToken s \<longleftrightarrow> \<not> (length s \<noteq> 32 \<or> s \<noteq> map to_lower s) \<and> hex_decode s \<noteq> None"

definition validUUID :: "string \<Rightarrow> bool" where
  "validUUID s \<longleftrightarrow> length s = 36 \<and> s ! 8 = CHR ''-'' \<and> s ! 13 = CHR ''-'' \<and> s ! 18 = CHR ''-'' \<and> s ! 23 = CHR ''-'' \<and>
     validToken (filter (\<lambda>ch. ch \<noteq> CHR ''-'') s)"

section \<open>State\<close>

record http_config =
  hcAdminPassword :: string
  hcMaxInflight :: int
  hcOperationTimeout :: duration

text \<open>The URL \<^verbatim>\<open>PublicURL\<close> parses to: \<^verbatim>\<open>net/url\<close> gives its parts.\<close>

record parsed_url =
  puScheme :: string
  puHost :: string
  puHasUser :: bool
  puRawQuery :: string
  puFragment :: string
  puPath :: string

record server =
  svAuth :: auth
  svOrigin :: string
  svMaxInflight :: int
  svInflight :: nat
  svReadInflight :: nat
  svAdminInflight :: nat
  svTimeout :: duration
  svReady :: bool
  svAttempts :: nat
  svAccepted :: nat
  svDuplicates :: nat
  svConflicts :: nat
  svRejected :: nat
  svUnknown :: nat
  svStorageErrors :: nat

datatype server_error = BadPublicURL | ShortPassword | BadLimits

definition New_server :: "parsed_url option \<Rightarrow> http_config \<Rightarrow> time \<Rightarrow> server_error + server" where
  "New_server url cfg now =
     (case url of
        None \<Rightarrow> Inl BadPublicURL
      | Some u \<Rightarrow>
          if (puScheme u \<noteq> ''http'' \<and> puScheme u \<noteq> ''https'') \<or> puHost u = [] \<or> puHasUser u \<or> puRawQuery u \<noteq> [] \<or>
             puFragment u \<noteq> [] \<or> (puPath u \<noteq> [] \<and> puPath u \<noteq> ''/'')
          then Inl BadPublicURL
          else if length (hcAdminPassword cfg) < 16 then Inl ShortPassword
          else if hcMaxInflight cfg < 1 \<or> hcOperationTimeout cfg \<le> 0 then Inl BadLimits
          else Inr \<lparr>svAuth = newAuth (hcAdminPassword cfg) (puScheme u = ''https'') now,
            svOrigin = puScheme u @ ''://'' @ puHost u, svMaxInflight = hcMaxInflight cfg, svInflight = 0,
            svReadInflight = 0, svAdminInflight = 0, svTimeout = hcOperationTimeout cfg, svReady = False,
            svAttempts = 0, svAccepted = 0, svDuplicates = 0, svConflicts = 0, svRejected = 0, svUnknown = 0,
            svStorageErrors = 0\<rparr>)"

definition SetReady :: "bool \<Rightarrow> server \<Rightarrow> server" where
  "SetReady ready s = s\<lparr>svReady := ready\<rparr>"

text \<open>The keys of the repository's diagnostics that \<^verbatim>\<open>Metrics\<close> passes on.\<close>

definition diagnostic_keys :: "string list" where
  "diagnostic_keys =
     [''db_vote_sql_calls'', ''db_vote_sql_ns'', ''db_proof_queries'', ''db_proof_query_ns'', ''db_proof_retries'',
      ''db_proof_wait_ns'', ''db_pool_acquire_count'', ''db_pool_acquire_ns'', ''db_pool_empty_acquire_count'',
      ''db_pool_canceled_acquire_count'', ''db_pool_new_conns_count'', ''db_pool_acquired_conns'', ''db_pool_total_conns'']"

definition server_Metrics :: "(string \<rightharpoonup> nat) option \<Rightarrow> server \<Rightarrow> string \<rightharpoonup> nat" where
  "server_Metrics diagnostics s =
     (let base = map_of
        [(''vote_http_attempts'', svAttempts s), (''accepted_responses'', svAccepted s),
         (''duplicate_responses'', svDuplicates s), (''conflict_responses'', svConflicts s),
         (''rejected_attempts'', svRejected s), (''unknown_outcomes'', svUnknown s),
         (''storage_errors'', svStorageErrors s), (''inflight'', svInflight s)]
      in case diagnostics of
           None \<Rightarrow> base
         | Some d \<Rightarrow> (\<lambda>key. if key \<in> set diagnostic_keys \<and> d key \<noteq> None then d key else base key))"

section \<open>Before the handlers\<close>

record origin_headers =
  ohSecFetchSite :: string
  ohOrigin :: string
  ohReferer :: string
  ohRefererURL :: "parsed_url option"

definition sameOrigin :: "server \<Rightarrow> origin_headers \<Rightarrow> bool" where
  "sameOrigin s h =
     (if ohSecFetchSite h = ''cross-site'' then False
      else if ohOrigin h \<noteq> [] then ohOrigin h = svOrigin s
      else if ohReferer h \<noteq> [] then
        (case ohRefererURL h of None \<Rightarrow> False | Some u \<Rightarrow> puScheme u @ ''://'' @ puHost u = svOrigin s)
      else True)"

record reply =
  rpStatus :: nat
  rpRetryAfter :: bool
  rpOutcome :: string
  rpCookie :: "string option"

definition answer :: "nat \<Rightarrow> reply" where
  "answer status = \<lparr>rpStatus = status, rpRetryAfter = False, rpOutcome = [], rpCookie = None\<rparr>"

definition retry :: "nat \<Rightarrow> string \<Rightarrow> reply" where
  "retry status out = (answer status)\<lparr>rpRetryAfter := True, rpOutcome := out\<rparr>"

text \<open>The outer handler: the caching of static files, and the refusal of requests from another site.\<close>

definition cache_control :: "string \<Rightarrow> string" where
  "cache_control path = (if has_prefix path ''/static/'' then ''public, max-age=300'' else ''no-store'')"

definition outer_refuses :: "server \<Rightarrow> string \<Rightarrow> origin_headers \<Rightarrow> reply option" where
  "outer_refuses s verb h =
     (if verb \<noteq> ''GET'' \<and> verb \<noteq> ''HEAD'' \<and> \<not> sameOrigin s h then Some (answer 403) else None)"

definition readyz :: "server \<Rightarrow> reply" where
  "readyz s = (if svReady s then answer 200 else answer 503)"

text \<open>
  \<^verbatim>\<open>protected\<close>: the session check, then one of eight places; \<open>None\<close> lets the request in, with its
  place taken until \<open>protected_exit\<close>.
\<close>

definition protected_enter :: "time \<Rightarrow> string option \<Rightarrow> server \<Rightarrow> server \<times> reply option" where
  "protected_enter now cookie s =
     (let (a, ok) = valid now cookie (svAuth s); s = s\<lparr>svAuth := a\<rparr> in
      if \<not> ok then (s, Some (answer 401))
      else if svAdminInflight s < 8 then (s\<lparr>svAdminInflight := svAdminInflight s + 1\<rparr>, None)
      else (s, Some (retry 503 [])))"

definition protected_exit :: "server \<Rightarrow> server" where
  "protected_exit s = s\<lparr>svAdminInflight := svAdminInflight s - 1\<rparr>"

definition page :: "string \<Rightarrow> string \<Rightarrow> bool \<Rightarrow> reply" where
  "page name path_id file_ok =
     (if name = ''poll.html'' \<and> \<not> validUUID path_id then answer 404
      else if \<not> file_ok then answer 500 else answer 200)"

text \<open>
  \<^verbatim>\<open>decode\<close>: the media type, the decoded value (\<open>None\<close> for a malformed, unknown-field or too
  long body) and whether the body ended there; the status of a refusal.
\<close>

record 'v request_body =
  rbMedia :: "string option"
  rbValue :: "'v option"
  rbEnded :: bool

definition decode :: "'v request_body \<Rightarrow> nat + 'v" where
  "decode b =
     (if rbMedia b \<noteq> Some ''application/json'' then Inl 415
      else case rbValue b of None \<Rightarrow> Inl 400 | Some v \<Rightarrow> if rbEnded b then Inr v else Inl 400)"

section \<open>Administration\<close>

definition login_handler :: "time \<Rightarrow> byte list option \<Rightarrow> string request_body \<Rightarrow> server \<Rightarrow> server \<times> reply" where
  "login_handler now random body s =
     (case decode body of
        Inl status \<Rightarrow> (s, answer status)
      | Inr password \<Rightarrow>
          let (a, status, token) = login now random password (svAuth s); s = s\<lparr>svAuth := a\<rparr> in
          if status \<noteq> 200 then
            (s, if status = 429 then retry status [] else answer status)
          else (s, (answer 200)\<lparr>rpCookie := token\<rparr>))"

definition logout_handler :: "string option \<Rightarrow> server \<Rightarrow> server \<times> reply" where
  "logout_handler cookie s = (s\<lparr>svAuth := logout cookie (svAuth s)\<rparr>, answer 204)"

definition storage_error :: "server \<Rightarrow> server" where
  "storage_error s = s\<lparr>svStorageErrors := svStorageErrors s + 1\<rparr>"

definition createPoll ::
  "(rune \<Rightarrow> rune) \<Rightarrow> create_input request_body \<Rightarrow> (create_input \<Rightarrow> poll repo_answer) \<Rightarrow> server \<Rightarrow> server \<times> reply" where
  "createPoll lower_rune body create s =
     (case decode body of
        Inl status \<Rightarrow> (s, answer status)
      | Inr inp \<Rightarrow>
          (case Validate lower_rune inp of
             (inp, Some e) \<Rightarrow> (s, answer 422)
           | (inp, None) \<Rightarrow>
               (case create inp of
                  Overlap \<Rightarrow> (s, answer 409)
                | Answer p \<Rightarrow> (s, answer 201)
                | _ \<Rightarrow> (storage_error s, answer 503))))"

definition listPolls :: "poll list repo_answer \<Rightarrow> server \<Rightarrow> server \<times> reply" where
  "listPolls polls s = (case polls of Answer ps \<Rightarrow> (s, answer 200) | _ \<Rightarrow> (storage_error s, answer 503))"

definition public_states :: "time \<Rightarrow> poll list \<Rightarrow> string list" where
  "public_states now ps = map (\<lambda>p. State p now) ps"

text \<open>\<^verbatim>\<open>getPoll\<close>, with one of sixteen places while the repository is asked.\<close>

definition getPoll_enter :: "server \<Rightarrow> server \<times> reply option" where
  "getPoll_enter s =
     (if svReadInflight s < 16 then (s\<lparr>svReadInflight := svReadInflight s + 1\<rparr>, None)
      else (s, Some (retry 503 [])))"

definition getPoll_finish :: "string \<Rightarrow> poll repo_answer \<Rightarrow> server \<Rightarrow> server \<times> reply" where
  "getPoll_finish path_id found s =
     (let s = s\<lparr>svReadInflight := svReadInflight s - 1\<rparr> in
      if \<not> validUUID path_id then (s, answer 404)
      else case found of
        Answer p \<Rightarrow> (s, answer 200)
      | NotFound \<Rightarrow> (s, answer 404)
      | _ \<Rightarrow> (storage_error s, answer 503))"

definition results_handler :: "string \<Rightarrow> 'r repo_answer \<Rightarrow> server \<Rightarrow> server \<times> reply" where
  "results_handler path_id found s =
     (if \<not> validUUID path_id then (s, answer 404)
      else case found of
        Answer r \<Rightarrow> (s, answer 200)
      | NotFound \<Rightarrow> (s, answer 404)
      | _ \<Rightarrow> (storage_error s, answer 503))"

section \<open>Voting\<close>

text \<open>\<^verbatim>\<open>vote\<close> up to the semaphore.\<close>

definition vote_enter :: "server \<Rightarrow> server \<times> reply option" where
  "vote_enter s =
     (let s = s\<lparr>svAttempts := svAttempts s + 1\<rparr> in
      if int (svInflight s) < svMaxInflight s then (s\<lparr>svInflight := svInflight s + 1\<rparr>, None)
      else (s\<lparr>svRejected := svRejected s + 1\<rparr>, Some (retry 503 ''not_admitted'')))"

record vote_request =
  vqID :: string
  vqBody :: "(string \<times> int list) request_body"
  vqContextDone :: bool

definition reject :: "nat \<Rightarrow> server \<Rightarrow> server \<times> reply option" where
  "reject status s = (s\<lparr>svRejected := svRejected s + 1\<rparr>, Some (answer status))"

text \<open>The switch over the status of the repository's receipt.\<close>

definition vote_status :: "receipt \<Rightarrow> server \<Rightarrow> server \<times> reply" where
  "vote_status r s =
     (let st = rcStatus r in
      if st = ''accepted'' then (s\<lparr>svAccepted := svAccepted s + 1\<rparr>, (answer 201)\<lparr>rpOutcome := st\<rparr>)
      else if st = ''duplicate'' then (s\<lparr>svDuplicates := svDuplicates s + 1\<rparr>, (answer 200)\<lparr>rpOutcome := st\<rparr>)
      else if st = ''conflict'' then (s\<lparr>svConflicts := svConflicts s + 1\<rparr>, (answer 409)\<lparr>rpOutcome := st\<rparr>)
      else if st = ''closed'' then (s\<lparr>svRejected := svRejected s + 1\<rparr>, (answer 410)\<lparr>rpOutcome := st\<rparr>)
      else if st = ''not_open'' then (s\<lparr>svRejected := svRejected s + 1\<rparr>, (answer 425)\<lparr>rpOutcome := st\<rparr>)
      else if st = ''invalid'' then (s\<lparr>svRejected := svRejected s + 1\<rparr>, (answer 422)\<lparr>rpOutcome := st\<rparr>)
      else if st = ''not_found'' then (s\<lparr>svRejected := svRejected s + 1\<rparr>, (answer 404)\<lparr>rpOutcome := st\<rparr>)
      else (s\<lparr>svUnknown := svUnknown s + 1\<rparr>, retry 503 ''unknown''))"

text \<open>
  \<^verbatim>\<open>vote\<close> from there to its return, with the place given back; the reply is \<open>None\<close> when the client
  was gone before the operation was admitted. \<open>cast\<close> is the repository's \<^verbatim>\<open>Vote\<close>, \<open>None\<close> an error.
\<close>

definition vote_body :: "(string \<Rightarrow> string \<Rightarrow> int list \<Rightarrow> receipt option) \<Rightarrow> vote_request \<Rightarrow> server \<Rightarrow> server \<times> reply option" where
  "vote_body cast req s =
     (if \<not> validUUID (vqID req) then reject 404 s
      else case decode (vqBody req) of
        Inl status \<Rightarrow> reject status s
      | Inr (token, chosen) \<Rightarrow>
          if \<not> validToken token then reject 422 s
          else case NormalizeChoices chosen of
            Inl e \<Rightarrow> reject 422 s
          | Inr choices \<Rightarrow>
              if vqContextDone req then (s, None)
              else (case cast (vqID req) token choices of
                 None \<Rightarrow> (s\<lparr>svStorageErrors := svStorageErrors s + 1, svUnknown := svUnknown s + 1\<rparr>, Some (retry 503 ''unknown''))
               | Some r \<Rightarrow> (case vote_status r s of (s, rp) \<Rightarrow> (s, Some rp))))"

definition vote_finish ::
  "(string \<Rightarrow> string \<Rightarrow> int list \<Rightarrow> receipt option) \<Rightarrow> vote_request \<Rightarrow> server \<Rightarrow> server \<times> reply option" where
  "vote_finish cast req s =
     (let (s, rp) = vote_body cast req s in (s\<lparr>svInflight := svInflight s - 1\<rparr>, rp))"

end
