(* ===== verification/Http_Server_Props.thy ===== *)
theory Http_Server_Props
  imports Http_Server
begin

text \<open>
  The properties of the voting endpoint: the exact form of the identifiers it lets through,
  what reaches the repository, and the accounting of every attempt over all interleavings.
\<close>

section \<open>Identifiers\<close>

definition lower_hex :: "char \<Rightarrow> bool" where
  "lower_hex ch \<longleftrightarrow> digit ch \<or> (97 \<le> code ch \<and> code ch \<le> 102)"

lemma to_lower_fix: "to_lower ch = ch \<longleftrightarrow> \<not> upper ch"
proof
  assume same: "to_lower ch = ch"
  show "\<not> upper ch"
  proof
    assume up: "upper ch"
    then have "code (to_lower ch) = code ch + 32"
      by (simp add: to_lower_def code_def upper_def)
    with same show False by simp
  qed
qed (simp add: to_lower_def)

lemma lower_hex_iff: "lower_hex ch \<longleftrightarrow> hex_value ch \<noteq> None \<and> \<not> upper ch"
  by (auto simp: lower_hex_def hex_value_def upper_def digit_def)

lemma validToken_iff: "validToken s \<longleftrightarrow> length s = 32 \<and> list_all lower_hex s"
proof -
  have "s = map to_lower s \<longleftrightarrow> (\<forall>ch \<in> set s. to_lower ch = ch)"
    by (metis map_eq_conv map_idI list.map_ident)
  then have "s = map to_lower s \<longleftrightarrow> (\<forall>ch \<in> set s. \<not> upper ch)" by (simp add: to_lower_fix)
  then show ?thesis
    using hex_decode_some [of s] by (auto simp: validToken_def list_all_iff lower_hex_iff)
qed

lemma dash_not_hex: "\<not> lower_hex (CHR ''-'')"
  by code_simp

lemma uuid_groups:
  assumes "length s = 36"
  shows "s = subslice 0 8 s @ [s ! 8] @ subslice 9 13 s @ [s ! 13] @ subslice 14 18 s @ [s ! 18] @
    subslice 19 23 s @ [s ! 23] @ subslice 24 36 s"
proof -
  have one: "[s ! i] = subslice i (Suc i) s" if "i < 36" for i
    using that assms by (simp add: subslice_def Cons_nth_drop_Suc [symmetric] take_Suc)
  show ?thesis
    using assms by (simp add: one subslice_join subslice_all flip: append_assoc)
qed

lemma filter_all_length: "length (filter P xs) = length xs \<longleftrightarrow> list_all P xs"
  by (metis (no_types, lifting) filter_id_conv length_filter_less linorder_neq_iff list_all_iff)

text \<open>\<^verbatim>\<open>validUUID\<close> accepts exactly the canonical texts of a UUID: lower-case hexadecimal groups of 8, 4, 4, 4
  and 12 digits joined by dashes.\<close>

theorem http_validUUID_exact:
  "validUUID s \<longleftrightarrow> (\<exists>a b c d e. s = a @ ''-'' @ b @ ''-'' @ c @ ''-'' @ d @ ''-'' @ e \<and>
     length a = 8 \<and> length b = 4 \<and> length c = 4 \<and> length d = 4 \<and> length e = 12 \<and> list_all lower_hex (a @ b @ c @ d @ e))"
proof
  let ?nd = "\<lambda>ch. ch \<noteq> CHR ''-''"
  assume u: "validUUID s"
  then have len: "length s = 36" and dash: "s ! 8 = CHR ''-''" "s ! 13 = CHR ''-''" "s ! 18 = CHR ''-''" "s ! 23 = CHR ''-''"
    and tok: "length (filter ?nd s) = 32" "list_all lower_hex (filter ?nd s)"
    by (auto simp: validUUID_def validToken_iff)
  let ?a = "subslice 0 8 s" and ?b = "subslice 9 13 s" and ?c = "subslice 14 18 s" and ?d = "subslice 19 23 s"
    and ?e = "subslice 24 36 s"
  have groups: "s = ?a @ ''-'' @ ?b @ ''-'' @ ?c @ ''-'' @ ?d @ ''-'' @ ?e"
    using uuid_groups [OF len] by (simp add: dash)
  have lens: "length ?a = 8" "length ?b = 4" "length ?c = 4" "length ?d = 4" "length ?e = 12"
    using len by (simp_all add: length_subslice)
  have f: "filter ?nd s = filter ?nd (?a @ ?b @ ?c @ ?d @ ?e)"
    by (subst groups) simp
  with tok(1) lens have "length (filter ?nd (?a @ ?b @ ?c @ ?d @ ?e)) = length (?a @ ?b @ ?c @ ?d @ ?e)" by simp
  then have "filter ?nd (?a @ ?b @ ?c @ ?d @ ?e) = ?a @ ?b @ ?c @ ?d @ ?e"
    unfolding filter_all_length by (simp add: list_all_iff)
  with f tok(2) have "list_all lower_hex (?a @ ?b @ ?c @ ?d @ ?e)" by metis
  with groups lens show "\<exists>a b c d e. s = a @ ''-'' @ b @ ''-'' @ c @ ''-'' @ d @ ''-'' @ e \<and>
     length a = 8 \<and> length b = 4 \<and> length c = 4 \<and> length d = 4 \<and> length e = 12 \<and> list_all lower_hex (a @ b @ c @ d @ e)"
    by blast
next
  let ?nd = "\<lambda>ch. ch \<noteq> CHR ''-''"
  assume "\<exists>a b c d e. s = a @ ''-'' @ b @ ''-'' @ c @ ''-'' @ d @ ''-'' @ e \<and>
     length a = 8 \<and> length b = 4 \<and> length c = 4 \<and> length d = 4 \<and> length e = 12 \<and> list_all lower_hex (a @ b @ c @ d @ e)"
  then obtain a b c d e where s: "s = a @ ''-'' @ b @ ''-'' @ c @ ''-'' @ d @ ''-'' @ e"
    and lens: "length a = 8" "length b = 4" "length c = 4" "length d = 4" "length e = 12"
    and hex: "list_all lower_hex (a @ b @ c @ d @ e)" by blast
  have keep: "filter ?nd x = x" if "list_all lower_hex x" for x
    using that dash_not_hex by (auto simp: filter_id_conv list_all_iff)
  have "filter ?nd s = a @ b @ c @ d @ e" using hex keep by (simp add: s)
  with hex lens show "validUUID s" by (simp add: validUUID_def validToken_iff s nth_append)
qed

section \<open>What reaches the repository\<close>

text \<open>The repository is asked to record a vote only for a canonical poll identifier, a token of 32 lower-case
  hexadecimal digits, and an increasing list of 1 to 20 different options: the outcome of a request does not depend on
  what the repository would do with anything else.\<close>

theorem http_vote_input_normal:
  assumes "\<And>id token cs. validUUID id \<Longrightarrow> length token = 32 \<Longrightarrow> list_all lower_hex token \<Longrightarrow> sorted cs \<Longrightarrow> choice_set cs \<Longrightarrow>
    cast1 id token cs = cast2 id token cs"
  shows "vote_finish cast1 req s = vote_finish cast2 req s"
proof -
  have "vote_body cast1 req s = vote_body cast2 req s"
  proof (cases "decode (vqBody req)")
    case (Inr tc)
    obtain token chosen where tc: "tc = (token, chosen)" by (cases tc)
    have "cast1 (vqID req) token choices = cast2 (vqID req) token choices"
      if "validUUID (vqID req)" "validToken token" "NormalizeChoices chosen = Inr choices" for choices
    proof -
      have n: "choice_set chosen" "choices = sort chosen" using that(3) by (simp_all add: NormalizeChoices_ok)
      then have "choice_set choices" by (auto simp: choice_set_def simp flip: length_greater_0_conv)
      with that(1,2) n(2) assms show ?thesis by (simp add: validToken_iff)
    qed
    then show ?thesis by (simp add: vote_body_def Inr tc split: sum.splits)
  qed (simp add: vote_body_def)
  then show ?thesis by (simp add: vote_finish_def)
qed

definition demo_vote_request :: vote_request where
  "demo_vote_request = \<lparr>vqID = ''01234567-89ab-cdef-0123-456789abcdef'',
     vqBody = \<lparr>rbMedia = Some ''application/json'', rbValue = Some (''00112233445566778899aabbccddeeff'', [3, 1]), rbEnded = True\<rparr>,
     vqContextDone = False\<rparr>"

definition demo_server :: server where
  "demo_server = \<lparr>svAuth = newAuth ''0123456789abcdef'' True 0, svOrigin = ''https://example.org'', svMaxInflight = 2,
     svInflight = 1, svReadInflight = 0, svAdminInflight = 0, svTimeout = 5, svReady = True, svAttempts = 1, svAccepted = 0,
     svDuplicates = 0, svConflicts = 0, svRejected = 0, svUnknown = 0, svStorageErrors = 0\<rparr>"

theorem http_vote_input_normal_witness:
  "vote_finish (\<lambda>id token cs. Some \<lparr>rcStatus = ''accepted'', rcChoices = cs, rcAcceptedAt = None\<rparr>) demo_vote_request demo_server
     = vote_finish (\<lambda>id token cs. if sorted cs then Some \<lparr>rcStatus = ''accepted'', rcChoices = cs, rcAcceptedAt = None\<rparr> else None)
         demo_vote_request demo_server"
  by (rule http_vote_input_normal) simp

section \<open>Accounting\<close>

text \<open>The server with the attempts whose client had gone, as requests enter and finish in any order.\<close>

inductive http_step :: "server \<times> nat \<Rightarrow> server \<times> nat \<Rightarrow> bool" where
  enter: "http_step (s, gone) (fst (vote_enter s), gone)"
| finish: "svInflight s > 0 \<Longrightarrow> http_step (s, gone) (fst (vote_finish cast req s),
    if snd (vote_finish cast req s) = None then Suc gone else gone)"

definition answered :: "server \<Rightarrow> nat" where
  "answered s = svAccepted s + svDuplicates s + svConflicts s + svRejected s + svUnknown s"

definition account_inv :: "server \<times> nat \<Rightarrow> bool" where
  "account_inv = (\<lambda>(s, gone). answered s + gone + svInflight s = svAttempts s \<and>
     (svInflight s = 0 \<or> int (svInflight s) \<le> svMaxInflight s))"

lemma vote_body_counts:
  assumes "vote_body cast req s = (s', rp)"
  shows "answered s' + (if rp = None then 1 else 0) = Suc (answered s)" "svInflight s' = svInflight s"
    "svAttempts s' = svAttempts s" "svMaxInflight s' = svMaxInflight s"
  using assms by (auto simp: vote_body_def reject_def vote_status_def answered_def Let_def split: if_splits sum.splits option.splits prod.splits)

lemma account_step: "http_step st st' \<Longrightarrow> account_inv st \<Longrightarrow> account_inv st'"
proof (induction rule: http_step.induct)
  case (enter s gone)
  then show ?case by (auto simp: vote_enter_def account_inv_def answered_def Let_def)
next
  case (finish s gone cast req)
  obtain s' rp where b: "vote_body cast req s = (s', rp)" by (metis prod.exhaust)
  note c = vote_body_counts [OF b]
  from finish c show ?case by (auto simp: vote_finish_def b account_inv_def answered_def)
qed

interpretation http: transition_system
  "\<lambda>(s, gone). gone = 0 \<and> svInflight s = 0 \<and> svAttempts s = 0 \<and> answered s = 0" http_step account_inv
proof unfold_locales
  show "account_inv st'" if "account_inv st" "http_step st st'" for st st'
    using that account_step by blast
qed (auto simp: account_inv_def)


definition demo_url :: parsed_url where
  "demo_url = \<lparr>puScheme = ''https'', puHost = ''example.org'', puHasUser = False, puRawQuery = [], puFragment = [], puPath = ''/''\<rparr>"

definition demo_http_config :: http_config where
  "demo_http_config = \<lparr>hcAdminPassword = ''0123456789abcdef'', hcMaxInflight = 2, hcOperationTimeout = 5\<rparr>"

definition demo_new_server :: server where
  "demo_new_server = demo_server\<lparr>svInflight := 0, svReady := False, svAttempts := 0\<rparr>"


end
