(* ===== verification/Go_Strings.thy ===== *)
theory Go_Strings
  imports Go_Net
begin

text \<open>
  The functions of Go's \<^verbatim>\<open>strings\<close> and \<^verbatim>\<open>strconv\<close> packages that the configuration and the
  durability policy use, on strings as lists of bytes: \<^verbatim>\<open>TrimSpace\<close>, \<^verbatim>\<open>Fields\<close>, \<^verbatim>\<open>Cut\<close>,
  \<^verbatim>\<open>Split\<close>, \<^verbatim>\<open>Join\<close>, \<^verbatim>\<open>Contains\<close>, \<^verbatim>\<open>Atoi\<close> and the decimal text of a number.
\<close>

section \<open>White space\<close>

text \<open>
  The UTF-8 texts of the runes of \<^verbatim>\<open>unicode.IsSpace\<close>. No text of the list is a prefix or a
  suffix of another, so at most one of them starts or ends a string.
\<close>

definition bytes_text :: "nat list \<Rightarrow> string" where
  "bytes_text bs = map char_of bs"

definition space_texts :: "string list" where
  "space_texts = map bytes_text
     ([[9], [10], [11], [12], [13], [32], [194, 133], [194, 160], [225, 154, 128]]
      @ map (\<lambda>b. [226, 128, b]) [128..<139] @ [[226, 128, 168], [226, 128, 169], [226, 128, 175], [226, 129, 159], [227, 128, 128]])"

definition space_length :: "string \<Rightarrow> nat" where
  "space_length s = (case filter (has_prefix s) space_texts of [] \<Rightarrow> 0 | sp # _ \<Rightarrow> length sp)"

lemma has_prefix_length: "has_prefix s p \<Longrightarrow> length p \<le> length s"
  by (metis has_prefix_def length_take min.cobounded1)

lemma space_length_le: "space_length s \<le> length s"
proof (cases "filter (has_prefix s) space_texts")
  case (Cons sp rest)
  then have "sp \<in> {x \<in> set space_texts. has_prefix s x}" by (metis list.set_intros(1) set_filter)
  then show ?thesis by (simp add: space_length_def Cons has_prefix_length)
qed (simp add: space_length_def)

function trim_left :: "string \<Rightarrow> string" where
  "trim_left s = (if space_length s = 0 then s else trim_left (drop (space_length s) s))"
  by pat_completeness auto
termination
proof (relation "measure length")
  show "(drop (space_length s) s, s) \<in> measure length" if "space_length s \<noteq> 0" for s
    using that space_length_le [of s] by auto
qed simp

declare trim_left.simps [simp del]

text \<open>The same from the end; \<open>r\<close> is the string reversed.\<close>

definition space_suffix_length :: "string \<Rightarrow> nat" where
  "space_suffix_length r = (case filter (\<lambda>sp. has_prefix r (rev sp)) space_texts of [] \<Rightarrow> 0 | sp # _ \<Rightarrow> length sp)"

lemma space_suffix_length_le: "space_suffix_length r \<le> length r"
proof (cases "filter (\<lambda>sp. has_prefix r (rev sp)) space_texts")
  case (Cons sp rest)
  then have "sp \<in> {x \<in> set space_texts. has_prefix r (rev x)}" by (metis list.set_intros(1) set_filter)
  then have "has_prefix r (rev sp)" by simp
  then show ?thesis using has_prefix_length [of r "rev sp"] by (simp add: space_suffix_length_def Cons)
qed (simp add: space_suffix_length_def)

function trim_right_rev :: "string \<Rightarrow> string" where
  "trim_right_rev r = (if space_suffix_length r = 0 then r else trim_right_rev (drop (space_suffix_length r) r))"
  by pat_completeness auto
termination
proof (relation "measure length")
  show "(drop (space_suffix_length r) r, r) \<in> measure length" if "space_suffix_length r \<noteq> 0" for r
    using that space_suffix_length_le [of r] by auto
qed simp

declare trim_right_rev.simps [simp del]

definition trim_space :: "string \<Rightarrow> string" where
  "trim_space s = rev (trim_right_rev (rev (trim_left s)))"

text \<open>\<^verbatim>\<open>strings.Join(strings.Fields(s), "")\<close>: the string without its white space.\<close>

function join_fields :: "string \<Rightarrow> string" where
  "join_fields s =
     (if s = [] then [] else if space_length s = 0 then hd s # join_fields (tl s)
      else join_fields (drop (space_length s) s))"
  by pat_completeness auto
termination
proof (relation "measure length")
  show "(drop (space_length s) s, s) \<in> measure length" if "s \<noteq> []" "space_length s \<noteq> 0" for s
    using that space_length_le [of s] by auto
  show "(tl s, s) \<in> measure length" if "s \<noteq> []" for s
    using that by (cases s) auto
qed simp

declare join_fields.simps [simp del]

definition ascii_space :: "char \<Rightarrow> bool" where
  "ascii_space ch \<longleftrightarrow> code ch \<in> {9, 10, 11, 12, 13, 32}"

lemma space_length_ascii:
  assumes "s \<noteq> []" and "code (hd s) < 128"
  shows "space_length s = (if ascii_space (hd s) then 1 else 0)"
proof -
  obtain ch r where s: "s = ch # r" using assms(1) by (cases s) auto
  have pre: "has_prefix (ch # r) (bytes_text (b # bs)) \<longleftrightarrow> code ch = b \<and> has_prefix r (bytes_text bs)" if "b < 256" for b bs
    using that by (auto simp: has_prefix_def bytes_text_def code_def)
  show ?thesis
    using assms(2) unfolding space_length_def space_texts_def s
    by (simp add: pre upt_rec ascii_space_def) (auto simp: has_prefix_def bytes_text_def)
qed

lemma space_suffix_length_ascii:
  assumes "r \<noteq> []" and "code (hd r) < 128"
  shows "space_suffix_length r = (if ascii_space (hd r) then 1 else 0)"
proof -
  obtain ch q where r: "r = ch # q" using assms(1) by (cases r) auto
  have pre: "has_prefix (ch # q) (rev (bytes_text bs) @ rev []) \<longleftrightarrow>
      bs = [] \<or> (code ch = last bs \<and> has_prefix q (rev (bytes_text (butlast bs))))" if "\<forall>b \<in> set bs. b < 256" for bs
    using that by (cases bs rule: rev_cases) (auto simp: has_prefix_def bytes_text_def code_def)
  show ?thesis
    using assms(2) unfolding space_suffix_length_def space_texts_def r
    by (simp add: pre [simplified] upt_rec ascii_space_def) (auto simp: has_prefix_def bytes_text_def)
qed

text \<open>A string that starts and ends with visible ASCII is trimmed already.\<close>

lemma trim_space_visible:
  assumes "s \<noteq> []" and "code (hd s) < 128 \<and> \<not> ascii_space (hd s)" and "code (last s) < 128 \<and> \<not> ascii_space (last s)"
  shows "trim_space s = s"
proof -
  have "trim_left s = s" using assms by (subst trim_left.simps) (simp add: space_length_ascii)
  moreover have "trim_right_rev (rev s) = rev s"
    using assms by (subst trim_right_rev.simps) (simp add: space_suffix_length_ascii hd_rev)
  ultimately show ?thesis by (simp add: trim_space_def)
qed

lemma join_fields_ascii: "\<forall>ch \<in> set s. code ch < 128 \<Longrightarrow> join_fields s = filter (\<lambda>ch. \<not> ascii_space ch) s"
proof (induction s)
  case Nil
  then show ?case by (simp add: join_fields.simps)
next
  case (Cons ch s)
  then show ?case by (subst join_fields.simps) (simp add: space_length_ascii)
qed

section \<open>Cutting and joining\<close>

definition cut :: "char \<Rightarrow> string \<Rightarrow> (string \<times> string) option" where
  "cut sep s = (case index_byte sep s of None \<Rightarrow> None | Some i \<Rightarrow> Some (take i s, drop (i + 1) s))"

fun split_byte :: "char \<Rightarrow> string \<Rightarrow> string list" where
  "split_byte sep [] = [[]]"
| "split_byte sep (ch # s) =
     (if ch = sep then [] # split_byte sep s
      else case split_byte sep s of [] \<Rightarrow> [[ch]] | f # fs \<Rightarrow> (ch # f) # fs)"

fun join_with :: "string \<Rightarrow> string list \<Rightarrow> string" where
  "join_with sep [] = []"
| "join_with sep [f] = f"
| "join_with sep (f # fs) = f @ sep @ join_with sep fs"

definition contains_text :: "string \<Rightarrow> string \<Rightarrow> bool" where
  "contains_text s sub \<longleftrightarrow> (\<exists>i \<in> set [0..<length s + 1]. has_prefix (drop i s) sub)"

lemma split_byte_ne [simp]: "split_byte sep s \<noteq> []"
  by (cases s) (auto split: list.splits)

lemma split_byte_prepend: "sep \<notin> set f \<Longrightarrow> split_byte sep (f @ s) = (f @ hd (split_byte sep s)) # tl (split_byte sep s)"
  by (induction f) auto

lemma split_byte_word: "sep \<notin> set f \<Longrightarrow> split_byte sep f = [f]"
  using split_byte_prepend [of sep f "[]"] by simp

text \<open>Splitting takes a joined list of separator-free fields apart again.\<close>

lemma split_join: "fs \<noteq> [] \<Longrightarrow> \<forall>f \<in> set fs. sep \<notin> set f \<Longrightarrow> split_byte sep (join_with [sep] fs) = fs"
  by (induction fs rule: induct_list012) (simp_all add: split_byte_word split_byte_prepend)

section \<open>Decimal numbers\<close>

definition digit_value :: "char \<Rightarrow> nat" where
  "digit_value ch = code ch - 48"

definition decimal_value :: "string \<Rightarrow> nat" where
  "decimal_value s = foldl (\<lambda>v ch. 10 * v + digit_value ch) 0 s"

text \<open>\<^verbatim>\<open>strconv.Atoi\<close> into a 64-bit int: an optional sign and at least one digit, within range.\<close>

definition atoi :: "string \<Rightarrow> int option" where
  "atoi s =
     (let neg = (s \<noteq> [] \<and> hd s = CHR ''-'');
          ds = (if s \<noteq> [] \<and> (hd s = CHR ''-'' \<or> hd s = CHR ''+'') then tl s else s) in
      if ds = [] \<or> \<not> list_all digit ds then None
      else let n = int (decimal_value ds); v = (if neg then - n else n) in
        if v < - (2 ^ 63) \<or> 2 ^ 63 \<le> v then None else Some v)"

text \<open>The decimal text of a natural number, as \<^verbatim>\<open>%d\<close> prints it.\<close>

function decimal :: "nat \<Rightarrow> string" where
  "decimal n = (if n < 10 then [char_of (48 + n)] else decimal (n div 10) @ [char_of (48 + n mod 10)])"
  by pat_completeness auto
termination by (relation "measure id") auto

declare decimal.simps [simp del]

lemma digit_char: "d < 10 \<Longrightarrow> digit (char_of (48 + d)) \<and> digit_value (char_of (48 + d)) = d"
  by (simp add: digit_def digit_value_def code_def)

lemma decimal_digits: "list_all digit (decimal n) \<and> decimal n \<noteq> [] \<and> decimal_value (decimal n) = n"
proof (induction n rule: decimal.induct)
  case (1 n)
  show ?case
  proof (cases "n < 10")
    case True
    then show ?thesis by (subst decimal.simps) (simp add: decimal.simps [of n] digit_char decimal_value_def)
  next
    case False
    have d: "decimal n = decimal (n div 10) @ [char_of (48 + n mod 10)]" using False by (subst decimal.simps) simp
    show ?thesis using 1 [OF False] by (simp add: d digit_char decimal_value_def)
  qed
qed

lemma decimal_inj: "decimal a = decimal b \<longleftrightarrow> a = b"
  by (metis decimal_digits)

end
