(* ===== verification/Config.thy ===== *)
theory Config
  imports Go_Strings
begin

text \<open>
  The configuration (\<^verbatim>\<open>internal/config/config.go\<close>): the reading of a \<^verbatim>\<open>.env\<close> file into the
  environment and the checks of \<^verbatim>\<open>Load\<close>. The environment is a map; the file is what opening
  and reading it gives.
\<close>

type_synonym environ = "string \<rightharpoonup> string"

record app_config =
  cfAddr :: string
  cfPublicURL :: string
  cfDatabaseURL :: string
  cfAdminPassword :: string
  cfVoteConnections :: "32 word"
  cfMaxInflight :: int
  cfRequiredStandbys :: int
  cfStandbyNames :: "string list"

section \<open>The .env file\<close>

datatype env_file = NoFile | OpenFailed | Contents string bool

text \<open>
  \<^verbatim>\<open>bufio.Scanner\<close> with its default split: lines without their end, a carriage return before it
  dropped; it stops at a line that does not fit its buffer of 64 KiB. The result has the
  lines it gives and whether it ends with an error; a failed read is one.
\<close>

definition drop_cr :: "string \<Rightarrow> string" where
  "drop_cr l = (if l \<noteq> [] \<and> last l = char_of (13 :: nat) then butlast l else l)"

definition scan_lines :: "string \<Rightarrow> bool \<Rightarrow> string list \<times> bool" where
  "scan_lines s read_error =
     (let ls = split_byte (char_of (10 :: nat)) s; ls = (if last ls = [] then butlast ls else ls);
          fits = takeWhile (\<lambda>l. length l < 65536) ls
      in (map drop_cr fits, length fits < length ls \<or> read_error))"

datatype config_error = EnvOpen | EnvLine | EnvKey | EnvSet | EnvRead | NoDatabaseURL | BadAdminPassword
  | BadVoteConnections | BadMaxInflight | BadRequiredStandbys

text \<open>One line: nothing to do, an assignment, or an error.\<close>

definition unquote :: "string \<Rightarrow> string" where
  "unquote v =
     (if length v \<ge> 2 \<and> ((v ! 0 = char_of (39 :: nat) \<and> v ! (length v - 1) = char_of (39 :: nat)) \<or>
         (v ! 0 = char_of (34 :: nat) \<and> v ! (length v - 1) = char_of (34 :: nat)))
      then subslice 1 (length v - 1) v else v)"

definition env_line :: "string \<Rightarrow> config_error + (string \<times> string) option" where
  "env_line text =
     (let line = trim_space text in
      if line = [] \<or> has_prefix line ''#'' then Inr None
      else case cut (CHR ''='') line of
        None \<Rightarrow> Inl EnvLine
      | Some (key, value) \<Rightarrow>
          let key = trim_space key; value = trim_space value in
          if (\<exists>ch \<in> set key. code ch \<in> {32, 9, 13, 10}) \<or> key = [] then Inl EnvKey
          else Inr (Some (key, unquote value)))"

text \<open>\<^verbatim>\<open>os.Setenv\<close> refuses a NUL byte in either part (the key is not empty and has no equals sign here).\<close>

definition setenv :: "string \<Rightarrow> string \<Rightarrow> environ \<Rightarrow> environ option" where
  "setenv key value env =
     (if char_of (0 :: nat) \<in> set key \<or> char_of (0 :: nat) \<in> set value then None else Some (env(key \<mapsto> value)))"

fun env_lines :: "string list \<Rightarrow> environ \<Rightarrow> environ \<times> config_error option" where
  "env_lines [] env = (env, None)"
| "env_lines (l # ls) env =
     (case env_line l of
        Inl e \<Rightarrow> (env, Some e)
      | Inr None \<Rightarrow> env_lines ls env
      | Inr (Some (key, value)) \<Rightarrow>
          if env key \<noteq> None then env_lines ls env
          else case setenv key value env of
            None \<Rightarrow> (env, Some EnvSet)
          | Some env \<Rightarrow> env_lines ls env)"

definition LoadEnv :: "env_file \<Rightarrow> environ \<Rightarrow> environ \<times> config_error option" where
  "LoadEnv file env =
     (case file of
        NoFile \<Rightarrow> (env, None)
      | OpenFailed \<Rightarrow> (env, Some EnvOpen)
      | Contents s read_error \<Rightarrow>
          let (ls, bad) = scan_lines s read_error; (env, e) = env_lines ls env in
          (env, case e of Some e \<Rightarrow> Some e | None \<Rightarrow> if bad then Some EnvRead else None))"

section \<open>Load\<close>

definition getenv :: "environ \<Rightarrow> string \<Rightarrow> string" where
  "getenv env key = (case env key of None \<Rightarrow> [] | Some v \<Rightarrow> v)"

definition env_or :: "environ \<Rightarrow> string \<Rightarrow> string \<Rightarrow> string" where
  "env_or env key fallback = (let v = getenv env key in if v \<noteq> [] then v else fallback)"

text \<open>One of the three bounded numbers: unset leaves the default.\<close>

definition env_number :: "environ \<Rightarrow> string \<Rightarrow> int \<Rightarrow> int \<Rightarrow> int \<Rightarrow> int option" where
  "env_number env key low high dflt =
     (let raw = getenv env key in
      if raw = [] then Some dflt
      else case atoi raw of None \<Rightarrow> None | Some n \<Rightarrow> if n < low \<or> n > high then None else Some n)"

definition standby_names :: "string \<Rightarrow> string list" where
  "standby_names raw = (if trim_space raw = [] then [] else map trim_space (split_byte (CHR '','') (trim_space raw)))"

definition Load :: "environ \<Rightarrow> config_error + app_config" where
  "Load env =
     (let c = \<lparr>cfAddr = env_or env ''HTTP_ADDR'' ''127.0.0.1:8080'',
            cfPublicURL = env_or env ''PUBLIC_URL'' ''http://127.0.0.1:8080'',
            cfDatabaseURL = getenv env ''DATABASE_URL'', cfAdminPassword = getenv env ''ADMIN_PASSWORD'',
            cfVoteConnections = 64, cfMaxInflight = 256, cfRequiredStandbys = 0, cfStandbyNames = []\<rparr> in
      if cfDatabaseURL c = [] then Inl NoDatabaseURL
      else if length (cfAdminPassword c) < 16 \<or> contains_text (cfAdminPassword c) ''CHANGE_ME'' then Inl BadAdminPassword
      else case env_number env ''VOTE_DB_CONNECTIONS'' 1 10000 64 of
        None \<Rightarrow> Inl BadVoteConnections
      | Some conns \<Rightarrow>
          (case env_number env ''MAX_INFLIGHT'' 1 100000 256 of
             None \<Rightarrow> Inl BadMaxInflight
           | Some inflight \<Rightarrow>
               (case env_number env ''DURABILITY_REQUIRED_STANDBYS'' 0 16 0 of
                  None \<Rightarrow> Inl BadRequiredStandbys
                | Some standbys \<Rightarrow>
                    Inr (c\<lparr>cfVoteConnections := word_of_int conns, cfMaxInflight := inflight,
                      cfRequiredStandbys := standbys,
                      cfStandbyNames := standby_names (getenv env ''DURABILITY_STANDBY_NAMES'')\<rparr>))))"

section \<open>Properties\<close>

text \<open>The assignments of a list of lines, in order.\<close>

fun assignments :: "string list \<Rightarrow> (string \<times> string) list" where
  "assignments [] = []"
| "assignments (l # ls) = (case env_line l of Inr (Some p) \<Rightarrow> p # assignments ls | _ \<Rightarrow> assignments ls)"

lemma env_lines_le: "env \<subseteq>\<^sub>m fst (env_lines ls env)"
proof (induction ls arbitrary: env)
  case (Cons l ls)
  have "env \<subseteq>\<^sub>m fst (env_lines ls (env(key \<mapsto> v)))" if "env key = None" for key v
  proof (rule map_le_trans)
    show "env \<subseteq>\<^sub>m env(key \<mapsto> v)" using that by (simp add: map_le_def dom_def)
  qed (rule Cons)
  with Cons show ?case
    by (auto simp: setenv_def simp del: not_None_eq split: sum.splits option.splits)
qed simp

lemma env_lines_ok:
  "snd (env_lines ls env) = None \<Longrightarrow> fst (env_lines ls env) = map_of (assignments ls) ++ env"
proof (induction ls arbitrary: env)
  case (Cons l ls)
  show ?case
  proof (cases "env_line l")
    case (Inr r)
    show ?thesis
    proof (cases r)
      case (Some p)
      obtain key v where p: "p = (key, v)" by (cases p)
      show ?thesis
      proof (cases "env key")
        case None
        have "setenv key v env = Some (env(key \<mapsto> v))" and "snd (env_lines ls (env(key \<mapsto> v))) = None"
          using Cons.prems by (auto simp: Inr Some p None setenv_def split: if_splits)
        moreover have "env(key \<mapsto> v) = [key \<mapsto> v] ++ env" using None by (auto simp: map_add_def fun_eq_iff split: option.splits)
        moreover have "map_of (assignments (l # ls)) = map_of (assignments ls) ++ [key \<mapsto> v]" by (simp add: Inr Some p)
        ultimately show ?thesis using Cons.IH [of "env(key \<mapsto> v)"] None by (simp add: Inr Some p del: map_add_upd)
      next
        case (Some w)
        with Cons \<open>r = Some p\<close> show ?thesis by (auto simp: Inr p map_add_def fun_eq_iff split: option.splits)
      qed
    qed (use Cons in \<open>simp add: Inr\<close>)
  qed (use Cons in simp)
qed simp

text \<open>\<^verbatim>\<open>LoadEnv\<close> never replaces a value the environment has, whether it succeeds or fails; when it succeeds
  on a file, the new values are the first assignments of the file's lines to keys that had none.\<close>

theorem config_LoadEnv_exact:
  "env \<subseteq>\<^sub>m fst (LoadEnv file env) \<and>
   (\<forall>s read_error. file = Contents s read_error \<longrightarrow> snd (LoadEnv file env) = None \<longrightarrow>
      fst (LoadEnv file env) = map_of (assignments (fst (scan_lines s read_error))) ++ env)"
  using env_lines_le env_lines_ok
  by (auto simp: LoadEnv_def case_prod_beta Let_def split: env_file.splits option.splits if_splits)

definition demo_env_file :: string where
  "demo_env_file = ''A=1'' @ [char_of (10 :: nat)] @ ''A=2'' @ [char_of (10 :: nat)] @ ''B=3''"

theorem config_LoadEnv_exact_witness:
  "fst (LoadEnv (Contents demo_env_file False) [''B'' \<mapsto> ''x'']) =
     map_of [(''A'', ''1''), (''A'', ''2''), (''B'', ''3'')] ++ [''B'' \<mapsto> ''x'']"
proof -
  have lines: "scan_lines demo_env_file False = ([''A=1'', ''A=2'', ''B=3''], False)"
    by (simp add: scan_lines_def demo_env_file_def drop_cr_def char_of_def)
  have parsed: "env_line ''A=1'' = Inr (Some (''A'', ''1''))" "env_line ''A=2'' = Inr (Some (''A'', ''2''))"
    "env_line ''B=3'' = Inr (Some (''B'', ''3''))"
    by (simp_all add: env_line_def trim_space_visible ascii_space_def code_def has_prefix_def cut_def index_byte_def upt_rec unquote_def)
  have "snd (LoadEnv (Contents demo_env_file False) [''B'' \<mapsto> ''x'']) = None"
    by (simp add: LoadEnv_def lines parsed setenv_def char_of_def)
  from config_LoadEnv_exact [THEN conjunct2, rule_format, OF refl this] show ?thesis
    by (simp add: lines parsed)
qed

lemma env_number_bounds: "env_number env key low high dflt = Some n \<Longrightarrow> low \<le> dflt \<Longrightarrow> dflt \<le> high \<Longrightarrow> low \<le> n \<and> n \<le> high"
  by (auto simp: env_number_def Let_def split: if_splits option.splits)

text \<open>A loaded configuration is within its bounds: a database address, an administrator password of at least 16
  bytes that is not the placeholder, 1 to 10000 connections with no wrap-around in 32 bits, 1 to 100000 requests in
  flight, and 0 to 16 standbys; and it depends on its seven variables alone.\<close>

theorem config_Load_bounds:
  assumes "Load env = Inr c"
  shows "cfDatabaseURL c \<noteq> [] \<and> 16 \<le> length (cfAdminPassword c) \<and> \<not> contains_text (cfAdminPassword c) ''CHANGE_ME'' \<and>
    1 \<le> sint (cfVoteConnections c) \<and> sint (cfVoteConnections c) \<le> 10000 \<and> 1 \<le> cfMaxInflight c \<and> cfMaxInflight c \<le> 100000 \<and>
    0 \<le> cfRequiredStandbys c \<and> cfRequiredStandbys c \<le> 16 \<and> cfAddr c \<noteq> [] \<and> cfPublicURL c \<noteq> [] \<and>
    env_number env ''VOTE_DB_CONNECTIONS'' 1 10000 64 = Some (sint (cfVoteConnections c))"
proof -
  from assms obtain conns inflight standbys where n: "env_number env ''VOTE_DB_CONNECTIONS'' 1 10000 64 = Some conns"
    "env_number env ''MAX_INFLIGHT'' 1 100000 256 = Some inflight"
    "env_number env ''DURABILITY_REQUIRED_STANDBYS'' 0 16 0 = Some standbys"
    and c: "c = \<lparr>cfAddr = env_or env ''HTTP_ADDR'' ''127.0.0.1:8080'',
      cfPublicURL = env_or env ''PUBLIC_URL'' ''http://127.0.0.1:8080'',
      cfDatabaseURL = getenv env ''DATABASE_URL'', cfAdminPassword = getenv env ''ADMIN_PASSWORD'',
      cfVoteConnections = word_of_int conns, cfMaxInflight = inflight, cfRequiredStandbys = standbys,
      cfStandbyNames = standby_names (getenv env ''DURABILITY_STANDBY_NAMES'')\<rparr>"
    and ok: "getenv env ''DATABASE_URL'' \<noteq> []" "16 \<le> length (getenv env ''ADMIN_PASSWORD'')"
      "\<not> contains_text (getenv env ''ADMIN_PASSWORD'') ''CHANGE_ME''"
    by (simp add: Load_def Let_def not_less split: if_splits option.splits)
  have "1 \<le> conns" "conns \<le> 10000" using env_number_bounds [OF n(1)] by simp_all
  then have "sint (word_of_int conns :: 32 word) = conns"
    by (simp add: sint_sbintrunc' signed_take_bit_int_eq_self)
  with ok n env_number_bounds [OF n(2)] env_number_bounds [OF n(3)] \<open>1 \<le> conns\<close> \<open>conns \<le> 10000\<close> show ?thesis
    by (simp add: c env_or_def Let_def)
qed

theorem config_Load_bounds_witness:
  "\<exists>c. Load [''DATABASE_URL'' \<mapsto> ''postgres://x'', ''ADMIN_PASSWORD'' \<mapsto> ''0123456789abcdef'', ''VOTE_DB_CONNECTIONS'' \<mapsto> ''80'']
     = Inr c \<and> 1 \<le> sint (cfVoteConnections c) \<and> sint (cfVoteConnections c) \<le> 10000"
proof -
  let ?env = "[''DATABASE_URL'' \<mapsto> ''postgres://x'', ''ADMIN_PASSWORD'' \<mapsto> ''0123456789abcdef'', ''VOTE_DB_CONNECTIONS'' \<mapsto> ''80'']"
  have "atoi ''80'' = Some 80" "\<not> contains_text ''0123456789abcdef'' ''CHANGE_ME''" by code_simp+
  then obtain c where "Load ?env = Inr c" by (simp add: Load_def getenv_def env_or_def env_number_def)
  with config_Load_bounds [of ?env c] show ?thesis by blast
qed

end
