(* ===== verification/Pg_Durability.thy ===== *)
theory Pg_Durability
  imports Go_Strings
begin

text \<open>
  The durability policy of the database (\<^verbatim>\<open>internal/postgres/durability.go\<close>): the check of the
  options, the identity of the primary a store is tied to, the check of a new connection, and
  the proof that the write-ahead log up to a fixed position is on the required standbys.

  What the server says in one query is a \<open>wal_snapshot\<close>, on which the query of the source is
  evaluated; a position of the log (an LSN) is a natural number. Durations are left out of
  the diagnostics, but for the delays between the retries.
\<close>

section \<open>Options\<close>

record durability_options =
  doRequired :: int
  doNames :: "string list"

datatype options_error = BadQuorum | NamesWithoutQuorum | QuorumExceedsNames | BadStandbyName

text \<open>\<^verbatim>\<open>^[a-z][a-z0-9_]{0,62}$\<close>\<close>

definition standby_name :: "string \<Rightarrow> bool" where
  "standby_name n \<longleftrightarrow> n \<noteq> [] \<and> lower (hd n) \<and> list_all (\<lambda>ch. lower ch \<or> digit ch \<or> ch = CHR ''_'') (tl n) \<and> length (tl n) \<le> 62"

fun check_names :: "string list \<Rightarrow> string set \<Rightarrow> bool" where
  "check_names [] seen = True"
| "check_names (n # ns) seen =
     (if \<not> standby_name n \<or> n \<in> seen \<or> n = ''any'' \<or> n = ''first'' then False else check_names ns (insert n seen))"

definition validate_policy :: "durability_options \<Rightarrow> options_error option" where
  "validate_policy opts =
     (if doRequired opts < 0 \<or> doRequired opts > 16 \<or> length (doNames opts) > 16 then Some BadQuorum
      else if doRequired opts = 0 then (if doNames opts \<noteq> [] then Some NamesWithoutQuorum else None)
      else if doRequired opts > int (length (doNames opts)) then Some QuorumExceedsNames
      else if check_names (doNames opts) {} then None else Some BadStandbyName)"

definition expectedSetting :: "durability_options \<Rightarrow> string" where
  "expectedSetting opts = ''ANY '' @ decimal (nat (doRequired opts)) @ '' ('' @ join_with '','' (doNames opts) @ '')''"

definition compactSetting :: "string \<Rightarrow> string" where
  "compactSetting s = join_fields s"

section \<open>The primary\<close>

record primary_identity =
  piSystemID :: string
  piTimeline :: int
  piStarted :: time

record durability =
  duIdentity :: "primary_identity option"
  duProofQueries :: nat
  duProofRetries :: nat

text \<open>\<^verbatim>\<open>check\<close> keeps the first identity it sees, and compares the others with it.\<close>

definition check_identity :: "primary_identity \<Rightarrow> durability \<Rightarrow> durability \<times> bool" where
  "check_identity ident s =
     (case duIdentity s of
        None \<Rightarrow> (s\<lparr>duIdentity := Some ident\<rparr>, True)
      | Some known \<Rightarrow> (s, piSystemID known = piSystemID ident \<and> piTimeline known = piTimeline ident \<and> piStarted known = piStarted ident))"

section \<open>What the server says\<close>

text \<open>A row of \<^verbatim>\<open>pg_stat_replication\<close>, with whether its process serves a physical slot.\<close>

record replica =
  reName :: string
  reState :: string
  reSync :: string
  reFlush :: "nat option"
  rePhysicalSlot :: bool

record wal_snapshot =
  wsInsert :: nat
  wsFlush :: nat
  wsRecovery :: bool
  wsFsync :: string
  wsCommit :: string
  wsFullPages :: string
  wsSetting :: string
  wsIdentity :: primary_identity
  wsReplicas :: "replica list"

definition flushed_replicas :: "string list \<Rightarrow> nat \<Rightarrow> replica list \<Rightarrow> nat" where
  "flushed_replicas names target rs =
     length (remdups (map reName (filter (\<lambda>r. rePhysicalSlot r \<and> reName r \<in> set names \<and> reState r = ''streaming'' \<and>
       reSync r = ''quorum'' \<and> (case reFlush r of None \<Rightarrow> False | Some f \<Rightarrow> f \<ge> target)) rs)))"

definition server_safe :: "wal_snapshot \<Rightarrow> bool" where
  "server_safe w \<longleftrightarrow> \<not> (wsRecovery w \<or> wsFsync w \<noteq> ''on'' \<or> wsCommit w \<noteq> ''on'' \<or> wsFullPages w \<noteq> ''on'')"

section \<open>A new connection\<close>

datatype durability_error = NotEstablished | ExplicitPolicyRequired | ProofUnavailable | ProofDeadline | ConnectionLost

text \<open>
  The two queries of \<^verbatim>\<open>checkConnection\<close>: \<open>first\<close> gives the settings, \<open>second\<close> the identity; \<open>None\<close>
  is a failed query.
\<close>

definition checkConnection ::
  "wal_snapshot option \<Rightarrow> primary_identity option \<Rightarrow> durability_options \<Rightarrow> durability \<Rightarrow> durability \<times> durability_error option" where
  "checkConnection settings ident opts s =
     (case settings of
        None \<Rightarrow> (s, Some NotEstablished)
      | Some w \<Rightarrow>
          if \<not> server_safe w then (s, Some NotEstablished)
          else if doRequired opts = 0 then
            (s, if trim_space (wsSetting w) \<noteq> [] then Some ExplicitPolicyRequired else None)
          else if compactSetting (wsSetting w) \<noteq> compactSetting (expectedSetting opts) then (s, Some NotEstablished)
          else case ident of
            None \<Rightarrow> (s, Some NotEstablished)
          | Some ident \<Rightarrow>
              (let (s, ok) = check_identity ident s in (s, if ok then None else Some NotEstablished)))"

section \<open>The proof of durability\<close>

text \<open>
  The loop of \<^verbatim>\<open>waitDurableConn\<close>: \<open>probe i\<close> is what the server says to the query of round \<open>i\<close>,
  \<open>None\<close> when it fails; \<open>expired i\<close> says that the context ends while round \<open>i\<close> waits for its
  timer, set to \<open>delay\<close>. The first query takes the position the log has then, and the later
  ones keep it.
\<close>

partial_function (option) proof_loop ::
  "(nat \<Rightarrow> wal_snapshot option) \<Rightarrow> (nat \<Rightarrow> bool) \<Rightarrow> durability_options \<Rightarrow> nat \<Rightarrow> nat option \<Rightarrow> duration \<Rightarrow> durability
     \<Rightarrow> (durability \<times> durability_error option) option" where
  "proof_loop probe expired opts i target delay s =
     (let s = s\<lparr>duProofQueries := duProofQueries s + 1\<rparr> in
      case probe i of
        None \<Rightarrow> Some (s, Some ProofUnavailable)
      | Some w \<Rightarrow>
          let goal = (case target of None \<Rightarrow> wsInsert w | Some t \<Rightarrow> t) in
          if \<not> server_safe w \<or> compactSetting (wsSetting w) \<noteq> compactSetting (expectedSetting opts) then Some (s, Some NotEstablished)
          else let (s, ok) = check_identity (wsIdentity w) s in
            if \<not> ok then Some (s, Some NotEstablished)
            else if wsFlush w \<ge> goal \<and> int (flushed_replicas (doNames opts) goal (wsReplicas w)) \<ge> doRequired opts then Some (s, None)
            else let s = s\<lparr>duProofRetries := duProofRetries s + 1\<rparr> in
              if expired i then Some (s, Some ProofDeadline)
              else proof_loop probe expired opts (i + 1) (Some goal) (min (2 * delay) (5 * millisecond)) s)"

definition waitDurableConn ::
  "(nat \<Rightarrow> wal_snapshot option) \<Rightarrow> (nat \<Rightarrow> bool) \<Rightarrow> durability_options \<Rightarrow> durability \<Rightarrow> (durability \<times> durability_error option) option" where
  "waitDurableConn probe expired opts s =
     (if doRequired opts = 0 then Some (s, None) else proof_loop probe expired opts 0 None millisecond s)"

text \<open>\<^verbatim>\<open>WaitDurable\<close>: whether a connection is acquired, and whether it answers a ping.\<close>

definition WaitDurable ::
  "bool \<Rightarrow> bool \<Rightarrow> (nat \<Rightarrow> wal_snapshot option) \<Rightarrow> (nat \<Rightarrow> bool) \<Rightarrow> durability_options \<Rightarrow> durability
     \<Rightarrow> (durability \<times> durability_error option) option" where
  "WaitDurable acquired ping probe expired opts s =
     (if \<not> acquired then Some (s, Some ConnectionLost)
      else if doRequired opts = 0 then Some (s, if ping then None else Some ConnectionLost)
      else waitDurableConn probe expired opts s)"

end
