(* ===== verification/Pg_Store.thy ===== *)
theory Pg_Store
  imports Pg_Durability Poll "HOL-Library.Monad_Syntax"
begin

text \<open>
  The durable repository (\<^verbatim>\<open>internal/postgres/store.go\<close>): its operations around the answers of
  the database. \<^verbatim>\<open>pgx\<close> and the server are parameters: whether a connection is acquired, what a
  statement returns (\<open>None\<close> for an error), and, for the proof of durability, the environment
  \<open>proof_env\<close>. An operation is undefined only if that proof never returns; its deadline makes
  it return (\<open>Pg_Durability_Props\<close>). A UUID is what \<^verbatim>\<open>pgtype\<close> parses it to.
\<close>

type_synonym proof_env = "(nat \<Rightarrow> wal_snapshot option) \<times> (nat \<Rightarrow> bool)"

record pg_store =
  psOptions :: durability_options
  psDurability :: durability
  psVoteSQLCalls :: nat

section \<open>Opening\<close>

datatype open_error = OptionsError options_error | NonPositiveConnections | BadDatabaseURL | PoolFailed | CannotConnect
  | VersionUnknown | VersionTooOld

text \<open>The session parameters every connection of the pool sets.\<close>

definition runtime_params :: "(string \<times> string) list" where
  "runtime_params =
     [(''application_name'', ''gigaquizz''), (''synchronous_commit'', ''on''), (''default_transaction_isolation'', ''read committed''),
      (''statement_timeout'', ''30000''), (''lock_timeout'', ''5000''), (''idle_in_transaction_session_timeout'', ''30000'')]"

definition NewWithOptions ::
  "durability_options \<Rightarrow> int \<Rightarrow> bool \<Rightarrow> bool \<Rightarrow> bool \<Rightarrow> int option \<Rightarrow> open_error + pg_store" where
  "NewWithOptions opts max_conns url_ok pool_ok ping version =
     (case validate_policy opts of
        Some e \<Rightarrow> Inl (OptionsError e)
      | None \<Rightarrow>
          if max_conns < 1 then Inl NonPositiveConnections
          else if \<not> url_ok then Inl BadDatabaseURL
          else if \<not> pool_ok then Inl PoolFailed
          else if \<not> ping then Inl CannotConnect
          else case version of
            None \<Rightarrow> Inl VersionUnknown
          | Some v \<Rightarrow>
              if v < 160000 then Inl VersionTooOld
              else Inr \<lparr>psOptions = opts, psDurability = \<lparr>duIdentity = None, duProofQueries = 0, duProofRetries = 0\<rparr>,
                psVoteSQLCalls = 0\<rparr>)"

text \<open>The proof of durability as an operation of the store: whether it succeeded.\<close>

definition durable :: "proof_env \<Rightarrow> pg_store \<Rightarrow> (pg_store \<times> bool) option" where
  "durable env s = do {
     (d, e) \<leftarrow> waitDurableConn (fst env) (snd env) (psOptions s) (psDurability s);
     Some (s\<lparr>psDurability := d\<rparr>, e = None)
   }"

text \<open>\<^verbatim>\<open>Warm\<close>: one acquired connection and one ping for every connection of the pool, then the proof.\<close>

fun warm_connections :: "(bool \<times> bool) list \<Rightarrow> bool" where
  "warm_connections [] = True"
| "warm_connections ((acquired, ping) # cs) = (if \<not> acquired then False else if \<not> ping then False else warm_connections cs)"

definition Warm :: "(bool \<times> bool) list \<Rightarrow> proof_env \<Rightarrow> pg_store \<Rightarrow> (pg_store \<times> bool) option" where
  "Warm conns env s = (if \<not> warm_connections conns then Some (s, False) else durable env s)"

definition Ping :: "bool \<Rightarrow> bool \<Rightarrow> proof_env \<Rightarrow> pg_store \<Rightarrow> (pg_store \<times> bool) option" where
  "Ping acquired ping env s =
     (if doRequired (psOptions s) > 0 then do {
        (d, e) \<leftarrow> WaitDurable acquired ping (fst env) (snd env) (psOptions s) (psDurability s);
        Some (s\<lparr>psDurability := d\<rparr>, e = None)
      }
      else Some (s, ping))"

section \<open>Migration\<close>

text \<open>
  The schema as the migration sees it: whether its table exists and has version 1, and how
  often the statements of the file were run. \<open>run st\<close> says whether a statement succeeds; a
  failure rolls the transaction back.
\<close>

datatype migration_statement = AcquireConn | BeginTx | MigrationLock | CreateTable | QueryVersion | RunFile | InsertVersion | CommitTx

record schema =
  scTable :: bool
  scVersion1 :: bool
  scFileRuns :: nat

definition migrate_tx :: "(migration_statement \<Rightarrow> bool) \<Rightarrow> schema \<Rightarrow> schema option" where
  "migrate_tx run db =
     (if \<not> run AcquireConn \<or> \<not> run BeginTx \<or> \<not> run MigrationLock \<or> \<not> run CreateTable \<or> \<not> run QueryVersion then None
      else let applied = scTable db \<and> scVersion1 db; db = db\<lparr>scTable := True\<rparr> in
        if applied then (if run CommitTx then Some db else None)
        else if \<not> run RunFile \<or> \<not> run InsertVersion \<or> \<not> run CommitTx then None
        else Some (db\<lparr>scVersion1 := True, scFileRuns := scFileRuns db + 1\<rparr>))"

definition Migrate ::
  "(migration_statement \<Rightarrow> bool) \<Rightarrow> proof_env \<Rightarrow> schema \<Rightarrow> pg_store \<Rightarrow> (schema \<times> pg_store \<times> bool) option" where
  "Migrate run env db s =
     (case migrate_tx run db of
        None \<Rightarrow> Some (db, s, False)
      | Some db \<Rightarrow> do { (s, ok) \<leftarrow> durable env s; Some (db, s, ok) })"

section \<open>Rows\<close>

text \<open>
  What scanning a row gives: no row, an error, or the columns, where the options are JSON
  text, decoded by \<open>unmarshal\<close>.
\<close>

datatype 'j poll_row = NoRow | RowError | Row poll 'j

definition scanPoll :: "('j \<Rightarrow> option_t list option) \<Rightarrow> 'j poll_row \<Rightarrow> poll repo_answer" where
  "scanPoll unmarshal row =
     (case row of
        NoRow \<Rightarrow> NotFound
      | RowError \<Rightarrow> Failed
      | Row p j \<Rightarrow> (case unmarshal j of None \<Rightarrow> Failed | Some os \<Rightarrow> Answer (p\<lparr>pollOptions := os\<rparr>)))"

text \<open>A value that may be given back once durability is proved.\<close>

definition after_proof :: "proof_env \<Rightarrow> 'v \<Rightarrow> pg_store \<Rightarrow> (pg_store \<times> 'v repo_answer) option" where
  "after_proof env v s = do { (s, ok) \<leftarrow> durable env s; Some (s, if ok then Answer v else Failed) }"

section \<open>Polls\<close>

definition created_options :: "rune list list \<Rightarrow> option_t list" where
  "created_options labels = map (\<lambda>i. \<lparr>optID = int i + 1, optLabel = labels ! i\<rparr>) [0..<length labels]"

text \<open>
  \<^verbatim>\<open>Create\<close>: the statements of its transaction are \<open>statements\<close> in order (acquire, begin, lock,
  the start instant, the overlap query, the insertion, the commit), each with its answer.
\<close>

record 'j create_tx =
  ctAcquired :: bool
  ctBegun :: bool
  ctLocked :: bool
  ctStartsAt :: "time option \<Rightarrow> time option"
  ctOverlap :: "time \<Rightarrow> time \<Rightarrow> bool option"
  ctInsert :: "create_input \<Rightarrow> option_t list \<Rightarrow> time \<Rightarrow> time \<Rightarrow> 'j poll_row"
  ctCommitted :: bool

definition run_create :: "('j \<Rightarrow> option_t list option) \<Rightarrow> 'j create_tx \<Rightarrow> create_input \<Rightarrow> poll repo_answer" where
  "run_create unmarshal tx inp =
     (if \<not> ctAcquired tx \<or> \<not> ctBegun tx \<or> \<not> ctLocked tx then Failed
      else case ctStartsAt tx (inStartsAt inp) of
        None \<Rightarrow> Failed
      | Some starts_at \<Rightarrow>
          let ends_at = starts_at + minute in
          (case ctOverlap tx starts_at ends_at of
             None \<Rightarrow> Failed
           | Some True \<Rightarrow> Overlap
           | Some False \<Rightarrow>
               (case scanPoll unmarshal (ctInsert tx inp (created_options (inOptions inp)) starts_at ends_at) of
                  Answer p \<Rightarrow> if ctCommitted tx then Answer p else Failed
                | e \<Rightarrow> e)))"

definition Create ::
  "(rune \<Rightarrow> rune) \<Rightarrow> ('j \<Rightarrow> option_t list option) \<Rightarrow> 'j create_tx \<Rightarrow> proof_env \<Rightarrow> create_input \<Rightarrow> pg_store
     \<Rightarrow> (pg_store \<times> poll repo_answer) option" where
  "Create lower_rune unmarshal tx env inp s =
     (case Validate lower_rune inp of
        (inp, Some e) \<Rightarrow> Some (s, Failed)
      | (inp, None) \<Rightarrow>
          (case run_create unmarshal tx inp of
             Answer p \<Rightarrow> after_proof env p s
           | e \<Rightarrow> Some (s, e)))"

definition Get ::
  "(string \<Rightarrow> 'u option) \<Rightarrow> ('j \<Rightarrow> option_t list option) \<Rightarrow> bool \<Rightarrow> ('u \<Rightarrow> 'j poll_row) \<Rightarrow> proof_env \<Rightarrow> string \<Rightarrow> pg_store
     \<Rightarrow> (pg_store \<times> poll repo_answer) option" where
  "Get parse unmarshal acquired select env path_id s =
     (case parse path_id of
        None \<Rightarrow> Some (s, NotFound)
      | Some uuid \<Rightarrow>
          if \<not> acquired then Some (s, Failed)
          else case scanPoll unmarshal (select uuid) of
            Answer p \<Rightarrow> after_proof env p s
          | e \<Rightarrow> Some (s, e))"

fun scan_rows :: "('j \<Rightarrow> option_t list option) \<Rightarrow> 'j poll_row list \<Rightarrow> poll list option" where
  "scan_rows unmarshal [] = Some []"
| "scan_rows unmarshal (r # rs) =
     (case scanPoll unmarshal r of
        Answer p \<Rightarrow> (case scan_rows unmarshal rs of None \<Rightarrow> None | Some ps \<Rightarrow> Some (p # ps))
      | _ \<Rightarrow> None)"

text \<open>\<^verbatim>\<open>List\<close>: the rows of its query (at most 100, newest first), and whether reading them ended with an error.\<close>

definition List_polls ::
  "('j \<Rightarrow> option_t list option) \<Rightarrow> bool \<Rightarrow> 'j poll_row list option \<Rightarrow> bool \<Rightarrow> proof_env \<Rightarrow> pg_store
     \<Rightarrow> (pg_store \<times> poll list repo_answer) option" where
  "List_polls unmarshal acquired query rows_error env s =
     (if \<not> acquired then Some (s, Failed)
      else case query of
        None \<Rightarrow> Some (s, Failed)
      | Some rows \<Rightarrow>
          (case scan_rows unmarshal rows of
             None \<Rightarrow> Some (s, Failed)
           | Some ps \<Rightarrow> if rows_error then Some (s, Failed) else after_proof env ps s))"

section \<open>Voting\<close>

text \<open>
  \<^verbatim>\<open>Vote\<close>: \<open>query\<close> is the call of \<^verbatim>\<open>record_vote\<close>, with its row (\<^verbatim>\<open>NULL\<close> choices are the empty
  list); the result is \<open>None\<close> for an error, after which the outcome is unknown.
\<close>

definition Vote ::
  "(string \<Rightarrow> 'u option) \<Rightarrow> bool \<Rightarrow> ('u \<Rightarrow> 'u \<Rightarrow> 32 word list \<Rightarrow> (string \<times> 32 word list \<times> time option) option) \<Rightarrow> proof_env
     \<Rightarrow> string \<Rightarrow> string \<Rightarrow> int list \<Rightarrow> pg_store \<Rightarrow> (pg_store \<times> receipt option) option" where
  "Vote parse acquired query env path_id token choices s =
     (case parse path_id of
        None \<Rightarrow> Some (s, Some \<lparr>rcStatus = ''not_found'', rcChoices = [], rcAcceptedAt = None\<rparr>)
      | Some poll_id \<Rightarrow>
     (case parse token of
        None \<Rightarrow> Some (s, Some \<lparr>rcStatus = ''invalid'', rcChoices = [], rcAcceptedAt = None\<rparr>)
      | Some token_id \<Rightarrow>
     (case NormalizeChoices choices of
        Inl e \<Rightarrow> Some (s, Some \<lparr>rcStatus = ''invalid'', rcChoices = [], rcAcceptedAt = None\<rparr>)
      | Inr normalized \<Rightarrow>
          if \<not> acquired then Some (s, None)
          else
            let s = s\<lparr>psVoteSQLCalls := psVoteSQLCalls s + 1\<rparr> in
            case query poll_id token_id (map word_of_int normalized) of
              None \<Rightarrow> Some (s, None)
            | Some (status, recorded, accepted_at) \<Rightarrow>
                let r = \<lparr>rcStatus = status, rcChoices = map sint recorded, rcAcceptedAt = accepted_at\<rparr> in
                if status = ''accepted'' \<or> status = ''duplicate'' \<or> status = ''conflict'' then do {
                  (s, ok) \<leftarrow> durable env s;
                  Some (s, if ok then Some r else None)
                }
                else Some (s, Some r))))"

section \<open>Results\<close>

text \<open>The two queries of \<^verbatim>\<open>Results\<close> after the poll: the final row, or the counts of one snapshot.\<close>

record ('u, 'j, 'c) results_tx =
  rtAcquired :: bool
  rtBegun :: bool
  rtPoll :: "'u \<Rightarrow> 'j poll_row"
  rtFinal :: "'u \<Rightarrow> (int \<times> 'c \<times> time) option"
  rtCounts :: "'u \<Rightarrow> option_t list \<Rightarrow> (int \<times> 'c \<times> time) option"
  rtCommitted :: bool

definition Results ::
  "(string \<Rightarrow> 'u option) \<Rightarrow> ('j \<Rightarrow> option_t list option) \<Rightarrow> ('c \<Rightarrow> option_count list option) \<Rightarrow> ('u, 'j, 'c) results_tx
     \<Rightarrow> proof_env \<Rightarrow> string \<Rightarrow> pg_store \<Rightarrow> (pg_store \<times> poll_results repo_answer) option" where
  "Results parse unmarshal decode_counts tx env path_id s =
     (case parse path_id of
        None \<Rightarrow> Some (s, NotFound)
      | Some uuid \<Rightarrow>
          if \<not> rtAcquired tx \<or> \<not> rtBegun tx then Some (s, Failed)
          else case scanPoll unmarshal (rtPoll tx uuid) of
            Answer p \<Rightarrow>
              let final = (pollFinalizedAt p \<noteq> None) in
              (case (if final then rtFinal tx uuid else rtCounts tx uuid (pollOptions p)) of
                 None \<Rightarrow> Some (s, Failed)
               | Some (votes, encoded, at) \<Rightarrow>
                   (case decode_counts encoded of
                      None \<Rightarrow> Some (s, Failed)
                    | Some counts \<Rightarrow>
                        if \<not> rtCommitted tx then Some (s, Failed)
                        else after_proof env \<lparr>prPollID = pollID p, prState = (if final then ''final'' else State p at),
                          prTotalVotes = votes, prOptions = counts, prCalculatedAt = at\<rparr> s))
          | NotFound \<Rightarrow> Some (s, NotFound)
          | _ \<Rightarrow> Some (s, Failed))"

section \<open>Finalization\<close>

text \<open>
  The loop of \<^verbatim>\<open>FinalizeDue\<close> over the polls that are due (at most 20): for each one whether a
  connection is acquired, what \<^verbatim>\<open>finalize_poll\<close> returns, and the proof; the number of polls
  finalized so far and whether it went through.
\<close>

record finalize_call =
  fcAcquired :: bool
  fcChanged :: "bool option"
  fcProof :: proof_env

fun finalize_loop :: "finalize_call list \<Rightarrow> int \<Rightarrow> pg_store \<Rightarrow> (pg_store \<times> int \<times> bool) option" where
  "finalize_loop [] n s = Some (s, n, True)"
| "finalize_loop (c # cs) n s =
     (if \<not> fcAcquired c then Some (s, n, False)
      else case fcChanged c of
        None \<Rightarrow> Some (s, n, False)
      | Some changed \<Rightarrow> do {
          (s, ok) \<leftarrow> durable (fcProof c) s;
          if \<not> ok then Some (s, n, False) else finalize_loop cs (if changed then n + 1 else n) s
        })"

definition FinalizeDue :: "finalize_call list option \<Rightarrow> pg_store \<Rightarrow> (pg_store \<times> int \<times> bool) option" where
  "FinalizeDue due s = (case due of None \<Rightarrow> Some (s, 0, False) | Some calls \<Rightarrow> finalize_loop calls 0 s)"

end
