(* ===== verification/Pg_Durability_Props.thy ===== *)
theory Pg_Durability_Props
  imports Pg_Durability
begin

text \<open>
  What the proof of durability proves, that it ends, and that the text of the server's
  setting identifies the policy.
\<close>

section \<open>The loop\<close>

definition on_standbys :: "durability_options \<Rightarrow> nat \<Rightarrow> wal_snapshot \<Rightarrow> bool" where
  "on_standbys opts target w \<longleftrightarrow>
     (\<exists>names \<subseteq> set (doNames opts). doRequired opts \<le> int (card names) \<and>
        (\<forall>n \<in> names. \<exists>r \<in> set (wsReplicas w). \<exists>f \<ge> target. reName r = n \<and> reFlush r = Some f \<and> rePhysicalSlot r \<and>
          reState r = ''streaming'' \<and> reSync r = ''quorum''))"

definition same_primary :: "primary_identity \<Rightarrow> primary_identity \<Rightarrow> bool" where
  "same_primary a b \<longleftrightarrow> piSystemID a = piSystemID b \<and> piTimeline a = piTimeline b \<and> piStarted a = piStarted b"

lemma flushed_on_standbys:
  assumes "doRequired opts \<le> int (flushed_replicas (doNames opts) target (wsReplicas w))"
  shows "on_standbys opts target w"
proof -
  let ?rs = "filter (\<lambda>r. rePhysicalSlot r \<and> reName r \<in> set (doNames opts) \<and> reState r = ''streaming'' \<and>
       reSync r = ''quorum'' \<and> (case reFlush r of None \<Rightarrow> False | Some f \<Rightarrow> f \<ge> target)) (wsReplicas w)"
  have "flushed_replicas (doNames opts) target (wsReplicas w) = card (reName ` set ?rs)"
    unfolding flushed_replicas_def by (metis (no_types) length_remdups_card_conv set_map)
  moreover have "\<exists>r \<in> set (wsReplicas w). \<exists>f \<ge> target. reName r = n \<and> reFlush r = Some f \<and> rePhysicalSlot r \<and>
      reState r = ''streaming'' \<and> reSync r = ''quorum''" if "n \<in> reName ` set ?rs" for n
    using that by (fastforce split: option.splits)
  moreover have "reName ` set ?rs \<subseteq> set (doNames opts)" by auto
  ultimately show ?thesis using assms unfolding on_standbys_def by (intro exI [of _ "reName ` set ?rs"]) simp
qed

lemma check_identity_ok:
  "check_identity ident s = (s', True) \<Longrightarrow> \<exists>known. duIdentity s' = Some known \<and> same_primary known ident \<and>
     (duIdentity s = None \<or> duIdentity s = Some known)"
  by (auto simp: check_identity_def same_primary_def split: option.splits)

text \<open>What a proof started at round \<open>i\<close> has seen when it succeeds in state \<open>s'\<close>.\<close>

definition proved ::
  "(nat \<Rightarrow> wal_snapshot option) \<Rightarrow> durability_options \<Rightarrow> nat \<Rightarrow> nat option \<Rightarrow> durability \<Rightarrow> durability \<Rightarrow> bool" where
  "proved probe opts i target s s' \<longleftrightarrow>
     (\<exists>j w0 w known. i \<le> j \<and> probe i = Some w0 \<and> probe j = Some w \<and> server_safe w \<and>
       compactSetting (wsSetting w) = compactSetting (expectedSetting opts) \<and>
       (case target of None \<Rightarrow> wsInsert w0 | Some t \<Rightarrow> t) \<le> wsFlush w \<and>
       on_standbys opts (case target of None \<Rightarrow> wsInsert w0 | Some t \<Rightarrow> t) w \<and>
       duIdentity s' = Some known \<and> same_primary known (wsIdentity w) \<and> (duIdentity s = None \<or> duIdentity s = Some known))"

lemma proved_next:
  assumes "proved probe opts (i + 1) (Some goal) t s'" and "probe i = Some w0"
    and "goal = (case target of None \<Rightarrow> wsInsert w0 | Some t \<Rightarrow> t)" and "duIdentity s = None \<or> duIdentity t = duIdentity s"
    and "duIdentity t \<noteq> None"
  shows "proved probe opts i target s s'"
proof -
  from assms(1) obtain j w known where "i + 1 \<le> j" and r: "probe j = Some w" "server_safe w"
    "compactSetting (wsSetting w) = compactSetting (expectedSetting opts)" "goal \<le> wsFlush w" "on_standbys opts goal w"
    "duIdentity s' = Some known" "same_primary known (wsIdentity w)" "duIdentity t = None \<or> duIdentity t = Some known"
    by (auto simp: proved_def)
  then have "i \<le> j" by simp
  with r assms(2-5) show ?thesis unfolding proved_def by (metis option.distinct(1))
qed

lemma proof_loop_ok:
  assumes "proof_loop probe expired opts i target delay s = Some r"
  shows "snd r = None \<longrightarrow> proved probe opts i target s (fst r)"
proof (rule proof_loop.raw_induct
    [where P = "\<lambda>probe expired opts i target delay s r. snd r = None \<longrightarrow> proved probe opts i target s (fst r)", OF _ assms], goal_cases)
  case (1 loop probe expired opts i target delay s r)
  show ?case
  proof
  assume none: "snd r = None"
  show "proved probe opts i target s (fst r)"
  proof (cases "probe i")
    case (Some w)
    obtain t ok where c: "check_identity (wsIdentity w) (s\<lparr>duProofQueries := duProofQueries s + 1\<rparr>) = (t, ok)"
      by (metis prod.exhaust)
    have ident: "duIdentity s = None \<or> duIdentity t = duIdentity s" "duIdentity t \<noteq> None"
      using c by (auto simp: check_identity_def split: option.splits)
    let ?goal = "case target of None \<Rightarrow> wsInsert w | Some t \<Rightarrow> t"
    have safe: "server_safe w" "compactSetting (wsSetting w) = compactSetting (expectedSetting opts)" ok
      using 1(2) none Some c by (auto simp: Let_def split: if_splits)
    show ?thesis
    proof (cases "wsFlush w \<ge> ?goal \<and> int (flushed_replicas (doNames opts) ?goal (wsReplicas w)) \<ge> doRequired opts")
      case True
      then have "fst r = t" using 1(2) Some c safe by (auto simp: Let_def)
      moreover obtain known where "duIdentity t = Some known" "same_primary known (wsIdentity w)"
        "duIdentity s = None \<or> duIdentity s = Some known"
        using check_identity_ok [of "wsIdentity w" "s\<lparr>duProofQueries := duProofQueries s + 1\<rparr>" t] c safe(3) by auto
      ultimately show ?thesis
        using Some safe True flushed_on_standbys unfolding proved_def by blast
    next
      case False
      then have "loop probe expired opts (i + 1) (Some ?goal) (min (2 * delay) (5 * millisecond)) (t\<lparr>duProofRetries := duProofRetries t + 1\<rparr>) = Some r"
        using 1(2) none Some c safe by (auto simp: Let_def split: if_splits)
      from proved_next [OF 1(1) [OF this, rule_format, OF none] Some refl] ident show ?thesis by simp
    qed
  qed (use 1(2) none in auto)
  qed
qed

lemma proof_loop_returns:
  "i \<le> n \<Longrightarrow> expired n \<Longrightarrow>
     \<exists>t e. proof_loop probe expired opts i target delay s = Some (t, e) \<and> duProofQueries t + i \<le> duProofQueries s + n + 1"
proof (induction "n - i" arbitrary: i target delay s)
  case (0 i)
  then have "i = n" by simp
  with 0 show ?case
    by (subst proof_loop.simps) (auto simp: Let_def check_identity_def split: option.splits)
next
  case (Suc k i)
  have IH: "\<exists>t e. proof_loop probe expired opts (i + 1) target delay s = Some (t, e) \<and> duProofQueries t + (i + 1) \<le> duProofQueries s + n + 1"
    for target delay s using Suc.hyps(1) [of "i + 1"] Suc.hyps(2) Suc.prems by auto
  have next_round: "\<exists>t. (\<exists>e. proof_loop probe expired opts (Suc i) target' delay' u = Some (t, e)) \<and> duProofQueries t + i \<le> Suc (duProofQueries s + n)"
    if "duProofQueries u = duProofQueries s + 1" for target' delay' u
    using IH [of target' delay' u] that by auto
  from Suc.prems Suc.hyps(2) show ?case
    by (subst proof_loop.simps)
      (auto simp: Let_def check_identity_def intro!: next_round split: option.splits)
qed

section \<open>Properties\<close>

definition demo_identity :: primary_identity where
  "demo_identity = \<lparr>piSystemID = ''7'', piTimeline = 1, piStarted = 5\<rparr>"

definition demo_policy :: durability_options where
  "demo_policy = \<lparr>doRequired = 1, doNames = [''a'', ''b'']\<rparr>"

text \<open>Round 0 finds the standby behind, round 1 finds it level with the log of round 0.\<close>

definition demo_probe :: "nat \<Rightarrow> wal_snapshot option" where
  "demo_probe i = Some \<lparr>wsInsert = 100 + i, wsFlush = 100, wsRecovery = False, wsFsync = ''on'', wsCommit = ''on'', wsFullPages = ''on'',
     wsSetting = ''ANY 1 (a,b)'', wsIdentity = demo_identity,
     wsReplicas = [\<lparr>reName = ''b'', reState = ''streaming'', reSync = ''quorum'', reFlush = Some (99 + i), rePhysicalSlot = True\<rparr>]\<rparr>"

definition demo_durability :: durability where
  "demo_durability = \<lparr>duIdentity = None, duProofQueries = 0, duProofRetries = 0\<rparr>"

text \<open>C11. A successful wait in replicated mode has seen, in one answer of the primary the store is tied to, with safe
  settings and exactly the policy's quorum, that the log position of the first query is flushed on the primary and on
  the required number of different named standbys.\<close>

theorem pg_durability_proof:
  assumes "0 < doRequired opts" and "waitDurableConn probe expired opts s = Some (s', None)"
  shows "\<exists>j w0 w known. probe 0 = Some w0 \<and> probe j = Some w \<and> server_safe w \<and>
    compactSetting (wsSetting w) = compactSetting (expectedSetting opts) \<and> wsInsert w0 \<le> wsFlush w \<and>
    on_standbys opts (wsInsert w0) w \<and> duIdentity s' = Some known \<and> same_primary known (wsIdentity w) \<and>
    (duIdentity s = None \<or> duIdentity s = Some known)"
  using proof_loop_ok [of probe expired opts 0 None "millisecond" s "(s', None)"] assms
  by (auto simp: waitDurableConn_def proved_def)

lemma demo_wait: "waitDurableConn demo_probe (\<lambda>i. i = 3) demo_policy demo_durability =
    Some (demo_durability\<lparr>duIdentity := Some demo_identity, duProofQueries := 2, duProofRetries := 1\<rparr>, None)"
proof -
  have policy: "compactSetting ''ANY 1 (a,b)'' = compactSetting (expectedSetting demo_policy)"
    by (simp add: expectedSetting_def demo_policy_def decimal.simps [of "Suc 0"] char_of_def bit_Suc_0_iff)
  have safe: "server_safe (the (demo_probe i))" for i by (simp add: demo_probe_def server_safe_def)
  show ?thesis
    unfolding waitDurableConn_def
    by (subst proof_loop.simps, subst proof_loop.simps)
      (use safe [of 0] safe [of 1] in \<open>simp add: demo_probe_def policy check_identity_def demo_durability_def flushed_replicas_def,
        simp add: demo_policy_def\<close>)
qed

theorem pg_durability_proof_witness:
  "\<exists>j w. demo_probe j = Some w \<and> 100 \<le> wsFlush w \<and> on_standbys demo_policy 100 w"
proof -
  have "0 < doRequired demo_policy" by (simp add: demo_policy_def)
  from pg_durability_proof [OF this demo_wait] show ?thesis by (auto simp: demo_probe_def)
qed

text \<open>C32. The wait ends: when the context ends during the wait of some round, a result is returned by then, after at
  most one query for each round so far.\<close>

theorem pg_durability_returns:
  assumes "expired n"
  shows "\<exists>t e. waitDurableConn probe expired opts s = Some (t, e) \<and> duProofQueries t \<le> duProofQueries s + n + 1"
  using proof_loop_returns [of 0 n expired probe opts None millisecond s] assms by (auto simp: waitDurableConn_def)

theorem pg_durability_returns_witness:
  "\<exists>t e. waitDurableConn (\<lambda>i. demo_probe 0) (\<lambda>i. i = 3) demo_policy demo_durability = Some (t, e) \<and> duProofQueries t \<le> 4"
  using pg_durability_returns [of "\<lambda>i. i = 3" 3 "\<lambda>i. demo_probe 0" demo_policy demo_durability] by (simp add: demo_durability_def)

section \<open>The policy\<close>

lemma visible: "lower ch \<or> digit ch \<or> ch \<in> set ''_,()ANY'' \<Longrightarrow> code ch < 128 \<and> \<not> ascii_space ch"
  by (auto simp: lower_def digit_def ascii_space_def code_def)

lemma check_names_ok: "check_names ns seen \<Longrightarrow> \<forall>n \<in> set ns. standby_name n"
  by (induction ns arbitrary: seen) (auto split: if_splits)

lemma standby_name_chars: "standby_name n \<Longrightarrow> \<forall>ch \<in> set n. lower ch \<or> digit ch \<or> ch = CHR ''_''"
  by (cases n) (auto simp: standby_name_def list_all_iff)

lemma join_with_chars: "ch \<in> set (join_with sep fs) \<Longrightarrow> ch \<in> set sep \<or> (\<exists>f \<in> set fs. ch \<in> set f)"
  by (induction sep fs rule: join_with.induct) auto

lemma valid_policy_names:
  assumes "validate_policy opts = None" and "0 < doRequired opts"
  shows "doNames opts \<noteq> [] \<and> (\<forall>n \<in> set (doNames opts). \<forall>ch \<in> set n. lower ch \<or> digit ch \<or> ch = CHR ''_'')"
proof -
  have "check_names (doNames opts) {}" "doRequired opts \<le> int (length (doNames opts))"
    using assms by (auto simp: validate_policy_def split: if_splits)
  with assms(2) check_names_ok standby_name_chars show ?thesis by fastforce
qed

lemma compact_expected:
  assumes "validate_policy opts = None" and "0 < doRequired opts"
  shows "compactSetting (expectedSetting opts) =
    ''ANY'' @ decimal (nat (doRequired opts)) @ ''('' @ join_with '','' (doNames opts) @ '')''"
proof -
  let ?d = "decimal (nat (doRequired opts))" and ?j = "join_with '','' (doNames opts)"
  have d: "\<forall>ch \<in> set ?d. code ch < 128 \<and> \<not> ascii_space ch"
    using decimal_digits [of "nat (doRequired opts)"] visible by (auto simp: list_all_iff)
  have j: "\<forall>ch \<in> set ?j. code ch < 128 \<and> \<not> ascii_space ch"
    using valid_policy_names [OF assms] visible by (fastforce dest: join_with_chars)
  have keep: "filter (\<lambda>ch. \<not> ascii_space ch) ?d = ?d" "filter (\<lambda>ch. \<not> ascii_space ch) ?j = ?j"
    using d j by (simp_all add: filter_id_conv)
  have "\<forall>ch \<in> set (expectedSetting opts). code ch < 128"
    using d j by (auto simp: expectedSetting_def code_def)
  then have "compactSetting (expectedSetting opts) = filter (\<lambda>ch. \<not> ascii_space ch) (expectedSetting opts)"
    by (simp add: compactSetting_def join_fields_ascii)
  also have "\<dots> = ''ANY'' @ ?d @ ''('' @ ?j @ '')''"
    unfolding expectedSetting_def filter_append keep by (simp add: ascii_space_def code_def)
  finally show ?thesis .
qed

text \<open>The setting of the server identifies the policy: after the white space is dropped, two valid policies with a
  quorum expect the same text exactly when they require the same number of the same names in the same order.\<close>

theorem pg_policy_identified:
  assumes "validate_policy a = None" and "validate_policy b = None" and "0 < doRequired a" and "0 < doRequired b"
  shows "compactSetting (expectedSetting a) = compactSetting (expectedSetting b) \<longleftrightarrow> a = b"
proof
  assume "compactSetting (expectedSetting a) = compactSetting (expectedSetting b)"
  then have eq: "decimal (nat (doRequired a)) @ CHR ''('' # join_with '','' (doNames a) =
      decimal (nat (doRequired b)) @ CHR ''('' # join_with '','' (doNames b)"
    unfolding compact_expected [OF assms(1,3)] compact_expected [OF assms(2,4)] same_append_eq by simp
  have digits: "takeWhile digit (decimal n @ CHR ''('' # j) = decimal n" for n j
    using decimal_digits [of n] by (simp add: takeWhile_append list_all_iff digit_def code_def)
  from eq have d: "decimal (nat (doRequired a)) = decimal (nat (doRequired b))" by (metis digits)
  then have "doRequired a = doRequired b" using assms(3,4) by (simp add: decimal_inj)
  moreover have "join_with '','' (doNames a) = join_with '','' (doNames b)" using eq d by simp
  moreover have "split_byte (CHR '','') (join_with '','' (doNames x)) = doNames x"
    if "validate_policy x = None" "0 < doRequired x" for x
  proof (rule split_join)
    have "\<not> lower (CHR '','')" "\<not> digit (CHR '','')" by (simp_all add: lower_def digit_def code_def)
    then show "\<forall>f \<in> set (doNames x). CHR '','' \<notin> set f" using valid_policy_names [OF that] by fastforce
  qed (use valid_policy_names [OF that] in simp)
  ultimately have "doRequired a = doRequired b" "doNames a = doNames b" using assms by metis+
  then show "a = b" by simp
qed simp

theorem pg_policy_identified_witness:
  "compactSetting (expectedSetting demo_policy) \<noteq> compactSetting (expectedSetting (demo_policy\<lparr>doRequired := 2\<rparr>))"
proof -
  have "validate_policy demo_policy = None" "validate_policy (demo_policy\<lparr>doRequired := 2\<rparr>) = None"
    by (simp_all add: validate_policy_def demo_policy_def standby_name_def lower_def code_def)
  moreover have "0 < doRequired demo_policy" "0 < doRequired (demo_policy\<lparr>doRequired := 2\<rparr>)" by (simp_all add: demo_policy_def)
  ultimately show ?thesis using pg_policy_identified by (simp add: demo_policy_def)
qed

end
