(* ===== verification/Pg_Store_Props.thy ===== *)
theory Pg_Store_Props
  imports Pg_Store Pg_Durability_Props
begin

text \<open>
  What an answer of the repository promises: in replicated mode nothing is confirmed before
  the proof of durability, and a receipt is the database's answer to the normal form of the
  request.
\<close>

text \<open>The proof environment shows the log position of its first query on the standbys of the policy.\<close>

definition quorum_reached :: "proof_env \<Rightarrow> durability_options \<Rightarrow> bool" where
  "quorum_reached env opts \<longleftrightarrow>
     (\<exists>j w0 w. fst env 0 = Some w0 \<and> fst env j = Some w \<and> server_safe w \<and> wsInsert w0 \<le> wsFlush w \<and> on_standbys opts (wsInsert w0) w)"

lemma proved_quorum: "proved (fst env) opts 0 None d d' \<Longrightarrow> quorum_reached env opts"
  unfolding proved_def quorum_reached_def by (simp only: option.case option.inject) metis

lemma durable_quorum:
  assumes "durable env s = Some (s', True)" and "0 < doRequired (psOptions s)"
  shows "quorum_reached env (psOptions s)"
proof -
  from assms obtain d where "proof_loop (fst env) (snd env) (psOptions s) 0 None millisecond (psDurability s) = Some (d, None)"
    by (auto simp: durable_def waitDurableConn_def bind_eq_Some_conv)
  from proof_loop_ok [OF this] show ?thesis by (auto intro: proved_quorum)
qed

lemma after_proof_quorum:
  "after_proof env v s = Some (s', Answer u) \<Longrightarrow> 0 < doRequired (psOptions s) \<Longrightarrow> quorum_reached env (psOptions s)"
  by (auto simp: after_proof_def bind_eq_Some_conv durable_quorum split: if_splits)

lemmas answer_splits = sum.splits option.splits prod.splits repo_answer.splits bool.splits


definition demo_store :: pg_store where
  "demo_store = \<lparr>psOptions = demo_policy, psDurability = demo_durability, psVoteSQLCalls = 0\<rparr>"

definition demo_poll_row :: poll where
  "demo_poll_row = \<lparr>pollID = ''p'', pollQuestion = [65], pollType = ''single'', pollOptions = [], pollStartsAt = 0, pollEndsAt = minute,
     pollCreatedAt = 0, pollFinalizedAt = None\<rparr>"


lemma choices_roundtrip: "NormalizeChoices cs = Inr n \<Longrightarrow> map sint (map (word_of_int :: int \<Rightarrow> 32 word) n) = n"
proof -
  assume "NormalizeChoices cs = Inr n"
  then have "\<forall>c \<in> set n. 1 \<le> c \<and> c \<le> 20" by (auto simp: NormalizeChoices_ok choice_set_def)
  then have "sint (word_of_int c :: 32 word) = c" if "c \<in> set n" for c
    using that by (auto simp: sint_sbintrunc' signed_take_bit_int_eq_self)
  then show ?thesis by (simp add: map_idI)
qed

text \<open>\<^verbatim>\<open>Vote\<close> asks the database only about identifiers that parse and about the normal form of valid choices,
  which 32 bits hold exactly; a receipt that names a recorded vote is the database's own answer to that question.\<close>

theorem pg_vote_answers_database:
  assumes "Vote parse acquired query env path_id token choices s = Some (s', Some r)"
    and "rcStatus r \<in> {''accepted'', ''duplicate'', ''conflict''}"
  shows "\<exists>p t n recorded. parse path_id = Some p \<and> parse token = Some t \<and> NormalizeChoices choices = Inr n \<and>
    query p t (map word_of_int n) = Some (rcStatus r, recorded, rcAcceptedAt r) \<and> rcChoices r = map sint recorded \<and>
    (recorded = map word_of_int n \<longrightarrow> rcChoices r = sort choices)"
proof -
  from assms obtain p t n recorded where *: "parse path_id = Some p" "parse token = Some t" "NormalizeChoices choices = Inr n"
    "query p t (map word_of_int n) = Some (rcStatus r, recorded, rcAcceptedAt r)" "rcChoices r = map sint recorded"
    by (auto simp: Vote_def Let_def bind_eq_Some_conv split: answer_splits if_splits)
  with choices_roundtrip [OF *(3)] show ?thesis by (auto simp: NormalizeChoices_ok)
qed

theorem pg_vote_answers_database_witness:
  "\<exists>n. NormalizeChoices [2, 1] = Inr n \<and> n = sort [2, 1 :: int]"
proof -
  let ?s = "demo_store\<lparr>psOptions := demo_policy\<lparr>doRequired := 0\<rparr>\<rparr>"
  have n: "NormalizeChoices [2, 1] = Inr [1, 2]" by (simp add: NormalizeChoices_def Let_def)
  have "Vote Some True (\<lambda>p t cs. Some (''accepted'', cs, Some 5)) (demo_probe, \<lambda>i. False) ''p'' ''t'' [2, 1] ?s =
      Some (?s\<lparr>psVoteSQLCalls := 1\<rparr>, Some \<lparr>rcStatus = ''accepted'', rcChoices = [1, 2], rcAcceptedAt = Some 5\<rparr>)"
    using choices_roundtrip [OF n] by (simp add: Vote_def n durable_def waitDurableConn_def demo_store_def)
  from pg_vote_answers_database [OF this] show ?thesis by (auto simp: NormalizeChoices_ok)
qed

end
