(* ===== verification/Pg_Votes.thy ===== *)
theory Pg_Votes
  imports Poll
begin

text \<open>
  The database functions (\<^verbatim>\<open>internal/postgres/migrations/001_initial.sql\<close>) and the creation of
  a poll (\<^verbatim>\<open>Store.Create\<close> in \<^verbatim>\<open>internal/postgres/store.go\<close>) as interleaved transactions: every
  SQL statement is one step on the committed tables and on the transaction's own state.

  The steps use what PostgreSQL documents of a READ COMMITTED transaction: a statement sees
  the rows committed when it starts, and the transaction's own; an advisory transaction lock
  waits for the conflicting holders and is kept until the transaction ends; an insertion with
  \<^verbatim>\<open>ON CONFLICT DO NOTHING\<close> waits while another transaction holds an uncommitted row of its
  key. \<^verbatim>\<open>hashtext\<close> is a parameter: any collisions are allowed. A poll's row is never deleted.
  The row lock of \<^verbatim>\<open>FOR UPDATE\<close> is not a state of its own: only calls that hold one of the 64
  locks ever take a conflicting one, and those have ended by then.
\<close>

type_synonym uuid = string

section \<open>Tables\<close>

record vote_row =
  vrPoll :: uuid
  vrToken :: uuid
  vrChoices :: "int list"
  vrAt :: time

text \<open>One element of the \<^verbatim>\<open>options\<close> of a result: identifier, label and votes.\<close>

type_synonym sql_option_count = "int \<times> rune list \<times> nat"

record result_row =
  rrTotal :: nat
  rrOptions :: "sql_option_count list"
  rrAt :: time

definition vote_lock_shard :: "(string \<Rightarrow> int) \<Rightarrow> uuid \<Rightarrow> int" where
  "vote_lock_shard hashtext token = (hashtext token AND 2147483647) mod 64"

definition poll_votes :: "uuid \<Rightarrow> vote_row list \<Rightarrow> vote_row list" where
  "poll_votes p = filter (\<lambda>r. vrPoll r = p)"

text \<open>The row of the primary key (poll, token).\<close>

definition find_vote :: "uuid \<Rightarrow> uuid \<Rightarrow> vote_row list \<Rightarrow> vote_row option" where
  "find_vote p t rows = (case filter (\<lambda>r. vrPoll r = p \<and> vrToken r = t) rows of [] \<Rightarrow> None | r # _ \<Rightarrow> Some r)"

definition choice_tally :: "int \<Rightarrow> vote_row list \<Rightarrow> nat" where
  "choice_tally v rows = length (filter (\<lambda>ch. ch = v) (concat (map vrChoices rows)))"

definition calculate_option_counts :: "uuid \<Rightarrow> option_t list \<Rightarrow> vote_row list \<Rightarrow> sql_option_count list" where
  "calculate_option_counts p options rows =
     map (\<lambda>opt. (optID opt, optLabel opt, choice_tally (optID opt) (poll_votes p rows))) (sort_key optID options)"

text \<open>The checks of the choices in \<^verbatim>\<open>record_vote\<close>; the result is \<^verbatim>\<open>normalized\<close>.\<close>

definition sql_normalize :: "poll \<Rightarrow> int list \<Rightarrow> int list option" where
  "sql_normalize cfg choices =
     (if choices = [] \<or> length choices > 20 then None
      else let normalized = sort choices in
        if length (remdups normalized) \<noteq> length normalized
          \<or> (pollType cfg \<noteq> ''multiple'' \<and> length normalized \<noteq> 1)
          \<or> \<not> list_all (\<lambda>v. v \<in> set (map optID (pollOptions cfg))) normalized
        then None else Some normalized)"

section \<open>Transactions\<close>

type_synonym vote_reply = "string \<times> int list option \<times> time option"

datatype lock_mode = Shared | Exclusive

text \<open>
  The next statement of a call of \<^verbatim>\<open>record_vote\<close>, with the variables it still needs; the
  boolean is \<^verbatim>\<open>exclusive_receipt_lookup\<close>.
\<close>

datatype vote_pc = Entered | Configured poll | Waiting bool | Locked bool | Checked bool poll "int list"
  | Late bool poll "int list" time | Admitted "int list" time | Lost "int list" | Replying vote_reply | Ended

record vote_call =
  rvPoll :: uuid
  rvToken :: uuid
  rvChoices :: "int list"
  rvPC :: vote_pc
  rvLock :: "lock_mode option"
  rvRow :: "vote_row option"

datatype fin_pc = FEntered | FLocking | FConfig poll | FCounted poll nat | FTallied poll nat "sql_option_count list"
  | FWritten result_row | FReturning bool | FEnded

record fin_call =
  fpPoll :: uuid
  fpPC :: fin_pc
  fpLocks :: nat

datatype create_pc = CEntered | CLocked | CStart time | CFree time | CInserted poll | COverlap | CEnded

record create_call =
  crInput :: create_input
  crPC :: create_pc

text \<open>\<open>pgReplies\<close> is the history of the committed calls of \<^verbatim>\<open>record_vote\<close> with their rows.\<close>

record pg =
  pgPolls :: "uuid \<rightharpoonup> poll"
  pgVotes :: "vote_row list"
  pgResults :: "uuid \<rightharpoonup> result_row"
  pgNow :: time
  pgCalls :: "vote_call list"
  pgFins :: "fin_call list"
  pgCreates :: "create_call list"
  pgReplies :: "(uuid \<times> uuid \<times> int list \<times> vote_reply) list"

section \<open>Advisory locks\<close>

definition vote_holds :: "(string \<Rightarrow> int) \<Rightarrow> int \<Rightarrow> int \<Rightarrow> vote_call \<Rightarrow> bool" where
  "vote_holds h key shard c \<longleftrightarrow> rvLock c \<noteq> None \<and> h (rvPoll c) = key \<and> vote_lock_shard h (rvToken c) = shard"

definition fin_holds :: "(string \<Rightarrow> int) \<Rightarrow> int \<Rightarrow> int \<Rightarrow> fin_call \<Rightarrow> bool" where
  "fin_holds h key shard f \<longleftrightarrow> h (fpPoll f) = key \<and> shard < int (fpLocks f)"

text \<open>No caller waits for a lock it holds, so the caller needs no exception.\<close>

definition shared_free :: "(string \<Rightarrow> int) \<Rightarrow> int \<Rightarrow> int \<Rightarrow> pg \<Rightarrow> bool" where
  "shared_free h key shard s \<longleftrightarrow>
     \<not> list_ex (\<lambda>c. vote_holds h key shard c \<and> rvLock c = Some Exclusive) (pgCalls s) \<and>
     \<not> list_ex (fin_holds h key shard) (pgFins s)"

definition exclusive_free :: "(string \<Rightarrow> int) \<Rightarrow> int \<Rightarrow> int \<Rightarrow> pg \<Rightarrow> bool" where
  "exclusive_free h key shard s \<longleftrightarrow>
     \<not> list_ex (vote_holds h key shard) (pgCalls s) \<and> \<not> list_ex (fin_holds h key shard) (pgFins s)"

section \<open>record_vote\<close>

definition duplicate_reply :: "vote_row \<Rightarrow> int list \<Rightarrow> vote_reply" where
  "duplicate_reply previous normalized =
     (if vrChoices previous = normalized then ''duplicate'' else ''conflict'', Some (vrChoices previous), Some (vrAt previous))"

definition bare_reply :: "string \<Rightarrow> vote_reply" where
  "bare_reply status = (status, None, None)"

definition late_reply :: "bool \<Rightarrow> poll \<Rightarrow> time \<Rightarrow> string" where
  "late_reply exclusive cfg admitted_at =
     (if pollFinalizedAt cfg \<noteq> None then ''closed''
      else if admitted_at \<ge> pollEndsAt cfg then (if exclusive then ''closed'' else ''unknown'')
      else ''not_open'')"

text \<open>
  The next statement of a call: \<open>None\<close> while it has to wait. The last step is the commit,
  which makes the row visible, releases the lock and gives the reply; \<open>Lost\<close> without a row is
  the error of \<^verbatim>\<open>INTO STRICT\<close>, which rolls back.
\<close>

definition record_vote :: "(string \<Rightarrow> int) \<Rightarrow> vote_call \<Rightarrow> pg \<Rightarrow> (vote_call \<times> pg) option" where
  "record_vote h c s =
     (case rvPC c of
        Entered \<Rightarrow>
          Some (c\<lparr>rvPC := (case pgPolls s (rvPoll c) of
             None \<Rightarrow> Replying (bare_reply ''not_found'') | Some cfg \<Rightarrow> Configured cfg)\<rparr>, s)
      | Configured cfg \<Rightarrow> Some (c\<lparr>rvPC := Waiting (pgNow s \<ge> pollEndsAt cfg \<or> pollFinalizedAt cfg \<noteq> None)\<rparr>, s)
      | Waiting exclusive \<Rightarrow>
          if exclusive then
            if exclusive_free h (h (rvPoll c)) (vote_lock_shard h (rvToken c)) s
            then Some (c\<lparr>rvPC := Locked True, rvLock := Some Exclusive\<rparr>, s) else None
          else
            if shared_free h (h (rvPoll c)) (vote_lock_shard h (rvToken c)) s
            then Some (c\<lparr>rvPC := Locked False, rvLock := Some Shared\<rparr>, s) else None
      | Locked exclusive \<Rightarrow>
          Some (c\<lparr>rvPC := (case pgPolls s (rvPoll c) of
             None \<Rightarrow> Replying (bare_reply ''not_found'')
           | Some cfg \<Rightarrow> (case sql_normalize cfg (rvChoices c) of
               None \<Rightarrow> Replying (bare_reply ''invalid'') | Some n \<Rightarrow> Checked exclusive cfg n))\<rparr>, s)
      | Checked exclusive cfg n \<Rightarrow>
          Some (c\<lparr>rvPC := (if pollFinalizedAt cfg \<noteq> None \<or> pgNow s \<ge> pollEndsAt cfg \<or> pgNow s < pollStartsAt cfg
             then Late exclusive cfg n (pgNow s) else Admitted n (pgNow s))\<rparr>, s)
      | Late exclusive cfg n admitted_at \<Rightarrow>
          Some (c\<lparr>rvPC := Replying (case find_vote (rvPoll c) (rvToken c) (pgVotes s) of
             Some previous \<Rightarrow> duplicate_reply previous n
           | None \<Rightarrow> bare_reply (late_reply exclusive cfg admitted_at))\<rparr>, s)
      | Admitted n admitted_at \<Rightarrow>
          if list_ex (\<lambda>d. rvRow d \<noteq> None \<and> rvPoll d = rvPoll c \<and> rvToken d = rvToken c) (pgCalls s) then None
          else (case find_vote (rvPoll c) (rvToken c) (pgVotes s) of
              None \<Rightarrow> Some (c\<lparr>rvPC := Replying (''accepted'', Some n, Some admitted_at),
                rvRow := Some \<lparr>vrPoll = rvPoll c, vrToken = rvToken c, vrChoices = n, vrAt = admitted_at\<rparr>\<rparr>, s)
            | Some _ \<Rightarrow> Some (c\<lparr>rvPC := Lost n\<rparr>, s))
      | Lost n \<Rightarrow>
          (case find_vote (rvPoll c) (rvToken c) (pgVotes s) of
             None \<Rightarrow> Some (c\<lparr>rvPC := Ended, rvLock := None\<rparr>, s)
           | Some previous \<Rightarrow> Some (c\<lparr>rvPC := Replying (duplicate_reply previous n)\<rparr>, s))
      | Replying r \<Rightarrow>
          Some (c\<lparr>rvPC := Ended, rvLock := None, rvRow := None\<rparr>,
            s\<lparr>pgVotes := pgVotes s @ (case rvRow c of None \<Rightarrow> [] | Some row \<Rightarrow> [row]),
              pgReplies := pgReplies s @ [(rvPoll c, rvToken c, rvChoices c, r)]\<rparr>)
      | Ended \<Rightarrow> None)"

section \<open>finalize_poll\<close>

text \<open>The 64 locks are taken in order; the insertion and the update become visible at the commit.\<close>

definition finalize_poll :: "(string \<Rightarrow> int) \<Rightarrow> fin_call \<Rightarrow> pg \<Rightarrow> (fin_call \<times> pg) option" where
  "finalize_poll h f s =
     (case fpPC f of
        FEntered \<Rightarrow>
          Some (f\<lparr>fpPC := (case pgPolls s (fpPoll f) of
             None \<Rightarrow> FReturning False
           | Some cfg \<Rightarrow> if pollFinalizedAt cfg \<noteq> None \<or> pgNow s < pollEndsAt cfg then FReturning False else FLocking)\<rparr>, s)
      | FLocking \<Rightarrow>
          if fpLocks f < 64 then
            if exclusive_free h (h (fpPoll f)) (int (fpLocks f)) s then Some (f\<lparr>fpLocks := fpLocks f + 1\<rparr>, s) else None
          else Some (f\<lparr>fpPC := (case pgPolls s (fpPoll f) of
             None \<Rightarrow> FReturning False
           | Some cfg \<Rightarrow> if pollFinalizedAt cfg \<noteq> None then FReturning False else FConfig cfg)\<rparr>, s)
      | FConfig cfg \<Rightarrow> Some (f\<lparr>fpPC := FCounted cfg (length (poll_votes (fpPoll f) (pgVotes s)))\<rparr>, s)
      | FCounted cfg votes \<Rightarrow>
          Some (f\<lparr>fpPC := FTallied cfg votes (calculate_option_counts (fpPoll f) (pollOptions cfg) (pgVotes s))\<rparr>, s)
      | FTallied cfg votes counts \<Rightarrow> Some (f\<lparr>fpPC := FWritten \<lparr>rrTotal = votes, rrOptions = counts, rrAt = pgNow s\<rparr>\<rparr>, s)
      | FWritten row \<Rightarrow>
          Some (f\<lparr>fpPC := FEnded, fpLocks := 0\<rparr>,
            s\<lparr>pgResults := (pgResults s)(fpPoll f \<mapsto> row),
              pgPolls := (case pgPolls s (fpPoll f) of None \<Rightarrow> pgPolls s
                | Some cfg \<Rightarrow> (pgPolls s)(fpPoll f \<mapsto> cfg\<lparr>pollFinalizedAt := Some (rrAt row)\<rparr>))\<rparr>)
      | FReturning changed \<Rightarrow> Some (f\<lparr>fpPC := FEnded, fpLocks := 0\<rparr>, s)
      | FEnded \<Rightarrow> None)"

section \<open>Creating a poll\<close>

text \<open>
  The transaction of \<^verbatim>\<open>Store.Create\<close> under the creation lock. A time sent to the server is cut
  to its microseconds; \<open>fresh\<close> is the identifier \<^verbatim>\<open>gen_random_uuid\<close> gives, new by the primary key.
\<close>

definition micros :: "time \<Rightarrow> time" where
  "micros t = t - t mod 1000"

definition numbered_options :: "rune list list \<Rightarrow> option_t list" where
  "numbered_options labels = map (\<lambda>i. \<lparr>optID = int i + 1, optLabel = labels ! i\<rparr>) [0..<length labels]"

definition polls_overlap :: "uuid list \<Rightarrow> time \<Rightarrow> time \<Rightarrow> (uuid \<rightharpoonup> poll) \<Rightarrow> bool" where
  "polls_overlap ids starts_at ends_at polls \<longleftrightarrow>
     list_ex (\<lambda>i. case polls i of None \<Rightarrow> False | Some q \<Rightarrow> pollStartsAt q < ends_at \<and> pollEndsAt q > starts_at) ids"

definition creation_free :: "pg \<Rightarrow> bool" where
  "creation_free s \<longleftrightarrow> list_all (\<lambda>c. crPC c \<in> {CEntered, CEnded}) (pgCreates s)"

definition create_poll :: "uuid \<Rightarrow> uuid list \<Rightarrow> create_call \<Rightarrow> pg \<Rightarrow> (create_call \<times> pg) option" where
  "create_poll fresh ids c s =
     (case crPC c of
        CEntered \<Rightarrow> if creation_free s then Some (c\<lparr>crPC := CLocked\<rparr>, s) else None
      | CLocked \<Rightarrow> Some (c\<lparr>crPC := CStart (case inStartsAt (crInput c) of None \<Rightarrow> pgNow s | Some t \<Rightarrow> micros t)\<rparr>, s)
      | CStart t \<Rightarrow> Some (c\<lparr>crPC := (if polls_overlap ids t (t + minute) (pgPolls s) then COverlap else CFree t)\<rparr>, s)
      | CFree t \<Rightarrow>
          if pgPolls s fresh \<noteq> None then Some (c\<lparr>crPC := CEnded\<rparr>, s)
          else Some (c\<lparr>crPC := CInserted \<lparr>pollID = fresh, pollQuestion = inQuestion (crInput c), pollType = inType (crInput c),
            pollOptions = numbered_options (inOptions (crInput c)), pollStartsAt = t, pollEndsAt = t + minute,
            pollCreatedAt = pgNow s, pollFinalizedAt = None\<rparr>\<rparr>, s)
      | CInserted p \<Rightarrow> Some (c\<lparr>crPC := CEnded\<rparr>, s\<lparr>pgPolls := (pgPolls s)(pollID p \<mapsto> p)\<rparr>)
      | COverlap \<Rightarrow> Some (c\<lparr>crPC := CEnded\<rparr>, s)
      | CEnded \<Rightarrow> None)"

section \<open>Interleaving\<close>

text \<open>
  Calls start at any time, their statements interleave, any call may fail and roll back, and
  the clock of the server does not go back.
\<close>

definition new_vote_call :: "uuid \<Rightarrow> uuid \<Rightarrow> int list \<Rightarrow> vote_call" where
  "new_vote_call p t choices = \<lparr>rvPoll = p, rvToken = t, rvChoices = choices, rvPC = Entered, rvLock = None, rvRow = None\<rparr>"

definition new_fin_call :: "uuid \<Rightarrow> fin_call" where
  "new_fin_call p = \<lparr>fpPoll = p, fpPC = FEntered, fpLocks = 0\<rparr>"

inductive pg_step :: "(string \<Rightarrow> int) \<Rightarrow> pg \<Rightarrow> pg \<Rightarrow> bool" for h where
  start_vote: "pg_step h s (s\<lparr>pgCalls := pgCalls s @ [new_vote_call p t choices]\<rparr>)"
| vote: "i < length (pgCalls s) \<Longrightarrow> record_vote h (pgCalls s ! i) s = Some (c, s') \<Longrightarrow>
    pg_step h s (s'\<lparr>pgCalls := (pgCalls s)[i := c]\<rparr>)"
| abort_vote: "i < length (pgCalls s) \<Longrightarrow>
    pg_step h s (s\<lparr>pgCalls := (pgCalls s)[i := (pgCalls s ! i)\<lparr>rvPC := Ended, rvLock := None, rvRow := None\<rparr>]\<rparr>)"
| start_fin: "pg_step h s (s\<lparr>pgFins := pgFins s @ [new_fin_call p]\<rparr>)"
| fin: "i < length (pgFins s) \<Longrightarrow> finalize_poll h (pgFins s ! i) s = Some (f, s') \<Longrightarrow>
    pg_step h s (s'\<lparr>pgFins := (pgFins s)[i := f]\<rparr>)"
| abort_fin: "i < length (pgFins s) \<Longrightarrow>
    pg_step h s (s\<lparr>pgFins := (pgFins s)[i := (pgFins s ! i)\<lparr>fpPC := FEnded, fpLocks := 0\<rparr>]\<rparr>)"
| start_create: "pg_step h s (s\<lparr>pgCreates := pgCreates s @ [\<lparr>crInput = inp, crPC = CEntered\<rparr>]\<rparr>)"
| create: "i < length (pgCreates s) \<Longrightarrow> set ids = dom (pgPolls s) \<Longrightarrow> create_poll fresh ids (pgCreates s ! i) s = Some (c, s') \<Longrightarrow>
    pg_step h s (s'\<lparr>pgCreates := (pgCreates s)[i := c]\<rparr>)"
| abort_create: "i < length (pgCreates s) \<Longrightarrow>
    pg_step h s (s\<lparr>pgCreates := (pgCreates s)[i := (pgCreates s ! i)\<lparr>crPC := CEnded\<rparr>]\<rparr>)"
| tick: "0 \<le> d \<Longrightarrow> pg_step h s (s\<lparr>pgNow := pgNow s + d\<rparr>)"

definition pg_initial :: "pg \<Rightarrow> bool" where
  "pg_initial s \<longleftrightarrow> pgPolls s = Map.empty \<and> pgVotes s = [] \<and> pgResults s = Map.empty \<and> pgCalls s = [] \<and> pgFins s = [] \<and>
     pgCreates s = [] \<and> pgReplies s = []"

end
