(* ===== verification/Pg_Votes_Inv.thy ===== *)
theory Pg_Votes_Inv
  imports Pg_Votes
begin

text \<open>
  The invariant of the interleaved transactions: who may hold which lock together, what a
  call knows at each of its statements, and the exactness of a final result. The frame lemmas
  say what a step of one transaction leaves alone for another that holds a lock.
\<close>

section \<open>Pairs of list elements\<close>

definition pairwise_list :: "('a \<Rightarrow> 'a \<Rightarrow> bool) \<Rightarrow> 'a list \<Rightarrow> bool" where
  "pairwise_list P xs \<longleftrightarrow> (\<forall>i < length xs. \<forall>j < length xs. i \<noteq> j \<longrightarrow> P (xs ! i) (xs ! j))"

lemma pairwise_update:
  assumes "pairwise_list P xs" and "i < length xs"
    and "\<And>j. j < length xs \<Longrightarrow> j \<noteq> i \<Longrightarrow> P c (xs ! j) \<and> P (xs ! j) c"
  shows "pairwise_list P (xs[i := c])"
  using assms by (auto simp: pairwise_list_def nth_list_update)

lemma pairwise_snoc:
  assumes "pairwise_list P xs" and "\<And>d. d \<in> set xs \<Longrightarrow> P c d \<and> P d c"
  shows "pairwise_list P (xs @ [c])"
  using assms by (auto simp: pairwise_list_def nth_append less_Suc_eq)

lemma pairwiseD: "pairwise_list P xs \<Longrightarrow> i < length xs \<Longrightarrow> j < length xs \<Longrightarrow> i \<noteq> j \<Longrightarrow> P (xs ! i) (xs ! j)"
  by (simp add: pairwise_list_def)

lemma update_elem: "d \<in> set (xs[i := c]) \<Longrightarrow> (\<exists>j < length xs. j \<noteq> i \<and> d = xs ! j) \<or> d = c"
proof -
  assume "d \<in> set (xs[i := c])"
  then obtain j where "j < length xs" "xs[i := c] ! j = d" by (auto simp: in_set_conv_nth)
  then show ?thesis by (cases "j = i") auto
qed

section \<open>Rows and replies\<close>

lemma find_vote_some: "find_vote p t rows = Some r \<Longrightarrow> r \<in> set rows \<and> vrPoll r = p \<and> vrToken r = t"
  by (auto simp: find_vote_def split: list.splits dest!: arg_cong [where f = set])

lemma find_vote_none: "find_vote p t rows = None \<longleftrightarrow> (\<forall>r \<in> set rows. \<not> (vrPoll r = p \<and> vrToken r = t))"
  by (auto simp: find_vote_def filter_empty_conv split: list.splits dest: filter_eq_ConsD)

lemma poll_votes_append: "poll_votes p (a @ b) = poll_votes p a @ poll_votes p b"
  by (simp add: poll_votes_def)

definition row_ok :: "pg \<Rightarrow> vote_row \<Rightarrow> bool" where
  "row_ok s row \<longleftrightarrow> (\<exists>cfg. pgPolls s (vrPoll row) = Some cfg \<and> pollStartsAt cfg \<le> vrAt row \<and> vrAt row < pollEndsAt cfg \<and>
     sql_normalize cfg (vrChoices row) = Some (vrChoices row))"

text \<open>No vote of the token is or will be recorded in the poll.\<close>

definition shut :: "pg \<Rightarrow> uuid \<Rightarrow> uuid \<Rightarrow> bool" where
  "shut s p t \<longleftrightarrow> find_vote p t (pgVotes s) = None \<and>
     (\<forall>d \<in> set (pgCalls s). rvPoll d = p \<and> rvToken d = t \<longrightarrow> rvRow d = None \<and> (\<forall>n a. rvPC d \<noteq> Admitted n a)) \<and>
     (\<exists>cfg. pgPolls s p = Some cfg \<and> (pollFinalizedAt cfg \<noteq> None \<or> pollEndsAt cfg \<le> pgNow s))"

definition names_row :: "pg \<Rightarrow> uuid \<Rightarrow> uuid \<Rightarrow> int list \<Rightarrow> vote_reply \<Rightarrow> bool" where
  "names_row s p t cs r \<longleftrightarrow> (\<exists>row \<in> set (pgVotes s). vrPoll row = p \<and> vrToken row = t \<and>
     r = (fst r, Some (vrChoices row), Some (vrAt row)) \<and> (fst r = ''conflict'' \<longleftrightarrow> vrChoices row \<noteq> sort cs))"

definition reply_ok :: "pg \<Rightarrow> uuid \<Rightarrow> uuid \<Rightarrow> int list \<Rightarrow> vote_reply \<Rightarrow> bool" where
  "reply_ok s p t cs r \<longleftrightarrow>
     (fst r \<in> {''accepted'', ''duplicate'', ''conflict''} \<longrightarrow> names_row s p t cs r) \<and> (fst r = ''closed'' \<longrightarrow> shut s p t)"

definition result_exact :: "pg \<Rightarrow> uuid \<Rightarrow> poll \<Rightarrow> result_row \<Rightarrow> bool" where
  "result_exact s p cfg row \<longleftrightarrow> rrTotal row = length (poll_votes p (pgVotes s)) \<and>
     rrOptions row = calculate_option_counts p (pollOptions cfg) (pgVotes s)"

lemma sort_sort: "sort (sort xs) = sort xs"
  by (simp add: sorted_sort_id)

lemma sort_eq_Nil: "sort xs = [] \<longleftrightarrow> xs = []"
  by (metis length_0_conv length_sort)

lemma sql_normalize_some: "sql_normalize cfg cs = Some n \<Longrightarrow> n = sort cs \<and> sql_normalize cfg n = Some n"
  by (simp add: sql_normalize_def Let_def sort_sort sort_eq_Nil split: if_splits) (auto simp: sort_sort sort_eq_Nil)

section \<open>The invariant\<close>

definition lock_of :: "bool \<Rightarrow> lock_mode" where
  "lock_of exclusive = (if exclusive then Exclusive else Shared)"

definition pair_ok :: "(string \<Rightarrow> int) \<Rightarrow> vote_call \<Rightarrow> vote_call \<Rightarrow> bool" where
  "pair_ok h c d \<longleftrightarrow>
     (rvLock c \<noteq> None \<and> rvLock d \<noteq> None \<and> h (rvPoll c) = h (rvPoll d) \<and> vote_lock_shard h (rvToken c) = vote_lock_shard h (rvToken d)
        \<longrightarrow> rvLock c = Some Shared \<and> rvLock d = Some Shared) \<and>
     (rvRow c \<noteq> None \<and> rvRow d \<noteq> None \<longrightarrow> rvPoll c \<noteq> rvPoll d \<or> rvToken c \<noteq> rvToken d)"

definition apart :: "(string \<Rightarrow> int) \<Rightarrow> vote_call \<Rightarrow> fin_call \<Rightarrow> bool" where
  "apart h c f \<longleftrightarrow> \<not> (rvLock c \<noteq> None \<and> fin_holds h (h (rvPoll c)) (vote_lock_shard h (rvToken c)) f)"

definition fins_apart :: "(string \<Rightarrow> int) \<Rightarrow> fin_call \<Rightarrow> fin_call \<Rightarrow> bool" where
  "fins_apart h f g \<longleftrightarrow> h (fpPoll f) = h (fpPoll g) \<longrightarrow> fpLocks f = 0 \<or> fpLocks g = 0"

definition lock_inv :: "(string \<Rightarrow> int) \<Rightarrow> pg \<Rightarrow> bool" where
  "lock_inv h s \<longleftrightarrow> pairwise_list (pair_ok h) (pgCalls s) \<and> (\<forall>c \<in> set (pgCalls s). \<forall>f \<in> set (pgFins s). apart h c f) \<and>
     pairwise_list (fins_apart h) (pgFins s)"

definition open_config :: "pg \<Rightarrow> uuid \<Rightarrow> poll \<Rightarrow> bool" where
  "open_config s p cfg \<longleftrightarrow> pgPolls s p = Some cfg \<and> pollFinalizedAt cfg = None"

text \<open>What a call of \<^verbatim>\<open>record_vote\<close> knows before each of its statements.\<close>

definition call_ok :: "pg \<Rightarrow> vote_call \<Rightarrow> bool" where
  "call_ok s c =
     (case rvPC c of
        Locked e \<Rightarrow> rvLock c = Some (lock_of e) \<and> rvRow c = None
      | Checked e cfg n \<Rightarrow> rvLock c = Some (lock_of e) \<and> rvRow c = None \<and> pgPolls s (rvPoll c) = Some cfg \<and>
          sql_normalize cfg (rvChoices c) = Some n
      | Late e cfg n a \<Rightarrow> rvLock c = Some (lock_of e) \<and> rvRow c = None \<and> pgPolls s (rvPoll c) = Some cfg \<and>
          sql_normalize cfg (rvChoices c) = Some n \<and> a \<le> pgNow s
      | Admitted n a \<Rightarrow> rvLock c \<noteq> None \<and> rvRow c = None \<and> (\<exists>cfg. open_config s (rvPoll c) cfg \<and>
          sql_normalize cfg (rvChoices c) = Some n \<and> pollStartsAt cfg \<le> a \<and> a < pollEndsAt cfg)
      | Lost n \<Rightarrow> rvLock c \<noteq> None \<and> rvRow c = None \<and> n = sort (rvChoices c)
      | Replying r \<Rightarrow> (case rvRow c of
          None \<Rightarrow> fst r \<noteq> ''accepted'' \<and> reply_ok s (rvPoll c) (rvToken c) (rvChoices c) r
        | Some row \<Rightarrow> rvLock c \<noteq> None \<and> row_ok s row \<and> vrPoll row = rvPoll c \<and> vrToken row = rvToken c \<and>
            vrChoices row = sort (rvChoices c) \<and> r = (''accepted'', Some (vrChoices row), Some (vrAt row)) \<and>
            find_vote (rvPoll c) (rvToken c) (pgVotes s) = None \<and> (\<exists>cfg. open_config s (rvPoll c) cfg))
      | _ \<Rightarrow> rvLock c = None \<and> rvRow c = None)"

definition fin_ok :: "pg \<Rightarrow> fin_call \<Rightarrow> bool" where
  "fin_ok s f =
     (case fpPC f of
        FLocking \<Rightarrow> fpLocks f \<le> 64
      | FConfig cfg \<Rightarrow> fpLocks f = 64 \<and> open_config s (fpPoll f) cfg
      | FCounted cfg n \<Rightarrow> fpLocks f = 64 \<and> open_config s (fpPoll f) cfg \<and> n = length (poll_votes (fpPoll f) (pgVotes s))
      | FTallied cfg n counts \<Rightarrow> fpLocks f = 64 \<and> open_config s (fpPoll f) cfg \<and> n = length (poll_votes (fpPoll f) (pgVotes s)) \<and>
          counts = calculate_option_counts (fpPoll f) (pollOptions cfg) (pgVotes s)
      | FWritten row \<Rightarrow> fpLocks f = 64 \<and> (\<exists>cfg. open_config s (fpPoll f) cfg \<and> result_exact s (fpPoll f) cfg row)
      | FReturning changed \<Rightarrow> True
      | _ \<Rightarrow> fpLocks f = 0)"

definition final_ok :: "pg \<Rightarrow> uuid \<Rightarrow> poll \<Rightarrow> bool" where
  "final_ok s p cfg \<longleftrightarrow> (case pollFinalizedAt cfg of
     None \<Rightarrow> pgResults s p = None
   | Some t \<Rightarrow> \<exists>row. pgResults s p = Some row \<and> rrAt row = t \<and> result_exact s p cfg row)"

definition pg_inv :: "(string \<Rightarrow> int) \<Rightarrow> pg \<Rightarrow> bool" where
  "pg_inv h s \<longleftrightarrow> lock_inv h s \<and> (\<forall>c \<in> set (pgCalls s). call_ok s c) \<and> (\<forall>f \<in> set (pgFins s). fin_ok s f) \<and>
     distinct (map (\<lambda>r. (vrPoll r, vrToken r)) (pgVotes s)) \<and> (\<forall>row \<in> set (pgVotes s). row_ok s row) \<and>
     (\<forall>p. (\<forall>cfg. pgPolls s p = Some cfg \<longrightarrow> final_ok s p cfg) \<and> (pgPolls s p = None \<longrightarrow> pgResults s p = None)) \<and>
     (\<forall>(p, t, cs, r) \<in> set (pgReplies s). reply_ok s p t cs r)"

text \<open>A call that holds its lock at a statement after the configuration was read.\<close>

definition pinned :: "vote_call \<Rightarrow> bool" where
  "pinned c \<longleftrightarrow> (case rvPC c of Checked _ _ _ \<Rightarrow> True | Late _ _ _ _ \<Rightarrow> True | Admitted _ _ \<Rightarrow> True | _ \<Rightarrow> rvRow c \<noteq> None)"

lemma pinned_lock: "call_ok s c \<Longrightarrow> pinned c \<Longrightarrow> rvLock c \<noteq> None"
  by (auto simp: call_ok_def pinned_def split: vote_pc.splits option.splits)

lemma shard_range: "0 \<le> vote_lock_shard h t \<and> vote_lock_shard h t < 64"
  by (simp add: vote_lock_shard_def)

lemma row_call: "call_ok s c \<Longrightarrow> rvRow c = Some row \<Longrightarrow>
    rvPC c = Replying (''accepted'', Some (vrChoices row), Some (vrAt row)) \<and> row_ok s row \<and> vrPoll row = rvPoll c \<and>
    vrToken row = rvToken c \<and> vrChoices row = sort (rvChoices c) \<and> find_vote (rvPoll c) (rvToken c) (pgVotes s) = None \<and>
    (\<exists>cfg. open_config s (rvPoll c) cfg)"
  by (auto simp: call_ok_def split: vote_pc.splits)

section \<open>Polls and their creation\<close>

definition overlapping :: "poll \<Rightarrow> poll \<Rightarrow> bool" where
  "overlapping p q \<longleftrightarrow> pollStartsAt p < pollEndsAt q \<and> pollEndsAt p > pollStartsAt q"

definition idle :: "create_call \<Rightarrow> bool" where
  "idle c \<longleftrightarrow> crPC c \<in> {CEntered, CEnded}"

definition create_ok :: "pg \<Rightarrow> create_call \<Rightarrow> bool" where
  "create_ok s c =
     (case crPC c of
        CFree t \<Rightarrow> \<forall>i q. pgPolls s i = Some q \<longrightarrow> \<not> (pollStartsAt q < t + minute \<and> pollEndsAt q > t)
      | CInserted p \<Rightarrow> pgPolls s (pollID p) = None \<and> pollFinalizedAt p = None \<and> pollEndsAt p = pollStartsAt p + minute \<and>
          (\<forall>i q. pgPolls s i = Some q \<longrightarrow> \<not> overlapping q p)
      | _ \<Rightarrow> True)"

definition create_inv :: "pg \<Rightarrow> bool" where
  "create_inv s \<longleftrightarrow> pairwise_list (\<lambda>c d. idle c \<or> idle d) (pgCreates s) \<and> (\<forall>c \<in> set (pgCreates s). create_ok s c) \<and>
     (\<forall>i p. pgPolls s i = Some p \<longrightarrow> pollID p = i \<and> pollEndsAt p = pollStartsAt p + minute) \<and>
     (\<forall>i p j q. pgPolls s i = Some p \<longrightarrow> pgPolls s j = Some q \<longrightarrow> i \<noteq> j \<longrightarrow> \<not> overlapping p q)"

section \<open>What a step changes\<close>

text \<open>A step of a call changes only the call, but for the commit.\<close>

lemma record_vote_same:
  "record_vote h c s = Some (c', s') \<Longrightarrow> rvPoll c' = rvPoll c \<and> rvToken c' = rvToken c \<and> rvChoices c' = rvChoices c"
  by (auto simp: record_vote_def split: vote_pc.splits if_splits option.splits)

lemma record_vote_state:
  assumes "record_vote h c s = Some (c', s')"
  obtains (local) "s' = s" "\<And>r. rvPC c \<noteq> Replying r"
  | (commit) r where "rvPC c = Replying r" "c' = c\<lparr>rvPC := Ended, rvLock := None, rvRow := None\<rparr>"
      "s' = s\<lparr>pgVotes := pgVotes s @ (case rvRow c of None \<Rightarrow> [] | Some row \<Rightarrow> [row]),
        pgReplies := pgReplies s @ [(rvPoll c, rvToken c, rvChoices c, r)]\<rparr>"
  using assms by (auto simp: record_vote_def split: vote_pc.splits if_splits option.splits)

lemma finalize_poll_same: "finalize_poll h f s = Some (f', s') \<Longrightarrow> fpPoll f' = fpPoll f"
  by (auto simp: finalize_poll_def split: fin_pc.splits if_splits option.splits)

lemma finalize_poll_state:
  assumes "finalize_poll h f s = Some (f', s')"
  obtains (local) "s' = s" "\<And>row. fpPC f \<noteq> FWritten row"
  | (commit) row where "fpPC f = FWritten row" "f' = f\<lparr>fpPC := FEnded, fpLocks := 0\<rparr>"
      "s' = s\<lparr>pgResults := (pgResults s)(fpPoll f \<mapsto> row),
              pgPolls := (case pgPolls s (fpPoll f) of None \<Rightarrow> pgPolls s
                | Some cfg \<Rightarrow> (pgPolls s)(fpPoll f \<mapsto> cfg\<lparr>pollFinalizedAt := Some (rrAt row)\<rparr>))\<rparr>"
  using assms by (auto simp: finalize_poll_def split: fin_pc.splits if_splits option.splits)

lemma create_poll_state:
  assumes "create_poll fresh ids c s = Some (c', s')"
  obtains (local) "s' = s" "\<And>p. crPC c \<noteq> CInserted p"
  | (commit) p where "crPC c = CInserted p" "s' = s\<lparr>pgPolls := (pgPolls s)(pollID p \<mapsto> p)\<rparr>"
  using assms by (auto simp: create_poll_def split: create_pc.splits if_splits option.splits)

section \<open>Creation keeps polls apart\<close>

lemma create_inv_polls:
  assumes "create_inv s" and "pgCreates s' = pgCreates s"
    and "\<And>i. pgPolls s' i = None \<longleftrightarrow> pgPolls s i = None"
    and "\<And>i q. pgPolls s' i = Some q \<Longrightarrow>
      \<exists>p. pgPolls s i = Some p \<and> pollID p = pollID q \<and> pollStartsAt p = pollStartsAt q \<and> pollEndsAt p = pollEndsAt q"
  shows "create_inv s'"
proof -
  have "create_ok s' c" if "create_ok s c" for c
    using that assms(3,4) unfolding create_ok_def overlapping_def by (cases "crPC c") (simp_all, metis+)
  moreover have "pollID p = i \<and> pollEndsAt p = pollStartsAt p + minute" if "pgPolls s' i = Some p" for i p
    using assms(1) assms(4) [OF that] by (auto simp: create_inv_def)
  moreover have "\<not> overlapping p q" if "pgPolls s' i = Some p" "pgPolls s' j = Some q" "i \<noteq> j" for i j p q
    using assms(1) assms(4) [OF that(1)] assms(4) [OF that(2)] that(3) unfolding create_inv_def overlapping_def by metis
  ultimately show ?thesis using assms(1,2) by (simp add: create_inv_def)
qed

lemma create_inv_same:
  "create_inv s \<Longrightarrow> pgCreates s' = pgCreates s \<Longrightarrow> pgPolls s' = pgPolls s \<Longrightarrow> create_inv s'"
  by (rule create_inv_polls) auto

lemma create_inv_local:
  assumes "create_inv s" and "i < length (pgCreates s)" and "create_ok s c"
    and "idle c \<or> (\<forall>j < length (pgCreates s). j \<noteq> i \<longrightarrow> idle (pgCreates s ! j))"
  shows "create_inv (s\<lparr>pgCreates := (pgCreates s)[i := c]\<rparr>)"
proof -
  have "create_ok (s\<lparr>pgCreates := (pgCreates s)[i := c]\<rparr>) d \<longleftrightarrow> create_ok s d" for d
    by (simp add: create_ok_def split: create_pc.splits)
  moreover have "pairwise_list (\<lambda>c d. idle c \<or> idle d) ((pgCreates s)[i := c])"
    using assms by (intro pairwise_update) (auto simp: create_inv_def)
  ultimately show ?thesis
    using assms by (auto simp: create_inv_def dest: update_elem)
qed

lemma create_poll_inv:
  assumes inv: "create_inv s" and i: "i < length (pgCreates s)" and ids: "set ids = dom (pgPolls s)"
    and step: "create_poll fresh ids (pgCreates s ! i) s = Some (c, s')"
  shows "create_inv (s'\<lparr>pgCreates := (pgCreates s)[i := c]\<rparr>)"
proof -
  let ?c = "pgCreates s ! i"
  have ok: "create_ok s ?c" using inv i by (simp add: create_inv_def)
  have others: "idle (pgCreates s ! j)" if "\<not> idle ?c" "j < length (pgCreates s)" "j \<noteq> i" for j
    using inv i that by (auto simp: create_inv_def pairwise_list_def)
  show ?thesis using step
  proof (cases rule: create_poll_state)
    case local
    have "create_ok s c"
    proof (cases "crPC ?c")
      case (CStart t)
      have "\<not> (pollStartsAt q < t + minute \<and> pollEndsAt q > t)"
        if "\<not> polls_overlap ids t (t + minute) (pgPolls s)" "pgPolls s k = Some q" for k q
      proof -
        have "k \<in> set ids" using ids that(2) by blast
        with that show ?thesis by (auto simp: polls_overlap_def list_ex_iff split: option.splits)
      qed
      with step CStart show ?thesis by (auto simp: create_poll_def create_ok_def split: if_splits)
    next
      case (CFree t)
      with ok have "\<not> (pollStartsAt q < t + minute \<and> pollEndsAt q > t)" if "pgPolls s k = Some q" for k q
        using that by (simp add: create_ok_def)
      with step CFree show ?thesis by (auto simp: create_poll_def create_ok_def overlapping_def split: if_splits)
    qed (use step local in \<open>auto simp: create_poll_def create_ok_def split: if_splits\<close>)
    moreover have "idle c \<or> (\<forall>j < length (pgCreates s). j \<noteq> i \<longrightarrow> idle (pgCreates s ! j))"
    proof (cases "crPC ?c = CEntered")
      case True
      then have "creation_free s" using step by (simp add: create_poll_def split: if_splits)
      then show ?thesis by (simp add: creation_free_def idle_def list_all_length)
    next
      case False
      moreover have "crPC ?c \<noteq> CEnded" using step by (auto simp: create_poll_def)
      ultimately show ?thesis using others by (simp add: idle_def)
    qed
    ultimately show ?thesis using create_inv_local [OF inv i] local by simp
  next
    case (commit p)
    have c: "idle c" using step commit(1) by (auto simp: create_poll_def idle_def)
    from ok commit(1) have p: "pgPolls s (pollID p) = None" "pollEndsAt p = pollStartsAt p + minute"
      "\<And>i q. pgPolls s i = Some q \<Longrightarrow> \<not> overlapping q p" by (auto simp: create_ok_def)
    have "create_ok (s'\<lparr>pgCreates := x\<rparr>) d" if "idle d" for d x
      using that by (auto simp: create_ok_def idle_def)
    moreover have "\<forall>d \<in> set ((pgCreates s)[i := c]). idle d"
      using others c commit(1) by (auto simp: idle_def dest!: update_elem)
    moreover have "pairwise_list (\<lambda>c d. idle c \<or> idle d) ((pgCreates s)[i := c])"
      using calculation(2) by (simp add: pairwise_list_def)
    ultimately show ?thesis
      using inv p by (auto simp: create_inv_def commit(2) overlapping_def split: if_splits)
  qed
qed

lemma create_inv_step: "pg_step h s s' \<Longrightarrow> create_inv s \<Longrightarrow> create_inv s'"
proof (induction rule: pg_step.induct)
  case (vote i s c s')
  from vote(2) show ?case
    by (cases rule: record_vote_state) (auto intro!: create_inv_polls [OF vote.prems])
next
  case (fin i s f s')
  from fin(2) show ?case
    by (cases rule: finalize_poll_state) (auto intro!: create_inv_polls [OF fin.prems] split: option.splits if_splits)
next
  case (start_create s inp)
  have "create_ok (s\<lparr>pgCreates := x\<rparr>) d \<longleftrightarrow> create_ok s d" for d x
    by (simp add: create_ok_def split: create_pc.splits)
  moreover have "pairwise_list (\<lambda>c d. idle c \<or> idle d) (pgCreates s @ [\<lparr>crInput = inp, crPC = CEntered\<rparr>])"
    using start_create by (intro pairwise_snoc) (auto simp: create_inv_def idle_def)
  ultimately show ?case
    using start_create by (auto simp: create_inv_def) (simp add: create_ok_def)
next
  case (create i s ids fresh c s')
  then show ?case by (intro create_poll_inv)
next
  case (abort_create i s)
  then show ?case by (intro create_inv_local) (simp_all add: create_ok_def idle_def)
qed (rule create_inv_same, assumption, simp, simp)+

end
