(* ===== verification/Pg_Votes_Steps.thy ===== *)
theory Pg_Votes_Steps
  imports Pg_Votes_Inv
begin

text \<open>
  The invariant of the interleaved transactions is kept: frame lemmas for the calls that do
  not move, the moving call by its statement, and the three commits.
\<close>

section \<open>Frames\<close>

definition same_terms :: "poll \<Rightarrow> poll \<Rightarrow> bool" where
  "same_terms p q \<longleftrightarrow> pollStartsAt p = pollStartsAt q \<and> pollEndsAt p = pollEndsAt q \<and> pollOptions p = pollOptions q \<and>
     pollType p = pollType q"

definition grows :: "pg \<Rightarrow> pg \<Rightarrow> bool" where
  "grows s s' \<longleftrightarrow>
     (\<forall>p cfg. pgPolls s p = Some cfg \<longrightarrow> (\<exists>cfg'. pgPolls s' p = Some cfg' \<and> same_terms cfg cfg' \<and>
        (pollFinalizedAt cfg \<noteq> None \<longrightarrow> cfg' = cfg))) \<and>
     (\<exists>rows. pgVotes s' = pgVotes s @ rows) \<and> pgNow s \<le> pgNow s'"

lemma sql_normalize_terms: "same_terms p q \<Longrightarrow> sql_normalize p cs = sql_normalize q cs"
  by (simp add: sql_normalize_def same_terms_def)

lemma row_ok_grows: "grows s s' \<Longrightarrow> row_ok s r \<Longrightarrow> row_ok s' r"
proof -
  assume g: "grows s s'" and "row_ok s r"
  then obtain cfg where cfg: "pgPolls s (vrPoll r) = Some cfg" "pollStartsAt cfg \<le> vrAt r" "vrAt r < pollEndsAt cfg"
    "sql_normalize cfg (vrChoices r) = Some (vrChoices r)" by (auto simp: row_ok_def)
  with g obtain cfg' where "pgPolls s' (vrPoll r) = Some cfg'" and t: "same_terms cfg cfg'" unfolding grows_def by blast
  with cfg sql_normalize_terms [OF t, of "vrChoices r"] show ?thesis by (simp add: row_ok_def same_terms_def)
qed

lemma names_row_grows: "grows s s' \<Longrightarrow> names_row s p t cs r \<Longrightarrow> names_row s' p t cs r"
  unfolding grows_def names_row_def by (metis Un_iff set_append)

lemma grows_same: "pgPolls s' = pgPolls s \<Longrightarrow> pgVotes s' = pgVotes s \<Longrightarrow> pgNow s \<le> pgNow s' \<Longrightarrow> grows s s'"
  by (auto simp: grows_def same_terms_def)

lemma counts_poll_votes:
  "poll_votes p rows = poll_votes p rows' \<Longrightarrow> calculate_option_counts p opts rows = calculate_option_counts p opts rows'"
  by (simp add: calculate_option_counts_def)

lemma result_exact_frame:
  "poll_votes p (pgVotes s') = poll_votes p (pgVotes s) \<Longrightarrow> result_exact s' p cfg row \<longleftrightarrow> result_exact s p cfg row"
  using counts_poll_votes [of p "pgVotes s'" "pgVotes s" "pollOptions cfg"] by (simp add: result_exact_def)

lemma reply_ok_frame:
  assumes "reply_ok s p t cs r" and "grows s s'" and "shut s p t \<Longrightarrow> shut s' p t"
  shows "reply_ok s' p t cs r"
  using assms names_row_grows unfolding reply_ok_def by blast

lemma call_ok_frame:
  assumes ok: "call_ok s d" and grows: "grows s s'" and shut: "\<And>p t. shut s p t \<Longrightarrow> shut s' p t"
    and pin: "pinned d \<Longrightarrow> pgPolls s' (rvPoll d) = pgPolls s (rvPoll d)"
    and row: "rvRow d \<noteq> None \<Longrightarrow> find_vote (rvPoll d) (rvToken d) (pgVotes s') = None"
  shows "call_ok s' d"
proof (cases "rvPC d")
  case (Late e cfg n a)
  with ok pin grows show ?thesis by (auto simp: call_ok_def pinned_def grows_def)
next
  case (Replying r)
  show ?thesis
  proof (cases "rvRow d")
    case None
    with Replying ok reply_ok_frame [OF _ grows shut] show ?thesis by (simp add: call_ok_def)
  next
    case (Some v)
    with Replying ok pin row row_ok_grows [OF grows] show ?thesis
      by (auto simp: call_ok_def pinned_def open_config_def)
  qed
qed (use ok pin in \<open>auto simp: call_ok_def pinned_def open_config_def\<close>)

lemma fin_ok_frame:
  assumes ok: "fin_ok s f" and keep: "fpLocks f = 64 \<Longrightarrow> (\<exists>cfg. open_config s (fpPoll f) cfg) \<Longrightarrow>
    pgPolls s' (fpPoll f) = pgPolls s (fpPoll f) \<and> poll_votes (fpPoll f) (pgVotes s') = poll_votes (fpPoll f) (pgVotes s)"
  shows "fin_ok s' f"
proof (cases "fpLocks f = 64 \<and> (\<exists>cfg. open_config s (fpPoll f) cfg)")
  case True
  with keep have k: "pgPolls s' (fpPoll f) = pgPolls s (fpPoll f)"
    "poll_votes (fpPoll f) (pgVotes s') = poll_votes (fpPoll f) (pgVotes s)" by simp_all
  have o: "open_config s' (fpPoll f) cfg \<longleftrightarrow> open_config s (fpPoll f) cfg" for cfg by (simp add: open_config_def k)
  show ?thesis
    using ok by (simp add: fin_ok_def o k result_exact_frame [OF k(2)] counts_poll_votes [OF k(2)] split: fin_pc.splits)
next
  case False
  then show ?thesis using ok by (auto simp: fin_ok_def split: fin_pc.splits)
qed

section \<open>Locks\<close>

lemma vote_fin_apart:
  assumes "lock_inv h s" and "c \<in> set (pgCalls s)" and "f \<in> set (pgFins s)" and "rvLock c \<noteq> None" and "fpLocks f = 64"
  shows "rvPoll c \<noteq> fpPoll f"
proof
  assume same: "rvPoll c = fpPoll f"
  have "apart h c f" using assms(1-3) by (simp add: lock_inv_def)
  with assms(4,5) same shard_range [of h "rvToken c"] show False by (auto simp: apart_def fin_holds_def)
qed

lemma fin_fin_apart:
  assumes "lock_inv h s" and "i < length (pgFins s)" and "j < length (pgFins s)" and "i \<noteq> j"
    and "fpLocks (pgFins s ! i) = 64" and "fpLocks (pgFins s ! j) = 64"
  shows "fpPoll (pgFins s ! i) \<noteq> fpPoll (pgFins s ! j)"
  using assms by (auto simp: lock_inv_def pairwise_list_def fins_apart_def)

lemma pair_ok_sym: "pair_ok h c d \<longleftrightarrow> pair_ok h d c"
  unfolding pair_ok_def by metis

lemma pair_ok_keep:
  assumes "pair_ok h c d" and "rvPoll c' = rvPoll c" and "rvToken c' = rvToken c" and "rvLock c' = rvLock c \<or> rvLock c' = None"
    and "rvRow c' = None \<or> rvRow c' = rvRow c \<or> \<not> (rvRow d \<noteq> None \<and> rvPoll d = rvPoll c \<and> rvToken d = rvToken c)"
  shows "pair_ok h c' d"
  unfolding pair_ok_def assms(2,3)
proof (intro conjI impI)
  assume l: "rvLock c' \<noteq> None \<and> rvLock d \<noteq> None \<and> h (rvPoll c) = h (rvPoll d) \<and> vote_lock_shard h (rvToken c) = vote_lock_shard h (rvToken d)"
  then have same: "rvLock c' = rvLock c" using assms(4) by (elim conjE) (erule disjE, assumption, simp)
  from l have "rvLock c = Some Shared \<and> rvLock d = Some Shared"
    unfolding same by (intro mp [OF conjunct1 [OF assms(1) [unfolded pair_ok_def]]])
  then show "rvLock c' = Some Shared" "rvLock d = Some Shared" unfolding same by simp_all
next
  assume r: "rvRow c' \<noteq> None \<and> rvRow d \<noteq> None"
  show "rvPoll c \<noteq> rvPoll d \<or> rvToken c \<noteq> rvToken d"
  proof (cases "rvRow c' = rvRow c")
    case True
    with r show ?thesis by (intro mp [OF conjunct2 [OF assms(1) [unfolded pair_ok_def]]]) simp
  next
    case False
    with r assms(5) show ?thesis by auto
  qed
qed

text \<open>A call that takes a free lock, or keeps what it has, or gives it up.\<close>

lemma pair_step:
  assumes step: "record_vote h c s = Some (c', s')" and cd: "pair_ok h c d \<and> pair_ok h d c" and d: "d \<in> set (pgCalls s)"
  shows "pair_ok h c' d \<and> pair_ok h d c'"
proof (cases "rvPC c")
  case (Waiting e)
  have free: "e \<Longrightarrow> \<not> vote_holds h (h (rvPoll c)) (vote_lock_shard h (rvToken c)) d"
    "\<not> e \<Longrightarrow> \<not> (vote_holds h (h (rvPoll c)) (vote_lock_shard h (rvToken c)) d \<and> rvLock d = Some Exclusive)"
    using step d by (auto simp: record_vote_def Waiting exclusive_free_def shared_free_def list_ex_iff split: if_splits)
  have c': "c' = c\<lparr>rvPC := Locked e, rvLock := Some (lock_of e)\<rparr>"
    using step by (simp add: record_vote_def Waiting lock_of_def split: if_splits)
  have shared: "lock_of e = Shared \<and> rvLock d = Some Shared"
    if "h (rvPoll c) = h (rvPoll d)" "vote_lock_shard h (rvToken c) = vote_lock_shard h (rvToken d)" "rvLock d \<noteq> None"
  proof (cases e)
    case True
    with free(1) that show ?thesis by (simp add: vote_holds_def)
  next
    case False
    with free(2) that obtain m where "rvLock d = Some m" "m \<noteq> Exclusive" by (auto simp: vote_holds_def)
    then show ?thesis using False by (cases m) (simp_all add: lock_of_def)
  qed
  have r: "rvLock c' = Some (lock_of e)" "rvRow c' = rvRow c" "rvPoll c' = rvPoll c" "rvToken c' = rvToken c"
    by (simp_all add: c')
  have "pair_ok h c d" using cd by simp
  then have rows: "rvRow c \<noteq> None \<and> rvRow d \<noteq> None \<longrightarrow> rvPoll c \<noteq> rvPoll d \<or> rvToken c \<noteq> rvToken d"
    unfolding pair_ok_def by blast
  have "pair_ok h c' d"
    unfolding pair_ok_def r
  proof (rule conjI, rule impI)
    assume "Some (lock_of e) \<noteq> None \<and> rvLock d \<noteq> None \<and> h (rvPoll c) = h (rvPoll d) \<and>
      vote_lock_shard h (rvToken c) = vote_lock_shard h (rvToken d)"
    then have "lock_of e = Shared \<and> rvLock d = Some Shared" by (elim conjE) (rule shared)
    then show "Some (lock_of e) = Some Shared \<and> rvLock d = Some Shared" by simp
  qed (rule rows)
  then show ?thesis using pair_ok_sym [of h c' d] by simp
next
  case (Admitted n a)
  have free: "\<not> (rvRow d \<noteq> None \<and> rvPoll d = rvPoll c \<and> rvToken d = rvToken c)"
    using step d by (auto simp: record_vote_def Admitted list_ex_iff split: if_splits)
  have keep: "rvPoll c' = rvPoll c" "rvToken c' = rvToken c" "rvLock c' = rvLock c"
    using step by (auto simp: record_vote_def Admitted split: if_splits option.splits)
  have "pair_ok h c' d" by (rule pair_ok_keep [OF conjunct1 [OF cd]]) (use free in \<open>simp_all add: keep\<close>)
  then show ?thesis using pair_ok_sym [of h c' d] by simp
qed (use step in \<open>auto simp: record_vote_def split: option.splits
    intro!: pair_ok_keep [OF conjunct1 [OF cd]] pair_ok_sym [THEN iffD1, OF pair_ok_keep [OF conjunct1 [OF cd]]]\<close>)

lemma apart_step:
  assumes step: "record_vote h c s = Some (c', s')" and cf: "apart h c f" and f: "f \<in> set (pgFins s)"
  shows "apart h c' f"
proof (cases "rvPC c")
  case (Waiting e)
  with step cf f show ?thesis
    by (auto simp: record_vote_def apart_def exclusive_free_def shared_free_def list_ex_iff split: if_splits)
qed (use step cf in \<open>auto simp: record_vote_def apart_def split: option.splits if_splits\<close>)

lemma fin_apart_step:
  assumes step: "finalize_poll h f s = Some (f', s')"
  shows "apart h c f \<Longrightarrow> c \<in> set (pgCalls s) \<Longrightarrow> apart h c f'"
    and "fins_apart h f g \<Longrightarrow> g \<in> set (pgFins s) \<Longrightarrow> fins_apart h f' g"
proof -
  assume cf: "apart h c f" and c: "c \<in> set (pgCalls s)"
  have free: "\<not> vote_holds h (h (fpPoll f)) (int (fpLocks f)) c" if "fpPC f = FLocking" "fpLocks f < 64"
    using step that c by (auto simp: finalize_poll_def exclusive_free_def list_ex_iff split: if_splits)
  show "apart h c f'"
  proof (cases "fpPC f = FLocking \<and> fpLocks f < 64")
    case True
    then have "f' = f\<lparr>fpLocks := fpLocks f + 1\<rparr>" using step by (auto simp: finalize_poll_def split: if_splits)
    with free True cf show ?thesis by (auto simp: apart_def fin_holds_def vote_holds_def)
  next
    case False
    then have "fpPoll f' = fpPoll f \<and> (fpLocks f' = fpLocks f \<or> fpLocks f' = 0)"
      using step by (auto simp: finalize_poll_def split: fin_pc.splits option.splits if_splits)
    with cf shard_range [of h "rvToken c"] show ?thesis by (auto simp: apart_def fin_holds_def)
  qed
next
  assume fg: "fins_apart h f g" and g: "g \<in> set (pgFins s)"
  show "fins_apart h f' g"
  proof (cases "fpPC f = FLocking \<and> fpLocks f < 64")
    case True
    then have f': "f' = f\<lparr>fpLocks := fpLocks f + 1\<rparr>" and free: "exclusive_free h (h (fpPoll f)) (int (fpLocks f)) s"
      using step by (auto simp: finalize_poll_def split: if_splits)
    from free g have "\<not> fin_holds h (h (fpPoll f)) (int (fpLocks f)) g" by (auto simp: exclusive_free_def list_ex_iff)
    with fg f' show ?thesis by (auto simp: fins_apart_def fin_holds_def)
  next
    case False
    then have "fpPoll f' = fpPoll f \<and> (fpLocks f' = fpLocks f \<or> fpLocks f' = 0)"
      using step by (auto simp: finalize_poll_def split: fin_pc.splits option.splits if_splits)
    with fg show ?thesis by (auto simp: fins_apart_def)
  qed
qed

end
