(* ===== verification/Pg_Votes_Safe.thy ===== *)
theory Pg_Votes_Safe
  imports Pg_Votes_Steps
begin

text \<open>
  Every step keeps the invariant: first what the whole step leaves alone (the terms of a poll,
  the recorded rows, a token that is shut out, what a lock pins), then the parts of the
  invariant one by one.
\<close>

lemma pg_invD:
  assumes "pg_inv h s"
  shows "lock_inv h s" "c \<in> set (pgCalls s) \<Longrightarrow> call_ok s c" "f \<in> set (pgFins s) \<Longrightarrow> fin_ok s f"
    "distinct (map (\<lambda>r. (vrPoll r, vrToken r)) (pgVotes s))" "row \<in> set (pgVotes s) \<Longrightarrow> row_ok s row"
    "pgPolls s p = Some cfg \<Longrightarrow> final_ok s p cfg" "pgPolls s p = None \<Longrightarrow> pgResults s p = None"
    "(q, t, cs, r) \<in> set (pgReplies s) \<Longrightarrow> reply_ok s q t cs r"
  using assms by (auto simp: pg_inv_def)

lemma create_inv_fresh:
  "create_inv s \<Longrightarrow> c \<in> set (pgCreates s) \<Longrightarrow> crPC c = CInserted p \<Longrightarrow> pgPolls s (pollID p) = None \<and> pollFinalizedAt p = None"
  by (auto simp: create_inv_def create_ok_def)

section \<open>What every step keeps\<close>

lemma fin_written:
  assumes "fin_ok s f" and "fpPC f = FWritten row"
  obtains cfg where "fpLocks f = 64" "pgPolls s (fpPoll f) = Some cfg" "pollFinalizedAt cfg = None" "result_exact s (fpPoll f) cfg row"
  using assms by (auto simp: fin_ok_def open_config_def)

lemma grows_refl: "grows s s"
  by (rule grows_same) simp_all

lemma grows_step:
  assumes "pg_step h s s'" and "pg_inv h s" and "create_inv s"
  shows "grows s s'"
  using assms
proof (induction rule: pg_step.induct)
  case (vote i s c s')
  from vote(2) show ?case
    by (cases rule: record_vote_state) (auto simp: grows_def same_terms_def)
next
  case (fin i s f s')
  from fin(2) show ?case
  proof (cases rule: finalize_poll_state)
    case (commit row)
    have "fin_ok s (pgFins s ! i)" using pg_invD(3) [OF fin.prems(1)] fin(1) by simp
    then obtain cfg where "pgPolls s (fpPoll (pgFins s ! i)) = Some cfg" "pollFinalizedAt cfg = None"
      using commit(1) by (rule fin_written)
    with commit show ?thesis by (auto simp: grows_def same_terms_def)
  qed (auto intro: grows_same)
next
  case (create i s ids fresh c s')
  from create(3) show ?case
  proof (cases rule: create_poll_state)
    case (commit p)
    have "pgPolls s (pollID p) = None" using create_inv_fresh [OF create.prems(2) _ commit(1)] create(1) by simp
    with commit show ?thesis by (auto simp: grows_def same_terms_def)
  qed (auto intro: grows_same)
qed (auto intro!: grows_same)

text \<open>A token that is shut out of a poll stays so.\<close>

lemma shut_call:
  assumes step: "record_vote h c s = Some (c', s')" and ok: "call_ok s c" and c: "c \<in> set (pgCalls s)" and shut: "shut s (rvPoll c) (rvToken c)"
  shows "rvRow c' = None \<and> (\<forall>n a. rvPC c' \<noteq> Admitted n a)"
proof -
  have none: "rvRow c = None" "\<And>n a. rvPC c \<noteq> Admitted n a" using shut c by (auto simp: shut_def)
  obtain cfg where cfg: "pgPolls s (rvPoll c) = Some cfg" "pollFinalizedAt cfg \<noteq> None \<or> pollEndsAt cfg \<le> pgNow s"
    using shut by (auto simp: shut_def)
  show ?thesis
  proof (cases "rvPC c")
    case (Checked e q n)
    with ok cfg have "q = cfg" by (simp add: call_ok_def)
    with step cfg(2) none Checked show ?thesis by (auto simp: record_vote_def)
  qed (use step none in \<open>auto simp: record_vote_def split: option.splits if_splits\<close>)
qed

lemma shut_frame:
  assumes "shut s p t" and g: "grows s s'" and calls: "\<And>d. d \<in> set (pgCalls s') \<Longrightarrow> rvPoll d = p \<Longrightarrow> rvToken d = t \<Longrightarrow>
      rvRow d = None \<and> (\<forall>n a. rvPC d \<noteq> Admitted n a)"
    and votes: "find_vote p t (pgVotes s') = None"
  shows "shut s' p t"
proof -
  obtain cfg where cfg: "pgPolls s p = Some cfg" "pollFinalizedAt cfg \<noteq> None \<or> pollEndsAt cfg \<le> pgNow s"
    using assms(1) by (auto simp: shut_def)
  from g cfg(1) obtain cfg' where "pgPolls s' p = Some cfg'" "same_terms cfg cfg'" "pollFinalizedAt cfg \<noteq> None \<longrightarrow> cfg' = cfg"
    and "pgNow s \<le> pgNow s'" unfolding grows_def by blast
  with cfg(2) have "\<exists>cfg'. pgPolls s' p = Some cfg' \<and> (pollFinalizedAt cfg' \<noteq> None \<or> pollEndsAt cfg' \<le> pgNow s')"
    by (auto simp: same_terms_def)
  with calls votes show ?thesis by (simp add: shut_def)
qed

lemma shut_step:
  assumes step: "pg_step h s s'" and inv: "pg_inv h s" "create_inv s" and shut: "shut s p t"
  shows "shut s' p t"
proof -
  note g = grows_step [OF step inv]
  have old: "rvRow d = None \<and> (\<forall>n a. rvPC d \<noteq> Admitted n a)" if "d \<in> set (pgCalls s)" "rvPoll d = p" "rvToken d = t" for d
    using shut that by (auto simp: shut_def)
  have none: "find_vote p t (pgVotes s) = None" using shut by (simp add: shut_def)
  have keep: "shut s' p t" if "pgCalls s' = pgCalls s" "pgVotes s' = pgVotes s"
    using none old by (intro shut_frame [OF shut g]) (simp_all add: that)
  from step show ?thesis
  proof (cases rule: pg_step.cases)
    case (start_vote p' t' choices)
    then show ?thesis using none by (intro shut_frame [OF shut g]) (auto simp: new_vote_call_def old)
  next
    case (vote i c u)
    have ci: "pgCalls s ! i \<in> set (pgCalls s)" using vote(2) by simp
    note ok = pg_invD(2) [OF inv(1) ci]
    note same = record_vote_same [OF vote(3)]
    show ?thesis
    proof (rule shut_frame [OF shut g])
      fix d assume d: "d \<in> set (pgCalls s')" "rvPoll d = p" "rvToken d = t"
      then have "(\<exists>j < length (pgCalls s). j \<noteq> i \<and> d = pgCalls s ! j) \<or> d = c" using vote(1) by (auto dest: update_elem)
      then show "rvRow d = None \<and> (\<forall>n a. rvPC d \<noteq> Admitted n a)"
      proof
        assume "d = c"
        with d same shut have "shut s (rvPoll (pgCalls s ! i)) (rvToken (pgCalls s ! i))" by simp
        from shut_call [OF vote(3) ok ci this] show ?thesis by (simp add: \<open>d = c\<close>)
      qed (use old d in auto)
    next
      show "find_vote p t (pgVotes s') = None"
        using vote(3)
      proof (cases rule: record_vote_state)
        case (commit r)
        have "\<not> (vrPoll row = p \<and> vrToken row = t)" if "rvRow (pgCalls s ! i) = Some row" for row
          using row_call [OF ok that] old [OF ci] that by auto
        then show ?thesis using none by (cases "rvRow (pgCalls s ! i)") (auto simp: vote(1) commit find_vote_none)
      qed (simp add: vote(1) none)
    qed
  next
    case (abort_vote i)
    show ?thesis
    proof (rule shut_frame [OF shut g])
      fix d assume d: "d \<in> set (pgCalls s')" "rvPoll d = p" "rvToken d = t"
      then show "rvRow d = None \<and> (\<forall>n a. rvPC d \<noteq> Admitted n a)"
        unfolding abort_vote(1) by (auto dest!: update_elem simp: old)
    qed (simp add: abort_vote(1) none)
  next
    case (fin i f u)
    from fin(3) have "pgCalls s' = pgCalls s \<and> pgVotes s' = pgVotes s" by (cases rule: finalize_poll_state) (simp_all add: fin(1))
    then show ?thesis by (intro keep) simp_all
  next
    case (create i ids fresh c u)
    from create(4) have "pgCalls s' = pgCalls s \<and> pgVotes s' = pgVotes s" by (cases rule: create_poll_state) (simp_all add: create(1))
    then show ?thesis by (intro keep) simp_all
  qed (rule keep; simp)+
qed

lemma reply_ok_step:
  "pg_step h s s' \<Longrightarrow> pg_inv h s \<Longrightarrow> create_inv s \<Longrightarrow> reply_ok s p t cs r \<Longrightarrow> reply_ok s' p t cs r"
  by (erule reply_ok_frame) (auto intro: grows_step shut_step)

section \<open>What a lock pins\<close>

lemma pinned_poll: "call_ok s c \<Longrightarrow> pinned c \<Longrightarrow> pgPolls s (rvPoll c) \<noteq> None"
  by (auto simp: call_ok_def pinned_def open_config_def split: vote_pc.splits option.splits)

lemma pinned_step:
  assumes step: "pg_step h s s'" and inv: "pg_inv h s" "create_inv s" and c: "c \<in> set (pgCalls s)" "pinned c"
  shows "pgPolls s' (rvPoll c) = pgPolls s (rvPoll c)"
proof -
  note ok = pg_invD(2) [OF inv(1) c(1)]
  from step show ?thesis
  proof (cases rule: pg_step.cases)
    case (vote i d u)
    from vote(3) show ?thesis by (cases rule: record_vote_state) (simp_all add: vote(1))
  next
    case (fin i f u)
    from fin(3) show ?thesis
    proof (cases rule: finalize_poll_state)
      case (commit row)
      have "fin_ok s (pgFins s ! i)" using pg_invD(3) [OF inv(1)] fin(2) by simp
      then have "fpLocks (pgFins s ! i) = 64" using commit(1) by (rule fin_written)
      with vote_fin_apart [OF pg_invD(1) [OF inv(1)] c(1)] fin(2) pinned_lock [OF ok c(2)]
      have "rvPoll c \<noteq> fpPoll (pgFins s ! i)" by simp
      then show ?thesis by (simp add: fin(1) commit split: option.splits)
    qed (simp add: fin(1))
  next
    case (create i ids fresh d u)
    from create(4) show ?thesis
    proof (cases rule: create_poll_state)
      case (commit p)
      have "pgPolls s (pollID p) = None" using create_inv_fresh [OF inv(2) _ commit(1)] create(2) by simp
      with pinned_poll [OF ok c(2)] show ?thesis by (auto simp: create(1) commit)
    qed (simp add: create(1))
  qed simp_all
qed

lemma fin64_step:
  assumes step: "pg_step h s s'" and inv: "pg_inv h s" "create_inv s" and j: "j < length (pgFins s)" "fpLocks (pgFins s ! j) = 64"
    and open_cfg: "open_config s (fpPoll (pgFins s ! j)) cfg" and still: "pgFins s' ! j = pgFins s ! j"
  shows "pgPolls s' (fpPoll (pgFins s ! j)) = pgPolls s (fpPoll (pgFins s ! j)) \<and>
    poll_votes (fpPoll (pgFins s ! j)) (pgVotes s') = poll_votes (fpPoll (pgFins s ! j)) (pgVotes s)"
  using step
proof (cases rule: pg_step.cases)
  case (vote i d u)
  have di: "pgCalls s ! i \<in> set (pgCalls s)" using vote(2) by simp
  from vote(3) show ?thesis
  proof (cases rule: record_vote_state)
    case (commit r)
    have "vrPoll row \<noteq> fpPoll (pgFins s ! j)" if "rvRow (pgCalls s ! i) = Some row" for row
    proof -
      note ok = pg_invD(2) [OF inv(1) di]
      from row_call [OF ok that] have "vrPoll row = rvPoll (pgCalls s ! i)" by simp
      moreover have "pinned (pgCalls s ! i)" using commit(1) that by (simp add: pinned_def)
      then have "rvLock (pgCalls s ! i) \<noteq> None" by (rule pinned_lock [OF ok])
      then have "rvPoll (pgCalls s ! i) \<noteq> fpPoll (pgFins s ! j)"
        using vote_fin_apart [OF pg_invD(1) [OF inv(1)] di _ _ j(2)] j(1) by simp
      ultimately show ?thesis by simp
    qed
    then show ?thesis by (cases "rvRow (pgCalls s ! i)") (simp_all add: vote(1) commit poll_votes_def)
  qed (simp add: vote(1))
next
  case (fin i f u)
  from fin(3) show ?thesis
  proof (cases rule: finalize_poll_state)
    case (commit row)
    have "fin_ok s (pgFins s ! i)" using pg_invD(3) [OF inv(1)] fin(2) by simp
    then have i64: "fpLocks (pgFins s ! i) = 64" using commit(1) by (rule fin_written)
    have "i \<noteq> j"
    proof
      assume "i = j"
      then have "pgFins s' ! j = f" using j(1) by (simp add: fin(1))
      with still commit(2) j(2) show False by (metis fin_call.select_convs(3) fin_call.surjective fin_call.update_convs(3) zero_neq_numeral)
    qed
    with fin_fin_apart [OF pg_invD(1) [OF inv(1)] fin(2) j(1) _ i64 j(2)]
    have "fpPoll (pgFins s ! i) \<noteq> fpPoll (pgFins s ! j)" by simp
    then show ?thesis by (simp add: fin(1) commit split: option.splits)
  qed (simp add: fin(1))
next
  case (create i ids fresh d u)
  from create(4) show ?thesis
  proof (cases rule: create_poll_state)
    case (commit p)
    have "pgPolls s (pollID p) = None" using create_inv_fresh [OF inv(2) _ commit(1)] create(2) by simp
    with open_cfg show ?thesis by (auto simp: create(1) commit open_config_def)
  qed (simp add: create(1))
qed simp_all

section \<open>Locks\<close>

lemma lock_inv_step:
  assumes step: "pg_step h s s'" and inv: "lock_inv h s"
  shows "lock_inv h s'"
proof -
  have P: "pairwise_list (pair_ok h) (pgCalls s)" and A: "\<And>c f. c \<in> set (pgCalls s) \<Longrightarrow> f \<in> set (pgFins s) \<Longrightarrow> apart h c f"
    and F: "pairwise_list (fins_apart h) (pgFins s)"
    using inv by (auto simp: lock_inv_def)
  from step show ?thesis
  proof (cases rule: pg_step.cases)
    case (start_vote p t choices)
    have "pairwise_list (pair_ok h) (pgCalls s @ [new_vote_call p t choices])"
      by (rule pairwise_snoc [OF P]) (simp add: pair_ok_def new_vote_call_def)
    moreover have "apart h (new_vote_call p t choices) f" for f by (simp add: apart_def new_vote_call_def)
    ultimately show ?thesis using A F by (auto simp: start_vote lock_inv_def)
  next
    case (vote i c u)
    have same: "pgFins s' = pgFins s" "pgCalls s' = (pgCalls s)[i := c]"
      using vote(3) by (cases rule: record_vote_state; simp add: vote(1))+
    have "pairwise_list (pair_ok h) ((pgCalls s)[i := c])"
    proof (rule pairwise_update [OF P vote(2)])
      fix j assume j: "j < length (pgCalls s)" "j \<noteq> i"
      have "pair_ok h (pgCalls s ! i) (pgCalls s ! j) \<and> pair_ok h (pgCalls s ! j) (pgCalls s ! i)"
        using pairwiseD [OF P] j vote(2) by simp
      then show "pair_ok h c (pgCalls s ! j) \<and> pair_ok h (pgCalls s ! j) c"
        by (rule pair_step [OF vote(3)]) (use j in simp)
    qed
    moreover have "apart h d f" if "d \<in> set ((pgCalls s)[i := c])" "f \<in> set (pgFins s)" for d f
      using update_elem [OF that(1)] that(2) A apart_step [OF vote(3)] vote(2) by auto
    ultimately show ?thesis using F by (simp add: lock_inv_def same)
  next
    case (abort_vote i)
    let ?c = "(pgCalls s ! i)\<lparr>rvPC := Ended, rvLock := None, rvRow := None\<rparr>"
    have "pairwise_list (pair_ok h) ((pgCalls s)[i := ?c])"
      by (rule pairwise_update [OF P abort_vote(2)]) (simp add: pair_ok_def)
    moreover have "apart h d f" if "d \<in> set ((pgCalls s)[i := ?c])" "f \<in> set (pgFins s)" for d f
      using update_elem [OF that(1)]
    proof
      assume "\<exists>j < length (pgCalls s). j \<noteq> i \<and> d = pgCalls s ! j"
      with A that(2) show ?thesis by auto
    qed (simp add: apart_def)
    ultimately show ?thesis using F by (simp add: abort_vote lock_inv_def)
  next
    case (start_fin p)
    have "pairwise_list (fins_apart h) (pgFins s @ [new_fin_call p])"
      by (rule pairwise_snoc [OF F]) (simp add: fins_apart_def new_fin_call_def)
    moreover have "apart h c (new_fin_call p)" for c
      using shard_range [of h "rvToken c"] by (simp add: apart_def fin_holds_def new_fin_call_def)
    ultimately show ?thesis using P A by (auto simp: start_fin lock_inv_def)
  next
    case (fin i f u)
    have same: "pgFins s' = (pgFins s)[i := f]" "pgCalls s' = pgCalls s"
      using fin(3) by (cases rule: finalize_poll_state; simp add: fin(1))+
    note st = fin_apart_step [OF fin(3)]
    have "pairwise_list (fins_apart h) ((pgFins s)[i := f])"
    proof (rule pairwise_update [OF F fin(2)])
      fix j assume j: "j < length (pgFins s)" "j \<noteq> i"
      have "fins_apart h (pgFins s ! i) (pgFins s ! j)" using pairwiseD [OF F fin(2) j(1)] j(2) by simp
      then have "fins_apart h f (pgFins s ! j)" by (rule st(2)) (use j in simp)
      then show "fins_apart h f (pgFins s ! j) \<and> fins_apart h (pgFins s ! j) f" by (auto simp: fins_apart_def)
    qed
    moreover have "apart h d g" if "d \<in> set (pgCalls s)" "g \<in> set ((pgFins s)[i := f])" for d g
      using update_elem [OF that(2)] that(1) A st(1) fin(2) by auto
    ultimately show ?thesis using P by (simp add: lock_inv_def same)
  next
    case (abort_fin i)
    let ?f = "(pgFins s ! i)\<lparr>fpPC := FEnded, fpLocks := 0\<rparr>"
    have "pairwise_list (fins_apart h) ((pgFins s)[i := ?f])"
      by (rule pairwise_update [OF F abort_fin(2)]) (simp add: fins_apart_def)
    moreover have "apart h d g" if "d \<in> set (pgCalls s)" "g \<in> set ((pgFins s)[i := ?f])" for d g
      using update_elem [OF that(2)]
    proof
      assume "\<exists>j < length (pgFins s). j \<noteq> i \<and> g = pgFins s ! j"
      with A that(1) show ?thesis by auto
    qed (use shard_range [of h "rvToken d"] in \<open>simp add: apart_def fin_holds_def\<close>)
    ultimately show ?thesis using P by (simp add: abort_fin lock_inv_def)
  next
    case (create i ids fresh c u)
    have "pgFins s' = pgFins s" "pgCalls s' = pgCalls s"
      using create(4) by (cases rule: create_poll_state; simp add: create(1))+
    then show ?thesis using inv by (simp add: lock_inv_def)
  qed (use inv in \<open>simp_all add: lock_inv_def\<close>)
qed

end
