(* ===== verification/Pg_Votes_Run.thy ===== *)
theory Pg_Votes_Run
  imports Pg_Votes_Safe
begin

text \<open>
  The moving call, the moving finalizer and the commits, and with them the invariant of every
  reachable state.
\<close>

section \<open>The moving vote\<close>

lemma closed_shut:
  assumes inv: "pg_inv h s" and i: "i < length (pgCalls s)" and late: "rvPC (pgCalls s ! i) = Late e cfg n a"
    and none: "find_vote (rvPoll (pgCalls s ! i)) (rvToken (pgCalls s ! i)) (pgVotes s) = None"
    and closed: "late_reply e cfg a = ''closed''" and c': "rvRow c' = None" "\<And>n a. rvPC c' \<noteq> Admitted n a"
  shows "shut (s\<lparr>pgCalls := (pgCalls s)[i := c']\<rparr>) (rvPoll (pgCalls s ! i)) (rvToken (pgCalls s ! i))"
proof -
  let ?c = "pgCalls s ! i"
  have ci: "?c \<in> set (pgCalls s)" using i by simp
  have ok: "rvLock ?c = Some (lock_of e)" "pgPolls s (rvPoll ?c) = Some cfg" "a \<le> pgNow s"
    using pg_invD(2) [OF inv ci] late by (simp_all add: call_ok_def)
  have ended: "pollFinalizedAt cfg \<noteq> None \<or> (pollEndsAt cfg \<le> a \<and> e)"
    using closed by (auto simp: late_reply_def split: if_splits)
  have others: "\<not> pinned (pgCalls s ! j) \<or> (\<exists>e q n a. rvPC (pgCalls s ! j) = Checked e q n \<or> rvPC (pgCalls s ! j) = Late e q n a)"
    if j: "j < length (pgCalls s)" "j \<noteq> i" and key: "rvPoll (pgCalls s ! j) = rvPoll ?c" "rvToken (pgCalls s ! j) = rvToken ?c" for j
  proof (rule ccontr)
    assume *: "\<not> ?thesis"
    let ?d = "pgCalls s ! j"
    have d: "call_ok s ?d" using pg_invD(2) [OF inv] j by simp
    have "\<exists>q. open_config s (rvPoll ?d) q"
      using d * by (auto simp: pinned_def call_ok_def split: vote_pc.splits option.splits)
    then have "pollFinalizedAt cfg = None" using key ok(2) by (auto simp: open_config_def)
    then have "e" using ended by blast
    have "rvLock ?d \<noteq> None" using pinned_lock [OF d] * by blast
    moreover have "pair_ok h ?c ?d" using pg_invD(1) [OF inv] i j by (simp add: lock_inv_def pairwise_list_def)
    ultimately have "rvLock ?c = Some Shared" using ok(1) key by (simp add: pair_ok_def)
    with ok(1) \<open>e\<close> show False by (simp add: lock_of_def)
  qed
  have "rvRow d = None \<and> (\<forall>n a. rvPC d \<noteq> Admitted n a)"
    if d: "d \<in> set ((pgCalls s)[i := c'])" and key: "rvPoll d = rvPoll ?c" "rvToken d = rvToken ?c" for d
    using update_elem [OF d]
  proof
    assume "\<exists>j < length (pgCalls s). j \<noteq> i \<and> d = pgCalls s ! j"
    then obtain j where j: "j < length (pgCalls s)" "j \<noteq> i" "d = pgCalls s ! j" by blast
    have "call_ok s d" using pg_invD(2) [OF inv] j by simp
    with others [OF j(1,2)] key j(3) show ?thesis
      by (auto simp: pinned_def call_ok_def split: vote_pc.splits)
  qed (use c' in simp)
  then show ?thesis using none ok(2,3) ended by (auto simp: shut_def)
qed

lemma find_vote_reply:
  assumes "find_vote p t (pgVotes s) = Some row" and "n = sort cs"
  shows "reply_ok s p t cs (duplicate_reply row n)"
  using find_vote_some [OF assms(1)] assms(2) by (auto simp: reply_ok_def names_row_def duplicate_reply_def)

lemma call_ok_calls:
  "(\<forall>r. rvPC c = Replying r \<longrightarrow> fst r \<noteq> ''closed'') \<Longrightarrow> call_ok s c \<Longrightarrow> call_ok (s\<lparr>pgCalls := x\<rparr>) c"
  by (auto simp: call_ok_def reply_ok_def names_row_def row_ok_def open_config_def split: vote_pc.splits option.splits)

lemma moved_call_ok:
  assumes inv: "pg_inv h s" and i: "i < length (pgCalls s)" and step: "record_vote h (pgCalls s ! i) s = Some (c', s')"
  shows "call_ok (s'\<lparr>pgCalls := (pgCalls s)[i := c']\<rparr>) c'"
proof -
  let ?c = "pgCalls s ! i"
  have ok: "call_ok s ?c" using pg_invD(2) [OF inv] i by simp
  show ?thesis
  proof (cases "rvPC ?c")
    case (Late e cfg n a)
    then have s': "s' = s" using step by (auto simp: record_vote_def)
    have n: "n = sort (rvChoices ?c)" "rvRow ?c = None" using ok Late sql_normalize_some by (auto simp: call_ok_def)
    show ?thesis
    proof (cases "find_vote (rvPoll ?c) (rvToken ?c) (pgVotes s)")
      case None
      have c': "c' = ?c\<lparr>rvPC := Replying (bare_reply (late_reply e cfg a))\<rparr>" using step by (auto simp: record_vote_def Late None)
      have st: "late_reply e cfg a \<in> {''closed'', ''unknown'', ''not_open''}" by (simp add: late_reply_def)
      show ?thesis
      proof (cases "late_reply e cfg a = ''closed''")
        case True
        with closed_shut [OF inv i Late None True, of c'] n(2) show ?thesis
          by (simp add: s' call_ok_def c' bare_reply_def reply_ok_def)
      next
        case False
        with st n(2) show ?thesis by (auto simp: s' call_ok_def c' bare_reply_def reply_ok_def)
      qed
    next
      case (Some row)
      have c': "c' = ?c\<lparr>rvPC := Replying (duplicate_reply row n)\<rparr>" using step by (auto simp: record_vote_def Late Some)
      with find_vote_reply [OF Some n(1)] n(2) show ?thesis unfolding s'
        by (intro call_ok_calls) (auto simp: call_ok_def duplicate_reply_def)
    qed
  next
    case (Locked e)
    have "call_ok s c' \<and> s' = s \<and> (\<forall>r. rvPC c' = Replying r \<longrightarrow> fst r \<noteq> ''closed'')"
      using step ok Locked by (auto simp: record_vote_def call_ok_def reply_ok_def bare_reply_def split: option.splits)
    then show ?thesis using call_ok_calls by simp
  next
    case (Admitted n a)
    then obtain cfg where cfg: "open_config s (rvPoll ?c) cfg" "sql_normalize cfg (rvChoices ?c) = Some n" "pollStartsAt cfg \<le> a" "a < pollEndsAt cfg"
      and l: "rvLock ?c \<noteq> None" "rvRow ?c = None" using ok by (auto simp: call_ok_def)
    note n = sql_normalize_some [OF cfg(2)]
    have s': "s' = s" using step by (auto simp: record_vote_def Admitted split: if_splits option.splits)
    show ?thesis
    proof (cases "find_vote (rvPoll ?c) (rvToken ?c) (pgVotes s)")
      case None
      have "c' = ?c\<lparr>rvPC := Replying (''accepted'', Some n, Some a),
          rvRow := Some \<lparr>vrPoll = rvPoll ?c, vrToken = rvToken ?c, vrChoices = n, vrAt = a\<rparr>\<rparr>"
        using step by (auto simp: record_vote_def Admitted None split: if_splits)
      moreover have "row_ok s \<lparr>vrPoll = rvPoll ?c, vrToken = rvToken ?c, vrChoices = n, vrAt = a\<rparr>"
        using cfg n by (auto simp: row_ok_def open_config_def)
      ultimately show ?thesis using cfg(1) l n None unfolding s' by (intro call_ok_calls) (auto simp: call_ok_def)
    next
      case (Some row)
      have "c' = ?c\<lparr>rvPC := Lost n\<rparr>" using step by (auto simp: record_vote_def Admitted Some split: if_splits)
      then show ?thesis using l n unfolding s' by (simp add: call_ok_def)
    qed
  next
    case (Lost n)
    then have l: "rvLock ?c \<noteq> None" "rvRow ?c = None" "n = sort (rvChoices ?c)" using ok by (simp_all add: call_ok_def)
    have s': "s' = s" using step by (auto simp: record_vote_def Lost split: option.splits)
    show ?thesis
    proof (cases "find_vote (rvPoll ?c) (rvToken ?c) (pgVotes s)")
      case None
      then show ?thesis using step l by (auto simp: record_vote_def Lost call_ok_def s')
    next
      case (Some row)
      have "c' = ?c\<lparr>rvPC := Replying (duplicate_reply row n)\<rparr>" using step by (auto simp: record_vote_def Lost Some)
      with find_vote_reply [OF Some l(3)] l(2) show ?thesis unfolding s'
        by (intro call_ok_calls) (auto simp: call_ok_def duplicate_reply_def)
    qed
  next
    case (Checked e cfg n)
    then show ?thesis using step ok by (auto simp: record_vote_def call_ok_def open_config_def split: if_splits)
  next
    case (Replying r)
    then show ?thesis using step by (auto simp: record_vote_def call_ok_def)
  next
    case Entered
    then show ?thesis using step ok by (auto simp: record_vote_def call_ok_def reply_ok_def bare_reply_def split: option.splits)
  qed (use step ok in \<open>auto simp: record_vote_def call_ok_def lock_of_def split: if_splits\<close>)
qed

lemma calls_step:
  assumes step: "pg_step h s s'" and inv: "pg_inv h s" "create_inv s" and d: "d \<in> set (pgCalls s')"
  shows "call_ok s' d"
proof -
  have old: "call_ok s' d" if "d \<in> set (pgCalls s)"
    and row: "rvRow d \<noteq> None \<Longrightarrow> find_vote (rvPoll d) (rvToken d) (pgVotes s') = None" for d
    using pg_invD(2) [OF inv(1) that(1)] grows_step [OF step inv] shut_step [OF step inv] pinned_step [OF step inv that(1)] row
    by (rule call_ok_frame)
  have norow: "find_vote (rvPoll d) (rvToken d) (pgVotes s) = None" if "d \<in> set (pgCalls s)" "rvRow d \<noteq> None" for d
    using that row_call [OF pg_invD(2) [OF inv(1) that(1)]] by auto
  have same: "call_ok s' d" if "pgVotes s' = pgVotes s" "d \<in> set (pgCalls s)" for d
    by (rule old [OF that(2)]) (simp add: that(1) norow [OF that(2)])
  from step show ?thesis
  proof (cases rule: pg_step.cases)
    case (start_vote p t choices)
    have "call_ok s' (new_vote_call p t choices)" by (simp add: call_ok_def new_vote_call_def)
    with d same show ?thesis by (auto simp: start_vote)
  next
    case (vote i c u)
    have calls: "pgCalls s' = (pgCalls s)[i := c]" by (simp add: vote(1))
    have new: "call_ok s' c" unfolding vote(1) by (rule moved_call_ok [OF inv(1) vote(2,3)])
    have others: "call_ok s' (pgCalls s ! j)" if j: "j < length (pgCalls s)" "j \<noteq> i" for j
    proof (rule old)
      assume rj: "rvRow (pgCalls s ! j) \<noteq> None"
      have n: "find_vote (rvPoll (pgCalls s ! j)) (rvToken (pgCalls s ! j)) (pgVotes s) = None"
        using norow j(1) rj by simp
      from vote(3) show "find_vote (rvPoll (pgCalls s ! j)) (rvToken (pgCalls s ! j)) (pgVotes s') = None"
      proof (cases rule: record_vote_state)
        case (commit r)
        have "\<not> (vrPoll row = rvPoll (pgCalls s ! j) \<and> vrToken row = rvToken (pgCalls s ! j))"
          if "rvRow (pgCalls s ! i) = Some row" for row
        proof -
          have "pgCalls s ! i \<in> set (pgCalls s)" using vote(2) by simp
          from row_call [OF pg_invD(2) [OF inv(1) this] that]
          have "vrPoll row = rvPoll (pgCalls s ! i)" "vrToken row = rvToken (pgCalls s ! i)" by simp_all
          moreover have "pair_ok h (pgCalls s ! i) (pgCalls s ! j)"
            using pg_invD(1) [OF inv(1)] vote(2) j by (simp add: lock_inv_def pairwise_list_def)
          ultimately show ?thesis using that rj by (auto simp: pair_ok_def)
        qed
        then show ?thesis using n by (cases "rvRow (pgCalls s ! i)") (auto simp: vote(1) commit find_vote_none)
      qed (simp add: vote(1) n)
    qed (use j in simp)
    from update_elem [OF d [unfolded calls]] new others show ?thesis by auto
  next
    case (abort_vote i)
    have "call_ok s' ((pgCalls s ! i)\<lparr>rvPC := Ended, rvLock := None, rvRow := None\<rparr>)" by (simp add: call_ok_def)
    with same d show ?thesis by (auto simp: abort_vote dest!: update_elem)
  next
    case (fin i f u)
    have "pgCalls s' = pgCalls s" "pgVotes s' = pgVotes s" using fin(3) by (cases rule: finalize_poll_state; simp add: fin(1))+
    with same d show ?thesis by simp
  next
    case (create i ids fresh c u)
    have "pgCalls s' = pgCalls s" "pgVotes s' = pgVotes s" using create(4) by (cases rule: create_poll_state; simp add: create(1))+
    with same d show ?thesis by simp
  qed (use same d in simp_all)
qed

section \<open>The moving finalizer\<close>

lemma moved_fin_ok:
  assumes ok: "fin_ok s f" and step: "finalize_poll h f s = Some (f', s')"
  shows "fin_ok (s'\<lparr>pgFins := x\<rparr>) f'"
proof (cases "fpPC f")
  case FLocking
  with step ok show ?thesis
    by (auto simp: finalize_poll_def fin_ok_def open_config_def split: if_splits option.splits)
next
  case (FTallied cfg n counts)
  with step ok show ?thesis
    by (auto simp: finalize_poll_def fin_ok_def open_config_def result_exact_def)
qed (use step ok in \<open>auto simp: finalize_poll_def fin_ok_def open_config_def split: option.splits if_splits\<close>)

lemma fins_step:
  assumes step: "pg_step h s s'" and inv: "pg_inv h s" "create_inv s" and f: "f \<in> set (pgFins s')"
  shows "fin_ok s' f"
proof -
  have old: "fin_ok s' (pgFins s ! j)" if "j < length (pgFins s)" "pgFins s' ! j = pgFins s ! j" for j
  proof (rule fin_ok_frame)
    show "fin_ok s (pgFins s ! j)" by (rule pg_invD(3) [OF inv(1) nth_mem [OF that(1)]])
    assume l: "fpLocks (pgFins s ! j) = 64" and "\<exists>cfg. open_config s (fpPoll (pgFins s ! j)) cfg"
    then obtain cfg where o: "open_config s (fpPoll (pgFins s ! j)) cfg" by blast
    show "pgPolls s' (fpPoll (pgFins s ! j)) = pgPolls s (fpPoll (pgFins s ! j)) \<and>
      poll_votes (fpPoll (pgFins s ! j)) (pgVotes s') = poll_votes (fpPoll (pgFins s ! j)) (pgVotes s)"
      by (rule fin64_step [OF step inv that(1) l o that(2)])
  qed
  have all_old: "fin_ok s' f" if "pgFins s' = pgFins s" "f \<in> set (pgFins s)" for f
    using that old by (metis in_set_conv_nth)
  from step show ?thesis
  proof (cases rule: pg_step.cases)
    case (start_fin p)
    have "fin_ok s' (new_fin_call p)" by (simp add: fin_ok_def new_fin_call_def)
    moreover have "fin_ok s' g" if "g \<in> set (pgFins s)" for g
      using that old by (auto simp: start_fin nth_append in_set_conv_nth)
    ultimately show ?thesis using f by (auto simp: start_fin)
  next
    case (fin i g u)
    have "fin_ok s' g" unfolding fin(1) by (rule moved_fin_ok [OF pg_invD(3) [OF inv(1)] fin(3)]) (use fin(2) in simp)
    moreover have "fin_ok s' (pgFins s ! j)" if "j < length (pgFins s)" "j \<noteq> i" for j
      using that by (intro old) (simp_all add: fin(1))
    ultimately show ?thesis using f by (auto simp: fin(1) dest!: update_elem)
  next
    case (abort_fin i)
    have "fin_ok s' ((pgFins s ! i)\<lparr>fpPC := FEnded, fpLocks := 0\<rparr>)" by (simp add: fin_ok_def)
    moreover have "fin_ok s' (pgFins s ! j)" if "j < length (pgFins s)" "j \<noteq> i" for j
      using that by (intro old) (simp_all add: abort_fin(1))
    ultimately show ?thesis using f by (auto simp: abort_fin(1) dest!: update_elem)
  next
    case (vote i c u)
    have "pgFins s' = pgFins s" using vote(3) by (cases rule: record_vote_state; simp add: vote(1))
    with all_old f show ?thesis by simp
  next
    case (create i ids fresh c u)
    have "pgFins s' = pgFins s" using create(4) by (cases rule: create_poll_state; simp add: create(1))
    with all_old f show ?thesis by simp
  qed (use all_old f in simp_all)
qed

end
