(* ===== verification/Pg_Votes_Reach.thy ===== *)
theory Pg_Votes_Reach
  imports Pg_Votes_Run
begin

text \<open>
  The invariant holds in every reachable state of the interleaved transactions, and what a run
  keeps: the recorded rows, a shut token, a final poll with its result and its votes.
\<close>

section \<open>The invariant of every reachable state\<close>

lemma poll_votes_step:
  assumes step: "pg_step h s s'" and inv: "pg_inv h s" "create_inv s" and fin: "pgPolls s p = Some cfg" "pollFinalizedAt cfg \<noteq> None"
  shows "pgPolls s' p = Some cfg \<and> pgResults s' p = pgResults s p \<and> poll_votes p (pgVotes s') = poll_votes p (pgVotes s)"
proof -
  from grows_step [OF step inv] fin have polls: "pgPolls s' p = Some cfg" unfolding grows_def by blast
  from step show ?thesis
  proof (cases rule: pg_step.cases)
    case (vote i c u)
    have ci: "pgCalls s ! i \<in> set (pgCalls s)" using vote(2) by simp
    from vote(3) show ?thesis
    proof (cases rule: record_vote_state)
      case (commit r)
      have "vrPoll row \<noteq> p" if "rvRow (pgCalls s ! i) = Some row" for row
        using row_call [OF pg_invD(2) [OF inv(1) ci] that] fin by (auto simp: open_config_def)
      then show ?thesis using polls by (cases "rvRow (pgCalls s ! i)") (simp_all add: vote(1) commit poll_votes_def)
    qed (use polls in \<open>simp add: vote(1)\<close>)
  next
    case (fin i f u)
    from fin(3) show ?thesis
    proof (cases rule: finalize_poll_state)
      case (commit row)
      have "fin_ok s (pgFins s ! i)" using pg_invD(3) [OF inv(1)] fin(2) by simp
      then obtain q where "pgPolls s (fpPoll (pgFins s ! i)) = Some q" "pollFinalizedAt q = None"
        using commit(1) by (rule fin_written)
      with assms(4,5) have "fpPoll (pgFins s ! i) \<noteq> p" by auto
      then show ?thesis using polls by (simp add: fin(1) commit)
    qed (use polls in \<open>simp add: fin(1)\<close>)
  next
    case (create i ids fresh c u)
    from create(4) show ?thesis by (cases rule: create_poll_state) (use polls in \<open>simp_all add: create(1)\<close>)
  qed (use polls in simp_all)
qed

lemma votes_step:
  assumes step: "pg_step h s s'" and inv: "pg_inv h s" "create_inv s"
  shows "distinct (map (\<lambda>r. (vrPoll r, vrToken r)) (pgVotes s')) \<and> (\<forall>row \<in> set (pgVotes s'). row_ok s' row)"
proof -
  note g = row_ok_grows [OF grows_step [OF step inv]]
  note old = pg_invD(4,5) [OF inv(1)]
  have same: ?thesis if "pgVotes s' = pgVotes s" using that old g by auto
  from step show ?thesis
  proof (cases rule: pg_step.cases)
    case (vote i c u)
    have ci: "pgCalls s ! i \<in> set (pgCalls s)" using vote(2) by simp
    from vote(3) show ?thesis
    proof (cases rule: record_vote_state)
      case (commit r)
      show ?thesis
      proof (cases "rvRow (pgCalls s ! i)")
        case (Some row)
        note rc = row_call [OF pg_invD(2) [OF inv(1) ci] Some]
        have "(vrPoll row, vrToken row) \<notin> (\<lambda>r. (vrPoll r, vrToken r)) ` set (pgVotes s)"
          using rc by (auto simp: find_vote_none)
        moreover have "pgVotes s' = pgVotes s @ [row]" by (simp add: vote(1) commit Some)
        ultimately show ?thesis using old g rc by auto
      qed (rule same, simp add: vote(1) commit)
    qed (rule same, simp add: vote(1))
  next
    case (fin i f u)
    from fin(3) show ?thesis by (cases rule: finalize_poll_state) (rule same, simp add: fin(1))+
  next
    case (create i ids fresh c u)
    from create(4) show ?thesis by (cases rule: create_poll_state) (rule same, simp add: create(1))+
  qed (rule same, simp)+
qed

lemma final_step:
  assumes step: "pg_step h s s'" and inv: "pg_inv h s" "create_inv s"
  shows "(pgPolls s' p = Some cfg \<longrightarrow> final_ok s' p cfg) \<and> (pgPolls s' p = None \<longrightarrow> pgResults s' p = None)"
proof -
  note ok = pg_invD(6,7) [OF inv(1)]
  have kept: ?thesis if "pgPolls s' p = pgPolls s p" "pgResults s' p = pgResults s p"
  proof (cases "pgPolls s' p")
    case (Some q)
    have q: "pgPolls s p = Some q" using that(1) Some by simp
    note f = ok(1) [OF q]
    have "final_ok s' p q"
    proof (cases "pollFinalizedAt q")
      case None
      from f None show ?thesis by (simp add: final_ok_def that(2))
    next
      case fin: (Some t)
      have "poll_votes p (pgVotes s') = poll_votes p (pgVotes s)"
        using poll_votes_step [OF step inv q] fin by simp
      from f fin result_exact_frame [OF this] show ?thesis by (simp add: final_ok_def that(2))
    qed
    with Some show ?thesis by auto
  qed (use ok(2) that in simp)
  from step show ?thesis
  proof (cases rule: pg_step.cases)
    case (vote i c u)
    from vote(3) show ?thesis by (cases rule: record_vote_state) (rule kept; simp add: vote(1))+
  next
    case (fin i f u)
    let ?f = "pgFins s ! i"
    from fin(3) show ?thesis
    proof (cases rule: finalize_poll_state)
      case local
      then show ?thesis by (intro kept) (simp_all add: fin(1))
    next
      case (commit row)
      have "fin_ok s ?f" using pg_invD(3) [OF inv(1)] fin(2) by simp
      then obtain q where q: "pgPolls s (fpPoll ?f) = Some q" "result_exact s (fpPoll ?f) q row"
        using commit(1) by (rule fin_written)
      show ?thesis
      proof (cases "p = fpPoll ?f")
        case True
        then show ?thesis using q by (auto simp: fin(1) commit final_ok_def result_exact_def)
      next
        case False
        then show ?thesis using q by (intro kept) (simp_all add: fin(1) commit)
      qed
    qed
  next
    case (create i ids fresh c u)
    from create(4) show ?thesis
    proof (cases rule: create_poll_state)
      case local
      then show ?thesis by (intro kept) (simp_all add: create(1))
    next
      case (commit q)
      have q: "pgPolls s (pollID q) = None" "pollFinalizedAt q = None"
        using create_inv_fresh [OF inv(2) _ commit(1)] create(2) by simp_all
      show ?thesis
      proof (cases "p = pollID q")
        case True
        with q ok(2) [OF q(1)] show ?thesis by (auto simp: create(1) commit final_ok_def)
      next
        case False
        then show ?thesis by (intro kept) (simp_all add: create(1) commit)
      qed
    qed
  qed (rule kept; simp)+
qed

lemma replies_step:
  assumes step: "pg_step h s s'" and inv: "pg_inv h s" "create_inv s" and r: "(p, t, cs, r) \<in> set (pgReplies s')"
  shows "reply_ok s' p t cs r"
proof -
  note keep = reply_ok_step [OF step inv]
  have same: ?thesis if "pgReplies s' = pgReplies s" using pg_invD(8) [OF inv(1)] r that keep by auto
  from step show ?thesis
  proof (cases rule: pg_step.cases)
    case (vote i c u)
    have ci: "pgCalls s ! i \<in> set (pgCalls s)" using vote(2) by simp
    note ok = pg_invD(2) [OF inv(1) ci]
    from vote(3) show ?thesis
    proof (cases rule: record_vote_state)
      case (commit rp)
      consider "(p, t, cs, r) \<in> set (pgReplies s)"
        | "p = rvPoll (pgCalls s ! i)" "t = rvToken (pgCalls s ! i)" "cs = rvChoices (pgCalls s ! i)" "r = rp"
        using r by (auto simp: vote(1) commit)
      then show ?thesis
      proof cases
        case 1
        then show ?thesis using pg_invD(8) [OF inv(1)] keep by blast
      next
        case 2
        show ?thesis
        proof (cases "rvRow (pgCalls s ! i)")
          case None
          with ok commit(1) 2 have "reply_ok s p t cs r" by (simp add: call_ok_def)
          then show ?thesis by (rule keep)
        next
          case (Some row)
          note rc = row_call [OF ok Some]
          have "row \<in> set (pgVotes s')" by (simp add: vote(1) commit Some)
          with rc 2 commit(1) show ?thesis by (auto simp: reply_ok_def names_row_def intro!: bexI [of _ row])
        qed
      qed
    qed (rule same, simp add: vote(1))
  next
    case (fin i f u)
    from fin(3) show ?thesis by (cases rule: finalize_poll_state) (rule same, simp add: fin(1))+
  next
    case (create i ids fresh c u)
    from create(4) show ?thesis by (cases rule: create_poll_state) (rule same, simp add: create(1))+
  qed (rule same, simp)+
qed

lemma pg_inv_step:
  assumes "pg_step h s s'" and "pg_inv h s \<and> create_inv s"
  shows "pg_inv h s' \<and> create_inv s'"
proof -
  from assms(2) have inv: "pg_inv h s" "create_inv s" by simp_all
  have "lock_inv h s'" using lock_inv_step assms(1) pg_invD(1) [OF inv(1)] by blast
  with calls_step [OF assms(1) inv] fins_step [OF assms(1) inv] votes_step [OF assms(1) inv] final_step [OF assms(1) inv]
    replies_step [OF assms(1) inv] create_inv_step [OF assms(1) inv(2)]
  show ?thesis unfolding pg_inv_def by blast
qed

interpretation pgv: transition_system pg_initial "pg_step h" "\<lambda>s. pg_inv h s \<and> create_inv s" for h
proof
  show "pg_inv h s \<and> create_inv s" if "pg_initial s" for s
    using that by (simp add: pg_initial_def pg_inv_def create_inv_def lock_inv_def pairwise_list_def)
qed (rule pg_inv_step)

lemma grows_run: "(pg_step h)\<^sup>*\<^sup>* s s' \<Longrightarrow> pg_inv h s \<and> create_inv s \<Longrightarrow> row \<in> set (pgVotes s) \<Longrightarrow> row \<in> set (pgVotes s')"
proof (induction rule: rtranclp_induct)
  case (step s1 s2)
  have "grows s1 s2" using grows_step [OF step(2)] pgv.invariant_run [OF step(1) step.prems(1)] by blast
  then obtain rows where "pgVotes s2 = pgVotes s1 @ rows" unfolding grows_def by blast
  then show ?case using step by simp
qed

lemma shut_run: "(pg_step h)\<^sup>*\<^sup>* s s' \<Longrightarrow> pg_inv h s \<and> create_inv s \<Longrightarrow> shut s p t \<Longrightarrow> shut s' p t"
proof (induction rule: rtranclp_induct)
  case (step s1 s2)
  then show ?case using shut_step [OF step(2)] pgv.invariant_run [OF step(1) step.prems(1)] by blast
qed

lemma final_run:
  "(pg_step h)\<^sup>*\<^sup>* s s' \<Longrightarrow> pg_inv h s \<and> create_inv s \<Longrightarrow> pgPolls s p = Some cfg \<Longrightarrow> pollFinalizedAt cfg \<noteq> None \<Longrightarrow>
     pgPolls s' p = Some cfg \<and> pgResults s' p = pgResults s p \<and> poll_votes p (pgVotes s') = poll_votes p (pgVotes s)"
proof (induction rule: rtranclp_induct)
  case (step s1 s2)
  then show ?case using poll_votes_step [OF step(2)] pgv.invariant_run [OF step(1) step.prems(1)] by metis
qed simp

end
