(* ===== verification/Pg_Votes_Props.thy ===== *)
theory Pg_Votes_Props
  imports Pg_Votes_Reach
begin

text \<open>
  What the database promises in every reachable state of the interleaved transactions: a final
  result counts exactly the recorded votes and never changes, a recorded vote is unique,
  valid and admitted in the window, a reply names the row that stays, \<^verbatim>\<open>closed\<close> is definitive, and
  no two polls overlap.
\<close>

section \<open>A run\<close>

text \<open>One poll, a vote for its second option, the finalization and a vote that comes too late; every text hashes alike.\<close>

definition vote_once :: "(string \<Rightarrow> int) \<Rightarrow> nat \<Rightarrow> pg \<Rightarrow> pg" where
  "vote_once h i s = (case record_vote h (pgCalls s ! i) s of None \<Rightarrow> s | Some (c, s') \<Rightarrow> s'\<lparr>pgCalls := (pgCalls s)[i := c]\<rparr>)"

definition fin_once :: "(string \<Rightarrow> int) \<Rightarrow> nat \<Rightarrow> pg \<Rightarrow> pg" where
  "fin_once h i s = (case finalize_poll h (pgFins s ! i) s of None \<Rightarrow> s | Some (f, s') \<Rightarrow> s'\<lparr>pgFins := (pgFins s)[i := f]\<rparr>)"

lemma vote_once_run: "i < length (pgCalls s) \<Longrightarrow> (pg_step h)\<^sup>*\<^sup>* s (vote_once h i s)"
  by (auto simp: vote_once_def intro: r_into_rtranclp pg_step.vote split: option.splits)

lemma fin_once_run: "i < length (pgFins s) \<Longrightarrow> (pg_step h)\<^sup>*\<^sup>* s (fin_once h i s)"
  by (auto simp: fin_once_def intro: r_into_rtranclp pg_step.fin split: option.splits)

lemma vote_once_calls: "length (pgCalls (vote_once h i s)) = length (pgCalls s)"
  by (auto simp: vote_once_def split: option.splits)

lemma fin_once_fins: "length (pgFins (fin_once h i s)) = length (pgFins s)"
  by (auto simp: fin_once_def split: option.splits)

lemma vote_run: "i < length (pgCalls s) \<Longrightarrow> (pg_step h)\<^sup>*\<^sup>* s ((vote_once h i ^^ n) s)"
proof (induction n)
  case (Suc n)
  have "length (pgCalls ((vote_once h i ^^ n) s)) = length (pgCalls s)" by (induction n) (simp_all add: vote_once_calls)
  with Suc vote_once_run [of i "(vote_once h i ^^ n) s" h] show ?case by (simp add: rtranclp_trans)
qed simp

lemma fin_run: "i < length (pgFins s) \<Longrightarrow> (pg_step h)\<^sup>*\<^sup>* s ((fin_once h i ^^ n) s)"
proof (induction n)
  case (Suc n)
  have "length (pgFins ((fin_once h i ^^ n) s)) = length (pgFins s)" by (induction n) (simp_all add: fin_once_fins)
  with Suc fin_once_run [of i "(fin_once h i ^^ n) s" h] show ?case by (simp add: rtranclp_trans)
qed simp

definition demo_pg :: pg where
  "demo_pg = \<lparr>pgPolls = Map.empty, pgVotes = [], pgResults = Map.empty, pgNow = 0, pgCalls = [], pgFins = [], pgCreates = [], pgReplies = []\<rparr>"

definition demo_pg_input :: create_input where
  "demo_pg_input = \<lparr>inQuestion = [81], inType = ''single'', inOptions = [[65], [66]], inStartsAt = None\<rparr>"

definition demo_pg_poll :: poll where
  "demo_pg_poll = \<lparr>pollID = ''p'', pollQuestion = [81], pollType = ''single'',
     pollOptions = [\<lparr>optID = 1, optLabel = [65]\<rparr>, \<lparr>optID = 2, optLabel = [66]\<rparr>], pollStartsAt = 0, pollEndsAt = minute,
     pollCreatedAt = 0, pollFinalizedAt = None\<rparr>"

definition demo_created :: pg where
  "demo_created = demo_pg\<lparr>pgPolls := [''p'' \<mapsto> demo_pg_poll], pgCreates := [\<lparr>crInput = demo_pg_input, crPC = CEnded\<rparr>]\<rparr>"

text \<open>A creation that nothing disturbs succeeds when the window is free.\<close>

definition created_poll :: "uuid \<Rightarrow> create_input \<Rightarrow> time \<Rightarrow> time \<Rightarrow> poll" where
  "created_poll fresh inp t now = \<lparr>pollID = fresh, pollQuestion = inQuestion inp, pollType = inType inp,
     pollOptions = numbered_options (inOptions inp), pollStartsAt = t, pollEndsAt = t + minute, pollCreatedAt = now, pollFinalizedAt = None\<rparr>"

lemma create_run:
  assumes free: "creation_free s" and ids: "set ids = dom (pgPolls s)" and fresh: "pgPolls s fresh = None"
    and t: "t = (case inStartsAt inp of None \<Rightarrow> pgNow s | Some x \<Rightarrow> micros x)" and window: "\<not> polls_overlap ids t (t + minute) (pgPolls s)"
  shows "(pg_step h)\<^sup>*\<^sup>* s (s\<lparr>pgPolls := (pgPolls s)(fresh \<mapsto> created_poll fresh inp t (pgNow s)),
     pgCreates := pgCreates s @ [\<lparr>crInput = inp, crPC = CEnded\<rparr>]\<rparr>)"
proof -
  let ?c = "\<lambda>pc. \<lparr>crInput = inp, crPC = pc\<rparr>"
  let ?s = "\<lambda>pc. s\<lparr>pgCreates := pgCreates s @ [?c pc]\<rparr>"
  let ?p = "created_poll fresh inp t (pgNow s)"
  have create: "pg_step h (?s pc) (u\<lparr>pgCreates := pgCreates s @ [c]\<rparr>)" if "create_poll fresh ids (?c pc) (?s pc) = Some (c, u)" for pc c u
    using pg_step.create [of "length (pgCreates s)" "?s pc" ids fresh c u h] that ids by simp
  have 1: "pg_step h s (?s CEntered)" using pg_step.start_create [of h s inp] by simp
  have 2: "pg_step h (?s CEntered) (?s CLocked)"
    using create [of CEntered "?c CLocked" "?s CEntered"] free by (simp add: create_poll_def creation_free_def)
  have 3: "pg_step h (?s CLocked) (?s (CStart t))"
    using create [of CLocked "?c (CStart t)" "?s CLocked"] by (simp add: create_poll_def t split: option.splits)
  have 4: "pg_step h (?s (CStart t)) (?s (CFree t))"
    using create [of "CStart t" "?c (CFree t)" "?s (CStart t)"] window by (simp add: create_poll_def)
  have 5: "pg_step h (?s (CFree t)) (?s (CInserted ?p))"
    using create [of "CFree t" "?c (CInserted ?p)" "?s (CFree t)"] fresh by (simp add: create_poll_def created_poll_def)
  have 6: "pg_step h (?s (CInserted ?p)) (s\<lparr>pgPolls := (pgPolls s)(fresh \<mapsto> ?p), pgCreates := pgCreates s @ [?c CEnded]\<rparr>)"
    using create [of "CInserted ?p" "?c CEnded" "(?s (CInserted ?p))\<lparr>pgPolls := (pgPolls s)(fresh \<mapsto> ?p)\<rparr>"]
    by (simp add: create_poll_def created_poll_def)
  from 1 2 3 4 5 6 show ?thesis by (meson converse_rtranclp_into_rtranclp rtranclp.rtrancl_refl)
qed

lemma demo_created_run: "(pg_step h)\<^sup>*\<^sup>* demo_pg demo_created"
  using create_run [of demo_pg "[]" "''p''" 0 demo_pg_input h]
  by (simp add: demo_pg_def demo_created_def creation_free_def polls_overlap_def demo_pg_input_def demo_pg_poll_def created_poll_def
      numbered_options_def)

definition demo_hash :: "string \<Rightarrow> int" where
  "demo_hash text = 0"

definition demo_call :: "vote_pc \<Rightarrow> lock_mode option \<Rightarrow> vote_row option \<Rightarrow> vote_call" where
  "demo_call pc lock row = \<lparr>rvPoll = ''p'', rvToken = ''t'', rvChoices = [2], rvPC = pc, rvLock = lock, rvRow = row\<rparr>"

definition demo_row :: vote_row where
  "demo_row = \<lparr>vrPoll = ''p'', vrToken = ''t'', vrChoices = [2], vrAt = 0\<rparr>"

definition demo_voted :: pg where
  "demo_voted = demo_created\<lparr>pgCalls := [demo_call Ended None None], pgVotes := [demo_row],
     pgReplies := [(''p'', ''t'', [2], ''accepted'', Some [2], Some 0)]\<rparr>"

lemma demo_voted_run: "(pg_step demo_hash)\<^sup>*\<^sup>* demo_created demo_voted"
proof -
  let ?s = "\<lambda>pc lock row. demo_created\<lparr>pgCalls := [demo_call pc lock row]\<rparr>"
  note defs = vote_once_def record_vote_def demo_created_def demo_pg_def demo_call_def demo_pg_poll_def shared_free_def
    vote_holds_def sql_normalize_def find_vote_def demo_row_def
  have "pg_step demo_hash demo_created (?s Entered None None)"
    using pg_step.start_vote [of demo_hash demo_created "''p''" "''t''" "[2]"]
    by (simp add: new_vote_call_def demo_call_def demo_created_def demo_pg_def)
  moreover have "(vote_once demo_hash 0 ^^ 7) (?s Entered None None) = demo_voted"
  proof -
    have "vote_once demo_hash 0 (?s Entered None None) = ?s (Configured demo_pg_poll) None None" by (simp add: defs)
    moreover have "vote_once demo_hash 0 (?s (Configured demo_pg_poll) None None) = ?s (Waiting False) None None" by (simp add: defs)
    moreover have "vote_once demo_hash 0 (?s (Waiting False) None None) = ?s (Locked False) (Some Shared) None" by (simp add: defs)
    moreover have "vote_once demo_hash 0 (?s (Locked False) (Some Shared) None) = ?s (Checked False demo_pg_poll [2]) (Some Shared) None"
      by (simp add: defs)
    moreover have "vote_once demo_hash 0 (?s (Checked False demo_pg_poll [2]) (Some Shared) None) = ?s (Admitted [2] 0) (Some Shared) None"
      by (simp add: defs)
    moreover have "vote_once demo_hash 0 (?s (Admitted [2] 0) (Some Shared) None) =
        ?s (Replying (''accepted'', Some [2], Some 0)) (Some Shared) (Some demo_row)" by (simp add: defs)
    moreover have "vote_once demo_hash 0 (?s (Replying (''accepted'', Some [2], Some 0)) (Some Shared) (Some demo_row)) = demo_voted"
      by (simp add: defs demo_voted_def)
    ultimately show ?thesis by (simp add: eval_nat_numeral)
  qed
  moreover have "(pg_step demo_hash)\<^sup>*\<^sup>* (?s Entered None None) ((vote_once demo_hash 0 ^^ 7) (?s Entered None None))"
    by (rule vote_run) (simp add: demo_call_def)
  ultimately show ?thesis by (metis converse_rtranclp_into_rtranclp)
qed

definition demo_final_poll :: poll where
  "demo_final_poll = demo_pg_poll\<lparr>pollFinalizedAt := Some minute\<rparr>"

definition demo_result :: result_row where
  "demo_result = \<lparr>rrTotal = 1, rrOptions = [(1, [65], 0), (2, [66], 1)], rrAt = minute\<rparr>"

definition demo_ended :: pg where
  "demo_ended = demo_voted\<lparr>pgNow := minute, pgFins := [\<lparr>fpPoll = ''p'', fpPC = FEnded, fpLocks = 0\<rparr>],
     pgPolls := [''p'' \<mapsto> demo_final_poll], pgResults := [''p'' \<mapsto> demo_result]\<rparr>"

lemma demo_ended_run: "(pg_step demo_hash)\<^sup>*\<^sup>* demo_voted demo_ended"
proof -
  let ?t = "demo_voted\<lparr>pgNow := minute\<rparr>"
  let ?s = "\<lambda>pc n. ?t\<lparr>pgFins := [\<lparr>fpPoll = ''p'', fpPC = pc, fpLocks = n\<rparr>]\<rparr>"
  note defs = fin_once_def finalize_poll_def demo_voted_def demo_created_def demo_pg_def demo_call_def demo_pg_poll_def exclusive_free_def
    vote_holds_def fin_holds_def demo_hash_def
  have "pg_step demo_hash demo_voted ?t" using pg_step.tick [of minute demo_hash demo_voted] by (simp add: demo_voted_def demo_created_def demo_pg_def)
  moreover have "pg_step demo_hash ?t (?s FEntered 0)"
    using pg_step.start_fin [of demo_hash ?t "''p''"] by (simp add: new_fin_call_def demo_voted_def demo_created_def demo_pg_def)
  moreover have "(fin_once demo_hash 0 ^^ 70) (?s FEntered 0) = demo_ended"
  proof -
    have enter: "fin_once demo_hash 0 (?s FEntered 0) = ?s FLocking 0" by (simp add: defs)
    have lock: "fin_once demo_hash 0 (?s FLocking k) = ?s FLocking (Suc k)" if "k < 64" for k using that by (simp add: defs)
    have locks: "(fin_once demo_hash 0 ^^ k) (?s FLocking 0) = ?s FLocking k" if "k \<le> 64" for k
      using that by (induction k) (simp_all add: lock)
    have "fin_once demo_hash 0 (?s FLocking 64) = ?s (FConfig demo_pg_poll) 64" by (simp add: defs)
    moreover have "fin_once demo_hash 0 (?s (FConfig demo_pg_poll) 64) = ?s (FCounted demo_pg_poll 1) 64"
      by (simp add: defs poll_votes_def demo_row_def)
    moreover have "fin_once demo_hash 0 (?s (FCounted demo_pg_poll 1) 64) = ?s (FTallied demo_pg_poll 1 [(1, [65], 0), (2, [66], 1)]) 64"
      by (simp add: defs calculate_option_counts_def poll_votes_def demo_row_def choice_tally_def)
    moreover have "fin_once demo_hash 0 (?s (FTallied demo_pg_poll 1 [(1, [65], 0), (2, [66], 1)]) 64) = ?s (FWritten demo_result) 64"
      by (simp add: defs demo_result_def)
    moreover have "fin_once demo_hash 0 (?s (FWritten demo_result) 64) = demo_ended"
      by (simp add: defs demo_ended_def demo_final_poll_def demo_result_def)
    ultimately have "(fin_once demo_hash 0 ^^ 5) (?s FLocking 64) = demo_ended" by (simp add: eval_nat_numeral)
    then have "(fin_once demo_hash 0 ^^ 5) ((fin_once demo_hash 0 ^^ 64) (fin_once demo_hash 0 (?s FEntered 0))) = demo_ended"
      by (simp only: enter locks [OF order_refl])
    moreover have "(fin_once demo_hash 0 ^^ 70) x = (fin_once demo_hash 0 ^^ 5) ((fin_once demo_hash 0 ^^ 64) (fin_once demo_hash 0 x))" for x
      using funpow_add [of 5 65 "fin_once demo_hash 0"] funpow_Suc_right [of 64 "fin_once demo_hash 0"] by simp
    ultimately show ?thesis by simp
  qed
  moreover have "(pg_step demo_hash)\<^sup>*\<^sup>* (?s FEntered 0) ((fin_once demo_hash 0 ^^ 70) (?s FEntered 0))"
    by (rule fin_run) simp
  ultimately show ?thesis by (metis converse_rtranclp_into_rtranclp)
qed

definition demo_late_call :: "vote_pc \<Rightarrow> lock_mode option \<Rightarrow> vote_call" where
  "demo_late_call pc lock = \<lparr>rvPoll = ''p'', rvToken = ''u'', rvChoices = [1], rvPC = pc, rvLock = lock, rvRow = None\<rparr>"

definition demo_late :: pg where
  "demo_late = demo_ended\<lparr>pgCalls := [demo_call Ended None None, demo_late_call Ended None],
     pgReplies := [(''p'', ''t'', [2], ''accepted'', Some [2], Some 0), (''p'', ''u'', [1], ''closed'', None, None)]\<rparr>"

lemma demo_late_run: "(pg_step demo_hash)\<^sup>*\<^sup>* demo_ended demo_late"
proof -
  let ?s = "\<lambda>pc lock. demo_ended\<lparr>pgCalls := [demo_call Ended None None, demo_late_call pc lock]\<rparr>"
  note defs = vote_once_def record_vote_def demo_ended_def demo_voted_def demo_created_def demo_pg_def demo_call_def demo_late_call_def
    demo_final_poll_def demo_pg_poll_def exclusive_free_def vote_holds_def fin_holds_def sql_normalize_def find_vote_def demo_row_def
  have "pg_step demo_hash demo_ended (?s Entered None)"
    using pg_step.start_vote [of demo_hash demo_ended "''p''" "''u''" "[1]"]
    by (simp add: new_vote_call_def demo_late_call_def demo_ended_def demo_voted_def)
  moreover have "(vote_once demo_hash 1 ^^ 7) (?s Entered None) = demo_late"
  proof -
    have "vote_once demo_hash 1 (?s Entered None) = ?s (Configured demo_final_poll) None" by (simp add: defs)
    moreover have "vote_once demo_hash 1 (?s (Configured demo_final_poll) None) = ?s (Waiting True) None" by (simp add: defs)
    moreover have "vote_once demo_hash 1 (?s (Waiting True) None) = ?s (Locked True) (Some Exclusive)"
      by (simp add: defs vote_lock_shard_def demo_hash_def)
    moreover have "vote_once demo_hash 1 (?s (Locked True) (Some Exclusive)) = ?s (Checked True demo_final_poll [1]) (Some Exclusive)"
      by (simp add: defs)
    moreover have "vote_once demo_hash 1 (?s (Checked True demo_final_poll [1]) (Some Exclusive)) =
        ?s (Late True demo_final_poll [1] minute) (Some Exclusive)" by (simp add: defs)
    moreover have "vote_once demo_hash 1 (?s (Late True demo_final_poll [1] minute) (Some Exclusive)) =
        ?s (Replying (''closed'', None, None)) (Some Exclusive)" by (simp add: defs bare_reply_def late_reply_def)
    moreover have "vote_once demo_hash 1 (?s (Replying (''closed'', None, None)) (Some Exclusive)) = demo_late"
      by (simp add: defs demo_late_def)
    ultimately show ?thesis by (simp add: eval_nat_numeral)
  qed
  moreover have "(pg_step demo_hash)\<^sup>*\<^sup>* (?s Entered None) ((vote_once demo_hash 1 ^^ 7) (?s Entered None))"
    by (rule vote_run) simp
  ultimately show ?thesis by (metis converse_rtranclp_into_rtranclp)
qed

lemma demo_initial: "pg_initial demo_pg"
  by (simp add: pg_initial_def demo_pg_def)

lemma demo_reach_ended: "(pg_step demo_hash)\<^sup>*\<^sup>* demo_pg demo_ended"
  using demo_created_run demo_voted_run demo_ended_run by (meson rtranclp_trans)

section \<open>Properties\<close>

text \<open>C3. Once a poll is final, its stored result exists, carries the finalization time, counts the
  votes of the poll and for each option the votes that chose it; in every later state, whatever
  transactions interleave, the poll, its result and its votes are what they were.\<close>

theorem pg_final_exact:
  assumes "pg_initial s0" and "(pg_step h)\<^sup>*\<^sup>* s0 s" and "(pg_step h)\<^sup>*\<^sup>* s s'"
    and "pgPolls s p = Some cfg" and "pollFinalizedAt cfg = Some t"
  shows "\<exists>row. pgResults s p = Some row \<and> rrAt row = t \<and> rrTotal row = length (filter (\<lambda>r. vrPoll r = p) (pgVotes s)) \<and>
      rrOptions row = map (\<lambda>opt. (optID opt, optLabel opt,
        length (filter (\<lambda>ch. ch = optID opt) (concat (map vrChoices (filter (\<lambda>r. vrPoll r = p) (pgVotes s)))))))
        (sort_key optID (pollOptions cfg)) \<and>
      pgPolls s' p = Some cfg \<and> pgResults s' p = Some row \<and>
      filter (\<lambda>r. vrPoll r = p) (pgVotes s') = filter (\<lambda>r. vrPoll r = p) (pgVotes s)"
proof -
  note inv = pgv.invariant_reachable [OF assms(1,2)]
  have "final_ok s p cfg" using pg_invD(6) inv assms(4) by blast
  then obtain row where row: "pgResults s p = Some row" "rrAt row = t" "result_exact s p cfg row"
    using assms(5) by (auto simp: final_ok_def)
  have "pollFinalizedAt cfg \<noteq> None" using assms(5) by simp
  from final_run [OF assms(3) inv assms(4) this] row show ?thesis
    by (intro exI [of _ row]) (simp add: result_exact_def calculate_option_counts_def choice_tally_def poll_votes_def)
qed

lemma pg_final_exact_witness:
  "\<exists>row. pgResults demo_ended ''p'' = Some row \<and> rrAt row = minute \<and> pgResults demo_late ''p'' = Some row"
  using pg_final_exact [OF demo_initial demo_reach_ended demo_late_run, of "''p''" demo_final_poll minute]
  by (auto simp: demo_ended_def demo_final_poll_def)

text \<open>C12. In every reachable state there is one row per poll and token, its choices are valid and
  sorted, its time is inside the window of the poll, and a reply of accepted, duplicate or conflict
  names the recorded choices and time of a row that is there in every later state.\<close>

theorem pg_votes_sound:
  assumes "pg_initial s0" and "(pg_step h)\<^sup>*\<^sup>* s0 s" and "(pg_step h)\<^sup>*\<^sup>* s s'"
  shows "distinct (map (\<lambda>r. (vrPoll r, vrToken r)) (pgVotes s)) \<and>
    (\<forall>row \<in> set (pgVotes s). \<exists>cfg. pgPolls s (vrPoll row) = Some cfg \<and> pollStartsAt cfg \<le> vrAt row \<and>
      vrAt row < pollEndsAt cfg \<and> sql_normalize cfg (vrChoices row) = Some (vrChoices row)) \<and>
    (\<forall>(p, t, cs, status, choices, at) \<in> set (pgReplies s). status \<in> {''accepted'', ''duplicate'', ''conflict''} \<longrightarrow>
      (\<exists>row \<in> set (pgVotes s'). vrPoll row = p \<and> vrToken row = t \<and> choices = Some (vrChoices row) \<and> at = Some (vrAt row) \<and>
        (status = ''conflict'' \<longleftrightarrow> vrChoices row \<noteq> sort cs)))"
proof (intro conjI ballI)
  note inv = pgv.invariant_reachable [OF assms(1,2)]
  note pg = conjunct1 [OF inv]
  show "distinct (map (\<lambda>r. (vrPoll r, vrToken r)) (pgVotes s))" by (rule pg_invD(4) [OF pg])
  show "\<exists>cfg. pgPolls s (vrPoll row) = Some cfg \<and> pollStartsAt cfg \<le> vrAt row \<and>
      vrAt row < pollEndsAt cfg \<and> sql_normalize cfg (vrChoices row) = Some (vrChoices row)" if "row \<in> set (pgVotes s)" for row
    using pg_invD(5) [OF pg that] by (simp add: row_ok_def)
  show "case r of (p, t, cs, status, choices, at) \<Rightarrow> status \<in> {''accepted'', ''duplicate'', ''conflict''} \<longrightarrow>
      (\<exists>row \<in> set (pgVotes s'). vrPoll row = p \<and> vrToken row = t \<and> choices = Some (vrChoices row) \<and> at = Some (vrAt row) \<and>
        (status = ''conflict'' \<longleftrightarrow> vrChoices row \<noteq> sort cs))" if "r \<in> set (pgReplies s)" for r
  proof -
    obtain p t cs status choices at where r: "r = (p, t, cs, status, choices, at)" by (cases r)
    have "reply_ok s p t cs (status, choices, at)" using pg_invD(8) [OF pg] that r by blast
    then have "status \<in> {''accepted'', ''duplicate'', ''conflict''} \<longrightarrow> names_row s p t cs (status, choices, at)"
      unfolding reply_ok_def fst_conv by blast
    moreover have "names_row s' p t cs (status, choices, at)" if "names_row s p t cs (status, choices, at)"
      using that grows_run [OF assms(3) inv] unfolding names_row_def by blast
    ultimately show ?thesis unfolding r prod.case names_row_def fst_conv prod.inject by meson
  qed
qed

lemma pg_votes_sound_witness:
  "\<exists>row \<in> set (pgVotes demo_late). vrPoll row = ''p'' \<and> vrToken row = ''t'' \<and> vrChoices row = [2] \<and> vrAt row = 0"
  using pg_votes_sound [OF demo_initial demo_reach_ended demo_late_run]
  by (auto simp: demo_ended_def demo_voted_def)



text \<open>C33. No two polls of a reachable state overlap in time, and every poll lasts one minute.\<close>

theorem pg_no_overlap:
  assumes "pg_initial s0" and "(pg_step h)\<^sup>*\<^sup>* s0 s" and "pgPolls s i = Some p" and "pgPolls s j = Some q" and "i \<noteq> j"
  shows "pollEndsAt p = pollStartsAt p + minute \<and> (pollEndsAt p \<le> pollStartsAt q \<or> pollEndsAt q \<le> pollStartsAt p)"
proof -
  have inv: "create_inv s" by (rule conjunct2 [OF pgv.invariant_reachable [OF assms(1,2)]])
  then have "\<not> overlapping p q" "pollEndsAt p = pollStartsAt p + minute" using assms(3-) unfolding create_inv_def by blast+
  then show ?thesis by (auto simp: overlapping_def)
qed

definition demo_next_input :: create_input where
  "demo_next_input = demo_pg_input\<lparr>inStartsAt := Some (minute + 7)\<rparr>"

lemma pg_no_overlap_witness:
  "\<exists>s q. (pg_step demo_hash)\<^sup>*\<^sup>* demo_pg s \<and> pgPolls s ''p'' = Some demo_pg_poll \<and> pgPolls s ''q'' = Some q \<and>
     pollEndsAt demo_pg_poll \<le> pollStartsAt q"
proof -
  let ?q = "created_poll ''q'' demo_next_input minute 0"
  let ?s = "demo_created\<lparr>pgPolls := (pgPolls demo_created)(''q'' \<mapsto> ?q),
     pgCreates := pgCreates demo_created @ [\<lparr>crInput = demo_next_input, crPC = CEnded\<rparr>]\<rparr>"
  have "(pg_step demo_hash)\<^sup>*\<^sup>* demo_created ?s"
  proof -
    have polls: "pgPolls demo_created = [''p'' \<mapsto> demo_pg_poll]" and now: "pgNow demo_created = 0"
      by (simp_all add: demo_created_def demo_pg_def)
    have free: "creation_free demo_created" by (simp add: creation_free_def demo_created_def)
    have window: "\<not> polls_overlap [''p''] minute (minute + minute) (pgPolls demo_created)"
      by (simp add: polls_overlap_def polls demo_pg_poll_def)
    have t: "minute = (case inStartsAt demo_next_input of None \<Rightarrow> pgNow demo_created | Some x \<Rightarrow> micros x)"
      by (simp add: demo_next_input_def micros_def)
    have fresh: "pgPolls demo_created ''q'' = None" and ids: "set [''p''] = dom (pgPolls demo_created)" by (simp_all add: polls)
    from create_run [OF free ids fresh t window, of demo_hash] show ?thesis by (simp only: now)
  qed
  then have run: "(pg_step demo_hash)\<^sup>*\<^sup>* demo_pg ?s" using demo_created_run by (rule rtranclp_trans [rotated])
  have at: "pgPolls ?s ''p'' = Some demo_pg_poll" "pgPolls ?s ''q'' = Some ?q" by (simp_all add: demo_created_def)
  have "pollEndsAt demo_pg_poll \<le> pollStartsAt ?q \<or> pollEndsAt ?q \<le> pollStartsAt demo_pg_poll"
    by (rule conjunct2 [OF pg_no_overlap [OF demo_initial run at]]) simp
  then have "pollEndsAt demo_pg_poll \<le> pollStartsAt ?q" by (auto simp: created_poll_def demo_pg_poll_def)
  with run at show ?thesis by blast
qed

end
