(* ===== verification/Bench_Measure.thy ===== *)
theory Bench_Measure
  imports Gq_Prelude "HOL-Library.Signed_Division"
begin

text \<open>
  The measuring parts of the load generators: the histogram and the expected-choice bitmap
  of \<^verbatim>\<open>cmd/corebench/metrics.go\<close>, and the slot arithmetic of \<^verbatim>\<open>cmd/loadtest/scheduler.go\<close>.

  Latencies are 64-bit words in nanoseconds, with their wrap-around; signed 64-bit arithmetic
  is written with \<open>wrap64\<close>. Counters are natural numbers. The means and the conversion of a
  latency to fractions of a second are floating-point texts of the report, and are left out.
\<close>

section \<open>Signed 64-bit arithmetic\<close>

definition wrap64 :: "int \<Rightarrow> int" where
  "wrap64 x = signed_take_bit 63 x"

lemma wrap64_id: "- (2 ^ 63) \<le> x \<Longrightarrow> x < 2 ^ 63 \<Longrightarrow> wrap64 x = x"
  by (simp add: wrap64_def signed_take_bit_int_eq_self)

lemma sdiv_nonneg: "0 \<le> a \<Longrightarrow> 0 < b \<Longrightarrow> a sdiv b = a div b"
  for a b :: int
  by (cases "a = 0") (simp_all add: signed_divide_int_def)

lemma smod_nonneg: "0 \<le> a \<Longrightarrow> 0 < b \<Longrightarrow> a smod b = a mod b"
  for a b :: int
  by (cases "a = 0") (simp_all add: signed_modulo_int_def)

section \<open>The histogram of corebench\<close>

record histogram =
  hgBins :: "nat list"
  hgCount :: nat
  hgMaximum :: u64

definition empty_histogram :: histogram where
  "empty_histogram = \<lparr>hgBins = replicate 1024 0, hgCount = 0, hgMaximum = 0\<rparr>"

definition histogramIndex :: "u64 \<Rightarrow> nat" where
  "histogramIndex ns =
     (let b = len64 ns in
      if b \<le> 4 then unat ns else let shift = b - 5 in shift * 16 + unat (drop_bit shift ns))"

definition histogramUpper :: "nat \<Rightarrow> u64" where
  "histogramUpper index =
     (if index < 16 then of_nat index
      else let shift = (index - 16) div 16; mantissa = 16 + (index - 16) mod 16 in
        push_bit shift (of_nat (mantissa + 1)) - 1)"

definition histogram_add :: "u64 \<Rightarrow> histogram \<Rightarrow> histogram" where
  "histogram_add ns h =
     h\<lparr>hgBins := (hgBins h)[histogramIndex ns := hgBins h ! histogramIndex ns + 1], hgCount := hgCount h + 1,
       hgMaximum := max (hgMaximum h) ns\<rparr>"

definition histogram_merge :: "histogram \<Rightarrow> histogram \<Rightarrow> histogram" where
  "histogram_merge other h =
     \<lparr>hgBins = map2 (+) (hgBins h) (hgBins other), hgCount = hgCount h + hgCount other,
      hgMaximum = max (hgMaximum h) (hgMaximum other)\<rparr>"

text \<open>The first bin at which the running sum reaches the target; its upper edge in nanoseconds.\<close>

fun find_bin :: "nat \<Rightarrow> nat \<Rightarrow> nat \<Rightarrow> nat list \<Rightarrow> nat option" where
  "find_bin i seen target [] = None"
| "find_bin i seen target (n # ns) =
     (if seen + n \<ge> target then Some i else find_bin (i + 1) (seen + n) target ns)"

definition core_percentile :: "nat \<Rightarrow> histogram \<Rightarrow> u64" where
  "core_percentile percent h =
     (case find_bin 0 0 ((hgCount h * percent + 99) div 100) (hgBins h) of None \<Rightarrow> 0 | Some i \<Rightarrow> histogramUpper i)"

record core_latency =
  clSamples :: nat
  clP95 :: u64
  clP99 :: u64
  clMax :: u64

definition core_report :: "histogram \<Rightarrow> core_latency" where
  "core_report h =
     (if hgCount h = 0 then \<lparr>clSamples = 0, clP95 = 0, clP99 = 0, clMax = 0\<rparr>
      else \<lparr>clSamples = hgCount h, clP95 = core_percentile 95 h, clP99 = core_percentile 99 h, clMax = hgMaximum h\<rparr>)"

section \<open>The bitmap of expected choices\<close>

definition setChoice :: "nat \<Rightarrow> u32 \<Rightarrow> byte list \<Rightarrow> byte list" where
  "setChoice key choice bitmap =
     (let shift = key mod 4 * 2 in
      bitmap[key div 4 := (bitmap ! (key div 4) AND NOT (push_bit shift 3)) OR push_bit shift (ucast choice)])"

definition getChoice :: "nat \<Rightarrow> byte list \<Rightarrow> u32" where
  "getChoice key bitmap = ucast (drop_bit (key mod 4 * 2) (bitmap ! (key div 4)) AND 3)"

section \<open>The slots of loadtest\<close>

definition slotsBefore :: "duration \<Rightarrow> int \<Rightarrow> int" where
  "slotsBefore elapsed rate =
     (if elapsed \<le> 0 then 0
      else wrap64 (wrap64 (elapsed sdiv second * rate) +
        wrap64 (wrap64 (elapsed smod second * rate) + second - 1) sdiv second))"

definition slotOffset :: "int \<Rightarrow> int \<Rightarrow> duration" where
  "slotOffset sequence rate =
     wrap64 (wrap64 (sequence sdiv rate * second) + wrap64 (sequence smod rate * second) sdiv rate)"

text \<open>\<^verbatim>\<open>scheduledOffset\<close> of corebench.\<close>

definition scheduledOffset :: "int \<Rightarrow> int \<Rightarrow> duration" where
  "scheduledOffset key rate = wrap64 (key * second) sdiv rate"

section \<open>The shape of the histogram\<close>

lemma len64_zero [simp]: "len64 0 = 0"
  by (simp add: len64_def)

lemma len64_bounds:
  assumes "ns \<noteq> 0"
  shows "len64 ns \<noteq> 0" "len64 ns \<le> 64" "2 ^ (len64 ns - 1) \<le> unat ns" "unat ns < 2 ^ len64 ns"
proof -
  from assms obtain k where k: "bit ns k" by (auto simp: bit_eq_iff)
  then have "k < 64" by (auto dest: bit_imp_le_length)
  with k have "filter (bit ns) (rev [0..<64]) \<noteq> []" by (auto simp: filter_empty_conv)
  then obtain i is' where cons: "filter (bit ns) (rev [0..<64]) = i # is'" by (cases "filter (bit ns) (rev [0..<64])") auto
  then have len: "len64 ns = Suc i" by (simp add: len64_def)
  have "i \<in> set (filter (bit ns) (rev [0..<64]))" by (simp add: cons)
  then have i: "bit ns i" "i < 64" by auto
  have above: "\<not> bit ns j" if "i < j" for j
  proof
    assume "bit ns j"
    moreover from this have "j < 64" by (auto dest: bit_imp_le_length)
    ultimately have "j \<in> set (i # is')" unfolding cons [symmetric] by simp
    moreover have "sorted_wrt (>) (rev [0..<64::nat])" by (simp add: sorted_wrt_rev)
    then have "sorted_wrt (>) (i # is')" unfolding cons [symmetric] by (rule sorted_wrt_filter)
    ultimately show False using that by auto
  qed
  show "len64 ns \<noteq> 0" "len64 ns \<le> 64" using len i by simp_all
  have "take_bit (Suc i) ns = ns"
  proof (rule bit_eqI)
    show "bit (take_bit (Suc i) ns) n \<longleftrightarrow> bit ns n" for n
      by (cases "i < n") (simp_all add: above bit_take_bit_iff)
  qed
  then have "take_bit (Suc i) (unat ns) = unat ns" by (metis unsigned_take_bit_eq)
  then show "unat ns < 2 ^ len64 ns" unfolding len by (simp add: take_bit_nat_eq_self_iff)
  have "bit (unat ns) i" using i by (simp add: bit_unsigned_iff)
  then have "2 ^ i \<le> unat ns" by (metis bit_nat_iff bit_iff_odd div_less even_zero linorder_not_le)
  then show "2 ^ (len64 ns - 1) \<le> unat ns" by (simp add: len)
qed

section \<open>Properties\<close>

lemma histogram_big:
  assumes "4 < len64 ns"
  defines "s \<equiv> len64 ns - 5"
  defines "m \<equiv> unat ns div 2 ^ s"
  shows "histogramIndex ns = s * 16 + m" "16 \<le> m" "m < 32" "s \<le> 59" "unat (histogramUpper (histogramIndex ns)) = (m + 1) * 2 ^ s - 1"
proof -
  have "ns \<noteq> 0" using assms(1) by (metis len64_zero not_less_zero)
  note b = len64_bounds [OF this]
  have len: "len64 ns = s + 5" using assms(1) by (simp add: s_def)
  show idx: "histogramIndex ns = s * 16 + m"
  proof -
    have "unat (drop_bit s ns) = m" by (metis drop_bit_eq_div m_def unat_drop_bit_eq)
    with assms(1) show ?thesis by (simp add: histogramIndex_def s_def Let_def)
  qed
  have "16 * 2 ^ s \<le> unat ns" "unat ns < 32 * 2 ^ s" using b(3,4) by (simp_all add: len power_add)
  then show m: "16 \<le> m" "m < 32"
    by (simp_all add: m_def less_eq_div_iff_mult_less_eq div_less_iff_less_mult)
  show s: "s \<le> 59" using b(2) len by simp
  have parts: "(s * 16 + m - 16) div 16 = s" "(s * 16 + m - 16) mod 16 = m - 16"
  proof -
    have "s * 16 + m - 16 = (m - 16) + s * 16" using m by simp
    then show "(s * 16 + m - 16) div 16 = s" "(s * 16 + m - 16) mod 16 = m - 16" using m by (simp_all only: div_mult_self1 mod_mult_self1) simp_all
  qed
  have "(m + 1) * 2 ^ s \<le> 32 * 2 ^ 59" using m s by (intro mult_mono power_increasing) simp_all
  moreover have pos: "1 \<le> (m + 1) * 2 ^ s" by (simp add: Suc_le_eq)
  ultimately have small: "(m + 1) * 2 ^ s - 1 < 2 ^ 64" by simp
  have "histogramUpper (s * 16 + m) = push_bit s (of_nat (m + 1)) - 1"
    using m by (simp add: histogramUpper_def parts)
  also have "\<dots> = of_nat ((m + 1) * 2 ^ s - 1)"
    using pos by (simp add: push_bit_eq_mult of_nat_diff algebra_simps)
  finally have "histogramUpper (s * 16 + m) = of_nat ((m + 1) * 2 ^ s - 1)" .
  with small show "unat (histogramUpper (histogramIndex ns)) = (m + 1) * 2 ^ s - 1"
    by (simp only: idx) (simp add: unat_of_nat take_bit_nat_eq_self)
qed

text \<open>Every 64-bit latency, up to the largest, has a bin of the histogram, and the upper edge that the report gives
  for the bin is not below the latency, exact below 32 ns and less than one sixteenth too high above.\<close>

theorem corebench_histogram_edges:
  "histogramIndex ns < 1024 \<and> unat ns \<le> unat (histogramUpper (histogramIndex ns)) \<and>
   unat (histogramUpper (histogramIndex ns)) - unat ns \<le> unat ns div 16 \<and>
   (ns < 32 \<longrightarrow> histogramUpper (histogramIndex ns) = ns)"
proof (cases "4 < len64 ns")
  case False
  have "unat ns < 16"
  proof (cases "ns = 0")
    case ne: False
    have "unat ns < 2 ^ len64 ns" by (rule len64_bounds [OF ne])
    also have "(2 :: nat) ^ len64 ns \<le> 2 ^ 4" using False by (intro power_increasing) simp_all
    finally show ?thesis by simp
  qed simp
  with False show ?thesis by (simp add: histogramIndex_def histogramUpper_def)
next
  case True
  define s where "s = len64 ns - 5"
  define m where "m = unat ns div 2 ^ s"
  note h = histogram_big [OF True, folded s_def, folded m_def]
  have n: "unat ns = m * 2 ^ s + unat ns mod 2 ^ s" by (simp only: m_def div_mult_mod_eq)
  have r: "unat ns mod 2 ^ s < 2 ^ s" by simp
  have "16 * 2 ^ s \<le> m * 2 ^ s" using h(2) by simp
  then have "2 ^ s * 16 \<le> unat ns" using n by linarith
  then have "2 ^ s \<le> unat ns div 16" by (simp add: less_eq_div_iff_mult_less_eq)
  moreover have "unat (histogramUpper (histogramIndex ns)) = m * 2 ^ s + (2 ^ s - 1)" by (simp add: h(5))
  moreover have "histogramUpper (histogramIndex ns) = ns" if "ns < 32"
  proof -
    have "unat ns < 32" using that by (simp add: word_less_nat_alt)
    then have "m * 2 ^ s < 32" using n by linarith
    then have "16 * 2 ^ s < (32 :: nat)" using \<open>16 * 2 ^ s \<le> m * 2 ^ s\<close> by linarith
    then have "s = 0" by (cases s) simp_all
    then have "unat (histogramUpper (histogramIndex ns)) = unat ns" using h(5) by (simp add: m_def)
    then show ?thesis by (simp add: word_unat_eq_iff)
  qed
  ultimately show ?thesis using h(1,3,4) n r by linarith
qed

theorem corebench_histogram_edges_witness:
  "unat (histogramUpper (histogramIndex (- 1))) - unat (- 1 :: u64) \<le> unat (- 1 :: u64) div 16 \<and> histogramUpper (histogramIndex 31) = 31"
  using corebench_histogram_edges [of "- 1"] corebench_histogram_edges [of 31] by simp

lemma less_round_up:
  fixes i x y c :: int
  assumes "c * second \<le> y + second - 1" and "y + second - 1 < c * second + second"
  shows "i < x + c \<longleftrightarrow> (i - x) * second < y"
proof
  assume "i < x + c"
  then have "(i - x + 1) * second \<le> c * second" by (intro mult_right_mono) simp_all
  with assms show "(i - x) * second < y" by (simp add: algebra_simps)
next
  assume l: "(i - x) * second < y"
  show "i < x + c"
  proof (rule ccontr)
    assume "\<not> i < x + c"
    then have "c * second \<le> (i - x) * second" by (intro mult_right_mono) simp_all
    with assms l show False by (simp add: algebra_simps)
  qed
qed

text \<open>Within the limits of the configuration nothing overflows: the slots before an instant are exactly the sequence
  numbers whose ideal time, the sequence number divided by the rate, is before it, and the offset of such a slot is that
  time rounded down to nanoseconds, so it is inside the window.\<close>

theorem loadtest_slots_exact:
  assumes "1 \<le> rate" and "rate \<le> 10000000" and "0 < elapsed" and "elapsed \<le> 24 * hour" and "0 \<le> i"
  shows "(i < slotsBefore elapsed rate \<longleftrightarrow> i * second < elapsed * rate) \<and>
    (i < slotsBefore elapsed rate \<longrightarrow> slotOffset i rate = i * second div rate \<and> 0 \<le> slotOffset i rate \<and> slotOffset i rate < elapsed)"
proof -
  define q where "q = elapsed div second"
  define r where "r = elapsed mod second"
  have e: "elapsed = q * second + r" "0 \<le> r" "r < second" by (simp_all add: q_def r_def)
  have q: "0 \<le> q" "q \<le> 86400" using assms(3,4) by (simp_all add: q_def)
  have qr: "0 \<le> q * rate" "q * rate \<le> 86400 * 10000000" using q assms(1,2) mult_mono [of q 86400 rate 10000000] by simp_all
  have rr: "0 \<le> r * rate" "r * rate \<le> second * 10000000" using e assms(1,2) mult_mono [of r second rate 10000000] by simp_all
  have c: "0 \<le> (r * rate + second - 1) div second" "(r * rate + second - 1) div second \<le> 10000001" using rr by simp_all
  have slots: "slotsBefore elapsed rate = q * rate + (r * rate + second - 1) div second"
    using assms(3) qr rr c by (simp add: slotsBefore_def sdiv_nonneg smod_nonneg q_def [symmetric] r_def [symmetric] wrap64_id)
  have "i < slotsBefore elapsed rate \<longleftrightarrow> (i - q * rate) * second < r * rate"
  proof -
    define c where "c = (r * rate + second - 1) div second"
    have "c * second \<le> r * rate + second - 1" "r * rate + second - 1 < c * second + second"
      using mult_div_mod_eq [of second "r * rate + second - 1"] pos_mod_bound [of second "r * rate + second - 1"]
        pos_mod_sign [of second "r * rate + second - 1"] by (simp_all add: c_def)
    then show ?thesis unfolding slots c_def [symmetric] by (rule less_round_up)
  qed
  also have "\<dots> \<longleftrightarrow> i * second < elapsed * rate" by (simp add: e(1) algebra_simps)
  finally have iff: "i < slotsBefore elapsed rate \<longleftrightarrow> i * second < elapsed * rate" .
  moreover have "slotOffset i rate = i * second div rate \<and> 0 \<le> slotOffset i rate \<and> slotOffset i rate < elapsed"
    if "i < slotsBefore elapsed rate"
  proof -
    define a where "a = i div rate"
    define b where "b = i mod rate"
    have i: "i = a * rate + b" "0 \<le> b" "b < rate" using assms(1) by (simp_all add: a_def b_def)
    have a0: "0 \<le> a" using assms(1,5) by (simp add: a_def pos_imp_zdiv_nonneg_iff)
    have bs: "0 \<le> b * second" "b * second < rate * second" using i by simp_all
    have off: "i * second div rate = a * second + b * second div rate"
    proof -
      have "i * second = b * second + rate * (a * second)" by (simp add: i(1) algebra_simps)
      then show ?thesis using assms(1) by simp
    qed
    have lt: "i * second div rate < elapsed" 
    proof -
      have "(i * second div rate) * rate \<le> i * second" using div_mult_mod_eq [of "i * second" rate] pos_mod_sign [of rate "i * second"] assms(1)
        by linarith
      then have "(i * second div rate) * rate < elapsed * rate" using that iff by linarith
      then show ?thesis using assms(1) by (simp add: mult_less_cancel_right)
    qed
    have bd: "0 \<le> b * second div rate" using bs assms(1) by (simp add: pos_imp_zdiv_nonneg_iff)
    have "a * second < elapsed" using lt off bd by linarith
    then have "slotOffset i rate = a * second + b * second div rate"
      using lt off bd bs a0 assms by (simp add: slotOffset_def sdiv_nonneg smod_nonneg a_def [symmetric] b_def [symmetric] wrap64_id)
    with off lt bd a0 show ?thesis by simp
  qed
  ultimately show ?thesis by blast
qed

theorem loadtest_slots_exact_witness:
  "7 < slotsBefore (24 * hour) 10000000 \<and> slotOffset 7 10000000 = 7 * second div 10000000"
  using loadtest_slots_exact [of 10000000 "24 * hour" 7] by simp

end
