(* ===== verification/Corebench.thy ===== *)
theory Corebench
  imports Bench_Measure Votecore
begin

text \<open>
  The load generator of the in-memory core (\<^verbatim>\<open>cmd/corebench\<close>): its configuration, the workers
  that submit every key on schedule and keep the bitmap of expected choices, the report, and
  the reconciliation of a sealed engine with that bitmap.

  AES with the private seed is a parameter, \<open>encrypt\<close>, a permutation of 16-byte blocks. What
  the clock and the context say to a worker is an environment: the instant before a
  submission, whether the context has ended, the instant after it, and whether a wait for a
  group's last slot went through. Counters are natural numbers; the floating-point columns
  and texts of the reports are left out.
\<close>

section \<open>Configuration\<close>

record core_bench =
  cbRate :: int
  cbWorkers :: int
  cbShards :: int
  cbBufferSize :: int
  cbRepeatEvery :: int
  cbAllowLarge :: bool
  cbMaxLag :: duration
  cbCoalesce :: duration

definition core_defaults :: core_bench where
  "core_defaults = \<lparr>cbRate = 100, cbWorkers = 8, cbShards = 256, cbBufferSize = 256, cbRepeatEvery = 0, cbAllowLarge = False,
     cbMaxLag = 20 * millisecond, cbCoalesce = 250 * microsecond\<rparr>"

definition core_keys :: "core_bench \<Rightarrow> int" where
  "core_keys c = cbRate c * 60"

definition core_attempts :: "core_bench \<Rightarrow> int" where
  "core_attempts c = core_keys c + (if cbRepeatEvery c > 0 then core_keys c div cbRepeatEvery c else 0)"

definition core_capacity :: "core_bench \<Rightarrow> int" where
  "core_capacity c = max ((core_keys c * 105 + 99) div 100) (cbShards c * 1024)"

definition sampleEvery :: "core_bench \<Rightarrow> int" where
  "sampleEvery c = (if core_attempts c \<le> 10000 then 1 else 1024)"

definition groupSize :: "core_bench \<Rightarrow> int" where
  "groupSize c = min (cbBufferSize c) (max 1 (cbRate c * cbCoalesce c div second))"

datatype core_bench_error = RateRange | WorkersShards | BufferSize | RepeatAttempts | LagCoalesce | NeedsAllowLarge

definition core_bench_validate :: "core_bench \<Rightarrow> core_bench_error option" where
  "core_bench_validate c =
     (if cbRate c < 1 \<or> cbRate c > 3000000 then Some RateRange
      else if cbWorkers c < 1 \<or> cbWorkers c > 16 \<or> (cbShards c \<noteq> 256 \<and> cbShards c \<noteq> 512) then Some WorkersShards
      else if cbBufferSize c < 4 \<or> cbBufferSize c > 1024 \<or> cbBufferSize c mod 4 \<noteq> 0 then Some BufferSize
      else if cbRepeatEvery c < 0 \<or> core_attempts c > 180000000 then Some RepeatAttempts
      else if cbMaxLag c \<le> 0 \<or> cbMaxLag c > 100 * millisecond \<or> cbCoalesce c < 100 * microsecond \<or> cbCoalesce c > millisecond
        then Some LagCoalesce
      else
        let average = cbRate c + (if cbRepeatEvery c > 0 then (cbRate c + cbRepeatEvery c - 1) div cbRepeatEvery c else 0) in
        if \<not> cbAllowLarge c \<and> (average > 1000 \<or> core_attempts c > 10000) then Some NeedsAllowLarge else None)"

section \<open>Counts\<close>

record bench_counts =
  bcPlanned :: nat
  bcDispatched :: nat
  bcAccepted :: nat
  bcDuplicate :: nat
  bcClosed :: nat
  bcNotOpen :: nat
  bcInvalid :: nat
  bcCapacity :: nat
  bcSkipped :: nat
  bcSkippedLag :: nat
  bcCancelledRemaining :: nat

record second_bucket =
  sbSecond :: nat
  sbPlanned :: nat
  sbDispatched :: nat
  sbSkipped :: nat
  sbAccepted :: nat
  sbDuplicate :: nat
  sbClosed :: nat
  sbActualDispatched :: nat

record worker_stats =
  wsCounts :: bench_counts
  wsBuckets :: "second_bucket list"
  wsSchedule :: histogram
  wsDispatch :: histogram
  wsAcceptedSchedule :: histogram
  wsAcceptedDispatch :: histogram
  wsWrongChoice :: nat
  wsDuplicateAccepted :: nat
  wsUnexpectedPrimary :: nat

definition zero_counts :: bench_counts where
  "zero_counts = \<lparr>bcPlanned = 0, bcDispatched = 0, bcAccepted = 0, bcDuplicate = 0, bcClosed = 0, bcNotOpen = 0, bcInvalid = 0,
     bcCapacity = 0, bcSkipped = 0, bcSkippedLag = 0, bcCancelledRemaining = 0\<rparr>"

definition zero_bucket :: second_bucket where
  "zero_bucket = \<lparr>sbSecond = 0, sbPlanned = 0, sbDispatched = 0, sbSkipped = 0, sbAccepted = 0, sbDuplicate = 0, sbClosed = 0,
     sbActualDispatched = 0\<rparr>"

definition empty_stats :: worker_stats where
  "empty_stats = \<lparr>wsCounts = zero_counts, wsBuckets = replicate 62 zero_bucket, wsSchedule = empty_histogram,
     wsDispatch = empty_histogram, wsAcceptedSchedule = empty_histogram, wsAcceptedDispatch = empty_histogram,
     wsWrongChoice = 0, wsDuplicateAccepted = 0, wsUnexpectedPrimary = 0\<rparr>"

definition bump_bucket :: "nat \<Rightarrow> (second_bucket \<Rightarrow> second_bucket) \<Rightarrow> worker_stats \<Rightarrow> worker_stats" where
  "bump_bucket i f s = s\<lparr>wsBuckets := (wsBuckets s)[i := f (wsBuckets s ! i)]\<rparr>"

section \<open>One attempt\<close>

text \<open>The token of a key: the encrypted counter block.\<close>

definition key_token :: "(byte list \<Rightarrow> byte list) \<Rightarrow> nat \<Rightarrow> byte list" where
  "key_token encrypt key = encrypt (replicate 8 0 @ put_be 8 (of_nat key + 1 :: u64))"

record attempt_env =
  aeBefore :: time
  aeEnded :: bool
  aeComplete :: time

text \<open>The state of a worker: its statistics, the bitmap and the engine it shares with the others.\<close>

record 'e bench_state =
  bsStats :: worker_stats
  bsBitmap :: "byte list"
  bsEngine :: 'e

definition sample_latency :: "time \<Rightarrow> time \<Rightarrow> u64" where
  "sample_latency complete at = word_of_int (max 0 (time_sub complete at))"

text \<open>The switch over the status of the engine's result, with the expected choice of the bitmap.\<close>

definition count_result ::
  "bool \<Rightarrow> nat \<Rightarrow> nat \<Rightarrow> time \<Rightarrow> attempt_env \<Rightarrow> bool \<Rightarrow> vc_input \<Rightarrow> vc_result \<Rightarrow> worker_stats \<times> byte list
     \<Rightarrow> worker_stats \<times> byte list" where
  "count_result sample key sec at env repeat inp result sb =
     (let (s, bitmap) = sb; expected = getChoice key bitmap; n = wsCounts s in
      case resStatus result of
        Accepted \<Rightarrow>
          let s = s\<lparr>wsCounts := n\<lparr>bcAccepted := bcAccepted n + 1\<rparr>\<rparr>;
              s = bump_bucket sec (\<lambda>b. b\<lparr>sbAccepted := sbAccepted b + 1\<rparr>) s;
              s = (if expected \<noteq> 0 then s\<lparr>wsDuplicateAccepted := wsDuplicateAccepted s + 1\<rparr> else s);
              s = (if resChoice result \<noteq> vcChoice inp then s\<lparr>wsWrongChoice := wsWrongChoice s + 1\<rparr> else s);
              s = (if sample then s\<lparr>
                  wsAcceptedSchedule := histogram_add (sample_latency (aeComplete env) at) (wsAcceptedSchedule s),
                  wsAcceptedDispatch := histogram_add (sample_latency (aeComplete env) (aeBefore env)) (wsAcceptedDispatch s)\<rparr>
                else s)
          in (s, setChoice key (vcChoice inp) bitmap)
      | Duplicate \<Rightarrow>
          let s = s\<lparr>wsCounts := n\<lparr>bcDuplicate := bcDuplicate n + 1\<rparr>\<rparr>;
              s = bump_bucket sec (\<lambda>b. b\<lparr>sbDuplicate := sbDuplicate b + 1\<rparr>) s;
              s = (if \<not> repeat \<or> expected = 0 then s\<lparr>wsUnexpectedPrimary := wsUnexpectedPrimary s + 1\<rparr> else s);
              s = (if resChoice result \<noteq> expected then s\<lparr>wsWrongChoice := wsWrongChoice s + 1\<rparr> else s)
          in (s, bitmap)
      | Closed \<Rightarrow>
          (bump_bucket sec (\<lambda>b. b\<lparr>sbClosed := sbClosed b + 1\<rparr>) (s\<lparr>wsCounts := n\<lparr>bcClosed := bcClosed n + 1\<rparr>\<rparr>), bitmap)
      | NotOpen \<Rightarrow> (s\<lparr>wsCounts := n\<lparr>bcNotOpen := bcNotOpen n + 1\<rparr>\<rparr>, bitmap)
      | Invalid \<Rightarrow> (s\<lparr>wsCounts := n\<lparr>bcInvalid := bcInvalid n + 1\<rparr>\<rparr>, bitmap)
      | CapacityExceeded \<Rightarrow> (s\<lparr>wsCounts := n\<lparr>bcCapacity := bcCapacity n + 1\<rparr>\<rparr>, bitmap))"

definition run_attempt ::
  "core_bench \<Rightarrow> time \<Rightarrow> ('e \<Rightarrow> vc_input \<Rightarrow> 'e \<times> vc_result) \<Rightarrow> bool \<Rightarrow> nat \<Rightarrow> attempt_env \<Rightarrow> bool \<Rightarrow> vc_input
     \<Rightarrow> 'e bench_state \<Rightarrow> 'e bench_state" where
  "run_attempt c start submit sample key env repeat inp st =
     (let at = start + scheduledOffset (int key) (cbRate c); s = bsStats st; n = wsCounts s in
      if time_sub (aeBefore env) at > cbMaxLag c then
        st\<lparr>bsStats := s\<lparr>wsCounts := n\<lparr>bcSkippedLag := bcSkippedLag n + 1\<rparr>\<rparr>\<rparr>
      else if aeEnded env then st
      else
        let sec = key div nat (cbRate c);
            actual = nat (min 61 (max 0 (time_sub (aeBefore env) start sdiv second)));
            s = s\<lparr>wsCounts := n\<lparr>bcDispatched := bcDispatched n + 1\<rparr>\<rparr>;
            s = bump_bucket sec (\<lambda>b. b\<lparr>sbDispatched := sbDispatched b + 1\<rparr>) s;
            s = bump_bucket actual (\<lambda>b. b\<lparr>sbActualDispatched := sbActualDispatched b + 1\<rparr>) s;
            (e, result) = submit (bsEngine st) inp;
            s = (if sample then s\<lparr>
                wsSchedule := histogram_add (sample_latency (aeComplete env) at) (wsSchedule s),
                wsDispatch := histogram_add (sample_latency (aeComplete env) (aeBefore env)) (wsDispatch s)\<rparr>
              else s);
            (s, bitmap) = count_result sample key sec at env repeat inp result (s, bsBitmap st)
        in \<lparr>bsStats = s, bsBitmap = bitmap, bsEngine = e\<rparr>)"

section \<open>A worker\<close>

record worker_env =
  weEnded :: "nat \<Rightarrow> bool"
  weWait :: "nat \<Rightarrow> bool"
  weAttempt :: "nat \<Rightarrow> bool \<Rightarrow> attempt_env"

definition worker_key ::
  "core_bench \<Rightarrow> time \<Rightarrow> ('e \<Rightarrow> vc_input \<Rightarrow> 'e \<times> vc_result) \<Rightarrow> (byte list \<Rightarrow> byte list) \<Rightarrow> worker_env \<Rightarrow> nat
     \<Rightarrow> 'e bench_state \<Rightarrow> 'e bench_state" where
  "worker_key c start submit encrypt env key st =
     (let token = key_token encrypt key;
          sample = (ucast (get_be (drop 14 token) :: 16 word) AND word_of_int (sampleEvery c - 1) = (0 :: u64));
          st = run_attempt c start submit sample key (weAttempt env key False) False \<lparr>vcToken = token, vcChoice = 1\<rparr> st in
      if cbRepeatEvery c > 0 \<and> (int key + 1) mod cbRepeatEvery c = 0 then
        run_attempt c start submit sample key (weAttempt env key True) True \<lparr>vcToken = token, vcChoice = 2\<rparr> st
      else st)"

text \<open>The groups of a buffer of \<open>n\<close> keys, and the first keys of the buffers of a worker.\<close>

definition buffer_groups :: "nat \<Rightarrow> nat \<Rightarrow> (nat \<times> nat) list" where
  "buffer_groups g n = map (\<lambda>i. (i * g, min n ((i + 1) * g))) [0..<(n + g - 1) div g]"

definition worker_bases :: "core_bench \<Rightarrow> nat \<Rightarrow> nat list" where
  "worker_bases c worker =
     (let b = nat (cbBufferSize c); w = nat (cbWorkers c); keys = nat (core_keys c) in
      filter (\<lambda>base. base < keys) (map (\<lambda>i. worker * b + i * (w * b)) [0..<keys]))"

fun worker_groups ::
  "core_bench \<Rightarrow> time \<Rightarrow> ('e \<Rightarrow> vc_input \<Rightarrow> 'e \<times> vc_result) \<Rightarrow> (byte list \<Rightarrow> byte list) \<Rightarrow> worker_env \<Rightarrow> nat \<Rightarrow> (nat \<times> nat) list
     \<Rightarrow> 'e bench_state \<Rightarrow> 'e bench_state \<times> bool" where
  "worker_groups c start submit encrypt env base [] st = (st, True)"
| "worker_groups c start submit encrypt env base ((lo, hi) # gs) st =
     (if \<not> weWait env (base + hi - 1) then (st, False)
      else worker_groups c start submit encrypt env base gs
        (foldl (\<lambda>st i. worker_key c start submit encrypt env (base + i) st) st [lo..<hi]))"

fun worker_buffers ::
  "core_bench \<Rightarrow> time \<Rightarrow> ('e \<Rightarrow> vc_input \<Rightarrow> 'e \<times> vc_result) \<Rightarrow> (byte list \<Rightarrow> byte list) \<Rightarrow> worker_env \<Rightarrow> nat list
     \<Rightarrow> 'e bench_state \<Rightarrow> 'e bench_state" where
  "worker_buffers c start submit encrypt env [] st = st"
| "worker_buffers c start submit encrypt env (base # bases) st =
     (if weEnded env base then st
      else
        let n = min (nat (cbBufferSize c)) (nat (core_keys c) - base);
            (st, go) = worker_groups c start submit encrypt env base (buffer_groups (nat (groupSize c)) n) st
        in if go then worker_buffers c start submit encrypt env bases st else st)"

definition runWorker ::
  "core_bench \<Rightarrow> time \<Rightarrow> ('e \<Rightarrow> vc_input \<Rightarrow> 'e \<times> vc_result) \<Rightarrow> (byte list \<Rightarrow> byte list) \<Rightarrow> worker_env \<Rightarrow> nat
     \<Rightarrow> 'e bench_state \<Rightarrow> 'e bench_state" where
  "runWorker c start submit encrypt env worker st =
     worker_buffers c start submit encrypt env (worker_bases c worker) st"

section \<open>The report of a workload\<close>

definition planned_bucket :: "core_bench \<Rightarrow> nat \<Rightarrow> second_bucket" where
  "planned_bucket c i =
     (let lo = int i * cbRate c; hi = lo + cbRate c;
          n = (hi - lo) + (if cbRepeatEvery c > 0 then hi div cbRepeatEvery c - lo div cbRepeatEvery c else 0)
      in zero_bucket\<lparr>sbSecond := i, sbPlanned := if i < 60 then nat n else 0\<rparr>)"

definition add_counts :: "bench_counts \<Rightarrow> bench_counts \<Rightarrow> bench_counts" where
  "add_counts r s =
     r\<lparr>bcDispatched := bcDispatched r + bcDispatched s, bcAccepted := bcAccepted r + bcAccepted s,
       bcDuplicate := bcDuplicate r + bcDuplicate s, bcClosed := bcClosed r + bcClosed s,
       bcNotOpen := bcNotOpen r + bcNotOpen s, bcInvalid := bcInvalid r + bcInvalid s,
       bcCapacity := bcCapacity r + bcCapacity s, bcSkippedLag := bcSkippedLag r + bcSkippedLag s\<rparr>"

definition add_bucket :: "second_bucket \<Rightarrow> second_bucket \<Rightarrow> second_bucket" where
  "add_bucket r b =
     r\<lparr>sbDispatched := sbDispatched r + sbDispatched b, sbAccepted := sbAccepted r + sbAccepted b,
       sbDuplicate := sbDuplicate r + sbDuplicate b, sbClosed := sbClosed r + sbClosed b,
       sbActualDispatched := sbActualDispatched r + sbActualDispatched b\<rparr>"

definition add_stats :: "worker_stats \<Rightarrow> worker_stats \<Rightarrow> worker_stats" where
  "add_stats r s =
     \<lparr>wsCounts = add_counts (wsCounts r) (wsCounts s), wsBuckets = map2 add_bucket (wsBuckets r) (wsBuckets s),
      wsSchedule = histogram_merge (wsSchedule s) (wsSchedule r), wsDispatch = histogram_merge (wsDispatch s) (wsDispatch r),
      wsAcceptedSchedule = histogram_merge (wsAcceptedSchedule s) (wsAcceptedSchedule r),
      wsAcceptedDispatch = histogram_merge (wsAcceptedDispatch s) (wsAcceptedDispatch r),
      wsWrongChoice = wsWrongChoice r + wsWrongChoice s,
      wsDuplicateAccepted = wsDuplicateAccepted r + wsDuplicateAccepted s,
      wsUnexpectedPrimary = wsUnexpectedPrimary r + wsUnexpectedPrimary s\<rparr>"

text \<open>\<^verbatim>\<open>runWorkload\<close> after its workers: the sums, and what they leave of the plan.\<close>

definition workload_report :: "core_bench \<Rightarrow> worker_stats list \<Rightarrow> worker_stats" where
  "workload_report c stats =
     (let r = foldl add_stats (empty_stats\<lparr>wsBuckets := map (planned_bucket c) [0..<62]\<rparr>) stats;
          n = wsCounts r; planned = nat (core_attempts c); skipped = planned - bcDispatched n in
      r\<lparr>wsCounts := n\<lparr>bcPlanned := planned, bcSkipped := skipped, bcCancelledRemaining := skipped - bcSkippedLag n\<rparr>,
        wsBuckets := map (\<lambda>b. if sbSecond b < 60 then b\<lparr>sbSkipped := sbPlanned b - sbDispatched b\<rparr> else b) (wsBuckets r)\<rparr>)"

section \<open>Sealing and reconciling\<close>

text \<open>
  \<^verbatim>\<open>sealAfterDeadline\<close>: each round waits for the end (\<open>False\<close> when the context ends first) and
  seals; a wall clock set back makes the engine refuse, and another round begins.
\<close>

fun sealAfterDeadline :: "(bool \<times> time) list \<Rightarrow> engine \<Rightarrow> engine \<times> snapshot option" where
  "sealAfterDeadline [] e = (e, None)"
| "sealAfterDeadline ((waited, clock) # rounds) e =
     (if \<not> waited then (e, None)
      else case Seal e clock of
        (e, Inl err) \<Rightarrow> sealAfterDeadline rounds e
      | (e, Inr s) \<Rightarrow> (e, Some s))"

definition statusName :: "vc_status \<Rightarrow> string" where
  "statusName s =
     (case s of Accepted \<Rightarrow> ''accepted_volatile'' | Duplicate \<Rightarrow> ''duplicate'' | Closed \<Rightarrow> ''closed'' | NotOpen \<Rightarrow> ''not_open''
      | Invalid \<Rightarrow> ''invalid'' | CapacityExceeded \<Rightarrow> ''capacity_exceeded'')"

record core_audit =
  cuCorrect :: bool
  cuClosed :: bool
  cuAcceptedResponses :: nat
  cuCheckedKeys :: nat
  cuMissing :: nat
  cuWrong :: nat
  cuExpectedCounts :: "nat list"
  cuSnapshotTotal :: nat
  cuSnapshotCounts :: "nat list"

definition empty_core_audit :: core_audit where
  "empty_core_audit = \<lparr>cuCorrect = False, cuClosed = False, cuAcceptedResponses = 0, cuCheckedKeys = 0, cuMissing = 0, cuWrong = 0,
     cuExpectedCounts = replicate 32 0, cuSnapshotTotal = 0, cuSnapshotCounts = replicate 32 0\<rparr>"

definition check_key ::
  "(byte list \<Rightarrow> u32 \<times> bool) \<Rightarrow> (byte list \<Rightarrow> byte list) \<Rightarrow> byte list \<Rightarrow> nat \<Rightarrow> core_audit \<Rightarrow> core_audit" where
  "check_key lookup encrypt bitmap key r =
     (let expected = getChoice key bitmap in
      if expected = 0 then r
      else
        let (choice, exists) = lookup (key_token encrypt key);
            r = r\<lparr>cuCheckedKeys := cuCheckedKeys r + 1\<rparr>;
            r = (if \<not> exists then r\<lparr>cuMissing := cuMissing r + 1\<rparr>
                 else if choice \<noteq> expected then r\<lparr>cuWrong := cuWrong r + 1\<rparr> else r)
        in if expected = 1 then r\<lparr>cuExpectedCounts := (cuExpectedCounts r)[0 := cuExpectedCounts r ! 0 + 1]\<rparr>
           else if expected = 2 then r\<lparr>cuExpectedCounts := (cuExpectedCounts r)[1 := cuExpectedCounts r ! 1 + 1]\<rparr>
           else r\<lparr>cuWrong := cuWrong r + 1\<rparr>)"

text \<open>The buffers of one worker; \<open>ended base\<close> is the context at a buffer.\<close>

fun check_buffers ::
  "core_bench \<Rightarrow> (byte list \<Rightarrow> u32 \<times> bool) \<Rightarrow> (byte list \<Rightarrow> byte list) \<Rightarrow> byte list \<Rightarrow> (nat \<Rightarrow> bool) \<Rightarrow> nat list
     \<Rightarrow> core_audit \<Rightarrow> core_audit" where
  "check_buffers c lookup encrypt bitmap ended [] r = r"
| "check_buffers c lookup encrypt bitmap ended (base # bases) r =
     (if ended base then r
      else check_buffers c lookup encrypt bitmap ended bases
        (fold (check_key lookup encrypt bitmap) [base..<min (nat (core_keys c)) (base + nat (cbBufferSize c))] r))"

definition add_audit :: "core_audit \<Rightarrow> core_audit \<Rightarrow> core_audit" where
  "add_audit r part =
     r\<lparr>cuCheckedKeys := cuCheckedKeys r + cuCheckedKeys part, cuMissing := cuMissing r + cuMissing part,
       cuWrong := cuWrong r + cuWrong part, cuExpectedCounts := map2 (+) (cuExpectedCounts r) (cuExpectedCounts part)\<rparr>"

definition reconcile ::
  "core_bench \<Rightarrow> (byte list \<Rightarrow> byte list) \<Rightarrow> (nat \<Rightarrow> bool) \<Rightarrow> bool \<Rightarrow> byte list \<Rightarrow> nat \<Rightarrow> snapshot \<Rightarrow> (byte list \<Rightarrow> u32 \<times> bool)
     \<Rightarrow> core_audit" where
  "reconcile c encrypt ended cancelled bitmap accepted snap lookup =
     (let parts = map (\<lambda>worker. check_buffers c lookup encrypt bitmap ended (worker_bases c worker) empty_core_audit) [0..<nat (cbWorkers c)];
          r = foldl add_audit (empty_core_audit\<lparr>cuAcceptedResponses := accepted, cuClosed := snClosed snap,
            cuSnapshotTotal := snTotal snap, cuSnapshotCounts := snCounts snap\<rparr>) parts
      in r\<lparr>cuCorrect := \<not> cancelled \<and> cuClosed r \<and> cuMissing r = 0 \<and> cuWrong r = 0 \<and> cuCheckedKeys r = accepted \<and>
           cuSnapshotTotal r = accepted \<and> cuExpectedCounts r = cuSnapshotCounts r\<rparr>)"

section \<open>Artifacts\<close>

datatype guard_error = CannotCreate | CannotInspect | CannotInspectFile | BoundReached | CannotInspectDisk | NotEnoughSpace

text \<open>
  The files of the directory, each with its size when it is a regular file and \<open>None\<close> when it
  cannot be inspected, and the free space.
\<close>

definition artifactGuard :: "bool \<Rightarrow> (bool \<times> int) option list option \<Rightarrow> int option \<Rightarrow> int \<Rightarrow> guard_error option" where
  "artifactGuard made files free expected =
     (if \<not> made then Some CannotCreate
      else case files of
        None \<Rightarrow> Some CannotInspect
      | Some fs \<Rightarrow>
          if None \<in> set fs then Some CannotInspectFile
          else
            let size = sum_list (map (\<lambda>f. case f of Some (True, n) \<Rightarrow> n | _ \<Rightarrow> 0) fs) in
            if int (length fs) + 2 > 64 \<or> size + expected + 65536 > 512 * 2 ^ 20 then Some BoundReached
            else case free of
              None \<Rightarrow> Some CannotInspectDisk
            | Some n \<Rightarrow> if n < expected + 2 * 2 ^ 30 then Some NotEnoughSpace else None)"

end
