(* ===== verification/Logbench_Audit.thy ===== *)
theory Logbench_Audit
  imports Votelog_Audit "HOL-Library.AList"
begin

text \<open>
  The reconciliation of the journal benchmark (\<^verbatim>\<open>cmd/logbench/audit.go\<close>): the private ledger of
  attempts against the audit of the journal. Go maps are association lists with distinct
  keys, in the order they are ranged over; every loop is a fold of its body, in the order of the
  code. Counters are natural numbers, which 12 million attempts do not overflow.
\<close>

section \<open>Attempts and the audited journal\<close>

type_synonym outcome = u8

definition outRecorded :: outcome where "outRecorded = 1"
definition outNotOpen :: outcome where "outNotOpen = 2"
definition outClosed :: outcome where "outClosed = 3"
definition outBusy :: outcome where "outBusy = 4"
definition outRejected :: outcome where "outRejected = 5"
definition outUnknown :: outcome where "outUnknown = 6"
definition outSkipQueue :: outcome where "outSkipQueue = 7"
definition outSkipLag :: outcome where "outSkipLag = 8"
definition outSkipCancelled :: outcome where "outSkipCancelled = 9"

lemmas outcome_defs = outRecorded_def outNotOpen_def outClosed_def outBusy_def outRejected_def outUnknown_def outSkipQueue_def
  outSkipLag_def outSkipCancelled_def

record lb_entry =
  leToken :: "byte list"
  leKey :: u32
  leChoice :: u32
  leOutcome :: outcome
  lePartition :: int
  leOffset :: int
  leAdmittedNS :: int
  leDispatchNS :: int
  leCompleteNS :: int

record lb_header =
  lhVersion :: int
  lhConfig :: vl_config
  lhMode :: string
  lhEntries :: int
  lhKeys :: int
  lhRate :: int
  lhOwnerPID :: int

text \<open>What \<^verbatim>\<open>votelog.Audit\<close> returned, its maps as lists.\<close>

record lb_audited =
  laRecords :: "(vl_position \<times> vl_vote) list"
  laCanonical :: "(byte list \<times> vl_vote) list"
  laTotal :: nat
  laCounts :: "nat list"
  laPartitions :: nat

definition maximumAttempts :: int where
  "maximumAttempts = 12000000"

record expected_key =
  ekLogical :: u32
  ekRemaining :: "nat list"
  ekConfirmed :: bool
  ekUnknown :: bool

section \<open>The ledger\<close>

text \<open>The variables of the first loop; \<open>xsSeen\<close> is the bitmap of the logical keys that have a token.\<close>

record lb_expected =
  xsExpected :: "(byte list \<times> expected_key) list"
  xsSeen :: "byte list"
  xsBound :: nat
  xsInvalid :: nat
  xsConfirmed :: nat
  xsMissing :: nat
  xsWrong :: nat

definition invalid_entry :: "lb_header \<Rightarrow> lb_entry \<Rightarrow> bool" where
  "invalid_entry h e \<longleftrightarrow>
     uint (leKey e) \<ge> lhKeys h \<or> leToken e = zero16 \<or> (leChoice e \<noteq> 1 \<and> leChoice e \<noteq> 2) \<or> leOutcome e > outSkipCancelled"

definition bind_key :: "lb_entry \<Rightarrow> lb_expected \<Rightarrow> lb_expected" where
  "bind_key e s =
     (case map_of (xsExpected s) (leToken e) of
        None \<Rightarrow>
          (let i = unat (leKey e) div 8; flag = push_bit (unat (leKey e) mod 8) 1 in
           if xsSeen s ! i AND flag \<noteq> 0 then s\<lparr>xsInvalid := xsInvalid s + 1\<rparr>
           else s\<lparr>xsSeen := (xsSeen s)[i := xsSeen s ! i OR flag], xsBound := xsBound s + 1\<rparr>)
      | Some key \<Rightarrow> if ekLogical key \<noteq> leKey e then s\<lparr>xsInvalid := xsInvalid s + 1\<rparr> else s)"

definition expected_of :: "lb_entry \<Rightarrow> lb_expected \<Rightarrow> expected_key" where
  "expected_of e s =
     (case map_of (xsExpected s) (leToken e) of
        None \<Rightarrow> \<lparr>ekLogical = leKey e, ekRemaining = [0, 0], ekConfirmed = False, ekUnknown = False\<rparr>
      | Some key \<Rightarrow> key)"

definition may_commit :: "lb_entry \<Rightarrow> bool" where
  "may_commit e \<longleftrightarrow> leOutcome e = outRecorded \<or> leOutcome e = outUnknown"

definition choice_index :: "u32 \<Rightarrow> nat" where
  "choice_index choice = unat choice - 1"

definition count_attempt :: "lb_entry \<Rightarrow> expected_key \<Rightarrow> expected_key" where
  "count_attempt e key =
     key\<lparr>ekRemaining := (if may_commit e \<and> leDispatchNS e > 0
           then (ekRemaining key)[choice_index (leChoice e) := ekRemaining key ! choice_index (leChoice e) + 1] else ekRemaining key),
         ekConfirmed := ekConfirmed key \<or> leOutcome e = outRecorded, ekUnknown := ekUnknown key \<or> leOutcome e = outUnknown\<rparr>"

definition receipt_position :: "lb_entry \<Rightarrow> vl_position" where
  "receipt_position e = \<lparr>lpPartition = lePartition e, lpOffset = leOffset e, lpIndex = 0\<rparr>"

definition receipt_matches :: "lb_entry \<Rightarrow> vl_vote \<Rightarrow> bool" where
  "receipt_matches e v \<longleftrightarrow>
     lvToken v = leToken e \<and> lvChoice v = leChoice e \<and> sint (unixNano (lvAdmittedAt v)) = leAdmittedNS e"

definition check_receipt :: "(vl_position \<times> vl_vote) list \<Rightarrow> lb_entry \<Rightarrow> lb_expected \<Rightarrow> lb_expected" where
  "check_receipt records e s =
     (if leOutcome e \<noteq> outRecorded then s
      else let s = s\<lparr>xsConfirmed := xsConfirmed s + 1\<rparr> in
        case map_of records (receipt_position e) of
          None \<Rightarrow> s\<lparr>xsMissing := xsMissing s + 1\<rparr>
        | Some v \<Rightarrow> if receipt_matches e v then s else s\<lparr>xsWrong := xsWrong s + 1\<rparr>)"

definition entry_step :: "lb_header \<Rightarrow> (vl_position \<times> vl_vote) list \<Rightarrow> lb_expected \<Rightarrow> lb_entry \<Rightarrow> lb_expected" where
  "entry_step h records s e =
     (if invalid_entry h e then s\<lparr>xsInvalid := xsInvalid s + 1\<rparr>
      else let key = count_attempt e (expected_of e s);
        s = bind_key e s;
        s = (if may_commit e \<and> \<not> leDispatchNS e > 0 then s\<lparr>xsInvalid := xsInvalid s + 1\<rparr> else s);
        s = check_receipt records e s
      in s\<lparr>xsExpected := AList.update (leToken e) key (xsExpected s)\<rparr>)"

definition first_loop :: "lb_header \<Rightarrow> (vl_position \<times> vl_vote) list \<Rightarrow> lb_entry list \<Rightarrow> lb_expected" where
  "first_loop h records entries =
     foldl (entry_step h records)
       \<lparr>xsExpected = [], xsSeen = replicate (nat ((lhKeys h + 7) div 8)) 0, xsBound = 0, xsInvalid = 0, xsConfirmed = 0,
        xsMissing = 0, xsWrong = 0\<rparr> entries"

section \<open>The records of the journal\<close>

record lb_records =
  ysExpected :: "(byte list \<times> expected_key) list"
  ysFirst :: "(byte list \<times> vl_position) list"
  ysUnaccounted :: nat
  ysTimes :: nat
  ysSplit :: nat

definition account :: "vl_vote \<Rightarrow> lb_records \<Rightarrow> lb_records" where
  "account v s =
     (case map_of (ysExpected s) (lvToken v) of
        None \<Rightarrow> s\<lparr>ysUnaccounted := ysUnaccounted s + 1\<rparr>
      | Some key \<Rightarrow>
          if (lvChoice v \<noteq> 1 \<and> lvChoice v \<noteq> 2) \<or> ekRemaining key ! choice_index (lvChoice v) = 0
          then s\<lparr>ysUnaccounted := ysUnaccounted s + 1\<rparr>
          else s\<lparr>ysExpected := AList.update (lvToken v)
            (key\<lparr>ekRemaining := (ekRemaining key)[choice_index (lvChoice v) := ekRemaining key ! choice_index (lvChoice v) - 1]\<rparr>)
            (ysExpected s)\<rparr>)"

definition check_time :: "vl_config \<Rightarrow> vl_vote \<Rightarrow> lb_records \<Rightarrow> lb_records" where
  "check_time c v s =
     (if lvAdmittedAt v < lcStartsAt c \<or> \<not> lvAdmittedAt v < lcEndsAt c then s\<lparr>ysTimes := ysTimes s + 1\<rparr> else s)"

definition keep_first :: "vl_position \<Rightarrow> vl_vote \<Rightarrow> lb_records \<Rightarrow> lb_records" where
  "keep_first p v s =
     (case map_of (ysFirst s) (lvToken v) of
        None \<Rightarrow> s\<lparr>ysFirst := AList.update (lvToken v) p (ysFirst s)\<rparr>
      | Some prev \<Rightarrow>
          if lpPartition prev \<noteq> lpPartition p then s\<lparr>ysSplit := ysSplit s + 1\<rparr>
          else if lpOffset p < lpOffset prev then s\<lparr>ysFirst := AList.update (lvToken v) p (ysFirst s)\<rparr>
          else s)"

definition record_step :: "vl_config \<Rightarrow> lb_records \<Rightarrow> vl_position \<times> vl_vote \<Rightarrow> lb_records" where
  "record_step c s pv = (case pv of (p, v) \<Rightarrow> keep_first p v (check_time c v (account v s)))"

definition second_loop :: "vl_config \<Rightarrow> (byte list \<times> expected_key) list \<Rightarrow> (vl_position \<times> vl_vote) list \<Rightarrow> lb_records" where
  "second_loop c expected records =
     foldl (record_step c) \<lparr>ysExpected = expected, ysFirst = [], ysUnaccounted = 0, ysTimes = 0, ysSplit = 0\<rparr> records"

section \<open>The canonical votes\<close>

definition canonical_wrong :: "lb_audited \<Rightarrow> byte list \<times> vl_position \<Rightarrow> bool" where
  "canonical_wrong a tp =
     (case tp of (token, p) \<Rightarrow>
        (case map_of (laCanonical a) token of
           None \<Rightarrow> True
         | Some c \<Rightarrow>
             (let v = the (map_of (laRecords a) p) in
              lvToken c \<noteq> lvToken v \<or> lvChoice c \<noteq> lvChoice v \<or> lvAdmittedAt c \<noteq> lvAdmittedAt v)))"

definition canonical_step :: "lb_audited \<Rightarrow> nat \<times> nat list \<Rightarrow> byte list \<times> vl_position \<Rightarrow> nat \<times> nat list" where
  "canonical_step a s tp =
     (case s of (mismatches, counts) \<Rightarrow>
        (if canonical_wrong a tp then mismatches + 1 else mismatches,
         count_bits (lvChoice (the (map_of (laRecords a) (snd tp)))) counts))"

definition third_loop :: "lb_audited \<Rightarrow> (byte list \<times> vl_position) list \<Rightarrow> nat \<times> nat list" where
  "third_loop a first = foldl (canonical_step a) (0, replicate 32 0) first"

section \<open>The report\<close>

record lb_report =
  lrTotalAttempts :: nat
  lrCanonicalKeys :: nat
  lrChoices :: "nat list"
  lrClosedPartitions :: nat
  lrInvalidFixture :: nat
  lrConfirmedReceipts :: nat
  lrMissing :: nat
  lrWrong :: nat
  lrUnaccounted :: nat
  lrInvalidTimes :: nat
  lrSplitKeys :: nat
  lrCanonicalMismatches :: nat
  lrConfirmedKeys :: nat
  lrUnknownPresent :: nat
  lrNoReceiptPresent :: nat
  lrDuplicates :: nat
  lrPerReceiptCorrect :: bool
  lrCanonicalCorrect :: bool
  lrCorrect :: bool

definition refused_report :: "lb_audited \<Rightarrow> lb_report" where
  "refused_report a = \<lparr>lrTotalAttempts = laTotal a, lrCanonicalKeys = length (laCanonical a), lrChoices = laCounts a,
     lrClosedPartitions = laPartitions a, lrInvalidFixture = 1, lrConfirmedReceipts = 0, lrMissing = 0, lrWrong = 0,
     lrUnaccounted = 0, lrInvalidTimes = 0, lrSplitKeys = 0, lrCanonicalMismatches = 0, lrConfirmedKeys = 0, lrUnknownPresent = 0,
     lrNoReceiptPresent = 0, lrDuplicates = 0, lrPerReceiptCorrect = False, lrCanonicalCorrect = False, lrCorrect = False\<rparr>"

definition lb_reconcile :: "lb_header \<Rightarrow> lb_entry list \<Rightarrow> lb_audited \<Rightarrow> lb_report" where
  "lb_reconcile h entries a =
     (if lhEntries h \<noteq> int (length entries) \<or> lhEntries h < 1 \<or> lhEntries h > maximumAttempts \<or> lhKeys h < 1 \<or> lhKeys h > lhEntries h
      then refused_report a
      else let x = first_loop h (laRecords a) entries;
        invalid = (if int (xsBound x) \<noteq> lhKeys h \<or> int (length (xsExpected x)) \<noteq> lhKeys h then xsInvalid x + 1 else xsInvalid x);
        y = second_loop (lhConfig h) (xsExpected x) (laRecords a);
        (mismatches, counts) = third_loop a (ysFirst y);
        mismatches = (if length (ysFirst y) \<noteq> length (laCanonical a) \<or> counts \<noteq> laCounts a then mismatches + 1 else mismatches);
        present = filter (\<lambda>(token, key). map_of (ysFirst y) token \<noteq> None) (ysExpected y);
        receipts = xsMissing x = 0 \<and> xsWrong x = 0;
        canonical = mismatches = 0 \<and> ysSplit y = 0
      in \<lparr>lrTotalAttempts = laTotal a, lrCanonicalKeys = length (laCanonical a), lrChoices = laCounts a,
           lrClosedPartitions = laPartitions a, lrInvalidFixture = invalid, lrConfirmedReceipts = xsConfirmed x,
           lrMissing = xsMissing x, lrWrong = xsWrong x, lrUnaccounted = ysUnaccounted y, lrInvalidTimes = ysTimes y,
           lrSplitKeys = ysSplit y, lrCanonicalMismatches = mismatches,
           lrConfirmedKeys = length (filter (\<lambda>(token, key). ekConfirmed key) (ysExpected y)),
           lrUnknownPresent = length (filter (\<lambda>(token, key). ekUnknown key) present),
           lrNoReceiptPresent = length (filter (\<lambda>(token, key). \<not> ekConfirmed key) present),
           lrDuplicates = (if laTotal a \<ge> length (ysFirst y) then laTotal a - length (ysFirst y) else 0),
           lrPerReceiptCorrect = receipts, lrCanonicalCorrect = canonical,
           lrCorrect = receipts \<and> canonical \<and> invalid = 0 \<and> ysUnaccounted y = 0 \<and> ysTimes y = 0 \<and>
             length (laRecords a) = laTotal a \<and> int (laPartitions a) = lcPartitions (lhConfig h)\<rparr>)"

end
