(* ===== verification/Logbench_Audit_Props.thy ===== *)
theory Logbench_Audit_Props
  imports Logbench_Audit
begin

text \<open>
  What a reconciliation that reports correct has established: the ledger binds keys and tokens one
  to one, every receipt names a committed record of its attempt, every record is explained by
  an attempt of its own, and the canonical vote of a token is the one at its first offset.
\<close>

section \<open>The ledger loop\<close>

definition explains :: "byte list \<Rightarrow> u32 \<Rightarrow> lb_entry \<Rightarrow> bool" where
  "explains t c e \<longleftrightarrow> leToken e = t \<and> leChoice e = c \<and> may_commit e \<and> leDispatchNS e > 0"

definition attempts_of :: "byte list \<Rightarrow> u32 \<Rightarrow> lb_entry list \<Rightarrow> nat" where
  "attempts_of t c es = length (filter (explains t c) es)"

lemma attempts_snoc: "attempts_of t c (es @ [e]) = attempts_of t c es + of_bool (explains t c e)"
  by (simp add: attempts_of_def)

definition key_bit :: "byte list \<Rightarrow> u32 \<Rightarrow> bool" where
  "key_bit seen k \<longleftrightarrow> bit (seen ! (unat k div 8)) (unat k mod 8)"

lemma key_bit_test: "xs ! (unat k div 8) AND 2 ^ (unat k mod 8) = (0 :: byte) \<longleftrightarrow> \<not> key_bit xs k"
  by (simp add: key_bit_def and_exp_eq_0_iff_not_bit)

lemma key_in_range: "uint k < keys \<Longrightarrow> unat k div 8 < nat ((keys + 7) div 8)"
proof -
  assume "uint k < keys"
  then have "int (unat k) < keys" by simp
  then have "int (unat k div 8) < (keys + 7) div 8" by (simp add: zdiv_int)
  then show ?thesis by linarith
qed

lemma key_bit_set:
  assumes "unat k div 8 < length xs"
  shows "key_bit (xs[unat k div 8 := xs ! (unat k div 8) OR push_bit (unat k mod 8) 1]) k' \<longleftrightarrow> key_bit xs k' \<or> k' = k"
proof -
  have "k' = k \<longleftrightarrow> unat k' div 8 = unat k div 8 \<and> unat k' mod 8 = unat k mod 8"
    by (metis div_mult_mod_eq word_unat_eq_iff)
  moreover have "bit (push_bit (unat k mod 8) 1 :: byte) (unat k' mod 8) \<longleftrightarrow> unat k' mod 8 = unat k mod 8"
    by (auto simp: bit_simps)
  ultimately show ?thesis
    using assms by (cases "unat k' div 8 = unat k div 8") (auto simp: key_bit_def bit_or_iff nth_list_update)
qed

text \<open>A step that finds nothing wrong with the entry.\<close>

lemma bind_key_frame [simp]: "xsExpected (bind_key e s) = xsExpected s" "xsMissing (bind_key e s) = xsMissing s"
  "xsWrong (bind_key e s) = xsWrong s"
  by (auto simp: bind_key_def Let_def split: option.splits)

lemma check_receipt_frame [simp]: "xsExpected (check_receipt r e s) = xsExpected s" "xsInvalid (check_receipt r e s) = xsInvalid s"
  "xsSeen (check_receipt r e s) = xsSeen s" "xsBound (check_receipt r e s) = xsBound s"
  by (auto simp: check_receipt_def Let_def split: option.splits)

lemma bind_key_mono: "xsInvalid s \<le> xsInvalid (bind_key e s)"
  by (auto simp: bind_key_def Let_def split: option.splits)

lemma entry_step_ok:
  assumes "xsInvalid (entry_step h r s e) = 0"
  shows "xsInvalid s = 0" "\<not> invalid_entry h e" "may_commit e \<Longrightarrow> leDispatchNS e > 0" "xsInvalid (bind_key e s) = 0"
    "xsExpected (entry_step h r s e) = AList.update (leToken e) (count_attempt e (expected_of e s)) (xsExpected s)"
    "xsSeen (entry_step h r s e) = xsSeen (bind_key e s)" "xsBound (entry_step h r s e) = xsBound (bind_key e s)"
  using assms bind_key_mono [of s e] by (auto simp: entry_step_def Let_def split: if_splits)

lemma bind_key_ok:
  assumes "xsInvalid (bind_key e s) = 0"
  obtains (new) "map_of (xsExpected s) (leToken e) = None" "\<not> key_bit (xsSeen s) (leKey e)" "xsBound (bind_key e s) = xsBound s + 1"
      "xsSeen (bind_key e s) = (xsSeen s)[unat (leKey e) div 8 := xsSeen s ! (unat (leKey e) div 8) OR push_bit (unat (leKey e) mod 8) 1]"
  | (old) k where "map_of (xsExpected s) (leToken e) = Some k" "ekLogical k = leKey e" "bind_key e s = s"
proof (cases "map_of (xsExpected s) (leToken e)")
  case None
  with assms show ?thesis
    by (intro new) (auto simp: bind_key_def Let_def key_bit_test split: if_splits)
next
  case (Some k)
  with assms show ?thesis
    by (intro old [of k]) (auto simp: bind_key_def split: if_splits)
qed

lemma valid_choice: "\<not> invalid_entry h e \<Longrightarrow> leChoice e = 1 \<or> leChoice e = 2"
  by (auto simp: invalid_entry_def)

definition key_record :: "lb_entry list \<Rightarrow> byte list \<Rightarrow> expected_key \<Rightarrow> bool" where
  "key_record es t k \<longleftrightarrow> (\<forall>e \<in> set es. leToken e = t \<longrightarrow> leKey e = ekLogical k) \<and>
     ekRemaining k = [attempts_of t 1 es, attempts_of t 2 es]"

lemma key_record_other: "key_record es t k \<Longrightarrow> leToken e \<noteq> t \<Longrightarrow> key_record (es @ [e]) t k"
  by (simp add: key_record_def attempts_snoc explains_def)

lemma key_record_count:
  assumes "key_record es (leToken e) k" and "ekLogical k = leKey e" and "leChoice e = 1 \<or> leChoice e = 2" and "may_commit e \<Longrightarrow> leDispatchNS e > 0"
  shows "key_record (es @ [e]) (leToken e) (count_attempt e k)"
  using assms by (auto simp: key_record_def count_attempt_def attempts_snoc explains_def choice_index_def)

lemma key_record_new:
  "leToken e \<notin> leToken ` set es \<Longrightarrow>
     key_record es (leToken e) \<lparr>ekLogical = leKey e, ekRemaining = [0, 0], ekConfirmed = False, ekUnknown = False\<rparr>"
  by (auto simp: key_record_def attempts_of_def explains_def filter_empty_conv image_iff)

definition ledger_inv :: "lb_header \<Rightarrow> lb_entry list \<Rightarrow> lb_expected \<Rightarrow> bool" where
  "ledger_inv h es s \<longleftrightarrow>
     (\<forall>e \<in> set es. \<not> invalid_entry h e) \<and> distinct (map fst (xsExpected s)) \<and> fst ` set (xsExpected s) = leToken ` set es \<and>
     (\<forall>t k. map_of (xsExpected s) t = Some k \<longrightarrow> key_record es t k) \<and>
     length (xsSeen s) = nat ((lhKeys h + 7) div 8) \<and> (\<forall>k. uint k < lhKeys h \<longrightarrow> (key_bit (xsSeen s) k \<longleftrightarrow> k \<in> leKey ` set es)) \<and>
     (\<forall>e \<in> set es. \<forall>e' \<in> set es. leKey e = leKey e' \<longrightarrow> leToken e = leToken e') \<and> xsBound s = length (xsExpected s)"

lemma ledger_invD:
  assumes "ledger_inv h es s"
  shows "e \<in> set es \<Longrightarrow> \<not> invalid_entry h e" "distinct (map fst (xsExpected s))" "fst ` set (xsExpected s) = leToken ` set es"
    "map_of (xsExpected s) t = Some k \<Longrightarrow> key_record es t k" "length (xsSeen s) = nat ((lhKeys h + 7) div 8)"
    "uint x < lhKeys h \<Longrightarrow> key_bit (xsSeen s) x \<longleftrightarrow> x \<in> leKey ` set es"
    "e \<in> set es \<Longrightarrow> e' \<in> set es \<Longrightarrow> leKey e = leKey e' \<Longrightarrow> leToken e = leToken e'" "xsBound s = length (xsExpected s)"
  using assms unfolding ledger_inv_def by blast+

lemma first_loop_snoc: "first_loop h r (es @ [e]) = entry_step h r (first_loop h r es) e"
  by (simp add: first_loop_def)

lemma AList_length_update: "length (AList.update k v xs) = (if k \<in> fst ` set xs then length xs else length xs + 1)"
  by (induction xs) auto

lemma ledger_inv_step:
  assumes inv: "ledger_inv h es s" and ok: "xsInvalid (entry_step h r s e) = 0"
  shows "ledger_inv h (es @ [e]) (entry_step h r s e)"
proof -
  note o = entry_step_ok [OF ok] and i = ledger_invD [OF inv]
  let ?t = "leToken e" and ?k = "leKey e" and ?s = "entry_step h r s e"
  have kl: "uint ?k < lhKeys h" using o(2) by (simp add: invalid_entry_def not_le)
  have in_range: "unat ?k div 8 < length (xsSeen s)" using key_in_range [OF kl] by (simp add: i(5))
  have dom: "map_of (xsExpected s) t = None \<longleftrightarrow> t \<notin> leToken ` set es" for t by (simp add: map_of_eq_None_iff i(3))
  have exp: "map_of (xsExpected ?s) t = (if t = ?t then Some (count_attempt e (expected_of e s)) else map_of (xsExpected s) t)" for t
    by (simp add: o(5) update_conv)
  have valid: "\<forall>x \<in> set (es @ [e]). \<not> invalid_entry h x" using i(1) o(2) by auto
  have keys: "distinct (map fst (xsExpected ?s))" "fst ` set (xsExpected ?s) = leToken ` set (es @ [e])"
    using i(2) by (auto simp: o(5) AList.distinct_update dom_update i(3))
  have "key_record (es @ [e]) ?t (count_attempt e (expected_of e s)) \<and> length (xsSeen ?s) = nat ((lhKeys h + 7) div 8) \<and>
    (\<forall>x. uint x < lhKeys h \<longrightarrow> key_bit (xsSeen ?s) x \<longleftrightarrow> x \<in> leKey ` set (es @ [e])) \<and>
    (\<forall>x \<in> set es. leKey x = ?k \<longrightarrow> leToken x = ?t) \<and> xsBound ?s = length (xsExpected ?s)"
    using o(4)
  proof (cases rule: bind_key_ok)
    case new
    have t: "?t \<notin> leToken ` set es" using new(1) dom [of ?t] by simp
    have k: "?k \<notin> leKey ` set es" using new(2) i(6) [OF kl] by simp
    have "key_record (es @ [e]) ?t (count_attempt e (expected_of e s))"
      using key_record_count [OF key_record_new [OF t] _ valid_choice [OF o(2)] o(3)] by (simp add: expected_of_def new(1))
    moreover have "xsBound ?s = length (xsExpected ?s)" using t by (simp add: o(5,7) new(3) i(3,8) AList_length_update)
    moreover have "key_bit (xsSeen ?s) x \<longleftrightarrow> x \<in> leKey ` set (es @ [e])" if "uint x < lhKeys h" for x
      unfolding o(6) new(4) key_bit_set [OF in_range] using i(6) [OF that] by auto
    moreover have "leToken x = ?t" if "x \<in> set es" "leKey x = ?k" for x
      using k imageI [OF that(1), of leKey] by (simp only: that(2))
    ultimately show ?thesis by (simp add: o(6) new(4) i(5))
  next
    case (old k)
    have t: "?t \<in> leToken ` set es" using old(1) dom [of ?t] by simp
    then obtain e0 where e0: "e0 \<in> set es" "leToken e0 = ?t" by auto
    have k0: "leKey e0 = ?k" using i(4) [OF old(1)] e0 old(2) by (simp add: key_record_def)
    have "key_record (es @ [e]) ?t (count_attempt e (expected_of e s))"
      using key_record_count [OF i(4) [OF old(1)] old(2) valid_choice [OF o(2)] o(3)] by (simp add: expected_of_def old(1))
    moreover have "xsBound ?s = length (xsExpected ?s)" using t by (simp add: o(5,7) old(3) i(3,8) AList_length_update)
    moreover have "?k \<in> leKey ` set es" using imageI [OF e0(1), of leKey] by (simp only: k0)
    moreover have "leToken x = ?t" if "x \<in> set es" "leKey x = ?k" for x
      using i(7) [OF that(1) e0(1)] that(2) k0 e0(2) by simp
    moreover have "key_bit (xsSeen ?s) x \<longleftrightarrow> x \<in> leKey ` set (es @ [e])" if "uint x < lhKeys h" for x
      unfolding o(6) old(3) using i(6) [OF that] \<open>?k \<in> leKey ` set es\<close> by auto
    ultimately show ?thesis by (simp add: o(6) old(3) i(5))
  qed
  note new = conjunct1 [OF this] conjunct1 [OF conjunct2 [OF this]] conjunct1 [OF conjunct2 [OF conjunct2 [OF this]]]
    conjunct1 [OF conjunct2 [OF conjunct2 [OF conjunct2 [OF this]]]] conjunct2 [OF conjunct2 [OF conjunct2 [OF conjunct2 [OF this]]]]
  have "key_record (es @ [e]) t k'" if "map_of (xsExpected ?s) t = Some k'" for t k'
    using that new(1) key_record_other [OF i(4)] by (auto simp: exp split: if_splits)
  moreover have "leToken x = leToken y" if "x \<in> set (es @ [e])" "y \<in> set (es @ [e])" "leKey x = leKey y" for x y
    using that new(4) i(7) [of x y] by auto
  ultimately show ?thesis unfolding ledger_inv_def using valid keys new(2,3,5) by blast
qed

lemma ledger_inv_loop: "xsInvalid (first_loop h r es) = 0 \<Longrightarrow> ledger_inv h es (first_loop h r es)"
proof (induction es rule: rev_induct)
  case Nil
  then show ?case by (simp add: first_loop_def ledger_inv_def key_bit_def key_in_range)
next
  case (snoc e es)
  from snoc.prems have ok: "xsInvalid (entry_step h r (first_loop h r es) e) = 0" by (simp add: first_loop_snoc)
  from ledger_inv_step [OF snoc.IH [OF entry_step_ok(1) [OF ok]] ok] show ?case by (simp add: first_loop_snoc)
qed

text \<open>Every receipt names its record.\<close>

lemma bind_key_confirmed [simp]: "xsConfirmed (bind_key e s) = xsConfirmed s"
  by (auto simp: bind_key_def Let_def split: option.splits)

lemma entry_step_receipts:
  assumes "xsMissing (entry_step h r s e) = 0" and "xsWrong (entry_step h r s e) = 0"
  shows "xsMissing s = 0 \<and> xsWrong s = 0 \<and> (\<not> invalid_entry h e \<longrightarrow> leOutcome e = outRecorded \<longrightarrow>
    (\<exists>v. map_of r (receipt_position e) = Some v \<and> receipt_matches e v))"
  using assms by (auto simp: entry_step_def check_receipt_def Let_def split: if_splits option.splits)

lemma receipts_loop:
  assumes "xsMissing (first_loop h r es) = 0" and "xsWrong (first_loop h r es) = 0" and "e \<in> set es" "\<not> invalid_entry h e" "leOutcome e = outRecorded"
  shows "\<exists>v. map_of r (receipt_position e) = Some v \<and> receipt_matches e v"
  using assms(1-3)
proof (induction es rule: rev_induct)
  case (snoc x es)
  note step = entry_step_receipts [OF snoc.prems(1,2) [unfolded first_loop_snoc]]
  show ?case
  proof (cases "e = x")
    case True
    then show ?thesis using step assms(4,5) by blast
  next
    case False
    then show ?thesis using step snoc.IH snoc.prems(3) by simp
  qed
qed simp

text \<open>Keys and tokens are bound one to one, and every key has an attempt.\<close>

lemma ledger_keys:
  assumes inv: "ledger_inv h es s" and bound: "int (xsBound s) = lhKeys h"
  shows "(\<forall>e \<in> set es. \<forall>e' \<in> set es. leToken e = leToken e' \<longleftrightarrow> leKey e = leKey e') \<and>
    (\<lambda>e. uint (leKey e)) ` set es = {0..<lhKeys h}"
proof -
  note i = ledger_invD [OF inv]
  have same: "leToken e = leToken e' \<longleftrightarrow> leKey e = leKey e'" if "e \<in> set es" "e' \<in> set es" for e e'
  proof
    assume t: "leToken e = leToken e'"
    have "leToken e \<in> fst ` set (xsExpected s)" using that(1) i(3) by simp
    then obtain k where "map_of (xsExpected s) (leToken e) = Some k" by (metis map_of_eq_None_iff not_None_eq)
    from i(4) [OF this] that t show "leKey e = leKey e'" by (simp add: key_record_def)
  qed (rule i(7) [OF that])
  let ?K = "(\<lambda>e. uint (leKey e)) ` set es"
  have "bij_betw (\<lambda>t. uint (leKey (SOME e. e \<in> set es \<and> leToken e = t))) (leToken ` set es) ?K"
  proof (rule bij_betw_imageI)
    have some: "(SOME e. e \<in> set es \<and> leToken e = leToken x) \<in> set es \<and> leToken (SOME e. e \<in> set es \<and> leToken e = leToken x) = leToken x"
      if "x \<in> set es" for x by (rule someI [of _ x]) (use that in simp)
    have key: "leKey (SOME e. e \<in> set es \<and> leToken e = leToken x) = leKey x" if "x \<in> set es" for x
      using same some that by blast
    show "inj_on (\<lambda>t. uint (leKey (SOME e. e \<in> set es \<and> leToken e = t))) (leToken ` set es)"
      by (rule inj_onI) (auto simp: key same dest!: word_uint_eqI)
    show "(\<lambda>t. uint (leKey (SOME e. e \<in> set es \<and> leToken e = t))) ` leToken ` set es = ?K"
      by (auto simp: key image_image)
  qed
  then have "card ?K = card (leToken ` set es)" by (rule bij_betw_same_card [symmetric])
  also have "\<dots> = length (xsExpected s)" using i(2,3) distinct_card [OF i(2)] by simp
  finally have card: "int (card ?K) = lhKeys h" using i(8) bound by simp
  have "?K \<subseteq> {0..<lhKeys h}" using i(1) by (auto simp: invalid_entry_def not_le)
  moreover have "card ?K = card {0..<lhKeys h}" using card by simp
  ultimately have "?K = {0..<lhKeys h}" by (intro card_subset_eq) simp_all
  then show ?thesis using same by blast
qed

section \<open>The loop over the records\<close>

definition records_of :: "byte list \<Rightarrow> u32 \<Rightarrow> (vl_position \<times> vl_vote) list \<Rightarrow> nat" where
  "records_of t c rs = length (filter (\<lambda>(p, v). lvToken v = t \<and> lvChoice v = c) rs)"

lemma records_snoc: "records_of t c (rs @ [(p, v)]) = records_of t c rs + of_bool (lvToken v = t \<and> lvChoice v = c)"
  by (simp add: records_of_def)

lemma second_loop_snoc: "second_loop c ex (rs @ [pv]) = record_step c (second_loop c ex rs) pv"
  by (simp add: second_loop_def)

text \<open>What is left of an expected key once some records were taken from it.\<close>

definition taken :: "(byte list \<times> expected_key) list \<Rightarrow> (vl_position \<times> vl_vote) list \<Rightarrow> (byte list \<times> expected_key) list \<Rightarrow> bool" where
  "taken ex rs ex' \<longleftrightarrow> (\<forall>t. case map_of ex t of
       None \<Rightarrow> map_of ex' t = None
     | Some k \<Rightarrow> \<exists>a b. map_of ex' t = Some (k\<lparr>ekRemaining := [a, b]\<rparr>) \<and> ekRemaining k = [a + records_of t 1 rs, b + records_of t 2 rs])"

lemma account_frame [simp]: "ysFirst (account v s) = ysFirst s" "ysTimes (account v s) = ysTimes s" "ysSplit (account v s) = ysSplit s"
  by (auto simp: account_def split: option.splits)

lemma check_time_frame [simp]: "ysFirst (check_time c v s) = ysFirst s" "ysExpected (check_time c v s) = ysExpected s"
  "ysUnaccounted (check_time c v s) = ysUnaccounted s" "ysSplit (check_time c v s) = ysSplit s"
  by (simp_all add: check_time_def)

lemma keep_first_frame [simp]: "ysExpected (keep_first p v s) = ysExpected s" "ysUnaccounted (keep_first p v s) = ysUnaccounted s"
  "ysTimes (keep_first p v s) = ysTimes s"
  by (auto simp: keep_first_def split: option.splits)

lemma taken_step:
  assumes ex: "taken ex rs (ysExpected s)" and ok: "ysUnaccounted (account v s) = 0"
  shows "ysUnaccounted s = 0 \<and> taken ex (rs @ [(p, v)]) (ysExpected (account v s)) \<and> (lvChoice v = 1 \<or> lvChoice v = 2) \<and>
    map_of ex (lvToken v) \<noteq> None"
proof -
  from ok obtain key where key: "map_of (ysExpected s) (lvToken v) = Some key" and c: "lvChoice v = 1 \<or> lvChoice v = 2"
    and r: "ekRemaining key ! choice_index (lvChoice v) \<noteq> 0" and u: "ysUnaccounted s = 0"
    by (auto simp: account_def split: option.splits if_splits)
  have acc: "ysExpected (account v s) = AList.update (lvToken v)
    (key\<lparr>ekRemaining := (ekRemaining key)[choice_index (lvChoice v) := ekRemaining key ! choice_index (lvChoice v) - 1]\<rparr>) (ysExpected s)"
    using c r by (auto simp: account_def key)
  obtain k where k: "map_of ex (lvToken v) = Some k"
    using ex key unfolding taken_def by (cases "map_of ex (lvToken v)") (auto dest: spec [of _ "lvToken v"])
  obtain a b where ab: "key = k\<lparr>ekRemaining := [a, b]\<rparr>" "ekRemaining k = [a + records_of (lvToken v) 1 rs, b + records_of (lvToken v) 2 rs]"
    using ex key unfolding taken_def by (auto dest!: spec [of _ "lvToken v"] simp: k)
  have "case map_of ex t of None \<Rightarrow> map_of (ysExpected (account v s)) t = None
     | Some k \<Rightarrow> \<exists>a b. map_of (ysExpected (account v s)) t = Some (k\<lparr>ekRemaining := [a, b]\<rparr>) \<and>
         ekRemaining k = [a + records_of t 1 (rs @ [(p, v)]), b + records_of t 2 (rs @ [(p, v)])]" for t
  proof (cases "t = lvToken v")
    case True
    from c show ?thesis
    proof
      assume "lvChoice v = 1"
      then show ?thesis using ab r by (auto simp: True k acc update_conv choice_index_def records_snoc)
    next
      assume "lvChoice v = 2"
      then show ?thesis using ab r by (auto simp: True k acc update_conv choice_index_def records_snoc)
    qed
  next
    case False
    have "case map_of ex t of None \<Rightarrow> map_of (ysExpected s) t = None
     | Some k \<Rightarrow> \<exists>a b. map_of (ysExpected s) t = Some (k\<lparr>ekRemaining := [a, b]\<rparr>) \<and>
         ekRemaining k = [a + records_of t 1 rs, b + records_of t 2 rs]" using ex unfolding taken_def by blast
    with False show ?thesis by (simp add: acc update_conv records_snoc split: option.splits)
  qed
  then show ?thesis using u c k unfolding taken_def by blast
qed

definition first_ok :: "(vl_position \<times> vl_vote) list \<Rightarrow> (byte list \<times> vl_position) list \<Rightarrow> bool" where
  "first_ok rs first \<longleftrightarrow> distinct (map fst first) \<and> fst ` set first = (\<lambda>(p, v). lvToken v) ` set rs \<and>
     (\<forall>t p. map_of first t = Some p \<longrightarrow> (\<exists>v. (p, v) \<in> set rs \<and> lvToken v = t) \<and>
       (\<forall>(p', v') \<in> set rs. lvToken v' = t \<longrightarrow> lpPartition p' = lpPartition p \<and> lpOffset p \<le> lpOffset p'))"

lemma first_ok_step:
  assumes f: "first_ok rs (ysFirst s)" and ok: "ysSplit (keep_first p v s) = 0"
  shows "ysSplit s = 0 \<and> first_ok (rs @ [(p, v)]) (ysFirst (keep_first p v s))"
proof -
  let ?t = "lvToken v"
  have d: "distinct (map fst (ysFirst s))" "fst ` set (ysFirst s) = (\<lambda>(p, v). lvToken v) ` set rs"
    using f by (simp_all add: first_ok_def)
  have old: "(\<exists>v. (q, v) \<in> set rs \<and> lvToken v = t) \<and> (\<forall>(p', v') \<in> set rs. lvToken v' = t \<longrightarrow> lpPartition p' = lpPartition q \<and> lpOffset q \<le> lpOffset p')"
    if "map_of (ysFirst s) t = Some q" for t q
    using f [unfolded first_ok_def, THEN conjunct2, THEN conjunct2, THEN spec, THEN spec, THEN mp, OF that] .
  have new: "first_ok (rs @ [(p, v)]) (AList.update ?t q (ysFirst s))"
    if "\<exists>w. (q, w) \<in> set (rs @ [(p, v)]) \<and> lvToken w = ?t"
      "\<And>p' v'. (p', v') \<in> set rs \<Longrightarrow> lvToken v' = ?t \<Longrightarrow> lpPartition p' = lpPartition q \<and> lpOffset q \<le> lpOffset p'"
      "lpPartition p = lpPartition q \<and> lpOffset q \<le> lpOffset p" for q
    unfolding first_ok_def
  proof (intro conjI allI impI)
    show "fst ` set (AList.update ?t q (ysFirst s)) = (\<lambda>(p, v). lvToken v) ` set (rs @ [(p, v)])" by (simp add: dom_update d(2))
    fix t p1 assume "map_of (AList.update ?t q (ysFirst s)) t = Some p1"
    then have c: "t = ?t \<and> p1 = q \<or> t \<noteq> ?t \<and> map_of (ysFirst s) t = Some p1" by (auto simp: update_conv split: if_splits)
    then show "\<exists>w. (p1, w) \<in> set (rs @ [(p, v)]) \<and> lvToken w = t"
    proof (elim disjE conjE)
      assume m: "map_of (ysFirst s) t = Some p1"
      from conjunct1 [OF old [OF m]] show ?thesis by auto
    qed (use that(1) in simp)
    from c show "\<forall>(p', v') \<in> set (rs @ [(p, v)]). lvToken v' = t \<longrightarrow> lpPartition p' = lpPartition p1 \<and> lpOffset p1 \<le> lpOffset p'"
    proof (elim disjE conjE)
      assume m: "map_of (ysFirst s) t = Some p1" and t: "t \<noteq> ?t"
      from conjunct2 [OF old [OF m]] t show ?thesis by auto
    qed (use that(2,3) in auto)
  qed (use d in \<open>simp add: AList.distinct_update\<close>)
  show ?thesis
  proof (cases "map_of (ysFirst s) ?t")
    case None
    then have "?t \<notin> (\<lambda>(p, v). lvToken v) ` set rs" by (simp add: map_of_eq_None_iff d(2))
    then have "first_ok (rs @ [(p, v)]) (AList.update ?t p (ysFirst s))" by (intro new) force+
    then show ?thesis using ok by (simp add: keep_first_def None)
  next
    case (Some prev)
    with ok have same: "lpPartition prev = lpPartition p" "ysSplit s = 0" by (auto simp: keep_first_def split: if_splits)
    show ?thesis
    proof (cases "lpOffset p < lpOffset prev")
      case True
      have "first_ok (rs @ [(p, v)]) (AList.update ?t p (ysFirst s))"
        using old [OF Some] True same by (intro new) force+
      then show ?thesis using True same by (simp add: keep_first_def Some)
    next
      case False
      have "AList.update ?t prev (ysFirst s) = ysFirst s" using Some by (rule update_triv)
      moreover have "first_ok (rs @ [(p, v)]) (AList.update ?t prev (ysFirst s))"
        using old [OF Some] False same by (intro new) force+
      ultimately show ?thesis using False same by (simp add: keep_first_def Some)
    qed
  qed
qed

lemma taken_start:
  assumes "\<And>t k. map_of ex t = Some k \<Longrightarrow> length (ekRemaining k) = 2"
  shows "taken ex [] ex"
  unfolding taken_def
proof
  fix t
  show "case map_of ex t of None \<Rightarrow> map_of ex t = None
     | Some k \<Rightarrow> \<exists>a b. map_of ex t = Some (k\<lparr>ekRemaining := [a, b]\<rparr>) \<and> ekRemaining k = [a + records_of t 1 [], b + records_of t 2 []]"
  proof (cases "map_of ex t")
    case (Some k)
    obtain a b where "ekRemaining k = [a, b]" using assms [OF Some] by (auto simp: numeral_2_eq_2 length_Suc_conv)
    then show ?thesis by (cases k) (auto simp: Some records_of_def)
  qed simp
qed

lemma second_loop_accounts:
  assumes "\<And>t k. map_of ex t = Some k \<Longrightarrow> length (ekRemaining k) = 2" and "ysUnaccounted (second_loop c ex rs) = 0"
  shows "taken ex rs (ysExpected (second_loop c ex rs)) \<and>
    (\<forall>(p, v) \<in> set rs. (lvChoice v = 1 \<or> lvChoice v = 2) \<and> map_of ex (lvToken v) \<noteq> None)"
  using assms(2)
proof (induction rs rule: rev_induct)
  case Nil
  show ?case using taken_start [OF assms(1)] by (simp add: second_loop_def)
next
  case (snoc pv rs)
  obtain p v where pv: "pv = (p, v)" by (cases pv)
  let ?s = "second_loop c ex rs"
  have s': "second_loop c ex (rs @ [(p, v)]) = keep_first p v (check_time c v (account v ?s))"
    by (simp add: second_loop_snoc record_step_def)
  have acc: "ysUnaccounted (account v ?s) = 0" using snoc.prems by (simp add: pv s')
  then have "ysUnaccounted ?s = 0" by (auto simp: account_def split: option.splits if_splits)
  note ih = snoc.IH [OF this]
  from taken_step [OF conjunct1 [OF ih] acc, of p] conjunct2 [OF ih] show ?case by (auto simp: pv s')
qed

lemma second_loop_times:
  assumes "ysTimes (second_loop c ex rs) = 0" and "(p, v) \<in> set rs"
  shows "lcStartsAt c \<le> lvAdmittedAt v \<and> lvAdmittedAt v < lcEndsAt c"
  using assms
proof (induction rs rule: rev_induct)
  case (snoc pv rs)
  obtain q w where pv: "pv = (q, w)" by (cases pv)
  have "ysTimes (second_loop c ex rs) = 0 \<and> lcStartsAt c \<le> lvAdmittedAt w \<and> lvAdmittedAt w < lcEndsAt c"
    using snoc.prems(1) by (auto simp: second_loop_snoc record_step_def pv check_time_def split: if_splits)
  with snoc.IH snoc.prems(2) show ?case by (auto simp: pv)
qed simp

lemma second_loop_first: "ysSplit (second_loop c ex rs) = 0 \<Longrightarrow> first_ok rs (ysFirst (second_loop c ex rs))"
proof (induction rs rule: rev_induct)
  case (snoc pv rs)
  obtain p v where pv: "pv = (p, v)" by (cases pv)
  let ?s = "second_loop c ex rs"
  have s': "second_loop c ex (rs @ [(p, v)]) = keep_first p v (check_time c v (account v ?s))"
    by (simp add: second_loop_snoc record_step_def)
  then have ok: "ysSplit (keep_first p v (check_time c v (account v ?s))) = 0" using snoc.prems by (simp add: pv)
  have "ysSplit ?s = 0" using ok by (auto simp: keep_first_def split: option.splits if_splits)
  then have "first_ok rs (ysFirst (check_time c v (account v ?s)))" using snoc.IH by simp
  from first_ok_step [OF this ok] show ?case by (simp add: pv s')
qed (simp add: second_loop_def first_ok_def)

section \<open>The canonical votes\<close>

lemma third_loop_snoc: "third_loop a (first @ [tp]) = canonical_step a (third_loop a first) tp"
  by (simp add: third_loop_def)

lemma third_loop_counts:
  "length (snd (third_loop a first)) = 32 \<and>
     (\<forall>i < 32. snd (third_loop a first) ! i =
        length (filter (\<lambda>tp. bit (lvChoice (the (map_of (laRecords a) (snd tp)))) i) first))"
proof (induction first rule: rev_induct)
  case (snoc tp first)
  then show ?case
    by (cases "third_loop a first") (auto simp: third_loop_snoc canonical_step_def count_bits_def)
qed (simp add: third_loop_def)

lemma third_loop_canonical: "fst (third_loop a first) = 0 \<Longrightarrow> tp \<in> set first \<Longrightarrow> \<not> canonical_wrong a tp"
proof (induction first rule: rev_induct)
  case (snoc x first)
  then show ?case
    by (cases "third_loop a first") (auto simp: third_loop_snoc canonical_step_def split: if_splits)
qed simp

lemma tokens_of_first:
  assumes "first_ok rs first" and "distinct (map fst rs)"
  shows "length first = card (lvToken ` snd ` set rs) \<and>
    (\<forall>t \<in> lvToken ` snd ` set rs. \<exists>p v. (t, p) \<in> set first \<and> map_of rs p = Some v \<and> lvToken v = t \<and>
       (\<forall>(q, w) \<in> set rs. lvToken w = t \<longrightarrow> lpPartition q = lpPartition p \<and> lpOffset p \<le> lpOffset q))"
proof (intro conjI ballI)
  have tok: "fst ` set first = lvToken ` snd ` set rs" 
    using conjunct1 [OF conjunct2 [OF assms(1) [unfolded first_ok_def]]] by (simp only: image_image split_def)
  moreover have "card (fst ` set first) = length first"
    using distinct_card [OF conjunct1 [OF assms(1) [unfolded first_ok_def]]] by simp
  ultimately show "length first = card (lvToken ` snd ` set rs)" by simp
  fix t assume "t \<in> lvToken ` snd ` set rs"
  then have "t \<in> fst ` set first" by (simp add: tok)
  then obtain p where p: "map_of first t = Some p" by (metis map_of_eq_None_iff not_None_eq)
  note f = assms(1) [unfolded first_ok_def, THEN conjunct2, THEN conjunct2, THEN spec, THEN spec, THEN mp, OF p]
  from conjunct1 [OF f] obtain v where v: "(p, v) \<in> set rs" "lvToken v = t" by (elim exE conjE)
  show "\<exists>p v. (t, p) \<in> set first \<and> map_of rs p = Some v \<and> lvToken v = t \<and>
       (\<forall>(q, w) \<in> set rs. lvToken w = t \<longrightarrow> lpPartition q = lpPartition p \<and> lpOffset p \<le> lpOffset q)"
    by (intro exI [of _ p] exI [of _ v] conjI map_of_SomeD [OF p] map_of_is_SomeI [OF assms(2) v(1)] v(2) conjunct2 [OF f])
qed

lemma correct_parts:
  assumes "lrCorrect (lb_reconcile h entries a)"
  obtains x y where "x = first_loop h (laRecords a) entries" "y = second_loop (lhConfig h) (xsExpected x) (laRecords a)"
    "xsInvalid x = 0" "int (xsBound x) = lhKeys h" "xsMissing x = 0" "xsWrong x = 0" "ysUnaccounted y = 0" "ysTimes y = 0" "ysSplit y = 0"
    "fst (third_loop a (ysFirst y)) = 0" "snd (third_loop a (ysFirst y)) = laCounts a" "length (ysFirst y) = length (laCanonical a)"
    "length (laRecords a) = laTotal a" "int (laPartitions a) = lcPartitions (lhConfig h)"
proof -
  let ?x = "first_loop h (laRecords a) entries"
  let ?y = "second_loop (lhConfig h) (xsExpected ?x) (laRecords a)"
  show ?thesis
    by (rule that [of ?x ?y])
      (use assms in \<open>auto simp: lb_reconcile_def refused_report_def Let_def split: if_splits prod.splits\<close>)
qed

section \<open>What a correct reconciliation means\<close>

lemma explains_abs: "explains t c = (\<lambda>e. leToken e = t \<and> leChoice e = c \<and> (leOutcome e = outRecorded \<or> leOutcome e = outUnknown) \<and> leDispatchNS e > 0)"
  by (simp add: fun_eq_iff explains_def may_commit_def)

text \<open>No more records of a token and choice than attempts.\<close>

lemma records_le_attempts:
  assumes inv: "ledger_inv h es x" and taken: "taken (xsExpected x) rs ex"
    and known: "\<forall>(p, v) \<in> set rs. (lvChoice v = 1 \<or> lvChoice v = 2) \<and> map_of (xsExpected x) (lvToken v) \<noteq> None"
  shows "records_of t c rs \<le> attempts_of t c es"
proof (cases "(c = 1 \<or> c = 2) \<and> map_of (xsExpected x) t \<noteq> None")
  case True
  then obtain k where k: "map_of (xsExpected x) t = Some k" by auto
  from taken [unfolded taken_def, THEN spec, of t] obtain a b where "ekRemaining k = [a + records_of t 1 rs, b + records_of t 2 rs]"
    by (auto simp: k)
  moreover have "ekRemaining k = [attempts_of t 1 es, attempts_of t 2 es]" using ledger_invD(4) [OF inv k] by (simp add: key_record_def)
  ultimately show ?thesis using True by auto
next
  case False
  then have "records_of t c rs = 0" using known by (auto simp: records_of_def filter_empty_conv)
  then show ?thesis by simp
qed

text \<open>The choices of a list of distinct tokens.\<close>

lemma choice_counts:
  assumes d: "distinct (map fst first)" and v: "\<And>t p. (t, p) \<in> set first \<Longrightarrow> f p = g t"
  shows "length (filter (\<lambda>tp. P (f (snd tp))) first) = card {t \<in> fst ` set first. P (g t)}"
proof -
  have "filter (\<lambda>tp. P (f (snd tp))) first = filter (\<lambda>tp. P (g (fst tp))) first" using v by (intro filter_cong) auto
  then have "length (filter (\<lambda>tp. P (f (snd tp))) first) = length (filter (\<lambda>t. P (g t)) (map fst first))"
    by (simp add: filter_map comp_def)
  also have "\<dots> = card (set (filter (\<lambda>t. P (g t)) (map fst first)))" using d by (intro distinct_card [symmetric] distinct_filter)
  finally show ?thesis by (simp only: set_filter set_map)
qed

text \<open>C18. When the reconciliation of the journal benchmark reports correct, keys and tokens are bound one to
  one and every key has an attempt; every 202 receipt names a record with its token, choice and
  admission instant; the records of a token and choice are at most its attempts that may have
  been committed; every record is in the window; the canonical vote of every token is the record
  at its least offset, in the only partition of the token; and the totals and counts are those
  of the records and the canonical votes.\<close>

theorem logbench_reconcile_correct:
  assumes correct: "lrCorrect (lb_reconcile h entries a)" and maps: "distinct (map fst (laRecords a))"
  shows "(\<forall>e \<in> set entries. \<forall>e' \<in> set entries. leToken e = leToken e' \<longleftrightarrow> leKey e = leKey e') \<and>
    (\<lambda>e. uint (leKey e)) ` set entries = {0..<lhKeys h} \<and>
    (\<forall>e \<in> set entries. leOutcome e = outRecorded \<longrightarrow> (\<exists>v. map_of (laRecords a) (receipt_position e) = Some v \<and>
       lvToken v = leToken e \<and> lvChoice v = leChoice e \<and> sint (unixNano (lvAdmittedAt v)) = leAdmittedNS e)) \<and>
    (\<forall>t c. length (filter (\<lambda>(p, v). lvToken v = t \<and> lvChoice v = c) (laRecords a)) \<le>
       length (filter (\<lambda>e. leToken e = t \<and> leChoice e = c \<and> (leOutcome e = outRecorded \<or> leOutcome e = outUnknown) \<and> leDispatchNS e > 0) entries)) \<and>
    (\<forall>(p, v) \<in> set (laRecords a). lcStartsAt (lhConfig h) \<le> lvAdmittedAt v \<and> lvAdmittedAt v < lcEndsAt (lhConfig h)) \<and>
    (\<forall>t \<in> lvToken ` snd ` set (laRecords a). \<exists>p v. map_of (laRecords a) p = Some v \<and> lvToken v = t \<and> map_of (laCanonical a) t = Some v \<and>
       (\<forall>(q, w) \<in> set (laRecords a). lvToken w = t \<longrightarrow> lpPartition q = lpPartition p \<and> lpOffset p \<le> lpOffset q)) \<and>
    length (laCanonical a) = card (lvToken ` snd ` set (laRecords a)) \<and> length (laRecords a) = laTotal a \<and>
    (\<forall>i < 32. laCounts a ! i = card {t \<in> lvToken ` snd ` set (laRecords a). bit (lvChoice (the (map_of (laCanonical a) t))) i})"
proof -
  from correct obtain x y where x: "x = first_loop h (laRecords a) entries" and y: "y = second_loop (lhConfig h) (xsExpected x) (laRecords a)"
    and ok: "xsInvalid x = 0" "int (xsBound x) = lhKeys h" "xsMissing x = 0" "xsWrong x = 0" "ysUnaccounted y = 0" "ysTimes y = 0" "ysSplit y = 0"
      "fst (third_loop a (ysFirst y)) = 0" "length (ysFirst y) = length (laCanonical a)" "length (laRecords a) = laTotal a"
      "snd (third_loop a (ysFirst y)) = laCounts a"
    by (rule correct_parts)
  have inv: "ledger_inv h entries x" using ledger_inv_loop ok(1) unfolding x by blast
  note i = ledger_invD [OF inv]
  have receipts: "\<exists>v. map_of (laRecords a) (receipt_position e) = Some v \<and> lvToken v = leToken e \<and> lvChoice v = leChoice e \<and>
      sint (unixNano (lvAdmittedAt v)) = leAdmittedNS e" if "e \<in> set entries" "leOutcome e = outRecorded" for e
    using receipts_loop [OF ok(3,4) [unfolded x] that(1) i(1) [OF that(1)] that(2)] by (simp add: receipt_matches_def)
  have acc: "taken (xsExpected x) (laRecords a) (ysExpected y) \<and>
      (\<forall>(p, v) \<in> set (laRecords a). (lvChoice v = 1 \<or> lvChoice v = 2) \<and> map_of (xsExpected x) (lvToken v) \<noteq> None)"
    unfolding y by (rule second_loop_accounts) (use i(4) ok(5) in \<open>auto simp: key_record_def y\<close>)
  have counts: "length (filter (\<lambda>(p, v). lvToken v = t \<and> lvChoice v = c) (laRecords a)) \<le>
       length (filter (\<lambda>e. leToken e = t \<and> leChoice e = c \<and> (leOutcome e = outRecorded \<or> leOutcome e = outUnknown) \<and> leDispatchNS e > 0) entries)"
    for t c
    using records_le_attempts [OF inv conjunct1 [OF acc] conjunct2 [OF acc], of t c] unfolding records_of_def attempts_of_def explains_abs .
  have first: "first_ok (laRecords a) (ysFirst y)" using second_loop_first ok(7) unfolding y by blast
  note toks = tokens_of_first [OF first maps]
  have canon: "\<exists>p v. map_of (laRecords a) p = Some v \<and> lvToken v = t \<and> map_of (laCanonical a) t = Some v \<and>
       (\<forall>(q, w) \<in> set (laRecords a). lvToken w = t \<longrightarrow> lpPartition q = lpPartition p \<and> lpOffset p \<le> lpOffset q)"
    if t: "t \<in> lvToken ` snd ` set (laRecords a)" for t
  proof -
    from bspec [OF conjunct2 [OF toks] t] obtain p v where p: "(t, p) \<in> set (ysFirst y)" "map_of (laRecords a) p = Some v" "lvToken v = t"
      and least: "\<forall>(q, w) \<in> set (laRecords a). lvToken w = t \<longrightarrow> lpPartition q = lpPartition p \<and> lpOffset p \<le> lpOffset q"
      by (elim exE conjE)
    from third_loop_canonical [OF ok(8) p(1)] have "map_of (laCanonical a) t = Some v"
      by (auto simp: canonical_wrong_def Let_def p(2) split: option.splits)
    with p least show ?thesis by blast
  qed
  have tok: "fst ` set (ysFirst y) = lvToken ` snd ` set (laRecords a)"
    using conjunct1 [OF conjunct2 [OF first [unfolded first_ok_def]]] by (simp only: image_image split_def)
  have "laCounts a ! i = card {t \<in> lvToken ` snd ` set (laRecords a). bit (lvChoice (the (map_of (laCanonical a) t))) i}" if "i < 32" for i
  proof -
    have v: "the (map_of (laRecords a) p) = the (map_of (laCanonical a) t)" if "(t, p) \<in> set (ysFirst y)" for t p
      using third_loop_canonical [OF ok(8) that] by (auto simp: canonical_wrong_def Let_def split: option.splits)
    have "laCounts a ! i = length (filter (\<lambda>tp. bit (lvChoice (the (map_of (laRecords a) (snd tp)))) i) (ysFirst y))"
      using third_loop_counts [of a "ysFirst y"] that ok(11) by simp
    also have "\<dots> = card {t \<in> fst ` set (ysFirst y). bit (lvChoice (the (map_of (laCanonical a) t))) i}"
      using choice_counts [where P = "\<lambda>v. bit (lvChoice v) i" and f = "\<lambda>p. the (map_of (laRecords a) p)" and g = "\<lambda>t. the (map_of (laCanonical a) t)",
          OF conjunct1 [OF first [unfolded first_ok_def]] v] by simp
    finally show ?thesis by (simp only: tok)
  qed
  then show ?thesis
    using ledger_keys [OF inv ok(2)] receipts counts second_loop_times [OF ok(6) [unfolded y]] canon conjunct1 [OF toks] ok(9,10)
    by (intro conjI ballI allI impI) auto
qed

section \<open>A reconciliation\<close>

definition demo_lb_token :: "byte list" where
  "demo_lb_token = replicate 15 0 @ [1]"

definition demo_lb_config :: vl_config where
  "demo_lb_config = \<lparr>lcBrokers = [], lcTopic = [], lcPollID = demo_lb_token, lcPartitions = 1, lcStartsAt = 0, lcEndsAt = 10,
     lcAllowedMask = 3, lcMultiple = False, lcBatchSize = 1, lcLinger = 0, lcQueuePerPartition = 1, lcTransactionTimeout = 1\<rparr>"

definition demo_lb_header :: lb_header where
  "demo_lb_header = \<lparr>lhVersion = 1, lhConfig = demo_lb_config, lhMode = ''direct'', lhEntries = 2, lhKeys = 1, lhRate = 1, lhOwnerPID = 1\<rparr>"

definition demo_lb_entry :: "outcome \<Rightarrow> int \<Rightarrow> lb_entry" where
  "demo_lb_entry result offset = \<lparr>leToken = demo_lb_token, leKey = 0, leChoice = 1, leOutcome = result, lePartition = 0, leOffset = offset,
     leAdmittedNS = 3, leDispatchNS = 1, leCompleteNS = 5\<rparr>"

text \<open>One attempt was answered, its repeat was not and is in the journal all the same.\<close>

definition demo_lb_audited :: lb_audited where
  "demo_lb_audited =
     (let v = \<lparr>lvToken = demo_lb_token, lvChoice = 1, lvAdmittedAt = 3\<rparr>; w = v\<lparr>lvAdmittedAt := 4\<rparr> in
      \<lparr>laRecords = [(\<lparr>lpPartition = 0, lpOffset = 2, lpIndex = 0\<rparr>, w), (\<lparr>lpPartition = 0, lpOffset = 1, lpIndex = 0\<rparr>, v)],
       laCanonical = [(demo_lb_token, v)], laTotal = 2, laCounts = 1 # replicate 31 0, laPartitions = 1\<rparr>)"

lemma demo_lb_correct: "lrCorrect (lb_reconcile demo_lb_header [demo_lb_entry outRecorded 1, demo_lb_entry outUnknown 0] demo_lb_audited)"
  by code_simp

lemma logbench_reconcile_correct_witness:
  "\<exists>v. map_of (laRecords demo_lb_audited) (receipt_position (demo_lb_entry outRecorded 1)) = Some v \<and> lvToken v = demo_lb_token"
proof -
  have "distinct (map fst (laRecords demo_lb_audited))" by (simp add: demo_lb_audited_def Let_def)
  from logbench_reconcile_correct [OF demo_lb_correct this, THEN conjunct2, THEN conjunct2, THEN conjunct1, THEN bspec,
      of "demo_lb_entry outRecorded 1"]
  show ?thesis by (auto simp: demo_lb_entry_def)
qed

end
