(* ===== verification/Logbench_Ledger.thy ===== *)
theory Logbench_Ledger
  imports Logbench_Audit Go_Strings Go_Crypto Bench_Measure
begin

text \<open>
  The configuration of the journal benchmark (\<^verbatim>\<open>cmd/logbench/main.go\<close>), its planned attempts
  (\<^verbatim>\<open>makeEntries\<close>) and its private ledger of 72-byte entries (\<^verbatim>\<open>cmd/logbench/ledger.go\<close>):
  magic, little-endian header length, JSON header, entries, SHA-256 of what precedes.

  JSON is a parameter (\<open>marshal\<close> and \<open>unmarshal\<close>), as are the resolution of a port and what
  the file system answers.
\<close>

section \<open>Configuration\<close>

record lb_config =
  lbMode :: string
  lbBrokers :: string
  lbAuditOnly :: string
  lbRecoverAndSeal :: string
  lbRate :: int
  lbWorkers :: int
  lbQueue :: int
  lbRepeatEvery :: int
  lbDifferent :: bool
  lbAllowLarge :: bool
  lbDuration :: duration
  lbTimeout :: duration
  lbDrain :: duration
  lbMaxLag :: duration
  lbLinger :: duration
  lbTransactionTimeout :: duration
  lbPartitions :: int
  lbBatchSize :: int
  lbPartitionQueue :: int

definition maximumRate :: int where
  "maximumRate = 200000"

definition lb_defaults :: "string \<Rightarrow> lb_config" where
  "lb_defaults env = \<lparr>lbMode = ''http'', lbBrokers = (if env = [] then ''127.0.0.1:19092,127.0.0.1:19093,127.0.0.1:19094'' else env),
     lbAuditOnly = [], lbRecoverAndSeal = [], lbRate = 100, lbWorkers = 256, lbQueue = 8192, lbRepeatEvery = 0,
     lbDifferent = False, lbAllowLarge = False, lbDuration = minute, lbTimeout = 10 * second, lbDrain = 15 * second,
     lbMaxLag = second, lbLinger = 5 * millisecond, lbTransactionTimeout = 10 * second, lbPartitions = 8, lbBatchSize = 1000,
     lbPartitionQueue = 8192\<rparr>"

text \<open>The multiplication does not overflow: both factors are bounded before it matters.\<close>

definition lb_keys :: "lb_config \<Rightarrow> int" where
  "lb_keys c = (lbDuration c * lbRate c + second - 1) div second"

definition lb_attempts :: "lb_config \<Rightarrow> int" where
  "lb_attempts c = lb_keys c + (if lbRepeatEvery c > 0 then lb_keys c div lbRepeatEvery c else 0)"

definition local_broker :: "(string \<Rightarrow> int option) \<Rightarrow> string \<Rightarrow> bool" where
  "local_broker lookup_port item =
     (case split_host_port item of
        None \<Rightarrow> False
      | Some (host, port) \<Rightarrow>
          (case parse_ip host of None \<Rightarrow> False | Some ip \<Rightarrow> is_loopback ip \<and> port \<noteq> [] \<and>
            (case lookup_port port of None \<Rightarrow> False | Some n \<Rightarrow> n \<ge> 1)))"

definition localBrokers :: "(string \<Rightarrow> int option) \<Rightarrow> string \<Rightarrow> string list option" where
  "localBrokers lookup_port raw =
     (let items = split_byte CHR '','' raw in
      if length items < 1 \<or> length items > 3 then None
      else let items = map trim_space items in
        if list_all (local_broker lookup_port) items then Some items else None)"

datatype lb_error = ExclusiveModes | UnknownMode | BrokersNotLocal | RateDuration | DifferentNeedsRepeat | AttemptCap | WorkersQueue
  | TimeoutRanges | TransactionRange | WriterBounds | LingerRange | LargeNeedsFlag

definition lb_validate :: "(string \<Rightarrow> int option) \<Rightarrow> lb_config \<Rightarrow> lb_error option" where
  "lb_validate lookup_port c =
     (if lbAuditOnly c \<noteq> [] \<and> lbRecoverAndSeal c \<noteq> [] then Some ExclusiveModes
      else if lbMode c \<noteq> ''http'' \<and> lbMode c \<noteq> ''direct'' then Some UnknownMode
      else if localBrokers lookup_port (lbBrokers c) = None then Some BrokersNotLocal
      else if lbRate c < 1 \<or> lbRate c > maximumRate \<or> lbDuration c \<le> 0 \<or> lbDuration c > minute then Some RateDuration
      else if lbRepeatEvery c < 0 \<or> (lbDifferent c \<and> lbRepeatEvery c = 0) then Some DifferentNeedsRepeat
      else if lb_attempts c > maximumAttempts then Some AttemptCap
      else if lbWorkers c < 1 \<or> lbWorkers c > 8192 \<or> lbQueue c < 1 \<or> lbQueue c > 100000 then Some WorkersQueue
      else if lbTimeout c \<le> 0 \<or> lbTimeout c > 15 * second \<or> lbDrain c \<le> 0 \<or> lbDrain c > 20 * second \<or> lbMaxLag c \<le> 0 \<or> lbMaxLag c > 10 * second
        then Some TimeoutRanges
      else if lbTransactionTimeout c < second \<or> lbTransactionTimeout c > 30 * second then Some TransactionRange
      else if lbPartitions c < 1 \<or> lbPartitions c > 64 \<or> lbBatchSize c < 1 \<or> lbBatchSize c > 4096 \<or> lbPartitionQueue c < 1 \<or>
        lbPartitionQueue c > 8192 then Some WriterBounds
      else if lbLinger c < millisecond \<or> lbLinger c > 100 * millisecond then Some LingerRange
      else
        let rps = lbRate c + (if lbRepeatEvery c > 0 then (lbRate c + lbRepeatEvery c - 1) div lbRepeatEvery c else 0) in
        if \<not> lbAllowLarge c \<and> lbAuditOnly c = [] \<and> lbRecoverAndSeal c = [] \<and> (rps > 1000 \<or> lb_attempts c > 10000)
        then Some LargeNeedsFlag else None)"

section \<open>The planned attempts\<close>

definition planned_entry :: "byte list \<Rightarrow> nat \<Rightarrow> lb_entry" where
  "planned_entry prefix key =
     \<lparr>leToken = prefix @ put_be 8 (of_nat key + 1 :: u64), leKey = of_nat key, leChoice = 1, leOutcome = 0, lePartition = -1,
      leOffset = -1, leAdmittedNS = 0, leDispatchNS = 0, leCompleteNS = 0\<rparr>"

definition planned_entries :: "lb_config \<Rightarrow> byte list \<Rightarrow> nat \<Rightarrow> lb_entry list" where
  "planned_entries c prefix key =
     (let e = planned_entry prefix key in
      if lbRepeatEvery c > 0 \<and> (int key + 1) mod lbRepeatEvery c = 0
      then [e, if lbDifferent c then e\<lparr>leChoice := 2\<rparr> else e] else [e])"

definition makeEntries :: "lb_config \<Rightarrow> byte list \<Rightarrow> lb_entry list" where
  "makeEntries c prefix = concat (map (planned_entries c prefix) [0..<nat (lb_keys c)])"

section \<open>Entries as bytes\<close>

definition entryBytes :: nat where
  "entryBytes = 72"

definition lb_encodeEntry :: "lb_entry \<Rightarrow> byte list" where
  "lb_encodeEntry e =
     (let b = replicate entryBytes 0;
          b = poke 0 (leToken e) b;
          b = poke 16 (put_le 4 (leKey e)) b;
          b = poke 20 (put_le 4 (leChoice e)) b;
          b = b[24 := leOutcome e];
          b = poke 28 (put_le 4 (word_of_int (lePartition e) :: u32)) b;
          b = poke 32 (put_le 8 (word_of_int (leOffset e) :: u64)) b;
          b = poke 40 (put_le 8 (word_of_int (leAdmittedNS e) :: u64)) b;
          b = poke 48 (put_le 8 (word_of_int (leDispatchNS e) :: u64)) b
      in poke 56 (put_le 8 (word_of_int (leCompleteNS e) :: u64)) b)"

definition lb_decodeEntry :: "byte list \<Rightarrow> lb_entry" where
  "lb_decodeEntry b =
     \<lparr>leToken = subslice 0 16 b, leKey = get_le (subslice 16 20 b), leChoice = get_le (subslice 20 24 b), leOutcome = b ! 24,
      lePartition = sint (get_le (subslice 28 32 b) :: u32), leOffset = sint (get_le (subslice 32 40 b) :: u64),
      leAdmittedNS = sint (get_le (subslice 40 48 b) :: u64), leDispatchNS = sint (get_le (subslice 48 56 b) :: u64),
      leCompleteNS = sint (get_le (subslice 56 64 b) :: u64)\<rparr>"

section \<open>The ledger file\<close>

definition ledgerMagic :: "byte list" where
  "ledgerMagic = [0x47, 0x51, 0x4c, 0x42, 0x30, 0x30, 0x30, 0x31]"

definition maxHeaderBytes :: nat where
  "maxHeaderBytes = 65536"

definition maxLedgerBytes :: int where
  "maxLedgerBytes = maximumAttempts * int entryBytes + int maxHeaderBytes + 44"

definition maxLedgerDirectoryBytes :: int where
  "maxLedgerDirectoryBytes = 5 * 2 ^ 30"

definition maxLedgerFiles :: nat where
  "maxLedgerFiles = 64"

definition bench_ownedTopic :: "string \<Rightarrow> bool" where
  "bench_ownedTopic topic \<longleftrightarrow>
     has_prefix topic ''gigaquizz_logbench_'' \<and> (let suffix = drop 19 topic in hex_decode suffix \<noteq> None \<and> length suffix = 16)"

datatype ledger_error = LedgerCount | LedgerTopic | LedgerDirectory | LedgerInspect | LedgerLimit | LedgerDisk | LedgerCreate
  | LedgerHeader | LedgerIO | LedgerClose | LedgerOpen | LedgerNotRegular | LedgerMagic | LedgerIncompleteHeader | LedgerHeaderLength
  | LedgerConfiguration | LedgerSize | LedgerIncompleteRecord | LedgerRecord | LedgerNoChecksum | LedgerChecksum

text \<open>The directory as \<^verbatim>\<open>ReadDir\<close> and \<^verbatim>\<open>Info\<close> show it: for each file its size, \<open>None\<close> when it cannot be inspected,
  and whether it is regular; \<open>free\<close> is what \<^verbatim>\<open>Statfs\<close> says, if anything.\<close>

type_synonym listing = "(int \<times> bool) option list"

definition ledgerGuard :: "listing option \<Rightarrow> int option \<Rightarrow> int \<Rightarrow> ledger_error option" where
  "ledgerGuard files free expected =
     (case files of
        None \<Rightarrow> Some LedgerInspect
      | Some fs \<Rightarrow>
          if None \<in> set fs then Some LedgerInspect
          else let used = sum_list (map (\<lambda>(size, regular). if regular then size else 0) (map the fs)) in
            if length fs \<ge> maxLedgerFiles \<or> used + expected > maxLedgerDirectoryBytes then Some LedgerLimit
            else case free of None \<Rightarrow> Some LedgerDisk | Some n \<Rightarrow> if n < expected + 2 * 2 ^ 30 then Some LedgerDisk else None)"

definition ledger_size :: "nat \<Rightarrow> int" where
  "ledger_size entries = int entries * int entryBytes + int maxHeaderBytes + 44"

definition prepareLedgerDirectory :: "bool \<Rightarrow> listing option \<Rightarrow> int option \<Rightarrow> nat \<Rightarrow> ledger_error option" where
  "prepareLedgerDirectory mkdir_ok files free entries =
     (if \<not> mkdir_ok then Some LedgerDirectory else ledgerGuard files free (ledger_size entries))"

text \<open>What goes through the hash, and the whole file.\<close>

definition ledger_body :: "byte list \<Rightarrow> lb_entry list \<Rightarrow> byte list" where
  "ledger_body header entries = ledgerMagic @ put_le 4 (of_nat (length header) :: u32) @ header @ concat (map lb_encodeEntry entries)"

definition ledger_bytes :: "byte list \<Rightarrow> lb_entry list \<Rightarrow> byte list" where
  "ledger_bytes header entries = ledger_body header entries @ sha256 (ledger_body header entries)"

record ledger_env =
  lgMkdir :: bool
  lgFiles :: "listing option"
  lgFree :: "int option"
  lgCreate :: bool
  lgWrites :: bool
  lgSync :: bool
  lgClose :: bool

definition writeLedger ::
  "(lb_header \<Rightarrow> byte list option) \<Rightarrow> ledger_env \<Rightarrow> lb_header \<Rightarrow> lb_entry list \<Rightarrow> ledger_error + byte list" where
  "writeLedger marshal env h entries =
     (if lhEntries h \<noteq> int (length entries) \<or> lhEntries h < 1 \<or> lhEntries h > maximumAttempts then Inl LedgerCount
      else if \<not> bench_ownedTopic (lcTopic (lhConfig h)) then Inl LedgerTopic
      else if \<not> lgMkdir env then Inl LedgerDirectory
      else case ledgerGuard (lgFiles env) (lgFree env) (ledger_size (length entries)) of
        Some e \<Rightarrow> Inl e
      | None \<Rightarrow>
          if \<not> lgCreate env then Inl LedgerCreate
          else case marshal h of
            None \<Rightarrow> Inl LedgerHeader
          | Some b \<Rightarrow>
              if length b > maxHeaderBytes then Inl LedgerHeader
              else if \<not> lgWrites env \<or> \<not> lgSync env then Inl LedgerIO
              else if \<not> lgClose env then Inl LedgerClose
              else Inr (ledger_bytes b entries))"

definition header_bad :: "lb_header \<Rightarrow> bool" where
  "header_bad h \<longleftrightarrow> lhVersion h \<noteq> 1 \<or> lhEntries h < 1 \<or> lhEntries h > maximumAttempts \<or> lhKeys h < 1 \<or> lhKeys h > lhEntries h \<or>
     lhRate h < 1 \<or> lhRate h > maximumRate \<or> \<not> bench_ownedTopic (lcTopic (lhConfig h))"

definition entry_bad :: "lb_header \<Rightarrow> lb_entry \<Rightarrow> bool" where
  "entry_bad h e \<longleftrightarrow> uint (leKey e) \<ge> lhKeys h \<or> leOutcome e > outSkipCancelled \<or> (leChoice e \<noteq> 1 \<and> leChoice e \<noteq> 2)"

text \<open>The loop over the entries: what is left of the file, and how many are left.\<close>

fun read_entries :: "lb_header \<Rightarrow> nat \<Rightarrow> byte list \<Rightarrow> ledger_error + lb_entry list \<times> byte list" where
  "read_entries h 0 b = Inr ([], b)"
| "read_entries h (Suc n) b =
     (if length b < entryBytes then Inl LedgerIncompleteRecord
      else let e = lb_decodeEntry (take entryBytes b) in
        if entry_bad h e then Inl LedgerRecord
        else case read_entries h n (drop entryBytes b) of
          Inl err \<Rightarrow> Inl err
        | Inr (es, rest) \<Rightarrow> Inr (e # es, rest))"

definition readLedger ::
  "(byte list \<Rightarrow> lb_header option) \<Rightarrow> byte list option \<Rightarrow> bool \<Rightarrow> ledger_error + lb_header \<times> lb_entry list" where
  "readLedger unmarshal file regular =
     (case file of
        None \<Rightarrow> Inl LedgerOpen
      | Some b \<Rightarrow>
          if \<not> regular \<or> int (length b) > maxLedgerBytes then Inl LedgerNotRegular
          else if length b < 8 \<or> take 8 b \<noteq> ledgerMagic then Inl LedgerMagic
          else if length b < 12 then Inl LedgerIncompleteHeader
          else let size = unat (get_le (subslice 8 12 b) :: u32) in
            if size < 1 \<or> size > maxHeaderBytes then Inl LedgerHeaderLength
            else if length b < 12 + size then Inl LedgerIncompleteHeader
            else case unmarshal (subslice 12 (12 + size) b) of
              None \<Rightarrow> Inl LedgerConfiguration
            | Some h \<Rightarrow>
                if header_bad h then Inl LedgerConfiguration
                else if int (length b) \<noteq> int (12 + size) + lhEntries h * int entryBytes + 32 then Inl LedgerSize
                else case read_entries h (nat (lhEntries h)) (drop (12 + size) b) of
                  Inl e \<Rightarrow> Inl e
                | Inr (entries, rest) \<Rightarrow>
                    if length rest < 32 then Inl LedgerNoChecksum
                    else if take 32 rest \<noteq> sha256 (take (12 + size + nat (lhEntries h) * entryBytes) b) then Inl LedgerChecksum
                    else Inr (h, entries))"

section \<open>Recovery\<close>

datatype signal_answer = SignalSent | SignalRefused | NoSuchProcess | SignalFailed

definition requireStoppedOwner :: "(int \<Rightarrow> signal_answer) \<Rightarrow> int \<Rightarrow> bool" where
  "requireStoppedOwner kill0 pid = (pid > 0 \<and> kill0 pid = NoSuchProcess)"

definition lockRecoveryLedger :: "bool \<Rightarrow> bool \<Rightarrow> bool" where
  "lockRecoveryLedger opened locked = (opened \<and> locked)"

section \<open>The codec of entries\<close>

definition entry_wf :: "lb_entry \<Rightarrow> bool" where
  "entry_wf e \<longleftrightarrow> is_id16 (leToken e) \<and> - (2 ^ 31) \<le> lePartition e \<and> lePartition e < 2 ^ 31 \<and>
     nano_range (leOffset e) \<and> nano_range (leAdmittedNS e) \<and> nano_range (leDispatchNS e) \<and> nano_range (leCompleteNS e)"

lemma sint_of_int64: "nano_range t \<Longrightarrow> sint (word_of_int t :: u64) = t"
  by (simp add: nano_range_def signed_take_bit_int_eq_self sint_sbintrunc')

lemma sint_of_int32: "- (2 ^ 31) \<le> t \<Longrightarrow> t < 2 ^ 31 \<Longrightarrow> sint (word_of_int t :: u32) = t"
  by (simp add: signed_take_bit_int_eq_self sint_sbintrunc')

lemma entry_width: "entry_wf e \<Longrightarrow> length (lb_encodeEntry e) = entryBytes"
  by (simp add: lb_encodeEntry_def Let_def entry_wf_def is_id16_def entryBytes_def codec_simps)

lemma entry_roundtrip: "entry_wf e \<Longrightarrow> lb_decodeEntry (lb_encodeEntry e) = e"
  by (cases e) (simp add: lb_decodeEntry_def lb_encodeEntry_def Let_def entry_wf_def is_id16_def entryBytes_def codec_simps get_le_put_le
      sint_of_int64 sint_of_int32)

interpretation lbe: fixed_codec lb_encodeEntry lb_decodeEntry entry_wf entryBytes
  by unfold_locales (simp_all add: entry_width entry_roundtrip)

end
