(* ===== verification/Logbench_Ledger_Props.thy ===== *)
theory Logbench_Ledger_Props
  imports Logbench_Ledger
begin

text \<open>What a ledger holds after it was written: the header and the entries it was given.\<close>

lemma read_entries_written:
  assumes "list_all entry_wf es" and "\<forall>e \<in> set es. \<not> entry_bad h e"
  shows "read_entries h (length es) (concat (map lb_encodeEntry es) @ rest) = Inr (es, rest)"
  using assms by (induction es) (simp_all add: entry_width entry_roundtrip entryBytes_def)

text \<open>C34. A ledger that was written is read back as it is: the same header and the same entries, in order,
  for every header the reader admits and every codec of headers that reads what it wrote.\<close>

theorem logbench_ledger_roundtrip:
  assumes written: "writeLedger marshal env h es = Inr b" and header: "marshal h = Some hdr" "hdr \<noteq> []" "unmarshal hdr = Some h"
    and good: "\<not> header_bad h" "list_all entry_wf es" "\<forall>e \<in> set es. \<not> entry_bad h e"
  shows "readLedger unmarshal (Some b) True = Inr (h, es)"
proof -
  from written have b: "b = ledger_bytes hdr es" and small: "length hdr \<le> 65536" and n: "lhEntries h = int (length es)" "length es \<le> 12000000"
    by (auto simp: writeLedger_def header(1) maxHeaderBytes_def maximumAttempts_def split: if_splits option.splits)
  let ?t = "concat (map lb_encodeEntry es)" and ?sum = "sha256 (ledger_body hdr es)"
  have t: "length ?t = length es * 72" using lbe.table_width [OF good(2)] by (simp add: entryBytes_def)
  have magic: "length ledgerMagic = 8" by (simp add: ledgerMagic_def)
  have b': "b = ledgerMagic @ put_le 4 (of_nat (length hdr) :: u32) @ hdr @ ?t @ ?sum"
    by (simp add: b ledger_bytes_def ledger_body_def)
  have len: "length b = 12 + length hdr + length es * 72 + 32" by (simp add: b' magic t length_sha256)
  have size: "unat (get_le (subslice 8 12 b) :: u32) = length hdr"
    using small by (simp add: b' subslice_def magic get_le_put_le unat_of_nat)
  have hdr: "subslice 12 (12 + length hdr) b = hdr" and rest: "drop (12 + length hdr) b = ?t @ ?sum"
    by (simp_all add: b' subslice_def magic)
  have body: "take (12 + length hdr + length es * 72) b = ledger_body hdr es"
    by (simp add: b' ledger_body_def magic t)
  have entries: "read_entries h (length es) (drop (12 + length hdr) b) = Inr (es, ?sum)"
    unfolding rest by (rule read_entries_written [OF good(2,3)])
  have "take 8 b = ledgerMagic" by (simp add: b' magic)
  then show ?thesis
    using small header(2) n(2)
    by (simp add: readLedger_def len size hdr entries body Let_def n(1) good(1) header(3) length_sha256 maxLedgerBytes_def
        maximumAttempts_def maxHeaderBytes_def entryBytes_def Suc_le_eq)
qed

definition demo_ledger_header :: lb_header where
  "demo_ledger_header = \<lparr>lhVersion = 1,
     lhConfig = \<lparr>lcBrokers = [], lcTopic = ''gigaquizz_logbench_0123456789abcdef'', lcPollID = zero16, lcPartitions = 1, lcStartsAt = 0,
       lcEndsAt = 10, lcAllowedMask = 3, lcMultiple = False, lcBatchSize = 1, lcLinger = 0, lcQueuePerPartition = 1, lcTransactionTimeout = 1\<rparr>,
     lhMode = ''direct'', lhEntries = 1, lhKeys = 1, lhRate = 1, lhOwnerPID = 1\<rparr>"

definition demo_ledger_env :: ledger_env where
  "demo_ledger_env = \<lparr>lgMkdir = True, lgFiles = Some [], lgFree = Some (2 ^ 40), lgCreate = True, lgWrites = True, lgSync = True, lgClose = True\<rparr>"

definition demo_ledger_entry :: lb_entry where
  "demo_ledger_entry = \<lparr>leToken = replicate 15 0 @ [1], leKey = 0, leChoice = 1, leOutcome = 1, lePartition = 0, leOffset = 7,
     leAdmittedNS = 3, leDispatchNS = 1, leCompleteNS = 5\<rparr>"

lemma demo_topic: "bench_ownedTopic ''gigaquizz_logbench_0123456789abcdef''"
  by code_simp

lemma logbench_ledger_roundtrip_witness:
  "readLedger (\<lambda>b. if b = [123] then Some demo_ledger_header else None) (Some (ledger_bytes [123] [demo_ledger_entry])) True =
     Inr (demo_ledger_header, [demo_ledger_entry])"
proof (rule logbench_ledger_roundtrip [where marshal = "\<lambda>_. Some [123]" and env = demo_ledger_env and hdr = "[123]"])
  show "writeLedger (\<lambda>_. Some [123]) demo_ledger_env demo_ledger_header [demo_ledger_entry] = Inr (ledger_bytes [123] [demo_ledger_entry])"
    by (simp add: writeLedger_def demo_ledger_header_def demo_ledger_env_def demo_topic maximumAttempts_def ledgerGuard_def maxLedgerFiles_def
        maxLedgerDirectoryBytes_def ledger_size_def entryBytes_def maxHeaderBytes_def)
  show "\<not> header_bad demo_ledger_header"
    by (simp add: header_bad_def demo_ledger_header_def demo_topic maximumAttempts_def maximumRate_def)
  show "list_all entry_wf [demo_ledger_entry]"
    by (simp add: entry_wf_def demo_ledger_entry_def is_id16_def nano_range_def)
  show "\<forall>e \<in> set [demo_ledger_entry]. \<not> entry_bad demo_ledger_header e"
    by (simp add: entry_bad_def demo_ledger_entry_def demo_ledger_header_def outSkipCancelled_def)
qed simp_all

end
