(* ===== verification/Logbench_Workload.thy ===== *)
theory Logbench_Workload
  imports Logbench_Ledger
begin

text \<open>
  The workload of the journal benchmark (\<^verbatim>\<open>cmd/logbench/workload.go\<close>) with the submitters of
  \<^verbatim>\<open>cmd/logbench/execute.go\<close>: what becomes of every planned attempt, the summary, and the exact
  percentiles of the latencies.

  Every entry has one writer, so the run is a function of what the clock, the context, the queue
  and the service say about each entry. Means, which are floating point, are left out.
\<close>

section \<open>Outcomes\<close>

definition outcome_text :: "outcome \<Rightarrow> string" where
  "outcome_text o1 =
     (if o1 = outRecorded then ''recorded'' else if o1 = outNotOpen then ''not_open'' else if o1 = outClosed then ''closed''
      else if o1 = outBusy then ''busy'' else if o1 = outRejected then ''rejected'' else if o1 = outUnknown then ''unknown''
      else if o1 = outSkipQueue then ''generator_queue_full'' else if o1 = outSkipLag then ''generator_lag''
      else if o1 = outSkipCancelled then ''generator_cancelled'' else ''unstarted'')"

record attempt_result =
  atOutcome :: outcome
  atPartition :: int
  atOffset :: int
  atAdmitted :: time

definition result_of :: "outcome \<Rightarrow> attempt_result" where
  "result_of o1 = \<lparr>atOutcome = o1, atPartition = 0, atOffset = 0, atAdmitted = jan1 1\<rparr>"

definition classify :: "vl_error option \<Rightarrow> outcome" where
  "classify err =
     (case err of
        None \<Rightarrow> outRecorded
      | Some LogNotOpen \<Rightarrow> outNotOpen
      | Some LogClosed \<Rightarrow> outClosed
      | Some LogBusy \<Rightarrow> outBusy
      | Some LogInvalid \<Rightarrow> outRejected
      | Some _ \<Rightarrow> outUnknown)"

text \<open>The receipt beside an error is the zero receipt.\<close>

definition directSubmitter :: "vl_error + (int \<times> int \<times> time) \<Rightarrow> attempt_result" where
  "directSubmitter answer =
     (case answer of
        Inl e \<Rightarrow> result_of (classify (Some e))
      | Inr (part, offset, admitted) \<Rightarrow>
          \<lparr>atOutcome = classify None, atPartition = part, atOffset = offset, atAdmitted = admitted\<rparr>)"

text \<open>The response of the service: \<open>None\<close> when there is none, else the status and the decoded receipt, if it decodes.\<close>

definition httpSubmitter :: "(int \<times> (int \<times> int \<times> time) option) option \<Rightarrow> attempt_result" where
  "httpSubmitter response =
     (case response of
        None \<Rightarrow> result_of outUnknown
      | Some (status, receipt) \<Rightarrow>
          if status = 202 then
            (case receipt of
               None \<Rightarrow> result_of outUnknown
             | Some (part, offset, admitted) \<Rightarrow>
                 if part < 0 \<or> offset < 0 \<or> is_zero_time admitted then result_of outUnknown
                 else \<lparr>atOutcome = outRecorded, atPartition = part, atOffset = offset, atAdmitted = admitted\<rparr>)
          else if status = 425 then result_of outNotOpen
          else if status = 410 then result_of outClosed
          else if status = 429 then result_of outBusy
          else if status = 400 then result_of outRejected
          else result_of outUnknown)"

section \<open>The run\<close>

text \<open>What the scheduler and then the worker meet at an entry.\<close>

record entry_env =
  eeEnded :: bool
  eeNow :: time
  eeQueued :: bool
  eeWorkEnded :: bool
  eeWorkNow :: time
  eeDispatch :: time
  eeResult :: attempt_result
  eeComplete :: time

definition scheduledAt :: "time \<Rightarrow> u32 \<Rightarrow> int \<Rightarrow> time" where
  "scheduledAt start key rate = start + scheduledOffset (uint key) rate"

definition nanos :: "time \<Rightarrow> int" where
  "nanos t = sint (unixNano t)"

definition worker_entry :: "lb_config \<Rightarrow> time \<Rightarrow> entry_env \<Rightarrow> lb_entry \<Rightarrow> lb_entry" where
  "worker_entry c start env e =
     (if eeWorkEnded env then e\<lparr>leOutcome := outSkipCancelled\<rparr>
      else if time_sub (eeWorkNow env) (scheduledAt start (leKey e) (lbRate c)) > lbMaxLag c then e\<lparr>leOutcome := outSkipLag\<rparr>
      else let r = eeResult env in
        e\<lparr>leDispatchNS := nanos (eeDispatch env), leCompleteNS := nanos (eeComplete env), leOutcome := atOutcome r,
          lePartition := atPartition r, leOffset := atOffset r,
          leAdmittedNS := (if \<not> is_zero_time (atAdmitted r) then nanos (atAdmitted r) else leAdmittedNS e)\<rparr>)"

definition schedule_entry :: "lb_config \<Rightarrow> time \<Rightarrow> entry_env \<Rightarrow> lb_entry \<Rightarrow> lb_entry" where
  "schedule_entry c start env e =
     (if eeEnded env then e\<lparr>leOutcome := outSkipCancelled\<rparr>
      else if time_sub (eeNow env) (scheduledAt start (leKey e) (lbRate c)) > lbMaxLag c then e\<lparr>leOutcome := outSkipLag\<rparr>
      else if \<not> eeQueued env then e\<lparr>leOutcome := outSkipQueue\<rparr>
      else worker_entry c start env e)"

definition run_entries :: "lb_config \<Rightarrow> time \<Rightarrow> (nat \<Rightarrow> entry_env) \<Rightarrow> lb_entry list \<Rightarrow> lb_entry list" where
  "run_entries c start env entries = map (\<lambda>i. schedule_entry c start (env i) (entries ! i)) [0..<length entries]"

section \<open>Latencies\<close>

record lb_latency =
  llSamples :: nat
  llP95 :: int
  llP99 :: int
  llMax :: int

text \<open>Index of the nearest rank of a percentage among that many samples.\<close>

definition nearest_rank :: "nat \<Rightarrow> nat \<Rightarrow> nat" where
  "nearest_rank percent n = (n * percent + 99) div 100 - 1"

definition latencies :: "int list \<Rightarrow> lb_latency" where
  "latencies samples =
     (if samples = [] then \<lparr>llSamples = 0, llP95 = 0, llP99 = 0, llMax = 0\<rparr>
      else let sorted = sort samples; n = length samples in
        \<lparr>llSamples = n, llP95 = sorted ! nearest_rank 95 n, llP99 = sorted ! nearest_rank 99 n, llMax = sorted ! (n - 1)\<rparr>)"

definition sampled :: "bool \<Rightarrow> lb_entry \<Rightarrow> bool" where
  "sampled onlyRecorded e \<longleftrightarrow>
     \<not> (leDispatchNS e = 0 \<or> leCompleteNS e = 0 \<or> (onlyRecorded \<and> leOutcome e \<noteq> outRecorded))"

definition sampleLatencies :: "time \<Rightarrow> int \<Rightarrow> lb_entry list \<Rightarrow> bool \<Rightarrow> lb_latency \<times> lb_latency" where
  "sampleLatencies start rate entries onlyRecorded =
     (let es = filter (sampled onlyRecorded) entries in
      (latencies (map (\<lambda>e. wrap64 (leCompleteNS e - nanos (scheduledAt start (leKey e) rate))) es),
       latencies (map (\<lambda>e. wrap64 (leCompleteNS e - leDispatchNS e)) es)))"

section \<open>The summary\<close>

record lb_bucket =
  ubScheduled :: nat
  ubSkipped :: nat
  ubDispatched :: nat
  ubRecorded :: nat
  ubUnknown :: nat
  ubClosed :: nat
  ubBusy :: nat

record lb_summary =
  usDispatched :: nat
  usSkipped :: nat
  usRecorded :: nat
  usNotOpen :: nat
  usClosed :: nat
  usBusy :: nat
  usRejected :: nat
  usUnknown :: nat
  usReasons :: "(string \<times> nat) list"
  usConfirmed :: "bool list"
  usBuckets :: "lb_bucket list"
  usAfterDeadline :: nat
  usLateCommit :: nat

definition zero_lb_bucket :: lb_bucket where
  "zero_lb_bucket = \<lparr>ubScheduled = 0, ubSkipped = 0, ubDispatched = 0, ubRecorded = 0, ubUnknown = 0, ubClosed = 0, ubBusy = 0\<rparr>"

definition bucket_count :: "lb_config \<Rightarrow> nat" where
  "bucket_count c = nat (lbDuration c sdiv second + lbDrain c sdiv second + 2)"

definition bucket_index :: "time \<Rightarrow> nat \<Rightarrow> int \<Rightarrow> nat" where
  "bucket_index start n ns =
     (let i = wrap64 (ns - nanos start) sdiv second in
      if i < 0 then 0 else if i \<ge> int n then n - 1 else nat i)"

definition in_bucket :: "time \<Rightarrow> int \<Rightarrow> (lb_bucket \<Rightarrow> lb_bucket) \<Rightarrow> lb_summary \<Rightarrow> lb_summary" where
  "in_bucket start ns f s =
     (let i = bucket_index start (length (usBuckets s)) ns in s\<lparr>usBuckets := (usBuckets s)[i := f (usBuckets s ! i)]\<rparr>)"

definition add_reason :: "string \<Rightarrow> (string \<times> nat) list \<Rightarrow> (string \<times> nat) list" where
  "add_reason reason rs = AList.update reason ((case map_of rs reason of None \<Rightarrow> 0 | Some n \<Rightarrow> n) + 1) rs"

definition count_outcome :: "lb_config \<Rightarrow> time \<Rightarrow> lb_entry \<Rightarrow> lb_summary \<Rightarrow> lb_summary" where
  "count_outcome c start e s =
     (if leOutcome e = outRecorded then
        let s = s\<lparr>usRecorded := usRecorded s + 1, usConfirmed := (usConfirmed s)[unat (leKey e) := True]\<rparr>;
            s = in_bucket start (leCompleteNS e) (\<lambda>b. b\<lparr>ubRecorded := ubRecorded b + 1\<rparr>) s
        in if leCompleteNS e \<ge> nanos (start + minute) \<and> leAdmittedNS e < nanos (start + minute)
          then s\<lparr>usLateCommit := usLateCommit s + 1\<rparr> else s
      else if leOutcome e = outNotOpen then s\<lparr>usNotOpen := usNotOpen s + 1\<rparr>
      else if leOutcome e = outClosed then
        in_bucket start (leCompleteNS e) (\<lambda>b. b\<lparr>ubClosed := ubClosed b + 1\<rparr>) (s\<lparr>usClosed := usClosed s + 1\<rparr>)
      else if leOutcome e = outBusy then
        in_bucket start (leCompleteNS e) (\<lambda>b. b\<lparr>ubBusy := ubBusy b + 1\<rparr>) (s\<lparr>usBusy := usBusy s + 1\<rparr>)
      else if leOutcome e = outRejected then s\<lparr>usRejected := usRejected s + 1\<rparr>
      else if leOutcome e = outUnknown then
        in_bucket start (leCompleteNS e) (\<lambda>b. b\<lparr>ubUnknown := ubUnknown b + 1\<rparr>) (s\<lparr>usUnknown := usUnknown s + 1\<rparr>)
      else in_bucket start (nanos (scheduledAt start (leKey e) (lbRate c))) (\<lambda>b. b\<lparr>ubSkipped := ubSkipped b + 1\<rparr>)
        (s\<lparr>usSkipped := usSkipped s + 1, usReasons := add_reason (outcome_text (leOutcome e)) (usReasons s)\<rparr>))"

definition count_dispatch :: "time \<Rightarrow> lb_entry \<Rightarrow> lb_summary \<Rightarrow> lb_summary" where
  "count_dispatch start e s =
     (if leDispatchNS e > 0 then
        let s = in_bucket start (leDispatchNS e) (\<lambda>b. b\<lparr>ubDispatched := ubDispatched b + 1\<rparr>) (s\<lparr>usDispatched := usDispatched s + 1\<rparr>)
        in if leDispatchNS e \<ge> nanos (start + minute) then s\<lparr>usAfterDeadline := usAfterDeadline s + 1\<rparr> else s
      else s)"

definition summarize_entry :: "lb_config \<Rightarrow> time \<Rightarrow> lb_summary \<Rightarrow> lb_entry \<Rightarrow> lb_summary" where
  "summarize_entry c start s e =
     count_dispatch start e (count_outcome c start e
       (in_bucket start (nanos (scheduledAt start (leKey e) (lbRate c))) (\<lambda>b. b\<lparr>ubScheduled := ubScheduled b + 1\<rparr>) s))"

definition empty_summary :: "lb_config \<Rightarrow> lb_summary" where
  "empty_summary c = \<lparr>usDispatched = 0, usSkipped = 0, usRecorded = 0, usNotOpen = 0, usClosed = 0, usBusy = 0, usRejected = 0,
     usUnknown = 0, usReasons = [], usConfirmed = replicate (nat (lb_keys c)) False,
     usBuckets = replicate (bucket_count c) zero_lb_bucket, usAfterDeadline = 0, usLateCommit = 0\<rparr>"

record lb_workload_report =
  uwSummary :: lb_summary
  uwPlanned :: nat
  uwPlannedKeys :: int
  uwConfirmedKeys :: nat
  uwKeysWithoutReceipt :: int
  uwLatency :: "lb_latency \<times> lb_latency"
  uwRecordedLatency :: "lb_latency \<times> lb_latency"

definition summarize :: "lb_config \<Rightarrow> time \<Rightarrow> lb_entry list \<Rightarrow> lb_workload_report" where
  "summarize c start entries =
     (let s = foldl (summarize_entry c start) (empty_summary c) entries;
          confirmed = length (filter (\<lambda>v. v) (usConfirmed s))
      in \<lparr>uwSummary = s, uwPlanned = length entries, uwPlannedKeys = lb_keys c, uwConfirmedKeys = confirmed,
           uwKeysWithoutReceipt = lb_keys c - int confirmed,
           uwLatency = sampleLatencies start (lbRate c) entries False,
           uwRecordedLatency = sampleLatencies start (lbRate c) entries True\<rparr>)"

definition lb_runWorkload :: "lb_config \<Rightarrow> time \<Rightarrow> (nat \<Rightarrow> entry_env) \<Rightarrow> lb_entry list \<Rightarrow> lb_entry list \<times> lb_workload_report" where
  "lb_runWorkload c start env entries = (let es = run_entries c start env entries in (es, summarize c start es))"

end
