(* ===== verification/Logbench_Workload_Props.thy ===== *)
theory Logbench_Workload_Props
  imports Logbench_Workload
begin

text \<open>The summary of a run loses and invents nothing, and its percentiles are nearest ranks.\<close>

section \<open>Percentiles\<close>

lemma nearest_rank_bounds:
  assumes "0 < n" and "0 < percent" and "percent \<le> 100"
  shows "nearest_rank percent n < n" "n * percent \<le> 100 * (nearest_rank percent n + 1)" "100 * nearest_rank percent n < n * percent"
proof -
  have m: "m \<le> 100 * ((m + 99) div 100 - 1 + 1) \<and> 100 * ((m + 99) div 100 - 1) < m" if "0 < m" for m :: nat
  proof -
    define q where "q = (m + 99) div 100"
    have "100 * q + (m + 99) mod 100 = m + 99" by (simp add: q_def)
    moreover have "(m + 99) mod 100 < 100" by simp
    ultimately have "m \<le> 100 * q" "100 * q \<le> m + 99" by linarith+
    moreover have "0 < q" using that \<open>m \<le> 100 * q\<close> by (cases q) auto
    ultimately show ?thesis unfolding q_def [symmetric] using that by (auto simp: diff_mult_distrib2)
  qed
  have pos: "0 < n * percent" and le: "n * percent \<le> 100 * n" using assms by simp_all
  show "n * percent \<le> 100 * (nearest_rank percent n + 1)" and below: "100 * nearest_rank percent n < n * percent"
    using m [OF pos] by (simp_all add: nearest_rank_def)
  then show "nearest_rank percent n < n" using le by linarith
qed

lemma sorted_count_le:
  assumes "sorted xs" and "k < length xs"
  shows "k + 1 \<le> length (filter (\<lambda>x. x \<le> xs ! k) xs)" and "length (filter (\<lambda>x. x < xs ! k) xs) \<le> k"
proof -
  have "set [0..<k + 1] \<subseteq> {i. i < length xs \<and> xs ! i \<le> xs ! k}" using assms by (auto intro: sorted_nth_mono)
  then have "card (set [0..<k + 1]) \<le> card {i. i < length xs \<and> xs ! i \<le> xs ! k}" by (intro card_mono) simp_all
  then show "k + 1 \<le> length (filter (\<lambda>x. x \<le> xs ! k) xs)" by (simp add: length_filter_conv_card)
  have "{i. i < length xs \<and> xs ! i < xs ! k} \<subseteq> {..<k}"
    using assms by (auto simp: not_le [symmetric] dest: sorted_nth_mono)
  then have "card {i. i < length xs \<and> xs ! i < xs ! k} \<le> card {..<k}" by (intro card_mono) simp_all
  then show "length (filter (\<lambda>x. x < xs ! k) xs) \<le> k" by (simp add: length_filter_conv_card)
qed

lemma filter_sort_length: "length (filter P (sort xs)) = length (filter P xs)"
  by (metis filter_sort length_sort)

lemma nearest_rank_sorted:
  assumes "xs \<noteq> []" and "0 < percent" and "percent \<le> 100"
  defines "v \<equiv> sort xs ! nearest_rank percent (length xs)"
  shows "v \<in> set xs" "length xs * percent \<le> 100 * length (filter (\<lambda>x. x \<le> v) xs)" "100 * length (filter (\<lambda>x. x < v) xs) < length xs * percent"
proof -
  note r = nearest_rank_bounds [OF _ assms(2,3), of "length xs"]
  have n: "nearest_rank percent (length xs) < length (sort xs)" using assms(1) r(1) by simp
  show "v \<in> set xs" using nth_mem [OF n] by (simp add: v_def)
  have "nearest_rank percent (length xs) + 1 \<le> length (filter (\<lambda>x. x \<le> v) xs)" "length (filter (\<lambda>x. x < v) xs) \<le> nearest_rank percent (length xs)"
    using sorted_count_le [OF sorted_sort n] by (simp_all add: v_def filter_sort_length)
  then show "length xs * percent \<le> 100 * length (filter (\<lambda>x. x \<le> v) xs)" "100 * length (filter (\<lambda>x. x < v) xs) < length xs * percent"
    using r(2,3) assms(1) by simp_all
qed

text \<open>A reported percentile is a sample: at least that share of the samples is at most it, and less than
  that share is below it; the maximum is the greatest sample.\<close>

theorem logbench_percentiles_exact:
  assumes "samples \<noteq> []"
  shows "llP95 (latencies samples) \<in> set samples \<and> llP99 (latencies samples) \<in> set samples \<and> llMax (latencies samples) \<in> set samples \<and>
    length samples * 95 \<le> 100 * length (filter (\<lambda>x. x \<le> llP95 (latencies samples)) samples) \<and>
    100 * length (filter (\<lambda>x. x < llP95 (latencies samples)) samples) < length samples * 95 \<and>
    length samples * 99 \<le> 100 * length (filter (\<lambda>x. x \<le> llP99 (latencies samples)) samples) \<and>
    100 * length (filter (\<lambda>x. x < llP99 (latencies samples)) samples) < length samples * 99 \<and>
    (\<forall>x \<in> set samples. x \<le> llMax (latencies samples))"
proof -
  have n: "length samples - 1 < length (sort samples)" using assms by simp
  have "sort samples ! (length samples - 1) \<in> set samples" using nth_mem [OF n] by simp
  moreover have "x \<le> sort samples ! (length samples - 1)" if x: "x \<in> set samples" for x
  proof -
    obtain i where "i < length (sort samples)" "sort samples ! i = x" using x by (metis in_set_conv_nth set_sort)
    then show ?thesis using sorted_nth_mono [OF sorted_sort [of samples], of i "length samples - 1"] n by simp
  qed
  ultimately show ?thesis
    using nearest_rank_sorted [OF assms, of 95] nearest_rank_sorted [OF assms, of 99] assms
    by (simp add: latencies_def Let_def)
qed

lemma logbench_percentiles_exact_witness: "llP95 (latencies [3, 1, 2]) \<in> {1, 2, 3}"
  using logbench_percentiles_exact [of "[3, 1, 2]"] by auto

section \<open>Counts\<close>

lemma bucket_index_less: "0 < n \<Longrightarrow> bucket_index start n ns < n"
  by (auto simp: bucket_index_def Let_def)

lemma in_bucket_frame [simp]:
  "usDispatched (in_bucket start ns f s) = usDispatched s" "usSkipped (in_bucket start ns f s) = usSkipped s"
  "usRecorded (in_bucket start ns f s) = usRecorded s" "usNotOpen (in_bucket start ns f s) = usNotOpen s"
  "usClosed (in_bucket start ns f s) = usClosed s" "usBusy (in_bucket start ns f s) = usBusy s"
  "usRejected (in_bucket start ns f s) = usRejected s" "usUnknown (in_bucket start ns f s) = usUnknown s"
  "usConfirmed (in_bucket start ns f s) = usConfirmed s" "length (usBuckets (in_bucket start ns f s)) = length (usBuckets s)"
  "usReasons (in_bucket start ns f s) = usReasons s"
  by (simp_all add: in_bucket_def Let_def)

definition bucket_sum :: "(lb_bucket \<Rightarrow> nat) \<Rightarrow> lb_summary \<Rightarrow> nat" where
  "bucket_sum g s = sum_list (map g (usBuckets s))"

lemma in_bucket_sum:
  assumes "0 < length (usBuckets s)" and "\<And>b. g (f b) = g b + k"
  shows "bucket_sum g (in_bucket start ns f s) = bucket_sum g s + k"
proof -
  let ?i = "bucket_index start (length (usBuckets s)) ns"
  have "?i < length (map g (usBuckets s))" using bucket_index_less [OF assms(1)] by simp
  then have "sum_list ((map g (usBuckets s))[?i := g (usBuckets s ! ?i) + k]) = sum_list (map g (usBuckets s)) + k"
    using sum_list_update_nat [of ?i "map g (usBuckets s)" "g (usBuckets s ! ?i) + k"] elem_le_sum_list [of ?i "map g (usBuckets s)"] by simp
  then show ?thesis by (simp add: bucket_sum_def in_bucket_def Let_def map_update assms(2))
qed

lemma bucket_sum_frame [simp]:
  "bucket_sum g (s\<lparr>usDispatched := n\<rparr>) = bucket_sum g s" "bucket_sum g (s\<lparr>usSkipped := n\<rparr>) = bucket_sum g s"
  "bucket_sum g (s\<lparr>usRecorded := n\<rparr>) = bucket_sum g s" "bucket_sum g (s\<lparr>usNotOpen := n\<rparr>) = bucket_sum g s"
  "bucket_sum g (s\<lparr>usClosed := n\<rparr>) = bucket_sum g s" "bucket_sum g (s\<lparr>usBusy := n\<rparr>) = bucket_sum g s"
  "bucket_sum g (s\<lparr>usRejected := n\<rparr>) = bucket_sum g s" "bucket_sum g (s\<lparr>usUnknown := n\<rparr>) = bucket_sum g s"
  "bucket_sum g (s\<lparr>usReasons := r\<rparr>) = bucket_sum g s" "bucket_sum g (s\<lparr>usConfirmed := b\<rparr>) = bucket_sum g s"
  "bucket_sum g (s\<lparr>usAfterDeadline := n\<rparr>) = bucket_sum g s" "bucket_sum g (s\<lparr>usLateCommit := n\<rparr>) = bucket_sum g s"
  by (simp_all add: bucket_sum_def)

lemma add_reason_sum: "sum_list (map snd (add_reason r rs)) = sum_list (map snd rs) + 1" if "distinct (map fst rs)"
proof -
  have "sum_list (map snd (AList.update r n rs)) + (case map_of rs r of None \<Rightarrow> 0 | Some m \<Rightarrow> m) = sum_list (map snd rs) + n" for n :: nat
    by (induction rs) auto
  from this [of "(case map_of rs r of None \<Rightarrow> 0 | Some n \<Rightarrow> n) + 1"] show ?thesis by (simp add: add_reason_def)
qed

definition tally_of :: "outcome \<Rightarrow> lb_entry list \<Rightarrow> nat" where
  "tally_of x es = length (filter (\<lambda>e. leOutcome e = x) es)"

definition answered :: "outcome list" where
  "answered = [outRecorded, outNotOpen, outClosed, outBusy, outRejected, outUnknown]"

definition summary_inv :: "lb_config \<Rightarrow> lb_entry list \<Rightarrow> lb_summary \<Rightarrow> bool" where
  "summary_inv c es s \<longleftrightarrow> 0 < length (usBuckets s) \<and> length (usConfirmed s) = nat (lb_keys c) \<and> distinct (map fst (usReasons s)) \<and>
     usRecorded s = tally_of outRecorded es \<and> usNotOpen s = tally_of outNotOpen es \<and> usClosed s = tally_of outClosed es \<and>
     usBusy s = tally_of outBusy es \<and> usRejected s = tally_of outRejected es \<and> usUnknown s = tally_of outUnknown es \<and>
     usSkipped s = length (filter (\<lambda>e. leOutcome e \<notin> set answered) es) \<and> sum_list (map snd (usReasons s)) = usSkipped s \<and>
     usDispatched s = length (filter (\<lambda>e. leDispatchNS e > 0) es) \<and> bucket_sum ubScheduled s = length es \<and>
     bucket_sum ubRecorded s = usRecorded s \<and> bucket_sum ubDispatched s = usDispatched s \<and> bucket_sum ubSkipped s = usSkipped s \<and>
     (\<forall>k < nat (lb_keys c). usConfirmed s ! k \<longleftrightarrow> (\<exists>e \<in> set es. leOutcome e = outRecorded \<and> unat (leKey e) = k))"

lemmas entry_defs = summarize_entry_def count_dispatch_def count_outcome_def Let_def

lemma entry_counts:
  "usRecorded (summarize_entry c start s e) = usRecorded s + of_bool (leOutcome e = outRecorded)"
  "usNotOpen (summarize_entry c start s e) = usNotOpen s + of_bool (leOutcome e = outNotOpen)"
  "usClosed (summarize_entry c start s e) = usClosed s + of_bool (leOutcome e = outClosed)"
  "usBusy (summarize_entry c start s e) = usBusy s + of_bool (leOutcome e = outBusy)"
  "usRejected (summarize_entry c start s e) = usRejected s + of_bool (leOutcome e = outRejected)"
  "usUnknown (summarize_entry c start s e) = usUnknown s + of_bool (leOutcome e = outUnknown)"
  "usSkipped (summarize_entry c start s e) = usSkipped s + of_bool (leOutcome e \<notin> set answered)"
  "usDispatched (summarize_entry c start s e) = usDispatched s + of_bool (leDispatchNS e > 0)"
  "length (usBuckets (summarize_entry c start s e)) = length (usBuckets s)"
  "usReasons (summarize_entry c start s e) =
     (if leOutcome e \<notin> set answered then add_reason (outcome_text (leOutcome e)) (usReasons s) else usReasons s)"
  "usConfirmed (summarize_entry c start s e) =
     (if leOutcome e = outRecorded then (usConfirmed s)[unat (leKey e) := True] else usConfirmed s)"
  by (simp_all add: entry_defs outcome_defs answered_def)

lemma entry_sums:
  assumes "0 < length (usBuckets s)"
  shows "bucket_sum ubScheduled (summarize_entry c start s e) = bucket_sum ubScheduled s + 1"
    "bucket_sum ubRecorded (summarize_entry c start s e) = bucket_sum ubRecorded s + of_bool (leOutcome e = outRecorded)"
    "bucket_sum ubDispatched (summarize_entry c start s e) = bucket_sum ubDispatched s + of_bool (leDispatchNS e > 0)"
    "bucket_sum ubSkipped (summarize_entry c start s e) = bucket_sum ubSkipped s + of_bool (leOutcome e \<notin> set answered)"
  using assms by (simp_all add: entry_defs outcome_defs answered_def in_bucket_sum [where k = 0] in_bucket_sum [where k = 1])

lemma tally_snoc: "tally_of x (es @ [e]) = tally_of x es + of_bool (leOutcome e = x)"
  by (simp add: tally_of_def)

lemma summary_inv_step:
  assumes inv: "summary_inv c es s" and key: "uint (leKey e) < lb_keys c"
  shows "summary_inv c (es @ [e]) (summarize_entry c start s e)"
proof -
  have "int (unat (leKey e)) < lb_keys c" using key by simp
  then have k: "unat (leKey e) < nat (lb_keys c)" by linarith
  have pos: "0 < length (usBuckets s)" and d: "distinct (map fst (usReasons s))" and len: "length (usConfirmed s) = nat (lb_keys c)"
    and bit: "\<forall>k < nat (lb_keys c). usConfirmed s ! k \<longleftrightarrow> (\<exists>e \<in> set es. leOutcome e = outRecorded \<and> unat (leKey e) = k)"
    using inv by (simp_all add: summary_inv_def)
  have "distinct (map fst (add_reason x (usReasons s)))" for x using d by (simp add: add_reason_def AList.distinct_update)
  moreover have "\<forall>k < nat (lb_keys c). usConfirmed (summarize_entry c start s e) ! k \<longleftrightarrow>
      (\<exists>e \<in> set (es @ [e]). leOutcome e = outRecorded \<and> unat (leKey e) = k)"
    using bit k len by (auto simp: entry_counts nth_list_update)
  ultimately show ?thesis
    using inv d unfolding summary_inv_def by (simp add: entry_counts entry_sums [OF pos] tally_snoc add_reason_sum)
qed

lemma summary_inv_fold:
  assumes "\<forall>e \<in> set es. uint (leKey e) < lb_keys c" and "0 \<le> lbDuration c" and "0 \<le> lbDrain c"
  shows "summary_inv c es (foldl (summarize_entry c start) (empty_summary c) es)"
  using assms(1)
proof (induction es rule: rev_induct)
  case Nil
  have "0 \<le> lbDuration c sdiv second" "0 \<le> lbDrain c sdiv second" using assms(2,3) by (simp_all add: sdiv_nonneg)
  then have "0 < bucket_count c" by (simp add: bucket_count_def)
  then show ?case
    by (simp add: summary_inv_def empty_summary_def tally_of_def bucket_sum_def zero_lb_bucket_def)
next
  case (snoc e es)
  then show ?case by (simp add: summary_inv_step)
qed

lemma outcome_partition:
  "tally_of outRecorded es + tally_of outNotOpen es + tally_of outClosed es + tally_of outBusy es + tally_of outRejected es +
     tally_of outUnknown es + length (filter (\<lambda>e. leOutcome e \<notin> set answered) es) = length es"
  by (induction es) (auto simp: tally_of_def answered_def outcome_defs)

text \<open>The summary accounts for every planned attempt once: its categories add up to the plan, they and the
  seconds of the timeline agree with the ledger entries, the skip reasons add up to the skipped
  attempts, and a key is confirmed exactly when one of its attempts was recorded.\<close>

theorem logbench_summary_exact:
  fixes c :: lb_config and start :: time and entries :: "lb_entry list"
  defines "r \<equiv> summarize c start entries"
  defines "s \<equiv> uwSummary r"
  assumes keys: "\<forall>e \<in> set entries. uint (leKey e) < lb_keys c" and times: "0 \<le> lbDuration c" "0 \<le> lbDrain c"
  shows "uwPlanned r = usRecorded s + usNotOpen s + usClosed s + usBusy s + usRejected s + usUnknown s + usSkipped s \<and>
    usRecorded s = length (filter (\<lambda>e. leOutcome e = outRecorded) entries) \<and>
    usUnknown s = length (filter (\<lambda>e. leOutcome e = outUnknown) entries) \<and>
    usDispatched s = length (filter (\<lambda>e. leDispatchNS e > 0) entries) \<and>
    sum_list (map snd (usReasons s)) = usSkipped s \<and> sum_list (map ubScheduled (usBuckets s)) = uwPlanned r \<and>
    sum_list (map ubRecorded (usBuckets s)) = usRecorded s \<and> sum_list (map ubDispatched (usBuckets s)) = usDispatched s \<and>
    uwConfirmedKeys r = card (leKey ` {e \<in> set entries. leOutcome e = outRecorded})"
proof -
  have s: "s = foldl (summarize_entry c start) (empty_summary c) entries" by (simp add: s_def r_def summarize_def Let_def)
  have inv: "summary_inv c entries s" unfolding s by (rule summary_inv_fold [OF keys times])
  have planned: "uwPlanned r = length entries" by (simp add: r_def summarize_def Let_def)
  have len: "length (usConfirmed s) = nat (lb_keys c)" using inv by (simp add: summary_inv_def)
  have bit: "usConfirmed s ! k \<longleftrightarrow> (\<exists>e \<in> set entries. leOutcome e = outRecorded \<and> unat (leKey e) = k)" if "k < nat (lb_keys c)" for k
    using inv that unfolding summary_inv_def by blast
  have below: "unat (leKey e) < nat (lb_keys c)" if "e \<in> set entries" for e
  proof -
    have "int (unat (leKey e)) < lb_keys c" using keys that by simp
    then show ?thesis by linarith
  qed
  have "uwConfirmedKeys r = card {k. k < nat (lb_keys c) \<and> usConfirmed s ! k}"
    by (simp add: s r_def summarize_def Let_def length_filter_conv_card len [unfolded s])
  also have "{k. k < nat (lb_keys c) \<and> usConfirmed s ! k} = unat ` leKey ` {e \<in> set entries. leOutcome e = outRecorded}"
    using bit below by auto
  also have "card \<dots> = card (leKey ` {e \<in> set entries. leOutcome e = outRecorded})"
    by (rule card_image) (simp add: inj_on_def word_unat_eq_iff)
  finally show ?thesis
    using inv outcome_partition [of entries] unfolding summary_inv_def bucket_sum_def tally_of_def planned by simp
qed

definition demo_lb_run :: "lb_entry list" where
  "demo_lb_run = [(planned_entry zero16 3)\<lparr>leOutcome := outRecorded, leDispatchNS := 5\<rparr>]"

lemma logbench_summary_exact_witness: "uwConfirmedKeys (summarize (lb_defaults []) 0 demo_lb_run) = 1"
proof -
  have "\<forall>e \<in> set demo_lb_run. uint (leKey e) < lb_keys (lb_defaults [])" "0 \<le> lbDuration (lb_defaults [])" "0 \<le> lbDrain (lb_defaults [])"
    by (simp_all add: demo_lb_run_def planned_entry_def lb_defaults_def lb_keys_def)
  from logbench_summary_exact [OF this, of 0]
  have "uwConfirmedKeys (summarize (lb_defaults []) 0 demo_lb_run) = card (leKey ` {e \<in> set demo_lb_run. leOutcome e = outRecorded})" by simp
  also have "{e \<in> set demo_lb_run. leOutcome e = outRecorded} = set demo_lb_run" by (auto simp: demo_lb_run_def)
  finally show ?thesis by (simp add: demo_lb_run_def)
qed

end
