(* ===== verification/Frame_Audit.thy ===== *)
theory Frame_Audit
  imports Go_Bytes Go_Crypto
begin

text \<open>
  The streaming reconciliation of the frame benchmarks: \<^verbatim>\<open>cmd/filebench/audit.go\<close> and
  \<^verbatim>\<open>cmd/framebench/audit.go\<close> have the same code over the votes their journal replays, but for
  the bytes of a frame header and the check of the terminal position, which are arguments here.

  AES is a parameter: \<open>decrypt\<close> is the decryption with the private seed. A digest in progress is
  the list of the bytes written to it. Counters are natural numbers.
\<close>

section \<open>Attempts, receipts and votes\<close>

definition stateNever :: byte where "stateNever = 0"
definition stateUnknown :: byte where "stateUnknown = 1"
definition stateACK :: byte where "stateACK = 2"
definition stateRejected :: byte where "stateRejected = 3"

record states =
  stOriginal :: "byte list"
  stRepeat :: "byte list"

definition states_get :: "nat \<Rightarrow> u32 \<Rightarrow> states \<Rightarrow> byte" where
  "states_get key choice s = (if choice = 2 then stRepeat s ! key else stOriginal s ! key)"

definition states_set :: "nat \<Rightarrow> u32 \<Rightarrow> byte \<Rightarrow> states \<Rightarrow> states" where
  "states_set key choice state s =
     (if choice = 2 then s\<lparr>stRepeat := (stRepeat s)[key := state]\<rparr> else s\<lparr>stOriginal := (stOriginal s)[key := state]\<rparr>)"

record ack_frame =
  akPartition :: int
  akCount :: nat
  akOffset :: int
  akAdmittedNS :: int
  akDigest :: "byte list"

text \<open>A replayed vote with its position.\<close>

record journal_vote =
  jvPartition :: int
  jvOffset :: int
  jvIndex :: nat
  jvToken :: "byte list"
  jvChoice :: u32
  jvAdmittedAt :: time

text \<open>What the audit uses of the manifest of a run.\<close>

record frame_run =
  frKeys :: nat
  frRepeatEvery :: nat
  frPartitions :: nat
  frStartsAt :: time
  frEndsAt :: time

definition unix_ns :: "time \<Rightarrow> int" where
  "unix_ns t = timeOfNano (unixNano t)"

definition decodeKey :: "(byte list \<Rightarrow> byte list) \<Rightarrow> byte list \<Rightarrow> nat \<Rightarrow> nat option" where
  "decodeKey decrypt token keys =
     (let counter = decrypt token; n = unat (get_be (drop 8 counter) :: u64) in
      if (get_be (take 8 counter) :: u64) \<noteq> 0 \<or> n = 0 \<or> n > keys then None else Some (n - 1))"

definition encoded_vote :: "byte list \<Rightarrow> u32 \<Rightarrow> byte list" where
  "encoded_vote token choice = take 16 token @ put_be 4 choice"

section \<open>The report\<close>

record frame_report =
  rfRecordedAttempts :: nat
  rfRecordedFrames :: nat
  rfMatchedFrames :: nat
  rfMatchedAttempts :: nat
  rfUnknownResolved :: nat
  rfCanonicalKeys :: nat
  rfDuplicates :: nat
  rfChoices :: "nat list"
  rfUnexpected :: nat
  rfCopies :: nat
  rfMismatches :: nat
  rfPayloadBytes :: nat

record accumulator =
  acActive :: bool
  acOffset :: int
  acNext :: nat
  acAdmittedNS :: int
  acData :: "byte list"

datatype frame_error = DuplicateReceipt | StatesDiffer | InvalidPosition | MovedBackwards | FrameMismatch | IndexSequence | OutsideWindow
  | OutsidePermutation | UnexpectedChoice | NeverCommitted | CommittedTwice | AckElsewhere | UnknownInAck | ReplayFailed nat | TerminalPosition
  | ReconciliationFailed

record audit_state =
  asReport :: frame_report
  asAcc :: "accumulator list"
  asSeen :: "byte list"

type_synonym audit_result = "audit_state \<times> frame_error option"

text \<open>Go on unless an error was returned.\<close>

definition and_then :: "audit_result \<Rightarrow> (audit_state \<Rightarrow> audit_result) \<Rightarrow> audit_result" where
  "and_then r f = (case r of (st, None) \<Rightarrow> f st | (st, Some e) \<Rightarrow> (st, Some e))"

definition in_report :: "(frame_report \<Rightarrow> frame_report) \<Rightarrow> audit_state \<Rightarrow> audit_state" where
  "in_report f st = st\<lparr>asReport := f (asReport st)\<rparr>"

definition unexpected :: "frame_error \<Rightarrow> audit_state \<Rightarrow> audit_result" where
  "unexpected e st = (in_report (\<lambda>r. r\<lparr>rfUnexpected := rfUnexpected r + 1\<rparr>) st, Some e)"

definition mismatch :: "frame_error \<Rightarrow> audit_state \<Rightarrow> audit_result" where
  "mismatch e st = (in_report (\<lambda>r. r\<lparr>rfMismatches := rfMismatches r + 1\<rparr>) st, Some e)"

definition set_acc :: "nat \<Rightarrow> accumulator \<Rightarrow> audit_state \<Rightarrow> audit_state" where
  "set_acc p a st = st\<lparr>asAcc := (asAcc st)[p := a]\<rparr>"

section \<open>Frames\<close>

definition receipt_at :: "ack_frame list \<Rightarrow> int \<Rightarrow> int \<Rightarrow> ack_frame option" where
  "receipt_at acks p o1 = find (\<lambda>a. akPartition a = p \<and> akOffset a = o1) acks"

text \<open>The end of a frame.\<close>

definition flush_frame :: "nat \<Rightarrow> ack_frame list \<Rightarrow> nat \<Rightarrow> audit_state \<Rightarrow> audit_result" where
  "flush_frame header acks p st =
     (let a = asAcc st ! p in
      if \<not> acActive a then (st, None)
      else let st = in_report (\<lambda>r. r\<lparr>rfRecordedFrames := rfRecordedFrames r + 1, rfPayloadBytes := rfPayloadBytes r + header + 28 * acNext a\<rparr>) st in
        case receipt_at acks (int p) (acOffset a) of
          None \<Rightarrow> (set_acc p (a\<lparr>acActive := False\<rparr>) st, None)
        | Some ack \<Rightarrow>
            if acNext a \<noteq> akCount ack \<or> acAdmittedNS a \<noteq> akAdmittedNS ack \<or> sha256 (acData a) \<noteq> akDigest ack
            then mismatch FrameMismatch st
            else (set_acc p (a\<lparr>acActive := False\<rparr>) (in_report (\<lambda>r. r\<lparr>rfMatchedFrames := rfMatchedFrames r + 1\<rparr>) st), None))"

text \<open>The frame of a vote: a new one when its offset differs, and the next index of it.\<close>

definition enter_frame :: "nat \<Rightarrow> ack_frame list \<Rightarrow> journal_vote \<Rightarrow> audit_state \<Rightarrow> audit_result" where
  "enter_frame header acks v st =
     (let p = nat (jvPartition v); a = asAcc st ! p in
      if \<not> acActive a \<or> acOffset a \<noteq> jvOffset v then
        if acActive a \<and> jvOffset v < acOffset a then mismatch MovedBackwards st
        else and_then (flush_frame header acks p st) (\<lambda>st.
          (set_acc p \<lparr>acActive = True, acOffset = jvOffset v, acNext = 0, acAdmittedNS = unix_ns (jvAdmittedAt v), acData = []\<rparr> st, None))
      else (st, None))"

definition next_index :: "journal_vote \<Rightarrow> audit_state \<Rightarrow> audit_result" where
  "next_index v st =
     (let p = nat (jvPartition v); a = asAcc st ! p in
      if jvIndex v \<noteq> acNext a \<or> unix_ns (jvAdmittedAt v) \<noteq> acAdmittedNS a then mismatch IndexSequence st
      else (set_acc p (a\<lparr>acNext := acNext a + 1\<rparr>) st, None))"

section \<open>Attempts\<close>

definition repeated_key :: "frame_run \<Rightarrow> nat \<Rightarrow> bool" where
  "repeated_key m key \<longleftrightarrow> frRepeatEvery m \<noteq> 0 \<and> (key + 1) mod frRepeatEvery m = 0"

definition count_vote :: "nat \<Rightarrow> u32 \<Rightarrow> audit_state \<Rightarrow> audit_state" where
  "count_vote key choice st =
     (let st = (if asSeen st ! key = 0
          then in_report (\<lambda>r. r\<lparr>rfCanonicalKeys := rfCanonicalKeys r + 1,
            rfChoices := (rfChoices r)[unat choice - 1 := rfChoices r ! (unat choice - 1) + 1]\<rparr>) st
          else in_report (\<lambda>r. r\<lparr>rfDuplicates := rfDuplicates r + 1\<rparr>) st)
      in st\<lparr>asSeen := (asSeen st)[key := asSeen st ! key OR ucast choice]\<rparr>)"

definition match_attempt :: "ack_frame list \<Rightarrow> byte \<Rightarrow> journal_vote \<Rightarrow> audit_state \<Rightarrow> audit_result" where
  "match_attempt acks state v st =
     (let known = receipt_at acks (jvPartition v) (jvOffset v) \<noteq> None in
      if state = stateACK then
        if \<not> known then mismatch AckElsewhere st
        else (in_report (\<lambda>r. r\<lparr>rfMatchedAttempts := rfMatchedAttempts r + 1\<rparr>) st, None)
      else if known then mismatch UnknownInAck st
      else (in_report (\<lambda>r. r\<lparr>rfUnknownResolved := rfUnknownResolved r + 1\<rparr>) st, None))"

definition digest_vote :: "journal_vote \<Rightarrow> audit_state \<Rightarrow> audit_result" where
  "digest_vote v st =
     (let p = nat (jvPartition v); a = asAcc st ! p;
          st = set_acc p (a\<lparr>acData := acData a @ encoded_vote (jvToken v) (jvChoice v)\<rparr>) st
      in (in_report (\<lambda>r. r\<lparr>rfRecordedAttempts := rfRecordedAttempts r + 1\<rparr>) st, None))"

definition check_attempt ::
  "(byte list \<Rightarrow> byte list) \<Rightarrow> frame_run \<Rightarrow> states \<Rightarrow> ack_frame list \<Rightarrow> journal_vote \<Rightarrow> audit_state \<Rightarrow> audit_result" where
  "check_attempt decrypt m s acks v st =
     (if jvAdmittedAt v < frStartsAt m \<or> \<not> jvAdmittedAt v < frEndsAt m then unexpected OutsideWindow st
      else case decodeKey decrypt (jvToken v) (frKeys m) of
        None \<Rightarrow> unexpected OutsidePermutation st
      | Some key \<Rightarrow>
          if jvChoice v \<noteq> 1 \<and> (jvChoice v \<noteq> 2 \<or> \<not> repeated_key m key) then unexpected UnexpectedChoice st
          else let state = states_get key (jvChoice v) s in
            if state \<noteq> stateACK \<and> state \<noteq> stateUnknown then unexpected NeverCommitted st
            else if asSeen st ! key AND ucast (jvChoice v) \<noteq> 0
            then (in_report (\<lambda>r. r\<lparr>rfCopies := rfCopies r + 1\<rparr>) st, Some CommittedTwice)
            else match_attempt acks state v (count_vote key (jvChoice v) st))"

definition visit_vote ::
  "nat \<Rightarrow> (byte list \<Rightarrow> byte list) \<Rightarrow> frame_run \<Rightarrow> states \<Rightarrow> ack_frame list \<Rightarrow> journal_vote \<Rightarrow> audit_state \<Rightarrow> audit_result" where
  "visit_vote header decrypt m s acks v st =
     (if jvPartition v < 0 \<or> jvPartition v \<ge> int (length (asAcc st)) \<or> jvOffset v < 0 then unexpected InvalidPosition st
      else and_then (and_then (and_then (enter_frame header acks v st) (next_index v)) (check_attempt decrypt m s acks v)) (digest_vote v))"

section \<open>The reconciliation\<close>

fun visit_votes :: "(journal_vote \<Rightarrow> audit_state \<Rightarrow> audit_result) \<Rightarrow> journal_vote list \<Rightarrow> audit_state \<Rightarrow> audit_result" where
  "visit_votes f [] st = (st, None)"
| "visit_votes f (v # vs) st = and_then (f v st) (visit_votes f vs)"

fun flush_all :: "nat \<Rightarrow> ack_frame list \<Rightarrow> nat list \<Rightarrow> audit_state \<Rightarrow> audit_result" where
  "flush_all header acks [] st = (st, None)"
| "flush_all header acks (p # ps) st = and_then (flush_frame header acks p st) (flush_all header acks ps)"

text \<open>What the replay visited and returned: the ends of its manifest, or an error.\<close>

record journal_replay =
  jrVotes :: "journal_vote list"
  jrResult :: "nat + (int \<times> int) list"

definition empty_frame_report :: frame_report where
  "empty_frame_report = \<lparr>rfRecordedAttempts = 0, rfRecordedFrames = 0, rfMatchedFrames = 0, rfMatchedAttempts = 0, rfUnknownResolved = 0,
     rfCanonicalKeys = 0, rfDuplicates = 0, rfChoices = replicate 32 0, rfUnexpected = 0, rfCopies = 0, rfMismatches = 0, rfPayloadBytes = 0\<rparr>"

definition zero_accumulator :: accumulator where
  "zero_accumulator = \<lparr>acActive = False, acOffset = 0, acNext = 0, acAdmittedNS = 0, acData = []\<rparr>"

definition audit_start :: "frame_run \<Rightarrow> audit_state" where
  "audit_start m = \<lparr>asReport = empty_frame_report, asAcc = replicate (frPartitions m) zero_accumulator, asSeen = replicate (frKeys m) 0\<rparr>"

definition confirmed_attempts :: "ack_frame list \<Rightarrow> nat" where
  "confirmed_attempts acks = sum_list (map akCount acks)"

definition ack_states :: "states \<Rightarrow> nat" where
  "ack_states s = length (filter (\<lambda>x. x = stateACK) (stOriginal s)) + length (filter (\<lambda>x. x = stateACK) (stRepeat s))"

text \<open>The replay with its visitor, then the last frame of every partition.\<close>

definition replay_audit ::
  "nat \<Rightarrow> (byte list \<Rightarrow> byte list) \<Rightarrow> frame_run \<Rightarrow> states \<Rightarrow> ack_frame list \<Rightarrow> journal_replay \<Rightarrow> audit_result \<times> (int \<times> int) list" where
  "replay_audit header decrypt m s acks replay =
     (case visit_votes (visit_vote header decrypt m s acks) (jrVotes replay) (audit_start m) of
        (st, Some e) \<Rightarrow> ((st, Some e), [])
      | (st, None) \<Rightarrow>
          (case jrResult replay of
             Inl e \<Rightarrow> ((st, Some (ReplayFailed e)), [])
           | Inr ends \<Rightarrow> (flush_all header acks [0..<frPartitions m] st, ends)))"

record frame_audit =
  fzCorrect :: bool
  fzClosedPartitions :: nat
  fzConfirmedAttempts :: nat
  fzConfirmedFrames :: nat
  fzMissingFrames :: int
  fzMissingAttempts :: int
  fzReport :: frame_report

definition early_audit :: "ack_frame list \<Rightarrow> nat \<Rightarrow> frame_audit" where
  "early_audit acks confirmed = \<lparr>fzCorrect = False, fzClosedPartitions = 0, fzConfirmedAttempts = confirmed,
     fzConfirmedFrames = length acks, fzMissingFrames = 0, fzMissingAttempts = 0, fzReport = empty_frame_report\<rparr>"

text \<open>The receipts before the first repeated position.\<close>

fun distinct_receipts :: "ack_frame list \<Rightarrow> ack_frame list \<Rightarrow> ack_frame list \<times> bool" where
  "distinct_receipts seen [] = (seen, True)"
| "distinct_receipts seen (a # as) =
     (if receipt_at seen (akPartition a) (akOffset a) \<noteq> None then (seen, False) else distinct_receipts (seen @ [a]) as)"

definition frame_reconcile ::
  "nat \<Rightarrow> (audit_state \<Rightarrow> (int \<times> int) list \<Rightarrow> bool) \<Rightarrow> (byte list \<Rightarrow> byte list) \<Rightarrow> bool \<Rightarrow> frame_run \<Rightarrow> states \<Rightarrow> ack_frame list
     \<Rightarrow> journal_replay \<Rightarrow> frame_audit \<times> frame_error option" where
  "frame_reconcile header terminal_bad decrypt ctx_done m s acks replay =
     (case distinct_receipts [] acks of
        (seen, False) \<Rightarrow> (early_audit acks (confirmed_attempts seen), Some DuplicateReceipt)
      | (_, True) \<Rightarrow>
          if ack_states s \<noteq> confirmed_attempts acks then (early_audit acks (confirmed_attempts acks), Some StatesDiffer)
          else let ((st, err), ends) = replay_audit header decrypt m s acks replay;
            err = (if err = None \<and> terminal_bad st ends then Some TerminalPosition else err);
            r = asReport st;
            missing_frames = int (length acks) - int (rfMatchedFrames r);
            missing_attempts = int (confirmed_attempts acks) - int (rfMatchedAttempts r);
            correct = (err = None \<and> \<not> ctx_done \<and> length ends = frPartitions m \<and> missing_frames = 0 \<and> missing_attempts = 0 \<and>
              rfUnexpected r = 0 \<and> rfCopies r = 0 \<and> rfMismatches r = 0)
          in (\<lparr>fzCorrect = correct, fzClosedPartitions = length ends, fzConfirmedAttempts = confirmed_attempts acks,
                fzConfirmedFrames = length acks, fzMissingFrames = missing_frames, fzMissingAttempts = missing_attempts, fzReport = r\<rparr>,
              if err = None \<and> \<not> correct then Some ReconciliationFailed else err))"

section \<open>The two benchmarks\<close>

text \<open>The local journal has one partition, 40 header bytes, and its terminal frame follows all others.\<close>

definition file_terminal_bad :: "audit_state \<Rightarrow> (int \<times> int) list \<Rightarrow> bool" where
  "file_terminal_bad st ends =
     (case ends of
        [(p, o1)] \<Rightarrow> p \<noteq> 0 \<or> o1 < 0 \<or> (rfRecordedFrames (asReport st) > 0 \<and> o1 \<le> acOffset (asAcc st ! 0))
      | _ \<Rightarrow> True)"

definition filebench_reconcile ::
  "(byte list \<Rightarrow> byte list) \<Rightarrow> bool \<Rightarrow> frame_run \<Rightarrow> states \<Rightarrow> ack_frame list \<Rightarrow> journal_replay \<Rightarrow> frame_audit \<times> frame_error option" where
  "filebench_reconcile = frame_reconcile 40 file_terminal_bad"

definition framebench_reconcile ::
  "(byte list \<Rightarrow> byte list) \<Rightarrow> bool \<Rightarrow> frame_run \<Rightarrow> states \<Rightarrow> ack_frame list \<Rightarrow> journal_replay \<Rightarrow> frame_audit \<times> frame_error option" where
  "framebench_reconcile = frame_reconcile 80 (\<lambda>st ends. False)"

end
