(* ===== verification/Frame_Workload.thy ===== *)
theory Frame_Workload
  imports Frame_Audit Bench_Measure
begin

text \<open>
  The workload of the frame benchmarks: \<^verbatim>\<open>cmd/filebench/workload.go\<close> and
  \<^verbatim>\<open>cmd/framebench/workload.go\<close> have the same generator and workers, but for the counters of
  malformed receipts and the bytes of a frame header, which are arguments here.

  The clock, the context, the room in the queue and the answers of the journal are arguments. A frame
  has one worker, and the attempts of different frames are different, so the workers are run one frame
  after the other. The keys of a valid configuration fit 32 bits; counters are natural numbers. The
  means of the report are floating point and are left out.
\<close>

section \<open>Configuration\<close>

text \<open>The fields of both configurations: brokers are framebench's, batches and the store queue filebench's.\<close>

record fb_config =
  fbAuditOnly :: string
  fbBrokers :: string
  fbRate :: int
  fbWorkers :: int
  fbQueue :: int
  fbFrameSize :: int
  fbPartitions :: int
  fbRepeatEvery :: int
  fbBatchSize :: int
  fbStoreQueue :: int
  fbAllowLarge :: bool
  fbMaxLag :: duration
  fbFrameAge :: duration
  fbTimeout :: duration
  fbDrain :: duration
  fbLinger :: duration

definition fb_keys :: "fb_config \<Rightarrow> int" where
  "fb_keys c = fbRate c * 60"

definition fb_attempts :: "fb_config \<Rightarrow> int" where
  "fb_attempts c = (if fbRepeatEvery c > 0 then fb_keys c + fb_keys c div fbRepeatEvery c else fb_keys c)"

section \<open>Frames and counters\<close>

type_synonym frame_input = "byte list \<times> u32"

record frame =
  fmInputs :: "frame_input list"
  fmKeys :: "nat list"
  fmFirst :: time
  fmPartition :: nat

record fb_counts =
  fnDispatched :: nat
  fnRecorded :: nat
  fnOriginal :: nat
  fnRepeat :: nat
  fnUnknown :: nat
  fnClosed :: nat
  fnNotOpen :: nat
  fnBusy :: nat
  fnRejected :: nat
  fnLagSkips :: nat
  fnQueueSkips :: nat
  fnDispatchedFrames :: nat
  fnRecordedFrames :: nat
  fnInvalid :: nat
  fnInvalidPartition :: nat
  fnInvalidCount :: nat
  fnInvalidOffset :: nat
  fnInvalidWindow :: nat

definition zero_counts :: fb_counts where
  "zero_counts = \<lparr>fnDispatched = 0, fnRecorded = 0, fnOriginal = 0, fnRepeat = 0, fnUnknown = 0, fnClosed = 0, fnNotOpen = 0, fnBusy = 0,
     fnRejected = 0, fnLagSkips = 0, fnQueueSkips = 0, fnDispatchedFrames = 0, fnRecordedFrames = 0, fnInvalid = 0, fnInvalidPartition = 0,
     fnInvalidCount = 0, fnInvalidOffset = 0, fnInvalidWindow = 0\<rparr>"

record fb_bucket =
  bkSecond :: nat
  bkPlanned :: int
  bkDispatched :: nat
  bkRecorded :: nat
  bkSkipped :: int
  bkActualDispatched :: nat
  bkActualRecorded :: nat

definition zero_fb_bucket :: fb_bucket where
  "zero_fb_bucket = \<lparr>bkSecond = 0, bkPlanned = 0, bkDispatched = 0, bkRecorded = 0, bkSkipped = 0, bkActualDispatched = 0, bkActualRecorded = 0\<rparr>"

record fb_stat =
  ftCounts :: fb_counts
  ftBuckets :: "fb_bucket list"
  ftSchedule :: histogram
  ftDispatch :: histogram
  ftAcks :: "ack_frame list"

definition zero_stat :: fb_stat where
  "zero_stat = \<lparr>ftCounts = zero_counts, ftBuckets = replicate 82 zero_fb_bucket, ftSchedule = empty_histogram, ftDispatch = empty_histogram, ftAcks = []\<rparr>"

definition in_counts :: "(fb_counts \<Rightarrow> fb_counts) \<Rightarrow> fb_stat \<Rightarrow> fb_stat" where
  "in_counts f s = s\<lparr>ftCounts := f (ftCounts s)\<rparr>"

definition in_fb_bucket :: "nat \<Rightarrow> (fb_bucket \<Rightarrow> fb_bucket) \<Rightarrow> fb_stat \<Rightarrow> fb_stat" where
  "in_fb_bucket i f s = s\<lparr>ftBuckets := (ftBuckets s)[i := f (ftBuckets s ! i)]\<rparr>"

definition frame_at :: "time \<Rightarrow> nat \<Rightarrow> int \<Rightarrow> time" where
  "frame_at start key rate = start + scheduledOffset (int key) rate"

definition frame_second :: "time \<Rightarrow> time \<Rightarrow> nat" where
  "frame_second start now = nat (min 81 (max 0 (time_sub now start sdiv second)))"

definition latency_add :: "duration \<Rightarrow> histogram \<Rightarrow> histogram" where
  "latency_add d h = histogram_add (word_of_int (max 0 d)) h"

definition frame_digest :: "frame_input list \<Rightarrow> byte list" where
  "frame_digest inputs = sha256 (concat (map (\<lambda>(token, choice). encoded_vote token choice) inputs))"

definition frame_attempts :: "frame \<Rightarrow> (nat \<times> frame_input) list" where
  "frame_attempts f = zip (fmKeys f) (fmInputs f)"

section \<open>The generator\<close>

record generator =
  gnBuffers :: "frame list"
  gnQueued :: "frame list"
  gnFlushes :: nat
  gnLagSkips :: nat
  gnQueueSkips :: nat

definition empty_frame :: "nat \<Rightarrow> frame" where
  "empty_frame p = \<lparr>fmInputs = [], fmKeys = [], fmFirst = jan1 1, fmPartition = p\<rparr>"

text \<open>\<open>room i\<close> tells whether the queue had room at the flush number \<open>i\<close>.\<close>

definition flush_buffer :: "(nat \<Rightarrow> bool) \<Rightarrow> nat \<Rightarrow> generator \<Rightarrow> generator" where
  "flush_buffer room p g =
     (let f = gnBuffers g ! p in
      if fmInputs f = [] then g
      else let g = (if room (gnFlushes g) then g\<lparr>gnQueued := gnQueued g @ [f]\<rparr> else g\<lparr>gnQueueSkips := gnQueueSkips g + length (fmInputs f)\<rparr>)
        in g\<lparr>gnBuffers := (gnBuffers g)[p := empty_frame p], gnFlushes := gnFlushes g + 1\<rparr>)"

definition append_input :: "fb_config \<Rightarrow> (nat \<Rightarrow> bool) \<Rightarrow> time \<Rightarrow> nat \<Rightarrow> nat \<Rightarrow> frame_input \<Rightarrow> generator \<Rightarrow> generator" where
  "append_input c room now p key inp g =
     (let f = gnBuffers g ! p;
          f = (if fmInputs f = [] then (empty_frame p)\<lparr>fmFirst := now\<rparr> else f);
          f = f\<lparr>fmInputs := fmInputs f @ [inp], fmKeys := fmKeys f @ [key]\<rparr>;
          g = g\<lparr>gnBuffers := (gnBuffers g)[p := f]\<rparr>
      in if int (length (fmInputs f)) = fbFrameSize c then flush_buffer room p g else g)"

definition frame_repeated :: "fb_config \<Rightarrow> nat \<Rightarrow> bool" where
  "frame_repeated c key \<longleftrightarrow> fbRepeatEvery c > 0 \<and> (int key + 1) mod fbRepeatEvery c = 0"

definition frame_token :: "(byte list \<Rightarrow> byte list) \<Rightarrow> nat \<Rightarrow> byte list" where
  "frame_token encrypt key = encrypt (replicate 8 0 @ put_be 8 (of_nat (key + 1) :: u64))"

definition generate_key ::
  "fb_config \<Rightarrow> (byte list \<Rightarrow> byte list) \<Rightarrow> (byte list \<Rightarrow> nat) \<Rightarrow> (nat \<Rightarrow> bool) \<Rightarrow> time \<Rightarrow> time \<Rightarrow> nat \<Rightarrow> generator \<Rightarrow> generator" where
  "generate_key c encrypt route room start now key g =
     (let repeated = frame_repeated c key in
      if time_sub now (frame_at start key (fbRate c)) > fbMaxLag c then g\<lparr>gnLagSkips := gnLagSkips g + (if repeated then 2 else 1)\<rparr>
      else let token = frame_token encrypt key; p = route token; g = append_input c room now p key (token, 1) g
        in if repeated then append_input c room now p key (token, 2) g else g)"

definition flush_aged :: "fb_config \<Rightarrow> (nat \<Rightarrow> bool) \<Rightarrow> time \<Rightarrow> nat \<Rightarrow> generator \<Rightarrow> generator" where
  "flush_aged c room now p g =
     (let f = gnBuffers g ! p in
      if fmInputs f \<noteq> [] \<and> time_sub now (fmFirst f) \<ge> fbFrameAge c then flush_buffer room p g else g)"

definition group_size :: "fb_config \<Rightarrow> nat" where
  "group_size c = nat (max 1 (min 256 (fbRate c sdiv 1000)))"

definition generate_group ::
  "fb_config \<Rightarrow> (byte list \<Rightarrow> byte list) \<Rightarrow> (byte list \<Rightarrow> nat) \<Rightarrow> (nat \<Rightarrow> bool) \<Rightarrow> time \<Rightarrow> time \<Rightarrow> nat \<Rightarrow> nat \<Rightarrow> generator \<Rightarrow> generator" where
  "generate_group c encrypt route room start now base n g =
     fold (generate_key c encrypt route room start now) [base..<base + n] (fold (flush_aged c room now) [0..<nat (fbPartitions c)] g)"

text \<open>\<open>clock base\<close> is the time at which the group of that first key is entered; none when the context ends before.\<close>

function generate_from ::
  "fb_config \<Rightarrow> (nat \<Rightarrow> time option) \<Rightarrow> (time \<Rightarrow> nat \<Rightarrow> nat \<Rightarrow> generator \<Rightarrow> generator) \<Rightarrow> nat \<Rightarrow> generator \<Rightarrow> generator" where
  "generate_from c clock visit base g =
     (if base \<ge> nat (fb_keys c) then g
      else case clock base of
        None \<Rightarrow> g
      | Some now \<Rightarrow> generate_from c clock visit (base + group_size c) (visit now base (min (group_size c) (nat (fb_keys c) - base)) g))"
  by pat_completeness auto
termination
  by (relation "measure (\<lambda>(c, clock, visit, base, g). nat (fb_keys c) - base)") (auto simp: group_size_def)

declare generate_from.simps [simp del]

definition generator_start :: "fb_config \<Rightarrow> generator" where
  "generator_start c = \<lparr>gnBuffers = map empty_frame [0..<nat (fbPartitions c)], gnQueued = [], gnFlushes = 0, gnLagSkips = 0, gnQueueSkips = 0\<rparr>"

definition generate_frames ::
  "fb_config \<Rightarrow> (byte list \<Rightarrow> byte list) \<Rightarrow> (byte list \<Rightarrow> nat) \<Rightarrow> (nat \<Rightarrow> bool) \<Rightarrow> (nat \<Rightarrow> time option) \<Rightarrow> time \<Rightarrow> generator" where
  "generate_frames c encrypt route room clock start =
     fold (flush_buffer room) [0..<nat (fbPartitions c)] (generate_from c clock (generate_group c encrypt route room start) 0 (generator_start c))"

section \<open>Workers\<close>

datatype send_error = SendClosed | SendNotOpen | SendBusy | SendInvalid | SendUnknown

record frame_receipt =
  rePartition :: int
  reCount :: nat
  reOffset :: int
  reAdmittedAt :: time

definition wrongPartition :: byte where "wrongPartition = 1"
definition wrongCount :: byte where "wrongCount = 2"
definition wrongOffset :: byte where "wrongOffset = 4"
definition wrongWindow :: byte where "wrongWindow = 8"

definition receiptViolations :: "time \<Rightarrow> time \<Rightarrow> frame \<Rightarrow> frame_receipt \<Rightarrow> byte" where
  "receiptViolations starts ends f r =
     (if rePartition r \<noteq> int (fmPartition f) then wrongPartition else 0) OR
     (if reCount r \<noteq> length (fmInputs f) then wrongCount else 0) OR
     (if reOffset r < 0 then wrongOffset else 0) OR
     (if reAdmittedAt r < starts \<or> \<not> reAdmittedAt r < ends then wrongWindow else 0)"

text \<open>What a worker meets at a frame.\<close>

record frame_env =
  evEnded :: bool
  evSince :: time
  evBefore :: time
  evReply :: "send_error + frame_receipt"
  evAfter :: time

definition dispatch_attempt :: "fb_config \<Rightarrow> nat \<times> frame_input \<Rightarrow> states \<times> fb_stat \<Rightarrow> states \<times> fb_stat" where
  "dispatch_attempt c a x =
     (states_set (fst a) (snd (snd a)) stateUnknown (fst x),
      in_fb_bucket (nat (int (fst a) sdiv fbRate c)) (\<lambda>b. b\<lparr>bkDispatched := bkDispatched b + 1\<rparr>) (snd x))"

text \<open>A receipt that does not fit its frame makes the outcome unknown.\<close>

definition check_frame_receipt ::
  "(byte \<Rightarrow> fb_counts \<Rightarrow> fb_counts) \<Rightarrow> time \<Rightarrow> time \<Rightarrow> frame \<Rightarrow> send_error + frame_receipt \<Rightarrow> fb_stat \<Rightarrow> (send_error + frame_receipt) \<times> fb_stat" where
  "check_frame_receipt count_invalid starts ends f reply s =
     (case reply of
        Inl e \<Rightarrow> (Inl e, s)
      | Inr r \<Rightarrow>
          let invalid = receiptViolations starts ends f r in
          if invalid \<noteq> 0 then (Inl SendUnknown, in_counts (count_invalid invalid) s) else (Inr r, s))"

definition settle_frame :: "time \<Rightarrow> frame_env \<Rightarrow> frame \<Rightarrow> send_error + frame_receipt \<Rightarrow> fb_stat \<Rightarrow> byte \<times> fb_stat" where
  "settle_frame start env f reply s =
     (let n = length (fmInputs f) in
      case reply of
        Inr r \<Rightarrow>
          (stateACK,
           (in_fb_bucket (frame_second start (evAfter env)) (\<lambda>b. b\<lparr>bkActualRecorded := bkActualRecorded b + n\<rparr>)
             (in_counts (\<lambda>k. k\<lparr>fnRecorded := fnRecorded k + n, fnRecordedFrames := fnRecordedFrames k + 1\<rparr>) s))
           \<lparr>ftAcks := ftAcks s @ [\<lparr>akPartition = rePartition r, akCount = reCount r, akOffset = reOffset r,
              akAdmittedNS = unix_ns (reAdmittedAt r), akDigest = frame_digest (fmInputs f)\<rparr>]\<rparr>)
      | Inl SendClosed \<Rightarrow> (stateRejected, in_counts (\<lambda>k. k\<lparr>fnClosed := fnClosed k + n\<rparr>) s)
      | Inl SendNotOpen \<Rightarrow> (stateRejected, in_counts (\<lambda>k. k\<lparr>fnNotOpen := fnNotOpen k + n\<rparr>) s)
      | Inl SendBusy \<Rightarrow> (stateRejected, in_counts (\<lambda>k. k\<lparr>fnBusy := fnBusy k + n\<rparr>) s)
      | Inl SendInvalid \<Rightarrow> (stateRejected, in_counts (\<lambda>k. k\<lparr>fnRejected := fnRejected k + n\<rparr>) s)
      | Inl SendUnknown \<Rightarrow> (stateUnknown, in_counts (\<lambda>k. k\<lparr>fnUnknown := fnUnknown k + n\<rparr>) s))"

definition latency_sampled :: "fb_config \<Rightarrow> byte list \<Rightarrow> bool" where
  "latency_sampled c token \<longleftrightarrow> fb_attempts c \<le> 10000 \<or> (get_be (drop 14 token) :: 16 word) AND 1023 = 0"

definition settle_attempt :: "fb_config \<Rightarrow> time \<Rightarrow> frame_env \<Rightarrow> byte \<Rightarrow> nat \<times> frame_input \<Rightarrow> states \<times> fb_stat \<Rightarrow> states \<times> fb_stat" where
  "settle_attempt c start env state a x =
     (let (key, token, choice) = a; (st, s) = x; st = states_set key choice state st in
      if state \<noteq> stateACK then (st, s)
      else let s = in_fb_bucket (nat (int key sdiv fbRate c)) (\<lambda>b. b\<lparr>bkRecorded := bkRecorded b + 1\<rparr>) s;
          s = in_counts (\<lambda>k. if choice = 1 then k\<lparr>fnOriginal := fnOriginal k + 1\<rparr> else k\<lparr>fnRepeat := fnRepeat k + 1\<rparr>) s
        in (st, if latency_sampled c token
          then s\<lparr>ftSchedule := latency_add (time_sub (evAfter env) (frame_at start key (fbRate c))) (ftSchedule s),
            ftDispatch := latency_add (time_sub (evAfter env) (evBefore env)) (ftDispatch s)\<rparr>
          else s))"

definition worker_frame ::
  "(byte \<Rightarrow> fb_counts \<Rightarrow> fb_counts) \<Rightarrow> fb_config \<Rightarrow> time \<Rightarrow> time \<Rightarrow> frame \<Rightarrow> frame_env \<Rightarrow> states \<times> fb_stat \<Rightarrow> states \<times> fb_stat" where
  "worker_frame count_invalid c starts ends f env x =
     (let n = length (fmInputs f) in
      if evEnded env then x
      else if time_sub (evSince env) (frame_at starts (hd (fmKeys f)) (fbRate c)) > fbMaxLag c
      then (fst x, in_counts (\<lambda>k. k\<lparr>fnLagSkips := fnLagSkips k + n\<rparr>) (snd x))
      else let (st, s) = fold (dispatch_attempt c) (frame_attempts f) x;
          s = in_counts (\<lambda>k. k\<lparr>fnDispatched := fnDispatched k + n, fnDispatchedFrames := fnDispatchedFrames k + 1\<rparr>) s;
          s = in_fb_bucket (frame_second starts (evBefore env)) (\<lambda>b. b\<lparr>bkActualDispatched := bkActualDispatched b + n\<rparr>) s;
          (reply, s) = check_frame_receipt count_invalid starts ends f (evReply env) s;
          (state, s) = settle_frame starts env f reply s
        in fold (settle_attempt c starts env state) (frame_attempts f) (st, s))"

text \<open>The frames in the order they are taken, each with its worker and what it meets.\<close>

definition worker_job ::
  "(byte \<Rightarrow> fb_counts \<Rightarrow> fb_counts) \<Rightarrow> fb_config \<Rightarrow> time \<Rightarrow> time \<Rightarrow> frame \<times> nat \<times> frame_env \<Rightarrow> states \<times> fb_stat list \<Rightarrow> states \<times> fb_stat list" where
  "worker_job count_invalid c starts ends job x =
     (let (f, w, env) = job; (st, s) = worker_frame count_invalid c starts ends f env (fst x, snd x ! w) in (st, (snd x)[w := s]))"

definition run_jobs ::
  "(byte \<Rightarrow> fb_counts \<Rightarrow> fb_counts) \<Rightarrow> fb_config \<Rightarrow> time \<Rightarrow> time \<Rightarrow> (frame \<times> nat \<times> frame_env) list \<Rightarrow> states \<times> fb_stat list \<Rightarrow> states \<times> fb_stat list" where
  "run_jobs count_invalid c starts ends jobs x = fold (worker_job count_invalid c starts ends) jobs x"

section \<open>The report\<close>

definition merge_counts :: "fb_counts \<Rightarrow> fb_counts \<Rightarrow> fb_counts" where
  "merge_counts a b = \<lparr>fnDispatched = fnDispatched a + fnDispatched b, fnRecorded = fnRecorded a + fnRecorded b, fnOriginal = fnOriginal a + fnOriginal b,
     fnRepeat = fnRepeat a + fnRepeat b, fnUnknown = fnUnknown a + fnUnknown b, fnClosed = fnClosed a + fnClosed b, fnNotOpen = fnNotOpen a + fnNotOpen b,
     fnBusy = fnBusy a + fnBusy b, fnRejected = fnRejected a + fnRejected b, fnLagSkips = fnLagSkips a + fnLagSkips b,
     fnQueueSkips = fnQueueSkips a + fnQueueSkips b, fnDispatchedFrames = fnDispatchedFrames a + fnDispatchedFrames b,
     fnRecordedFrames = fnRecordedFrames a + fnRecordedFrames b, fnInvalid = fnInvalid a + fnInvalid b,
     fnInvalidPartition = fnInvalidPartition a + fnInvalidPartition b, fnInvalidCount = fnInvalidCount a + fnInvalidCount b,
     fnInvalidOffset = fnInvalidOffset a + fnInvalidOffset b, fnInvalidWindow = fnInvalidWindow a + fnInvalidWindow b\<rparr>"

definition merge_bucket :: "fb_bucket \<Rightarrow> fb_bucket \<Rightarrow> fb_bucket" where
  "merge_bucket a b = a\<lparr>bkDispatched := bkDispatched a + bkDispatched b, bkRecorded := bkRecorded a + bkRecorded b,
     bkActualDispatched := bkActualDispatched a + bkActualDispatched b, bkActualRecorded := bkActualRecorded a + bkActualRecorded b\<rparr>"

definition merge_stat :: "fb_stat \<Rightarrow> fb_stat \<Rightarrow> fb_stat" where
  "merge_stat a b = \<lparr>ftCounts = merge_counts (ftCounts a) (ftCounts b), ftBuckets = map2 merge_bucket (ftBuckets a) (ftBuckets b),
     ftSchedule = histogram_merge (ftSchedule b) (ftSchedule a), ftDispatch = histogram_merge (ftDispatch b) (ftDispatch a), ftAcks = ftAcks a @ ftAcks b\<rparr>"

definition planned_second :: "fb_config \<Rightarrow> nat \<Rightarrow> int" where
  "planned_second c i =
     (let lo = int i * fbRate c; hi = lo + fbRate c in
      if fbRepeatEvery c > 0 then hi - lo + (hi div fbRepeatEvery c - lo div fbRepeatEvery c) else hi - lo)"

definition finish_bucket :: "fb_config \<Rightarrow> nat \<Rightarrow> fb_bucket \<Rightarrow> fb_bucket" where
  "finish_bucket c i b =
     (let b = b\<lparr>bkSecond := i\<rparr> in
      if i < 60 then b\<lparr>bkPlanned := planned_second c i, bkSkipped := planned_second c i - int (bkDispatched b)\<rparr> else b)"

record fb_report =
  fpPlanned :: int
  fpSkipped :: int
  fpCancelled :: int
  fpCounts :: fb_counts
  fpPlannedKeys :: int
  fpBuckets :: "fb_bucket list"
  fpScheduleLatency :: core_latency
  fpDispatchLatency :: core_latency
  fpPayloadBytes :: nat

text \<open>The samples, both percentiles and the maximum, in nanoseconds.\<close>

definition frame_latency :: "histogram \<Rightarrow> core_latency" where
  "frame_latency h = core_report h"

definition frame_summary :: "nat \<Rightarrow> fb_config \<Rightarrow> fb_stat list \<Rightarrow> fb_report \<times> ack_frame list" where
  "frame_summary header c stats =
     (let s = fold (\<lambda>b a. merge_stat a b) stats zero_stat; k = ftCounts s; planned = fb_attempts c; skipped = planned - int (fnDispatched k) in
      (\<lparr>fpPlanned = planned, fpSkipped = skipped, fpCancelled = skipped - int (fnLagSkips k) - int (fnQueueSkips k), fpCounts = k,
         fpPlannedKeys = fb_keys c, fpBuckets = map (\<lambda>i. finish_bucket c i (ftBuckets s ! i)) [0..<82],
         fpScheduleLatency = frame_latency (ftSchedule s), fpDispatchLatency = frame_latency (ftDispatch s),
         fpPayloadBytes = fnRecorded k * 28 + fnRecordedFrames k * header\<rparr>, ftAcks s))"

definition generator_stat :: "generator \<Rightarrow> fb_stat" where
  "generator_stat g = in_counts (\<lambda>k. k\<lparr>fnLagSkips := gnLagSkips g, fnQueueSkips := gnQueueSkips g\<rparr>) zero_stat"

text \<open>\<open>meets i\<close> is the worker that takes the queued frame number \<open>i\<close>, and what it meets.\<close>

definition frame_workload ::
  "(byte \<Rightarrow> fb_counts \<Rightarrow> fb_counts) \<Rightarrow> nat \<Rightarrow> fb_config \<Rightarrow> (byte list \<Rightarrow> byte list) \<Rightarrow> (byte list \<Rightarrow> nat) \<Rightarrow> (nat \<Rightarrow> bool) \<Rightarrow> (nat \<Rightarrow> time option)
     \<Rightarrow> (nat \<Rightarrow> nat \<times> frame_env) \<Rightarrow> time \<Rightarrow> time \<Rightarrow> states \<Rightarrow> states \<times> fb_report \<times> ack_frame list" where
  "frame_workload count_invalid header c encrypt route room clock meets starts ends st =
     (let g = generate_frames c encrypt route room clock starts;
          jobs = map (\<lambda>i. (gnQueued g ! i, meets i)) [0..<length (gnQueued g)];
          (st, stats) = run_jobs count_invalid c starts ends jobs (st, replicate (nat (fbWorkers c)) zero_stat)
      in (st, frame_summary header c (stats @ [generator_stat g])))"

text \<open>The states before a run.\<close>

definition fresh_states :: "fb_config \<Rightarrow> states" where
  "fresh_states c = \<lparr>stOriginal = replicate (nat (fb_keys c)) stateNever,
     stRepeat = (if fbRepeatEvery c > 0 then replicate (nat (fb_keys c)) stateNever else [])\<rparr>"

section \<open>The two benchmarks\<close>

definition file_count_invalid :: "byte \<Rightarrow> fb_counts \<Rightarrow> fb_counts" where
  "file_count_invalid invalid k =
     k\<lparr>fnInvalid := fnInvalid k + 1,
       fnInvalidPartition := fnInvalidPartition k + (if invalid AND wrongPartition \<noteq> 0 then 1 else 0),
       fnInvalidCount := fnInvalidCount k + (if invalid AND wrongCount \<noteq> 0 then 1 else 0),
       fnInvalidOffset := fnInvalidOffset k + (if invalid AND wrongOffset \<noteq> 0 then 1 else 0),
       fnInvalidWindow := fnInvalidWindow k + (if invalid AND wrongWindow \<noteq> 0 then 1 else 0)\<rparr>"

definition topic_count_invalid :: "byte \<Rightarrow> fb_counts \<Rightarrow> fb_counts" where
  "topic_count_invalid invalid k = k\<lparr>fnInvalid := fnInvalid k + 1\<rparr>"

definition filebench_runWorkload ::
  "fb_config \<Rightarrow> (byte list \<Rightarrow> byte list) \<Rightarrow> (byte list \<Rightarrow> nat) \<Rightarrow> (nat \<Rightarrow> bool) \<Rightarrow> (nat \<Rightarrow> time option)
     \<Rightarrow> (nat \<Rightarrow> nat \<times> frame_env) \<Rightarrow> time \<Rightarrow> time \<Rightarrow> states \<Rightarrow> states \<times> fb_report \<times> ack_frame list" where
  "filebench_runWorkload = frame_workload file_count_invalid 40"

definition framebench_runWorkload ::
  "fb_config \<Rightarrow> (byte list \<Rightarrow> byte list) \<Rightarrow> (byte list \<Rightarrow> nat) \<Rightarrow> (nat \<Rightarrow> bool) \<Rightarrow> (nat \<Rightarrow> time option)
     \<Rightarrow> (nat \<Rightarrow> nat \<times> frame_env) \<Rightarrow> time \<Rightarrow> time \<Rightarrow> states \<Rightarrow> states \<times> fb_report \<times> ack_frame list" where
  "framebench_runWorkload = frame_workload topic_count_invalid 80"

end
