(* ===== verification/Frame_Ledger.thy ===== *)
theory Frame_Ledger
  imports Frame_Workload Logbench_Ledger Http_Auth
begin

text \<open>
  The configurations of the frame benchmarks (\<^verbatim>\<open>cmd/filebench/main.go\<close>,
  \<^verbatim>\<open>cmd/framebench/main.go\<close>) and the private ledger that keeps what a run has to be audited against
  (their \<^verbatim>\<open>ledger.go\<close>): a JSON manifest beside files of states and of 64-byte receipts, bound to it by
  their SHA-256.

  The ledger directory is a map from names to bytes. JSON is a parameter (\<open>marshal\<close>, \<open>unmarshal\<close>), as
  are the resolution of a port and what the file system answers. What a write that failed leaves behind is not modelled.
\<close>

section \<open>Configurations\<close>

definition frame_maximumRate :: int where "frame_maximumRate = 1800000"
definition frame_maximumAttempts :: int where "frame_maximumAttempts = 120000000"
definition maximumFrames :: int where "maximumFrames = 1000000"

definition file_defaults :: fb_config where
  "file_defaults = \<lparr>fbAuditOnly = [], fbBrokers = [], fbRate = 1000, fbWorkers = 64, fbQueue = 128, fbFrameSize = 4096, fbPartitions = 1,
     fbRepeatEvery = 0, fbBatchSize = 32768, fbStoreQueue = 262144, fbAllowLarge = False, fbMaxLag = 100 * millisecond,
     fbFrameAge = 10 * millisecond, fbTimeout = 15 * second, fbDrain = 20 * second, fbLinger = 10 * millisecond\<rparr>"

definition topic_defaults :: "string \<Rightarrow> fb_config" where
  "topic_defaults env = \<lparr>fbAuditOnly = [], fbBrokers = (if env = [] then ''127.0.0.1:19092,127.0.0.1:19093,127.0.0.1:19094'' else env),
     fbRate = 1000, fbWorkers = 64, fbQueue = 128, fbFrameSize = 4096, fbPartitions = 8,
     fbRepeatEvery = 0, fbBatchSize = 0, fbStoreQueue = 0, fbAllowLarge = False, fbMaxLag = 100 * millisecond,
     fbFrameAge = 20 * millisecond, fbTimeout = 15 * second, fbDrain = 20 * second, fbLinger = 0\<rparr>"

definition file_frameBound :: "fb_config \<Rightarrow> int" where
  "file_frameBound c = min (fb_attempts c)
     ((fb_attempts c + fbFrameSize c - 1) div fbFrameSize c + (60 * second + fbMaxLag c) div fbFrameAge c + 2)"

definition topic_frameBound :: "fb_config \<Rightarrow> int" where
  "topic_frameBound c = min (fb_attempts c)
     ((fb_attempts c + fbFrameSize c - 1) div fbFrameSize c + fbPartitions c * ((60 * second + fbMaxLag c) div fbFrameAge c + 2))"

definition maximumWALBytes :: int where "maximumWALBytes = 4 * 2 ^ 30"
definition maximumRetainedWALBytes :: int where "maximumRetainedWALBytes = 8 * 2 ^ 30"

definition estimatedWALBytes :: "fb_config \<Rightarrow> int" where
  "estimatedWALBytes c = max (fb_attempts c * 32) (fb_attempts c * 28 + file_frameBound c * (40 + 256)) + 64 * 2 ^ 20"

definition fb_needs_flag :: "fb_config \<Rightarrow> bool" where
  "fb_needs_flag c \<longleftrightarrow>
     (let rps = (if fbRepeatEvery c > 0 then fbRate c + (fbRate c + fbRepeatEvery c - 1) div fbRepeatEvery c else fbRate c) in
      \<not> fbAllowLarge c \<and> fbAuditOnly c = [] \<and> (rps > 1000 \<or> fb_attempts c > 10000))"

datatype fb_error = FrameBrokers | FrameRate | FrameAttempts | FrameWorkers | FrameBatches | FrameDurations | FrameMetadata | FrameWAL | FrameLarge

definition file_validate :: "fb_config \<Rightarrow> fb_error option" where
  "file_validate c =
     (if fbRate c < 1 \<or> fbRate c > frame_maximumRate \<or> fbRepeatEvery c < 0 then Some FrameRate
      else if fb_attempts c > frame_maximumAttempts then Some FrameAttempts
      else if fbWorkers c < 1 \<or> fbWorkers c > 256 \<or> fbQueue c < 1 \<or> fbQueue c > 512 \<or> fbFrameSize c < 1 \<or> fbFrameSize c > 4096 \<or>
        fbPartitions c \<noteq> 1 then Some FrameWorkers
      else if fbBatchSize c < fbFrameSize c \<or> fbBatchSize c > 131072 \<or> fbStoreQueue c < fbFrameSize c \<or> fbStoreQueue c > 1048576
        then Some FrameBatches
      else if fbMaxLag c \<le> 0 \<or> fbMaxLag c > second \<or> fbFrameAge c < millisecond \<or> fbFrameAge c > 100 * millisecond \<or> fbTimeout c \<le> 0 \<or>
        fbTimeout c > 15 * second \<or> fbDrain c \<le> 0 \<or> fbDrain c > 20 * second \<or> fbLinger c < 0 \<or> fbLinger c > second then Some FrameDurations
      else if file_frameBound c > maximumFrames then Some FrameMetadata
      else if estimatedWALBytes c > maximumWALBytes then Some FrameWAL
      else if fb_needs_flag c then Some FrameLarge
      else None)"

definition topic_local_broker :: "(string \<Rightarrow> int option) \<Rightarrow> string \<Rightarrow> bool" where
  "topic_local_broker lookup_port item =
     (case split_host_port item of
        None \<Rightarrow> False
      | Some (host, port) \<Rightarrow>
          (case parse_ip host of None \<Rightarrow> False | Some ip \<Rightarrow> is_loopback ip \<and>
            (case lookup_port port of None \<Rightarrow> False | Some n \<Rightarrow> n \<ge> 1)))"

definition topic_localBrokers :: "(string \<Rightarrow> int option) \<Rightarrow> string \<Rightarrow> string list option" where
  "topic_localBrokers lookup_port raw =
     (let items = split_byte CHR '','' raw in
      if length items < 1 \<or> length items > 3 then None
      else let items = map trim_space items in
        if list_all (topic_local_broker lookup_port) items then Some items else None)"

definition topic_validate :: "(string \<Rightarrow> int option) \<Rightarrow> fb_config \<Rightarrow> fb_error option" where
  "topic_validate lookup_port c =
     (if topic_localBrokers lookup_port (fbBrokers c) = None then Some FrameBrokers
      else if fbRate c < 1 \<or> fbRate c > frame_maximumRate \<or> fbRepeatEvery c < 0 then Some FrameRate
      else if fb_attempts c > frame_maximumAttempts then Some FrameAttempts
      else if fbWorkers c < 1 \<or> fbWorkers c > 256 \<or> fbQueue c < 1 \<or> fbQueue c > 512 \<or> fbFrameSize c < 1 \<or> fbFrameSize c > 4096 \<or>
        fbPartitions c < 1 \<or> fbPartitions c > 32 then Some FrameWorkers
      else if fbMaxLag c \<le> 0 \<or> fbMaxLag c > second \<or> fbFrameAge c < millisecond \<or> fbFrameAge c > 100 * millisecond \<or> fbTimeout c \<le> 0 \<or>
        fbTimeout c > 15 * second \<or> fbDrain c \<le> 0 \<or> fbDrain c > 20 * second then Some FrameDurations
      else if topic_frameBound c > maximumFrames then Some FrameMetadata
      else if fb_needs_flag c then Some FrameLarge
      else None)"

section \<open>Names and disk space\<close>

definition hex_name :: "string \<Rightarrow> string \<Rightarrow> bool" where
  "hex_name prefix s \<longleftrightarrow> has_prefix s prefix \<and>
     (let suffix = drop (length prefix) s in length suffix = 16 \<and> list_all (\<lambda>ch. ch \<in> set ''0123456789abcdef'') suffix)"

definition runPattern :: "string \<Rightarrow> bool" where
  "runPattern = hex_name ''filebench_''"

definition topicPattern :: "string \<Rightarrow> bool" where
  "topicPattern = hex_name ''gqlog_framebench_''"

text \<open>\<open>root\<close> is the absolute and clean path of the root of the journals, if it has one: a directory is its own clean path right
  below the root when it is the root, a slash and a name without slashes.\<close>

definition ownedDirectory :: "string option \<Rightarrow> string \<Rightarrow> bool" where
  "ownedDirectory root directory \<longleftrightarrow>
     (case root of None \<Rightarrow> False | Some r \<Rightarrow> has_prefix directory (r @ ''/'') \<and> runPattern (drop (length r + 1) directory))"

text \<open>An entry as \<^verbatim>\<open>WalkDir\<close> shows it.\<close>

datatype walk_entry = WalkFailed | WalkSymlink | WalkDirectory | WalkNoInfo | WalkIrregular | WalkFile int

fun retained :: "walk_entry list \<Rightarrow> int \<Rightarrow> nat \<Rightarrow> (int \<times> nat) option" where
  "retained [] used files = Some (used, files)"
| "retained (e # es) used files =
     (case e of WalkDirectory \<Rightarrow> retained es used files | WalkFile n \<Rightarrow> retained es (used + n) (files + 1) | _ \<Rightarrow> None)"

definition retainedBytes :: "walk_entry list \<Rightarrow> (int \<times> nat) option" where
  "retainedBytes es = retained es 0 0"

definition checkDirectory :: "bool \<Rightarrow> (bool \<times> bool) option \<Rightarrow> bool" where
  "checkDirectory created info = (created \<and> (case info of None \<Rightarrow> False | Some (directory, symlink) \<Rightarrow> directory \<and> \<not> symlink))"

definition ledgerBytes :: "int \<Rightarrow> fb_config \<Rightarrow> int" where
  "ledgerBytes frame_bound c = (if fbRepeatEvery c > 0 then fb_keys c + fb_keys c else fb_keys c) + frame_bound * 64 + 65536"

definition maximumLedgerBytes :: int where "maximumLedgerBytes = 512 * 2 ^ 20"

datatype frame_ledger_error = NoDirectory | NoInspection | LedgerBounds | NoJournalRoot | NoJournalInspection | JournalBounds | NoDiskSpace | DiskTooFull
  | NotOwned | PartNotWritten | ManifestSize | ManifestNotWritten
  | BadFile | BadManifest | ManifestSyntax | ManifestBounds | ManifestAttempts | BadReference | BadChecksum | BadState | BadReceipt

text \<open>What the file system answers before a run.\<close>

record guard_env =
  gdLedgers :: bool
  gdLedgerFiles :: "walk_entry list"
  gdLogs :: bool
  gdLogFiles :: "walk_entry list"
  gdFree :: "int option"

definition file_diskGuard :: "guard_env \<Rightarrow> fb_config \<Rightarrow> bool \<Rightarrow> frame_ledger_error option" where
  "file_diskGuard env c includeWAL =
     (if \<not> gdLedgers env then Some NoDirectory
      else case retainedBytes (gdLedgerFiles env) of
        None \<Rightarrow> Some NoInspection
      | Some (used, files) \<Rightarrow>
          let client = ledgerBytes (file_frameBound c) c in
          if client > maximumLedgerBytes \<or> used + client > 2 ^ 30 \<or> files + 4 > 256 then Some LedgerBounds
          else if includeWAL \<and> \<not> gdLogs env then Some NoJournalRoot
          else case (if includeWAL then retainedBytes (gdLogFiles env) else Some (0, 0)) of
            None \<Rightarrow> Some NoJournalInspection
          | Some (kept, _) \<Rightarrow>
              let wal = (if includeWAL then estimatedWALBytes c else 0) in
              if includeWAL \<and> (wal > maximumWALBytes \<or> kept + wal > maximumRetainedWALBytes) then Some JournalBounds
              else case gdFree env of
                None \<Rightarrow> Some NoDiskSpace
              | Some free \<Rightarrow> if free < client + wal + 8 * 2 ^ 30 then Some DiskTooFull else None)"

text \<open>The entries of the directory itself, with what their \<^verbatim>\<open>Info\<close> says.\<close>

definition topic_diskGuard :: "bool \<Rightarrow> listing option \<Rightarrow> int option \<Rightarrow> fb_config \<Rightarrow> bool \<Rightarrow> frame_ledger_error option" where
  "topic_diskGuard created files free c includeBroker =
     (if \<not> created then Some NoDirectory
      else case files of
        None \<Rightarrow> Some NoInspection
      | Some fs \<Rightarrow>
          if None \<in> set fs then Some NoInspection
          else let used = sum_list (map (\<lambda>(size, regular). if regular then size else 0) (map the fs));
              client = ledgerBytes (topic_frameBound c) c in
            if client > maximumLedgerBytes \<or> used + client > 2 ^ 30 \<or> length fs + 4 > 256 then Some LedgerBounds
            else let broker = (if includeBroker
                then max (fb_attempts c * 32) (fb_attempts c * 28 + topic_frameBound c * (80 + 256)) * 3 + 64 * 2 ^ 20 else 0) in
              case free of
                None \<Rightarrow> Some NoDiskSpace
              | Some n \<Rightarrow> if n < client + broker + 8 * 2 ^ 30 then Some DiskTooFull else None)"

section \<open>Receipts\<close>

definition encodeACK :: "ack_frame \<Rightarrow> byte list" where
  "encodeACK a =
     (let b = replicate 64 0;
          b = poke 0 (put_le 4 (word_of_int (akPartition a) :: u32)) b;
          b = poke 4 (put_le 4 (of_nat (akCount a) :: u32)) b;
          b = poke 8 (put_le 8 (word_of_int (akOffset a) :: u64)) b;
          b = poke 16 (put_le 8 (word_of_int (akAdmittedNS a) :: u64)) b
      in poke 24 (akDigest a) b)"

definition decodeACK :: "byte list \<Rightarrow> ack_frame" where
  "decodeACK b =
     \<lparr>akPartition = sint (get_le (subslice 0 4 b) :: u32), akCount = unat (get_le (subslice 4 8 b) :: u32),
      akOffset = sint (get_le (subslice 8 16 b) :: u64), akAdmittedNS = sint (get_le (subslice 16 24 b) :: u64), akDigest = subslice 24 56 b\<rparr>"

section \<open>The manifest\<close>

text \<open>The journal configuration differs between the benchmarks; only filebench keeps the mode of synchronization.\<close>

record 'c fb_manifest =
  fxSyncMode :: string
  fxVersion :: int
  fxConfig :: 'c
  fxSeed :: "byte list"
  fxRate :: int
  fxKeys :: nat
  fxRepeatEvery :: int
  fxFrameSize :: int
  fxFrameAge :: duration
  fxACKCount :: nat
  fxFiles :: "string \<rightharpoonup> string"
  fxHashes :: "string \<rightharpoonup> string"
  fxCounts :: fb_counts

type_synonym ledger_files = "string \<rightharpoonup> byte list"

text \<open>\<open>O_EXCL\<close>: an existing file is not replaced. \<open>fails\<close> tells which files cannot be written.\<close>

definition write_part :: "(string \<Rightarrow> bool) \<Rightarrow> string \<Rightarrow> byte list \<Rightarrow> ledger_files \<Rightarrow> ledger_files option" where
  "write_part fails name b files = (if files name \<noteq> None \<or> fails name then None else Some (files(name \<mapsto> b)))"

definition ledger_parts :: "states \<Rightarrow> ack_frame list \<Rightarrow> (string \<times> byte list) list" where
  "ledger_parts s acks = [(''original'', stOriginal s), (''repeat'', stRepeat s), (''acks'', concat (map encodeACK acks))]"

definition part_name :: "string \<Rightarrow> string \<Rightarrow> string" where
  "part_name base part = base @ ''.'' @ part"

fun save_parts ::
  "(string \<Rightarrow> bool) \<Rightarrow> string \<Rightarrow> (string \<times> byte list) list \<Rightarrow> ledger_files \<Rightarrow> 'c fb_manifest \<Rightarrow> (ledger_files \<times> 'c fb_manifest) option" where
  "save_parts fails base [] files m = Some (files, m)"
| "save_parts fails base ((part, b) # rest) files m =
     (if part = ''repeat'' \<and> b = [] then save_parts fails base rest files m
      else case write_part fails (part_name base part) b files of
        None \<Rightarrow> None
      | Some files \<Rightarrow> save_parts fails base rest files
          (m\<lparr>fxFiles := (fxFiles m)(part \<mapsto> part_name base part), fxHashes := (fxHashes m)(part \<mapsto> hex_encode (sha256 b))\<rparr>))"

definition save_ledger ::
  "frame_ledger_error option \<Rightarrow> bool \<Rightarrow> string \<Rightarrow> ('c fb_manifest \<Rightarrow> byte list option) \<Rightarrow> (string \<Rightarrow> bool) \<Rightarrow> ledger_files \<Rightarrow> 'c fb_manifest
     \<Rightarrow> states \<Rightarrow> ack_frame list \<Rightarrow> frame_ledger_error + string \<times> ledger_files" where
  "save_ledger guard owned base marshal fails files m s acks =
     (case guard of
        Some e \<Rightarrow> Inl e
      | None \<Rightarrow>
          if \<not> owned \<or> int (length acks) > maximumFrames then Inl NotOwned
          else case save_parts fails base (ledger_parts s acks) files
              (m\<lparr>fxVersion := 1, fxACKCount := length acks, fxFiles := Map.empty, fxHashes := Map.empty\<rparr>) of
            None \<Rightarrow> Inl PartNotWritten
          | Some (files, m) \<Rightarrow>
              (case marshal m of
                 None \<Rightarrow> Inl ManifestSize
               | Some b \<Rightarrow>
                   if length b > 65536 then Inl ManifestSize
                   else case write_part fails (base @ ''.json'') b files of
                     None \<Rightarrow> Inl ManifestNotWritten
                   | Some files \<Rightarrow> Inr (base @ ''.json'', files)))"

section \<open>Reading\<close>

text \<open>A file of the directory: regular, bounded, and of the expected size if there is one.\<close>

definition read_file :: "ledger_files \<Rightarrow> string \<Rightarrow> int \<Rightarrow> byte list option" where
  "read_file files name expected =
     (case files name of
        None \<Rightarrow> None
      | Some b \<Rightarrow> if int (length b) > maximumLedgerBytes \<or> (expected \<ge> 0 \<and> int (length b) \<noteq> expected) then None else Some b)"

definition read_part :: "ledger_files \<Rightarrow> string \<Rightarrow> 'c fb_manifest \<Rightarrow> string \<Rightarrow> int \<Rightarrow> frame_ledger_error + byte list" where
  "read_part files base m part expected =
     (case fxFiles m part of
        None \<Rightarrow> Inl BadReference
      | Some name \<Rightarrow>
          if name \<noteq> part_name base part then Inl BadReference
          else case read_file files name expected of
            None \<Rightarrow> Inl BadFile
          | Some b \<Rightarrow> if fxHashes m part \<noteq> Some (hex_encode (sha256 b)) then Inl BadChecksum else Inr b)"

definition receipt_bad :: "int \<Rightarrow> time \<Rightarrow> time \<Rightarrow> int \<Rightarrow> ack_frame \<Rightarrow> bool" where
  "receipt_bad partitions starts ends frame_size a \<longleftrightarrow>
     akPartition a < 0 \<or> akPartition a \<ge> partitions \<or> akOffset a < 0 \<or> akCount a < 1 \<or> int (akCount a) > frame_size \<or>
     akAdmittedNS a < unix_ns starts \<or> akAdmittedNS a \<ge> unix_ns ends"

text \<open>The receipts of \<open>n\<close> consecutive blocks of 64 bytes.\<close>

fun read_acks :: "(ack_frame \<Rightarrow> bool) \<Rightarrow> nat \<Rightarrow> byte list \<Rightarrow> ack_frame list option" where
  "read_acks bad 0 b = Some []"
| "read_acks bad (Suc n) b =
     (let a = decodeACK (take 64 b) in
      if bad a then None else map_option ((#) a) (read_acks bad n (drop 64 b)))"

text \<open>\<open>bounds\<close> and \<open>attempts\<close> are the two tests of the manifest, \<open>base\<close> its name, \<open>receipt\<close> that of a receipt.\<close>

definition read_ledger ::
  "('c fb_manifest \<Rightarrow> bool) \<Rightarrow> ('c fb_manifest \<Rightarrow> bool) \<Rightarrow> ('c \<Rightarrow> string) \<Rightarrow> ('c fb_manifest \<Rightarrow> ack_frame \<Rightarrow> bool) \<Rightarrow> (byte list \<Rightarrow> 'c fb_manifest option)
     \<Rightarrow> ledger_files \<Rightarrow> string \<Rightarrow> frame_ledger_error + 'c fb_manifest \<times> states \<times> ack_frame list" where
  "read_ledger bounds_bad attempts_bad base_of bad unmarshal files path =
     (case files path of
        None \<Rightarrow> Inl BadManifest
      | Some b \<Rightarrow>
          if length b > 65536 then Inl BadManifest
          else if read_file files path (- 1) = None then Inl BadFile
          else case unmarshal b of
            None \<Rightarrow> Inl ManifestSyntax
          | Some m \<Rightarrow>
              if bounds_bad m then Inl ManifestBounds
              else if attempts_bad m then Inl ManifestAttempts
              else let base = base_of (fxConfig m) in
                case read_part files base m ''original'' (int (fxKeys m)) of
                  Inl e \<Rightarrow> Inl e
                | Inr originals \<Rightarrow>
                    (case (if fxRepeatEvery m > 0 then read_part files base m ''repeat'' (int (fxKeys m)) else Inr []) of
                       Inl e \<Rightarrow> Inl e
                     | Inr repeats \<Rightarrow>
                         if \<not> list_all (\<lambda>x. x \<le> stateRejected) (originals @ repeats) then Inl BadState
                         else case read_part files base m ''acks'' (int (fxACKCount m * 64)) of
                           Inl e \<Rightarrow> Inl e
                         | Inr b \<Rightarrow>
                             (case read_acks (bad m) (fxACKCount m) b of
                                None \<Rightarrow> Inl BadReceipt
                              | Some acks \<Rightarrow> Inr (m, \<lparr>stOriginal = originals, stRepeat = repeats\<rparr>, acks))))"

section \<open>The two ledgers\<close>

definition manifest_planned :: "'c fb_manifest \<Rightarrow> int" where
  "manifest_planned m = (if fxRepeatEvery m > 0 then int (fxKeys m) + int (fxKeys m) div fxRepeatEvery m else int (fxKeys m))"

definition manifest_common_bad :: "'c fb_manifest \<Rightarrow> bool" where
  "manifest_common_bad m \<longleftrightarrow> fxVersion m \<noteq> 1 \<or> fxRate m < 1 \<or> fxRate m > frame_maximumRate \<or> int (fxKeys m) \<noteq> fxRate m * 60 \<or>
     fxRepeatEvery m < 0 \<or> int (fxACKCount m) > maximumFrames \<or> fxFrameSize m < 1 \<or> fxFrameSize m > 4096"

definition directory_base :: "string option \<Rightarrow> fl_config \<Rightarrow> string" where
  "directory_base root c = (case root of None \<Rightarrow> [] | Some r \<Rightarrow> drop (length r + 1) (fcDirectory c))"


definition file_bounds_bad :: "string option \<Rightarrow> fl_config fb_manifest \<Rightarrow> bool" where
  "file_bounds_bad root m \<longleftrightarrow> manifest_common_bad m \<or> \<not> ownedDirectory root (fcDirectory (fxConfig m)) \<or> fcPartitions (fxConfig m) \<noteq> 1 \<or>
     time_sub (fcEndsAt (fxConfig m)) (fcStartsAt (fxConfig m)) \<noteq> minute \<or> (fxSyncMode m \<noteq> ''darwin_f_fullfsync'' \<and> fxSyncMode m \<noteq> ''linux_fsync'')"

definition file_attempts_bad :: "fl_config fb_manifest \<Rightarrow> bool" where
  "file_attempts_bad m \<longleftrightarrow> manifest_planned m > frame_maximumAttempts \<or> fxFrameAge m < millisecond \<or> fxFrameAge m > 100 * millisecond \<or>
     fcBatchSize (fxConfig m) < fxFrameSize m \<or> fcBatchSize (fxConfig m) > 131072 \<or> fcQueuePerPartition (fxConfig m) < fxFrameSize m \<or>
     fcQueuePerPartition (fxConfig m) > 1048576 \<or> fcLinger (fxConfig m) < 0 \<or> fcLinger (fxConfig m) > second \<or>
     fcPollID (fxConfig m) = zero16 \<or> fcAllowedMask (fxConfig m) \<noteq> 3 \<or> fcMultiple (fxConfig m)"

definition file_saveLedger ::
  "guard_env \<Rightarrow> fb_config \<Rightarrow> string option \<Rightarrow> (fl_config fb_manifest \<Rightarrow> byte list option) \<Rightarrow> (string \<Rightarrow> bool) \<Rightarrow> ledger_files \<Rightarrow> fl_config fb_manifest
     \<Rightarrow> states \<Rightarrow> ack_frame list \<Rightarrow> frame_ledger_error + string \<times> ledger_files" where
  "file_saveLedger env c root marshal fails files m s acks =
     save_ledger (file_diskGuard env c False) (ownedDirectory root (fcDirectory (fxConfig m))) (directory_base root (fxConfig m))
       marshal fails files m s acks"

definition file_readLedger ::
  "string option \<Rightarrow> (byte list \<Rightarrow> fl_config fb_manifest option) \<Rightarrow> ledger_files \<Rightarrow> string
     \<Rightarrow> frame_ledger_error + fl_config fb_manifest \<times> states \<times> ack_frame list" where
  "file_readLedger root unmarshal files path =
     read_ledger (file_bounds_bad root) file_attempts_bad (directory_base root)
       (\<lambda>m. receipt_bad (fcPartitions (fxConfig m)) (fcStartsAt (fxConfig m)) (fcEndsAt (fxConfig m)) (fxFrameSize m)) unmarshal files path"

definition topic_bounds_bad :: "vl_config fb_manifest \<Rightarrow> bool" where
  "topic_bounds_bad m \<longleftrightarrow> manifest_common_bad m \<or> \<not> topicPattern (lcTopic (fxConfig m)) \<or> lcPartitions (fxConfig m) < 1 \<or> lcPartitions (fxConfig m) > 32 \<or>
     time_sub (lcEndsAt (fxConfig m)) (lcStartsAt (fxConfig m)) \<noteq> minute"

definition topic_attempts_bad :: "vl_config fb_manifest \<Rightarrow> bool" where
  "topic_attempts_bad m \<longleftrightarrow> manifest_planned m > frame_maximumAttempts"

definition topic_saveLedger ::
  "bool \<Rightarrow> listing option \<Rightarrow> int option \<Rightarrow> fb_config \<Rightarrow> (vl_config fb_manifest \<Rightarrow> byte list option) \<Rightarrow> (string \<Rightarrow> bool) \<Rightarrow> ledger_files
     \<Rightarrow> vl_config fb_manifest \<Rightarrow> states \<Rightarrow> ack_frame list \<Rightarrow> frame_ledger_error + string \<times> ledger_files" where
  "topic_saveLedger created listed free c marshal fails files m s acks =
     save_ledger (topic_diskGuard created listed free c False) (topicPattern (lcTopic (fxConfig m))) (lcTopic (fxConfig m))
       marshal fails files m s acks"

definition topic_readLedger ::
  "(byte list \<Rightarrow> vl_config fb_manifest option) \<Rightarrow> ledger_files \<Rightarrow> string \<Rightarrow> frame_ledger_error + vl_config fb_manifest \<times> states \<times> ack_frame list" where
  "topic_readLedger unmarshal files path =
     read_ledger topic_bounds_bad topic_attempts_bad lcTopic
       (\<lambda>m. receipt_bad (lcPartitions (fxConfig m)) (lcStartsAt (fxConfig m)) (lcEndsAt (fxConfig m)) (fxFrameSize m)) unmarshal files path"

section \<open>The codec of receipts\<close>

definition ack_wf :: "ack_frame \<Rightarrow> bool" where
  "ack_wf a \<longleftrightarrow> - (2 ^ 31) \<le> akPartition a \<and> akPartition a < 2 ^ 31 \<and> akCount a < 2 ^ 32 \<and> nano_range (akOffset a) \<and> nano_range (akAdmittedNS a) \<and>
     length (akDigest a) = 32"

lemma ack_width: "ack_wf a \<Longrightarrow> length (encodeACK a) = 64"
  by (simp add: encodeACK_def Let_def ack_wf_def codec_simps)

lemma ack_roundtrip: "ack_wf a \<Longrightarrow> decodeACK (encodeACK a) = a"
  by (cases a) (simp add: decodeACK_def encodeACK_def Let_def ack_wf_def codec_simps get_le_put_le sint_of_int64 sint_of_int32 unat_of_nat)

interpretation fba: fixed_codec encodeACK decodeACK ack_wf 64
  by unfold_locales (simp_all add: ack_width ack_roundtrip)

end
