(* ===== verification/Frame_Audit_Props.thy ===== *)
theory Frame_Audit_Props
  imports Frame_Audit
begin

text \<open>
  What a correct reconciliation of the frame benchmarks has established: every acknowledged frame
  is in the journal as it was acknowledged, every acknowledged attempt is there exactly once,
  nothing else was committed, and the canonical counts are those of the first vote of a key.
\<close>

section \<open>Steps that return no error\<close>

lemma and_then_ok: "and_then r f = (st', None) \<longleftrightarrow> (\<exists>st. r = (st, None) \<and> f st = (st', None))"
  by (cases r) (auto simp: and_then_def split: option.splits)

definition enc :: "journal_vote \<Rightarrow> byte list" where
  "enc v = encoded_vote (jvToken v) (jvChoice v)"

definition part_of :: "journal_vote \<Rightarrow> nat" where
  "part_of v = nat (jvPartition v)"

text \<open>The other fields of a state that a frame step leaves alone.\<close>

definition rest_of :: "audit_state \<Rightarrow> byte list \<times> nat \<times> nat \<times> nat list" where
  "rest_of st = (asSeen st, rfMatchedAttempts (asReport st), rfCanonicalKeys (asReport st), rfChoices (asReport st))"

lemma flush_ok:
  assumes "flush_frame header acks p st = (st', None)" and "acActive (asAcc st ! p)"
  shows "asAcc st' = (asAcc st)[p := (asAcc st ! p)\<lparr>acActive := False\<rparr>]" "rest_of st' = rest_of st"
    "rfMatchedFrames (asReport st') = rfMatchedFrames (asReport st) + of_bool (receipt_at acks (int p) (acOffset (asAcc st ! p)) \<noteq> None)"
    "receipt_at acks (int p) (acOffset (asAcc st ! p)) = Some ack \<Longrightarrow>
       acNext (asAcc st ! p) = akCount ack \<and> acAdmittedNS (asAcc st ! p) = akAdmittedNS ack \<and> sha256 (acData (asAcc st ! p)) = akDigest ack"
  using assms by (auto simp: flush_frame_def Let_def set_acc_def in_report_def rest_of_def mismatch_def split: option.splits if_splits)

lemma flush_inactive: "\<not> acActive (asAcc st ! p) \<Longrightarrow> flush_frame header acks p st = (st, None)"
  by (simp add: flush_frame_def)

definition new_acc :: "journal_vote \<Rightarrow> accumulator" where
  "new_acc v = \<lparr>acActive = True, acOffset = jvOffset v, acNext = 0, acAdmittedNS = unix_ns (jvAdmittedAt v), acData = []\<rparr>"

lemma enter_ok:
  assumes "enter_frame header acks v st = (st1, None)"
  obtains (stay) "acActive (asAcc st ! part_of v)" "acOffset (asAcc st ! part_of v) = jvOffset v" "st1 = st"
  | (first) "\<not> acActive (asAcc st ! part_of v)" "st1 = set_acc (part_of v) (new_acc v) st"
  | (later) st0 where "acActive (asAcc st ! part_of v)" "acOffset (asAcc st ! part_of v) < jvOffset v"
      "flush_frame header acks (part_of v) st = (st0, None)" "st1 = set_acc (part_of v) (new_acc v) st0"
proof -
  let ?a = "asAcc st ! part_of v"
  let ?new = "\<lambda>st. (set_acc (part_of v) (new_acc v) st, None)"
  have enter: "enter_frame header acks v st =
      (if \<not> acActive ?a \<or> acOffset ?a \<noteq> jvOffset v then
         if acActive ?a \<and> jvOffset v < acOffset ?a then mismatch MovedBackwards st
         else and_then (flush_frame header acks (part_of v) st) ?new
       else (st, None))"
    by (simp add: enter_frame_def Let_def part_of_def new_acc_def)
  show ?thesis
  proof (cases "acActive ?a")
    case False
    then show ?thesis using assms by (intro first) (simp_all add: enter flush_inactive and_then_def)
  next
    case active: True
    show ?thesis
    proof (cases "acOffset ?a = jvOffset v")
      case True
      then show ?thesis using assms active by (intro stay) (simp_all add: enter)
    next
      case False
      with assms active have le: "\<not> jvOffset v < acOffset ?a" by (auto simp: enter mismatch_def)
      with assms active False have "and_then (flush_frame header acks (part_of v) st) ?new = (st1, None)" by (simp add: enter)
      then obtain st0 where "flush_frame header acks (part_of v) st = (st0, None)" "st1 = set_acc (part_of v) (new_acc v) st0"
        by (auto simp: and_then_ok)
      with active le False show ?thesis by (intro later) simp_all
    qed
  qed
qed

lemma next_ok:
  assumes "next_index v st1 = (st2, None)"
  shows "jvIndex v = acNext (asAcc st1 ! part_of v)" "unix_ns (jvAdmittedAt v) = acAdmittedNS (asAcc st1 ! part_of v)"
    "st2 = set_acc (part_of v) ((asAcc st1 ! part_of v)\<lparr>acNext := acNext (asAcc st1 ! part_of v) + 1\<rparr>) st1"
  using assms by (auto simp: next_index_def Let_def part_of_def mismatch_def split: if_splits)

lemma match_ok:
  assumes "match_attempt acks state v st = (st', None)"
  shows "state = stateACK \<longleftrightarrow> receipt_at acks (jvPartition v) (jvOffset v) \<noteq> None" "asAcc st' = asAcc st" "asSeen st' = asSeen st"
    "rfMatchedFrames (asReport st') = rfMatchedFrames (asReport st)"
    "rfMatchedAttempts (asReport st') = rfMatchedAttempts (asReport st) + of_bool (state = stateACK)"
    "rfCanonicalKeys (asReport st') = rfCanonicalKeys (asReport st)" "rfChoices (asReport st') = rfChoices (asReport st)"
  using assms by (auto simp: match_attempt_def Let_def mismatch_def in_report_def split: if_splits)

lemma count_vote_fields:
  "asAcc (count_vote key c st) = asAcc st" "asSeen (count_vote key c st) = (asSeen st)[key := asSeen st ! key OR ucast c]"
  "rfMatchedFrames (asReport (count_vote key c st)) = rfMatchedFrames (asReport st)"
  "rfMatchedAttempts (asReport (count_vote key c st)) = rfMatchedAttempts (asReport st)"
  "rfCanonicalKeys (asReport (count_vote key c st)) = rfCanonicalKeys (asReport st) + of_bool (asSeen st ! key = 0)"
  "rfChoices (asReport (count_vote key c st)) = (if asSeen st ! key = 0
     then (rfChoices (asReport st))[unat c - 1 := rfChoices (asReport st) ! (unat c - 1) + 1] else rfChoices (asReport st))"
  by (simp_all add: count_vote_def Let_def in_report_def)

lemma check_ok:
  assumes "check_attempt decrypt m s acks v st = (st', None)"
  obtains key where "frStartsAt m \<le> jvAdmittedAt v" "jvAdmittedAt v < frEndsAt m" "decodeKey decrypt (jvToken v) (frKeys m) = Some key"
    "jvChoice v = 1 \<or> (jvChoice v = 2 \<and> repeated_key m key)"
    "states_get key (jvChoice v) s = stateACK \<or> states_get key (jvChoice v) s = stateUnknown"
    "asSeen st ! key AND ucast (jvChoice v) = 0"
    "match_attempt acks (states_get key (jvChoice v) s) v (count_vote key (jvChoice v) st) = (st', None)"
  using assms by (auto simp: check_attempt_def Let_def unexpected_def not_less split: if_splits option.splits)

lemma digest_fields:
  assumes "digest_vote v st = (st', None)"
  shows "asAcc st' = (asAcc st)[part_of v := (asAcc st ! part_of v)\<lparr>acData := acData (asAcc st ! part_of v) @ enc v\<rparr>]" "asSeen st' = asSeen st"
    "rfMatchedFrames (asReport st') = rfMatchedFrames (asReport st)" "rfMatchedAttempts (asReport st') = rfMatchedAttempts (asReport st)"
    "rfCanonicalKeys (asReport st') = rfCanonicalKeys (asReport st)" "rfChoices (asReport st') = rfChoices (asReport st)"
  using assms by (auto simp: digest_vote_def Let_def set_acc_def in_report_def part_of_def enc_def)

lemma set_acc_frame [simp]: "asSeen (set_acc p a st) = asSeen st" "asReport (set_acc p a st) = asReport st"
  "asAcc (set_acc p a st) = (asAcc st)[p := a]"
  by (simp_all add: set_acc_def)

lemma flush_length: "flush_frame header acks p st = (st', None) \<Longrightarrow> length (asAcc st') = length (asAcc st)"
  by (auto simp: flush_frame_def Let_def in_report_def mismatch_def split: option.splits if_splits)

lemma enter_length:
  assumes "enter_frame header acks v st = (st1, None)"
  shows "length (asAcc st1) = length (asAcc st)"
  using assms by (cases rule: enter_ok) (auto dest: flush_length)

lemma visit_ok:
  assumes "visit_vote header decrypt m s acks v st = (st', None)"
  obtains st1 key where "0 \<le> jvPartition v" "part_of v < length (asAcc st)" "0 \<le> jvOffset v"
    "enter_frame header acks v st = (st1, None)" "jvIndex v = acNext (asAcc st1 ! part_of v)"
    "unix_ns (jvAdmittedAt v) = acAdmittedNS (asAcc st1 ! part_of v)"
    "frStartsAt m \<le> jvAdmittedAt v" "jvAdmittedAt v < frEndsAt m" "decodeKey decrypt (jvToken v) (frKeys m) = Some key"
    "jvChoice v = 1 \<or> (jvChoice v = 2 \<and> repeated_key m key)"
    "states_get key (jvChoice v) s = stateACK \<or> states_get key (jvChoice v) s = stateUnknown"
    "states_get key (jvChoice v) s = stateACK \<longleftrightarrow> receipt_at acks (jvPartition v) (jvOffset v) \<noteq> None"
    "asSeen st1 ! key AND ucast (jvChoice v) = 0"
    "asAcc st' = (asAcc st1)[part_of v := (asAcc st1 ! part_of v)\<lparr>acNext := acNext (asAcc st1 ! part_of v) + 1,
       acData := acData (asAcc st1 ! part_of v) @ enc v\<rparr>]"
    "asSeen st' = (asSeen st1)[key := asSeen st1 ! key OR ucast (jvChoice v)]"
    "rfMatchedFrames (asReport st') = rfMatchedFrames (asReport st1)"
    "rfMatchedAttempts (asReport st') = rfMatchedAttempts (asReport st1) + of_bool (states_get key (jvChoice v) s = stateACK)"
    "rfCanonicalKeys (asReport st') = rfCanonicalKeys (asReport st1) + of_bool (asSeen st1 ! key = 0)"
    "rfChoices (asReport st') = (if asSeen st1 ! key = 0
       then (rfChoices (asReport st1))[unat (jvChoice v) - 1 := rfChoices (asReport st1) ! (unat (jvChoice v) - 1) + 1] else rfChoices (asReport st1))"
proof -
  from assms have r: "0 \<le> jvPartition v" "jvPartition v < int (length (asAcc st))" "0 \<le> jvOffset v"
    and "and_then (and_then (and_then (enter_frame header acks v st) (next_index v)) (check_attempt decrypt m s acks v)) (digest_vote v) = (st', None)"
    by (auto simp: visit_vote_def unexpected_def split: if_splits)
  then obtain st1 st2 st3 where e: "enter_frame header acks v st = (st1, None)" and n: "next_index v st1 = (st2, None)"
    and c: "check_attempt decrypt m s acks v st2 = (st3, None)" and d: "digest_vote v st3 = (st', None)"
    by (auto simp: and_then_ok)
  note n' = next_ok [OF n] and d' = digest_fields [OF d]
  from c obtain key where k: "frStartsAt m \<le> jvAdmittedAt v" "jvAdmittedAt v < frEndsAt m" "decodeKey decrypt (jvToken v) (frKeys m) = Some key"
    "jvChoice v = 1 \<or> (jvChoice v = 2 \<and> repeated_key m key)"
    "states_get key (jvChoice v) s = stateACK \<or> states_get key (jvChoice v) s = stateUnknown"
    "asSeen st2 ! key AND ucast (jvChoice v) = 0"
    "match_attempt acks (states_get key (jvChoice v) s) v (count_vote key (jvChoice v) st2) = (st3, None)"
    by (rule check_ok)
  note m' = match_ok [OF k(7), unfolded count_vote_fields]
  have p: "part_of v < length (asAcc st)" using r by (simp add: part_of_def)
  then have p1: "part_of v < length (asAcc st1)" using enter_length [OF e] by simp
  show ?thesis
    by (rule that [of st1 key]) (use r p e n' k m' d' p1 in \<open>simp_all\<close>)
qed

section \<open>Frames\<close>

definition votes_at :: "nat \<Rightarrow> int \<Rightarrow> journal_vote list \<Rightarrow> journal_vote list" where
  "votes_at p off vs = filter (\<lambda>v. part_of v = p \<and> jvOffset v = off) vs"

definition whole :: "ack_frame list \<Rightarrow> nat \<Rightarrow> int \<Rightarrow> journal_vote list \<Rightarrow> bool" where
  "whole acks p off vs \<longleftrightarrow> (\<forall>ack. receipt_at acks (int p) off = Some ack \<longrightarrow>
     map jvIndex (votes_at p off vs) = [0..<akCount ack] \<and> (\<forall>v \<in> set (votes_at p off vs). unix_ns (jvAdmittedAt v) = akAdmittedNS ack) \<and>
     sha256 (concat (map enc (votes_at p off vs))) = akDigest ack)"

definition current :: "nat \<Rightarrow> journal_vote list \<Rightarrow> accumulator \<Rightarrow> bool" where
  "current p vs a \<longleftrightarrow> (let fr = votes_at p (acOffset a) vs in
     acData a = concat (map enc fr) \<and> (\<forall>v \<in> set fr. unix_ns (jvAdmittedAt v) = acAdmittedNS a) \<and> map jvIndex fr = [0..<acNext a])"

definition acc_ok :: "ack_frame list \<Rightarrow> nat \<Rightarrow> journal_vote list \<Rightarrow> accumulator \<Rightarrow> bool" where
  "acc_ok acks p vs a \<longleftrightarrow>
     (\<forall>v \<in> set vs. part_of v = p \<longrightarrow> jvOffset v \<le> acOffset a \<and> (acActive a \<and> jvOffset v = acOffset a \<or> whole acks p (jvOffset v) vs)) \<and>
     (acActive a \<longrightarrow> current p vs a)"

text \<open>The acknowledged positions of frames that have ended.\<close>

definition finished :: "ack_frame list \<Rightarrow> journal_vote list \<Rightarrow> accumulator list \<Rightarrow> (nat \<times> int) set" where
  "finished acks vs accs = {(p, off). (\<exists>v \<in> set vs. part_of v = p \<and> jvOffset v = off) \<and> receipt_at acks (int p) off \<noteq> None \<and>
     \<not> (acActive (accs ! p) \<and> acOffset (accs ! p) = off)}"

lemma finite_finished: "finite (finished acks vs accs)"
  by (rule finite_subset [of _ "(\<lambda>v. (part_of v, jvOffset v)) ` set vs"]) (auto simp: finished_def)

lemma finished_cong:
  assumes "\<And>v. v \<in> set vs \<Longrightarrow> receipt_at acks (int (part_of v)) (jvOffset v) \<noteq> None \<Longrightarrow>
    (acActive (xs ! part_of v) \<and> acOffset (xs ! part_of v) = jvOffset v) = (acActive (ys ! part_of v) \<and> acOffset (ys ! part_of v) = jvOffset v)"
  shows "finished acks vs xs = finished acks vs ys"
proof (rule set_eqI)
  fix x
  show "x \<in> finished acks vs xs \<longleftrightarrow> x \<in> finished acks vs ys"
    by (cases x) (use assms in \<open>auto simp: finished_def\<close>)
qed

lemma finished_snoc:
  assumes "\<And>q. acActive (xs ! q) = acActive (ys ! q)" and "\<And>q. acOffset (xs ! q) = acOffset (ys ! q)"
    and "acActive (xs ! part_of v)" and "acOffset (xs ! part_of v) = jvOffset v"
  shows "finished acks (vs @ [v]) xs = finished acks vs ys"
proof (rule set_eqI)
  fix x
  show "x \<in> finished acks (vs @ [v]) xs \<longleftrightarrow> x \<in> finished acks vs ys"
    by (cases x) (use assms in \<open>auto simp: finished_def\<close>)
qed

lemma votes_at_snoc: "votes_at p off (vs @ [v]) = votes_at p off vs @ (if part_of v = p \<and> jvOffset v = off then [v] else [])"
  by (simp add: votes_at_def)

lemma votes_at_other: "\<not> (part_of v = p \<and> jvOffset v = off) \<Longrightarrow> votes_at p off (vs @ [v]) = votes_at p off vs"
  by (simp add: votes_at_def)

lemma whole_snoc: "\<not> (part_of v = p \<and> jvOffset v = off) \<Longrightarrow> whole acks p off (vs @ [v]) = whole acks p off vs"
  by (simp add: whole_def votes_at_other)

lemma votes_at_nonempty: "v \<in> set vs \<Longrightarrow> part_of v = p \<Longrightarrow> jvOffset v = off \<Longrightarrow> votes_at p off vs \<noteq> []"
  by (auto simp: votes_at_def filter_empty_conv)

definition frames_inv :: "ack_frame list \<Rightarrow> nat \<Rightarrow> journal_vote list \<Rightarrow> audit_state \<Rightarrow> bool" where
  "frames_inv acks n vs st \<longleftrightarrow> length (asAcc st) = n \<and> (\<forall>v \<in> set vs. part_of v < n) \<and>
     (\<forall>p < n. acc_ok acks p vs (asAcc st ! p) \<and>
        (if acActive (asAcc st ! p) then votes_at p (acOffset (asAcc st ! p)) vs \<noteq> [] else \<forall>v \<in> set vs. part_of v \<noteq> p)) \<and>
     rfMatchedFrames (asReport st) = card (finished acks vs (asAcc st))"

lemma flush_whole:
  assumes flush: "flush_frame header acks p st = (st', None)" and a: "acActive (asAcc st ! p)" and ok: "acc_ok acks p vs (asAcc st ! p)"
  shows "whole acks p (acOffset (asAcc st ! p)) vs"
proof -
  have "current p vs (asAcc st ! p)" using ok a by (simp add: acc_ok_def)
  then show ?thesis using flush_ok(4) [OF flush a] by (auto simp: whole_def current_def Let_def)
qed

lemma flush_finished:
  assumes flush: "flush_frame header acks p st = (st', None)" and a: "acActive (asAcc st ! p)" and p: "p < length (asAcc st)"
    and fr: "votes_at p (acOffset (asAcc st ! p)) vs \<noteq> []" and m: "rfMatchedFrames (asReport st) = card (finished acks vs (asAcc st))"
  shows "rfMatchedFrames (asReport st') = card (finished acks vs ((asAcc st)[p := (asAcc st ! p)\<lparr>acActive := False\<rparr>]))"
proof -
  let ?a = "asAcc st ! p" and ?new = "(asAcc st)[p := (asAcc st ! p)\<lparr>acActive := False\<rparr>]"
  have ex: "\<exists>v \<in> set vs. part_of v = p \<and> jvOffset v = acOffset ?a" using fr by (auto simp: votes_at_def filter_empty_conv)
  show ?thesis
  proof (cases "receipt_at acks (int p) (acOffset ?a)")
    case None
    have "finished acks vs ?new = finished acks vs (asAcc st)"
      by (rule finished_cong) (use None p in \<open>auto simp: nth_list_update\<close>)
    then show ?thesis using flush_ok(3) [OF flush a] m None by simp
  next
    case (Some ack)
    have "finished acks vs ?new = insert (p, acOffset ?a) (finished acks vs (asAcc st))"
    proof (intro equalityI subsetI)
      fix x assume "x \<in> finished acks vs ?new"
      then show "x \<in> insert (p, acOffset ?a) (finished acks vs (asAcc st))"
        by (cases x) (use p in \<open>auto simp: finished_def nth_list_update split: if_splits\<close>)
    next
      fix x assume "x \<in> insert (p, acOffset ?a) (finished acks vs (asAcc st))"
      then show "x \<in> finished acks vs ?new"
        by (cases x) (use p ex Some a in \<open>auto simp: finished_def nth_list_update split: if_splits\<close>)
    qed
    moreover have "(p, acOffset ?a) \<notin> finished acks vs (asAcc st)" using a by (simp add: finished_def)
    ultimately show ?thesis using flush_ok(3) [OF flush a] m Some by (simp add: finite_finished)
  qed
qed

text \<open>After the frame of a vote was entered: its partition is at the frame, the others are as before.\<close>

lemma enter_frames:
  assumes enter: "enter_frame header acks v st = (st1, None)" and inv: "frames_inv acks n vs st" and p: "part_of v < n"
  shows "rest_of st1 = rest_of st \<and> length (asAcc st1) = n \<and> acActive (asAcc st1 ! part_of v) \<and> acOffset (asAcc st1 ! part_of v) = jvOffset v \<and>
    acc_ok acks (part_of v) vs (asAcc st1 ! part_of v) \<and> (\<forall>q. q \<noteq> part_of v \<longrightarrow> asAcc st1 ! q = asAcc st ! q) \<and>
    rfMatchedFrames (asReport st1) = card (finished acks vs (asAcc st1))"
  using enter
proof (cases rule: enter_ok)
  case stay
  then show ?thesis using inv p by (simp add: frames_inv_def)
next
  case first
  have none: "\<forall>w \<in> set vs. part_of w \<noteq> part_of v" using inv p first(1) by (auto simp: frames_inv_def)
  then have "votes_at (part_of v) (jvOffset v) vs = []" by (auto simp: votes_at_def filter_empty_conv)
  then have "acc_ok acks (part_of v) vs (new_acc v)" using none by (auto simp: acc_ok_def current_def new_acc_def Let_def)
  moreover have "finished acks vs (asAcc st1) = finished acks vs (asAcc st)"
    by (rule finished_cong) (use none in \<open>auto simp: first nth_list_update\<close>)
  ultimately show ?thesis using inv p by (simp add: first rest_of_def frames_inv_def new_acc_def)
next
  case (later st0)
  let ?p = "part_of v" and ?a = "asAcc st ! part_of v"
  have pl: "?p < length (asAcc st)" and ok: "acc_ok acks ?p vs ?a" and fr: "votes_at ?p (acOffset ?a) vs \<noteq> []"
    and m: "rfMatchedFrames (asReport st) = card (finished acks vs (asAcc st))" and n: "length (asAcc st) = n"
    using inv p later(1) by (auto simp: frames_inv_def)
  note f = flush_ok [OF later(3,1)]
  have old: "jvOffset w \<le> acOffset ?a \<and> whole acks ?p (jvOffset w) vs" if "w \<in> set vs" "part_of w = ?p" for w
    using ok that flush_whole [OF later(3,1) ok] by (auto simp: acc_ok_def)
  then have none: "\<forall>w \<in> set vs. part_of w = ?p \<longrightarrow> jvOffset w < jvOffset v" using later(2) by fastforce
  then have "votes_at ?p (jvOffset v) vs = []" by (auto simp: votes_at_def filter_empty_conv)
  then have "acc_ok acks ?p vs (new_acc v)" using old none by (auto simp: acc_ok_def current_def new_acc_def Let_def less_imp_le)
  moreover have "finished acks vs (asAcc st1) = finished acks vs ((asAcc st)[?p := ?a\<lparr>acActive := False\<rparr>])"
    by (rule finished_cong) (use none pl in \<open>auto simp: later(4) f(1) nth_list_update new_acc_def\<close>)
  ultimately show ?thesis
    using flush_finished [OF later(3,1) pl fr m] f(2) pl n by (simp add: later(4) f(1) rest_of_def new_acc_def)
qed


text \<open>A vote visited without an error extends its frame.\<close>

lemma acc_ok_other: "part_of v \<noteq> q \<Longrightarrow> acc_ok acks q (vs @ [v]) a = acc_ok acks q vs a"
  by (auto simp: acc_ok_def whole_snoc current_def votes_at_other Let_def)

lemma acc_ok_next:
  assumes "acc_ok acks (part_of v) vs a" and "acActive a" and "acOffset a = jvOffset v" and "jvIndex v = acNext a"
    and "unix_ns (jvAdmittedAt v) = acAdmittedNS a"
  shows "acc_ok acks (part_of v) (vs @ [v]) (a\<lparr>acNext := acNext a + 1, acData := acData a @ enc v\<rparr>)"
proof -
  have "current (part_of v) vs a" and old: "jvOffset w \<le> acOffset a \<and> (jvOffset w = acOffset a \<or> whole acks (part_of v) (jvOffset w) vs)"
    if "w \<in> set vs" "part_of w = part_of v" for w
    using assms that by (auto simp: acc_ok_def)
  have "current (part_of v) (vs @ [v]) (a\<lparr>acNext := acNext a + 1, acData := acData a @ enc v\<rparr>)"
    using assms by (auto simp: acc_ok_def current_def votes_at_snoc Let_def)
  moreover have "jvOffset w \<le> acOffset a \<and> (jvOffset w = acOffset a \<or> whole acks (part_of v) (jvOffset w) (vs @ [v]))"
    if "w \<in> set (vs @ [v])" "part_of w = part_of v" for w
    using that old [of w] assms(3) by (cases "jvOffset w = acOffset a") (auto simp: whole_snoc)
  ultimately show ?thesis using assms(2) by (auto simp: acc_ok_def)
qed

lemma visit_frames:
  assumes visit: "visit_vote header decrypt m s acks v st = (st', None)" and inv: "frames_inv acks n vs st"
  shows "frames_inv acks n (vs @ [v]) st'"
  using visit
proof (rule visit_ok)
  fix st1 :: audit_state and key
  let ?p = "part_of v" and ?a = "asAcc st1 ! part_of v"
  assume p: "?p < length (asAcc st)" and enter: "enter_frame header acks v st = (st1, None)"
    and next_v: "jvIndex v = acNext ?a" "unix_ns (jvAdmittedAt v) = acAdmittedNS ?a"
    and acc': "asAcc st' = (asAcc st1)[?p := ?a\<lparr>acNext := acNext ?a + 1, acData := acData ?a @ enc v\<rparr>]"
    and m': "rfMatchedFrames (asReport st') = rfMatchedFrames (asReport st1)"
  have n: "length (asAcc st) = n" "\<forall>w \<in> set vs. part_of w < n" using inv by (auto simp: frames_inv_def)
  have pn: "?p < n" using p n by simp
  have e: "length (asAcc st1) = n" "acActive ?a" "acOffset ?a = jvOffset v" "acc_ok acks ?p vs ?a" "\<forall>q. q \<noteq> ?p \<longrightarrow> asAcc st1 ! q = asAcc st ! q"
    "rfMatchedFrames (asReport st1) = card (finished acks vs (asAcc st1))"
    using enter_frames [OF enter inv pn] by auto
  have here: "asAcc st' ! ?p = ?a\<lparr>acNext := acNext ?a + 1, acData := acData ?a @ enc v\<rparr>" using e(1) pn by (simp add: acc')
  have at: "asAcc st' ! q = (if q = ?p then ?a\<lparr>acNext := acNext ?a + 1, acData := acData ?a @ enc v\<rparr> else asAcc st1 ! q)" for q
    using e(1) pn by (simp add: acc')
  have there: "asAcc st' ! q = asAcc st ! q" if "q \<noteq> ?p" for q using e(5) that by (simp add: acc')
  have "finished acks (vs @ [v]) (asAcc st') = finished acks vs (asAcc st1)"
    by (rule finished_snoc) (use e(2,3) in \<open>simp_all add: at\<close>)
  moreover have "acc_ok acks q (vs @ [v]) (asAcc st' ! q) \<and>
      (if acActive (asAcc st' ! q) then votes_at q (acOffset (asAcc st' ! q)) (vs @ [v]) \<noteq> [] else \<forall>w \<in> set (vs @ [v]). part_of w \<noteq> q)"
    if q: "q < n" for q
  proof (cases "q = ?p")
    case True
    then show ?thesis using acc_ok_next [OF e(4,2,3) next_v] e(2,3) by (auto simp: here votes_at_snoc)
  next
    case False
    have "acc_ok acks q vs (asAcc st ! q) \<and>
      (if acActive (asAcc st ! q) then votes_at q (acOffset (asAcc st ! q)) vs \<noteq> [] else \<forall>w \<in> set vs. part_of w \<noteq> q)"
      using inv q by (simp add: frames_inv_def)
    then show ?thesis using False there [OF False] by (auto simp: acc_ok_other votes_at_snoc split: if_splits)
  qed
  moreover have "length (asAcc st') = n" using e(1) by (simp add: acc')
  moreover have "\<forall>w \<in> set (vs @ [v]). part_of w < n" using n(2) pn by simp
  ultimately show ?thesis unfolding frames_inv_def using e(6) m' by (intro conjI) simp_all
qed


section \<open>Attempts\<close>

definition att_key :: "(byte list \<Rightarrow> byte list) \<Rightarrow> frame_run \<Rightarrow> journal_vote \<Rightarrow> nat" where
  "att_key decrypt m v = the (decodeKey decrypt (jvToken v) (frKeys m))"

definition attempt :: "(byte list \<Rightarrow> byte list) \<Rightarrow> frame_run \<Rightarrow> journal_vote \<Rightarrow> nat \<times> u32" where
  "attempt decrypt m v = (att_key decrypt m v, jvChoice v)"

text \<open>A committed vote is a planned attempt of the run that the client saw acknowledged or left unknown.\<close>

definition planned_vote :: "(byte list \<Rightarrow> byte list) \<Rightarrow> frame_run \<Rightarrow> states \<Rightarrow> ack_frame list \<Rightarrow> journal_vote \<Rightarrow> bool" where
  "planned_vote decrypt m s acks v \<longleftrightarrow>
     frStartsAt m \<le> jvAdmittedAt v \<and> jvAdmittedAt v < frEndsAt m \<and> decodeKey decrypt (jvToken v) (frKeys m) \<noteq> None \<and>
     (jvChoice v = 1 \<or> (jvChoice v = 2 \<and> repeated_key m (att_key decrypt m v))) \<and>
     (let state = states_get (att_key decrypt m v) (jvChoice v) s in
        (state = stateACK \<or> state = stateUnknown) \<and> (state = stateACK \<longleftrightarrow> receipt_at acks (jvPartition v) (jvOffset v) \<noteq> None))"

lemma decodeKey_bound: "decodeKey decrypt token keys = Some key \<Longrightarrow> key < keys"
  by (auto simp: decodeKey_def Let_def split: if_splits)

definition acked_vote :: "(byte list \<Rightarrow> byte list) \<Rightarrow> frame_run \<Rightarrow> states \<Rightarrow> journal_vote \<Rightarrow> bool" where
  "acked_vote decrypt m s v \<longleftrightarrow> states_get (att_key decrypt m v) (jvChoice v) s = stateACK"

definition seen_flags :: "(nat \<times> u32) set \<Rightarrow> nat \<Rightarrow> byte" where
  "seen_flags A k = (if (k, 1) \<in> A then 1 else 0) OR (if (k, 2) \<in> A then 2 else 0)"

definition attempts_inv :: "(byte list \<Rightarrow> byte list) \<Rightarrow> frame_run \<Rightarrow> states \<Rightarrow> ack_frame list \<Rightarrow> journal_vote list \<Rightarrow> audit_state \<Rightarrow> bool" where
  "attempts_inv decrypt m s acks vs st \<longleftrightarrow>
     length (asSeen st) = frKeys m \<and> length (rfChoices (asReport st)) = 32 \<and>
     (\<forall>v \<in> set vs. planned_vote decrypt m s acks v) \<and> distinct (map (attempt decrypt m) vs) \<and>
     (\<forall>k < frKeys m. asSeen st ! k = seen_flags (set (map (attempt decrypt m) vs)) k) \<and>
     rfMatchedAttempts (asReport st) = length (filter (acked_vote decrypt m s) vs) \<and>
     rfCanonicalKeys (asReport st) = card (dom (map_of (map (attempt decrypt m) vs))) \<and>
     (\<forall>c. 1 \<le> c \<and> c \<le> 32 \<longrightarrow> rfChoices (asReport st) ! (c - 1) = card {k. map_of (map (attempt decrypt m) vs) k = Some (of_nat c)})"

lemma seen_flags_insert:
  assumes "c = 1 \<or> c = 2" and "seen_flags A k AND ucast c = 0"
  shows "(k, c) \<notin> A" "seen_flags (insert (k, c) A) k = seen_flags A k OR ucast c" "j \<noteq> k \<Longrightarrow> seen_flags (insert (k, c) A) j = seen_flags A j"
  using assms by (auto simp: seen_flags_def split: if_splits)

lemma seen_flags_zero: "(\<And>a. a \<in> A \<Longrightarrow> snd a = 1 \<or> snd a = 2) \<Longrightarrow> seen_flags A k = 0 \<longleftrightarrow> k \<notin> fst ` A"
  by (force simp: seen_flags_def split: if_splits)

lemma planned_choice: "planned_vote decrypt m s acks v \<Longrightarrow> jvChoice v = 1 \<or> jvChoice v = 2"
  by (auto simp: planned_vote_def)


text \<open>The first value of a key.\<close>

lemma map_of_snoc: "map_of (xs @ [(k, c)]) = (if k \<in> dom (map_of xs) then map_of xs else (map_of xs)(k \<mapsto> c))"
  by (rule ext) (auto simp: map_add_def dom_def split: option.splits)

lemma card_value_upd:
  assumes "k \<notin> dom f" and "finite (dom f)"
  shows "card {j. (f(k \<mapsto> c)) j = Some d} = card {j. f j = Some d} + of_bool (c = d)"
proof -
  have fin: "finite {j. f j = Some d}" by (rule finite_subset [OF _ assms(2)]) auto
  have "{j. (f(k \<mapsto> c)) j = Some d} = (if c = d then insert k {j. f j = Some d} else {j. f j = Some d})"
    using assms(1) by (auto split: if_splits)
  then show ?thesis using fin assms(1) by auto
qed

lemma frame_attempts_snoc:
  assumes inv: "attempts_inv decrypt m s acks vs st" and key: "decodeKey decrypt (jvToken v) (frKeys m) = Some key"
    and plan: "planned_vote decrypt m s acks v"
    and free: "asSeen st ! key AND ucast (jvChoice v) = 0"
    and seen: "asSeen st' = (asSeen st)[key := asSeen st ! key OR ucast (jvChoice v)]"
    and matched: "rfMatchedAttempts (asReport st') = rfMatchedAttempts (asReport st) + of_bool (acked_vote decrypt m s v)"
    and canon: "rfCanonicalKeys (asReport st') = rfCanonicalKeys (asReport st) + of_bool (asSeen st ! key = 0)"
    and choices: "rfChoices (asReport st') = (if asSeen st ! key = 0
       then (rfChoices (asReport st))[unat (jvChoice v) - 1 := rfChoices (asReport st) ! (unat (jvChoice v) - 1) + 1] else rfChoices (asReport st))"
  shows "attempts_inv decrypt m s acks (vs @ [v]) st'"
proof -
  let ?xs = "map (attempt decrypt m) vs" and ?c = "jvChoice v"
  have v: "attempt decrypt m v = (key, ?c)" by (simp add: attempt_def att_key_def key)
  have len: "length (asSeen st) = frKeys m" "length (rfChoices (asReport st)) = 32"
    and flags: "\<And>k. k < frKeys m \<Longrightarrow> asSeen st ! k = seen_flags (set ?xs) k"
    and pl: "\<And>w. w \<in> set vs \<Longrightarrow> planned_vote decrypt m s acks w" and d: "distinct ?xs"
    and old: "rfMatchedAttempts (asReport st) = length (filter (acked_vote decrypt m s) vs)"
      "rfCanonicalKeys (asReport st) = card (dom (map_of ?xs))"
    and per: "\<And>c. 1 \<le> c \<Longrightarrow> c \<le> 32 \<Longrightarrow> rfChoices (asReport st) ! (c - 1) = card {k. map_of ?xs k = Some (of_nat c)}"
    using inv by (auto simp: attempts_inv_def)
  have kb: "key < frKeys m" using key by (rule decodeKey_bound)
  have c: "?c = 1 \<or> ?c = 2" using plan by (rule planned_choice)
  note fl = seen_flags_insert [OF c free [unfolded flags [OF kb]]]
  have ch: "snd a = 1 \<or> snd a = 2" if a: "a \<in> set ?xs" for a
  proof -
    from a obtain w where w: "w \<in> set vs" "a = attempt decrypt m w" by auto
    show ?thesis using planned_choice [OF pl [OF w(1)]] by (simp add: w(2) attempt_def)
  qed
  have zero: "asSeen st ! key = 0 \<longleftrightarrow> key \<notin> dom (map_of ?xs)"
    unfolding flags [OF kb] dom_map_of_conv_image_fst by (rule seen_flags_zero) (rule ch)
  have fin: "finite (dom (map_of ?xs))" by (rule finite_dom_map_of)
  have snoc: "map_of (map (attempt decrypt m) (vs @ [v])) = (if asSeen st ! key = 0 then (map_of ?xs)(key \<mapsto> ?c) else map_of ?xs)"
    unfolding map_append list.map v map_of_snoc using zero by simp
  have "asSeen st' ! k = seen_flags (set (map (attempt decrypt m) (vs @ [v]))) k" if "k < frKeys m" for k
    using fl(2) fl(3) [of k] that len by (cases "k = key") (simp_all add: v seen flags)
  moreover have "rfCanonicalKeys (asReport st') = card (dom (map_of (map (attempt decrypt m) (vs @ [v]))))"
    unfolding snoc canon old using fin zero by auto
  moreover have "rfChoices (asReport st') ! (n - 1) = card {k. map_of (map (attempt decrypt m) (vs @ [v])) k = Some (of_nat n)}"
    if n: "1 \<le> n" "n \<le> 32" for n
  proof (cases "asSeen st ! key = 0")
    case True
    have "unat (of_nat n :: u32) = n" using n by (simp add: unat_of_nat)
    then have "(?c = of_nat n) = (unat ?c = n)" by (auto simp: word_eq_iff_unsigned [where ?'a = nat])
    moreover have "1 \<le> unat ?c" "unat ?c - 1 < 32" using c by auto
    ultimately have "unat ?c - 1 < 32" "(unat ?c - 1 = n - 1) = (?c = of_nat n)" using n by auto
    then show ?thesis unfolding snoc choices using True zero n per [OF n] card_value_upd [OF _ fin, of key ?c "of_nat n"] len
      by (auto simp: nth_list_update)
  next
    case False
    then show ?thesis unfolding snoc choices using per [OF n] by simp
  qed
  moreover have "distinct (map (attempt decrypt m) (vs @ [v]))" using d fl(1) by (simp add: v)
  moreover have "length (asSeen st') = frKeys m" "length (rfChoices (asReport st')) = 32" using len by (simp_all add: seen choices)
  moreover have "\<forall>w \<in> set (vs @ [v]). planned_vote decrypt m s acks w" using pl plan by auto
  moreover have "rfMatchedAttempts (asReport st') = length (filter (acked_vote decrypt m s) (vs @ [v]))" using old(1) by (simp add: matched)
  ultimately show ?thesis unfolding attempts_inv_def by (intro conjI) blast+
qed


lemma enter_rest:
  assumes "enter_frame header acks v st = (st1, None)"
  shows "rest_of st1 = rest_of st"
  using assms by (cases rule: enter_ok) (auto simp: rest_of_def dest: flush_ok(2))

lemma attempts_rest: "rest_of st1 = rest_of st \<Longrightarrow> attempts_inv decrypt m s acks vs st1 = attempts_inv decrypt m s acks vs st"
  by (simp add: rest_of_def attempts_inv_def)

lemma visit_attempts:
  assumes visit: "visit_vote header decrypt m s acks v st = (st', None)" and inv: "attempts_inv decrypt m s acks vs st"
  shows "attempts_inv decrypt m s acks (vs @ [v]) st'"
  using visit
proof (rule visit_ok)
  fix st1 :: audit_state and key
  assume e: "enter_frame header acks v st = (st1, None)"
    and k: "decodeKey decrypt (jvToken v) (frKeys m) = Some key"
    and w: "frStartsAt m \<le> jvAdmittedAt v" "jvAdmittedAt v < frEndsAt m" "jvChoice v = 1 \<or> (jvChoice v = 2 \<and> repeated_key m key)"
      "states_get key (jvChoice v) s = stateACK \<or> states_get key (jvChoice v) s = stateUnknown"
      "states_get key (jvChoice v) s = stateACK \<longleftrightarrow> receipt_at acks (jvPartition v) (jvOffset v) \<noteq> None"
    and r: "asSeen st1 ! key AND ucast (jvChoice v) = 0" "asSeen st' = (asSeen st1)[key := asSeen st1 ! key OR ucast (jvChoice v)]"
      "rfMatchedAttempts (asReport st') = rfMatchedAttempts (asReport st1) + of_bool (states_get key (jvChoice v) s = stateACK)"
      "rfCanonicalKeys (asReport st') = rfCanonicalKeys (asReport st1) + of_bool (asSeen st1 ! key = 0)"
      "rfChoices (asReport st') = (if asSeen st1 ! key = 0
       then (rfChoices (asReport st1))[unat (jvChoice v) - 1 := rfChoices (asReport st1) ! (unat (jvChoice v) - 1) + 1] else rfChoices (asReport st1))"
  have key: "att_key decrypt m v = key" by (simp add: att_key_def k)
  have "attempts_inv decrypt m s acks vs st1" using inv attempts_rest [OF enter_rest [OF e]] by simp
  then show ?thesis
  proof (rule frame_attempts_snoc [OF _ k _ r(1,2) _ r(4,5)])
    show "planned_vote decrypt m s acks v" unfolding planned_vote_def key Let_def using w k by blast
    show "rfMatchedAttempts (asReport st') = rfMatchedAttempts (asReport st1) + of_bool (acked_vote decrypt m s v)"
      using r(3) by (simp add: acked_vote_def key)
  qed
qed

lemma visit_votes_inv:
  assumes "visit_votes (visit_vote header decrypt m s acks) vs st = (st', None)"
    and "frames_inv acks n us st" and "attempts_inv decrypt m s acks us st"
  shows "frames_inv acks n (us @ vs) st' \<and> attempts_inv decrypt m s acks (us @ vs) st'"
  using assms
proof (induction vs arbitrary: us st)
  case Nil
  then show ?case by simp
next
  case (Cons v vs)
  from Cons.prems(1) obtain st1 where v: "visit_vote header decrypt m s acks v st = (st1, None)"
    and vs: "visit_votes (visit_vote header decrypt m s acks) vs st1 = (st', None)"
    by (auto simp: and_then_ok)
  from Cons.IH [OF vs visit_frames [OF v Cons.prems(2)] visit_attempts [OF v Cons.prems(3)]] show ?case by simp
qed

lemma start_inv: "frames_inv acks (frPartitions m) [] (audit_start m)" "attempts_inv decrypt m s acks [] (audit_start m)"
proof -
  show "frames_inv acks (frPartitions m) [] (audit_start m)"
    by (simp add: frames_inv_def audit_start_def acc_ok_def zero_accumulator_def finished_def empty_frame_report_def)
  show "attempts_inv decrypt m s acks [] (audit_start m)"
    by (auto simp: attempts_inv_def audit_start_def empty_frame_report_def seen_flags_def)
qed

section \<open>The last frames\<close>

definition open_inv :: "ack_frame list \<Rightarrow> nat \<Rightarrow> journal_vote list \<Rightarrow> audit_state \<Rightarrow> bool" where
  "open_inv acks n vs st \<longleftrightarrow> length (asAcc st) = n \<and>
     (\<forall>p < n. acc_ok acks p vs (asAcc st ! p) \<and> (acActive (asAcc st ! p) \<longrightarrow> votes_at p (acOffset (asAcc st ! p)) vs \<noteq> [])) \<and>
     rfMatchedFrames (asReport st) = card (finished acks vs (asAcc st))"

lemma frames_open: "frames_inv acks n vs st \<Longrightarrow> open_inv acks n vs st"
  by (auto simp: frames_inv_def open_inv_def split: if_splits)

lemma open_flush:
  assumes flush: "flush_frame header acks p st = (st', None)" and inv: "open_inv acks n vs st" and p: "p < n"
  shows "open_inv acks n vs st' \<and> \<not> acActive (asAcc st' ! p) \<and> (\<forall>q. \<not> acActive (asAcc st ! q) \<longrightarrow> \<not> acActive (asAcc st' ! q)) \<and> rest_of st' = rest_of st"
proof (cases "acActive (asAcc st ! p)")
  case False
  then show ?thesis using flush inv by (simp add: flush_inactive)
next
  case True
  have l: "p < length (asAcc st)" and ok: "acc_ok acks p vs (asAcc st ! p)" and fr: "votes_at p (acOffset (asAcc st ! p)) vs \<noteq> []"
    and n: "length (asAcc st) = n" and m: "rfMatchedFrames (asReport st) = card (finished acks vs (asAcc st))"
    using inv p True by (auto simp: open_inv_def)
  note f = flush_ok(1,2) [OF flush True]
  have at: "asAcc st' ! q = (if q = p then (asAcc st ! p)\<lparr>acActive := False\<rparr> else asAcc st ! q)" for q
    using l by (simp add: f(1))
  have "acc_ok acks p vs ((asAcc st ! p)\<lparr>acActive := False\<rparr>)"
    using ok flush_whole [OF flush True ok] by (auto simp: acc_ok_def)
  then have "acc_ok acks q vs (asAcc st' ! q) \<and> (acActive (asAcc st' ! q) \<longrightarrow> votes_at q (acOffset (asAcc st' ! q)) vs \<noteq> [])" if "q < n" for q
    using inv that by (cases "q = p") (simp_all add: at open_inv_def)
  moreover have "rfMatchedFrames (asReport st') = card (finished acks vs (asAcc st'))"
    using flush_finished [OF flush True l fr m] by (simp add: f(1))
  ultimately have "open_inv acks n vs st'" using n by (simp add: open_inv_def f(1))
  then show ?thesis using f(2) by (simp add: at)
qed

lemma flush_all_ok:
  assumes "flush_all header acks ps st = (st', None)" and "open_inv acks n vs st" and "\<forall>p \<in> set ps. p < n"
  shows "open_inv acks n vs st' \<and> (\<forall>p \<in> set ps. \<not> acActive (asAcc st' ! p)) \<and>
    (\<forall>q. \<not> acActive (asAcc st ! q) \<longrightarrow> \<not> acActive (asAcc st' ! q)) \<and> rest_of st' = rest_of st"
  using assms
proof (induction ps arbitrary: st)
  case Nil
  then show ?case by simp
next
  case (Cons p ps)
  from Cons.prems(1) obtain st1 where f: "flush_frame header acks p st = (st1, None)" and r: "flush_all header acks ps st1 = (st', None)"
    by (auto simp: and_then_ok)
  have p: "p < n" and ps: "\<forall>q \<in> set ps. q < n" using Cons.prems(3) by auto
  note o = open_flush [OF f Cons.prems(2) p]
  from Cons.IH [OF r conjunct1 [OF o] ps] o show ?case by auto
qed


section \<open>Receipts and states\<close>

definition ack_position :: "ack_frame \<Rightarrow> int \<times> int" where
  "ack_position a = (akPartition a, akOffset a)"

lemma receipt_at_None: "receipt_at acks p off = None \<longleftrightarrow> (p, off) \<notin> ack_position ` set acks"
  by (auto simp: receipt_at_def find_None_iff ack_position_def)

lemma receipt_at_own: "distinct (map ack_position acks) \<Longrightarrow> a \<in> set acks \<Longrightarrow> receipt_at acks (akPartition a) (akOffset a) = Some a"
  by (induction acks) (auto simp: receipt_at_def ack_position_def)

lemma distinct_receipts_ok: "distinct_receipts seen acks = (x, True) \<Longrightarrow> distinct (map ack_position seen) \<Longrightarrow> distinct (map ack_position (seen @ acks))"
proof (induction acks arbitrary: seen)
  case Nil
  then show ?case by simp
next
  case (Cons a acks)
  from Cons.prems(1) have new: "receipt_at seen (akPartition a) (akOffset a) = None" and r: "distinct_receipts (seen @ [a]) acks = (x, True)"
    by (auto split: if_splits)
  have "distinct (map ack_position (seen @ [a]))" using Cons.prems(2) new by (simp add: receipt_at_None ack_position_def [of a])
  from Cons.IH [OF r this] show ?case by simp
qed

text \<open>The attempts that the client saw acknowledged.\<close>

definition ack_attempts :: "states \<Rightarrow> (nat \<times> u32) set" where
  "ack_attempts s = {(k, c). c = 1 \<and> k < length (stOriginal s) \<and> stOriginal s ! k = stateACK \<or>
     c = 2 \<and> k < length (stRepeat s) \<and> stRepeat s ! k = stateACK}"

lemma card_ack_attempts: "finite (ack_attempts s) \<and> card (ack_attempts s) = ack_states s"
proof -
  let ?A = "\<lambda>c xs. (\<lambda>k. (k, c :: u32)) ` {k. k < length xs \<and> xs ! k = stateACK}"
  have eq: "ack_attempts s = ?A 1 (stOriginal s) \<union> ?A 2 (stRepeat s)" by (auto simp: ack_attempts_def)
  have card: "finite (?A c xs)" "card (?A c xs) = length (filter (\<lambda>x. x = stateACK) xs)" for c xs
    by (auto simp: card_image inj_on_def length_filter_conv_card)
  have "?A 1 (stOriginal s) \<inter> ?A 2 (stRepeat s) = {}" by auto
  then show ?thesis unfolding eq ack_states_def by (simp add: card_Un_disjoint card)
qed

lemma visit_partition: "visit_votes (visit_vote header decrypt m s acks) vs st = (st', None) \<Longrightarrow> \<forall>v \<in> set vs. 0 \<le> jvPartition v"
proof (induction vs arbitrary: st)
  case Nil
  then show ?case by simp
next
  case (Cons v vs)
  from Cons.prems obtain st1 where v: "visit_vote header decrypt m s acks v st = (st1, None)"
    and vs: "visit_votes (visit_vote header decrypt m s acks) vs st1 = (st', None)"
    by (auto simp: and_then_ok)
  have "0 \<le> jvPartition v" using v by (rule visit_ok)
  with Cons.IH [OF vs] show ?case by simp
qed

section \<open>What a correct reconciliation shows\<close>

text \<open>The frame of a receipt in the journal is as the receipt says.\<close>

definition frame_recorded :: "journal_vote list \<Rightarrow> ack_frame \<Rightarrow> bool" where
  "frame_recorded votes ack \<longleftrightarrow>
     (let fr = filter (\<lambda>v. jvPartition v = akPartition ack \<and> jvOffset v = akOffset ack) votes in
      fr \<noteq> [] \<and> map jvIndex fr = [0..<akCount ack] \<and> (\<forall>v \<in> set fr. unix_ns (jvAdmittedAt v) = akAdmittedNS ack) \<and>
      sha256 (concat (map (\<lambda>v. encoded_vote (jvToken v) (jvChoice v)) fr)) = akDigest ack)"

lemma frames_recorded:
  assumes inv: "open_inv acks n vs st" and over: "\<forall>p < n. \<not> acActive (asAcc st ! p)" and parts: "\<forall>v \<in> set vs. part_of v < n \<and> 0 \<le> jvPartition v"
    and d: "distinct (map ack_position acks)" and m: "rfMatchedFrames (asReport st) = length acks" and ack: "ack \<in> set acks"
  shows "frame_recorded vs ack"
proof -
  let ?F = "finished acks vs (asAcc st)" and ?f = "\<lambda>(p :: nat, off :: int). (int p, off)"
  have sub: "?f ` ?F \<subseteq> ack_position ` set acks" by (auto simp: finished_def receipt_at_None)
  have "card (?f ` ?F) = card ?F" by (rule card_image) (auto simp: inj_on_def)
  also have "\<dots> = length acks" using inv m by (simp add: open_inv_def)
  also have "\<dots> = card (ack_position ` set acks)" using distinct_card [OF d] by simp
  finally have "?f ` ?F = ack_position ` set acks" using sub by (simp add: card_subset_eq)
  then have "ack_position ack \<in> ?f ` ?F" using ack by auto
  then obtain p v where p: "akPartition ack = int p" and v: "v \<in> set vs" "part_of v = p" "jvOffset v = akOffset ack"
    by (auto simp: finished_def ack_position_def)
  have fr: "filter (\<lambda>v. jvPartition v = akPartition ack \<and> jvOffset v = akOffset ack) vs = votes_at p (akOffset ack) vs"
    unfolding votes_at_def using parts p by (intro filter_cong) (auto simp: part_of_def)
  have pn: "p < n" using parts v(1,2) by auto
  then have "acc_ok acks p vs (asAcc st ! p)" "\<not> acActive (asAcc st ! p)" using inv over by (auto simp: open_inv_def)
  then have "whole acks p (jvOffset v) vs" using v(1,2) unfolding acc_ok_def by blast
  then have "whole acks p (akOffset ack) vs" by (simp add: v(3))
  moreover have "receipt_at acks (int p) (akOffset ack) = Some ack" using receipt_at_own [OF d ack] by (simp add: p)
  ultimately show ?thesis using votes_at_nonempty [OF v(1,2,3)]
    by (auto simp: frame_recorded_def fr Let_def whole_def enc_def [abs_def])
qed

lemma acked_attempts:
  assumes inv: "attempts_inv decrypt m s acks vs st" and n: "rfMatchedAttempts (asReport st) = ack_states s"
    and len: "length (stOriginal s) = frKeys m" "length (stRepeat s) = (if frRepeatEvery m = 0 then 0 else frKeys m)"
  shows "attempt decrypt m ` {v \<in> set vs. acked_vote decrypt m s v} = ack_attempts s"
proof -
  let ?V = "filter (acked_vote decrypt m s) vs"
  have d: "distinct (map (attempt decrypt m) ?V)" using inv by (auto simp: attempts_inv_def intro: distinct_map_filter)
  have "attempt decrypt m ` set ?V \<subseteq> ack_attempts s"
  proof
    fix a assume "a \<in> attempt decrypt m ` set ?V"
    then obtain v where v: "v \<in> set vs" "acked_vote decrypt m s v" "a = attempt decrypt m v" by auto
    then have p: "planned_vote decrypt m s acks v" using inv by (auto simp: attempts_inv_def)
    then have "att_key decrypt m v < frKeys m" by (auto simp: planned_vote_def att_key_def dest: decodeKey_bound)
    then show "a \<in> ack_attempts s" using p v(2) len
      by (auto simp: v(3) attempt_def ack_attempts_def planned_vote_def acked_vote_def states_get_def repeated_key_def split: if_splits)
  qed
  moreover have "card (attempt decrypt m ` set ?V) = card (ack_attempts s)"
    using distinct_card [OF d] inv n card_ack_attempts [of s] by (simp add: attempts_inv_def)
  ultimately have "attempt decrypt m ` set ?V = ack_attempts s" using card_ack_attempts [of s] by (simp add: card_subset_eq)
  then show ?thesis by simp
qed


lemma replay_audit_ok:
  assumes "replay_audit header decrypt m s acks replay = ((st, None), ends)"
  obtains st0 where "visit_votes (visit_vote header decrypt m s acks) (jrVotes replay) (audit_start m) = (st0, None)"
    "jrResult replay = Inr ends" "flush_all header acks [0..<frPartitions m] st0 = (st, None)"
  using assms by (auto simp: replay_audit_def split: prod.splits option.splits sum.splits)

lemma frame_reconcile_ok:
  assumes "frame_reconcile header bad decrypt ctx_done m s acks replay = (r, err)" and "fzCorrect r"
  obtains st ends x where "distinct_receipts [] acks = (x, True)" "ack_states s = confirmed_attempts acks"
    "replay_audit header decrypt m s acks replay = ((st, None), ends)" "err = None" "fzReport r = asReport st" "length ends = frPartitions m"
    "rfMatchedFrames (asReport st) = length acks" "rfMatchedAttempts (asReport st) = confirmed_attempts acks"
proof -
  obtain x fine where d: "distinct_receipts [] acks = (x, fine)" by (cases "distinct_receipts [] acks")
  have "fine" using assms by (cases fine) (auto simp: frame_reconcile_def d early_audit_def)
  then have d: "distinct_receipts [] acks = (x, True)" using d by simp
  have states: "ack_states s = confirmed_attempts acks" using assms by (auto simp: frame_reconcile_def d early_audit_def split: if_splits)
  obtain st e ends where audit: "replay_audit header decrypt m s acks replay = ((st, e), ends)" by (metis prod.exhaust)
  note r = assms [unfolded frame_reconcile_def d audit]
  have e: "e = None" using r states by (auto simp: Let_def split: if_splits)
  have bad: "\<not> bad st ends" using r states by (auto simp: Let_def e split: if_splits)
  show ?thesis by (rule that [OF d states audit [unfolded e]]) (use r states e bad in \<open>auto simp: Let_def\<close>)
qed

text \<open>C17. A correct reconciliation of a file or frame benchmark: every acknowledged frame is in the journal, with the indexes 0 to its count,
  its admission instant and its digest; every committed attempt is a planned one of the run in the window, that the client saw acknowledged
  (then in an acknowledged frame) or unknown; no attempt is committed twice; every attempt the client saw acknowledged is committed; and the
  canonical counts are those of the first vote of every key.\<close>

theorem frame_reconcile_correct:
  assumes run: "frame_reconcile header bad decrypt ctx_done m s acks replay = (r, err)" and ok: "fzCorrect r"
    and len: "length (stOriginal s) = frKeys m" "length (stRepeat s) = (if frRepeatEvery m = 0 then 0 else frKeys m)"
  shows "err = None \<and> (\<forall>ack \<in> set acks. frame_recorded (jrVotes replay) ack) \<and>
    (\<forall>v \<in> set (jrVotes replay). planned_vote decrypt m s acks v) \<and> distinct (map (attempt decrypt m) (jrVotes replay)) \<and>
    attempt decrypt m ` {v \<in> set (jrVotes replay). acked_vote decrypt m s v} = ack_attempts s \<and>
    rfCanonicalKeys (fzReport r) = card (dom (map_of (map (attempt decrypt m) (jrVotes replay)))) \<and>
    (\<forall>c. 1 \<le> c \<and> c \<le> 32 \<longrightarrow>
       rfChoices (fzReport r) ! (c - 1) = card {k. map_of (map (attempt decrypt m) (jrVotes replay)) k = Some (of_nat c)})"
proof -
  let ?n = "frPartitions m" and ?vs = "jrVotes replay"
  from run ok obtain st ends x where d: "distinct_receipts [] acks = (x, True)" and n: "ack_states s = confirmed_attempts acks"
    and audit: "replay_audit header decrypt m s acks replay = ((st, None), ends)" and e: "err = None" and r: "fzReport r = asReport st"
    and counts: "rfMatchedFrames (asReport st) = length acks" "rfMatchedAttempts (asReport st) = confirmed_attempts acks"
    by (rule frame_reconcile_ok)
  from audit obtain st0 where v: "visit_votes (visit_vote header decrypt m s acks) ?vs (audit_start m) = (st0, None)"
    and f: "flush_all header acks [0..<?n] st0 = (st, None)"
    by (rule replay_audit_ok)
  have inv: "frames_inv acks ?n ?vs st0" "attempts_inv decrypt m s acks ?vs st0" using visit_votes_inv [OF v start_inv] by simp_all
  note fl = flush_all_ok [OF f frames_open [OF inv(1)]]
  have o: "open_inv acks ?n ?vs st" "\<forall>p < ?n. \<not> acActive (asAcc st ! p)" "rest_of st = rest_of st0" using fl by auto
  have a: "attempts_inv decrypt m s acks ?vs st" using inv(2) attempts_rest [OF o(3)] by simp
  have parts: "\<forall>v \<in> set ?vs. part_of v < ?n \<and> 0 \<le> jvPartition v" using inv(1) visit_partition [OF v] by (auto simp: frames_inv_def)
  have "distinct (map ack_position acks)" using distinct_receipts_ok [OF d] by simp
  then have "\<forall>ack \<in> set acks. frame_recorded ?vs ack" using frames_recorded [OF o(1,2) parts _ counts(1)] by blast
  moreover have "attempt decrypt m ` {v \<in> set ?vs. acked_vote decrypt m s v} = ack_attempts s"
    by (rule acked_attempts [OF a _ len]) (simp add: counts n)
  ultimately show ?thesis using a e unfolding r attempts_inv_def by (intro conjI) blast+
qed


text \<open>A run of one key whose only attempt was acknowledged, in a frame of its own.\<close>

definition demo_frame_token :: "byte list" where
  "demo_frame_token = replicate 15 0 @ [1]"

definition demo_frame_vote :: journal_vote where
  "demo_frame_vote = \<lparr>jvPartition = 0, jvOffset = 7, jvIndex = 0, jvToken = demo_frame_token, jvChoice = 1, jvAdmittedAt = 5\<rparr>"

definition demo_frame_ack :: ack_frame where
  "demo_frame_ack = \<lparr>akPartition = 0, akCount = 1, akOffset = 7, akAdmittedNS = 5, akDigest = sha256 (demo_frame_token @ [0, 0, 0, 1])\<rparr>"

definition demo_frame_run :: frame_run where
  "demo_frame_run = \<lparr>frKeys = 1, frRepeatEvery = 0, frPartitions = 1, frStartsAt = 0, frEndsAt = 10\<rparr>"

definition demo_frame_replay :: journal_replay where
  "demo_frame_replay = \<lparr>jrVotes = [demo_frame_vote], jrResult = Inr [(0, 90)]\<rparr>"

definition demo_states :: states where
  "demo_states = \<lparr>stOriginal = [stateACK], stRepeat = []\<rparr>"

lemma demo_frame_key: "decodeKey (\<lambda>t. t) demo_frame_token 1 = Some 0"
  by (simp add: decodeKey_def demo_frame_token_def get_be_def Let_def numeral_eq_Suc)

lemma demo_frame_enc: "encoded_vote demo_frame_token 1 = demo_frame_token @ [0, 0, 0, 1]"
  by (simp add: encoded_vote_def demo_frame_token_def put_be_def numeral_eq_Suc)

lemmas demo_frame_defs = demo_frame_vote_def demo_frame_ack_def demo_frame_run_def demo_frame_replay_def demo_states_def

lemma demo_frame_correct:
  "fzCorrect (fst (filebench_reconcile (\<lambda>t. t) False demo_frame_run demo_states [demo_frame_ack] demo_frame_replay))"
  by (simp add: filebench_reconcile_def frame_reconcile_def replay_audit_def visit_vote_def enter_frame_def next_index_def check_attempt_def
      match_attempt_def digest_vote_def count_vote_def flush_frame_def and_then_def set_acc_def in_report_def audit_start_def zero_accumulator_def
      empty_frame_report_def receipt_at_def states_get_def ack_states_def confirmed_attempts_def file_terminal_bad_def demo_frame_defs
      demo_frame_key [simplified] demo_frame_enc Let_def unix_ns_def unixNano_def timeOfNano_def stateACK_def)

lemma frame_reconcile_correct_witness: "frame_recorded [demo_frame_vote] demo_frame_ack"
proof -
  have run: "frame_reconcile 40 file_terminal_bad (\<lambda>t. t) False demo_frame_run demo_states [demo_frame_ack] demo_frame_replay =
      (fst (filebench_reconcile (\<lambda>t. t) False demo_frame_run demo_states [demo_frame_ack] demo_frame_replay),
       snd (filebench_reconcile (\<lambda>t. t) False demo_frame_run demo_states [demo_frame_ack] demo_frame_replay))"
    by (simp add: filebench_reconcile_def)
  from frame_reconcile_correct [OF run demo_frame_correct] show ?thesis
    by (simp add: demo_states_def demo_frame_run_def) (simp add: demo_frame_replay_def)
qed

end
