(* ===== verification/Frame_Workload_Inv.thy ===== *)
theory Frame_Workload_Inv
  imports Frame_Workload Frame_Audit_Props "HOL-Library.Multiset"
begin

text \<open>
  Invariants of the workload of the frame benchmarks. The generator: every attempt that was visited is in one
  frame, or counted as skipped. The workers: the states of the attempts agree with the receipts that were kept.
\<close>

section \<open>The attempts of frames\<close>

definition frame_pairs :: "frame \<Rightarrow> (nat \<times> u32) list" where
  "frame_pairs f = map (\<lambda>(k, token, choice). (k, choice)) (frame_attempts f)"

text \<open>The attempts planned for a key, and for the keys below a bound.\<close>

definition key_plan :: "fb_config \<Rightarrow> nat \<Rightarrow> (nat \<times> u32) list" where
  "key_plan c k = (k, 1) # (if frame_repeated c k then [(k, 2)] else [])"

definition planned_upto :: "fb_config \<Rightarrow> nat \<Rightarrow> (nat \<times> u32) list" where
  "planned_upto c n = concat (map (key_plan c) [0..<n])"

lemma planned_upto_simps [simp]: "planned_upto c 0 = []" "planned_upto c (Suc n) = planned_upto c n @ key_plan c n"
  by (simp_all add: planned_upto_def)

lemma set_planned_upto: "set (planned_upto c n) = {(k, ch). k < n \<and> (ch = 1 \<or> (ch = 2 \<and> frame_repeated c k))}"
  by (induction n) (auto simp: key_plan_def less_Suc_eq)

lemma distinct_planned_upto: "distinct (planned_upto c n)"
  by (induction n) (auto simp: key_plan_def set_planned_upto)

lemma length_multiples: "0 < r \<Longrightarrow> length (filter (\<lambda>k. Suc k mod r = 0) [0..<n]) = n div r"
  by (induction n) (auto simp: div_Suc)

lemma length_planned_upto: "length (planned_upto c n) = n + length (filter (frame_repeated c) [0..<n])"
  by (induction n) (auto simp: key_plan_def)

lemma length_planned: "0 \<le> fbRate c \<Longrightarrow> int (length (planned_upto c (nat (fb_keys c)))) = fb_attempts c"
proof -
  assume r: "0 \<le> fbRate c"
  then have k: "0 \<le> fb_keys c" by (simp add: fb_keys_def)
  show ?thesis
  proof (cases "fbRepeatEvery c > 0")
    case True
    define e where "e = nat (fbRepeatEvery c)"
    have e: "0 < e" "fbRepeatEvery c = int e" using True by (simp_all add: e_def)
    have "frame_repeated c = (\<lambda>k. Suc k mod e = 0)"
    proof
      fix k
      have "(int k + 1) mod int e = int (Suc k mod e)" by (simp add: zmod_int ac_simps)
      then show "frame_repeated c k = (Suc k mod e = 0)" using e by (simp add: frame_repeated_def)
    qed
    then have "length (planned_upto c (nat (fb_keys c))) = nat (fb_keys c) + nat (fb_keys c) div e"
      by (simp only: length_planned_upto length_multiples [OF e(1)])
    moreover have "int (nat (fb_keys c) div e) = fb_keys c div int e" using k by (simp add: zdiv_int)
    ultimately show ?thesis using k e by (simp add: fb_attempts_def)
  next
    case False
    then have "filter (frame_repeated c) [0..<nat (fb_keys c)] = []" by (simp add: frame_repeated_def filter_empty_conv)
    then show ?thesis using False k by (simp add: length_planned_upto fb_attempts_def)
  qed
qed

section \<open>The generator\<close>

text \<open>Keys and inputs of a frame are aligned, and every token is that of its key and belongs to the partition of the frame.\<close>

definition frame_shape :: "(byte list \<Rightarrow> byte list) \<Rightarrow> (byte list \<Rightarrow> nat) \<Rightarrow> frame \<Rightarrow> bool" where
  "frame_shape encrypt route f \<longleftrightarrow> length (fmKeys f) = length (fmInputs f) \<and>
     (\<forall>(k, token, choice) \<in> set (frame_attempts f). token = frame_token encrypt k \<and> route token = fmPartition f)"

definition pairs_mset :: "frame list \<Rightarrow> (nat \<times> u32) multiset" where
  "pairs_mset fs = sum_list (map (\<lambda>f. mset (frame_pairs f)) fs)"

lemma pairs_mset_simps [simp]: "pairs_mset [] = {#}" "pairs_mset (f # fs) = mset (frame_pairs f) + pairs_mset fs"
  "pairs_mset (fs @ gs) = pairs_mset fs + pairs_mset gs"
  by (simp_all add: pairs_mset_def)

lemma pairs_mset_concat: "pairs_mset fs = mset (concat (map frame_pairs fs))"
  by (induction fs) simp_all

lemma pairs_mset_update: "p < length fs \<Longrightarrow> pairs_mset (fs[p := f]) + mset (frame_pairs (fs ! p)) = pairs_mset fs + mset (frame_pairs f)"
  by (induction fs arbitrary: p) (auto simp: nth_Cons' ac_simps split: nat.splits)

lemma length_frame_pairs: "length (fmKeys f) = length (fmInputs f) \<Longrightarrow> length (frame_pairs f) = length (fmInputs f)"
  by (simp add: frame_pairs_def frame_attempts_def)

definition gen_inv :: "fb_config \<Rightarrow> (byte list \<Rightarrow> byte list) \<Rightarrow> (byte list \<Rightarrow> nat) \<Rightarrow> nat set \<Rightarrow> (nat \<times> u32) multiset \<Rightarrow> generator \<Rightarrow> bool" where
  "gen_inv c encrypt route E M g \<longleftrightarrow> length (gnBuffers g) = nat (fbPartitions c) \<and>
     (\<forall>p < nat (fbPartitions c). frame_shape encrypt route (gnBuffers g ! p) \<and> fmPartition (gnBuffers g ! p) = p \<and>
        int (length (fmInputs (gnBuffers g ! p))) \<le> fbFrameSize c - (if p \<in> E then 0 else 1)) \<and>
     (\<forall>f \<in> set (gnQueued g). frame_shape encrypt route f \<and> fmInputs f \<noteq> [] \<and> int (length (fmInputs f)) \<le> fbFrameSize c \<and>
        fmPartition f < nat (fbPartitions c)) \<and>
     pairs_mset (gnQueued g @ gnBuffers g) \<subseteq># M \<and> size (pairs_mset (gnQueued g @ gnBuffers g)) + gnLagSkips g + gnQueueSkips g = size M"

lemma empty_frame_facts [simp]: "frame_pairs (empty_frame p) = []" "frame_shape encrypt route (empty_frame p)" "fmInputs (empty_frame p) = []"
  "fmPartition (empty_frame p) = p" "fmKeys (empty_frame p) = []"
  by (simp_all add: frame_pairs_def frame_attempts_def empty_frame_def frame_shape_def)

lemma flush_inv:
  assumes inv: "gen_inv c encrypt route E M g" and p: "p < nat (fbPartitions c)" and fs: "1 \<le> fbFrameSize c"
  shows "gen_inv c encrypt route (E - {p}) M (flush_buffer room p g)"
proof (cases "fmInputs (gnBuffers g ! p) = []")
  case True
  then show ?thesis using inv fs by (auto simp: flush_buffer_def gen_inv_def split: if_splits)
next
  case False
  let ?f = "gnBuffers g ! p" and ?bs = "(gnBuffers g)[p := empty_frame p]"
  have len: "length (gnBuffers g) = nat (fbPartitions c)" and shape: "frame_shape encrypt route ?f" "fmPartition ?f = p"
    "int (length (fmInputs ?f)) \<le> fbFrameSize c"
    using inv p by (auto simp: gen_inv_def split: if_splits)
  have sum: "pairs_mset (gnBuffers g) = pairs_mset ?bs + mset (frame_pairs ?f)"
    using pairs_mset_update [of p "gnBuffers g" "empty_frame p"] len p by simp
  have size: "size (mset (frame_pairs ?f)) = length (fmInputs ?f)" using shape(1) by (simp add: frame_shape_def length_frame_pairs)
  have bufs: "\<forall>q < nat (fbPartitions c). frame_shape encrypt route (?bs ! q) \<and> fmPartition (?bs ! q) = q \<and>
        int (length (fmInputs (?bs ! q))) \<le> fbFrameSize c - (if q \<in> E - {p} then 0 else 1)"
    using inv len p fs by (auto simp: gen_inv_def nth_list_update)
  have old: "pairs_mset (gnQueued g) + pairs_mset (gnBuffers g) \<subseteq># M"
    "size (pairs_mset (gnQueued g)) + size (pairs_mset (gnBuffers g)) + gnLagSkips g + gnQueueSkips g = size M"
    using inv by (auto simp: gen_inv_def)
  have q: "\<forall>f \<in> set (gnQueued g). frame_shape encrypt route f \<and> fmInputs f \<noteq> [] \<and> int (length (fmInputs f)) \<le> fbFrameSize c \<and>
        fmPartition f < nat (fbPartitions c)"
    using inv by (auto simp: gen_inv_def)
  show ?thesis
  proof (cases "room (gnFlushes g)")
    case True
    then show ?thesis using False bufs old q len shape p
      by (auto simp: flush_buffer_def gen_inv_def Let_def sum ac_simps)
  next
    case room: False
    have "pairs_mset (gnQueued g) + pairs_mset ?bs \<subseteq># M"
      using old(1) unfolding sum by (metis add.assoc mset_subset_eq_add_left subset_mset.order_trans)
    then show ?thesis using False room bufs old(2) q len size unfolding sum
      by (auto simp: flush_buffer_def gen_inv_def Let_def)
  qed
qed

lemma append_inv:
  assumes inv: "gen_inv c encrypt route {} M g" and p: "p < nat (fbPartitions c)" and fs: "1 \<le> fbFrameSize c"
    and token: "token = frame_token encrypt key" "route token = p"
  shows "gen_inv c encrypt route {} (M + {#(key, choice)#}) (append_input c room now p key (token, choice) g)"
proof -
  let ?f = "gnBuffers g ! p"
  define f0 where "f0 = (if fmInputs ?f = [] then (empty_frame p)\<lparr>fmFirst := now\<rparr> else ?f)"
  define f where "f = f0\<lparr>fmInputs := fmInputs f0 @ [(token, choice)], fmKeys := fmKeys f0 @ [key]\<rparr>"
  define g' where "g' = g\<lparr>gnBuffers := (gnBuffers g)[p := f]\<rparr>"
  have app: "append_input c room now p key (token, choice) g = (if int (length (fmInputs f)) = fbFrameSize c then flush_buffer room p g' else g')"
    by (simp add: append_input_def f_def f0_def g'_def Let_def)
  have len: "length (gnBuffers g) = nat (fbPartitions c)" and shape: "frame_shape encrypt route ?f" "fmPartition ?f = p"
    "int (length (fmInputs ?f)) \<le> fbFrameSize c - 1"
    using inv p by (auto simp: gen_inv_def)
  have keys: "fmInputs ?f = [] \<Longrightarrow> fmKeys ?f = []" using shape(1) by (simp add: frame_shape_def)
  have f0: "fmInputs f0 = fmInputs ?f" "fmKeys f0 = fmKeys ?f" "fmPartition f0 = p" using keys shape(2) by (simp_all add: f0_def)
  have l: "length (fmKeys ?f) = length (fmInputs ?f)" using shape(1) by (simp add: frame_shape_def)
  have at: "frame_attempts f = frame_attempts ?f @ [(key, token, choice)]" using l by (simp add: f_def f0 frame_attempts_def)
  have pairs: "frame_pairs f = frame_pairs ?f @ [(key, choice)]" by (simp add: frame_pairs_def at)
  have sf: "frame_shape encrypt route f" "fmPartition f = p" "length (fmInputs f) = length (fmInputs ?f) + 1"
    using shape(1,2) token l at by (auto simp: frame_shape_def f_def f0)
  have sum: "pairs_mset ((gnBuffers g)[p := f]) = pairs_mset (gnBuffers g) + {#(key, choice)#}"
    using pairs_mset_update [of p "gnBuffers g" f] len p by (simp add: pairs ac_simps)
  have mid: "gen_inv c encrypt route (if int (length (fmInputs f)) = fbFrameSize c then {p} else {}) (M + {#(key, choice)#}) g'"
    using inv len p sf shape(3) by (auto simp: gen_inv_def g'_def sum nth_list_update ac_simps)
  show ?thesis
  proof (cases "int (length (fmInputs f)) = fbFrameSize c")
    case True
    then show ?thesis using flush_inv [OF mid p fs, of room] by (simp add: app)
  next
    case False
    then show ?thesis using mid by (simp add: app)
  qed
qed


lemma gen_inv_buffers_only: "gen_inv c encrypt route {} M g \<Longrightarrow>
    gen_inv c encrypt route {} (M + N) (g\<lparr>gnLagSkips := gnLagSkips g + size N\<rparr>)"
  by (auto simp: gen_inv_def intro: subset_mset.order_trans)

lemma key_inv:
  assumes inv: "gen_inv c encrypt route {} M g" and route: "\<And>t. route t < nat (fbPartitions c)" and fs: "1 \<le> fbFrameSize c"
  shows "gen_inv c encrypt route {} (M + mset (key_plan c key)) (generate_key c encrypt route room start now key g)"
proof (cases "time_sub now (frame_at start key (fbRate c)) > fbMaxLag c")
  case True
  have "size (mset (key_plan c key)) = (if frame_repeated c key then 2 else 1)" by (simp add: key_plan_def)
  then show ?thesis using True gen_inv_buffers_only [OF inv, of "mset (key_plan c key)"] by (simp add: generate_key_def Let_def)
next
  case False
  let ?t = "frame_token encrypt key"
  note one = append_inv [OF inv route [of ?t] fs refl refl, where room = room and now = now and choice = 1]
  note two = append_inv [OF one route [of ?t] fs refl refl, where room = room and now = now and choice = 2]
  show ?thesis using False one two by (auto simp: generate_key_def Let_def key_plan_def add_mset_commute)
qed

lemma aged_inv:
  assumes "gen_inv c encrypt route {} M g" and "p < nat (fbPartitions c)" and "1 \<le> fbFrameSize c"
  shows "gen_inv c encrypt route {} M (flush_aged c room now p g)"
  using flush_inv [OF assms, of room] assms(1) by (simp add: flush_aged_def Let_def)

lemma fold_aged_inv:
  assumes "gen_inv c encrypt route {} M g" and "\<forall>p \<in> set ps. p < nat (fbPartitions c)" and "1 \<le> fbFrameSize c"
  shows "gen_inv c encrypt route {} M (fold (flush_aged c room now) ps g)"
  using assms by (induction ps arbitrary: g) (auto intro: aged_inv)

lemma group_inv:
  assumes inv: "gen_inv c encrypt route {} (mset (planned_upto c base)) g" and route: "\<And>t. route t < nat (fbPartitions c)" and fs: "1 \<le> fbFrameSize c"
  shows "gen_inv c encrypt route {} (mset (planned_upto c (base + n))) (generate_group c encrypt route room start now base n g)"
proof -
  have "gen_inv c encrypt route {} (mset (planned_upto c base)) (fold (flush_aged c room now) [0..<nat (fbPartitions c)] g)"
    by (rule fold_aged_inv [OF inv _ fs]) simp
  then have "gen_inv c encrypt route {} (mset (planned_upto c (base + n)))
      (fold (generate_key c encrypt route room start now) [base..<base + n] (fold (flush_aged c room now) [0..<nat (fbPartitions c)] g))"
  proof (induction n)
    case 0
    then show ?case by simp
  next
    case (Suc n)
    then show ?case using key_inv [OF Suc.IH [OF Suc.prems] route fs, where key = "base + n" and room = room and start = start and now = now] by simp
  qed
  then show ?thesis by (simp add: generate_group_def)
qed

text \<open>The loop ends with all keys visited, when the clock never stops it.\<close>

lemma from_inv:
  assumes "gen_inv c encrypt route {} (mset (planned_upto c base)) g" and "base \<le> nat (fb_keys c)"
    and "\<And>now b n g. gen_inv c encrypt route {} (mset (planned_upto c b)) g \<Longrightarrow> gen_inv c encrypt route {} (mset (planned_upto c (b + n))) (visit now b n g)"
  shows "\<exists>n \<le> nat (fb_keys c). ((\<forall>b. clock b \<noteq> None) \<longrightarrow> n = nat (fb_keys c)) \<and>
    gen_inv c encrypt route {} (mset (planned_upto c n)) (generate_from c clock visit base g)"
  using assms
proof (induction c clock visit base g rule: generate_from.induct)
  case (1 c clock visit base g)
  note inv = "1.prems"(1) and bound = "1.prems"(2) and visit = "1.prems"(3)
  note step = generate_from.simps [of c clock visit base g]
  show ?case
  proof (cases "base \<ge> nat (fb_keys c)")
    case True
    then show ?thesis using inv bound by (intro exI [of _ base]) (simp add: step)
  next
    case more_keys: False
    show ?thesis
    proof (cases "clock base")
      case None
      then show ?thesis using inv bound more_keys by (intro exI [of _ base]) (auto simp: step)
    next
      case (Some now)
      let ?n = "min (group_size c) (nat (fb_keys c) - base)"
      let ?g = "visit now base ?n g"
      have g: "gen_inv c encrypt route {} (mset (planned_upto c (base + ?n))) ?g" by (rule visit [OF inv])
      show ?thesis
      proof (cases "base + group_size c \<le> nat (fb_keys c)")
        case True
        then have n: "?n = group_size c" by simp
        show ?thesis using "1.IH" [OF more_keys Some _ True visit] g more_keys Some by (simp add: step n)
      next
        case False
        then have n: "base + ?n = nat (fb_keys c)" using bound by simp
        have "generate_from c clock visit (base + group_size c) ?g = ?g"
          using False by (simp add: generate_from.simps)
        then show ?thesis using g more_keys Some unfolding n by (intro exI [of _ "nat (fb_keys c)"]) (simp add: step)
      qed
    qed
  qed
qed

lemma start_gen_inv: "1 \<le> fbFrameSize c \<Longrightarrow> gen_inv c encrypt route {} (mset (planned_upto c 0)) (generator_start c)"
proof -
  have "pairs_mset (map empty_frame ps) = {#}" for ps by (induction ps) simp_all
  then show "1 \<le> fbFrameSize c \<Longrightarrow> ?thesis" by (simp add: gen_inv_def generator_start_def)
qed

lemma flushed_empty:
  "p < length (gnBuffers g) \<Longrightarrow> fmInputs (gnBuffers (flush_buffer room p g) ! p) = []"
  "fmInputs (gnBuffers g ! q) = [] \<Longrightarrow> fmInputs (gnBuffers (flush_buffer room p g) ! q) = []"
  by (auto simp: flush_buffer_def Let_def nth_list_update) (metis nth_list_update_eq nth_list_update_neq list_update_beyond not_less empty_frame_facts(3))

lemma flush_all_inv:
  assumes "gen_inv c encrypt route {} M g" and "\<forall>p \<in> set ps. p < nat (fbPartitions c)" and "1 \<le> fbFrameSize c"
  shows "gen_inv c encrypt route {} M (fold (flush_buffer room) ps g) \<and>
    (\<forall>p. p \<in> set ps \<or> fmInputs (gnBuffers g ! p) = [] \<longrightarrow> fmInputs (gnBuffers (fold (flush_buffer room) ps g) ! p) = [])"
  using assms
proof (induction ps arbitrary: g)
  case Nil
  then show ?case by simp
next
  case (Cons p ps)
  have p: "p < nat (fbPartitions c)" using Cons.prems by simp
  have g: "gen_inv c encrypt route {} M (flush_buffer room p g)" using flush_inv [OF Cons.prems(1) p Cons.prems(3), of room] by simp
  have "p < length (gnBuffers g)" using Cons.prems(1) p by (simp add: gen_inv_def)
  then show ?case using Cons.IH [OF g _ Cons.prems(3)] Cons.prems(2) flushed_empty(1) [of p g room] flushed_empty(2) [of g _ room p] by auto
qed

lemma generate_frames_inv:
  assumes route: "\<And>t. route t < nat (fbPartitions c)" and fs: "1 \<le> fbFrameSize c"
  shows "\<exists>n \<le> nat (fb_keys c). ((\<forall>b. clock b \<noteq> None) \<longrightarrow> n = nat (fb_keys c)) \<and>
    (let g = generate_frames c encrypt route room clock start in
      (\<forall>f \<in> set (gnQueued g). frame_shape encrypt route f \<and> fmInputs f \<noteq> [] \<and> int (length (fmInputs f)) \<le> fbFrameSize c \<and>
        fmPartition f < nat (fbPartitions c)) \<and>
      mset (concat (map frame_pairs (gnQueued g))) \<subseteq># mset (planned_upto c n) \<and>
      sum_list (map (\<lambda>f. length (fmInputs f)) (gnQueued g)) + gnLagSkips g + gnQueueSkips g = length (planned_upto c n))"
proof -
  let ?run = "generate_from c clock (generate_group c encrypt route room start) 0 (generator_start c)"
    and ?g = "generate_frames c encrypt route room clock start"
  have zero: "0 \<le> nat (fb_keys c)" by simp
  have grp: "gen_inv c encrypt route {} (mset (planned_upto c (b + m))) (generate_group c encrypt route room start now b m h)"
    if "gen_inv c encrypt route {} (mset (planned_upto c b)) h" for now b m h
    by (rule group_inv [OF that route fs])
  have from_run: "\<exists>n \<le> nat (fb_keys c). ((\<forall>b. clock b \<noteq> None) \<longrightarrow> n = nat (fb_keys c)) \<and>
    gen_inv c encrypt route {} (mset (planned_upto c n)) ?run"
    by (rule from_inv [OF start_gen_inv [OF fs] zero]) (rule grp)
  from from_run obtain n where n: "n \<le> nat (fb_keys c)" "(\<forall>b. clock b \<noteq> None) \<longrightarrow> n = nat (fb_keys c)"
    and inv: "gen_inv c encrypt route {} (mset (planned_upto c n)) ?run"
    by (elim exE conjE)
  have g: "gen_inv c encrypt route {} (mset (planned_upto c n)) ?g" "\<forall>p < nat (fbPartitions c). fmInputs (gnBuffers ?g ! p) = []"
    using flush_all_inv [OF inv _ fs, of "[0..<nat (fbPartitions c)]" room] by (auto simp: generate_frames_def)
  have empty: "pairs_mset (gnBuffers ?g) = {#}"
  proof -
    have "frame_pairs f = []" if "f \<in> set (gnBuffers ?g)" for f
      using that g by (auto simp: in_set_conv_nth gen_inv_def frame_pairs_def frame_attempts_def)
    then have "pairs_mset fs = {#}" if "set fs \<subseteq> set (gnBuffers ?g)" for fs using that by (induction fs) auto
    then show ?thesis by simp
  qed
  have shapes: "\<forall>f \<in> set (gnQueued ?g). frame_shape encrypt route f \<and> fmInputs f \<noteq> [] \<and> int (length (fmInputs f)) \<le> fbFrameSize c \<and>
        fmPartition f < nat (fbPartitions c)"
    using g(1) by (simp add: gen_inv_def)
  have "size (pairs_mset fs) = sum_list (map (\<lambda>f. length (fmInputs f)) fs)" if "set fs \<subseteq> set (gnQueued ?g)" for fs
    using that shapes by (induction fs) (auto simp: frame_shape_def length_frame_pairs)
  then have "size (pairs_mset (gnQueued ?g)) = sum_list (map (\<lambda>f. length (fmInputs f)) (gnQueued ?g))" by simp
  then show ?thesis using g(1) shapes n empty unfolding Let_def
    by (intro exI [of _ n]) (simp add: gen_inv_def pairs_mset_concat [symmetric])
qed


section \<open>Workers\<close>

definition mark :: "byte \<Rightarrow> (nat \<times> u32) list \<Rightarrow> states \<Rightarrow> states" where
  "mark v ps st = fold (\<lambda>(k, ch). states_set k ch v) ps st"

definition pairs_of :: "(nat \<times> frame_input) list \<Rightarrow> (nat \<times> u32) list" where
  "pairs_of as = map (\<lambda>(k, token, choice). (k, choice)) as"

lemma pairs_of_frame: "pairs_of (frame_attempts f) = frame_pairs f"
  by (simp add: pairs_of_def frame_pairs_def)

lemma dispatch_fold:
  "fst (fold (dispatch_attempt c) as x) = mark stateUnknown (pairs_of as) (fst x)"
  "ftCounts (snd (fold (dispatch_attempt c) as x)) = ftCounts (snd x)" "ftAcks (snd (fold (dispatch_attempt c) as x)) = ftAcks (snd x)"
  by (induction as arbitrary: x) (auto simp: mark_def pairs_of_def dispatch_attempt_def in_fb_bucket_def)

text \<open>What the proofs use of the counters.\<close>

definition settled :: "fb_counts \<Rightarrow> nat" where
  "settled k = fnRecorded k + fnUnknown k + fnClosed k + fnNotOpen k + fnBusy k + fnRejected k"

definition tally :: "fb_counts \<Rightarrow> nat \<times> nat \<times> nat \<times> nat \<times> nat \<times> nat" where
  "tally k = (fnDispatched k, fnLagSkips k, fnQueueSkips k, settled k, fnRecorded k, fnOriginal k + fnRepeat k)"

lemma settle_step:
  "fst (settle_attempt c start env state a x) = states_set (fst a) (snd (snd a)) state (fst x)"
  "ftAcks (snd (settle_attempt c start env state a x)) = ftAcks (snd x)"
  "tally (ftCounts (snd x)) = (d, l, q, t, r, b) \<Longrightarrow>
     tally (ftCounts (snd (settle_attempt c start env state a x))) = (d, l, q, t, r, b + of_bool (state = stateACK))"
  by (auto simp: settle_attempt_def in_fb_bucket_def in_counts_def Let_def tally_def settled_def split: prod.splits)

lemma settle_fold:
  assumes "tally (ftCounts (snd x)) = (d, l, q, t, r, b)"
  shows "fst (fold (settle_attempt c start env state) as x) = mark state (pairs_of as) (fst x) \<and>
   ftAcks (snd (fold (settle_attempt c start env state) as x)) = ftAcks (snd x) \<and>
   tally (ftCounts (snd (fold (settle_attempt c start env state) as x))) = (d, l, q, t, r, b + (if state = stateACK then length as else 0))"
  using assms
proof (induction as arbitrary: x b)
  case Nil
  then show ?case by (simp add: mark_def pairs_of_def)
next
  case (Cons e es)
  let ?y = "settle_attempt c start env state e x"
  have "mark state (pairs_of (e # es)) (fst x) = mark state (pairs_of es) (fst ?y)"
    by (cases e) (simp add: mark_def pairs_of_def settle_step)
  then show ?case using Cons.IH [OF settle_step(3) [OF Cons.prems, of c start env state e]] by (simp add: settle_step)
qed

text \<open>The counters of a worker agree with one another and with its receipts.\<close>

definition balanced :: "fb_stat \<Rightarrow> bool" where
  "balanced s \<longleftrightarrow> (let k = ftCounts s in
     fnDispatched k = settled k \<and> fnRecorded k = fnOriginal k + fnRepeat k \<and> fnRecorded k = confirmed_attempts (ftAcks s))"

text \<open>What counting a malformed receipt leaves alone.\<close>

definition counts_invalid :: "(byte \<Rightarrow> fb_counts \<Rightarrow> fb_counts) \<Rightarrow> bool" where
  "counts_invalid f \<longleftrightarrow> (\<forall>v k. tally (f v k) = tally k)"

lemma both_count_invalid: "counts_invalid file_count_invalid" "counts_invalid topic_count_invalid"
  by (simp_all add: counts_invalid_def file_count_invalid_def topic_count_invalid_def tally_def settled_def)

lemma receipt_count: "receiptViolations starts ends f x = 0 \<Longrightarrow> reCount x = length (fmInputs f)"
  by (auto simp: receiptViolations_def wrongPartition_def wrongCount_def wrongOffset_def wrongWindow_def split: if_splits)

lemma check_receipt_step:
  assumes "counts_invalid ci" and "check_frame_receipt ci starts ends f reply s = (r, s')"
  shows "ftAcks s' = ftAcks s \<and> tally (ftCounts s') = tally (ftCounts s) \<and> (\<forall>x. r = Inr x \<longrightarrow> reCount x = length (fmInputs f))"
  using assms by (auto simp: check_frame_receipt_def counts_invalid_def in_counts_def Let_def receipt_count split: sum.splits if_splits)

lemma settle_frame_step:
  assumes "settle_frame start env f r s = (state, s')" and "\<forall>x. r = Inr x \<longrightarrow> reCount x = length (fmInputs f)"
    and "tally (ftCounts s) = (d, l, q, t, rec, b)"
  shows "tally (ftCounts s') = (d, l, q, t + length (fmInputs f), rec + (if state = stateACK then length (fmInputs f) else 0), b) \<and>
    confirmed_attempts (ftAcks s') = confirmed_attempts (ftAcks s) + (if state = stateACK then length (fmInputs f) else 0)"
  using assms by (auto simp: settle_frame_def in_counts_def in_fb_bucket_def Let_def tally_def settled_def confirmed_attempts_def
      stateACK_def stateRejected_def stateUnknown_def split: sum.splits send_error.splits)

text \<open>A frame in a worker: it was not sent, or all its attempts are marked with the outcome.\<close>

lemma worker_frame_step:
  assumes ci: "counts_invalid ci" and len: "length (fmKeys f) = length (fmInputs f)"
    and run: "worker_frame ci c starts ends f env (st, s) = (st', s')" and bal: "balanced s"
  shows "balanced s' \<and> fnQueueSkips (ftCounts s') = fnQueueSkips (ftCounts s) \<and>
    fnDispatched (ftCounts s') + fnLagSkips (ftCounts s') \<le> fnDispatched (ftCounts s) + fnLagSkips (ftCounts s) + length (fmInputs f) \<and>
    ((st' = st \<and> confirmed_attempts (ftAcks s') = confirmed_attempts (ftAcks s)) \<or>
     (\<exists>state. st' = mark state (frame_pairs f) (mark stateUnknown (frame_pairs f) st) \<and>
       confirmed_attempts (ftAcks s') = confirmed_attempts (ftAcks s) + (if state = stateACK then length (fmInputs f) else 0)))"
proof -
  let ?n = "length (fmInputs f)"
  let ?late = "time_sub (evSince env) (frame_at starts (hd (fmKeys f)) (fbRate c)) > fbMaxLag c"
  show ?thesis
  proof (cases "evEnded env \<or> ?late")
    case True
    then have skip: "st' = st \<and> (s' = s \<or> s' = in_counts (\<lambda>k. k\<lparr>fnLagSkips := fnLagSkips k + ?n\<rparr>) s)"
      using run by (cases "evEnded env") (simp_all add: worker_frame_def Let_def)
    then have "ftAcks s' = ftAcks s" "balanced s'" "fnQueueSkips (ftCounts s') = fnQueueSkips (ftCounts s)"
      "fnDispatched (ftCounts s') + fnLagSkips (ftCounts s') \<le> fnDispatched (ftCounts s) + fnLagSkips (ftCounts s) + ?n"
      using bal by (auto simp: in_counts_def balanced_def settled_def Let_def)
    then show ?thesis using skip by simp
  next
    case False
    obtain st1 s1 where d: "fold (dispatch_attempt c) (frame_attempts f) (st, s) = (st1, s1)" by (metis surj_pair)
    define s2 where "s2 = in_fb_bucket (frame_second starts (evBefore env)) (\<lambda>b. b\<lparr>bkActualDispatched := bkActualDispatched b + ?n\<rparr>)
      (in_counts (\<lambda>k. k\<lparr>fnDispatched := fnDispatched k + ?n, fnDispatchedFrames := fnDispatchedFrames k + 1\<rparr>) s1)"
    obtain r s3 where ch: "check_frame_receipt ci starts ends f (evReply env) s2 = (r, s3)" by (metis surj_pair)
    obtain state s4 where se: "settle_frame starts env f r s3 = (state, s4)" by (metis surj_pair)
    have fin: "fold (settle_attempt c starts env state) (frame_attempts f) (st1, s4) = (st', s')"
      using run False d ch se by (simp add: worker_frame_def Let_def s2_def)
    obtain d0 l q t rec b where t0: "tally (ftCounts s) = (d0, l, q, t, rec, b)" by (metis surj_pair)
    have t1: "tally (ftCounts s2) = (d0 + ?n, l, q, t, rec, b)" and a1: "ftAcks s2 = ftAcks s"
      using dispatch_fold [of c "frame_attempts f" "(st, s)"] t0 by (auto simp: d s2_def in_fb_bucket_def in_counts_def tally_def settled_def)
    note c3 = check_receipt_step [OF ci ch, unfolded t1 a1]
    note c4 = settle_frame_step [OF se conjunct2 [OF conjunct2 [OF c3]] conjunct1 [OF conjunct2 [OF c3]]]
    have "length (frame_attempts f) = ?n" using len by (simp add: frame_attempts_def)
    then have c5: "st' = mark state (frame_pairs f) st1" "ftAcks s' = ftAcks s4"
      "tally (ftCounts s') = (d0 + ?n, l, q, t + ?n, rec + (if state = stateACK then ?n else 0), b + (if state = stateACK then ?n else 0))"
      using settle_fold [of "(st1, s4)", OF _, of _ _ _ _ _ _ c starts env state "frame_attempts f"] c4 by (simp_all add: fin pairs_of_frame)
    have st1: "st1 = mark stateUnknown (frame_pairs f) st" using dispatch_fold(1) [of c "frame_attempts f" "(st, s)"] by (simp add: d pairs_of_frame)
    have acks: "confirmed_attempts (ftAcks s') = confirmed_attempts (ftAcks s) + (if state = stateACK then ?n else 0)"
      using c4 c3 c5(2) by simp
    have "balanced s'" "fnQueueSkips (ftCounts s') = q" "fnDispatched (ftCounts s') = d0 + ?n" "fnLagSkips (ftCounts s') = l"
      using c5(3) bal t0 acks by (auto simp: balanced_def tally_def Let_def)
    then show ?thesis using t0 acks st1 c5(1) by (auto simp: tally_def)
  qed
qed


section \<open>States of attempts\<close>

text \<open>An attempt has a state when its key is below the lengths of the arrays.\<close>

definition has_state :: "nat \<Rightarrow> nat \<Rightarrow> nat \<times> u32 \<Rightarrow> bool" where
  "has_state originals repeats a \<longleftrightarrow> (snd a = 1 \<and> fst a < originals) \<or> (snd a = 2 \<and> fst a < repeats)"

lemma states_set_lengths [simp]: "length (stOriginal (states_set k ch v st)) = length (stOriginal st)"
  "length (stRepeat (states_set k ch v st)) = length (stRepeat st)"
  by (simp_all add: states_set_def)

lemma mark_lengths [simp]: "length (stOriginal (mark v ps st)) = length (stOriginal st)" "length (stRepeat (mark v ps st)) = length (stRepeat st)"
  by (induction ps arbitrary: st) (auto simp: mark_def split: prod.splits)

lemma ack_attempts_set:
  assumes "has_state (length (stOriginal st)) (length (stRepeat st)) (k, ch)"
  shows "ack_attempts (states_set k ch v st) = (if v = stateACK then insert (k, ch) (ack_attempts st) else ack_attempts st - {(k, ch)})"
  using assms by (auto simp: has_state_def ack_attempts_def states_set_def nth_list_update split: if_splits)

lemma ack_attempts_mark:
  assumes "\<forall>a \<in> set ps. has_state (length (stOriginal st)) (length (stRepeat st)) a"
  shows "ack_attempts (mark v ps st) = (if v = stateACK then ack_attempts st \<union> set ps else ack_attempts st - set ps)"
  using assms
proof (induction ps arbitrary: st)
  case Nil
  then show ?case by (simp add: mark_def)
next
  case (Cons a ps)
  obtain k ch where a: "a = (k, ch)" by (cases a)
  have "mark v (a # ps) st = mark v ps (states_set k ch v st)" by (simp add: mark_def a)
  then show ?case using Cons.IH [of "states_set k ch v st"] Cons.prems ack_attempts_set [of st k ch v] by (auto simp: a)
qed

section \<open>All frames\<close>

lemma sum_map_update_nat: "w < length xs \<Longrightarrow> sum_list (map \<phi> (xs[w := x])) + \<phi> (xs ! w) = sum_list (map \<phi> xs) + \<phi> x" for \<phi> :: "'a \<Rightarrow> nat"
  by (induction xs arbitrary: w) (auto simp: nth_Cons' split: nat.splits)

definition stats_acks :: "fb_stat list \<Rightarrow> nat" where
  "stats_acks stats = sum_list (map (\<lambda>s. confirmed_attempts (ftAcks s)) stats)"

definition stats_taken :: "fb_stat list \<Rightarrow> nat" where
  "stats_taken stats = sum_list (map (\<lambda>s. fnDispatched (ftCounts s) + fnLagSkips (ftCounts s)) stats)"

definition jobs_inv :: "nat \<Rightarrow> nat \<Rightarrow> nat \<Rightarrow> (nat \<times> u32) set \<Rightarrow> nat \<Rightarrow> states \<times> fb_stat list \<Rightarrow> bool" where
  "jobs_inv originals repeats workers A n x \<longleftrightarrow> length (stOriginal (fst x)) = originals \<and> length (stRepeat (fst x)) = repeats \<and>
     length (snd x) = workers \<and> ack_attempts (fst x) \<subseteq> A \<and> card (ack_attempts (fst x)) = stats_acks (snd x) \<and>
     (\<forall>s \<in> set (snd x). balanced s \<and> fnQueueSkips (ftCounts s) = 0) \<and> stats_taken (snd x) \<le> n"

lemma job_step:
  assumes ci: "counts_invalid ci" and len: "length (fmKeys f) = length (fmInputs f)" and inv: "jobs_inv originals repeats workers A n x"
    and w: "w < workers" and fresh: "set (frame_pairs f) \<inter> A = {}" "distinct (frame_pairs f)" and has: "\<forall>a \<in> set (frame_pairs f). has_state originals repeats a"
  shows "jobs_inv originals repeats workers (A \<union> set (frame_pairs f)) (n + length (fmInputs f)) (worker_job ci c starts ends (f, w, env) x)"
proof -
  obtain st stats where x: "x = (st, stats)" by (cases x)
  obtain st' s' where run: "worker_frame ci c starts ends f env (st, stats ! w) = (st', s')" by (metis surj_pair)
  have i: "length (stOriginal st) = originals" "length (stRepeat st) = repeats" "length stats = workers" "ack_attempts st \<subseteq> A"
    "card (ack_attempts st) = stats_acks stats" "\<forall>s \<in> set stats. balanced s \<and> fnQueueSkips (ftCounts s) = 0" "stats_taken stats \<le> n"
    using inv by (auto simp: jobs_inv_def x)
  have wl: "w < length stats" using w i(3) by simp
  have bw: "balanced (stats ! w)" "fnQueueSkips (ftCounts (stats ! w)) = 0" using i(6) wl by auto
  note step = worker_frame_step [OF ci len run bw(1)]
  have acks: "stats_acks (stats[w := s']) + confirmed_attempts (ftAcks (stats ! w)) = stats_acks stats + confirmed_attempts (ftAcks s')"
    unfolding stats_acks_def by (rule sum_map_update_nat [OF wl])
  have taken: "stats_taken (stats[w := s']) + (fnDispatched (ftCounts (stats ! w)) + fnLagSkips (ftCounts (stats ! w))) =
      stats_taken stats + (fnDispatched (ftCounts s') + fnLagSkips (ftCounts s'))"
    unfolding stats_taken_def by (rule sum_map_update_nat [OF wl])
  have fin: "finite (ack_attempts st)" using card_ack_attempts by blast
  have m: "length (frame_pairs f) = length (fmInputs f)" using len by (rule length_frame_pairs)
  have state: "length (stOriginal st') = originals \<and> length (stRepeat st') = repeats \<and> ack_attempts st' \<subseteq> A \<union> set (frame_pairs f) \<and>
      card (ack_attempts st') = stats_acks (stats[w := s'])"
    using conjunct2 [OF conjunct2 [OF conjunct2 [OF step]]]
  proof (elim disjE exE conjE)
    assume "st' = st" "confirmed_attempts (ftAcks s') = confirmed_attempts (ftAcks (stats ! w))"
    then show ?thesis using i acks by auto
  next
    fix state
    assume st': "st' = mark state (frame_pairs f) (mark stateUnknown (frame_pairs f) st)"
      and conf: "confirmed_attempts (ftAcks s') = confirmed_attempts (ftAcks (stats ! w)) + (if state = stateACK then length (fmInputs f) else 0)"
    have "ack_attempts (mark stateUnknown (frame_pairs f) st) = ack_attempts st - set (frame_pairs f)"
      using ack_attempts_mark [of "frame_pairs f" st stateUnknown] has i(1,2) by (simp add: stateUnknown_def stateACK_def)
    also have "\<dots> = ack_attempts st" using fresh(1) i(4) by auto
    finally have a: "ack_attempts st' = (if state = stateACK then ack_attempts st \<union> set (frame_pairs f) else ack_attempts st - set (frame_pairs f))"
      using ack_attempts_mark [of "frame_pairs f" "mark stateUnknown (frame_pairs f) st" state] has i(1,2) by (simp add: st')
    have "card (ack_attempts st \<union> set (frame_pairs f)) = card (ack_attempts st) + length (fmInputs f)"
      using fin fresh i(4) by (subst card_Un_disjoint) (auto simp: distinct_card m)
    moreover have "ack_attempts st - set (frame_pairs f) = ack_attempts st" using fresh(1) i(4) by auto
    ultimately show ?thesis using a i acks conf by (auto simp: st')
  qed
  have "stats_taken (stats[w := s']) \<le> n + length (fmInputs f)" using taken step i(7) by linarith
  moreover have "\<forall>s \<in> set (stats[w := s']). balanced s \<and> fnQueueSkips (ftCounts s) = 0"
    using i(6) step bw(2) set_update_subset_insert [of stats w s'] by auto
  ultimately show ?thesis using state i(3) by (simp add: jobs_inv_def worker_job_def x run)
qed

lemma run_jobs_inv:
  assumes ci: "counts_invalid ci" and inv: "jobs_inv originals repeats workers A n x"
    and jobs: "\<forall>(f, w, env) \<in> set jobs. length (fmKeys f) = length (fmInputs f) \<and> w < workers \<and> (\<forall>a \<in> set (frame_pairs f). has_state originals repeats a)"
    and d: "distinct (concat (map (frame_pairs \<circ> fst) jobs))" "set (concat (map (frame_pairs \<circ> fst) jobs)) \<inter> A = {}"
  shows "\<exists>B. jobs_inv originals repeats workers B (n + sum_list (map (\<lambda>j. length (fmInputs (fst j))) jobs)) (run_jobs ci c starts ends jobs x)"
  using inv jobs d
proof (induction jobs arbitrary: A n x)
  case Nil
  then show ?case by (auto simp: run_jobs_def)
next
  case (Cons j jobs)
  obtain f w env where j: "j = (f, w, env)" by (cases j)
  have step: "jobs_inv originals repeats workers (A \<union> set (frame_pairs f)) (n + length (fmInputs f)) (worker_job ci c starts ends (f, w, env) x)"
    by (rule job_step [OF ci _ Cons.prems(1)]) (use Cons.prems(2,3,4) in \<open>auto simp: j\<close>)
  from Cons.IH [OF step] Cons.prems(2,3,4) show ?case by (auto simp: run_jobs_def j add.assoc Int_Un_distrib)
qed

end
