(* ===== verification/Frame_Workload_Props.thy ===== *)
theory Frame_Workload_Props
  imports Frame_Workload_Inv
begin

text \<open>
  What the workload of the frame benchmarks guarantees: the frames of the generator are well formed and hold every
  visited attempt at most once; the ledger it leaves agrees with its report, so that the audit never refuses it for that.
\<close>

section \<open>The frames of the generator\<close>

text \<open>A frame that was queued: not empty, within the size, its keys aligned with its inputs, its tokens those of the keys, in its partition.\<close>

definition frame_typed :: "fb_config \<Rightarrow> (byte list \<Rightarrow> byte list) \<Rightarrow> (byte list \<Rightarrow> nat) \<Rightarrow> frame \<Rightarrow> bool" where
  "frame_typed c encrypt route f \<longleftrightarrow> frame_shape encrypt route f \<and> fmInputs f \<noteq> [] \<and> int (length (fmInputs f)) \<le> fbFrameSize c \<and>
     fmPartition f < nat (fbPartitions c)"

lemma distinct_submset:
  assumes "distinct ys" and "mset xs \<subseteq># mset ys"
  shows "distinct xs"
  unfolding distinct_count_atmost_1
proof
  fix a
  have "count (mset xs) a \<le> count (mset ys) a" by (rule mset_subset_eq_count [OF assms(2)])
  also have "\<dots> \<le> 1" using assms(1) by (simp add: distinct_count_atmost_1)
  finally show "count (mset xs) a = (if a \<in> set xs then 1 else 0)" by (cases "a \<in> set xs") (auto simp: count_eq_zero_iff le_Suc_eq)
qed

lemma frame_generator_inv:
  assumes "\<And>t. route t < nat (fbPartitions c)" and "1 \<le> fbFrameSize c"
  shows "\<exists>n \<le> nat (fb_keys c). ((\<forall>b. clock b \<noteq> None) \<longrightarrow> n = nat (fb_keys c)) \<and>
    (let g = generate_frames c encrypt route room clock start in
      (\<forall>f \<in> set (gnQueued g). frame_typed c encrypt route f) \<and> distinct (concat (map frame_pairs (gnQueued g))) \<and>
      set (concat (map frame_pairs (gnQueued g))) \<subseteq> set (planned_upto c n) \<and>
      sum_list (map (\<lambda>f. length (fmInputs f)) (gnQueued g)) + gnLagSkips g + gnQueueSkips g = length (planned_upto c n))"
proof -
  let ?g = "generate_frames c encrypt route room clock start"
  from generate_frames_inv [where route = route and encrypt = encrypt and clock = clock and room = room and start = start, OF assms]
  obtain n where n: "n \<le> nat (fb_keys c)" "(\<forall>b. clock b \<noteq> None) \<longrightarrow> n = nat (fb_keys c)"
    and g: "\<forall>f \<in> set (gnQueued ?g). frame_shape encrypt route f \<and> fmInputs f \<noteq> [] \<and> int (length (fmInputs f)) \<le> fbFrameSize c \<and>
        fmPartition f < nat (fbPartitions c)"
    and sub: "mset (concat (map frame_pairs (gnQueued ?g))) \<subseteq># mset (planned_upto c n)"
    and total: "sum_list (map (\<lambda>f. length (fmInputs f)) (gnQueued ?g)) + gnLagSkips ?g + gnQueueSkips ?g = length (planned_upto c n)"
    unfolding Let_def by (elim exE conjE)
  have "\<forall>f \<in> set (gnQueued ?g). frame_typed c encrypt route f" using g by (simp only: frame_typed_def)
  moreover have "distinct (concat (map frame_pairs (gnQueued ?g)))"
    by (rule distinct_submset [OF distinct_planned_upto sub])
  moreover have "set (concat (map frame_pairs (gnQueued ?g))) \<subseteq> set (planned_upto c n)" using set_mset_mono [OF sub] by (simp only: set_mset_mset)
  ultimately show ?thesis using n total unfolding Let_def by (intro exI [of _ n]) (simp only: simp_thms)
qed

text \<open>C35. Every frame the generator queues is well formed: not empty, within the frame size, its keys aligned with its inputs, every token the
  encryption of its key and routed to the partition of the frame. The queued attempts are distinct attempts of a prefix of the planned keys
  (all of them when the run is not stopped), and with the counted skips they are all the attempts of that prefix.\<close>

theorem frame_generator_typed:
  assumes "\<And>t. route t < nat (fbPartitions c)" and "1 \<le> fbFrameSize c"
  shows "\<exists>n \<le> nat (fb_keys c). ((\<forall>b. clock b \<noteq> None) \<longrightarrow> n = nat (fb_keys c)) \<and>
    (let g = generate_frames c encrypt route room clock start in
      (\<forall>f \<in> set (gnQueued g). frame_typed c encrypt route f) \<and> distinct (concat (map frame_pairs (gnQueued g))) \<and>
      set (concat (map frame_pairs (gnQueued g))) \<subseteq> set (planned_upto c n) \<and>
      sum_list (map (\<lambda>f. length (fmInputs f)) (gnQueued g)) + gnLagSkips g + gnQueueSkips g = length (planned_upto c n))"
  by (rule frame_generator_inv [OF assms])

section \<open>The ledger and the report\<close>

lemma merge_fold:
  assumes "\<And>a b. \<phi> (merge_stat a b) = \<phi> a + (\<phi> b :: nat)"
  shows "\<phi> (fold (\<lambda>b a. merge_stat a b) stats s) = \<phi> s + sum_list (map \<phi> stats)"
  by (induction stats arbitrary: s) (simp_all add: assms)

lemma merge_fields:
  "fnDispatched (ftCounts (merge_stat a b)) = fnDispatched (ftCounts a) + fnDispatched (ftCounts b)"
  "fnLagSkips (ftCounts (merge_stat a b)) = fnLagSkips (ftCounts a) + fnLagSkips (ftCounts b)"
  "fnQueueSkips (ftCounts (merge_stat a b)) = fnQueueSkips (ftCounts a) + fnQueueSkips (ftCounts b)"
  "confirmed_attempts (ftAcks (merge_stat a b)) = confirmed_attempts (ftAcks a) + confirmed_attempts (ftAcks b)"
  by (simp_all add: merge_stat_def merge_counts_def confirmed_attempts_def)

lemma merge_balanced: "balanced a \<Longrightarrow> balanced b \<Longrightarrow> balanced (merge_stat a b)"
  by (simp add: balanced_def merge_stat_def merge_counts_def settled_def confirmed_attempts_def Let_def)

lemma fold_balanced: "\<forall>s \<in> set stats. balanced s \<Longrightarrow> balanced z \<Longrightarrow> balanced (fold (\<lambda>b a. merge_stat a b) stats z)"
  by (induction stats arbitrary: z) (simp_all add: merge_balanced)

lemma zero_balanced: "balanced zero_stat" "balanced (generator_stat g)"
  by (simp_all add: balanced_def zero_stat_def zero_counts_def settled_def confirmed_attempts_def generator_stat_def in_counts_def)

lemma planned_prefix: "(\<Sum>i < n. planned_second c i) =
    int n * fbRate c + (if fbRepeatEvery c > 0 then int n * fbRate c div fbRepeatEvery c else 0)"
  by (induction n) (auto simp: planned_second_def Let_def algebra_simps)

lemma planned_seconds: "(\<Sum>i < 60. planned_second c i) = fb_attempts c"
  using planned_prefix [of c 60] by (simp add: fb_attempts_def fb_keys_def algebra_simps)

lemma sum_planned_buckets: "sum_list (map bkPlanned (take 60 (map (\<lambda>i. finish_bucket c i (bs i)) [0..<82]))) = (\<Sum>i < 60. planned_second c i)"
proof -
  have "take 60 (map (\<lambda>i. finish_bucket c i (bs i)) [0..<82]) = map (\<lambda>i. finish_bucket c i (bs i)) [0..<60]" by (simp add: take_map take_upt)
  moreover have "map bkPlanned (map (\<lambda>i. finish_bucket c i (bs i)) [0..<60]) = map (planned_second c) [0..<60]"
    by (simp add: finish_bucket_def Let_def)
  ultimately show ?thesis by (simp only: interv_sum_list_conv_sum_set_nat lessThan_atLeast0 set_upt)
qed

lemma planned_has_state:
  "a \<in> set (planned_upto c n) \<Longrightarrow> n \<le> nat (fb_keys c) \<Longrightarrow>
     has_state (nat (fb_keys c)) (if fbRepeatEvery c > 0 then nat (fb_keys c) else 0) a"
  by (cases a) (auto simp: set_planned_upto has_state_def frame_repeated_def)

lemma start_jobs_inv:
  "jobs_inv (nat (fb_keys c)) (if fbRepeatEvery c > 0 then nat (fb_keys c) else 0) w {} 0 (fresh_states c, replicate w zero_stat)"
proof -
  have z: "sum_list (replicate w (0 :: nat)) = 0" by (induction w) simp_all
  have "ack_attempts (fresh_states c) = {}"
    by (auto simp: fresh_states_def ack_attempts_def stateNever_def stateACK_def split: if_splits)
  moreover have "fnDispatched (ftCounts zero_stat) = 0" "fnLagSkips (ftCounts zero_stat) = 0" "fnQueueSkips (ftCounts zero_stat) = 0"
    "confirmed_attempts (ftAcks zero_stat) = 0"
    by (simp_all add: zero_stat_def zero_counts_def confirmed_attempts_def)
  moreover have "length (stOriginal (fresh_states c)) = nat (fb_keys c)"
    "length (stRepeat (fresh_states c)) = (if fbRepeatEvery c > 0 then nat (fb_keys c) else 0)"
    by (simp_all add: fresh_states_def)
  ultimately show ?thesis using z zero_balanced(1) by (auto simp: jobs_inv_def stats_acks_def stats_taken_def map_replicate)
qed


lemma stats_acks_sum: "sum_list (map (\<lambda>s. confirmed_attempts (ftAcks s)) stats) = stats_acks stats"
  by (simp add: stats_acks_def)

lemma workload_planned: "frame_workload ci header c encrypt route room clock meets starts ends st0 = (st, report, acks) \<Longrightarrow> fpPlanned report = fb_attempts c"
proof -
  let ?jobs = "map (\<lambda>i. (gnQueued (generate_frames c encrypt route room clock starts) ! i, meets i)) [0..<length (gnQueued (generate_frames c encrypt route room clock starts))]"
  assume run: "frame_workload ci header c encrypt route room clock meets starts ends st0 = (st, report, acks)"
  obtain st1 stats where res: "run_jobs ci c starts ends ?jobs (st0, replicate (nat (fbWorkers c)) zero_stat) = (st1, stats)" by (metis surj_pair)
  have planned: "fpPlanned (fst (frame_summary header c xs)) = fb_attempts c" for xs by (simp add: frame_summary_def Let_def)
  have "(report, acks) = frame_summary header c (stats @ [generator_stat (generate_frames c encrypt route room clock starts)])"
    using run unfolding frame_workload_def Let_def res by simp
  then show ?thesis using planned by (metis fst_conv)
qed

lemma workload_consistent:
  assumes ci: "counts_invalid ci" and route: "\<And>t. route t < nat (fbPartitions c)" and fs: "1 \<le> fbFrameSize c" and rate: "1 \<le> fbRate c"
    and w: "\<And>i. fst (meets i) < nat (fbWorkers c)"
    and run: "frame_workload ci header c encrypt route room clock meets starts ends (fresh_states c) = (st, report, acks)"
  shows "ack_states st = confirmed_attempts acks \<and> fnRecorded (fpCounts report) = confirmed_attempts acks \<and>
    fnRecorded (fpCounts report) = fnOriginal (fpCounts report) + fnRepeat (fpCounts report) \<and>
    fnDispatched (fpCounts report) = settled (fpCounts report) \<and> 0 \<le> fpCancelled report \<and>
    fpPlanned report = int (fnDispatched (fpCounts report)) + int (fnLagSkips (fpCounts report)) + int (fnQueueSkips (fpCounts report)) + fpCancelled report \<and>
    sum_list (map bkPlanned (take 60 (fpBuckets report))) = fpPlanned report"
proof -
  let ?g = "generate_frames c encrypt route room clock starts" and ?keys = "nat (fb_keys c)"
  let ?reps = "if fbRepeatEvery c > 0 then nat (fb_keys c) else 0"
  define jobs where "jobs = map (\<lambda>i. (gnQueued ?g ! i, meets i)) [0..<length (gnQueued ?g)]"
  obtain st1 stats where res: "run_jobs ci c starts ends jobs (fresh_states c, replicate (nat (fbWorkers c)) zero_stat) = (st1, stats)" by (metis surj_pair)
  define k where "k = fold (\<lambda>b a. merge_stat a b) (stats @ [generator_stat ?g]) zero_stat"
  have run': "(st1, frame_summary header c (stats @ [generator_stat ?g])) = (st, report, acks)"
    using run by (simp add: frame_workload_def Let_def jobs_def [symmetric] res)
  have out: "st = st1" "acks = ftAcks k" "fpCounts report = ftCounts k" "fpPlanned report = fb_attempts c"
    "fpCancelled report = fb_attempts c - int (fnDispatched (ftCounts k)) - int (fnLagSkips (ftCounts k)) - int (fnQueueSkips (ftCounts k))"
    "fpBuckets report = map (\<lambda>i. finish_bucket c i (ftBuckets k ! i)) [0..<82]"
    using run' unfolding frame_summary_def Let_def k_def [symmetric] by auto
  from frame_generator_inv [where route = route and c = c and encrypt = encrypt and room = room and clock = clock and start = starts, OF route fs]
  obtain n where n: "n \<le> ?keys" and typed: "\<forall>f \<in> set (gnQueued ?g). frame_typed c encrypt route f"
    and d: "distinct (concat (map frame_pairs (gnQueued ?g)))" and sub: "set (concat (map frame_pairs (gnQueued ?g))) \<subseteq> set (planned_upto c n)"
    and total: "sum_list (map (\<lambda>f. length (fmInputs f)) (gnQueued ?g)) + gnLagSkips ?g + gnQueueSkips ?g = length (planned_upto c n)"
    unfolding Let_def by (elim exE conjE)
  have fsts: "map fst jobs = gnQueued ?g" by (simp add: jobs_def comp_def map_nth)
  have pairs: "map (frame_pairs \<circ> fst) jobs = map frame_pairs (gnQueued ?g)" unfolding fsts [symmetric] by simp
  have jobs_ok: "\<forall>(f, w, env) \<in> set jobs. length (fmKeys f) = length (fmInputs f) \<and> w < nat (fbWorkers c) \<and> (\<forall>a \<in> set (frame_pairs f). has_state ?keys ?reps a)"
  proof (clarify)
    fix f w env assume j: "(f, w, env) \<in> set jobs"
    then obtain i where i: "i < length (gnQueued ?g)" "f = gnQueued ?g ! i" "(w, env) = meets i" by (auto simp: jobs_def)
    then have f: "f \<in> set (gnQueued ?g)" by simp
    have "\<forall>a \<in> set (frame_pairs f). has_state ?keys ?reps a" using sub f planned_has_state [OF _ n] by fastforce
    moreover have "w < nat (fbWorkers c)" using assms(5) [of i] by (simp add: i(3) [symmetric])
    ultimately show "length (fmKeys f) = length (fmInputs f) \<and> w < nat (fbWorkers c) \<and> (\<forall>a \<in> set (frame_pairs f). has_state ?keys ?reps a)"
      using typed f by (auto simp: frame_typed_def frame_shape_def)
  qed
  have dj: "distinct (concat (map (frame_pairs \<circ> fst) jobs))" "set (concat (map (frame_pairs \<circ> fst) jobs)) \<inter> {} = {}" using d by (simp_all add: pairs)
  obtain B where "jobs_inv ?keys ?reps (nat (fbWorkers c)) B (0 + sum_list (map (\<lambda>j. length (fmInputs (fst j))) jobs)) (st1, stats)"
    using run_jobs_inv [OF ci start_jobs_inv jobs_ok dj, where c = c and starts = starts and ends = ends] by (auto simp: res)
  moreover have "map (\<lambda>j. length (fmInputs (fst j))) jobs = map (\<lambda>f. length (fmInputs f)) (gnQueued ?g)" unfolding fsts [symmetric] by simp
  ultimately have inv: "card (ack_attempts st1) = stats_acks stats" "\<forall>s \<in> set stats. balanced s \<and> fnQueueSkips (ftCounts s) = 0"
    "stats_taken stats \<le> sum_list (map (\<lambda>f. length (fmInputs f)) (gnQueued ?g))"
    by (auto simp: jobs_inv_def)
  have bal: "balanced k" unfolding k_def by (rule fold_balanced) (use inv(2) zero_balanced in auto)
  have acks: "confirmed_attempts acks = stats_acks stats"
    unfolding out(2) k_def merge_fold [where \<phi> = "\<lambda>s. confirmed_attempts (ftAcks s)", OF merge_fields(4)]
    by (simp add: stats_acks_def zero_stat_def confirmed_attempts_def generator_stat_def in_counts_def)
  have skips: "fnQueueSkips (ftCounts k) = gnQueueSkips ?g"
  proof -
    have "sum_list (map (\<lambda>s. fnQueueSkips (ftCounts s)) stats) = 0" using inv(2) by (induction stats) auto
    then show ?thesis unfolding k_def merge_fold [where \<phi> = "\<lambda>s. fnQueueSkips (ftCounts s)", OF merge_fields(3)]
      by (simp add: zero_stat_def zero_counts_def generator_stat_def in_counts_def)
  qed
  have taken: "fnDispatched (ftCounts k) + fnLagSkips (ftCounts k) = stats_taken stats + gnLagSkips ?g"
  proof -
    have "fnDispatched (ftCounts k) + fnLagSkips (ftCounts k) = sum_list (map (\<lambda>s. fnDispatched (ftCounts s) + fnLagSkips (ftCounts s)) (stats @ [generator_stat ?g]))"
      unfolding k_def by (subst merge_fold [where \<phi> = "\<lambda>s. fnDispatched (ftCounts s) + fnLagSkips (ftCounts s)"])
        (simp_all add: merge_fields zero_stat_def zero_counts_def)
    then show ?thesis by (simp add: stats_taken_def generator_stat_def in_counts_def zero_stat_def zero_counts_def)
  qed
  have "length (planned_upto c n) \<le> length (planned_upto c ?keys)"
    by (rule lift_Suc_mono_le [OF _ n]) simp
  moreover have "int (length (planned_upto c ?keys)) = fb_attempts c" using rate by (intro length_planned) simp
  ultimately have "int (fnDispatched (ftCounts k)) + int (fnLagSkips (ftCounts k)) + int (fnQueueSkips (ftCounts k)) \<le> fb_attempts c"
    using taken skips total inv(3) by linarith
  moreover have "ack_states st = confirmed_attempts acks" using card_ack_attempts [of st1] inv(1) acks out(1) by simp
  moreover have "sum_list (map bkPlanned (take 60 (fpBuckets report))) = fpPlanned report" by (simp only: out sum_planned_buckets planned_seconds)
  ultimately show ?thesis using bal out by (simp add: balanced_def Let_def)
qed


text \<open>C36. After the workload of either benchmark the states marked acknowledged are exactly as many as the attempts of the receipts it kept
  (so the audit does not refuse its ledger for that); the recorded attempts are those; every dispatched attempt has one outcome; the planned
  attempts are the dispatched, the skipped and the cancelled ones, the last never negative; and the planned attempts of the 60 seconds are all of them.\<close>

theorem frame_workload_consistent:
  assumes "run = filebench_runWorkload \<or> run = framebench_runWorkload"
    and "\<And>t. route t < nat (fbPartitions c)" and "1 \<le> fbFrameSize c" and "1 \<le> fbRate c" and "\<And>i. fst (meets i) < nat (fbWorkers c)"
    and "run c encrypt route room clock meets starts ends (fresh_states c) = (st, report, acks)"
  shows "ack_states st = confirmed_attempts acks \<and> fnRecorded (fpCounts report) = confirmed_attempts acks \<and>
    fnRecorded (fpCounts report) = fnOriginal (fpCounts report) + fnRepeat (fpCounts report) \<and>
    fnDispatched (fpCounts report) = settled (fpCounts report) \<and> 0 \<le> fpCancelled report \<and>
    fpPlanned report = int (fnDispatched (fpCounts report)) + int (fnLagSkips (fpCounts report)) + int (fnQueueSkips (fpCounts report)) + fpCancelled report \<and>
    sum_list (map bkPlanned (take 60 (fpBuckets report))) = fpPlanned report"
  using assms(1)
proof
  assume "run = filebench_runWorkload"
  then have "frame_workload file_count_invalid 40 c encrypt route room clock meets starts ends (fresh_states c) = (st, report, acks)"
    using assms(6) by (simp only: filebench_runWorkload_def)
  from workload_consistent [OF both_count_invalid(1) assms(2) assms(3,4) assms(5) this] show ?thesis .
next
  assume "run = framebench_runWorkload"
  then have "frame_workload topic_count_invalid 80 c encrypt route room clock meets starts ends (fresh_states c) = (st, report, acks)"
    using assms(6) by (simp only: framebench_runWorkload_def)
  from workload_consistent [OF both_count_invalid(2) assms(2) assms(3,4) assms(5) this] show ?thesis .
qed

section \<open>A run at one vote a second\<close>

definition demo_fb_config :: fb_config where
  "demo_fb_config = \<lparr>fbAuditOnly = [], fbBrokers = [], fbRate = 1, fbWorkers = 2, fbQueue = 1, fbFrameSize = 2, fbPartitions = 1, fbRepeatEvery = 3,
     fbBatchSize = 2, fbStoreQueue = 2, fbAllowLarge = False, fbMaxLag = second, fbFrameAge = millisecond, fbTimeout = second, fbDrain = second,
     fbLinger = 0\<rparr>"

lemma frame_generator_typed_witness:
  "list_all (frame_typed demo_fb_config (\<lambda>t. t) (\<lambda>t. 0)) (gnQueued (generate_frames demo_fb_config (\<lambda>t. t) (\<lambda>t. 0) (\<lambda>i. True) (\<lambda>b. Some 0) 0))"
proof -
  have "0 < nat (fbPartitions demo_fb_config)" "1 \<le> fbFrameSize demo_fb_config" by (simp_all add: demo_fb_config_def)
  from frame_generator_typed [where route = "\<lambda>t. 0" and encrypt = "\<lambda>t. t" and room = "\<lambda>i. True" and clock = "\<lambda>b. Some 0" and start = 0, OF this]
  show ?thesis unfolding Let_def list_all_iff by (elim exE conjE)
qed

definition demo_frame_env :: frame_env where
  "demo_frame_env = \<lparr>evEnded = False, evSince = 0, evBefore = 0, evReply = Inl SendBusy, evAfter = 1\<rparr>"

lemma frame_workload_consistent_witness:
  "fpPlanned (fst (snd (filebench_runWorkload demo_fb_config (\<lambda>t. t) (\<lambda>t. 0) (\<lambda>i. True) (\<lambda>b. Some 0) (\<lambda>i. (i mod 2, demo_frame_env)) 0 minute
     (fresh_states demo_fb_config)))) = 80 \<and>
   sum_list (map bkPlanned (take 60 (fpBuckets (fst (snd (filebench_runWorkload demo_fb_config (\<lambda>t. t) (\<lambda>t. 0) (\<lambda>i. True) (\<lambda>b. Some 0)
     (\<lambda>i. (i mod 2, demo_frame_env)) 0 minute (fresh_states demo_fb_config))))))) = 80"
proof -
  obtain st report acks where run: "filebench_runWorkload demo_fb_config (\<lambda>t. t) (\<lambda>t. 0) (\<lambda>i. True) (\<lambda>b. Some 0) (\<lambda>i. (i mod 2, demo_frame_env)) 0 minute
     (fresh_states demo_fb_config) = (st, report, acks)" by (metis surj_pair)
  have planned: "fpPlanned report = 80"
    using workload_planned [OF run [unfolded filebench_runWorkload_def]] by (simp add: fb_attempts_def fb_keys_def demo_fb_config_def)
  have c: "0 < nat (fbPartitions demo_fb_config)" "1 \<le> fbFrameSize demo_fb_config" "1 \<le> fbRate demo_fb_config"
    "\<And>i. fst (i mod 2, demo_frame_env) < nat (fbWorkers demo_fb_config)"
    by (simp_all add: demo_fb_config_def)
  from frame_workload_consistent [where run = filebench_runWorkload and route = "\<lambda>t. 0" and encrypt = "\<lambda>t. t" and room = "\<lambda>i. True"
      and clock = "\<lambda>b. Some 0" and meets = "\<lambda>i. (i mod 2, demo_frame_env)" and starts = 0 and ends = minute, OF disjI1 [OF refl] c run] planned show ?thesis unfolding run by (simp only: fst_conv snd_conv)
qed

end
