(* ===== verification/Frame_Ledger_Props.thy ===== *)
theory Frame_Ledger_Props
  imports Frame_Ledger Frame_Workload_Props
begin

text \<open>What the ledgers of the frame benchmarks hold after they were saved, and what a valid configuration guarantees.\<close>

section \<open>What is saved\<close>

text \<open>The manifest as it is written: version, number of receipts, and the files with their hashes.\<close>

definition saved_manifest :: "string \<Rightarrow> states \<Rightarrow> ack_frame list \<Rightarrow> 'c fb_manifest \<Rightarrow> 'c fb_manifest" where
  "saved_manifest base s acks m =
     (let parts = filter (\<lambda>(part, b). part \<noteq> ''repeat'' \<or> b \<noteq> []) (ledger_parts s acks) in
      m\<lparr>fxVersion := 1, fxACKCount := length acks,
        fxFiles := map_of (rev (map (\<lambda>(part, b). (part, part_name base part)) parts)),
        fxHashes := map_of (rev (map (\<lambda>(part, b). (part, hex_encode (sha256 b))) parts))\<rparr>)"

lemma part_name_eq [simp]: "part_name base p = part_name base q \<longleftrightarrow> p = q"
  by (simp add: part_name_def)

lemma json_name [simp]: "base @ ''.json'' = part_name base p \<longleftrightarrow> p = ''json''" "part_name base p = base @ ''.json'' \<longleftrightarrow> p = ''json''"
  by (auto simp: part_name_def)

lemma save_ledger_ok:
  assumes "save_ledger guard owned base marshal fails files m s acks = Inr (path, files')"
  obtains b where "path = base @ ''.json''" "int (length acks) \<le> maximumFrames" "marshal (saved_manifest base s acks m) = Some b" "length b \<le> 65536"
    "files' (base @ ''.json'') = Some b" "files' (part_name base ''original'') = Some (stOriginal s)"
    "files' (part_name base ''acks'') = Some (concat (map encodeACK acks))" "stRepeat s \<noteq> [] \<Longrightarrow> files' (part_name base ''repeat'') = Some (stRepeat s)"
proof (cases "stRepeat s = []")
  case True
  then show ?thesis using assms that
    by (auto simp: save_ledger_def ledger_parts_def write_part_def saved_manifest_def split: option.splits if_splits)
next
  case False
  then show ?thesis using assms that
    by (auto simp: save_ledger_def ledger_parts_def write_part_def saved_manifest_def split: option.splits if_splits)
qed

lemma saved_fields [simp]: "fxConfig (saved_manifest base s acks m) = fxConfig m" "fxKeys (saved_manifest base s acks m) = fxKeys m"
  "fxRepeatEvery (saved_manifest base s acks m) = fxRepeatEvery m" "fxACKCount (saved_manifest base s acks m) = length acks"
  "fxFiles (saved_manifest base s acks m) ''original'' = Some (part_name base ''original'')"
  "fxHashes (saved_manifest base s acks m) ''original'' = Some (hex_encode (sha256 (stOriginal s)))"
  "fxFiles (saved_manifest base s acks m) ''acks'' = Some (part_name base ''acks'')"
  "fxHashes (saved_manifest base s acks m) ''acks'' = Some (hex_encode (sha256 (concat (map encodeACK acks))))"
  "stRepeat s \<noteq> [] \<Longrightarrow> fxFiles (saved_manifest base s acks m) ''repeat'' = Some (part_name base ''repeat'')"
  "stRepeat s \<noteq> [] \<Longrightarrow> fxHashes (saved_manifest base s acks m) ''repeat'' = Some (hex_encode (sha256 (stRepeat s)))"
  by (simp_all add: saved_manifest_def ledger_parts_def Let_def)

section \<open>What is read back\<close>

lemma read_acks_written:
  assumes "list_all ack_wf acks" and "\<forall>a \<in> set acks. \<not> bad a"
  shows "read_acks bad (length acks) (concat (map encodeACK acks)) = Some acks"
  using assms by (induction acks) (simp_all add: ack_width ack_roundtrip)

lemma ledger_roundtrip:
  assumes saved: "save_ledger guard owned base marshal fails files m s acks = Inr (path, files')"
    and json: "\<And>x b. marshal x = Some b \<Longrightarrow> unmarshal b = Some x"
    and fine: "\<not> bounds_bad (saved_manifest base s acks m)" "\<not> attempts_bad (saved_manifest base s acks m)" "base_of (fxConfig m) = base"
    and size: "0 < fxKeys m" "int (fxKeys m) \<le> maximumLedgerBytes"
    and len: "length (stOriginal s) = fxKeys m" "length (stRepeat s) = (if fxRepeatEvery m > 0 then fxKeys m else 0)"
    and states: "list_all (\<lambda>x. x \<le> stateRejected) (stOriginal s @ stRepeat s)"
    and acks: "list_all ack_wf acks" "\<forall>a \<in> set acks. \<not> bad (saved_manifest base s acks m) a"
  shows "read_ledger bounds_bad attempts_bad base_of bad unmarshal files' path = Inr (saved_manifest base s acks m, s, acks)"
proof -
  let ?m = "saved_manifest base s acks m"
  from saved obtain b where p: "path = base @ ''.json''" and n: "int (length acks) \<le> maximumFrames" and b: "marshal ?m = Some b" "length b \<le> 65536"
    and f: "files' (base @ ''.json'') = Some b" "files' (part_name base ''original'') = Some (stOriginal s)"
      "files' (part_name base ''acks'') = Some (concat (map encodeACK acks))" "stRepeat s \<noteq> [] \<Longrightarrow> files' (part_name base ''repeat'') = Some (stRepeat s)"
    by (rule save_ledger_ok) blast
  have la: "length (concat (map encodeACK acks)) = length acks * 64" using fba.table_width [OF acks(1)] .
  have orig: "read_part files' base ?m ''original'' (int (fxKeys m)) = Inr (stOriginal s)"
    using size(2) len(1) by (simp add: read_part_def read_file_def f(2))
  have reps: "(if fxRepeatEvery m > 0 then read_part files' base ?m ''repeat'' (int (fxKeys m)) else Inr []) = Inr (stRepeat s)"
  proof (cases "fxRepeatEvery m > 0")
    case True
    then have r: "length (stRepeat s) = fxKeys m" "stRepeat s \<noteq> []" using len(2) size(1) by auto
    then show ?thesis using True size(2) by (simp add: read_part_def read_file_def f(4))
  next
    case False
    then show ?thesis using len(2) by simp
  qed
  have ack: "read_part files' base ?m ''acks'' (int (length acks * 64)) = Inr (concat (map encodeACK acks))"
    using n la by (simp add: read_part_def read_file_def f(3) maximumLedgerBytes_def maximumFrames_def)
  have js: "read_file files' (base @ ''.json'') (- 1) = Some b" using b(2) by (simp add: read_file_def f(1) maximumLedgerBytes_def)
  have st: "\<lparr>stOriginal = stOriginal s, stRepeat = stRepeat s\<rparr> = s" by simp
  have small: "\<not> 65536 < length b" using b(2) by simp
  have ack': "read_part files' base ?m ''acks'' (int (length acks) * 64) = Inr (concat (map encodeACK acks))" using ack by simp
  have st: "list_all (\<lambda>x. x \<le> stateRejected) (stOriginal s)" "list_all (\<lambda>x. x \<le> stateRejected) (stRepeat s)" using states by simp_all
  note facts = read_ledger_def p f(1) small js json [OF b(1)] fine orig ack' st read_acks_written [where bad = "bad (saved_manifest base s acks m)", OF acks]
  show ?thesis
  proof (cases "fxRepeatEvery m > 0")
    case True
    then show ?thesis using reps by (simp add: facts)
  next
    case False
    then have "stRepeat s = []" using len(2) by simp
    then show ?thesis using False by (simp add: facts)
  qed
qed


lemma common_size: "\<not> manifest_common_bad x \<Longrightarrow> 0 < fxKeys x \<and> int (fxKeys x) \<le> maximumLedgerBytes"
  by (auto simp: manifest_common_bad_def maximumLedgerBytes_def frame_maximumRate_def)

text \<open>A ledger of filebench that was saved is read back as it is: the same manifest with its version, count, names and hashes, the same
  states and the same receipts, for a manifest within the bounds of the reader and every JSON codec that reads what it wrote.\<close>

theorem file_ledger_roundtrip:
  assumes saved: "file_saveLedger env c root marshal fails files m s acks = Inr (path, files')"
    and json: "\<And>x b. marshal x = Some b \<Longrightarrow> unmarshal b = Some x"
    and x: "x = saved_manifest (directory_base root (fxConfig m)) s acks m" "\<not> file_bounds_bad root x" "\<not> file_attempts_bad x"
    and len: "length (stOriginal s) = fxKeys m" "length (stRepeat s) = (if fxRepeatEvery m > 0 then fxKeys m else 0)"
    and states: "list_all (\<lambda>x. x \<le> stateRejected) (stOriginal s @ stRepeat s)"
    and acks: "list_all ack_wf acks"
      "\<forall>a \<in> set acks. \<not> receipt_bad (fcPartitions (fxConfig m)) (fcStartsAt (fxConfig m)) (fcEndsAt (fxConfig m)) (fxFrameSize m) a"
  shows "file_readLedger root unmarshal files' path = Inr (x, s, acks)"
proof -
  have size: "0 < fxKeys m" "int (fxKeys m) \<le> maximumLedgerBytes"
    using common_size [of x] x(2) by (auto simp: file_bounds_bad_def x(1))
  have fs: "fxFrameSize x = fxFrameSize m" by (simp add: x(1) saved_manifest_def Let_def)
  show ?thesis unfolding file_readLedger_def x(1)
  proof (rule ledger_roundtrip [OF saved [unfolded file_saveLedger_def] _ _ _ _ size len states acks(1)])
    show "marshal y = Some b \<Longrightarrow> unmarshal b = Some y" for y b by (rule json)
    show "directory_base root (fxConfig m) = directory_base root (fxConfig m)" by (rule refl)
    show "\<not> file_bounds_bad root (saved_manifest (directory_base root (fxConfig m)) s acks m)"
      "\<not> file_attempts_bad (saved_manifest (directory_base root (fxConfig m)) s acks m)"
      using x by simp_all
    show "\<forall>a \<in> set acks. \<not> receipt_bad (fcPartitions (fxConfig (saved_manifest (directory_base root (fxConfig m)) s acks m)))
        (fcStartsAt (fxConfig (saved_manifest (directory_base root (fxConfig m)) s acks m)))
        (fcEndsAt (fxConfig (saved_manifest (directory_base root (fxConfig m)) s acks m)))
        (fxFrameSize (saved_manifest (directory_base root (fxConfig m)) s acks m)) a"
      using acks(2) fs by (simp add: x(1))
  qed
qed

text \<open>The same of framebench.\<close>

lemma topic_ledger_roundtrip:
  assumes saved: "topic_saveLedger created listed free c marshal fails files m s acks = Inr (path, files')"
    and json: "\<And>x b. marshal x = Some b \<Longrightarrow> unmarshal b = Some x"
    and x: "x = saved_manifest (lcTopic (fxConfig m)) s acks m" "\<not> topic_bounds_bad x" "\<not> topic_attempts_bad x"
    and len: "length (stOriginal s) = fxKeys m" "length (stRepeat s) = (if fxRepeatEvery m > 0 then fxKeys m else 0)"
    and states: "list_all (\<lambda>x. x \<le> stateRejected) (stOriginal s @ stRepeat s)"
    and acks: "list_all ack_wf acks"
      "\<forall>a \<in> set acks. \<not> receipt_bad (lcPartitions (fxConfig m)) (lcStartsAt (fxConfig m)) (lcEndsAt (fxConfig m)) (fxFrameSize m) a"
  shows "topic_readLedger unmarshal files' path = Inr (x, s, acks)"
proof -
  have size: "0 < fxKeys m" "int (fxKeys m) \<le> maximumLedgerBytes"
    using common_size [of x] x(2) by (auto simp: topic_bounds_bad_def x(1))
  have fs: "fxFrameSize x = fxFrameSize m" by (simp add: x(1) saved_manifest_def Let_def)
  show ?thesis unfolding topic_readLedger_def x(1)
  proof (rule ledger_roundtrip [OF saved [unfolded topic_saveLedger_def] _ _ _ _ size len states acks(1)])
    show "marshal y = Some b \<Longrightarrow> unmarshal b = Some y" for y b by (rule json)
    show "lcTopic (fxConfig m) = lcTopic (fxConfig m)" by (rule refl)
  qed (use x acks(2) fs in simp_all)
qed

section \<open>A saved ledger\<close>

definition demo_root :: string where
  "demo_root = ''/srv''"

definition demo_file_config :: fl_config where
  "demo_file_config = \<lparr>fcDirectory = ''/srv/filebench_0123456789abcdef'', fcPollID = replicate 16 1, fcStartsAt = 0, fcEndsAt = minute,
     fcAllowedMask = 3, fcMultiple = False, fcBatchSize = 8, fcQueuePerPartition = 8, fcLinger = 0, fcPartitions = 1\<rparr>"

definition demo_manifest :: "fl_config fb_manifest" where
  "demo_manifest = \<lparr>fxSyncMode = ''linux_fsync'', fxVersion = 0, fxConfig = demo_file_config, fxSeed = replicate 16 2, fxRate = 1, fxKeys = 60,
     fxRepeatEvery = 0, fxFrameSize = 4, fxFrameAge = millisecond, fxACKCount = 0, fxFiles = Map.empty, fxHashes = Map.empty, fxCounts = zero_counts\<rparr>"

definition demo_ledger_states :: states where
  "demo_ledger_states = \<lparr>stOriginal = replicate 60 stateNever, stRepeat = []\<rparr>"

definition demo_saved :: "fl_config fb_manifest" where
  "demo_saved = saved_manifest ''filebench_0123456789abcdef'' demo_ledger_states [] demo_manifest"

definition demo_guard :: guard_env where
  "demo_guard = \<lparr>gdLedgers = True, gdLedgerFiles = [], gdLogs = True, gdLogFiles = [], gdFree = Some (2 ^ 40)\<rparr>"

lemma demo_owned: "ownedDirectory (Some demo_root) (fcDirectory demo_file_config)" "directory_base (Some demo_root) demo_file_config = ''filebench_0123456789abcdef''"
  by code_simp+

lemma demo_saved_ok: "\<not> file_bounds_bad (Some demo_root) demo_saved" "\<not> file_attempts_bad demo_saved"
  unfolding demo_saved_def file_bounds_bad_def file_attempts_bad_def manifest_common_bad_def saved_manifest_def
  using demo_owned by (simp_all add: demo_manifest_def demo_file_config_def Let_def frame_maximumRate_def frame_maximumAttempts_def maximumFrames_def
      manifest_planned_def time_sub_def zero16_def numeral_eq_Suc)

lemma file_ledger_roundtrip_witness:
  "\<exists>path files'. file_saveLedger demo_guard demo_fb_config (Some demo_root) (\<lambda>x. if x = demo_saved then Some [123] else None) (\<lambda>_. False) Map.empty
      demo_manifest demo_ledger_states [] = Inr (path, files') \<and>
    file_readLedger (Some demo_root) (\<lambda>b. if b = [123] then Some demo_saved else None) files' path = Inr (demo_saved, demo_ledger_states, [])"
proof -
  let ?marshal = "\<lambda>x. if x = demo_saved then Some [123] else None" and ?unmarshal = "\<lambda>b. if b = [123] then Some demo_saved else None"
  have base: "directory_base (Some demo_root) (fxConfig demo_manifest) = ''filebench_0123456789abcdef''"
    "ownedDirectory (Some demo_root) (fcDirectory (fxConfig demo_manifest))"
    using demo_owned by (simp_all add: demo_manifest_def)
  have guard: "file_diskGuard demo_guard demo_fb_config False = None"
    by (simp add: file_diskGuard_def demo_guard_def retainedBytes_def ledgerBytes_def file_frameBound_def demo_fb_config_def fb_attempts_def fb_keys_def
        maximumLedgerBytes_def)
  have "\<exists>path files'. file_saveLedger demo_guard demo_fb_config (Some demo_root) ?marshal (\<lambda>_. False) Map.empty demo_manifest demo_ledger_states [] =
      Inr (path, files')"
    unfolding file_saveLedger_def save_ledger_def guard base
    by (simp add: base(2) part_name_def maximumFrames_def ledger_parts_def demo_ledger_states_def write_part_def demo_saved_def saved_manifest_def Let_def)
  then obtain path files' where saved: "file_saveLedger demo_guard demo_fb_config (Some demo_root) ?marshal (\<lambda>_. False) Map.empty
      demo_manifest demo_ledger_states [] = Inr (path, files')" by blast
  have "file_readLedger (Some demo_root) ?unmarshal files' path = Inr (demo_saved, demo_ledger_states, [])"
    by (rule file_ledger_roundtrip [OF saved _ _ demo_saved_ok])
      (simp_all add: base [unfolded demo_manifest_def, simplified] demo_saved_def demo_ledger_states_def demo_manifest_def stateNever_def list_all_iff split: if_splits)
  then show ?thesis using saved by blast
qed

end
