(* ===== verification/Frame_Bound.thy ===== *)
theory Frame_Bound
  imports Frame_Ledger_Props
begin

text \<open>
  The bound on the frames of a run (\<^verbatim>\<open>frameBound\<close>), from which the benchmarks size their ledger: full frames
  are bounded by the attempts, and the frames flushed for their age by the length of the schedule.
\<close>

section \<open>Queued frames and flushes\<close>

lemma queued_flushes_step: "length (gnQueued (flush_buffer room p g)) + gnFlushes g \<le> length (gnQueued g) + gnFlushes (flush_buffer room p g)"
  by (simp add: flush_buffer_def Let_def)

definition flushed_enough :: "generator \<Rightarrow> bool" where
  "flushed_enough g \<longleftrightarrow> length (gnQueued g) \<le> gnFlushes g"

lemma flush_enough: "flushed_enough g \<Longrightarrow> flushed_enough (flush_buffer room p g)"
  using queued_flushes_step [of room p g] by (simp add: flushed_enough_def)

lemma fold_enough: "(\<And>x g. flushed_enough g \<Longrightarrow> flushed_enough (f x g)) \<Longrightarrow> flushed_enough g \<Longrightarrow> flushed_enough (fold f xs g)"
  by (induction xs arbitrary: g) simp_all

lemma append_enough: "flushed_enough g \<Longrightarrow> flushed_enough (append_input c room now p key inp g)"
  by (auto simp: append_input_def Let_def intro!: flush_enough) (simp_all add: flushed_enough_def)

lemma key_enough: "flushed_enough g \<Longrightarrow> flushed_enough (generate_key c encrypt route room start now key g)"
  by (auto simp: generate_key_def Let_def intro!: append_enough) (simp_all add: flushed_enough_def)

lemma aged_enough: "flushed_enough g \<Longrightarrow> flushed_enough (flush_aged c room now p g)"
  by (simp add: flush_aged_def Let_def flush_enough)

lemma group_enough: "flushed_enough g \<Longrightarrow> flushed_enough (generate_group c encrypt route room start now base n g)"
  unfolding generate_group_def by (intro fold_enough key_enough aged_enough)

lemma from_enough:
  "(\<And>now b n g. flushed_enough g \<Longrightarrow> flushed_enough (visit now b n g)) \<Longrightarrow> flushed_enough g \<Longrightarrow> flushed_enough (generate_from c clock visit base g)"
proof (induction c clock visit base g rule: generate_from.induct)
  case (1 c clock visit base g)
  then show ?case by (simp add: generate_from.simps [of c clock visit base g] split: option.split)
qed

lemma queued_le_flushes: "length (gnQueued (generate_frames c encrypt route room clock start)) \<le> gnFlushes (generate_frames c encrypt route room clock start)"
proof -
  have "flushed_enough (generate_from c clock (generate_group c encrypt route room start) 0 (generator_start c))"
    by (rule from_enough [OF group_enough]) (simp_all add: flushed_enough_def generator_start_def)
  then have "flushed_enough (generate_frames c encrypt route room clock start)" unfolding generate_frames_def by (intro fold_enough flush_enough)
  then show ?thesis by (simp add: flushed_enough_def)
qed

section \<open>The schedule\<close>

lemma frame_at_bound:
  assumes "int key < fb_keys c" and "1 \<le> fbRate c" and "fbRate c \<le> frame_maximumRate"
  shows "frame_at start key (fbRate c) \<le> start + minute"
proof -
  have k: "int key * second < fbRate c * minute" using assms(1) by (simp add: fb_keys_def)
  moreover have "fbRate c * minute \<le> frame_maximumRate * minute" using assms(3) by simp
  ultimately have small: "wrap64 (int key * second) = int key * second" by (intro wrap64_id) (simp_all add: frame_maximumRate_def)
  have "int key * second div fbRate c \<le> fbRate c * minute div fbRate c" using k assms(2) by (intro zdiv_mono1) simp_all
  then have "int key * second div fbRate c \<le> minute" using assms(2) by simp
  then show ?thesis using assms(2) small by (simp add: frame_at_def scheduledOffset_def sdiv_nonneg)
qed

lemma time_sub_le: "- (2 ^ 63) \<le> d \<Longrightarrow> d < 2 ^ 63 - 1 \<Longrightarrow> time_sub t u \<le> d \<Longrightarrow> t \<le> u + d"
  by (auto simp: time_sub_def)

lemma time_sub_ge: "- (2 ^ 63) < d \<Longrightarrow> d \<le> time_sub t u \<Longrightarrow> u + d \<le> t"
  by (auto simp: time_sub_def)

section \<open>Counting the flushes\<close>

text \<open>What a run of that configuration lasts at most, and how often a partition can flush for age within it.\<close>

definition run_length :: "fb_config \<Rightarrow> duration" where
  "run_length c = 60 * second + fbMaxLag c"

definition aged_bound :: "fb_config \<Rightarrow> int" where
  "aged_bound c = run_length c div fbFrameAge c + 1"

definition flush_inv :: "fb_config \<Rightarrow> time \<Rightarrow> time \<Rightarrow> nat \<Rightarrow> nat \<Rightarrow> (nat \<Rightarrow> nat) \<Rightarrow> generator \<Rightarrow> bool" where
  "flush_inv c start now n full aged g \<longleftrightarrow> length (gnBuffers g) = nat (fbPartitions c) \<and>
     gnFlushes g = full + (\<Sum>p < nat (fbPartitions c). aged p) \<and>
     int full * fbFrameSize c + (\<Sum>p < nat (fbPartitions c). int (length (fmInputs (gnBuffers g ! p)))) \<le> int n \<and>
     (\<forall>p < nat (fbPartitions c). (fmInputs (gnBuffers g ! p) \<noteq> [] \<longrightarrow>
        start + int (aged p) * fbFrameAge c \<le> fmFirst (gnBuffers g ! p) \<and> fmFirst (gnBuffers g ! p) \<le> start + run_length c) \<and>
        start + int (aged p) * fbFrameAge c \<le> now \<and> int (aged p) \<le> aged_bound c)"

text \<open>A run of a valid configuration.\<close>

definition timed_config :: "fb_config \<Rightarrow> bool" where
  "timed_config c \<longleftrightarrow> 1 \<le> fbFrameSize c \<and> 1 \<le> fbRate c \<and> fbRate c \<le> frame_maximumRate \<and> 0 < fbMaxLag c \<and> fbMaxLag c \<le> second \<and>
     millisecond \<le> fbFrameAge c \<and> fbFrameAge c \<le> 100 * millisecond"

lemma sum_replace: "p < P \<Longrightarrow> (\<forall>q < P. q \<noteq> p \<longrightarrow> f q = g q) \<Longrightarrow> (\<Sum>q < P. f q) + g p = (\<Sum>q < P. g q) + f p"
  for f g :: "nat \<Rightarrow> 'a::ordered_cancel_comm_monoid_add"
proof -
  assume p: "p < P" and eq: "\<forall>q < P. q \<noteq> p \<longrightarrow> f q = g q"
  have "(\<Sum>q < P. f q) = f p + (\<Sum>q \<in> {..<P} - {p}. f q)" "(\<Sum>q < P. g q) = g p + (\<Sum>q \<in> {..<P} - {p}. g q)"
    using p by (simp_all add: sum.remove)
  moreover have "(\<Sum>q \<in> {..<P} - {p}. f q) = (\<Sum>q \<in> {..<P} - {p}. g q)" using eq by (intro sum.cong) auto
  ultimately show ?thesis by (simp add: ac_simps)
qed

lemma flush_aged_inv:
  assumes inv: "flush_inv c start now n full aged g" and c: "timed_config c" and p: "p < nat (fbPartitions c)"
  shows "\<exists>aged'. flush_inv c start now n full aged' (flush_aged c room now p g)"
proof (cases "fmInputs (gnBuffers g ! p) \<noteq> [] \<and> time_sub now (fmFirst (gnBuffers g ! p)) \<ge> fbFrameAge c")
  case False
  then have "flush_aged c room now p g = g" by (auto simp: flush_aged_def Let_def)
  then show ?thesis using inv by auto
next
  case True
  let ?P = "nat (fbPartitions c)" and ?f = "gnBuffers g ! p" and ?g = "flush_buffer room p g" and ?A = "fbFrameAge c"
  have i: "length (gnBuffers g) = ?P" "gnFlushes g = full + (\<Sum>p < ?P. aged p)"
    "int full * fbFrameSize c + (\<Sum>p < ?P. int (length (fmInputs (gnBuffers g ! p)))) \<le> int n"
    "\<And>q. q < ?P \<Longrightarrow> (fmInputs (gnBuffers g ! q) \<noteq> [] \<longrightarrow> start + int (aged q) * ?A \<le> fmFirst (gnBuffers g ! q) \<and>
       fmFirst (gnBuffers g ! q) \<le> start + run_length c) \<and> start + int (aged q) * ?A \<le> now \<and> int (aged q) \<le> aged_bound c"
    using inv by (auto simp: flush_inv_def)
  have age: "0 < ?A" using c by (simp add: timed_config_def)
  have late: "fmFirst ?f + ?A \<le> now" using True age by (intro time_sub_ge) auto
  have first: "start + int (aged p) * ?A \<le> fmFirst ?f" "fmFirst ?f \<le> start + run_length c" using i(4) [OF p] True by auto
  then have "int (aged p) * ?A \<le> run_length c" by linarith
  then have "int (aged p) * ?A div ?A \<le> run_length c div ?A" using age by (rule zdiv_mono1)
  then have "int (aged p) \<le> run_length c div ?A" using age by simp
  then have bound: "int (aged p + 1) \<le> aged_bound c" by (simp add: aged_bound_def)
  define aged' where "aged' = aged(p := aged p + 1)"
  have g: "gnBuffers ?g = (gnBuffers g)[p := empty_frame p]" "gnFlushes ?g = gnFlushes g + 1"
    using True by (simp_all add: flush_buffer_def Let_def)
  have at: "gnBuffers ?g ! q = (if q = p then empty_frame p else gnBuffers g ! q)" if "q < ?P" for q using that i(1) by (simp add: g(1))
  have s1: "(\<Sum>p < ?P. aged' p) + aged p = (\<Sum>p < ?P. aged p) + aged' p" by (rule sum_replace [OF p]) (simp add: aged'_def)
  have s2: "(\<Sum>q < ?P. int (length (fmInputs (gnBuffers ?g ! q)))) + int (length (fmInputs ?f)) =
      (\<Sum>q < ?P. int (length (fmInputs (gnBuffers g ! q)))) + int (length (fmInputs (gnBuffers ?g ! p)))"
    by (rule sum_replace [OF p]) (simp add: at)
  have "flush_inv c start now n full aged' ?g" unfolding flush_inv_def
  proof (intro conjI allI impI)
    show "length (gnBuffers ?g) = ?P" using i(1) by (simp add: g(1))
    show "gnFlushes ?g = full + (\<Sum>p < ?P. aged' p)" using s1 i(2) g(2) by (simp add: aged'_def)
    show "int full * fbFrameSize c + (\<Sum>p < ?P. int (length (fmInputs (gnBuffers ?g ! p)))) \<le> int n" using s2 i(3) at [OF p] by simp
  next
    fix q assume q: "q < ?P"
    show "start + int (aged' q) * ?A \<le> now" using i(4) [OF q] first(1) late by (auto simp: aged'_def algebra_simps)
    show "int (aged' q) \<le> aged_bound c" using i(4) [OF q] bound by (simp add: aged'_def)
    assume "fmInputs (gnBuffers ?g ! q) \<noteq> []"
    then show "start + int (aged' q) * ?A \<le> fmFirst (gnBuffers ?g ! q)" "fmFirst (gnBuffers ?g ! q) \<le> start + run_length c"
      using i(4) [OF q] at [OF q] by (auto simp: aged'_def split: if_splits)
  qed
  moreover have "flush_aged c room now p g = ?g" using True by (simp add: flush_aged_def Let_def)
  ultimately show ?thesis by auto
qed


lemma append_input_inv:
  assumes inv: "flush_inv c start now n full aged g" and c: "timed_config c" and p: "p < nat (fbPartitions c)" and soon: "now \<le> start + run_length c"
  shows "\<exists>full'. flush_inv c start now (n + 1) full' aged (append_input c room now p key inp g)"
proof -
  let ?P = "nat (fbPartitions c)" and ?A = "fbFrameAge c"
  let ?b = "gnBuffers g ! p"
  define f0 where "f0 = (if fmInputs ?b = [] then (empty_frame p)\<lparr>fmFirst := now\<rparr> else ?b)"
  define f where "f = f0\<lparr>fmInputs := fmInputs f0 @ [inp], fmKeys := fmKeys f0 @ [key]\<rparr>"
  define g' where "g' = g\<lparr>gnBuffers := (gnBuffers g)[p := f]\<rparr>"
  have app: "append_input c room now p key inp g = (if int (length (fmInputs f)) = fbFrameSize c then flush_buffer room p g' else g')"
    by (simp add: append_input_def f_def f0_def g'_def Let_def)
  have i: "length (gnBuffers g) = ?P" "gnFlushes g = full + (\<Sum>p < ?P. aged p)"
    "int full * fbFrameSize c + (\<Sum>p < ?P. int (length (fmInputs (gnBuffers g ! p)))) \<le> int n"
    "\<And>q. q < ?P \<Longrightarrow> (fmInputs (gnBuffers g ! q) \<noteq> [] \<longrightarrow> start + int (aged q) * ?A \<le> fmFirst (gnBuffers g ! q) \<and>
       fmFirst (gnBuffers g ! q) \<le> start + run_length c) \<and> start + int (aged q) * ?A \<le> now \<and> int (aged q) \<le> aged_bound c"
    using inv by (auto simp: flush_inv_def)
  have f: "length (fmInputs f) = length (fmInputs ?b) + 1" "start + int (aged p) * ?A \<le> fmFirst f" "fmFirst f \<le> start + run_length c"
    using i(4) [OF p] soon by (auto simp: f_def f0_def)
  have at: "gnBuffers g' ! q = (if q = p then f else gnBuffers g ! q)" if "q < ?P" for q using that i(1) by (simp add: g'_def)
  have s: "(\<Sum>q < ?P. int (length (fmInputs (gnBuffers g' ! q)))) + int (length (fmInputs ?b)) =
      (\<Sum>q < ?P. int (length (fmInputs (gnBuffers g ! q)))) + int (length (fmInputs (gnBuffers g' ! p)))"
    by (rule sum_replace [OF p]) (simp add: at)
  show ?thesis
  proof (cases "int (length (fmInputs f)) = fbFrameSize c")
    case False
    have "flush_inv c start now (n + 1) full aged g'" unfolding flush_inv_def
    proof (intro conjI allI impI)
      show "length (gnBuffers g') = ?P" "gnFlushes g' = full + (\<Sum>p < ?P. aged p)" using i(1,2) by (simp_all add: g'_def)
      show "int full * fbFrameSize c + (\<Sum>p < ?P. int (length (fmInputs (gnBuffers g' ! p)))) \<le> int (n + 1)" using s i(3) at [OF p] f(1) by simp
    next
      fix q assume q: "q < ?P"
      show "start + int (aged q) * ?A \<le> now" "int (aged q) \<le> aged_bound c" using i(4) [OF q] by simp_all
      assume "fmInputs (gnBuffers g' ! q) \<noteq> []"
      then show "start + int (aged q) * ?A \<le> fmFirst (gnBuffers g' ! q)" "fmFirst (gnBuffers g' ! q) \<le> start + run_length c"
        using i(4) [OF q] at [OF q] f by (auto split: if_splits)
    qed
    then show ?thesis using False by (auto simp: app)
  next
    case True
    let ?g = "flush_buffer room p g'"
    have "f = gnBuffers g' ! p" using at [OF p] by simp
    then have ne: "fmInputs (gnBuffers g' ! p) \<noteq> []" using f(1) by auto
    have g: "gnBuffers ?g = (gnBuffers g')[p := empty_frame p]" "gnFlushes ?g = gnFlushes g' + 1"
      using ne by (simp_all add: flush_buffer_def Let_def)
    have at2: "gnBuffers ?g ! q = (if q = p then empty_frame p else gnBuffers g ! q)" if "q < ?P" for q
      unfolding g(1) using that i(1) by (simp add: g'_def)
    have s2: "(\<Sum>q < ?P. int (length (fmInputs (gnBuffers ?g ! q)))) + int (length (fmInputs ?b)) =
        (\<Sum>q < ?P. int (length (fmInputs (gnBuffers g ! q)))) + int (length (fmInputs (gnBuffers ?g ! p)))"
      by (rule sum_replace [OF p]) (simp add: at2)
    have size: "fbFrameSize c = int (length (fmInputs ?b)) + 1" using True f(1) by simp
    have "int (full + 1) * fbFrameSize c = int full * fbFrameSize c + fbFrameSize c" by (simp add: algebra_simps)
    then have total: "int (full + 1) * fbFrameSize c + (\<Sum>p < ?P. int (length (fmInputs (gnBuffers ?g ! p)))) \<le> int (n + 1)"
      using s2 i(3) at2 [OF p] size by simp
    have "flush_inv c start now (n + 1) (full + 1) aged ?g" unfolding flush_inv_def
    proof (intro conjI allI impI)
      show "length (gnBuffers ?g) = ?P" "gnFlushes ?g = full + 1 + (\<Sum>p < ?P. aged p)" unfolding g using i(1,2) by (simp_all add: g'_def)
      show "int (full + 1) * fbFrameSize c + (\<Sum>p < ?P. int (length (fmInputs (gnBuffers ?g ! p)))) \<le> int (n + 1)" by (rule total)
    next
      fix q assume q: "q < ?P"
      show "start + int (aged q) * ?A \<le> now" "int (aged q) \<le> aged_bound c" using i(4) [OF q] by simp_all
      assume "fmInputs (gnBuffers ?g ! q) \<noteq> []"
      then show "start + int (aged q) * ?A \<le> fmFirst (gnBuffers ?g ! q)" "fmFirst (gnBuffers ?g ! q) \<le> start + run_length c"
        using i(4) [OF q] at2 [OF q] by (auto split: if_splits)
    qed
    then show ?thesis using True by (auto simp: app)
  qed
qed

text \<open>The invariant with what a lemma does not need to know hidden.\<close>

definition flushes_ok :: "fb_config \<Rightarrow> time \<Rightarrow> time \<Rightarrow> nat \<Rightarrow> generator \<Rightarrow> bool" where
  "flushes_ok c start now n g \<longleftrightarrow> (\<exists>full aged. flush_inv c start now n full aged g)"

lemma flushes_weaken: "flushes_ok c start now n g \<Longrightarrow> now \<le> now' \<Longrightarrow> n \<le> n' \<Longrightarrow> flushes_ok c start now' n' g"
  unfolding flushes_ok_def flush_inv_def by (elim exE, intro exI) force

lemma append_flushes:
  assumes "flushes_ok c start now n g" and "timed_config c" and "p < nat (fbPartitions c)" and "now \<le> start + run_length c"
  shows "flushes_ok c start now (Suc n) (append_input c room now p key inp g)"
  using assms(1) append_input_inv [OF _ assms(2-4)] unfolding flushes_ok_def by (metis Suc_eq_plus1)

lemma key_flushes:
  assumes ok: "flushes_ok c start now n g" and c: "timed_config c" and route: "\<And>t. route t < nat (fbPartitions c)" and key: "int key < fb_keys c"
  shows "flushes_ok c start now (n + length (key_plan c key)) (generate_key c encrypt route room start now key g)"
proof (cases "time_sub now (frame_at start key (fbRate c)) > fbMaxLag c")
  case True
  have "flushes_ok c start now n (generate_key c encrypt route room start now key g)"
    using ok True by (auto simp: generate_key_def Let_def flushes_ok_def flush_inv_def)
  then show ?thesis by (rule flushes_weaken) simp_all
next
  case False
  have "now \<le> frame_at start key (fbRate c) + fbMaxLag c" using False c by (intro time_sub_le) (auto simp: timed_config_def)
  then have soon: "now \<le> start + run_length c"
    using frame_at_bound [OF key, of start] c by (auto simp: timed_config_def run_length_def)
  let ?t = "frame_token encrypt key"
  let ?g1 = "append_input c room now (route ?t) key (?t, 1) g"
  have one: "flushes_ok c start now (Suc n) ?g1" by (rule append_flushes [OF ok c route soon])
  have two: "flushes_ok c start now (Suc (Suc n)) (append_input c room now (route ?t) key (?t, 2) ?g1)" by (rule append_flushes [OF one c route soon])
  show ?thesis using False one two by (simp add: generate_key_def Let_def key_plan_def)
qed

lemma aged_flushes:
  assumes "flushes_ok c start now n g" and "timed_config c" and "\<forall>p \<in> set ps. p < nat (fbPartitions c)"
  shows "flushes_ok c start now n (fold (flush_aged c room now) ps g)"
  using assms
proof (induction ps arbitrary: g)
  case Nil
  then show ?case by simp
next
  case (Cons p ps)
  have "flushes_ok c start now n (flush_aged c room now p g)"
    using Cons.prems flush_aged_inv [OF _ Cons.prems(2)] unfolding flushes_ok_def by (metis list.set_intros(1))
  then show ?case using Cons by simp
qed

lemma group_flushes:
  assumes ok: "flushes_ok c start before (length (planned_upto c base)) g" and now: "before \<le> now" and c: "timed_config c"
    and route: "\<And>t. route t < nat (fbPartitions c)" and keys: "int (base + n) \<le> fb_keys c"
  shows "flushes_ok c start now (length (planned_upto c (base + n))) (generate_group c encrypt route room start now base n g)"
proof -
  let ?g = "fold (flush_aged c room now) [0..<nat (fbPartitions c)] g"
  have g: "flushes_ok c start now (length (planned_upto c base)) ?g"
    by (rule aged_flushes [OF flushes_weaken [OF ok now order_refl] c]) simp
  have "flushes_ok c start now (length (planned_upto c (base + m))) (fold (generate_key c encrypt route room start now) [base..<base + m] ?g)" if "m \<le> n" for m
    using that
  proof (induction m)
    case 0
    then show ?case using g by simp
  next
    case (Suc m)
    then have k: "int (base + m) < fb_keys c" using keys by simp
    show ?case using key_flushes [OF Suc.IH c route k, where room = room and encrypt = encrypt] Suc.prems by simp
  qed
  then show ?thesis by (simp add: generate_group_def)
qed


text \<open>A clock that never goes back, and waits for the start.\<close>

definition steady_clock :: "time \<Rightarrow> (nat \<Rightarrow> time option) \<Rightarrow> bool" where
  "steady_clock start clock \<longleftrightarrow> (\<forall>b t. clock b = Some t \<longrightarrow> start \<le> t) \<and>
     (\<forall>a b t u. a \<le> b \<longrightarrow> clock a = Some t \<longrightarrow> clock b = Some u \<longrightarrow> t \<le> u)"

lemma from_flushes:
  assumes "flushes_ok c start before (length (planned_upto c base)) g" and "int base \<le> fb_keys c" and "timed_config c"
    and "\<And>t u. base \<le> u \<Longrightarrow> clock u = Some t \<Longrightarrow> before \<le> t" and "\<And>a b t u. a \<le> b \<Longrightarrow> clock a = Some t \<Longrightarrow> clock b = Some u \<Longrightarrow> t \<le> u"
    and "\<And>before now b n g. flushes_ok c start before (length (planned_upto c b)) g \<Longrightarrow> before \<le> now \<Longrightarrow> int (b + n) \<le> fb_keys c \<Longrightarrow>
       flushes_ok c start now (length (planned_upto c (b + n))) (visit now b n g)"
  shows "\<exists>now n. int n \<le> fb_keys c \<and> flushes_ok c start now (length (planned_upto c n)) (generate_from c clock visit base g)"
  using assms
proof (induction c clock visit base g arbitrary: before rule: generate_from.induct)
  case (1 c clock visit base g)
  note step = generate_from.simps [of c clock visit base g]
  show ?case
  proof (cases "base \<ge> nat (fb_keys c)")
    case True
    then show ?thesis using "1.prems"(1,2) by (auto simp: step)
  next
    case more_keys: False
    show ?thesis
    proof (cases "clock base")
      case None
      then show ?thesis using "1.prems"(1,2) more_keys by (auto simp: step)
    next
      case (Some now)
      let ?n = "min (group_size c) (nat (fb_keys c) - base)"
      let ?g = "visit now base ?n g"
      have keys: "int (base + ?n) \<le> fb_keys c" using more_keys by linarith
      have g: "flushes_ok c start now (length (planned_upto c (base + ?n))) ?g"
        by (rule "1.prems"(6) [OF "1.prems"(1) "1.prems"(4) [OF order_refl Some] keys])
      have later: "now \<le> t" if "base + group_size c \<le> u" "clock u = Some t" for t u
        using "1.prems"(5) [of base u now t] that Some by simp
      show ?thesis
      proof (cases "base + group_size c \<le> nat (fb_keys c)")
        case True
        then have n: "?n = group_size c" by simp
        have "int (base + group_size c) \<le> fb_keys c" using keys unfolding n .
        have "\<exists>now n. int n \<le> fb_keys c \<and> flushes_ok c start now (length (planned_upto c n)) (generate_from c clock visit (base + group_size c) ?g)"
        proof (rule "1.IH" [OF more_keys Some])
          show "flushes_ok c start now (length (planned_upto c (base + group_size c))) ?g" using g unfolding n .
          show "int (base + group_size c) \<le> fb_keys c" by fact
          show "now \<le> t" if "base + group_size c \<le> u" "clock u = Some t" for t u by (rule later [OF that])
        qed (fact "1.prems"(3), fact "1.prems"(5), fact "1.prems"(6))
        then show ?thesis using more_keys Some by (simp add: step n)
      next
        case False
        have "generate_from c clock visit (base + group_size c) ?g = ?g" using False by (simp add: generate_from.simps)
        then show ?thesis using g keys more_keys Some by (intro exI [of _ now] exI [of _ "base + ?n"]) (simp add: step)
      qed
    qed
  qed
qed


lemma flush_count: "gnFlushes (fold (flush_buffer room) ps g) \<le> gnFlushes g + length ps"
proof (induction ps arbitrary: g)
  case Nil
  then show ?case by simp
next
  case (Cons p ps)
  have "gnFlushes (flush_buffer room p g) \<le> gnFlushes g + 1" by (simp add: flush_buffer_def Let_def)
  then show ?case using Cons.IH [of "flush_buffer room p g"] by simp
qed

lemma frames_bounded:
  assumes c: "timed_config c" and route: "\<And>t. route t < nat (fbPartitions c)" and clock: "steady_clock start clock"
  shows "int (length (gnQueued (generate_frames c encrypt route room clock start))) \<le> min (fb_attempts c)
    ((fb_attempts c + fbFrameSize c - 1) div fbFrameSize c + fbPartitions c * (run_length c div fbFrameAge c + 2))"
proof -
  let ?g = "generate_frames c encrypt route room clock start" and ?P = "nat (fbPartitions c)" and ?fs = "fbFrameSize c"
  let ?run = "generate_from c clock (generate_group c encrypt route room start) 0 (generator_start c)"
  have fs: "1 \<le> ?fs" and rate: "1 \<le> fbRate c" and age: "0 < fbFrameAge c" using c by (auto simp: timed_config_def)
  have keys: "0 \<le> fb_keys c" using rate by (simp add: fb_keys_def)
  have start: "flushes_ok c start start (length (planned_upto c 0)) (generator_start c)"
    unfolding flushes_ok_def using age c
    by (intro exI [of _ "0 :: nat"] exI [of _ "\<lambda>_. 0 :: nat"])
      (simp add: flush_inv_def generator_start_def aged_bound_def run_length_def timed_config_def pos_imp_zdiv_nonneg_iff)
  have "\<exists>now n. int n \<le> fb_keys c \<and> flushes_ok c start now (length (planned_upto c n)) ?run"
    by (rule from_flushes [OF start _ c]) (use clock keys in \<open>auto simp: steady_clock_def intro: group_flushes [OF _ _ c route]\<close>)
  then obtain now n where n: "int n \<le> fb_keys c" and ok: "flushes_ok c start now (length (planned_upto c n)) ?run" by (elim exE conjE)
  from ok obtain full aged where inv: "flush_inv c start now (length (planned_upto c n)) full aged ?run" by (auto simp: flushes_ok_def)
  have planned: "int (length (planned_upto c n)) \<le> fb_attempts c"
  proof -
    have "n \<le> nat (fb_keys c)" using n by linarith
    then have "length (planned_upto c n) \<le> length (planned_upto c (nat (fb_keys c)))" by (rule lift_Suc_mono_le [rotated]) simp
    then show ?thesis using length_planned [of c] rate by simp
  qed
  have "int full * ?fs \<le> int (length (planned_upto c n))"
    using inv sum_nonneg [of "{..<?P}" "\<lambda>p. int (length (fmInputs (gnBuffers ?run ! p)))"] by (simp add: flush_inv_def)
  then have "int full * ?fs div ?fs \<le> (fb_attempts c + ?fs - 1) div ?fs" using planned fs by (intro zdiv_mono1) linarith+
  then have full: "int full \<le> (fb_attempts c + ?fs - 1) div ?fs" using fs by simp
  have "int (\<Sum>p < ?P. aged p) \<le> (\<Sum>p < ?P. aged_bound c)" unfolding of_nat_sum using inv by (intro sum_mono) (simp add: flush_inv_def)
  then have aged: "int (\<Sum>p < ?P. aged p) \<le> int ?P * aged_bound c" by simp
  have "gnFlushes ?g \<le> gnFlushes ?run + ?P" using flush_count [of room "[0..<?P]" ?run] by (simp add: generate_frames_def)
  moreover have "gnFlushes ?run = full + (\<Sum>p < ?P. aged p)" using inv by (simp add: flush_inv_def)
  ultimately have "gnFlushes ?g \<le> full + (\<Sum>p < ?P. aged p) + ?P" by simp
  then have "int (gnFlushes ?g) \<le> int full + int (\<Sum>p < ?P. aged p) + int ?P" by (simp only: of_nat_add [symmetric] of_nat_le_iff)
  then have "int (gnFlushes ?g) \<le> (fb_attempts c + ?fs - 1) div ?fs + int ?P * (aged_bound c + 1)" using full aged by (simp add: algebra_simps)
  moreover have "0 < fbPartitions c" using route [of "[]"] by simp
  ultimately have flushes: "int (length (gnQueued ?g)) \<le> (fb_attempts c + ?fs - 1) div ?fs + fbPartitions c * (run_length c div fbFrameAge c + 2)"
    using queued_le_flushes [of c encrypt route room clock start] by (simp add: aged_bound_def algebra_simps)
  have "int (length (gnQueued ?g)) \<le> fb_attempts c"
  proof -
    obtain k where k: "k \<le> nat (fb_keys c)" and typed: "\<forall>f \<in> set (gnQueued ?g). frame_typed c encrypt route f"
      and total: "sum_list (map (\<lambda>f. length (fmInputs f)) (gnQueued ?g)) + gnLagSkips ?g + gnQueueSkips ?g = length (planned_upto c k)"
      using frame_generator_inv [where route = route and encrypt = encrypt and room = room and clock = clock and start = start, OF route fs]
      unfolding Let_def by (elim exE conjE)
    have "length fs \<le> sum_list (map (\<lambda>f. length (fmInputs f)) fs)" if "\<forall>f \<in> set fs. fmInputs f \<noteq> []" for fs
      using that by (induction fs) (auto simp: Suc_le_eq add_increasing length_greater_0_conv [symmetric] simp del: length_greater_0_conv)
    then have "length (gnQueued ?g) \<le> length (planned_upto c k)" using typed total by (fastforce simp: frame_typed_def)
    also have "\<dots> \<le> length (planned_upto c (nat (fb_keys c)))" by (rule lift_Suc_mono_le [OF _ k]) simp
    finally show ?thesis using length_planned [of c] rate by simp
  qed
  then show ?thesis using flushes by simp
qed

lemma file_valid: "file_validate c = None \<Longrightarrow> timed_config c \<and> fbPartitions c = 1 \<and> file_frameBound c \<le> maximumFrames"
  unfolding file_validate_def timed_config_def by (simp split: if_split_asm)

lemma topic_valid: "topic_validate lookup_port c = None \<Longrightarrow> timed_config c \<and> topic_frameBound c \<le> maximumFrames"
  unfolding topic_validate_def timed_config_def by (simp split: if_split_asm)

text \<open>C37. With a valid configuration of either benchmark the generator never queues more frames than the bound from which the ledger was sized, and
  that bound is at most the million frames the ledger admits: whatever the queue does, for every clock that does not go back.\<close>

theorem frame_count_bounded:
  assumes "(file_validate c = None \<and> bound = file_frameBound c) \<or> (topic_validate lookup_port c = None \<and> bound = topic_frameBound c)"
    and "\<And>t. route t < nat (fbPartitions c)" and "steady_clock start clock"
  shows "int (length (gnQueued (generate_frames c encrypt route room clock start))) \<le> bound \<and> bound \<le> maximumFrames"
proof -
  have "timed_config c \<and> bound \<le> maximumFrames \<and> bound = min (fb_attempts c)
      ((fb_attempts c + fbFrameSize c - 1) div fbFrameSize c + fbPartitions c * (run_length c div fbFrameAge c + 2))"
    using assms(1)
  proof (elim disjE conjE)
    assume "file_validate c = None" "bound = file_frameBound c"
    then show ?thesis using file_valid [of c] by (simp add: file_frameBound_def run_length_def)
  next
    assume "topic_validate lookup_port c = None" "bound = topic_frameBound c"
    then show ?thesis using topic_valid [of lookup_port c] by (simp add: topic_frameBound_def run_length_def)
  qed
  then show ?thesis using frames_bounded [OF _ assms(2,3)] by simp
qed

lemma frame_count_bounded_witness:
  "int (length (gnQueued (generate_frames (file_defaults\<lparr>fbRate := 100\<rparr>) (\<lambda>t. t) (\<lambda>_. 0) (\<lambda>_. True) (\<lambda>b. Some (int b * second)) 0))) \<le> 6000"
proof -
  let ?c = "file_defaults\<lparr>fbRate := 100\<rparr>"
  have valid: "file_validate ?c = None"
    by (simp add: file_validate_def file_defaults_def fb_attempts_def fb_keys_def frame_maximumRate_def frame_maximumAttempts_def file_frameBound_def
        maximumFrames_def estimatedWALBytes_def maximumWALBytes_def fb_needs_flag_def)
  have "0 < nat (fbPartitions ?c)" "steady_clock 0 (\<lambda>b. Some (int b * second))"
    by (auto simp: file_defaults_def steady_clock_def)
  from frame_count_bounded [where route = "\<lambda>_. 0" and encrypt = "\<lambda>t. t" and room = "\<lambda>_. True", OF disjI1 [OF conjI [OF valid refl]] this]
  have "int (length (gnQueued (generate_frames ?c (\<lambda>t. t) (\<lambda>_. 0) (\<lambda>_. True) (\<lambda>b. Some (int b * second)) 0))) \<le> file_frameBound ?c" by simp
  also have "\<dots> \<le> 6000" by (simp add: file_frameBound_def file_defaults_def fb_attempts_def fb_keys_def)
  finally show ?thesis .
qed

end
