(* ===== verification/Bench_Counts.thy ===== *)
theory Bench_Counts
  imports Gq_Prelude
begin

text \<open>
  Counting, shared by the benchmarks that run a scheduler and workers: a Go map from names to counts as a list of pairs, and how many elements of
  a list have a property, with what an update of one element does to it; and how a quotient counts the multiples.
\<close>

section \<open>Counts by name\<close>

text \<open>\<^verbatim>\<open>m[name] += n\<close>\<close>

fun bump :: "'a \<Rightarrow> int \<Rightarrow> ('a \<times> int) list \<Rightarrow> ('a \<times> int) list" where
  "bump k n [] = [(k, n)]"
| "bump k n ((a, v) # m) = (if a = k then (a, v + n) # m else (a, v) # bump k n m)"

text \<open>The value a Go map of counts has for a key, zero when it has none.\<close>

definition count_at :: "'a \<Rightarrow> ('a \<times> int) list \<Rightarrow> int" where
  "count_at k m = (case map_of m k of None \<Rightarrow> 0 | Some n \<Rightarrow> n)"

definition summed :: "('a \<times> int) list \<Rightarrow> int" where
  "summed m = sum_list (map snd m)"

lemma summed_nil [simp]: "summed [] = 0"
  by (simp add: summed_def)

lemma summed_bump [simp]: "summed (bump k n m) = summed m + n"
  by (induction m) (auto simp: summed_def)

lemma map_of_bump: "map_of (bump k n m) x = (if x = k then Some (count_at k m + n) else map_of m x)"
  by (induction m) (auto simp: count_at_def)

lemma count_at_bump: "count_at x (bump k n m) = count_at x m + (if x = k then n else 0)"
  by (simp add: count_at_def map_of_bump)

lemma keys_bump: "fst ` set (bump k n m) = insert k (fst ` set m)"
  by (induction k n m rule: bump.induct) (simp_all add: insert_commute)

lemma distinct_bump: "distinct (map fst m) \<Longrightarrow> distinct (map fst (bump k n m))"
  by (induction k n m rule: bump.induct) (auto simp: keys_bump)

section \<open>Counts of elements\<close>

lemma sum_list_update_int: "i < length xs \<Longrightarrow> sum_list (xs[i := x]) = sum_list xs - xs ! i + (x :: int)"
  by (induction xs arbitrary: i) (auto split: nat.splits)

definition how_many :: "('a \<Rightarrow> bool) \<Rightarrow> 'a list \<Rightarrow> int" where
  "how_many P xs = int (length (filter P xs))"

lemma how_many_simps [simp]:
  "how_many P [] = 0" "how_many P (x # xs) = of_bool (P x) + how_many P xs" "how_many P (xs @ ys) = how_many P xs + how_many P ys"
  by (simp_all add: how_many_def)

lemma how_many_update: "w < length xs \<Longrightarrow> how_many P (xs[w := a]) = how_many P xs - of_bool (P (xs ! w)) + of_bool (P a)"
  by (induction xs arbitrary: w) (auto split: nat.splits)

lemma how_many_none: "\<not> P x \<Longrightarrow> how_many P (replicate n x) = 0"
  by (induction n) simp_all

lemma how_many_nonneg: "0 \<le> how_many P xs"
  by (simp add: how_many_def)

section \<open>Every so many\<close>

lemma div_step: "(n + 1) div r = n div r + of_bool ((n + 1) mod r = 0)" if "0 < r" for n r :: int
proof (cases "(n + 1) mod r = 0")
  case True
  then obtain q where q: "n + 1 = r * q" by (auto simp: dvd_def mod_eq_0_iff_dvd)
  then have n: "n = (q - 1) * r + (r - 1)" by (simp add: algebra_simps)
  have "n div r = q - 1" unfolding n using that by simp
  with q that True show ?thesis by simp
next
  case False
  define q where "q = (n + 1) div r"
  define m where "m = (n + 1) mod r"
  have e: "n + 1 = q * r + m" by (simp add: q_def m_def)
  have "0 \<le> m" "m < r" "m \<noteq> 0" using False that by (simp_all add: m_def)
  then have m: "0 \<le> m - 1" "m - 1 < r" by linarith+
  have n: "n = q * r + (m - 1)" using e by simp
  have "n div r = q" unfolding n using m that by (simp add: div_add1_eq)
  then show ?thesis using False by (simp add: q_def)
qed

end
