(* ===== verification/Storagebench.thy ===== *)
theory Storagebench
  imports Bench_Measure Bench_Counts Poll Go_Strings Http_Auth
begin

text \<open>
  The database benchmark (\<^verbatim>\<open>cmd/storagebench\<close>): its configuration (\<^verbatim>\<open>main.go\<close>), the counts by second
  (\<^verbatim>\<open>timeline.go\<close>), and the workload (\<^verbatim>\<open>workload.go\<close>): a scheduler that offers each key at its slot to a
  bounded queue, and workers that take the attempts, call the repository and keep what they observed of each key.

  A Go \<^verbatim>\<open>int\<close> of the counters is an integer; the bounds of the configuration keep all of them far from
  the ends of 64 bits. A map from names to counts is a list of pairs. Means, rates and latencies in fractions of a
  second are floating-point texts of the report, and are left out.
\<close>

section \<open>The configuration\<close>

definition maximumKeys :: int where "maximumKeys = 500000"

record sg_config =
  sgTotal :: int
  sgRate :: int
  sgWorkers :: int
  sgQueue :: int
  sgRepeatEvery :: int
  sgDifferent :: bool
  sgMode :: string
  sgTimeout :: duration
  sgDrain :: duration
  sgMaxLag :: duration
  sgKeepSchema :: bool
  sgAllowLarge :: bool
  sgWarmConnections :: bool
  sgAuditFile :: string
  sgAuditOnly :: string
  sgRequiredStandbys :: int
  sgStandbyNames :: string

definition sg_defaults :: sg_config where
  "sg_defaults = \<lparr>sgTotal = 100, sgRate = 100, sgWorkers = 16, sgQueue = 64, sgRepeatEvery = 0, sgDifferent = False, sgMode = ''vote'',
     sgTimeout = 3 * second, sgDrain = 10 * second, sgMaxLag = 100 * millisecond, sgKeepSchema = False, sgAllowLarge = False,
     sgWarmConnections = False, sgAuditFile = [], sgAuditOnly = [], sgRequiredStandbys = 0, sgStandbyNames = []\<rparr>"

datatype sg_error = SgTotal | SgWorkers | SgDurations | SgRepeats | SgMode | SgBlindRepeats | SgWarm | SgStandbys | SgNamesWithoutPolicy
  | SgNames | SgTooFewNames | SgLarge | SgAuditOnly

text \<open>The loop over the names of the standbys: the distinct names, or \<open>None\<close> for an empty or repeated one.\<close>

fun standby_set :: "string list \<Rightarrow> string list \<Rightarrow> string list option" where
  "standby_set [] seen = Some seen"
| "standby_set (n # ns) seen =
     (let name = trim_space n in if name = [] \<or> name \<in> set seen then None else standby_set ns (name # seen))"

definition sg_standbys :: "sg_config \<Rightarrow> sg_error option" where
  "sg_standbys c =
     (if sgRequiredStandbys c < 0 \<or> sgRequiredStandbys c > 8 then Some SgStandbys
      else if sgRequiredStandbys c = 0 \<and> sgStandbyNames c \<noteq> [] then Some SgNamesWithoutPolicy
      else if sgRequiredStandbys c > 0 then
        (case standby_set (split_byte CHR '','' (sgStandbyNames c)) [] of
           None \<Rightarrow> Some SgNames
         | Some seen \<Rightarrow> if sgRequiredStandbys c > int (length seen) then Some SgTooFewNames else None)
      else None)"

definition sg_maxRate :: "sg_config \<Rightarrow> int" where
  "sg_maxRate c =
     (if sgRepeatEvery c > 0
      then sgRate c + sgRate c div sgRepeatEvery c + (if sgRate c mod sgRepeatEvery c \<noteq> 0 then 1 else 0)
      else sgRate c)"

definition sg_validate :: "sg_config \<Rightarrow> sg_error option" where
  "sg_validate c =
     (if sgTotal c < 1 \<or> sgTotal c > maximumKeys \<or> sgRate c < 1 \<or> sgRate c > 200000 \<or> sgTotal c > sgRate c * 55 then Some SgTotal
      else if sgWorkers c < 1 \<or> sgWorkers c > 256 \<or> sgQueue c < 1 \<or> sgQueue c > 8192 then Some SgWorkers
      else if sgTimeout c \<le> 0 \<or> sgTimeout c > 10 * second \<or> sgDrain c \<le> 0 \<or> sgDrain c > 15 * second \<or> sgMaxLag c \<le> 0 \<or> sgMaxLag c > second
        then Some SgDurations
      else if sgRepeatEvery c < 0 \<or> (sgDifferent c \<and> sgRepeatEvery c = 0) then Some SgRepeats
      else if sgMode c \<noteq> ''vote'' \<and> sgMode c \<noteq> ''blind'' then Some SgMode
      else if sgMode c = ''blind'' \<and> sgRepeatEvery c \<noteq> 0 then Some SgBlindRepeats
      else if sgWarmConnections c \<and> (sgMode c = ''blind'' \<or> sgAuditOnly c \<noteq> []) then Some SgWarm
      else case sg_standbys c of
        Some e \<Rightarrow> Some e
      | None \<Rightarrow>
          if \<not> sgAllowLarge c \<and> (sgTotal c > 10000 \<or> sg_maxRate c > 1000) then Some SgLarge
          else if sgAuditOnly c \<noteq> [] \<and> (sgKeepSchema c \<or> sgAuditFile c \<noteq> []) then Some SgAuditOnly
          else None)"

definition sg_window :: "sg_config \<Rightarrow> duration" where
  "sg_window c = (sgTotal c * second) sdiv sgRate c"

section \<open>The timeline\<close>

definition timelineSeconds :: nat where "timelineSeconds = 128"

record timeline_bucket =
  skSecond :: int
  skOverflow :: bool
  skLogicalScheduled :: int
  skAttemptsScheduled :: int
  skSent :: int
  skAccepted :: int
  skUnknown :: int
  skFirstConfirmations :: int
  skSkipped :: "(string \<times> int) list"

definition empty_second :: timeline_bucket where
  "empty_second = \<lparr>skSecond = 0, skOverflow = False, skLogicalScheduled = 0, skAttemptsScheduled = 0, skSent = 0, skAccepted = 0,
     skUnknown = 0, skFirstConfirmations = 0, skSkipped = []\<rparr>"

definition secondIndex :: "duration \<Rightarrow> nat" where
  "secondIndex elapsed = nat (min (int timelineSeconds - 1) (max 0 (elapsed sdiv second)))"

lemma secondIndex_less: "secondIndex elapsed < timelineSeconds"
  by (simp add: secondIndex_def timelineSeconds_def)

section \<open>Observations\<close>

record key_state =
  ksToken :: string
  ksSentChoices :: u8
  ksConfirmedChoices :: u8
  ksReceiptChoices :: u8
  ksAccepted :: int
  ksUnknown :: bool
  ksFirstConfirmation :: duration
  ksHasConfirmation :: bool

record attempt_job =
  jbIndex :: nat
  jbChoice :: int
  jbScheduled :: time

record observations =
  obKeys :: "key_state list"
  obScheduled :: int
  obQueued :: int
  obSent :: int
  obDuringWindow :: int
  obSkips :: "(string \<times> int) list"
  obOutcomes :: "(string \<times> int) list"
  obInvalidReceipts :: int
  obLag :: "duration list"
  obElapsed :: "duration list"
  obFromSchedule :: "duration list"
  obSeconds :: "timeline_bucket list"
  obLastSecond :: nat

definition new_key :: "byte list \<Rightarrow> key_state" where
  "new_key raw = \<lparr>ksToken = hex_encode raw, ksSentChoices = 0, ksConfirmedChoices = 0, ksReceiptChoices = 0, ksAccepted = 0,
     ksUnknown = False, ksFirstConfirmation = 0, ksHasConfirmation = False\<rparr>"

text \<open>\<open>raws\<close> is what the random source gives, 16 bytes or an error for each key.\<close>

definition newObservations :: "byte list option list \<Rightarrow> observations option" where
  "newObservations raws =
     (if None \<in> set raws then None
      else Some \<lparr>obKeys = map (new_key \<circ> the) raws, obScheduled = 0, obQueued = 0, obSent = 0, obDuringWindow = 0, obSkips = [],
        obOutcomes = [], obInvalidReceipts = 0, obLag = [], obElapsed = [], obFromSchedule = [],
        obSeconds = replicate timelineSeconds empty_second, obLastSecond = 0\<rparr>)"

text \<open>\<open>in_second\<close> is a call of \<^verbatim>\<open>bucket\<close> and the change of the bucket it returns.\<close>

definition in_second :: "duration \<Rightarrow> (timeline_bucket \<Rightarrow> timeline_bucket) \<Rightarrow> observations \<Rightarrow> observations" where
  "in_second elapsed change m =
     (let i = secondIndex elapsed;
          b = (obSeconds m ! i)\<lparr>skSecond := int i, skOverflow := i = timelineSeconds - 1\<rparr>
      in m\<lparr>obLastSecond := max (obLastSecond m) i, obSeconds := (obSeconds m)[i := change b]\<rparr>)"

definition attemptsInRange :: "int \<Rightarrow> int \<Rightarrow> int \<Rightarrow> int" where
  "attemptsInRange low high repeat_every =
     (if repeat_every > 0 then high - low + (high div repeat_every - low div repeat_every) else high - low)"

text \<open>
  The calls of \<^verbatim>\<open>visit\<close> in \<^verbatim>\<open>eachScheduleSecond\<close>: a second, the keys and the attempts scheduled in it. The
  configuration has a positive rate.
\<close>

function eachScheduleSecond :: "int \<Rightarrow> int \<Rightarrow> int \<Rightarrow> int \<Rightarrow> (duration \<times> int \<times> int) list" where
  "eachScheduleSecond rate repeat_every low high =
     (if low < high \<and> 0 < rate then
        let s = low div rate; until = min high ((s + 1) * rate) in
        (s * second, until - low, attemptsInRange low until repeat_every) # eachScheduleSecond rate repeat_every until high
      else [])"
  by pat_completeness auto

lemma next_second_later: "low < (low div rate + 1) * rate" if "0 < rate" for rate low :: int
proof -
  have "low = rate * (low div rate) + low mod rate" "low mod rate < rate" using that by simp_all
  moreover have "(low div rate + 1) * rate = rate * (low div rate) + rate" by (simp add: algebra_simps)
  ultimately show ?thesis by linarith
qed

termination eachScheduleSecond
  by (relation "measure (\<lambda>(rate, repeat_every, low, high). nat (high - low))")
    (use next_second_later in \<open>auto simp: min_def\<close>)

declare eachScheduleSecond.simps [simp del]

definition schedule_second :: "duration \<times> int \<times> int \<Rightarrow> observations \<Rightarrow> observations" where
  "schedule_second visit m =
     (let (s, logical, attempts) = visit in
      in_second s (\<lambda>b. b\<lparr>skLogicalScheduled := skLogicalScheduled b + logical, skAttemptsScheduled := skAttemptsScheduled b + attempts\<rparr>) m)"

definition scheduledRange :: "sg_config \<Rightarrow> int \<Rightarrow> int \<Rightarrow> observations \<Rightarrow> observations" where
  "scheduledRange c low high m =
     fold schedule_second (eachScheduleSecond (sgRate c) (sgRepeatEvery c) low high) (m\<lparr>obScheduled := obScheduled m + (high - low)\<rparr>)"

definition skip_second :: "string \<Rightarrow> duration \<times> int \<times> int \<Rightarrow> observations \<Rightarrow> observations" where
  "skip_second reason visit m =
     (let (s, logical, attempts) = visit in in_second s (\<lambda>b. b\<lparr>skSkipped := bump reason attempts (skSkipped b)\<rparr>) m)"

definition skipRange :: "sg_config \<Rightarrow> int \<Rightarrow> int \<Rightarrow> string \<Rightarrow> observations \<Rightarrow> observations" where
  "skipRange c low high reason m =
     fold (skip_second reason) (eachScheduleSecond (sgRate c) (sgRepeatEvery c) low high)
       (m\<lparr>obSkips := bump reason (attemptsInRange low high (sgRepeatEvery c)) (obSkips m)\<rparr>)"

definition skip_attempts :: "string \<Rightarrow> int \<Rightarrow> duration \<Rightarrow> observations \<Rightarrow> observations" where
  "skip_attempts reason n offset m =
     in_second offset (\<lambda>b. b\<lparr>skSkipped := bump reason n (skSkipped b)\<rparr>) (m\<lparr>obSkips := bump reason n (obSkips m)\<rparr>)"

definition choiceMask :: "int list \<Rightarrow> u8" where
  "choiceMask choices =
     (if length choices \<noteq> 1 \<or> choices ! 0 < 1 \<or> choices ! 0 > 2 then 0 else push_bit (nat (choices ! 0 - 1)) 1)"

definition attempt_mask :: "attempt_job \<Rightarrow> u8" where
  "attempt_mask j = push_bit (nat (jbChoice j - 1)) 1"

definition markStart :: "attempt_job \<Rightarrow> time \<Rightarrow> duration \<Rightarrow> time \<Rightarrow> observations \<Rightarrow> observations" where
  "markStart j start window began m =
     (let k = obKeys m ! jbIndex j;
          m = m\<lparr>obSent := obSent m + 1,
            obKeys := (obKeys m)[jbIndex j := k\<lparr>ksSentChoices := ksSentChoices k OR attempt_mask j\<rparr>],
            obLag := obLag m @ [time_sub began (jbScheduled j)]\<rparr>;
          m = in_second (time_sub began start) (\<lambda>b. b\<lparr>skSent := skSent b + 1\<rparr>) m
      in if time_sub began start < window then m\<lparr>obDuringWindow := obDuringWindow m + 1\<rparr> else m)"

text \<open>The status an answer is counted under; an error is \<open>None\<close>.\<close>

definition observed_status :: "receipt option \<Rightarrow> string" where
  "observed_status r =
     (case r of None \<Rightarrow> ''unknown_error'' | Some r \<Rightarrow> if rcStatus r = [] then ''unknown_empty_receipt'' else rcStatus r)"

text \<open>What a receipt of an accepted, duplicate or conflicting vote says of its key.\<close>

definition observe_receipt :: "attempt_job \<Rightarrow> string \<Rightarrow> receipt \<Rightarrow> duration \<Rightarrow> key_state \<Rightarrow> key_state" where
  "observe_receipt j status r from_schedule k =
     (let choice = choiceMask (rcChoices r);
          k = k\<lparr>ksReceiptChoices := ksReceiptChoices k OR choice\<rparr>;
          k = (if (status = ''accepted'' \<or> status = ''duplicate'') \<and> choice = attempt_mask j \<and> rcAcceptedAt r \<noteq> None then
            let k = (if \<not> ksHasConfirmation k \<or> from_schedule < ksFirstConfirmation k
              then k\<lparr>ksFirstConfirmation := from_schedule, ksHasConfirmation := True\<rparr> else k)
            in k\<lparr>ksConfirmedChoices := ksConfirmedChoices k OR choice\<rparr>
          else k)
      in if status = ''accepted'' then k\<lparr>ksAccepted := ksAccepted k + 1\<rparr> else k)"

definition receipt_faults :: "attempt_job \<Rightarrow> string \<Rightarrow> receipt \<Rightarrow> int" where
  "receipt_faults j status r =
     (let choice = choiceMask (rcChoices r) in
      (if choice = 0 \<or> rcAcceptedAt r = None then 1 else 0) +
      (if (status = ''accepted'' \<or> status = ''duplicate'') \<and> choice \<noteq> attempt_mask j then 1 else 0))"

definition observe_answer :: "attempt_job \<Rightarrow> receipt option \<Rightarrow> time \<Rightarrow> time \<Rightarrow> time \<Rightarrow> observations \<Rightarrow> observations" where
  "observe_answer j answer began finished start m =
     (let from_schedule = time_sub finished (jbScheduled j);
          status = observed_status answer;
          k = obKeys m ! jbIndex j;
          m = m\<lparr>obElapsed := obElapsed m @ [time_sub finished began], obFromSchedule := obFromSchedule m @ [from_schedule],
            obOutcomes := bump status 1 (obOutcomes m)\<rparr>;
          m = in_second (time_sub finished start) (\<lambda>b. b) m
      in case (if status = ''unknown'' \<or> status = ''unknown_empty_receipt'' then None else answer) of
           None \<Rightarrow> in_second (time_sub finished start) (\<lambda>b. b\<lparr>skUnknown := skUnknown b + 1\<rparr>)
             (m\<lparr>obKeys := (obKeys m)[jbIndex j := k\<lparr>ksUnknown := True\<rparr>]\<rparr>)
         | Some r \<Rightarrow>
             if status = ''accepted'' \<or> status = ''duplicate'' \<or> status = ''conflict'' then
               let m = m\<lparr>obInvalidReceipts := obInvalidReceipts m + receipt_faults j status r,
                 obKeys := (obKeys m)[jbIndex j := observe_receipt j status r from_schedule k]\<rparr>
               in if status = ''accepted''
                  then in_second (time_sub finished start) (\<lambda>b. b\<lparr>skAccepted := skAccepted b + 1\<rparr>) m else m
             else m)"

section \<open>The scheduler and the workers\<close>

text \<open>\<^verbatim>\<open>slotsBefore\<close> and \<^verbatim>\<open>offset\<close> are the functions of the load generator, word for word.\<close>

definition sg_slotsBefore :: "duration \<Rightarrow> int \<Rightarrow> int" where
  "sg_slotsBefore elapsed rate = slotsBefore elapsed rate"

definition sg_offset :: "int \<Rightarrow> int \<Rightarrow> duration" where
  "sg_offset index rate = slotOffset index rate"

text \<open>
  The scheduler is at the head of its loop, or has the choices left to offer of the key \<open>next\<close>, or has returned. A worker waits
  for an attempt, has taken one, or is in its call to the repository since an instant.
\<close>

datatype schedule_phase = Scheduling | Offering "int list" | ScheduleEnded
datatype sg_worker = WaitingWorker | TakenAttempt attempt_job | CallingAttempt attempt_job time

record sg_state =
  swObs :: observations
  swNext :: nat
  swPhase :: schedule_phase
  swQueue :: "attempt_job list"
  swWorkers :: "sg_worker list"

definition sg_initial :: "sg_config \<Rightarrow> observations \<Rightarrow> sg_state" where
  "sg_initial c m = \<lparr>swObs = m, swNext = 0, swPhase = Scheduling, swQueue = [], swWorkers = replicate (nat (sgWorkers c)) WaitingWorker\<rparr>"

text \<open>The choices offered for the key \<open>next\<close>: the original attempt and the repeat, if it has one.\<close>

definition offered_choices :: "sg_config \<Rightarrow> nat \<Rightarrow> int list" where
  "offered_choices c next =
     (if sgRepeatEvery c > 0 \<and> (int next + 1) mod sgRepeatEvery c = 0 then [1, if sgDifferent c then 2 else 1] else [1])"

definition scheduled_at :: "sg_config \<Rightarrow> time \<Rightarrow> nat \<Rightarrow> time" where
  "scheduled_at c start index = start + sg_offset (int index) (sgRate c)"

text \<open>
  What happens next. \<open>ScheduleCancelled\<close> is the end of the context at the head of the loop or while the scheduler waits;
  \<open>ScheduleAt now\<close> is one turn of the loop that reads the clock; \<open>OfferNext\<close> one call of \<^verbatim>\<open>offer\<close>. The others are the steps of a
  worker: it receives an attempt, it gives it up or starts it (\<open>cancelled\<close> is whether the context has ended, \<open>now\<close> and
  \<open>began\<close> its two readings of the clock), and its call returns.

  The lock of the observations makes every one of these changes of the counts atomic; a step joins the
  two or three of them a thread makes without looking at anything in between.
\<close>

datatype sg_event =
    ScheduleCancelled
  | ScheduleAt time
  | OfferNext
  | WorkerTakes nat
  | WorkerStarts nat bool time time
  | WorkerReturns nat "receipt option" time

definition schedule_turn :: "sg_config \<Rightarrow> time \<Rightarrow> time \<Rightarrow> sg_state \<Rightarrow> sg_state" where
  "schedule_turn c start now s =
     (let next = swNext s; m = swObs s;
          obsolete = min (sgTotal c) (sg_slotsBefore (time_sub now start - sgMaxLag c) (sgRate c))
      in if obsolete > int next then
           s\<lparr>swObs := skipRange c (int next) obsolete ''scheduler_lag'' (scheduledRange c (int next) obsolete m), swNext := nat obsolete\<rparr>
         else if time_sub (scheduled_at c start next) now > 0 then s
         else s\<lparr>swObs := scheduledRange c (int next) (int next + 1) m, swPhase := Offering (offered_choices c next)\<rparr>)"

definition offer :: "sg_config \<Rightarrow> time \<Rightarrow> int \<Rightarrow> sg_state \<Rightarrow> sg_state" where
  "offer c start choice s =
     (let j = \<lparr>jbIndex = swNext s, jbChoice = choice, jbScheduled = scheduled_at c start (swNext s)\<rparr>; m = swObs s in
      if int (length (swQueue s)) < sgQueue c then s\<lparr>swQueue := swQueue s @ [j], swObs := m\<lparr>obQueued := obQueued m + 1\<rparr>\<rparr>
      else s\<lparr>swObs := skip_attempts ''queue_full'' 1 (time_sub (jbScheduled j) start) m\<rparr>)"

definition offer_next :: "sg_config \<Rightarrow> time \<Rightarrow> int list \<Rightarrow> sg_state \<Rightarrow> sg_state" where
  "offer_next c start choices s =
     (case choices of
        [] \<Rightarrow> s\<lparr>swNext := swNext s + 1, swPhase := Scheduling\<rparr>
      | choice # rest \<Rightarrow> (offer c start choice s)\<lparr>swPhase := Offering rest\<rparr>)"

definition set_worker :: "nat \<Rightarrow> sg_worker \<Rightarrow> sg_state \<Rightarrow> sg_state" where
  "set_worker w a s = s\<lparr>swWorkers := (swWorkers s)[w := a]\<rparr>"

definition worker_starts :: "sg_config \<Rightarrow> time \<Rightarrow> nat \<Rightarrow> attempt_job \<Rightarrow> bool \<Rightarrow> time \<Rightarrow> time \<Rightarrow> sg_state \<Rightarrow> sg_state" where
  "worker_starts c start w j cancelled now began s =
     (let give_up = (\<lambda>reason. set_worker w WaitingWorker
        (s\<lparr>swObs := skip_attempts reason 1 (time_sub (jbScheduled j) start) (swObs s)\<rparr>))
      in if cancelled then give_up ''cancelled''
         else if time_sub now (jbScheduled j) > sgMaxLag c then give_up ''worker_lag''
         else set_worker w (CallingAttempt j began) (s\<lparr>swObs := markStart j start (sg_window c) began (swObs s)\<rparr>))"

definition sg_step :: "sg_config \<Rightarrow> time \<Rightarrow> sg_event \<Rightarrow> sg_state \<Rightarrow> sg_state option" where
  "sg_step c start event s =
     (case event of
        ScheduleCancelled \<Rightarrow>
          if swPhase s = Scheduling \<and> int (swNext s) < sgTotal c then Some (s\<lparr>swPhase := ScheduleEnded\<rparr>) else None
      | ScheduleAt now \<Rightarrow>
          if swPhase s = Scheduling \<and> int (swNext s) < sgTotal c then Some (schedule_turn c start now s) else None
      | OfferNext \<Rightarrow> (case swPhase s of Offering choices \<Rightarrow> Some (offer_next c start choices s) | _ \<Rightarrow> None)
      | WorkerTakes w \<Rightarrow>
          if w < length (swWorkers s) \<and> swWorkers s ! w = WaitingWorker \<and> swQueue s \<noteq> []
          then Some (set_worker w (TakenAttempt (hd (swQueue s))) (s\<lparr>swQueue := tl (swQueue s)\<rparr>)) else None
      | WorkerStarts w cancelled now began \<Rightarrow>
          if w < length (swWorkers s) then
            (case swWorkers s ! w of TakenAttempt j \<Rightarrow> Some (worker_starts c start w j cancelled now began s) | _ \<Rightarrow> None)
          else None
      | WorkerReturns w answer finished \<Rightarrow>
          if w < length (swWorkers s) then
            (case swWorkers s ! w of
               CallingAttempt j began \<Rightarrow>
                 Some (set_worker w WaitingWorker (s\<lparr>swObs := observe_answer j answer began finished start (swObs s)\<rparr>))
             | _ \<Rightarrow> None)
          else None)"

fun sg_run :: "sg_config \<Rightarrow> time \<Rightarrow> sg_event list \<Rightarrow> sg_state \<Rightarrow> sg_state option" where
  "sg_run c start [] s = Some s"
| "sg_run c start (e # es) s = (case sg_step c start e s of None \<Rightarrow> None | Some t \<Rightarrow> sg_run c start es t)"

text \<open>The workload is over: the scheduler has returned, and the workers have emptied the queue.\<close>

definition sg_over :: "sg_config \<Rightarrow> sg_state \<Rightarrow> bool" where
  "sg_over c s \<longleftrightarrow> (swPhase s = ScheduleEnded \<or> swPhase s = Scheduling \<and> int (swNext s) \<ge> sgTotal c) \<and>
     swQueue s = [] \<and> list_all (\<lambda>w. w = WaitingWorker) (swWorkers s)"

section \<open>The report\<close>

record latency_summary =
  slCount :: nat
  slP50 :: duration
  slP95 :: duration
  slP99 :: duration
  slMax :: duration

definition exact_quantile :: "duration list \<Rightarrow> nat \<Rightarrow> duration" where
  "exact_quantile ordered percent = ordered ! ((length ordered * percent + 99) div 100 - 1)"

definition sg_latency :: "duration list \<Rightarrow> latency_summary" where
  "sg_latency ds =
     (if ds = [] then \<lparr>slCount = 0, slP50 = 0, slP95 = 0, slP99 = 0, slMax = 0\<rparr>
      else let ordered = sort ds in
        \<lparr>slCount = length ds, slP50 = exact_quantile ordered 50, slP95 = exact_quantile ordered 95, slP99 = exact_quantile ordered 99,
         slMax = ordered ! (length ordered - 1)\<rparr>)"

record confirmation_thresholds =
  ctConfirmed :: int
  ctWithout :: int
  ctAfter100 :: int
  ctAfter250 :: int
  ctAfter500 :: int
  ctAfter1000 :: int

definition count_threshold :: "duration \<Rightarrow> confirmation_thresholds \<Rightarrow> confirmation_thresholds" where
  "count_threshold d t =
     (let t = (if d > 100 * millisecond then t\<lparr>ctAfter100 := ctAfter100 t + 1\<rparr> else t);
          t = (if d > 250 * millisecond then t\<lparr>ctAfter250 := ctAfter250 t + 1\<rparr> else t);
          t = (if d > 500 * millisecond then t\<lparr>ctAfter500 := ctAfter500 t + 1\<rparr> else t)
      in if d > second then t\<lparr>ctAfter1000 := ctAfter1000 t + 1\<rparr> else t)"

definition thresholds :: "duration list \<Rightarrow> int \<Rightarrow> confirmation_thresholds" where
  "thresholds ds planned = fold count_threshold ds
     \<lparr>ctConfirmed = int (length ds), ctWithout = planned - int (length ds), ctAfter100 = 0, ctAfter250 = 0, ctAfter500 = 0, ctAfter1000 = 0\<rparr>"

record sg_report =
  srLogicalPlanned :: int
  srLogicalScheduled :: int
  srLogicalSent :: int
  srLogicalNotSent :: int
  srLogicalConfirmed :: int
  srLogicalUnknown :: int
  srAttemptPlanned :: int
  srAttemptQueued :: int
  srAttemptSent :: int
  srAttemptNotScheduled :: int
  srAttemptSkipped :: int
  srSkipped :: "(string \<times> int) list"
  srOutcomes :: "(string \<times> int) list"
  srInvalidReceipts :: int
  srDuringWindow :: int
  srInterrupted :: bool
  srLag :: latency_summary
  srLatency :: latency_summary
  srEndToEnd :: latency_summary
  srConfirmation :: latency_summary
  srThresholds :: confirmation_thresholds
  srSeconds :: "timeline_bucket list"

definition confirmed_keys :: "key_state list \<Rightarrow> (nat \<times> key_state) list" where
  "confirmed_keys ks = filter (\<lambda>(i, k). ksHasConfirmation k) (enumerate 0 ks)"

text \<open>The seconds up to the last one, numbered; a confirmation later than that stays outside of them.\<close>

definition numbered_seconds :: "observations \<Rightarrow> timeline_bucket list" where
  "numbered_seconds m =
     map (\<lambda>(i, b). if i \<le> obLastSecond m then b\<lparr>skSecond := int i, skOverflow := i = timelineSeconds - 1\<rparr> else b) (enumerate 0 (obSeconds m))"

definition confirm_second :: "sg_config \<Rightarrow> nat \<times> key_state \<Rightarrow> timeline_bucket list \<Rightarrow> timeline_bucket list" where
  "confirm_second c ik bs =
     (let (i, k) = ik; s = secondIndex (sg_offset (int i) (sgRate c) + ksFirstConfirmation k); b = bs ! s in
      bs[s := b\<lparr>skFirstConfirmations := skFirstConfirmations b + 1\<rparr>])"

definition sg_report_of :: "sg_config \<Rightarrow> bool \<Rightarrow> observations \<Rightarrow> sg_report" where
  "sg_report_of c interrupted m =
     (let confirmed = confirmed_keys (obKeys m);
          confirmation = map (\<lambda>(i, k). ksFirstConfirmation k) confirmed;
          seconds = fold (confirm_second c) confirmed (numbered_seconds m);
          sent = int (length (filter (\<lambda>k. ksSentChoices k \<noteq> 0) (obKeys m)))
      in \<lparr>srLogicalPlanned = sgTotal c, srLogicalScheduled = obScheduled m, srLogicalSent = sent, srLogicalNotSent = sgTotal c - sent,
          srLogicalConfirmed = int (length (filter (\<lambda>k. ksConfirmedChoices k \<noteq> 0) (obKeys m))),
          srLogicalUnknown = int (length (filter (\<lambda>k. ksConfirmedChoices k = 0 \<and> ksUnknown k) (obKeys m))),
          srAttemptPlanned = attemptsInRange 0 (sgTotal c) (sgRepeatEvery c), srAttemptQueued = obQueued m, srAttemptSent = obSent m,
          srAttemptNotScheduled = attemptsInRange (obScheduled m) (sgTotal c) (sgRepeatEvery c), srAttemptSkipped = summed (obSkips m),
          srSkipped = obSkips m, srOutcomes = obOutcomes m, srInvalidReceipts = obInvalidReceipts m, srDuringWindow = obDuringWindow m,
          srInterrupted = interrupted, srLag = sg_latency (obLag m), srLatency = sg_latency (obElapsed m),
          srEndToEnd = sg_latency (obFromSchedule m), srConfirmation = sg_latency confirmation,
          srThresholds = thresholds confirmation (sgTotal c), srSeconds = take (obLastSecond m + 1) seconds\<rparr>)"

text \<open>
  \<^verbatim>\<open>runWorkload\<close>, along the events of one run: the observations at its end and the report, or \<open>None\<close> when the
  events are not those of a whole run.
\<close>

definition storage_runWorkload :: "sg_config \<Rightarrow> time \<Rightarrow> sg_event list \<Rightarrow> bool \<Rightarrow> observations \<Rightarrow> (observations \<times> sg_report) option" where
  "storage_runWorkload c start events interrupted m =
     (case sg_run c start events (sg_initial c m) of
        None \<Rightarrow> None
      | Some s \<Rightarrow> if sg_over c s then Some (swObs s, sg_report_of c interrupted (swObs s)) else None)"

end
