(* ===== verification/Storagebench_Audit.thy ===== *)
theory Storagebench_Audit
  imports Storagebench Http_Server
begin

text \<open>
  The audit of the database benchmark (\<^verbatim>\<open>cmd/storagebench/audit.go\<close>): the private ledger of the keys of a run, and the
  reconciliation of every key with the rows of its poll and with the final result.

  What the database answers is a record of the answers to the queries of the transaction, in the code's order. The ledger directory is a map from
  paths to bytes; JSON is a parameter (\<open>marshal\<close>, \<open>unmarshal\<close>).
\<close>

section \<open>The ledger\<close>

record key_ledger =
  klVersion :: int
  klSchema :: string
  klPollID :: string
  klMode :: string
  klPollEndsAt :: time
  klKeys :: "key_state list"

definition sg_maximumLedgerBytes :: int where "sg_maximumLedgerBytes = 128 * 1024 * 1024"

definition lower_text :: "string \<Rightarrow> bool" where
  "lower_text s \<longleftrightarrow> map to_lower s = s"

definition validSchema :: "string \<Rightarrow> bool" where
  "validSchema name \<longleftrightarrow> \<not> (length name \<noteq> 24 \<or> \<not> has_prefix name ''gqbench_'') \<and> hex_decode (drop 8 name) \<noteq> None \<and> lower_text name"

datatype sg_ledger_error = InvalidLedger | InvalidPoll | InvalidKeyState | InvalidKey
  | LedgerDirectory | LedgerExists | LedgerWrite | LedgerUnreadable | LedgerNotRegular | LedgerSyntax | LedgerTrailing

definition poll_id_bad :: "string \<Rightarrow> bool" where
  "poll_id_bad s \<longleftrightarrow> length s \<noteq> 36 \<or> s ! 8 \<noteq> CHR ''-'' \<or> s ! 13 \<noteq> CHR ''-'' \<or> s ! 18 \<noteq> CHR ''-'' \<or> s ! 23 \<noteq> CHR ''-''"

definition key_state_bad :: "string list \<Rightarrow> key_state \<Rightarrow> bool" where
  "key_state_bad seen k \<longleftrightarrow>
     length (ksToken k) \<noteq> 32 \<or> \<not> lower_text (ksToken k) \<or> ksToken k \<in> set seen \<or> ksSentChoices k > 3 \<or> ksConfirmedChoices k > 3 \<or>
     ksReceiptChoices k > 3 \<or> ksAccepted k < 0 \<or> ksAccepted k > 2"

fun validate_keys :: "string list \<Rightarrow> key_state list \<Rightarrow> sg_ledger_error option" where
  "validate_keys seen [] = None"
| "validate_keys seen (k # ks) =
     (if key_state_bad seen k then Some InvalidKeyState
      else if hex_decode (ksToken k) = None then Some InvalidKey
      else validate_keys (ksToken k # seen) ks)"

text \<open>\<^verbatim>\<open>strings.ReplaceAll(token, "-", "")\<close>\<close>

definition bare_token :: "string \<Rightarrow> string" where
  "bare_token = filter (\<lambda>ch. ch \<noteq> CHR ''-'')"

definition validateLedger :: "key_ledger \<Rightarrow> sg_ledger_error option" where
  "validateLedger l =
     (if klVersion l \<noteq> 1 \<or> \<not> validSchema (klSchema l) \<or> length (klKeys l) < 1 \<or> int (length (klKeys l)) > maximumKeys \<or>
        (klMode l \<noteq> ''vote'' \<and> klMode l \<noteq> ''blind'') then Some InvalidLedger
      else if poll_id_bad (klPollID l) then Some InvalidPoll
      else if hex_decode (bare_token (klPollID l)) = None then Some InvalidPoll
      else validate_keys [] (klKeys l))"

text \<open>
  \<^verbatim>\<open>saveLedger\<close>: \<open>created\<close> is whether the directory is there, \<open>written\<close> whether the file is written, synchronized and
  closed; a file of that name is not replaced (\<^verbatim>\<open>O_EXCL\<close>), and what a failed write left is removed.
\<close>

record file_env =
  feDirectory :: bool
  feOpened :: bool
  feWritten :: bool

type_synonym sg_files = "string \<rightharpoonup> byte list"

definition sg_ledger_path :: "string \<Rightarrow> key_ledger \<Rightarrow> string" where
  "sg_ledger_path path l = (if path = [] then ''.local/storagebench/'' @ klSchema l @ ''.json'' else path)"

definition sg_saveLedger ::
  "(key_ledger \<Rightarrow> byte list) \<Rightarrow> file_env \<Rightarrow> string \<Rightarrow> key_ledger \<Rightarrow> sg_files \<Rightarrow> (sg_ledger_error + string) \<times> sg_files" where
  "sg_saveLedger marshal env path l files =
     (case validateLedger l of
        Some e \<Rightarrow> (Inl e, files)
      | None \<Rightarrow>
          let path = sg_ledger_path path l in
          if \<not> feDirectory env then (Inl LedgerDirectory, files)
          else if files path \<noteq> None \<or> \<not> feOpened env then (Inl LedgerExists, files)
          else if \<not> feWritten env then (Inl LedgerWrite, files(path := None))
          else (Inr path, files(path \<mapsto> marshal l)))"

text \<open>\<open>unmarshal\<close> gives the first value and whether the text ends after it.\<close>

definition sg_readLedger ::
  "(byte list \<Rightarrow> (key_ledger \<times> bool) option) \<Rightarrow> (string \<Rightarrow> bool) \<Rightarrow> sg_files \<Rightarrow> string \<Rightarrow> sg_ledger_error + key_ledger" where
  "sg_readLedger unmarshal regular files path =
     (case files path of
        None \<Rightarrow> Inl LedgerUnreadable
      | Some b \<Rightarrow>
          if \<not> regular path \<or> int (length b) > sg_maximumLedgerBytes then Inl LedgerNotRegular
          else case unmarshal b of
            None \<Rightarrow> Inl LedgerSyntax
          | Some (l, ended) \<Rightarrow>
              if \<not> ended then Inl LedgerTrailing
              else (case validateLedger l of Some e \<Rightarrow> Inl e | None \<Rightarrow> Inr l))"

section \<open>The reconciliation\<close>

type_synonym sql_vote = "string \<times> 32 word list"

record sg_audit =
  saStable :: bool
  saCorrect :: bool
  saRows :: int
  saFinalResultRows :: int
  saFinalChoiceCounts :: "(int \<times> int) list"
  saScannedRows :: int
  saUnexpectedRows :: int
  saUnsentRows :: int
  saContentMismatches :: int
  saConfirmedMissing :: int
  saSentAbsent :: int
  saUnconfirmedPersisted :: int
  saUnknownPersisted :: int
  saUnknownAbsent :: int
  saMultipleAccepted :: int
  saAggregateMatches :: bool

definition empty_sg_audit :: sg_audit where
  "empty_sg_audit = \<lparr>saStable = False, saCorrect = False, saRows = 0, saFinalResultRows = 0, saFinalChoiceCounts = [], saScannedRows = 0,
     saUnexpectedRows = 0, saUnsentRows = 0, saContentMismatches = 0, saConfirmedMissing = 0, saSentAbsent = 0, saUnconfirmedPersisted = 0,
     saUnknownPersisted = 0, saUnknownAbsent = 0, saMultipleAccepted = 0, saAggregateMatches = False\<rparr>"

text \<open>
  What the database answers in the one transaction: whether the poll is final, the number of its votes, the rows of
  the query under its limit (\<open>None\<close> for a query or a row that fails), an error after the rows, the final result with its encoded
  options, and the commit.
\<close>

record 'c audit_tx =
  axBegun :: bool
  axStable :: "bool option"
  axCount :: "int option"
  axRows :: "int \<Rightarrow> sql_vote option list option"
  axRowsError :: bool
  axResult :: "(int \<times> 'c) option"
  axCommitted :: bool

definition key_index :: "key_state list \<Rightarrow> string \<Rightarrow> nat option" where
  "key_index ks = fold (\<lambda>(i, k) index. index(ksToken k \<mapsto> i)) (enumerate 0 ks) Map.empty"

definition row_mask :: "32 word list \<Rightarrow> u8" where
  "row_mask choices = choiceMask (map sint choices)"

definition row_content_bad :: "key_state \<Rightarrow> u8 \<Rightarrow> bool" where
  "row_content_bad k m \<longleftrightarrow>
     m = 0 \<or> ksSentChoices k AND m = 0 \<or> (ksConfirmedChoices k \<noteq> 0 \<and> ksConfirmedChoices k \<noteq> m) \<or>
     (ksReceiptChoices k \<noteq> 0 \<and> ksReceiptChoices k \<noteq> m)"

type_synonym row_scan = "sg_audit \<times> bool list \<times> (int \<times> int) list"

definition scan_key :: "key_state \<Rightarrow> bool \<Rightarrow> 32 word list \<Rightarrow> sg_audit \<Rightarrow> sg_audit" where
  "scan_key k found choices a =
     (let a = (if found then a\<lparr>saContentMismatches := saContentMismatches a + 1\<rparr> else a);
          a = (if ksSentChoices k = 0 then a\<lparr>saUnsentRows := saUnsentRows a + 1\<rparr> else a);
          a = (if row_content_bad k (row_mask choices) then a\<lparr>saContentMismatches := saContentMismatches a + 1\<rparr> else a)
      in if ksConfirmedChoices k = 0 then
           let a = a\<lparr>saUnconfirmedPersisted := saUnconfirmedPersisted a + 1\<rparr> in
           if ksUnknown k then a\<lparr>saUnknownPersisted := saUnknownPersisted a + 1\<rparr> else a
         else a)"

definition scan_vote :: "key_state list \<Rightarrow> (string \<Rightarrow> nat option) \<Rightarrow> sql_vote \<Rightarrow> row_scan \<Rightarrow> row_scan" where
  "scan_vote ks index row st =
     (let (token, choices) = row; (a, found, counts) = st;
          a = a\<lparr>saScannedRows := saScannedRows a + 1\<rparr>;
          counts = fold (\<lambda>ch. bump (sint ch) 1) choices counts
      in case index (bare_token token) of
           None \<Rightarrow> (a\<lparr>saUnexpectedRows := saUnexpectedRows a + 1\<rparr>, found, counts)
         | Some i \<Rightarrow> (scan_key (ks ! i) (found ! i) choices a, found[i := True], counts))"

fun scan_votes :: "key_state list \<Rightarrow> (string \<Rightarrow> nat option) \<Rightarrow> sql_vote option list \<Rightarrow> row_scan \<Rightarrow> row_scan option" where
  "scan_votes ks index [] st = Some st"
| "scan_votes ks index (None # rows) st = None"
| "scan_votes ks index (Some row # rows) st = scan_votes ks index rows (scan_vote ks index row st)"

definition absent_key :: "key_state \<times> bool \<Rightarrow> sg_audit \<Rightarrow> sg_audit" where
  "absent_key kf a =
     (let (k, found) = kf;
          a = (if ksAccepted k > 1 then a\<lparr>saMultipleAccepted := saMultipleAccepted a + 1\<rparr> else a)
      in if found then a
         else
           let a = (if ksSentChoices k \<noteq> 0 then a\<lparr>saSentAbsent := saSentAbsent a + 1\<rparr> else a);
               a = (if ksConfirmedChoices k \<noteq> 0 then a\<lparr>saConfirmedMissing := saConfirmedMissing a + 1\<rparr> else a)
           in if ksUnknown k \<and> ksConfirmedChoices k = 0 then a\<lparr>saUnknownAbsent := saUnknownAbsent a + 1\<rparr> else a)"

text \<open>\<^verbatim>\<open>m[k] = n\<close>\<close>

fun assign :: "'a \<Rightarrow> 'b \<Rightarrow> ('a \<times> 'b) list \<Rightarrow> ('a \<times> 'b) list" where
  "assign k v [] = [(k, v)]"
| "assign k v ((a, b) # m) = (if a = k then (a, v) # m else (a, b) # assign k v m)"

fun check_options :: "(int \<times> int) list \<Rightarrow> (int \<times> int) list \<Rightarrow> sg_audit \<Rightarrow> sg_audit \<times> (int \<times> int) list" where
  "check_options [] counts a = (a, counts)"
| "check_options ((opt, votes) # rest) counts a =
     (let a = a\<lparr>saFinalChoiceCounts := assign opt votes (saFinalChoiceCounts a)\<rparr>;
          a = (if count_at opt counts \<noteq> votes then a\<lparr>saAggregateMatches := False\<rparr> else a)
      in check_options rest (filter (\<lambda>(k, n). k \<noteq> opt) counts) a)"

definition check_aggregate :: "int \<Rightarrow> (int \<times> int) list \<Rightarrow> (int \<times> int) list \<Rightarrow> sg_audit \<Rightarrow> sg_audit" where
  "check_aggregate final_total options counts a =
     (let a = a\<lparr>saFinalResultRows := final_total, saAggregateMatches := saRows a = final_total \<and> saScannedRows a = saRows a\<rparr>;
          (a, counts) = check_options options counts a
      in if \<exists>(k, n) \<in> set counts. n \<noteq> 0 then a\<lparr>saAggregateMatches := False\<rparr> else a)"

definition audit_correct :: "sg_audit \<Rightarrow> bool" where
  "audit_correct a \<longleftrightarrow> saStable a \<and> saUnexpectedRows a = 0 \<and> saUnsentRows a = 0 \<and> saContentMismatches a = 0 \<and> saConfirmedMissing a = 0 \<and>
     saMultipleAccepted a = 0 \<and> saAggregateMatches a"

definition storage_reconcile :: "('c \<Rightarrow> (int \<times> int) list option) \<Rightarrow> 'c audit_tx \<Rightarrow> key_ledger \<Rightarrow> sg_audit option" where
  "storage_reconcile unmarshal_options tx l =
     (if \<not> axBegun tx then None
      else case (axStable tx, axCount tx, axRows tx (int (length (klKeys l)) + 1)) of
        (Some is_final, Some rows, Some answers) \<Rightarrow>
          (case scan_votes (klKeys l) (key_index (klKeys l)) answers
              (empty_sg_audit\<lparr>saStable := is_final, saRows := rows\<rparr>, replicate (length (klKeys l)) False, []) of
             None \<Rightarrow> None
           | Some (a, found, counts) \<Rightarrow>
               if axRowsError tx then None
               else
                 let a = (if saRows a > saScannedRows a then a\<lparr>saUnexpectedRows := saUnexpectedRows a + (saRows a - saScannedRows a)\<rparr> else a);
                     a = fold absent_key (zip (klKeys l) found) a
                 in case (if is_final then
                        (case axResult tx of
                           None \<Rightarrow> None
                         | Some (final_total, encoded) \<Rightarrow>
                             map_option (\<lambda>options. check_aggregate final_total options counts a) (unmarshal_options encoded))
                      else Some a) of
                      None \<Rightarrow> None
                    | Some a \<Rightarrow> if axCommitted tx then Some (a\<lparr>saCorrect := audit_correct a\<rparr>) else None)
      | _ \<Rightarrow> None)"

section \<open>The proof of the final audit\<close>

text \<open>\<open>result\<close> is the answer of \<^verbatim>\<open>Results\<close>, \<open>durable\<close> that of \<^verbatim>\<open>WaitDurable\<close>.\<close>

definition proveFinalAudit :: "poll_results repo_answer \<Rightarrow> bool \<Rightarrow> sg_audit \<Rightarrow> bool" where
  "proveFinalAudit result durable a =
     (case result of
        Answer r \<Rightarrow>
          if prState r \<noteq> ''final'' \<or> prTotalVotes r \<noteq> saRows a \<or> length (prOptions r) \<noteq> length (saFinalChoiceCounts a) then False
          else if list_all (\<lambda>(opt, label, votes). count_at opt (saFinalChoiceCounts a) = votes) (prOptions r) then durable else False
      | _ \<Rightarrow> False)"

end
