(* ===== verification/Storagebench_Execute.thy ===== *)
theory Storagebench_Execute
  imports Storagebench_Audit Pg_Durability
begin

text \<open>
  The run of the database benchmark (\<^verbatim>\<open>cmd/storagebench/database.go\<close>, and \<^verbatim>\<open>auditOnly\<close> of \<^verbatim>\<open>audit.go\<close>): the setup of an isolated schema,
  the workload, the measurements around it, the wait for the final result, the audit, and the cleanup.

  What the database, the repository and the file system answer to each call is a field of an environment, in the order of the calls; the
  repository's functions themselves are modelled in \<open>Pg_Store\<close> and \<open>Pg_Durability\<close>. The texts about method and limits in the report are left out.
\<close>

section \<open>Connections\<close>

text \<open>
  \<^verbatim>\<open>pinSchema\<close>: \<open>parse\<close> is whether \<^verbatim>\<open>pgx.ParseConfig\<close> accepts the address, \<open>with_path\<close> the URL with its query parameter replaced.
\<close>

definition pinSchema :: "(string \<Rightarrow> bool) \<Rightarrow> (string \<Rightarrow> string \<Rightarrow> string option) \<Rightarrow> string \<Rightarrow> string \<Rightarrow> string option" where
  "pinSchema parse with_path dsn schema =
     (if \<not> validSchema schema then None
      else if \<not> parse dsn then None
      else let path = schema @ '',pg_catalog'' in
        if has_prefix dsn ''postgres://'' \<or> has_prefix dsn ''postgresql://'' then with_path dsn path
        else Some (dsn @ '' search_path='' @ [CHR 0x27] @ path @ [CHR 0x27]))"

record database_info =
  diVersion :: string
  diCommit :: string
  diStandbys :: string
  diFsync :: string
  diFullPages :: string
  diRecovery :: bool

section \<open>The wait for the final result\<close>

text \<open>One turn of the loop: whether the context ended, what \<^verbatim>\<open>Get\<close> answers, the time, and whether \<^verbatim>\<open>FinalizeDue\<close> succeeds.\<close>

record final_tick =
  fkEnded :: bool
  fkPoll :: "poll repo_answer"
  fkNow :: time
  fkFinalized :: bool

text \<open>Whether the loop ended with the final poll; \<open>None\<close> when these turns do not end it.\<close>

fun waitForFinal :: "final_tick list \<Rightarrow> bool option" where
  "waitForFinal [] = None"
| "waitForFinal (t # ts) =
     (if fkEnded t then Some False
      else case fkPoll t of
        Answer p \<Rightarrow>
          if pollFinalizedAt p \<noteq> None then Some True
          else if \<not> fkNow t < pollEndsAt p \<and> \<not> fkFinalized t then Some False
          else waitForFinal ts
      | _ \<Rightarrow> Some False)"

section \<open>The lean control\<close>

text \<open>
  \<^verbatim>\<open>bench_blind_vote\<close>, under its lock: the row of the poll, the clock, and whether the insertion violates no key. An exception is \<open>None\<close>;
  otherwise the answer, and whether a row was inserted.
\<close>

definition bench_blind_vote :: "poll option \<Rightarrow> time \<Rightarrow> bool \<Rightarrow> (string \<times> time option \<times> bool) option" where
  "bench_blind_vote config admitted insert_ok =
     (case config of
        None \<Rightarrow> None
      | Some p \<Rightarrow>
          if pollFinalizedAt p \<noteq> None \<or> admitted \<ge> pollEndsAt p then Some (''closed'', None, False)
          else if admitted < pollStartsAt p then Some (''not_open'', None, False)
          else if insert_ok then Some (''accepted'', Some admitted, True) else None)"

definition blindVote ::
  "(string \<Rightarrow> 'u option) \<Rightarrow> ('u \<Rightarrow> 'u \<Rightarrow> 32 word \<Rightarrow> (string \<times> time option) option) \<Rightarrow> bool \<Rightarrow> string \<Rightarrow> string \<Rightarrow> int list \<Rightarrow> receipt option" where
  "blindVote parse query durable poll_id token choices =
     (case (parse poll_id, parse token) of
        (Some pid, Some tid) \<Rightarrow>
          (case query pid tid (word_of_int (choices ! 0)) of
             None \<Rightarrow> None
           | Some (status, accepted) \<Rightarrow>
               if status = ''accepted'' \<and> \<not> durable then None
               else Some \<lparr>rcStatus = status, rcChoices = choices, rcAcceptedAt = accepted\<rparr>)
      | _ \<Rightarrow> None)"

section \<open>The report of a run\<close>

record sg_outcome =
  soMode :: string
  soSchema :: string
  soPollID :: string
  soDatabase :: "database_info option"
  soWorkload :: "sg_report option"
  soWALBefore :: "(string \<times> string) option"
  soWALDrain :: "(string \<times> string) option"
  soWALAfter :: "(string \<times> string) option"
  soBytesDrain :: int
  soBytesMarker :: int
  soMarkerDurable :: bool
  soSizesBefore :: "(int \<times> int) option"
  soSizesDrain :: "(int \<times> int) option"
  soSizesFinal :: "(int \<times> int) option"
  soVoteDeltaDrain :: int
  soVoteDeltaFinal :: int
  soAudit :: "sg_audit option"
  soDurabilityChecked :: bool
  soLedgerFile :: string
  soCleanup :: string
  soErrors :: "string list"

definition empty_outcome :: "string \<Rightarrow> sg_outcome" where
  "empty_outcome mode = \<lparr>soMode = mode, soSchema = [], soPollID = [], soDatabase = None, soWorkload = None, soWALBefore = None, soWALDrain = None,
     soWALAfter = None, soBytesDrain = 0, soBytesMarker = 0, soMarkerDurable = False, soSizesBefore = None, soSizesDrain = None,
     soSizesFinal = None, soVoteDeltaDrain = 0, soVoteDeltaFinal = 0, soAudit = None, soDurabilityChecked = False, soLedgerFile = [],
     soCleanup = [], soErrors = []\<rparr>"

definition failing :: "string \<Rightarrow> sg_outcome \<Rightarrow> sg_outcome" where
  "failing e r = r\<lparr>soErrors := soErrors r @ [e]\<rparr>"

definition failing_unless :: "bool \<Rightarrow> string \<Rightarrow> sg_outcome \<Rightarrow> sg_outcome" where
  "failing_unless ok e r = (if ok then r else failing e r)"

record 'c sg_env =
  seNonce :: "byte list option"
  seDSN :: string
  seParse :: "string \<Rightarrow> bool"
  seWithPath :: "string \<Rightarrow> string \<Rightarrow> string option"
  seConnected :: bool
  seInfo :: "database_info option"
  seSchemaCreated :: bool
  seStore :: "durability_options \<Rightarrow> bool"
  seMigrated :: bool
  seMarkerTable :: bool
  seRaws :: "byte list option list"
  seBlindFunction :: bool
  seBlindPool :: bool
  sePing :: bool
  seWarm :: bool
  seCreated :: "poll repo_answer"
  seMarkerBefore :: bool
  seDurableBefore :: bool
  seWALBefore :: "(string \<times> string) option"
  seSizesBefore :: "(int \<times> int) option"
  seStart :: time
  seEvents :: "sg_event list"
  seInterrupted :: bool
  seSaved :: file_env
  seWALDrain :: "(string \<times> string) option"
  seDeltaDrain :: "int option"
  seSizesDrain :: "(int \<times> int) option"
  seMarkerAfter :: bool
  seDurableAfter :: bool
  seWALAfter :: "(string \<times> string) option"
  seDeltaAfter :: "int option"
  seFinal :: "final_tick list"
  seAudit :: "'c audit_tx"
  seResults :: "poll_results repo_answer"
  seResultsDurable :: bool
  seSizesFinal :: "(int \<times> int) option"
  seSavedLate :: file_env
  seDropped :: bool

definition sg_durability :: "sg_config \<Rightarrow> durability_options" where
  "sg_durability c = \<lparr>doRequired = sgRequiredStandbys c,
     doNames = (if sgRequiredStandbys c > 0 then map trim_space (split_byte CHR '','' (sgStandbyNames c)) else [])\<rparr>"

section \<open>The setup\<close>

text \<open>Everything between the creation of the schema and the workload; the fresh observations and the poll when all of it succeeds.\<close>

definition storage_setup :: "'c sg_env \<Rightarrow> sg_config \<Rightarrow> sg_outcome \<Rightarrow> sg_outcome \<times> (observations \<times> poll) option" where
  "storage_setup env c r =
     (if \<not> seStore env (sg_durability c) then (failing ''repository_or_durability_configuration_failed_details_suppressed'' r, None)
      else if \<not> seMigrated env then (failing ''isolated_migration_failed_details_suppressed'' r, None)
      else if \<not> seMarkerTable env then (failing ''marker_setup_failed'' r, None)
      else case newObservations (seRaws env) of
        None \<Rightarrow> (failing ''key_generation_failed'' r, None)
      | Some m \<Rightarrow>
          if sgMode c = ''blind'' \<and> \<not> seBlindFunction env then (failing ''control_function_setup_failed'' r, None)
          else if sgMode c = ''blind'' \<and> \<not> seBlindPool env then (failing ''control_pool_setup_failed'' r, None)
          else if \<not> sePing env then (failing ''repository_warmup_failed'' r, None)
          else if sgWarmConnections c \<and> \<not> seWarm env then (failing ''all_repository_connections_warmup_failed'' r, None)
          else case seCreated env of
            Answer p \<Rightarrow>
              let r = r\<lparr>soPollID := pollID p\<rparr> in
              if \<not> seMarkerBefore env then (failing ''initial_marker_failed'' r, None)
              else if \<not> seDurableBefore env then (failing ''initial_marker_durability_unconfirmed'' r, None)
              else if seWALBefore env = None then (failing ''initial_wal_snapshot_failed'' r, None)
              else let r = r\<lparr>soWALBefore := seWALBefore env\<rparr> in
                if seSizesBefore env = None then (failing ''initial_relation_sizes_failed'' r, None)
                else (r\<lparr>soSizesBefore := seSizesBefore env\<rparr>, Some (m, p))
          | _ \<Rightarrow> (failing ''test_poll_creation_failed'' r, None))"

section \<open>After the workload\<close>

text \<open>The measurements at the end of the workload: the log, the sizes, and a durable marker.\<close>

definition vote_bytes :: "(int \<times> int) option \<Rightarrow> int" where
  "vote_bytes sizes = (case sizes of None \<Rightarrow> 0 | Some (schema, votes) \<Rightarrow> votes)"

definition measure_log :: "(string \<times> string) option \<Rightarrow> int option \<Rightarrow> string \<Rightarrow> string \<Rightarrow> sg_outcome \<Rightarrow> sg_outcome" where
  "measure_log position delta snapshot_error delta_error r =
     (if position = None then failing snapshot_error r else failing_unless (delta \<noteq> None) delta_error r)"

definition storage_measure :: "'c sg_env \<Rightarrow> sg_outcome \<Rightarrow> sg_outcome" where
  "storage_measure env r =
     (let r = measure_log (seWALDrain env) (seDeltaDrain env) ''drain_wal_snapshot_failed'' ''drain_wal_delta_failed'' r;
          r = r\<lparr>soWALDrain := seWALDrain env, soBytesDrain := (if seWALDrain env = None then 0 else case seDeltaDrain env of None \<Rightarrow> 0 | Some n \<Rightarrow> n)\<rparr>;
          r = (if seSizesDrain env = None then failing ''drain_relation_sizes_failed'' r
            else r\<lparr>soVoteDeltaDrain := vote_bytes (seSizesDrain env) - vote_bytes (seSizesBefore env)\<rparr>);
          r = r\<lparr>soSizesDrain := seSizesDrain env\<rparr>;
          r = (if \<not> seMarkerAfter env then failing ''post_drain_marker_failed'' r
            else if \<not> seDurableAfter env then failing ''post_drain_marker_durability_unconfirmed'' r
            else r\<lparr>soMarkerDurable := True\<rparr>);
          r = measure_log (seWALAfter env) (seDeltaAfter env) ''post_marker_wal_snapshot_failed'' ''post_marker_wal_delta_failed'' r
      in r\<lparr>soWALAfter := seWALAfter env, soBytesMarker := (if seWALAfter env = None then 0 else case seDeltaAfter env of None \<Rightarrow> 0 | Some n \<Rightarrow> n)\<rparr>)"

text \<open>The audit, with the proof that the result it read is durable.\<close>

definition storage_audit ::
  "('c \<Rightarrow> (int \<times> int) list option) \<Rightarrow> 'c audit_tx \<Rightarrow> bool \<Rightarrow> poll_results repo_answer \<Rightarrow> bool \<Rightarrow> string \<Rightarrow> key_ledger \<Rightarrow> sg_outcome \<Rightarrow> sg_outcome" where
  "storage_audit unmarshal_options tx prove results durable proof_error l r =
     (let audit = storage_reconcile unmarshal_options tx l;
          r = r\<lparr>soAudit := audit\<rparr>;
          r = (case audit of
                 None \<Rightarrow> failing ''per_key_reconciliation_unavailable'' r
               | Some a \<Rightarrow> failing_unless (saStable a \<and> saCorrect a) ''reconciliation_not_stable_or_correct'' r)
      in case audit of
           Some a \<Rightarrow>
             if prove \<and> saStable a then
               if proveFinalAudit results durable a then r\<lparr>soDurabilityChecked := True\<rparr> else failing proof_error r
             else r
         | None \<Rightarrow> r)"

definition storage_save ::
  "(key_ledger \<Rightarrow> byte list) \<Rightarrow> file_env \<Rightarrow> string \<Rightarrow> string \<Rightarrow> key_ledger \<Rightarrow> sg_outcome \<times> sg_files \<Rightarrow> sg_outcome \<times> sg_files" where
  "storage_save marshal env path e l rf =
     (let (r, files) = rf in
      case sg_saveLedger marshal env path l files of
        (Inr saved, files) \<Rightarrow> (r\<lparr>soLedgerFile := saved\<rparr>, files)
      | (Inl _, files) \<Rightarrow> (failing e (r\<lparr>soLedgerFile := []\<rparr>), files))"

definition ledger_of :: "sg_config \<Rightarrow> string \<Rightarrow> poll \<Rightarrow> observations \<Rightarrow> key_ledger" where
  "ledger_of c schema p m = \<lparr>klVersion = 1, klSchema = schema, klPollID = pollID p, klMode = sgMode c, klPollEndsAt = pollEndsAt p, klKeys = obKeys m\<rparr>"

definition storage_finish ::
  "('c \<Rightarrow> (int \<times> int) list option) \<Rightarrow> (key_ledger \<Rightarrow> byte list) \<Rightarrow> 'c sg_env \<Rightarrow> sg_config \<Rightarrow> poll \<Rightarrow> observations \<Rightarrow> sg_report \<Rightarrow> sg_outcome
     \<Rightarrow> sg_files \<Rightarrow> (sg_outcome \<times> sg_files) option" where
  "storage_finish unmarshal_options marshal env c p m work r files =
     (let r = failing_unless (srInvalidReceipts work \<le> 0) ''invalid_repository_receipts'' (r\<lparr>soWorkload := Some work\<rparr>);
          l = ledger_of c (soSchema r) p m;
          (r, files) = (if sgKeepSchema c \<or> sgAuditFile c \<noteq> []
            then storage_save marshal (seSaved env) (sgAuditFile c) ''private_key_ledger_write_failed'' l (r, files) else (r, files));
          r = storage_measure env r
      in case waitForFinal (seFinal env) of
           None \<Rightarrow> None
         | Some final \<Rightarrow>
             let r = failing_unless final ''real_close_finalization_not_established'' r;
                 r = storage_audit unmarshal_options (seAudit env) (sgRequiredStandbys c > 0) (seResults env) (seResultsDurable env)
                   ''final_audit_replication_durability_unconfirmed'' l r;
                 r = (if seSizesFinal env = None then failing ''final_relation_sizes_failed'' r
                   else r\<lparr>soVoteDeltaFinal := vote_bytes (seSizesFinal env) - vote_bytes (seSizesBefore env)\<rparr>);
                 r = r\<lparr>soSizesFinal := seSizesFinal env\<rparr>
             in if soErrors r \<noteq> [] \<and> soLedgerFile r = []
                then Some (storage_save marshal (seSavedLate env) [] ''failure_key_ledger_write_failed'' l (r, files))
                else Some (r, files))"

text \<open>The deferred cleanup: a schema with a workload is kept when there was an error.\<close>

definition storage_cleanup :: "'c sg_env \<Rightarrow> sg_config \<Rightarrow> sg_outcome \<Rightarrow> sg_outcome" where
  "storage_cleanup env c r =
     (if sgKeepSchema c \<or> (soWorkload r \<noteq> None \<and> soErrors r \<noteq> []) then r\<lparr>soCleanup := ''retained''\<rparr>
      else if \<not> seDropped env then failing ''schema_cleanup_failed_details_suppressed'' (r\<lparr>soCleanup := ''failed_schema_retained''\<rparr>)
      else r\<lparr>soCleanup := ''dropped''\<rparr>)"

section \<open>The run\<close>

definition storage_run ::
  "('c \<Rightarrow> (int \<times> int) list option) \<Rightarrow> (key_ledger \<Rightarrow> byte list) \<Rightarrow> 'c sg_env \<Rightarrow> sg_config \<Rightarrow> sg_files \<Rightarrow> (sg_outcome \<times> sg_files) option" where
  "storage_run unmarshal_options marshal env c files =
     (let r = empty_outcome (sgMode c) in
      case seNonce env of
        None \<Rightarrow> Some (failing ''schema_name_generation_failed'' r, files)
      | Some nonce \<Rightarrow>
          let r = r\<lparr>soSchema := ''gqbench_'' @ hex_encode nonce\<rparr> in
          if pinSchema (seParse env) (seWithPath env) (seDSN env) (soSchema r) = None
          then Some (failing ''database_configuration_invalid'' r, files)
          else if \<not> seConnected env then Some (failing ''database_connection_failed_details_suppressed'' r, files)
          else let r = r\<lparr>soDatabase := seInfo env\<rparr> in
            if seInfo env = None \<or> diRecovery (the (seInfo env)) then Some (failing ''workload_requires_readable_primary_settings'' r, files)
            else if \<not> seSchemaCreated env then Some (failing ''isolated_schema_creation_failed'' r, files)
            else case storage_setup env c r of
              (r, None) \<Rightarrow> Some (storage_cleanup env c r, files)
            | (r, Some (m, p)) \<Rightarrow>
                (case storage_runWorkload c (seStart env) (seEvents env) (seInterrupted env) m of
                   None \<Rightarrow> None
                 | Some (m, work) \<Rightarrow>
                     (case storage_finish unmarshal_options marshal env c p m work r files of
                        None \<Rightarrow> None
                      | Some (r, files) \<Rightarrow> Some (storage_cleanup env c r, files))))"

text \<open>\<^verbatim>\<open>auditOnly\<close>: the reconciliation of a schema that was kept, from its ledger.\<close>

definition storage_auditOnly ::
  "('c \<Rightarrow> (int \<times> int) list option) \<Rightarrow> (byte list \<Rightarrow> (key_ledger \<times> bool) option) \<Rightarrow> (string \<Rightarrow> bool) \<Rightarrow> 'c sg_env \<Rightarrow> sg_config \<Rightarrow> sg_files \<Rightarrow> sg_outcome" where
  "storage_auditOnly unmarshal_options unmarshal regular env c files =
     (let r = (empty_outcome ''audit-only'')\<lparr>soCleanup := ''not_requested_read_only''\<rparr> in
      case sg_readLedger unmarshal regular files (sgAuditOnly c) of
        Inl e \<Rightarrow> failing ''invalid_or_unreadable_private_ledger'' r
      | Inr l \<Rightarrow>
          let r = r\<lparr>soSchema := klSchema l, soPollID := klPollID l, soLedgerFile := sgAuditOnly c\<rparr> in
          if pinSchema (seParse env) (seWithPath env) (seDSN env) (klSchema l) = None then failing ''database_configuration_invalid'' r
          else if \<not> seConnected env then failing ''audit_connection_failed_details_suppressed'' r
          else if sgRequiredStandbys c > 0 \<and> \<not> seStore env (sg_durability c)
          then failing ''audit_durability_configuration_or_primary_unavailable'' r
          else let r = failing_unless (seInfo env \<noteq> None) ''database_settings_unavailable'' (r\<lparr>soDatabase := seInfo env\<rparr>)
            in storage_audit unmarshal_options (seAudit env) (sgRequiredStandbys c > 0) (seResults env) (seResultsDurable env)
              ''audit_replication_durability_not_established'' l r)"

definition storage_execute ::
  "('c \<Rightarrow> (int \<times> int) list option) \<Rightarrow> (key_ledger \<Rightarrow> byte list) \<Rightarrow> (byte list \<Rightarrow> (key_ledger \<times> bool) option) \<Rightarrow> (string \<Rightarrow> bool) \<Rightarrow> 'c sg_env
     \<Rightarrow> sg_config \<Rightarrow> sg_files \<Rightarrow> (sg_outcome \<times> sg_files) option" where
  "storage_execute unmarshal_options marshal unmarshal regular env c files =
     (if sgAuditOnly c \<noteq> [] then Some (storage_auditOnly unmarshal_options unmarshal regular env c files, files)
      else storage_run unmarshal_options marshal env c files)"

end
