(* ===== verification/Storagebench_Inv.thy ===== *)
theory Storagebench_Inv
  imports Storagebench
begin

text \<open>
  Where the attempts of the database benchmark are: at every moment of a run each attempt of a scheduled key is in the queue, with a worker, sent, skipped,
  or still to be offered, and the counts by second, by reason and by outcome add up to the totals.
\<close>

section \<open>The attempts of a range\<close>

lemma attempts_empty [simp]: "attemptsInRange n n r = 0"
  by (simp add: attemptsInRange_def)

lemma attempts_join: "attemptsInRange a b r + attemptsInRange b d r = attemptsInRange a d r"
  by (simp add: attemptsInRange_def)

lemma attempts_step:
  "0 < n + 1 \<Longrightarrow> attemptsInRange n (n + 1) r = (if 0 < r \<and> (n + 1) mod r = 0 then 2 else 1)"
  by (simp add: attemptsInRange_def div_step)

lemma offered_length: "int (length (offered_choices c n)) = attemptsInRange (int n) (int n + 1) (sgRepeatEvery c)"
  by (simp add: attempts_step offered_choices_def)

lemma attempts_nonneg: "a \<le> b \<Longrightarrow> 0 \<le> attemptsInRange a b r"
  by (auto simp: attemptsInRange_def zdiv_mono1)

section \<open>The seconds\<close>

definition second_total :: "(timeline_bucket \<Rightarrow> int) \<Rightarrow> observations \<Rightarrow> int" where
  "second_total \<phi> m = sum_list (map \<phi> (obSeconds m))"

text \<open>What a measure of the seconds has to satisfy: it ignores the labels of a bucket.\<close>

definition unlabelled :: "(timeline_bucket \<Rightarrow> int) \<Rightarrow> bool" where
  "unlabelled \<phi> \<longleftrightarrow> (\<forall>b i overflow. \<phi> (b\<lparr>skSecond := i, skOverflow := overflow\<rparr>) = \<phi> b)"

lemma in_second_total:
  assumes "length (obSeconds m) = timelineSeconds" and "unlabelled \<phi>" and "\<And>b. \<phi> (change b) = \<phi> b + d"
  shows "second_total \<phi> (in_second e change m) = second_total \<phi> m + d"
  using assms secondIndex_less [of e]
  by (simp add: second_total_def in_second_def Let_def map_update sum_list_update_int unlabelled_def)

lemma in_second_fields [simp]:
  "obKeys (in_second e change m) = obKeys m" "obScheduled (in_second e change m) = obScheduled m"
  "obQueued (in_second e change m) = obQueued m" "obSent (in_second e change m) = obSent m"
  "obDuringWindow (in_second e change m) = obDuringWindow m" "obSkips (in_second e change m) = obSkips m"
  "obOutcomes (in_second e change m) = obOutcomes m" "obInvalidReceipts (in_second e change m) = obInvalidReceipts m"
  "obLag (in_second e change m) = obLag m" "obElapsed (in_second e change m) = obElapsed m"
  "obFromSchedule (in_second e change m) = obFromSchedule m" "length (obSeconds (in_second e change m)) = length (obSeconds m)"
  by (simp_all add: in_second_def Let_def)

lemma second_total_cong: "obSeconds m = obSeconds m' \<Longrightarrow> second_total \<phi> m = second_total \<phi> m'"
  by (simp add: second_total_def)

text \<open>The seconds after the last one are as they were made.\<close>

definition later_empty :: "observations \<Rightarrow> bool" where
  "later_empty m \<longleftrightarrow> length (obSeconds m) = timelineSeconds \<and> (\<forall>i. obLastSecond m < i \<longrightarrow> i < timelineSeconds \<longrightarrow> obSeconds m ! i = empty_second)"

lemma later_empty_in_second: "later_empty m \<Longrightarrow> later_empty (in_second e change m)"
  by (auto simp: later_empty_def in_second_def Let_def nth_list_update)

lemma later_empty_cong: "obSeconds m = obSeconds m' \<Longrightarrow> obLastSecond m = obLastSecond m' \<Longrightarrow> later_empty m = later_empty m'"
  by (simp add: later_empty_def)

section \<open>The visits of a range\<close>

lemma visits_sum:
  assumes "low \<le> high" and "0 < rate"
  shows "sum_list (map (\<lambda>v. fst (snd v)) (eachScheduleSecond rate r low high)) = high - low \<and>
    sum_list (map (\<lambda>v. snd (snd v)) (eachScheduleSecond rate r low high)) = attemptsInRange low high r"
  using assms
proof (induction rate r low high rule: eachScheduleSecond.induct)
  case (1 rate r low high)
  show ?case
  proof (cases "low < high")
    case True
    let ?u = "min high ((low div rate + 1) * rate)"
    have "low < ?u" "?u \<le> high" using True next_second_later [OF 1(3), of low] by simp_all
    then have ih: "sum_list (map (\<lambda>v. fst (snd v)) (eachScheduleSecond rate r ?u high)) = high - ?u \<and>
        sum_list (map (\<lambda>v. snd (snd v)) (eachScheduleSecond rate r ?u high)) = attemptsInRange ?u high r"
      using 1(1) [OF _ refl refl] True 1(3) by blast
    have "eachScheduleSecond rate r low high =
        (low div rate * second, ?u - low, attemptsInRange low ?u r) # eachScheduleSecond rate r ?u high"
      using True 1(3) by (simp add: eachScheduleSecond.simps [of rate r low high] Let_def)
    then show ?thesis using ih attempts_join [of low ?u r high] by simp
  next
    case False
    then have "eachScheduleSecond rate r low high = []" by (subst eachScheduleSecond.simps) simp
    moreover have "low = high" using False 1(2) by simp
    ultimately show ?thesis by simp
  qed
qed

section \<open>The counts agree\<close>

definition skipped_in :: "timeline_bucket \<Rightarrow> int" where
  "skipped_in b = summed (skSkipped b)"

definition counts_agree :: "int \<Rightarrow> observations \<Rightarrow> bool" where
  "counts_agree r m \<longleftrightarrow>
     later_empty m \<and> 0 \<le> obScheduled m \<and>
     second_total skLogicalScheduled m = obScheduled m \<and> second_total skAttemptsScheduled m = attemptsInRange 0 (obScheduled m) r \<and>
     second_total skSent m = obSent m \<and> second_total skipped_in m = summed (obSkips m) \<and>
     second_total skAccepted m = count_at ''accepted'' (obOutcomes m) \<and>
     int (length (obLag m)) = obSent m \<and> length (obElapsed m) = length (obFromSchedule m) \<and> int (length (obElapsed m)) = summed (obOutcomes m) \<and>
     0 \<le> obDuringWindow m \<and> obDuringWindow m \<le> obSent m"

lemma measures [simp]:
  "unlabelled skLogicalScheduled" "unlabelled skAttemptsScheduled" "unlabelled skSent" "unlabelled skipped_in" "unlabelled skAccepted"
  by (simp_all add: unlabelled_def skipped_in_def)

lemma counts_length: "counts_agree r m \<Longrightarrow> length (obSeconds m) = timelineSeconds"
  by (simp add: counts_agree_def later_empty_def)

lemma later_empty_simps [simp]:
  "later_empty (m\<lparr>obScheduled := n\<rparr>) = later_empty m" "later_empty (m\<lparr>obQueued := n\<rparr>) = later_empty m"
  "later_empty (m\<lparr>obSent := n\<rparr>) = later_empty m" "later_empty (m\<lparr>obKeys := ks\<rparr>) = later_empty m"
  "later_empty (m\<lparr>obSkips := sk\<rparr>) = later_empty m" "later_empty (m\<lparr>obOutcomes := sk\<rparr>) = later_empty m"
  "later_empty (m\<lparr>obLag := ds\<rparr>) = later_empty m" "later_empty (m\<lparr>obElapsed := ds\<rparr>) = later_empty m"
  "later_empty (m\<lparr>obFromSchedule := ds\<rparr>) = later_empty m" "later_empty (m\<lparr>obDuringWindow := n\<rparr>) = later_empty m"
  "later_empty (m\<lparr>obInvalidReceipts := n\<rparr>) = later_empty m"
  by (simp_all add: later_empty_def)

lemma second_total_simps [simp]:
  "second_total \<phi> (m\<lparr>obScheduled := n\<rparr>) = second_total \<phi> m" "second_total \<phi> (m\<lparr>obQueued := n\<rparr>) = second_total \<phi> m"
  "second_total \<phi> (m\<lparr>obSent := n\<rparr>) = second_total \<phi> m" "second_total \<phi> (m\<lparr>obKeys := ks\<rparr>) = second_total \<phi> m"
  "second_total \<phi> (m\<lparr>obSkips := sk\<rparr>) = second_total \<phi> m" "second_total \<phi> (m\<lparr>obOutcomes := sk\<rparr>) = second_total \<phi> m"
  "second_total \<phi> (m\<lparr>obLag := ds\<rparr>) = second_total \<phi> m" "second_total \<phi> (m\<lparr>obElapsed := ds\<rparr>) = second_total \<phi> m"
  "second_total \<phi> (m\<lparr>obFromSchedule := ds\<rparr>) = second_total \<phi> m" "second_total \<phi> (m\<lparr>obDuringWindow := n\<rparr>) = second_total \<phi> m"
  "second_total \<phi> (m\<lparr>obInvalidReceipts := n\<rparr>) = second_total \<phi> m"
  by (simp_all add: second_total_def)

lemma schedule_second_any:
  assumes "length (obSeconds m) = timelineSeconds" and "unlabelled \<phi>"
    and "\<And>b. \<phi> (b\<lparr>skLogicalScheduled := skLogicalScheduled b + fst (snd v), skAttemptsScheduled := skAttemptsScheduled b + snd (snd v)\<rparr>) = \<phi> b + d"
  shows "second_total \<phi> (schedule_second v m) = second_total \<phi> m + d"
  unfolding schedule_second_def Let_def case_prod_beta by (rule in_second_total) (use assms in auto)

lemma skip_second_any:
  assumes "length (obSeconds m) = timelineSeconds" and "unlabelled \<phi>"
    and "\<And>b. \<phi> (b\<lparr>skSkipped := bump reason (snd (snd v)) (skSkipped b)\<rparr>) = \<phi> b + d"
  shows "second_total \<phi> (skip_second reason v m) = second_total \<phi> m + d"
  unfolding skip_second_def Let_def case_prod_beta by (rule in_second_total) (use assms in auto)

lemma visit_length:
  "length (obSeconds (schedule_second v m)) = length (obSeconds m) \<and> length (obSeconds (skip_second reason v m)) = length (obSeconds m)"
  by (simp add: schedule_second_def skip_second_def case_prod_beta)

lemma schedule_visits:
  assumes len: "length (obSeconds m) = timelineSeconds" and \<phi>: "unlabelled \<phi>"
    and d: "\<And>b l a. \<phi> (b\<lparr>skLogicalScheduled := skLogicalScheduled b + l, skAttemptsScheduled := skAttemptsScheduled b + a\<rparr>) = \<phi> b + \<psi> l a"
  shows "second_total \<phi> (fold schedule_second vs m) = second_total \<phi> m + sum_list (map (\<lambda>v. \<psi> (fst (snd v)) (snd (snd v))) vs)"
  using len
proof (induction vs arbitrary: m)
  case (Cons v vs)
  have "second_total \<phi> (schedule_second v m) = second_total \<phi> m + \<psi> (fst (snd v)) (snd (snd v))"
    by (rule schedule_second_any) (simp_all add: Cons.prems \<phi> d)
  with Cons.IH [of "schedule_second v m"] Cons.prems visit_length [of v m] show ?case by simp
qed simp

lemma skip_visits:
  assumes len: "length (obSeconds m) = timelineSeconds" and \<phi>: "unlabelled \<phi>"
    and d: "\<And>b a. \<phi> (b\<lparr>skSkipped := bump reason a (skSkipped b)\<rparr>) = \<phi> b + \<psi> a"
  shows "second_total \<phi> (fold (skip_second reason) vs m) = second_total \<phi> m + sum_list (map (\<lambda>v. \<psi> (snd (snd v))) vs)"
  using len
proof (induction vs arbitrary: m)
  case (Cons v vs)
  have "second_total \<phi> (skip_second reason v m) = second_total \<phi> m + \<psi> (snd (snd v))"
    by (rule skip_second_any) (simp_all add: Cons.prems \<phi> d)
  with Cons.IH [of "skip_second reason v m"] Cons.prems visit_length [of v m reason] show ?case by simp
qed simp

text \<open>The fields the visits leave alone.\<close>

definition same_counts :: "observations \<Rightarrow> observations \<Rightarrow> bool" where
  "same_counts a m \<longleftrightarrow>
     obKeys m = obKeys a \<and> obScheduled m = obScheduled a \<and> obQueued m = obQueued a \<and> obSent m = obSent a \<and> obDuringWindow m = obDuringWindow a \<and>
     obSkips m = obSkips a \<and> obOutcomes m = obOutcomes a \<and> obLag m = obLag a \<and> obElapsed m = obElapsed a \<and>
     obFromSchedule m = obFromSchedule a \<and> obInvalidReceipts m = obInvalidReceipts a"

lemma visit_same [simp]:
  "same_counts a (schedule_second v m) = same_counts a m" "same_counts a (skip_second reason v m) = same_counts a m"
  by (simp_all add: same_counts_def schedule_second_def skip_second_def case_prod_beta)

lemma visits_same: "same_counts a m \<Longrightarrow> same_counts a (fold schedule_second vs m) \<and> same_counts a (fold (skip_second reason) vs m)"
  by (induction vs arbitrary: m) simp_all

lemma same_counts_refl: "same_counts m m"
  by (simp add: same_counts_def)

lemma visit_later: "later_empty m \<Longrightarrow> later_empty (schedule_second v m) \<and> later_empty (skip_second reason v m)"
  by (simp add: schedule_second_def skip_second_def case_prod_beta later_empty_in_second)

lemma visits_later: "later_empty m \<Longrightarrow> later_empty (fold schedule_second vs m) \<and> later_empty (fold (skip_second reason) vs m)"
proof (induction vs arbitrary: m)
  case (Cons v vs)
  then show ?case using visit_later [of m v reason] by simp
qed simp

lemma scheduledRange_same:
  "same_counts (m\<lparr>obScheduled := obScheduled m + (high - low)\<rparr>) (scheduledRange c low high m)"
  by (simp add: scheduledRange_def visits_same same_counts_refl)

lemma skipRange_same:
  "same_counts (m\<lparr>obSkips := bump reason (attemptsInRange low high (sgRepeatEvery c)) (obSkips m)\<rparr>) (skipRange c low high reason m)"
  by (simp add: skipRange_def visits_same same_counts_refl)

lemma counts_scheduledRange:
  assumes m: "counts_agree (sgRepeatEvery c) m" and low: "low = obScheduled m" "low \<le> high" and rate: "0 < sgRate c"
  shows "counts_agree (sgRepeatEvery c) (scheduledRange c low high m)"
proof -
  let ?vs = "eachScheduleSecond (sgRate c) (sgRepeatEvery c) low high" and ?m = "m\<lparr>obScheduled := obScheduled m + (high - low)\<rparr>"
  have len: "length (obSeconds ?m) = timelineSeconds" using counts_length [OF m] by simp
  show ?thesis
    using m low visits_sum [OF low(2) rate, of "sgRepeatEvery c"] scheduledRange_same [of m high low c]
      visits_later [of ?m ?vs] attempts_join [of 0 low "sgRepeatEvery c" high]
      schedule_visits [OF len measures(1), of "\<lambda>l a. l" ?vs] schedule_visits [OF len measures(2), of "\<lambda>l a. a" ?vs]
      schedule_visits [OF len measures(3), of "\<lambda>l a. 0" ?vs] schedule_visits [OF len measures(4), of "\<lambda>l a. 0" ?vs]
      schedule_visits [OF len measures(5), of "\<lambda>l a. 0" ?vs]
    by (simp add: counts_agree_def same_counts_def scheduledRange_def skipped_in_def)
qed

lemma counts_skipRange:
  assumes m: "counts_agree (sgRepeatEvery c) m" and range: "low \<le> high" and rate: "0 < sgRate c"
  shows "counts_agree (sgRepeatEvery c) (skipRange c low high reason m)"
proof -
  let ?vs = "eachScheduleSecond (sgRate c) (sgRepeatEvery c) low high"
    and ?m = "m\<lparr>obSkips := bump reason (attemptsInRange low high (sgRepeatEvery c)) (obSkips m)\<rparr>"
  have len: "length (obSeconds ?m) = timelineSeconds" using counts_length [OF m] by simp
  show ?thesis
    using m visits_sum [OF range rate, of "sgRepeatEvery c"] skipRange_same [where m = m and reason = reason and low = low and high = high and c = c] visits_later [of ?m ?vs]
      skip_visits [OF len measures(1), of reason "\<lambda>a. 0" ?vs] skip_visits [OF len measures(2), of reason "\<lambda>a. 0" ?vs]
      skip_visits [OF len measures(3), of reason "\<lambda>a. 0" ?vs] skip_visits [OF len measures(4), of reason "\<lambda>a. a" ?vs]
      skip_visits [OF len measures(5), of reason "\<lambda>a. 0" ?vs]
    by (simp add: counts_agree_def same_counts_def skipRange_def skipped_in_def)
qed

lemma counts_skip:
  assumes "counts_agree r m"
  shows "counts_agree r (skip_attempts reason n e m)"
proof -
  let ?m = "m\<lparr>obSkips := bump reason n (obSkips m)\<rparr>" and ?ch = "\<lambda>b. b\<lparr>skSkipped := bump reason n (skSkipped b)\<rparr>"
  have len: "length (obSeconds ?m) = timelineSeconds" using counts_length [OF assms] by simp
  show ?thesis
    using assms in_second_total [OF len measures(1), of ?ch 0 e] in_second_total [OF len measures(2), of ?ch 0 e]
      in_second_total [OF len measures(3), of ?ch 0 e] in_second_total [OF len measures(4), of ?ch n e]
      in_second_total [OF len measures(5), of ?ch 0 e]
    by (simp add: counts_agree_def skip_attempts_def later_empty_in_second skipped_in_def)
qed

lemma counts_queued: "counts_agree r (m\<lparr>obQueued := n\<rparr>) = counts_agree r m"
  by (simp add: counts_agree_def)

lemma counts_markStart:
  assumes "counts_agree r m"
  shows "counts_agree r (markStart j start window began m)"
proof -
  let ?k = "obKeys m ! jbIndex j" and ?ch = "\<lambda>b. b\<lparr>skSent := skSent b + 1\<rparr>" and ?e = "time_sub began start"
  let ?m = "m\<lparr>obSent := obSent m + 1, obKeys := (obKeys m)[jbIndex j := ?k\<lparr>ksSentChoices := ksSentChoices ?k OR attempt_mask j\<rparr>],
    obLag := obLag m @ [time_sub began (jbScheduled j)]\<rparr>"
  have len: "length (obSeconds ?m) = timelineSeconds" using counts_length [OF assms] by simp
  have "counts_agree r (in_second ?e ?ch ?m)"
    using assms in_second_total [OF len measures(1), of ?ch 0 ?e] in_second_total [OF len measures(2), of ?ch 0 ?e]
      in_second_total [OF len measures(3), of ?ch 1 ?e] in_second_total [OF len measures(4), of ?ch 0 ?e]
      in_second_total [OF len measures(5), of ?ch 0 ?e]
    by (simp add: counts_agree_def later_empty_in_second skipped_in_def)
  moreover from this have "counts_agree r ((in_second ?e ?ch ?m)\<lparr>obDuringWindow := obDuringWindow (in_second ?e ?ch ?m) + 1\<rparr>)"
    using assms by (simp add: counts_agree_def)
  ultimately show ?thesis unfolding markStart_def Let_def by (cases "time_sub began start < window") (simp_all only: if_True if_False)
qed

lemma in_second_unchanged:
  assumes "counts_agree r m"
  shows "counts_agree r (in_second e (\<lambda>b. b\<lparr>skUnknown := skUnknown b + n\<rparr>) m)"
    and "counts_agree r (in_second e (\<lambda>b. b) m)"
proof -
  have len: "length (obSeconds m) = timelineSeconds" using assms by (rule counts_length)
  have any: "counts_agree r (in_second e ch m)" if "\<And>\<phi> b. \<phi> \<in> {skLogicalScheduled, skAttemptsScheduled, skSent, skipped_in, skAccepted} \<Longrightarrow> \<phi> (ch b) = \<phi> b" for ch
    using assms that in_second_total [OF len measures(1), of ch 0 e] in_second_total [OF len measures(2), of ch 0 e]
      in_second_total [OF len measures(3), of ch 0 e] in_second_total [OF len measures(4), of ch 0 e] in_second_total [OF len measures(5), of ch 0 e]
    by (simp add: counts_agree_def later_empty_in_second)
  show "counts_agree r (in_second e (\<lambda>b. b\<lparr>skUnknown := skUnknown b + n\<rparr>) m)" by (rule any) (auto simp: skipped_in_def)
  show "counts_agree r (in_second e (\<lambda>b. b) m)" by (rule any) simp
qed

lemma counts_keys: "counts_agree r (m\<lparr>obKeys := ks\<rparr>) = counts_agree r m" "counts_agree r (m\<lparr>obInvalidReceipts := n\<rparr>) = counts_agree r m"
  by (simp_all add: counts_agree_def)

text \<open>An outcome is counted once, and under \<open>accepted\<close> in the seconds and in the outcomes alike.\<close>

definition counted :: "attempt_job \<Rightarrow> receipt option \<Rightarrow> time \<Rightarrow> time \<Rightarrow> observations \<Rightarrow> observations" where
  "counted j answer began finished m =
     m\<lparr>obElapsed := obElapsed m @ [time_sub finished began], obFromSchedule := obFromSchedule m @ [time_sub finished (jbScheduled j)],
       obOutcomes := bump (observed_status answer) 1 (obOutcomes m)\<rparr>"

lemma counts_counted:
  assumes m: "counts_agree r m"
  shows "observed_status answer \<noteq> ''accepted'' \<Longrightarrow> counts_agree r (in_second e (\<lambda>b. b) (counted j answer began finished m))"
    and "observed_status answer = ''accepted'' \<Longrightarrow>
      counts_agree r (in_second e (\<lambda>b. b\<lparr>skAccepted := skAccepted b + 1\<rparr>) (in_second e (\<lambda>b. b) (counted j answer began finished m)))"
proof -
  let ?m = "counted j answer began finished m"
  have len: "length (obSeconds ?m) = timelineSeconds" using counts_length [OF m] by (simp add: counted_def)
  have totals: "second_total \<phi> (in_second e (\<lambda>b. b) ?m) = second_total \<phi> m" if "unlabelled \<phi>" for \<phi>
    using in_second_total [OF len that, of "\<lambda>b. b" 0 e] by (simp add: counted_def)
  have later: "later_empty (in_second e (\<lambda>b. b) ?m)" using m by (simp add: later_empty_in_second counts_agree_def counted_def)
  show "observed_status answer \<noteq> ''accepted'' \<Longrightarrow> counts_agree r (in_second e (\<lambda>b. b) ?m)"
    using m totals later by (simp add: counts_agree_def counted_def count_at_bump)
  let ?ch = "\<lambda>b. b\<lparr>skAccepted := skAccepted b + 1\<rparr>"
  have len2: "length (obSeconds (in_second e (\<lambda>b. b) ?m)) = timelineSeconds" using len by simp
  show "observed_status answer = ''accepted'' \<Longrightarrow> counts_agree r (in_second e ?ch (in_second e (\<lambda>b. b) ?m))"
    using m totals later_empty_in_second [OF later, of e ?ch]
      in_second_total [OF len2 measures(1), of ?ch 0 e] in_second_total [OF len2 measures(2), of ?ch 0 e]
      in_second_total [OF len2 measures(3), of ?ch 0 e] in_second_total [OF len2 measures(4), of ?ch 0 e]
      in_second_total [OF len2 measures(5), of ?ch 1 e]
    by (simp add: counts_agree_def counted_def count_at_bump skipped_in_def)
qed

text \<open>What an answer changes, told by its status.\<close>

lemma observe_answer_cases:
  obtains (unknown) "observed_status answer \<noteq> ''accepted''"
      "observe_answer j answer began finished start m = in_second (time_sub finished start) (\<lambda>b. b\<lparr>skUnknown := skUnknown b + 1\<rparr>)
        ((in_second (time_sub finished start) (\<lambda>b. b) (counted j answer began finished m))
          \<lparr>obKeys := (obKeys m)[jbIndex j := (obKeys m ! jbIndex j)\<lparr>ksUnknown := True\<rparr>]\<rparr>)"
      "observed_status answer \<noteq> ''duplicate''"
    | (accepted) r where "answer = Some r" "rcStatus r = ''accepted''" "observed_status answer = ''accepted''"
      "observe_answer j answer began finished start m = in_second (time_sub finished start) (\<lambda>b. b\<lparr>skAccepted := skAccepted b + 1\<rparr>)
        ((in_second (time_sub finished start) (\<lambda>b. b) (counted j answer began finished m))
          \<lparr>obInvalidReceipts := obInvalidReceipts m + receipt_faults j ''accepted'' r,
           obKeys := (obKeys m)[jbIndex j := observe_receipt j ''accepted'' r (time_sub finished (jbScheduled j)) (obKeys m ! jbIndex j)]\<rparr>)"
    | (known) r where "answer = Some r" "observed_status answer = rcStatus r" "rcStatus r = ''duplicate'' \<or> rcStatus r = ''conflict''"
      "observe_answer j answer began finished start m =
        (in_second (time_sub finished start) (\<lambda>b. b) (counted j answer began finished m))
          \<lparr>obInvalidReceipts := obInvalidReceipts m + receipt_faults j (rcStatus r) r,
           obKeys := (obKeys m)[jbIndex j := observe_receipt j (rcStatus r) r (time_sub finished (jbScheduled j)) (obKeys m ! jbIndex j)]\<rparr>"
    | (other) "observed_status answer \<noteq> ''accepted''"
      "observe_answer j answer began finished start m = in_second (time_sub finished start) (\<lambda>b. b) (counted j answer began finished m)"
      "observed_status answer \<noteq> ''duplicate''"
proof -
  let ?status = "observed_status answer"
  consider "answer = None" | "?status = ''unknown''" | "?status = ''unknown_empty_receipt''"
    | r where "answer = Some r" "?status \<noteq> ''unknown''" "?status \<noteq> ''unknown_empty_receipt''"
    by (cases answer) auto
  then show ?thesis
  proof cases
    case 1
    show ?thesis by (rule unknown) (simp_all add: 1 observe_answer_def observed_status_def counted_def Let_def)
  next
    case 2
    show ?thesis by (rule unknown) (simp_all add: 2 observe_answer_def counted_def Let_def)
  next
    case 3
    show ?thesis by (rule unknown) (simp_all add: 3 observe_answer_def counted_def Let_def)
  next
    case (4 r)
    then have st: "?status = rcStatus r" "rcStatus r \<noteq> []" by (auto simp: observed_status_def split: if_splits)
    consider "rcStatus r = ''accepted''" | "rcStatus r = ''duplicate'' \<or> rcStatus r = ''conflict''"
      | "rcStatus r \<noteq> ''accepted'' \<and> rcStatus r \<noteq> ''duplicate'' \<and> rcStatus r \<noteq> ''conflict''" by blast
    then show ?thesis
    proof cases
      case a: 1
      show ?thesis by (rule accepted [OF 4(1)]) (use 4 st a in \<open>simp_all add: observe_answer_def counted_def Let_def\<close>)
    next
      case b: 2
      show ?thesis
      proof (rule known [OF 4(1) st(1) b])
        show "observe_answer j answer began finished start m =
          (in_second (time_sub finished start) (\<lambda>b. b) (counted j answer began finished m))
            \<lparr>obInvalidReceipts := obInvalidReceipts m + receipt_faults j (rcStatus r) r,
             obKeys := (obKeys m)[jbIndex j := observe_receipt j (rcStatus r) r (time_sub finished (jbScheduled j)) (obKeys m ! jbIndex j)]\<rparr>"
          using b by (elim disjE) (use 4 st in \<open>simp_all add: observe_answer_def counted_def Let_def\<close>)
      qed
    next
      case c: 3
      show ?thesis by (rule other) (use 4 st c in \<open>simp_all add: observe_answer_def counted_def Let_def\<close>)
    qed
  qed
qed

lemma in_second_keys:
  "in_second e ch (m\<lparr>obKeys := ks\<rparr>) = (in_second e ch m)\<lparr>obKeys := ks\<rparr>"
  "in_second e ch (m\<lparr>obInvalidReceipts := n\<rparr>) = (in_second e ch m)\<lparr>obInvalidReceipts := n\<rparr>"
  by (simp_all add: in_second_def Let_def)

lemma counts_observe:
  assumes "counts_agree r m"
  shows "counts_agree r (observe_answer j answer began finished start m)"
proof (cases rule: observe_answer_cases [of answer j began finished start m])
  case unknown
  then show ?thesis using counts_counted(1) [OF assms unknown(1)] by (simp add: in_second_keys counts_keys in_second_unchanged)
next
  case (accepted rc)
  then show ?thesis using counts_counted(2) [OF assms accepted(3)] by (simp add: in_second_keys counts_keys)
next
  case (known rc)
  then have "observed_status answer \<noteq> ''accepted''" by auto
  then show ?thesis using known counts_counted(1) [OF assms] by (simp add: counts_keys)
next
  case other
  then show ?thesis using counts_counted(1) [OF assms other(1)] by simp
qed

section \<open>Where the attempts are\<close>

definition is_taken :: "sg_worker \<Rightarrow> bool" where
  "is_taken w \<longleftrightarrow> (case w of TakenAttempt j \<Rightarrow> True | _ \<Rightarrow> False)"

definition is_calling :: "sg_worker \<Rightarrow> bool" where
  "is_calling w \<longleftrightarrow> (case w of CallingAttempt j t \<Rightarrow> True | _ \<Rightarrow> False)"

lemma worker_kinds [simp]:
  "\<not> is_taken WaitingWorker" "is_taken (TakenAttempt j)" "\<not> is_taken (CallingAttempt j t)"
  "\<not> is_calling WaitingWorker" "\<not> is_calling (TakenAttempt j)" "is_calling (CallingAttempt j t)"
  by (simp_all add: is_taken_def is_calling_def)

definition remaining_offers :: "sg_state \<Rightarrow> int list" where
  "remaining_offers s = (case swPhase s of Offering choices \<Rightarrow> choices | _ \<Rightarrow> [])"

definition is_offering :: "sg_state \<Rightarrow> bool" where
  "is_offering s \<longleftrightarrow> (case swPhase s of Offering choices \<Rightarrow> True | _ \<Rightarrow> False)"

lemma offering_simps [simp]:
  "swPhase s = Offering choices \<Longrightarrow> remaining_offers s = choices \<and> is_offering s"
  "swPhase s = Scheduling \<Longrightarrow> remaining_offers s = [] \<and> \<not> is_offering s"
  "swPhase s = ScheduleEnded \<Longrightarrow> remaining_offers s = [] \<and> \<not> is_offering s"
  by (simp_all add: remaining_offers_def is_offering_def)

definition accounted :: "sg_config \<Rightarrow> sg_state \<Rightarrow> bool" where
  "accounted c s \<longleftrightarrow> (let m = swObs s in
     counts_agree (sgRepeatEvery c) m \<and>
     obScheduled m = int (swNext s) + of_bool (is_offering s) \<and> obScheduled m \<le> sgTotal c \<and>
     attemptsInRange 0 (obScheduled m) (sgRepeatEvery c) =
       int (length (swQueue s)) + how_many is_taken (swWorkers s) + obSent m + summed (obSkips m) + int (length (remaining_offers s)) \<and>
     obSent m = summed (obOutcomes m) + how_many is_calling (swWorkers s) \<and>
     attemptsInRange 0 (obScheduled m) (sgRepeatEvery c) =
       obQueued m + count_at ''queue_full'' (obSkips m) + count_at ''scheduler_lag'' (obSkips m) + int (length (remaining_offers s)))"

lemma skip_attempts_fields [simp]:
  "obKeys (skip_attempts reason n e m) = obKeys m" "obScheduled (skip_attempts reason n e m) = obScheduled m"
  "obQueued (skip_attempts reason n e m) = obQueued m" "obSent (skip_attempts reason n e m) = obSent m"
  "obSkips (skip_attempts reason n e m) = bump reason n (obSkips m)" "obOutcomes (skip_attempts reason n e m) = obOutcomes m"
  by (simp_all add: skip_attempts_def)

lemma markStart_fields [simp]:
  "obScheduled (markStart j start window began m) = obScheduled m" "obQueued (markStart j start window began m) = obQueued m"
  "obSent (markStart j start window began m) = obSent m + 1" "obSkips (markStart j start window began m) = obSkips m"
  "obOutcomes (markStart j start window began m) = obOutcomes m"
  "obKeys (markStart j start window began m) =
     (obKeys m)[jbIndex j := (obKeys m ! jbIndex j)\<lparr>ksSentChoices := ksSentChoices (obKeys m ! jbIndex j) OR attempt_mask j\<rparr>]"
  by (simp_all add: markStart_def Let_def)

lemma observe_answer_fields [simp]:
  "obScheduled (observe_answer j answer began finished start m) = obScheduled m"
  "obQueued (observe_answer j answer began finished start m) = obQueued m"
  "obSent (observe_answer j answer began finished start m) = obSent m"
  "obSkips (observe_answer j answer began finished start m) = obSkips m"
  "obOutcomes (observe_answer j answer began finished start m) = bump (observed_status answer) 1 (obOutcomes m)"
  by (cases rule: observe_answer_cases [of answer j began finished start m]; simp add: counted_def)+

lemma range_fields [simp]:
  "obKeys (scheduledRange c low high m) = obKeys m" "obScheduled (scheduledRange c low high m) = obScheduled m + (high - low)"
  "obQueued (scheduledRange c low high m) = obQueued m" "obSent (scheduledRange c low high m) = obSent m"
  "obSkips (scheduledRange c low high m) = obSkips m" "obOutcomes (scheduledRange c low high m) = obOutcomes m"
  "obKeys (skipRange c low high reason m) = obKeys m" "obScheduled (skipRange c low high reason m) = obScheduled m"
  "obQueued (skipRange c low high reason m) = obQueued m" "obSent (skipRange c low high reason m) = obSent m"
  "obSkips (skipRange c low high reason m) = bump reason (attemptsInRange low high (sgRepeatEvery c)) (obSkips m)"
  "obOutcomes (skipRange c low high reason m) = obOutcomes m"
  using scheduledRange_same [where m = m and low = low and high = high and c = c]
    skipRange_same [where m = m and reason = reason and low = low and high = high and c = c]
  by (simp_all add: same_counts_def)

lemma set_worker_fields [simp]:
  "swObs (set_worker w a s) = swObs s" "swNext (set_worker w a s) = swNext s" "swPhase (set_worker w a s) = swPhase s"
  "swQueue (set_worker w a s) = swQueue s" "swWorkers (set_worker w a s) = (swWorkers s)[w := a]"
  by (simp_all add: set_worker_def)

lemma accounted_turn:
  assumes s: "accounted c s" and ph: "swPhase s = Scheduling" "int (swNext s) < sgTotal c" and rate: "0 < sgRate c"
  shows "accounted c (schedule_turn c start now s)"
proof -
  define obsolete where "obsolete = min (sgTotal c) (sg_slotsBefore (time_sub now start - sgMaxLag c) (sgRate c))"
  let ?m = "swObs s" and ?n = "int (swNext s)" and ?r = "sgRepeatEvery c"
  note inv = s [unfolded accounted_def Let_def]
  have n: "obScheduled ?m = ?n" using inv ph by simp
  consider "obsolete > ?n" | "\<not> obsolete > ?n" "time_sub (scheduled_at c start (swNext s)) now > 0"
    | "\<not> obsolete > ?n" "\<not> time_sub (scheduled_at c start (swNext s)) now > 0" by blast
  then show ?thesis
  proof cases
    case 1
    have le: "?n \<le> obsolete" "obsolete \<le> sgTotal c" using 1 by (simp_all add: obsolete_def)
    have agree: "counts_agree ?r (skipRange c ?n obsolete ''scheduler_lag'' (scheduledRange c ?n obsolete ?m))"
      using inv n le rate by (intro counts_skipRange counts_scheduledRange) simp_all
    have "schedule_turn c start now s =
        s\<lparr>swObs := skipRange c ?n obsolete ''scheduler_lag'' (scheduledRange c ?n obsolete ?m), swNext := nat obsolete\<rparr>"
      using 1 by (simp add: schedule_turn_def Let_def obsolete_def [symmetric])
    then show ?thesis
      using inv n le agree ph attempts_join [of 0 ?n ?r obsolete]
      by (simp add: accounted_def Let_def count_at_bump is_offering_def remaining_offers_def)
  next
    case 2
    then show ?thesis using s by (simp add: schedule_turn_def Let_def obsolete_def [symmetric])
  next
    case 3
    have agree: "counts_agree ?r (scheduledRange c ?n (?n + 1) ?m)" using inv n rate by (intro counts_scheduledRange) simp_all
    have "schedule_turn c start now s =
        s\<lparr>swObs := scheduledRange c ?n (?n + 1) ?m, swPhase := Offering (offered_choices c (swNext s))\<rparr>"
      using 3 by (simp add: schedule_turn_def Let_def obsolete_def [symmetric])
    then show ?thesis
      using inv n agree ph attempts_join [of 0 ?n ?r "?n + 1"] offered_length [of c "swNext s"]
      by (simp add: accounted_def Let_def is_offering_def remaining_offers_def)
  qed
qed

lemma accounted_offer:
  assumes s: "accounted c s" and ph: "swPhase s = Offering choices"
  shows "accounted c (offer_next c start choices s)"
proof (cases choices)
  case Nil
  then show ?thesis
    using s ph unfolding accounted_def Let_def by (elim conjE) (simp add: offer_next_def is_offering_def remaining_offers_def)
next
  case (Cons choice rest)
  show ?thesis
    using s ph Cons unfolding accounted_def Let_def
    by (elim conjE, cases "int (length (swQueue s)) < sgQueue c")
      (simp_all add: offer_next_def offer_def Let_def is_offering_def remaining_offers_def counts_skip counts_queued count_at_bump)
qed

lemma accounted_step:
  assumes step: "sg_step c start event s = Some t" and s: "accounted c s" and rate: "0 < sgRate c"
  shows "accounted c t"
proof (cases event)
  case ScheduleCancelled
  then have ph: "swPhase s = Scheduling" and t: "t = s\<lparr>swPhase := ScheduleEnded\<rparr>" using step by (simp_all add: sg_step_def split: if_splits)
  then show ?thesis using s unfolding accounted_def Let_def by (elim conjE) (simp add: is_offering_def remaining_offers_def)
next
  case (ScheduleAt now)
  then have ph: "swPhase s = Scheduling" "int (swNext s) < sgTotal c" and t: "t = schedule_turn c start now s"
    using step by (simp_all add: sg_step_def split: if_splits)
  show ?thesis unfolding t by (rule accounted_turn [OF s ph rate])
next
  case OfferNext
  then show ?thesis using step accounted_offer [OF s] by (auto simp: sg_step_def split: schedule_phase.splits)
next
  case (WorkerTakes w)
  then have w: "w < length (swWorkers s)" "swWorkers s ! w = WaitingWorker" "swQueue s \<noteq> []"
    and t: "t = set_worker w (TakenAttempt (hd (swQueue s))) (s\<lparr>swQueue := tl (swQueue s)\<rparr>)"
    using step by (simp_all add: sg_step_def split: if_splits)
  then obtain j js where "swQueue s = j # js" by (cases "swQueue s") simp_all
  then show ?thesis
    using s w unfolding accounted_def Let_def by (elim conjE) (simp add: t how_many_update is_offering_def remaining_offers_def)
next
  case (WorkerStarts w cancelled now began)
  then obtain j where w: "w < length (swWorkers s)" "swWorkers s ! w = TakenAttempt j" and t: "t = worker_starts c start w j cancelled now began s"
    using step by (auto simp: sg_step_def split: if_splits sg_worker.splits)
  show ?thesis
    using s w unfolding accounted_def Let_def
    by (elim conjE) (simp add: t worker_starts_def Let_def how_many_update is_offering_def remaining_offers_def counts_skip counts_markStart count_at_bump)
next
  case (WorkerReturns w answer finished)
  then obtain j began where w: "w < length (swWorkers s)" "swWorkers s ! w = CallingAttempt j began"
    and t: "t = set_worker w WaitingWorker (s\<lparr>swObs := observe_answer j answer began finished start (swObs s)\<rparr>)"
    using step by (auto simp: sg_step_def split: if_splits sg_worker.splits)
  show ?thesis
    using s w unfolding accounted_def Let_def
    by (elim conjE) (simp add: t how_many_update is_offering_def remaining_offers_def counts_observe)
qed

section \<open>Runs\<close>

definition sg_moves :: "sg_config \<Rightarrow> time \<Rightarrow> sg_state \<Rightarrow> sg_state \<Rightarrow> bool" where
  "sg_moves c start s t \<longleftrightarrow> (\<exists>event. sg_step c start event s = Some t)"

lemma sg_run_reaches: "sg_run c start es s = Some t \<Longrightarrow> (sg_moves c start)\<^sup>*\<^sup>* s t"
proof (induction es arbitrary: s)
  case (Cons e es)
  then obtain u where u: "sg_step c start e s = Some u" "sg_run c start es u = Some t" by (auto split: option.splits)
  then have "sg_moves c start s u" by (auto simp: sg_moves_def)
  with Cons.IH [OF u(2)] show ?case by (rule converse_rtranclp_into_rtranclp [rotated])
qed simp

definition fresh_observations :: "observations \<Rightarrow> bool" where
  "fresh_observations m \<longleftrightarrow> (\<exists>raws. newObservations raws = Some m)"

lemma fresh_counts: "fresh_observations m \<Longrightarrow> counts_agree r m \<and> obScheduled m = 0 \<and> obSent m = 0 \<and> obQueued m = 0 \<and> obSkips m = [] \<and> obOutcomes m = []"
  by (auto simp: fresh_observations_def newObservations_def counts_agree_def later_empty_def second_total_def sum_list_replicate empty_second_def
      skipped_in_def count_at_def split: if_splits)

lemma accounted_initial: "fresh_observations m \<Longrightarrow> 0 \<le> sgTotal c \<Longrightarrow> accounted c (sg_initial c m)"
  using fresh_counts [of m "sgRepeatEvery c"]
  by (simp add: accounted_def Let_def sg_initial_def is_offering_def remaining_offers_def how_many_none count_at_def)

interpretation sgb: transition_system "\<lambda>s. \<exists>m. fresh_observations m \<and> s = sg_initial c m" "sg_moves c start"
  "\<lambda>s. sg_validate c = None \<longrightarrow> accounted c s"
proof
  show "\<exists>m. fresh_observations m \<and> s = sg_initial c m \<Longrightarrow> sg_validate c = None \<longrightarrow> accounted c s" for s
    using accounted_initial by (auto simp: sg_validate_def split: if_splits)
  show "sg_moves c start s t \<Longrightarrow> sg_validate c = None \<longrightarrow> accounted c s \<Longrightarrow> sg_validate c = None \<longrightarrow> accounted c t" for s t
    using accounted_step by (fastforce simp: sg_moves_def sg_validate_def split: if_splits)
qed

lemma run_accounted:
  assumes "sg_validate c = None" and "fresh_observations m" and "sg_run c start es (sg_initial c m) = Some s"
  shows "accounted c s"
  using sgb.invariant_reachable [OF _ sg_run_reaches [OF assms(3)]] assms(1,2) by blast

section \<open>Properties\<close>

lemma sum_map_zero: "\<forall>x \<in> set xs. \<phi> x = 0 \<Longrightarrow> sum_list (map \<phi> xs) = (0 :: int)"
  by (induction xs) simp_all

lemma later_totals:
  assumes "later_empty m" and "\<phi> empty_second = 0"
  shows "sum_list (map \<phi> (take (obLastSecond m + 1) (obSeconds m))) = second_total \<phi> m"
proof -
  have "sum_list (map \<phi> (drop (obLastSecond m + 1) (obSeconds m))) = 0"
    using assms by (intro sum_map_zero) (auto simp: later_empty_def in_set_conv_nth)
  then show ?thesis
    unfolding second_total_def by (metis append_take_drop_id map_append sum_list.append add.right_neutral)
qed

text \<open>The report numbers the seconds and adds the first confirmations; no other count of a second changes.\<close>

definition confirmation_free :: "(timeline_bucket \<Rightarrow> int) \<Rightarrow> bool" where
  "confirmation_free \<phi> \<longleftrightarrow> (\<forall>b n. \<phi> (b\<lparr>skFirstConfirmations := n\<rparr>) = \<phi> b)"

lemma numbered_totals: "unlabelled \<phi> \<Longrightarrow> map \<phi> (numbered_seconds m) = map \<phi> (obSeconds m)"
  by (rule nth_equalityI) (simp_all add: numbered_seconds_def nth_enumerate_eq unlabelled_def case_prod_beta)

lemma map_update_same: "\<phi> x = \<phi> (bs ! i) \<Longrightarrow> map \<phi> (bs[i := x]) = map \<phi> bs"
  by (cases "i < length bs") (simp_all add: map_update list_update_same_conv list_update_beyond)

lemma confirm_totals: "confirmation_free \<phi> \<Longrightarrow> map \<phi> (confirm_second c ik bs) = map \<phi> bs"
  by (simp add: confirm_second_def Let_def case_prod_beta map_update_same confirmation_free_def)

lemma confirmed_totals: "confirmation_free \<phi> \<Longrightarrow> map \<phi> (fold (confirm_second c) iks bs) = map \<phi> bs"
  by (induction iks arbitrary: bs) (simp_all add: confirm_totals)

lemma report_totals:
  assumes "unlabelled \<phi>" and "confirmation_free \<phi>" and "later_empty m" and "\<phi> empty_second = 0"
  shows "sum_list (map \<phi> (srSeconds (sg_report_of c interrupted m))) = second_total \<phi> m"
  using later_totals [where m = m and \<phi> = \<phi>] assms
  by (simp add: sg_report_of_def Let_def take_map [symmetric] confirmed_totals numbered_totals)

lemma latency_count: "slCount (sg_latency ds) = length ds"
  by (simp add: sg_latency_def Let_def)

text \<open>C38. When a workload is over, every planned attempt is in its report exactly once: sent, skipped for a reason, or never scheduled. Each
  attempt that was sent has one outcome and one value in every latency report, and the counts by second of the keys and attempts
  scheduled, of the attempts sent, skipped and accepted add up to the totals; nothing is counted outside the seconds reported.\<close>

theorem storage_attempts_accounted:
  assumes "sg_validate c = None" and "newObservations raws = Some m0"
    and "storage_runWorkload c start events interrupted m0 = Some (m, r)"
  shows "srAttemptPlanned r = srAttemptSent r + srAttemptSkipped r + srAttemptNotScheduled r \<and>
    srAttemptPlanned r - srAttemptNotScheduled r =
      srAttemptQueued r + count_at ''queue_full'' (srSkipped r) + count_at ''scheduler_lag'' (srSkipped r) \<and>
    srAttemptSent r = summed (srOutcomes r) \<and> int (slCount (srLag r)) = srAttemptSent r \<and>
    int (slCount (srLatency r)) = srAttemptSent r \<and> int (slCount (srEndToEnd r)) = srAttemptSent r \<and>
    sum_list (map skLogicalScheduled (srSeconds r)) = srLogicalScheduled r \<and>
    sum_list (map skAttemptsScheduled (srSeconds r)) = srAttemptPlanned r - srAttemptNotScheduled r \<and>
    sum_list (map skSent (srSeconds r)) = srAttemptSent r \<and> sum_list (map (\<lambda>b. summed (skSkipped b)) (srSeconds r)) = srAttemptSkipped r \<and>
    sum_list (map skAccepted (srSeconds r)) = count_at ''accepted'' (srOutcomes r) \<and>
    0 \<le> srDuringWindow r \<and> srDuringWindow r \<le> srAttemptSent r"
proof -
  let ?r = "sgRepeatEvery c"
  from assms(3) obtain s where run: "sg_run c start events (sg_initial c m0) = Some s" and over: "sg_over c s"
    and m: "m = swObs s" and r: "r = sg_report_of c interrupted m"
    by (auto simp: storage_runWorkload_def split: option.splits if_splits)
  have acc: "accounted c s" using run_accounted [OF assms(1) _ run] assms(2) by (auto simp: fresh_observations_def)
  have "swWorkers s = replicate (length (swWorkers s)) WaitingWorker"
    using over by (intro replicate_eqI) (simp_all add: sg_over_def list_all_iff)
  then have idle: "how_many is_taken (swWorkers s) = 0" "how_many is_calling (swWorkers s) = 0"
    by (metis how_many_none worker_kinds(1), metis how_many_none worker_kinds(4))
  have rest: "remaining_offers s = []" "swQueue s = []" using over by (auto simp: sg_over_def remaining_offers_def)
  note inv = acc [unfolded accounted_def Let_def m [symmetric] idle rest]
  then have agree: "counts_agree ?r m" by blast
  then have later: "later_empty m" by (simp add: counts_agree_def)
  have free: "confirmation_free skLogicalScheduled" "confirmation_free skAttemptsScheduled" "confirmation_free skSent"
    "confirmation_free skipped_in" "confirmation_free skAccepted"
    by (simp_all add: confirmation_free_def skipped_in_def)
  have zero: "skLogicalScheduled empty_second = 0" "skAttemptsScheduled empty_second = 0" "skSent empty_second = 0" "skipped_in empty_second = 0"
    "skAccepted empty_second = 0"
    by (simp_all add: empty_second_def skipped_in_def)
  note totals = report_totals [OF measures(1) free(1) later zero(1)] report_totals [OF measures(2) free(2) later zero(2)]
    report_totals [OF measures(3) free(3) later zero(3)] report_totals [OF measures(4) free(4) later zero(4)]
    report_totals [OF measures(5) free(5) later zero(5)]
  have fields: "srAttemptPlanned r = attemptsInRange 0 (sgTotal c) ?r" "srAttemptSent r = obSent m" "srAttemptSkipped r = summed (obSkips m)"
    "srAttemptNotScheduled r = attemptsInRange (obScheduled m) (sgTotal c) ?r" "srAttemptQueued r = obQueued m" "srSkipped r = obSkips m"
    "srOutcomes r = obOutcomes m" "srLogicalScheduled r = obScheduled m" "srDuringWindow r = obDuringWindow m"
    "slCount (srLag r) = length (obLag m)" "slCount (srLatency r) = length (obElapsed m)" "slCount (srEndToEnd r) = length (obFromSchedule m)"
    by (simp_all add: r sg_report_of_def Let_def latency_count)
  show ?thesis
    using inv agree totals [of c interrupted] attempts_join [of 0 "obScheduled m" ?r "sgTotal c"]
    unfolding fields counts_agree_def r [symmetric] skipped_in_def
    by (elim conjE, intro conjI) simp_all
qed

definition demo_sg_config :: sg_config where
  "demo_sg_config = sg_defaults\<lparr>sgTotal := 1, sgRate := 1\<rparr>"

definition demo_sg_raw :: "byte list" where
  "demo_sg_raw = [0, 17, 34, 51, 68, 85, 102, 119, 136, 153, 170, 187, 204, 221, 238, 255]"

definition demo_sg_events :: "sg_event list" where
  "demo_sg_events = [ScheduleAt 0, OfferNext, OfferNext, WorkerTakes 0, WorkerStarts 0 False 0 0,
     WorkerReturns 0 (Some \<lparr>rcStatus = ''accepted'', rcChoices = [1], rcAcceptedAt = Some 0\<rparr>) 1000]"

definition demo_sg_start :: observations where
  "demo_sg_start = the (newObservations [Some demo_sg_raw])"

lemma demo_sg_over: "case sg_run demo_sg_config 0 demo_sg_events (sg_initial demo_sg_config demo_sg_start) of None \<Rightarrow> False | Some s \<Rightarrow> sg_over demo_sg_config s"
  by (simp add: demo_sg_events_def demo_sg_config_def sg_defaults_def sg_initial_def sg_step_def schedule_turn_def Let_def sg_slotsBefore_def
      slotsBefore_def time_sub_def scheduled_at_def sg_offset_def slotOffset_def wrap64_def signed_take_bit_int_eq_self offer_next_def offer_def
      offered_choices_def set_worker_def worker_starts_def sg_over_def replicate_Suc numeral_eq_Suc)

lemma demo_sg_valid: "sg_validate demo_sg_config = None"
  by code_simp

lemma demo_sg_fresh: "newObservations [Some demo_sg_raw] = Some demo_sg_start"
  by (simp add: demo_sg_start_def newObservations_def)

lemma demo_sg_run: "\<exists>m r. storage_runWorkload demo_sg_config 0 demo_sg_events False demo_sg_start = Some (m, r)"
  using demo_sg_over by (auto simp: storage_runWorkload_def split: option.splits)

lemma storage_attempts_accounted_witness:
  "\<exists>m r. storage_runWorkload demo_sg_config 0 demo_sg_events False demo_sg_start = Some (m, r) \<and>
     srAttemptPlanned r = srAttemptSent r + srAttemptSkipped r + srAttemptNotScheduled r"
proof -
  obtain m r where run: "storage_runWorkload demo_sg_config 0 demo_sg_events False demo_sg_start = Some (m, r)" using demo_sg_run by blast
  with storage_attempts_accounted [OF demo_sg_valid demo_sg_fresh run] show ?thesis by blast
qed

end
