(* ===== verification/Storagebench_Audit_Props.thy ===== *)
theory Storagebench_Audit_Props
  imports Storagebench_Audit
begin

text \<open>
  What a correct reconciliation of the database benchmark means: the counters of the audit are all zero exactly when every row
  belongs to a key of the ledger, once, with a choice the key was sent and none of its confirmations contradicts; no confirmed key is missing;
  and the final result counts exactly the rows.
\<close>

section \<open>The index of the tokens\<close>

lemma key_index_fold:
  "distinct (map ksToken ks) \<Longrightarrow> fold (\<lambda>(i, k) index. index(ksToken k \<mapsto> i)) (enumerate n ks) index0 t = Some i \<longleftrightarrow>
     (n \<le> i \<and> i < n + length ks \<and> ksToken (ks ! (i - n)) = t) \<or> (t \<notin> ksToken ` set ks \<and> index0 t = Some i)"
proof (induction ks arbitrary: n index0)
  case (Cons k ks)
  have d: "distinct (map ksToken ks)" "ksToken k \<notin> ksToken ` set ks" using Cons.prems by auto
  have split: "(n \<le> i \<and> i < n + length (k # ks) \<and> ksToken ((k # ks) ! (i - n)) = t) \<longleftrightarrow>
      (i = n \<and> ksToken k = t) \<or> (Suc n \<le> i \<and> i < Suc n + length ks \<and> ksToken (ks ! (i - Suc n)) = t)"
    by (cases "i = n") (auto simp: nth_Cons' Suc_diff_Suc)
  have later: "Suc n \<le> i \<and> i < Suc n + length ks \<and> ksToken (ks ! (i - Suc n)) = ksToken k \<Longrightarrow> False"
    using d(2) by (metis image_eqI nth_mem add_diff_inverse_nat nat_add_left_cancel_less not_less)
  show ?case
    unfolding split using Cons.IH [OF d(1), of "Suc n" "index0(ksToken k \<mapsto> n)"] d(2) later by (auto simp: enumerate_simps)
qed auto

lemma key_index_exact:
  "distinct (map ksToken ks) \<Longrightarrow> key_index ks t = Some i \<longleftrightarrow> i < length ks \<and> ksToken (ks ! i) = t"
  using key_index_fold [of ks 0 Map.empty t i] by (simp add: key_index_def)

lemma key_index_none:
  assumes "distinct (map ksToken ks)"
  shows "key_index ks t = None \<longleftrightarrow> t \<notin> ksToken ` set ks"
proof -
  have "key_index ks t \<noteq> None \<longleftrightarrow> (\<exists>i. i < length ks \<and> ksToken (ks ! i) = t)"
    using key_index_exact [OF assms, of t] by auto
  also have "\<dots> \<longleftrightarrow> t \<in> ksToken ` set ks" by (auto simp: in_set_conv_nth image_iff Bex_def)
  finally show ?thesis by blast
qed

section \<open>The counts of the choices\<close>

definition vote_tally :: "int \<Rightarrow> sql_vote list \<Rightarrow> nat" where
  "vote_tally ch votes = length (filter (\<lambda>x. sint x = ch) (concat (map snd votes)))"

lemma count_choices:
  "count_at x (fold (\<lambda>ch. bump (sint ch) 1) cs m) = count_at x m + int (length (filter (\<lambda>ch. sint ch = x) cs))"
  by (induction cs arbitrary: m) (auto simp: count_at_bump)

lemma distinct_choices: "distinct (map fst m) \<Longrightarrow> distinct (map fst (fold (\<lambda>ch. bump (sint ch) 1) cs m))"
  by (induction cs arbitrary: m) (auto simp: distinct_bump)

section \<open>The scan of the rows\<close>

text \<open>A row that agrees with its key.\<close>

definition row_agrees :: "key_state \<Rightarrow> 32 word list \<Rightarrow> bool" where
  "row_agrees k choices \<longleftrightarrow> ksSentChoices k \<noteq> 0 \<and> \<not> row_content_bad k (row_mask choices)"

definition indices :: "(string \<Rightarrow> nat option) \<Rightarrow> sql_vote list \<Rightarrow> nat list" where
  "indices index votes = List.map_filter (index \<circ> bare_token \<circ> fst) votes"

lemma indices_snoc: "indices index (vs @ [v]) = indices index vs @ (case index (bare_token (fst v)) of None \<Rightarrow> [] | Some i \<Rightarrow> [i])"
  by (cases "index (bare_token (fst v))") (simp_all add: indices_def List.map_filter_def)

definition scanned :: "key_state list \<Rightarrow> (string \<Rightarrow> nat option) \<Rightarrow> sg_audit \<Rightarrow> sql_vote list \<Rightarrow> row_scan \<Rightarrow> bool" where
  "scanned ks index a0 votes st \<longleftrightarrow>
     (case st of (a, found, counts) \<Rightarrow>
        saScannedRows a = int (length votes) \<and>
        saUnexpectedRows a = int (length (filter (\<lambda>v. index (bare_token (fst v)) = None) votes)) \<and>
        0 \<le> saUnsentRows a \<and> 0 \<le> saContentMismatches a \<and>
        (saUnsentRows a = 0 \<and> saContentMismatches a = 0 \<longleftrightarrow>
           distinct (indices index votes) \<and> (\<forall>v \<in> set votes. \<forall>i. index (bare_token (fst v)) = Some i \<longrightarrow> row_agrees (ks ! i) (snd v))) \<and>
        length found = length ks \<and> (\<forall>i < length ks. found ! i \<longleftrightarrow> i \<in> set (indices index votes)) \<and>
        (\<forall>ch. count_at ch counts = int (vote_tally ch votes)) \<and> distinct (map fst counts) \<and>
        saStable a = saStable a0 \<and> saRows a = saRows a0 \<and> saConfirmedMissing a = 0 \<and> saMultipleAccepted a = 0)"

lemma vote_tally_snoc: "vote_tally ch (vs @ [v]) = vote_tally ch vs + length (filter (\<lambda>x. sint x = ch) (snd v))"
  by (simp add: vote_tally_def)

lemma scan_key_counters:
  "saScannedRows (scan_key k f cs a) = saScannedRows a" "saUnexpectedRows (scan_key k f cs a) = saUnexpectedRows a"
  "saStable (scan_key k f cs a) = saStable a" "saRows (scan_key k f cs a) = saRows a"
  "saConfirmedMissing (scan_key k f cs a) = saConfirmedMissing a" "saMultipleAccepted (scan_key k f cs a) = saMultipleAccepted a"
  "saUnsentRows (scan_key k f cs a) = saUnsentRows a + of_bool (ksSentChoices k = 0)"
  "saContentMismatches (scan_key k f cs a) = saContentMismatches a + of_bool f + of_bool (row_content_bad k (row_mask cs))"
  by (simp_all add: scan_key_def Let_def)

lemma scanned_start:
  "scanned ks index a0 [] (empty_sg_audit\<lparr>saStable := saStable a0, saRows := saRows a0\<rparr>, replicate (length ks) False, [])"
  by (simp add: scanned_def empty_sg_audit_def indices_def List.map_filter_def count_at_def vote_tally_def)

lemma scanned_snoc:
  assumes st: "scanned ks index a0 votes st" and bound: "\<And>t i. index t = Some i \<Longrightarrow> i < length ks"
  shows "scanned ks index a0 (votes @ [v]) (scan_vote ks index v st)"
proof -
  obtain a found counts where ste: "st = (a, found, counts)" by (cases st)
  obtain token choices where v: "v = (token, choices)" by (cases v)
  note inv = st [unfolded scanned_def ste prod.case]
  have tally: "\<forall>ch. count_at ch (fold (\<lambda>ch. bump (sint ch) 1) choices counts) = int (vote_tally ch (votes @ [v]))"
    using inv by (simp add: count_choices vote_tally_snoc v)
  have keys: "distinct (map fst (fold (\<lambda>ch. bump (sint ch) 1) choices counts))" using inv by (simp add: distinct_choices)
  show ?thesis
  proof (cases "index (bare_token token)")
    case None
    then show ?thesis
      using inv tally keys unfolding ste by (simp add: scanned_def scan_vote_def v indices_snoc Let_def)
  next
    case (Some i)
    then have i: "i < length ks" by (rule bound)
    then have f: "found ! i \<longleftrightarrow> i \<in> set (indices index votes)" using inv by blast
    have zero: "saUnsentRows a + of_bool (ksSentChoices (ks ! i) = 0) = 0 \<and>
        saContentMismatches a + of_bool (found ! i) + of_bool (row_content_bad (ks ! i) (row_mask choices)) = 0 \<longleftrightarrow>
      (saUnsentRows a = 0 \<and> saContentMismatches a = 0) \<and> \<not> found ! i \<and> row_agrees (ks ! i) choices"
      using inv by (auto simp: row_agrees_def of_bool_def split: if_splits)
    have found': "\<forall>j < length ks. found[i := True] ! j \<longleftrightarrow> j \<in> set (indices index votes @ [i])"
      using inv i by (simp add: nth_list_update)
    have agree: "(\<forall>v' \<in> set (votes @ [v]). \<forall>i. index (bare_token (fst v')) = Some i \<longrightarrow> row_agrees (ks ! i) (snd v')) \<longleftrightarrow>
        (\<forall>v' \<in> set votes. \<forall>i. index (bare_token (fst v')) = Some i \<longrightarrow> row_agrees (ks ! i) (snd v')) \<and> row_agrees (ks ! i) choices"
      using Some by (auto simp: v)
    show ?thesis
      unfolding scanned_def ste scan_vote_def v Let_def prod.case Some option.case
      unfolding v [symmetric] agree indices_snoc
      using inv tally keys found' zero f Some
      by (simp add: scan_key_counters v) blast
  qed
qed

lemma scan_votes_fold: "scan_votes ks index (map Some votes) st = Some (fold (scan_vote ks index) votes st)"
  by (induction votes arbitrary: st) simp_all

lemma scanned_fold:
  assumes bound: "\<And>t i. index t = Some i \<Longrightarrow> i < length ks"
  shows "scanned ks index a0 votes (fold (scan_vote ks index) votes
    (empty_sg_audit\<lparr>saStable := saStable a0, saRows := saRows a0\<rparr>, replicate (length ks) False, []))"
proof (induction votes rule: rev_induct)
  case Nil
  show ?case using scanned_start by simp
next
  case (snoc v vs)
  then show ?case using scanned_snoc [OF _ bound] by simp
qed


lemma indices_bound: "(\<And>t i. index t = Some i \<Longrightarrow> i < n) \<Longrightarrow> set (indices index votes) \<subseteq> {..<n}"
  by (auto simp: indices_def List.map_filter_def)

lemma in_indices: "i \<in> set (indices index votes) \<longleftrightarrow> (\<exists>v \<in> set votes. index (bare_token (fst v)) = Some i)"
  by (induction votes) (auto simp: indices_def List.map_filter_def)

lemma indices_length: "\<forall>v \<in> set votes. index (bare_token (fst v)) \<noteq> None \<Longrightarrow> length (indices index votes) = length votes"
  by (induction votes) (auto simp: indices_def List.map_filter_def)

section \<open>The keys that have no row\<close>

lemma absent_counters:
  "saScannedRows (fold absent_key kfs a) = saScannedRows a" "saUnexpectedRows (fold absent_key kfs a) = saUnexpectedRows a"
  "saStable (fold absent_key kfs a) = saStable a" "saRows (fold absent_key kfs a) = saRows a"
  "saUnsentRows (fold absent_key kfs a) = saUnsentRows a" "saContentMismatches (fold absent_key kfs a) = saContentMismatches a"
  "saConfirmedMissing (fold absent_key kfs a) =
     saConfirmedMissing a + int (length (filter (\<lambda>(k, found). \<not> found \<and> ksConfirmedChoices k \<noteq> 0) kfs))"
  "saMultipleAccepted (fold absent_key kfs a) = saMultipleAccepted a + int (length (filter (\<lambda>(k, found). ksAccepted k > 1) kfs))"
  by (induction kfs arbitrary: a) (simp_all add: absent_key_def Let_def split: prod.splits)

section \<open>The final result\<close>

lemma count_at_filter: "count_at x (filter (\<lambda>(k, n). k \<noteq> y) m) = (if x = y then 0 else count_at x m)"
  by (induction m) (auto simp: count_at_def)

lemma check_options_counters:
  "saScannedRows (fst (check_options os counts a)) = saScannedRows a" "saUnexpectedRows (fst (check_options os counts a)) = saUnexpectedRows a"
  "saStable (fst (check_options os counts a)) = saStable a" "saRows (fst (check_options os counts a)) = saRows a"
  "saUnsentRows (fst (check_options os counts a)) = saUnsentRows a"
  "saContentMismatches (fst (check_options os counts a)) = saContentMismatches a"
  "saConfirmedMissing (fst (check_options os counts a)) = saConfirmedMissing a"
  "saMultipleAccepted (fst (check_options os counts a)) = saMultipleAccepted a"
  by (induction os counts a rule: check_options.induct) (simp_all add: Let_def)

lemma check_options_rest: "snd (check_options os counts a) = filter (\<lambda>(k, n). k \<notin> fst ` set os) counts"
  by (induction os counts a rule: check_options.induct) (auto simp: Let_def intro!: filter_cong)

lemma check_options_matches:
  "distinct (map fst os) \<Longrightarrow>
     saAggregateMatches (fst (check_options os counts a)) \<longleftrightarrow> saAggregateMatches a \<and> (\<forall>(x, n) \<in> set os. count_at x counts = n)"
proof (induction os counts a rule: check_options.induct)
  case (2 opt votes rest counts a)
  have "(\<forall>(x, n) \<in> set rest. count_at x (filter (\<lambda>(k, n). k \<noteq> opt) counts) = n) \<longleftrightarrow> (\<forall>(x, n) \<in> set rest. count_at x counts = n)"
    by (rule ball_cong [OF refl]) (use 2(2) in \<open>auto simp: count_at_filter image_iff\<close>)
  then show ?case using 2 by (auto simp: Let_def)
qed simp

lemma count_at_distinct: "distinct (map fst m) \<Longrightarrow> (x, n) \<in> set m \<Longrightarrow> count_at x m = n"
  by (simp add: count_at_def)

lemma count_at_outside: "x \<notin> fst ` set m \<Longrightarrow> count_at x m = 0"
  by (simp add: count_at_def map_of_eq_None_iff [symmetric])

lemma options_agree:
  assumes os: "distinct (map fst os)" and counts: "distinct (map fst counts)"
  shows "(\<forall>(x, n) \<in> set os. count_at x counts = n) \<and> \<not> (\<exists>(k, n) \<in> set (filter (\<lambda>(k, n). k \<notin> fst ` set os) counts). n \<noteq> 0) \<longleftrightarrow>
    (\<forall>x. count_at x os = count_at x counts)"
proof (intro iffI allI conjI)
  fix x
  assume left: "(\<forall>(x, n) \<in> set os. count_at x counts = n) \<and> \<not> (\<exists>(k, n) \<in> set (filter (\<lambda>(k, n). k \<notin> fst ` set os) counts). n \<noteq> 0)"
  show "count_at x os = count_at x counts"
  proof (cases "x \<in> fst ` set os")
    case True
    then obtain n where "(x, n) \<in> set os" by auto
    with left count_at_distinct [OF os] show ?thesis by fastforce
  next
    case False
    show ?thesis
    proof (cases "x \<in> fst ` set counts")
      case True
      then obtain n where n: "(x, n) \<in> set counts" by auto
      with left False have "n = 0" by fastforce
      with n False show ?thesis using count_at_distinct [OF counts n] by (simp add: count_at_outside)
    qed (use False in \<open>simp add: count_at_outside\<close>)
  qed
next
  assume right: "\<forall>x. count_at x os = count_at x counts"
  then show "\<forall>(x, n) \<in> set os. count_at x counts = n" using count_at_distinct [OF os] by fastforce
  show "\<not> (\<exists>(k, n) \<in> set (filter (\<lambda>(k, n). k \<notin> fst ` set os) counts). n \<noteq> 0)"
  proof
    assume "\<exists>(k, n) \<in> set (filter (\<lambda>(k, n). k \<notin> fst ` set os) counts). n \<noteq> 0"
    then obtain k n where kn: "(k, n) \<in> set counts" "k \<notin> fst ` set os" "n \<noteq> 0" by auto
    then have "count_at k counts = n" using count_at_distinct [OF counts] by blast
    with kn right show False by (metis count_at_outside)
  qed
qed

lemma check_aggregate_counters:
  "saScannedRows (check_aggregate t os counts a) = saScannedRows a" "saUnexpectedRows (check_aggregate t os counts a) = saUnexpectedRows a"
  "saStable (check_aggregate t os counts a) = saStable a" "saRows (check_aggregate t os counts a) = saRows a"
  "saUnsentRows (check_aggregate t os counts a) = saUnsentRows a"
  "saContentMismatches (check_aggregate t os counts a) = saContentMismatches a"
  "saConfirmedMissing (check_aggregate t os counts a) = saConfirmedMissing a"
  "saMultipleAccepted (check_aggregate t os counts a) = saMultipleAccepted a"
  by (simp_all add: check_aggregate_def Let_def case_prod_beta check_options_counters)

lemma check_aggregate_matches:
  assumes "distinct (map fst os)" and "distinct (map fst counts)"
  shows "saAggregateMatches (check_aggregate t os counts a) \<longleftrightarrow>
    saRows a = t \<and> saScannedRows a = saRows a \<and> (\<forall>x. count_at x os = count_at x counts)"
  unfolding options_agree [OF assms, symmetric]
  by (simp add: check_aggregate_def Let_def case_prod_beta check_options_rest check_options_matches [OF assms(1)])

section \<open>The whole reconciliation\<close>

text \<open>The transaction reads one snapshot, with the votes \<open>votes\<close> in the order of the scan.\<close>

definition snapshot_reads :: "'c audit_tx \<Rightarrow> sql_vote list \<Rightarrow> bool" where
  "snapshot_reads tx votes \<longleftrightarrow>
     axCount tx = Some (int (length votes)) \<and> (\<forall>n. axRows tx n = Some (map Some (take (nat n) votes)))"

text \<open>What the audit promises: each row agrees with a key of its own, every confirmed key has a row, and the result counts the rows.\<close>

definition rows_agree :: "key_state list \<Rightarrow> sql_vote list \<Rightarrow> bool" where
  "rows_agree ks votes \<longleftrightarrow>
     distinct (map (bare_token \<circ> fst) votes) \<and>
     (\<forall>(token, choices) \<in> set votes. \<exists>k \<in> set ks. ksToken k = bare_token token \<and> row_agrees k choices) \<and>
     (\<forall>k \<in> set ks. ksConfirmedChoices k \<noteq> 0 \<longrightarrow> ksToken k \<in> (bare_token \<circ> fst) ` set votes) \<and>
     (\<forall>k \<in> set ks. ksAccepted k \<le> 1)"

lemma validate_keys_distinct:
  "validate_keys seen ks = None \<Longrightarrow> distinct (map ksToken ks) \<and> set seen \<inter> set (map ksToken ks) = {}"
proof (induction ks arbitrary: seen)
  case (Cons k ks)
  then have "\<not> key_state_bad seen k" "validate_keys (ksToken k # seen) ks = None" by (simp_all split: if_splits)
  with Cons.IH [of "ksToken k # seen"] show ?case by (auto simp: key_state_bad_def)
qed simp

lemma validateLedger_distinct: "validateLedger l = None \<Longrightarrow> distinct (map ksToken (klKeys l))"
  using validate_keys_distinct [of "[]" "klKeys l"] by (auto simp: validateLedger_def split: if_splits)

lemma zip_found_zero:
  assumes "length found = length ks"
  shows "filter (\<lambda>(k, f). \<not> f \<and> P k) (zip ks found) = [] \<longleftrightarrow> (\<forall>i < length ks. P (ks ! i) \<longrightarrow> found ! i)"
    and "filter (\<lambda>(k, f). P k) (zip ks found) = [] \<longleftrightarrow> (\<forall>k \<in> set ks. \<not> P k)"
  using assms by (auto simp: filter_empty_conv set_zip in_set_conv_nth Ball_def)

text \<open>The scan of every row that fits, seen through the counters that decide the verdict.\<close>

lemma scan_verdict:
  assumes ks: "distinct (map ksToken ks)"
    and scan: "scanned ks (key_index ks) a0 (take (Suc (length ks)) votes) (a, found, counts)"
    and rows: "saRows a = int (length votes)"
  shows "(saUnexpectedRows a + (if saRows a > saScannedRows a then saRows a - saScannedRows a else 0) = 0 \<and>
      saUnsentRows a = 0 \<and> saContentMismatches a = 0) \<longleftrightarrow>
    distinct (map (bare_token \<circ> fst) votes) \<and>
    (\<forall>(token, choices) \<in> set votes. \<exists>k \<in> set ks. ksToken k = bare_token token \<and> row_agrees k choices)"
    (is "?counters \<longleftrightarrow> ?rows")
proof -
  let ?vs = "take (Suc (length ks)) votes"
  note inv = scan [unfolded scanned_def prod.case]
  have bound: "\<And>t i. key_index ks t = Some i \<Longrightarrow> i < length ks" using key_index_exact [OF ks] by blast
  have known: "saUnexpectedRows a + (if saRows a > saScannedRows a then saRows a - saScannedRows a else 0) = 0 \<longleftrightarrow>
      (\<forall>v \<in> set ?vs. key_index ks (bare_token (fst v)) \<noteq> None) \<and> length votes \<le> length ks + 1"
    using inv rows by (auto simp: filter_empty_conv)
  have fits: "length votes \<le> length ks"
    if "distinct (indices (key_index ks) votes)" "\<forall>v \<in> set votes. key_index ks (bare_token (fst v)) \<noteq> None"
  proof -
    have "length votes = card (set (indices (key_index ks) votes))"
      using that by (simp add: indices_length distinct_card)
    also have "\<dots> \<le> card {..<length ks}" by (intro card_mono indices_bound bound) simp_all
    finally show ?thesis by simp
  qed
  have apart: "distinct (indices (key_index ks) vs) \<longleftrightarrow> distinct (map (bare_token \<circ> fst) vs)"
    if "\<forall>v \<in> set vs. key_index ks (bare_token (fst v)) \<noteq> None" for vs
  proof -
    have "indices (key_index ks) vs = map (the \<circ> key_index ks) (map (bare_token \<circ> fst) vs)"
      using that by (induction vs) (auto simp: indices_def List.map_filter_def)
    moreover have "inj_on (the \<circ> key_index ks) (set (map (bare_token \<circ> fst) vs))"
    proof (rule inj_onI)
      fix x y
      assume xy: "x \<in> set (map (bare_token \<circ> fst) vs)" "y \<in> set (map (bare_token \<circ> fst) vs)" "(the \<circ> key_index ks) x = (the \<circ> key_index ks) y"
      from xy(1) that obtain i where i: "key_index ks x = Some i" by auto
      from xy(2) that obtain j where j: "key_index ks y = Some j" by auto
      from i j xy(3) have "i = j" by simp
      with i j key_index_exact [OF ks, of x i] key_index_exact [OF ks, of y j] show "x = y" by simp
    qed
    ultimately show ?thesis by (simp only: distinct_map [of "the \<circ> key_index ks"] simp_thms)
  qed
  have agrees: "(\<forall>i. key_index ks t = Some i \<longrightarrow> row_agrees (ks ! i) cs) \<longleftrightarrow> (\<exists>k \<in> set ks. ksToken k = t \<and> row_agrees k cs)"
    if t: "key_index ks t \<noteq> None" for t cs
  proof -
    from t obtain i where i: "key_index ks t = Some i" by blast
    have "\<And>k. k \<in> set ks \<and> ksToken k = t \<longleftrightarrow> k = ks ! i"
      using i key_index_exact [OF ks] by (metis in_set_conv_nth option.inject)
    then have "(\<exists>k \<in> set ks. ksToken k = t \<and> row_agrees k cs) \<longleftrightarrow> row_agrees (ks ! i) cs" by (metis (no_types))
    then show ?thesis using i by simp
  qed
  have none: "key_index ks t \<noteq> None" if "\<exists>k \<in> set ks. ksToken k = t \<and> row_agrees k cs" for t cs
    using that key_index_none [OF ks, of t] by auto
  show ?thesis
  proof
    assume c: ?counters
    then have k: "\<forall>v \<in> set ?vs. key_index ks (bare_token (fst v)) \<noteq> None" "length votes \<le> length ks + 1" using known by blast+
    then have all: "?vs = votes" by simp
    with c inv have "distinct (indices (key_index ks) votes)"
      "\<forall>v \<in> set votes. \<forall>i. key_index ks (bare_token (fst v)) = Some i \<longrightarrow> row_agrees (ks ! i) (snd v)" by simp_all
    with k all agrees apart [of votes] show ?rows by (simp add: case_prod_beta)
  next
    assume r: ?rows
    then have k: "\<forall>v \<in> set votes. key_index ks (bare_token (fst v)) \<noteq> None" using none by fastforce
    with r apart [of votes] have d: "distinct (indices (key_index ks) votes)" by blast
    with k fits have all: "?vs = votes" "length votes \<le> length ks + 1" by simp_all
    have "\<forall>v \<in> set votes. \<forall>i. key_index ks (bare_token (fst v)) = Some i \<longrightarrow> row_agrees (ks ! i) (snd v)"
      using r k agrees by (simp add: case_prod_beta)
    with d k all known inv show ?counters by simp
  qed
qed

lemma found_verdict:
  assumes ks: "distinct (map ksToken ks)"
    and scan: "scanned ks (key_index ks) a0 votes (a, found, counts)"
  shows "(\<forall>i < length ks. ksConfirmedChoices (ks ! i) \<noteq> 0 \<longrightarrow> found ! i) \<longleftrightarrow>
    (\<forall>k \<in> set ks. ksConfirmedChoices k \<noteq> 0 \<longrightarrow> ksToken k \<in> (bare_token \<circ> fst) ` set votes)"
proof -
  have "found ! i \<longleftrightarrow> ksToken (ks ! i) \<in> (bare_token \<circ> fst) ` set votes" if i: "i < length ks" for i
  proof -
    have "found ! i \<longleftrightarrow> i \<in> set (indices (key_index ks) votes)" using scan i by (simp add: scanned_def)
    also have "\<dots> \<longleftrightarrow> (\<exists>v \<in> set votes. key_index ks (bare_token (fst v)) = Some i)" by (rule in_indices)
    also have "\<dots> \<longleftrightarrow> (\<exists>v \<in> set votes. ksToken (ks ! i) = bare_token (fst v))"
      by (simp add: key_index_exact [OF ks] i)
    finally show ?thesis by (auto simp: image_iff)
  qed
  then show ?thesis unfolding all_set_conv_all_nth by blast
qed

lemma reconcile_verdict:
  assumes "distinct (map ksToken (klKeys l))" and "snapshot_reads tx votes"
    and "axResult tx = Some (final_total, encoded)" and "unmarshal_options encoded = Some options" and "distinct (map fst options)"
    and "storage_reconcile unmarshal_options tx l = Some a"
  shows "saCorrect a \<longleftrightarrow> axStable tx = Some True \<and> rows_agree (klKeys l) votes \<and> final_total = int (length votes) \<and>
    (\<forall>choice. count_at choice options = int (vote_tally choice votes))"
proof -
  let ?ks = "klKeys l"
  let ?vs = "take (Suc (length ?ks)) votes"
  have ks: "distinct (map ksToken ?ks)" by (rule assms(1))
  have bound: "\<And>t i. key_index ?ks t = Some i \<Longrightarrow> i < length ?ks" using key_index_exact [OF ks] by blast
  have answers: "axCount tx = Some (int (length votes))" "axRows tx (int (length ?ks) + 1) = Some (map Some ?vs)"
    using assms(2) by (simp_all add: snapshot_reads_def nat_add_distrib)
  from assms(6) obtain is_final where final: "axStable tx = Some is_final"
    by (auto simp: storage_reconcile_def split: option.splits if_splits)
  define a0 where "a0 = empty_sg_audit\<lparr>saStable := is_final, saRows := int (length votes)\<rparr>"
  obtain a1 found counts where scan: "fold (scan_vote ?ks (key_index ?ks)) ?vs (a0, replicate (length ?ks) False, []) = (a1, found, counts)"
    by (metis prod_cases3)
  have inv: "scanned ?ks (key_index ?ks) a0 ?vs (a1, found, counts)"
  proof -
    have "empty_sg_audit\<lparr>saStable := saStable a0, saRows := saRows a0\<rparr> = a0" by (simp add: a0_def)
    moreover have "scanned ?ks (key_index ?ks) a0 ?vs (fold (scan_vote ?ks (key_index ?ks)) ?vs
        (empty_sg_audit\<lparr>saStable := saStable a0, saRows := saRows a0\<rparr>, replicate (length ?ks) False, []))"
      by (rule scanned_fold) (rule bound)
    ultimately show ?thesis by (simp only: scan)
  qed
  define a2 where "a2 = fold absent_key (zip ?ks found)
    (if saRows a1 > saScannedRows a1 then a1\<lparr>saUnexpectedRows := saUnexpectedRows a1 + (saRows a1 - saScannedRows a1)\<rparr> else a1)"
  define a3 where "a3 = (if is_final then check_aggregate final_total options counts a2 else a2)"
  have run: "a = a3\<lparr>saCorrect := audit_correct a3\<rparr>"
    using assms(6) unfolding storage_reconcile_def answers final
    by (simp add: scan_votes_fold scan a0_def [symmetric] a2_def [symmetric] a3_def assms(3,4) Let_def split: if_splits)
  note inv' = inv [unfolded scanned_def prod.case]
  have rows: "saRows a1 = int (length votes)" "saStable a1 = is_final" using inv' by (simp_all add: a0_def)
  have found: "length found = length ?ks" using inv' by blast
  have counters: "saStable a3 = is_final" "saUnsentRows a3 = saUnsentRows a1" "saContentMismatches a3 = saContentMismatches a1"
    "saUnexpectedRows a3 = saUnexpectedRows a1 + (if saRows a1 > saScannedRows a1 then saRows a1 - saScannedRows a1 else 0)"
    using rows by (simp_all add: a3_def a2_def check_aggregate_counters absent_counters)
  have missing: "saConfirmedMissing a3 = 0 \<longleftrightarrow> (\<forall>i < length ?ks. ksConfirmedChoices (?ks ! i) \<noteq> 0 \<longrightarrow> found ! i)"
    "saMultipleAccepted a3 = 0 \<longleftrightarrow> (\<forall>k \<in> set ?ks. ksAccepted k \<le> 1)"
    using inv' zip_found_zero(1) [OF found, of "\<lambda>k. ksConfirmedChoices k \<noteq> 0"] zip_found_zero(2) [OF found, of "\<lambda>k. ksAccepted k > 1"]
    by (simp_all add: a3_def a2_def check_aggregate_counters absent_counters not_less)
  have aggregate: "is_final \<Longrightarrow> saAggregateMatches a3 \<longleftrightarrow> int (length votes) = final_total \<and> int (length ?vs) = int (length votes) \<and>
      (\<forall>x. count_at x options = int (vote_tally x ?vs))"
    using inv' rows check_aggregate_matches [OF assms(5), of counts final_total a2]
    by (simp add: a3_def a2_def absent_counters)
  have all: "int (length ?vs) = int (length votes) \<Longrightarrow> ?vs = votes" by simp
  have fits: "rows_agree ?ks votes \<Longrightarrow> int (length ?vs) = int (length votes)"
  proof -
    assume "rows_agree ?ks votes"
    then have "saUnexpectedRows a3 = 0" using scan_verdict [OF ks inv rows(1)] counters by (simp add: rows_agree_def)
    then show ?thesis using inv' rows counters(4) by (simp split: if_splits)
  qed
  show ?thesis
  proof
    assume "saCorrect a"
    then have c: "audit_correct a3" by (simp add: run)
    then have f: "is_final" using counters by (simp add: audit_correct_def)
    with c aggregate have len: "int (length ?vs) = int (length votes)" by (simp add: audit_correct_def)
    show "axStable tx = Some True \<and> rows_agree ?ks votes \<and> final_total = int (length votes) \<and>
        (\<forall>choice. count_at choice options = int (vote_tally choice votes))"
      using c f aggregate scan_verdict [OF ks inv rows(1)] found_verdict [OF ks inv] counters missing final
      unfolding all [OF len] by (simp add: audit_correct_def rows_agree_def)
  next
    assume r: "axStable tx = Some True \<and> rows_agree ?ks votes \<and> final_total = int (length votes) \<and>
        (\<forall>choice. count_at choice options = int (vote_tally choice votes))"
    then have len: "int (length ?vs) = int (length votes)" using fits by blast
    have "audit_correct a3"
      using r aggregate scan_verdict [OF ks inv rows(1)] found_verdict [OF ks inv] counters missing final
      unfolding all [OF len] by (simp add: audit_correct_def rows_agree_def)
    then show "saCorrect a" by (simp add: run)
  qed
qed

text \<open>C19. A reconciliation of the database benchmark is correct exactly when the poll is final and its votes are what the ledger of the run
  allows: no two rows have the same token, each row belongs to a key of the ledger that was sent its choice and agrees with every receipt
  and confirmation of the key, every key with a confirmed choice has a row, no key was accepted twice, and the total and the counts of the
  final result are those of the rows.\<close>

theorem storage_reconcile_exact:
  assumes "validateLedger l = None" and "snapshot_reads tx votes"
    and "axResult tx = Some (final_total, encoded)" and "unmarshal_options encoded = Some options" and "distinct (map fst options)"
    and "storage_reconcile unmarshal_options tx l = Some a"
  shows "saCorrect a \<longleftrightarrow> axStable tx = Some True \<and> rows_agree (klKeys l) votes \<and> final_total = int (length votes) \<and>
    (\<forall>choice. count_at choice options = int (vote_tally choice votes))"
  by (rule reconcile_verdict [OF validateLedger_distinct [OF assms(1)] assms(2-6)])

definition demo_sg_key :: key_state where
  "demo_sg_key = \<lparr>ksToken = ''00112233445566778899aabbccddeeff'', ksSentChoices = 1, ksConfirmedChoices = 1, ksReceiptChoices = 1, ksAccepted = 1,
     ksUnknown = False, ksFirstConfirmation = 0, ksHasConfirmation = True\<rparr>"

definition demo_sg_ledger :: key_ledger where
  "demo_sg_ledger = \<lparr>klVersion = 1, klSchema = ''gqbench_0123456789abcdef'', klPollID = ''00112233-4455-6677-8899-aabbccddeeff'',
     klMode = ''vote'', klPollEndsAt = 0, klKeys = [demo_sg_key]\<rparr>"

definition demo_sg_votes :: "sql_vote list" where
  "demo_sg_votes = [(''00112233-4455-6677-8899-aabbccddeeff'', [1])]"

definition demo_audit_tx :: "(int \<times> int) list audit_tx" where
  "demo_audit_tx = \<lparr>axBegun = True, axStable = Some True, axCount = Some 1, axRows = (\<lambda>n. Some (map Some (take (nat n) demo_sg_votes))),
     axRowsError = False, axResult = Some (1, [(1, 1), (2, 0)]), axCommitted = True\<rparr>"

lemma demo_sg_ledger_valid: "validateLedger demo_sg_ledger = None"
  by code_simp

lemma storage_reconcile_exact_witness:
  "\<exists>a. storage_reconcile Some demo_audit_tx demo_sg_ledger = Some a \<and> saCorrect a"
proof -
  have "storage_reconcile Some demo_audit_tx demo_sg_ledger \<noteq> None" by code_simp
  then obtain a where run: "storage_reconcile Some demo_audit_tx demo_sg_ledger = Some a" by blast
  have reads: "snapshot_reads demo_audit_tx demo_sg_votes"
    by (simp add: snapshot_reads_def demo_audit_tx_def demo_sg_votes_def)
  have result: "axResult demo_audit_tx = Some (1, [(1, 1), (2, 0)])" "axStable demo_audit_tx = Some True" by (simp_all add: demo_audit_tx_def)
  have agree: "rows_agree (klKeys demo_sg_ledger) demo_sg_votes" by code_simp
  have "\<forall>choice. count_at choice [(1, 1), (2, 0)] = int (vote_tally choice demo_sg_votes)"
    by (simp add: count_at_def vote_tally_def demo_sg_votes_def)
  with agree result have "saCorrect a"
    using storage_reconcile_exact [OF demo_sg_ledger_valid reads result(1) refl _ run] by (simp add: demo_sg_votes_def)
  with run show ?thesis by blast
qed

end
