(* ===== verification/Storagebench_Keys.thy ===== *)
theory Storagebench_Keys
  imports Storagebench_Inv Storagebench_Audit_Props
begin

text \<open>
  What the observations of the database benchmark say of each key: the masks of the choices sent, confirmed and received, and the number of its
  attempts, which is at most two. From this, the ledger of a whole run is one that the audit accepts, and a confirmation that a client
  received in the run stays with its key until the audit.
\<close>

section \<open>Masks\<close>

definition mask_ok :: "u8 \<Rightarrow> bool" where
  "mask_ok m \<longleftrightarrow> m \<in> {0, 1, 2, 3}"

lemma mask_ok_simps [simp]: "mask_ok 0" "mask_ok 1" "mask_ok 2"
  by (simp_all add: mask_ok_def)

lemma mask_ok_or: "mask_ok a \<Longrightarrow> mask_ok b \<Longrightarrow> mask_ok (a OR b)"
  by (auto simp: mask_ok_def)

lemma mask_ok_le: "mask_ok m \<Longrightarrow> m \<le> 3"
  by (auto simp: mask_ok_def)

definition choice_ok :: "int \<Rightarrow> bool" where
  "choice_ok ch \<longleftrightarrow> ch = 1 \<or> ch = 2"

lemma attempt_mask_ok: "choice_ok (jbChoice j) \<Longrightarrow> mask_ok (attempt_mask j) \<and> attempt_mask j \<noteq> 0"
  by (auto simp: choice_ok_def attempt_mask_def)

lemma choiceMask_ok: "mask_ok (choiceMask cs)"
proof (cases "length cs = 1 \<and> 1 \<le> cs ! 0 \<and> cs ! 0 \<le> 2")
  case True
  then have "cs ! 0 = 1 \<or> cs ! 0 = 2" by linarith
  with True show ?thesis by (auto simp: choiceMask_def)
qed (auto simp: choiceMask_def)

text \<open>\<open>a\<close> lies within \<open>b\<close>.\<close>

definition within :: "u8 \<Rightarrow> u8 \<Rightarrow> bool" where
  "within a b \<longleftrightarrow> a OR b = b"

lemma within_refl [simp]: "within a a" "within 0 a"
  by (simp_all add: within_def)

lemma within_or: "within a b \<Longrightarrow> within a (b OR d)"
  by (simp add: within_def or.assoc [symmetric])

lemma within_or2 [simp]: "within d (b OR d)" "within b (b OR d)"
  by (simp_all add: within_def or.left_commute or.commute)

lemma within_join: "within a d \<Longrightarrow> within b d \<Longrightarrow> within (a OR b) d"
  by (simp add: within_def or.assoc)

lemma within_trans: "within a b \<Longrightarrow> within b d \<Longrightarrow> within a d"
  unfolding within_def by (metis or.assoc)

lemma within_zero: "within a 0 \<longleftrightarrow> a = 0"
  by (simp add: within_def)

section \<open>Keys and attempts\<close>

definition key_ok :: "key_state \<Rightarrow> bool" where
  "key_ok k \<longleftrightarrow> mask_ok (ksSentChoices k) \<and> mask_ok (ksConfirmedChoices k) \<and> within (ksConfirmedChoices k) (ksSentChoices k) \<and>
     mask_ok (ksReceiptChoices k) \<and> within (ksConfirmedChoices k) (ksReceiptChoices k) \<and>
     (ksHasConfirmation k \<longleftrightarrow> ksConfirmedChoices k \<noteq> 0) \<and> 0 \<le> ksAccepted k"

lemma key_ok_sent:
  "key_ok k \<Longrightarrow> choice_ok (jbChoice j) \<Longrightarrow> key_ok (k\<lparr>ksSentChoices := ksSentChoices k OR attempt_mask j\<rparr>)"
  using attempt_mask_ok [of j] by (auto simp: key_ok_def mask_ok_or intro: within_or)

definition confirms :: "attempt_job \<Rightarrow> string \<Rightarrow> receipt \<Rightarrow> bool" where
  "confirms j status r \<longleftrightarrow>
     (status = ''accepted'' \<or> status = ''duplicate'') \<and> choiceMask (rcChoices r) = attempt_mask j \<and> rcAcceptedAt r \<noteq> None"

lemma observe_receipt_confirms:
  "confirms j status r \<Longrightarrow> observe_receipt j status r d k =
     (let k = k\<lparr>ksReceiptChoices := ksReceiptChoices k OR choiceMask (rcChoices r)\<rparr>;
          k = (if \<not> ksHasConfirmation k \<or> d < ksFirstConfirmation k then k\<lparr>ksFirstConfirmation := d, ksHasConfirmation := True\<rparr> else k);
          k = k\<lparr>ksConfirmedChoices := ksConfirmedChoices k OR attempt_mask j\<rparr>
      in if status = ''accepted'' then k\<lparr>ksAccepted := ksAccepted k + 1\<rparr> else k)"
  by (simp add: observe_receipt_def confirms_def Let_def)

lemma observe_receipt_plain:
  "\<not> confirms j status r \<Longrightarrow> observe_receipt j status r d k =
     (let k = k\<lparr>ksReceiptChoices := ksReceiptChoices k OR choiceMask (rcChoices r)\<rparr>
      in if status = ''accepted'' then k\<lparr>ksAccepted := ksAccepted k + 1\<rparr> else k)"
  unfolding observe_receipt_def confirms_def Let_def by (simp only: if_False)

lemma observe_receipt_fields [simp]:
  "ksToken (observe_receipt j status r d k) = ksToken k" "ksSentChoices (observe_receipt j status r d k) = ksSentChoices k"
  "ksAccepted (observe_receipt j status r d k) = ksAccepted k + of_bool (status = ''accepted'')"
  "ksReceiptChoices (observe_receipt j status r d k) = ksReceiptChoices k OR choiceMask (rcChoices r)"
  "ksConfirmedChoices (observe_receipt j status r d k) = ksConfirmedChoices k OR (if confirms j status r then attempt_mask j else 0)"
  "ksHasConfirmation (observe_receipt j status r d k) \<longleftrightarrow> ksHasConfirmation k \<or> confirms j status r"
  by (cases "confirms j status r"; simp add: observe_receipt_confirms observe_receipt_plain Let_def)+

lemma key_ok_receipt:
  assumes k: "key_ok k" and j: "choice_ok (jbChoice j)" "within (attempt_mask j) (ksSentChoices k)"
  shows "key_ok (observe_receipt j status r d k)"
proof (cases "confirms j status r")
  case True
  then have "choiceMask (rcChoices r) = attempt_mask j" by (simp add: confirms_def)
  then show ?thesis
    using k j attempt_mask_ok [OF j(1)] True by (simp add: key_ok_def mask_ok_or within_join within_or or_eq_0_iff)
next
  case False
  then show ?thesis using k choiceMask_ok by (simp add: key_ok_def mask_ok_or within_or)
qed

text \<open>What an answer does to its key.\<close>

lemma observe_answer_key:
  obtains k where "obKeys (observe_answer j ans began finished start m) = (obKeys m)[jbIndex j := k]"
    and "ksToken k = ksToken (obKeys m ! jbIndex j)" and "ksSentChoices k = ksSentChoices (obKeys m ! jbIndex j)"
    and "ksAccepted k \<le> ksAccepted (obKeys m ! jbIndex j) + 1" and "within (ksConfirmedChoices (obKeys m ! jbIndex j)) (ksConfirmedChoices k)"
    and "key_ok (obKeys m ! jbIndex j) \<Longrightarrow> choice_ok (jbChoice j) \<Longrightarrow> within (attempt_mask j) (ksSentChoices (obKeys m ! jbIndex j)) \<Longrightarrow> key_ok k"
    and "\<And>r. ans = Some r \<Longrightarrow> confirms j (rcStatus r) r \<Longrightarrow> within (attempt_mask j) (ksConfirmedChoices k)"
proof (cases rule: observe_answer_cases [of ans j began finished start m])
  case unknown
  have none: "\<not> (ans = Some r \<and> confirms j (rcStatus r) r)" for r
    using unknown(1,3) by (auto simp: observed_status_def confirms_def split: if_splits)
  show ?thesis
    by (rule that [of "(obKeys m ! jbIndex j)\<lparr>ksUnknown := True\<rparr>"]) (use none in \<open>simp_all add: unknown key_ok_def\<close>)
next
  case (accepted r)
  show ?thesis
    by (rule that [of "observe_receipt j ''accepted'' r (time_sub finished (jbScheduled j)) (obKeys m ! jbIndex j)"])
      (use accepted in \<open>simp_all add: key_ok_receipt within_or\<close>)
next
  case (known r)
  show ?thesis
    by (rule that [of "observe_receipt j (rcStatus r) r (time_sub finished (jbScheduled j)) (obKeys m ! jbIndex j)"])
      (use known in \<open>auto simp: key_ok_receipt within_or\<close>)
next
  case other
  have none: "\<not> (ans = Some r \<and> confirms j (rcStatus r) r)" for r
    using other(1,3) by (auto simp: observed_status_def confirms_def split: if_splits)
  show ?thesis
    by (rule that [of "obKeys m ! jbIndex j"]) (use none in \<open>simp_all add: other(2) counted_def\<close>)
qed

section \<open>The attempts of a key\<close>

definition job_in_hand :: "sg_worker \<Rightarrow> attempt_job list" where
  "job_in_hand w = (case w of WaitingWorker \<Rightarrow> [] | TakenAttempt j \<Rightarrow> [j] | CallingAttempt j t \<Rightarrow> [j])"

lemma job_in_hand_simps [simp]: "job_in_hand WaitingWorker = []" "job_in_hand (TakenAttempt j) = [j]" "job_in_hand (CallingAttempt j t) = [j]"
  by (simp_all add: job_in_hand_def)

definition of_key :: "nat \<Rightarrow> attempt_job list \<Rightarrow> int" where
  "of_key i js = how_many (\<lambda>j. jbIndex j = i) js"

lemma of_key_simps [simp]:
  "of_key i [] = 0" "of_key i (j # js) = of_bool (jbIndex j = i) + of_key i js" "of_key i (js @ js') = of_key i js + of_key i js'"
  by (simp_all add: of_key_def)

definition with_workers :: "nat \<Rightarrow> sg_worker list \<Rightarrow> int" where
  "with_workers i ws = sum_list (map (\<lambda>w. of_key i (job_in_hand w)) ws)"

lemma with_workers_update:
  "w < length ws \<Longrightarrow> with_workers i (ws[w := a]) = with_workers i ws - of_key i (job_in_hand (ws ! w)) + of_key i (job_in_hand a)"
  by (simp add: with_workers_def map_update sum_list_update_int)

lemma with_workers_idle: "with_workers i (replicate n WaitingWorker) = 0"
  by (induction n) (simp_all add: with_workers_def)

lemma of_key_nonneg: "0 \<le> of_key i js"
  by (simp add: of_key_def how_many_nonneg)

lemma with_workers_nonneg: "0 \<le> with_workers i ws"
  unfolding with_workers_def by (intro sum_list_nonneg) (auto simp: of_key_nonneg)

text \<open>The attempts of key \<open>i\<close> that are under way or accepted, and how many it may have.\<close>

definition offers_of :: "nat \<Rightarrow> sg_state \<Rightarrow> int" where
  "offers_of i s = (if is_offering s \<and> swNext s = i then int (length (remaining_offers s)) else 0)"

definition spent :: "nat \<Rightarrow> sg_state \<Rightarrow> int" where
  "spent i s = ksAccepted (obKeys (swObs s) ! i) + of_key i (swQueue s) + with_workers i (swWorkers s) + offers_of i s"

definition allowed :: "nat \<Rightarrow> sg_state \<Rightarrow> int" where
  "allowed i s = (if i < swNext s \<or> (i = swNext s \<and> is_offering s) then 2 else 0)"

definition job_fits :: "sg_state \<Rightarrow> attempt_job \<Rightarrow> bool" where
  "job_fits s j \<longleftrightarrow> jbIndex j < length (obKeys (swObs s)) \<and> choice_ok (jbChoice j)"

definition worker_fits :: "sg_state \<Rightarrow> sg_worker \<Rightarrow> bool" where
  "worker_fits s w \<longleftrightarrow> (case w of WaitingWorker \<Rightarrow> True | TakenAttempt j \<Rightarrow> job_fits s j
     | CallingAttempt j t \<Rightarrow> job_fits s j \<and> within (attempt_mask j) (ksSentChoices (obKeys (swObs s) ! jbIndex j)))"

definition keys_inv :: "string list \<Rightarrow> sg_config \<Rightarrow> sg_state \<Rightarrow> bool" where
  "keys_inv tokens c s \<longleftrightarrow>
     map ksToken (obKeys (swObs s)) = tokens \<and> int (length tokens) = sgTotal c \<and> int (swNext s) + of_bool (is_offering s) \<le> sgTotal c \<and>
     list_all key_ok (obKeys (swObs s)) \<and> list_all (job_fits s) (swQueue s) \<and> list_all (worker_fits s) (swWorkers s) \<and>
     list_all choice_ok (remaining_offers s) \<and> (\<forall>i < length tokens. spent i s \<le> allowed i s)"

text \<open>Steps that only touch the schedule, the queue and the workers.\<close>

lemma keys_length: "keys_inv tokens c s \<Longrightarrow> length (obKeys (swObs s)) = length tokens"
  unfolding keys_inv_def by (metis length_map)

lemma offered_fits: "list_all choice_ok (offered_choices c n) \<and> int (length (offered_choices c n)) \<le> 2"
  by (simp add: offered_choices_def choice_ok_def)

lemma fits_same_keys:
  assumes "obKeys (swObs t) = obKeys (swObs s)"
  shows "job_fits t = job_fits s" "worker_fits t = worker_fits s"
  using assms by (auto simp: fun_eq_iff job_fits_def worker_fits_def split: sg_worker.split)

lemma keys_turn:
  assumes s: "keys_inv tokens c s" and ph: "swPhase s = Scheduling" "int (swNext s) < sgTotal c"
  shows "keys_inv tokens c (schedule_turn c start now s)"
proof -
  let ?t = "schedule_turn c start now s"
  have same: "obKeys (swObs ?t) = obKeys (swObs s)" "swQueue ?t = swQueue s" "swWorkers ?t = swWorkers s"
    by (simp_all add: schedule_turn_def Let_def)
  have phases: "(swPhase ?t = Scheduling \<and> swNext s \<le> swNext ?t \<and> int (swNext ?t) \<le> sgTotal c) \<or>
      (swPhase ?t = Offering (offered_choices c (swNext s)) \<and> swNext ?t = swNext s)"
    using ph by (auto simp: schedule_turn_def Let_def)
  have "spent i ?t \<le> allowed i ?t" if "i < length tokens" for i
  proof -
    have "spent i s \<le> allowed i s" using s that by (simp add: keys_inv_def)
    then show ?thesis
      using phases ph offered_fits [of c "swNext s"]
      by (auto simp: spent_def allowed_def offers_of_def same split: if_splits)
  qed
  moreover have "list_all choice_ok (remaining_offers ?t) \<and> int (swNext ?t) + of_bool (is_offering ?t) \<le> sgTotal c"
    using phases ph offered_fits [of c "swNext s"] by auto
  ultimately show ?thesis using s same fits_same_keys [OF same(1)] unfolding keys_inv_def by simp
qed

lemma keys_offer:
  assumes s: "keys_inv tokens c s" and ph: "swPhase s = Offering choices"
  shows "keys_inv tokens c (offer_next c start choices s)"
proof (cases choices)
  case Nil
  let ?t = "s\<lparr>swNext := swNext s + 1, swPhase := Scheduling\<rparr>"
  have "spent i ?t \<le> allowed i ?t" if "i < length tokens" for i
  proof -
    have "spent i s \<le> allowed i s" using s that by (simp add: keys_inv_def)
    then show ?thesis using ph Nil by (auto simp: spent_def allowed_def offers_of_def split: if_splits)
  qed
  then show ?thesis using s ph Nil fits_same_keys [of ?t s] by (simp add: offer_next_def keys_inv_def)
next
  case (Cons choice rest)
  let ?t = "offer_next c start choices s"
  have keys: "obKeys (swObs ?t) = obKeys (swObs s)" by (simp add: offer_next_def offer_def Let_def Cons)
  have t: "swWorkers ?t = swWorkers s" "swNext ?t = swNext s" "swPhase ?t = Offering rest"
    by (simp_all add: offer_next_def offer_def Let_def Cons)
  have queue: "swQueue ?t = swQueue s \<or>
      swQueue ?t = swQueue s @ [\<lparr>jbIndex = swNext s, jbChoice = choice, jbScheduled = scheduled_at c start (swNext s)\<rparr>]"
    by (simp add: offer_next_def offer_def Let_def Cons)
  have "spent i ?t \<le> allowed i ?t" if "i < length tokens" for i
  proof -
    have "spent i s \<le> allowed i s" using s that by (simp add: keys_inv_def)
    then show ?thesis
      using ph t keys queue Cons by (auto simp: spent_def allowed_def offers_of_def split: if_splits)
  qed
  moreover have fits: "swNext s < length tokens" "choice_ok choice" "list_all choice_ok rest" using s ph Cons by (auto simp: keys_inv_def)
  moreover have "list_all (job_fits s) (swQueue ?t)"
  proof -
    have "list_all (job_fits s) (swQueue s)" using s by (simp add: keys_inv_def)
    moreover have "job_fits s \<lparr>jbIndex = swNext s, jbChoice = choice, jbScheduled = scheduled_at c start (swNext s)\<rparr>"
      using fits keys_length [OF s] by (simp add: job_fits_def)
    ultimately show ?thesis using queue by (elim disjE) simp_all
  qed
  ultimately show ?thesis using s ph t keys fits_same_keys [OF keys] unfolding keys_inv_def by simp
qed

lemma list_all_update: "list_all P xs \<Longrightarrow> P x \<Longrightarrow> list_all P (xs[i := x])"
  by (induction xs arbitrary: i) (auto split: nat.splits)

lemma offers_cong: "swPhase t = swPhase s \<Longrightarrow> swNext t = swNext s \<Longrightarrow>
    remaining_offers t = remaining_offers s \<and> is_offering t = is_offering s \<and> offers_of i t = offers_of i s \<and> allowed i t = allowed i s"
  by (simp add: remaining_offers_def is_offering_def offers_of_def allowed_def)

text \<open>A step of a worker that changes one key, whose attempts do not become more than they were.\<close>

lemma keys_worker:
  assumes s: "keys_inv tokens c s" and phase: "swPhase t = swPhase s" "swNext t = swNext s"
    and keys: "obKeys (swObs t) = (obKeys (swObs s))[n := k]"
    and k: "n < length tokens \<Longrightarrow> key_ok k \<and> ksToken k = ksToken (obKeys (swObs s) ! n) \<and>
      within (ksSentChoices (obKeys (swObs s) ! n)) (ksSentChoices k)"
    and queue: "list_all (job_fits s) (swQueue t)" and workers: "swWorkers t = (swWorkers s)[w := a]" "worker_fits t a"
    and spent: "\<And>i. i < length tokens \<Longrightarrow> ksAccepted (obKeys (swObs t) ! i) + of_key i (swQueue t) + with_workers i (swWorkers t) \<le>
      ksAccepted (obKeys (swObs s) ! i) + of_key i (swQueue s) + with_workers i (swWorkers s)"
  shows "keys_inv tokens c t"
proof -
  note offers = offers_cong [OF phase]
  have len: "length (obKeys (swObs s)) = length tokens" using s by (rule keys_length)
  have tokens: "map ksToken (obKeys (swObs t)) = tokens"
  proof -
    have "map ksToken (obKeys (swObs t)) = (map ksToken (obKeys (swObs s)))[n := ksToken k]" by (simp add: keys map_update)
    also have "\<dots> = map ksToken (obKeys (swObs s))"
      using k len by (cases "n < length tokens") (simp_all add: list_update_same_conv list_update_beyond)
    finally show ?thesis using s by (simp add: keys_inv_def)
  qed
  have keys_ok: "list_all key_ok (obKeys (swObs t))"
    using s k len by (cases "n < length tokens") (simp_all add: keys keys_inv_def list_all_update list_update_beyond)
  have jobs: "job_fits t = job_fits s" by (simp add: fun_eq_iff job_fits_def keys)
  have grow: "within (ksSentChoices (obKeys (swObs s) ! i)) (ksSentChoices (obKeys (swObs t) ! i))" if "i < length tokens" for i
    using that k len by (cases "i = n") (simp_all add: keys)
  have fits: "worker_fits t v" if "worker_fits s v" for v
    using that len by (auto simp: worker_fits_def jobs job_fits_def intro: within_trans [OF _ grow] split: sg_worker.splits)
  have "list_all (worker_fits t) (swWorkers s)" using s fits by (auto simp: keys_inv_def list_all_iff)
  then have workers_ok: "list_all (worker_fits t) (swWorkers t)" using workers by (simp add: list_all_update)
  have "spent i t \<le> allowed i t" if "i < length tokens" for i
  proof -
    have "spent i s \<le> allowed i s" using s that by (simp add: keys_inv_def)
    then show ?thesis using spent [OF that] offers [of i] by (simp add: spent_def)
  qed
  then show ?thesis using s tokens keys_ok jobs workers_ok queue offers phase by (simp add: keys_inv_def)
qed

lemma update_same: "xs[n := xs ! n] = xs"
  by simp

lemma keys_takes:
  assumes s: "keys_inv tokens c s" and w: "w < length (swWorkers s)" "swWorkers s ! w = WaitingWorker" and q: "swQueue s = j # js"
  shows "keys_inv tokens c (set_worker w (TakenAttempt j) (s\<lparr>swQueue := js\<rparr>))"
proof -
  have j: "job_fits s j" "list_all (job_fits s) js" using s q by (simp_all add: keys_inv_def)
  show ?thesis
  proof (rule keys_worker [where n = "length tokens" and k = "hd (obKeys (swObs s))" and w = w and a = "TakenAttempt j", OF s])
    show "list_all (job_fits s) (swQueue (set_worker w (TakenAttempt j) (s\<lparr>swQueue := js\<rparr>)))" using j by simp
    show "worker_fits (set_worker w (TakenAttempt j) (s\<lparr>swQueue := js\<rparr>)) (TakenAttempt j)" using j by (simp add: worker_fits_def job_fits_def)
  qed (use w q keys_length [OF s] in \<open>simp_all add: with_workers_update list_update_beyond\<close>)
qed

lemma keys_gives_up:
  assumes s: "keys_inv tokens c s" and w: "w < length (swWorkers s)" "swWorkers s ! w = TakenAttempt j"
  shows "keys_inv tokens c (set_worker w WaitingWorker (s\<lparr>swObs := skip_attempts reason n e (swObs s)\<rparr>))"
proof (rule keys_worker [where n = "length tokens" and k = "hd (obKeys (swObs s))" and w = w and a = WaitingWorker, OF s])
  show "list_all (job_fits s) (swQueue (set_worker w WaitingWorker (s\<lparr>swObs := skip_attempts reason n e (swObs s)\<rparr>)))"
    using s by (simp add: keys_inv_def)
qed (use w keys_length [OF s] in \<open>simp_all add: with_workers_update list_update_beyond worker_fits_def of_bool_def\<close>)

lemma job_in_hand_fits: "keys_inv tokens c s \<Longrightarrow> w < length (swWorkers s) \<Longrightarrow> worker_fits s (swWorkers s ! w)"
  by (simp add: keys_inv_def list_all_length)

lemma keys_begins:
  assumes s: "keys_inv tokens c s" and w: "w < length (swWorkers s)" "swWorkers s ! w = TakenAttempt j"
  shows "keys_inv tokens c (set_worker w (CallingAttempt j began) (s\<lparr>swObs := markStart j start window began (swObs s)\<rparr>))"
proof -
  have j: "job_fits s j" using job_in_hand_fits [OF s w(1)] w(2) by (simp add: worker_fits_def)
  let ?k = "obKeys (swObs s) ! jbIndex j"
  have ok: "key_ok ?k" using s j by (simp add: keys_inv_def list_all_length job_fits_def)
  show ?thesis
  proof (rule keys_worker [where n = "jbIndex j" and k = "?k\<lparr>ksSentChoices := ksSentChoices ?k OR attempt_mask j\<rparr>" and w = w
        and a = "CallingAttempt j began", OF s])
    show "list_all (job_fits s) (swQueue (set_worker w (CallingAttempt j began) (s\<lparr>swObs := markStart j start window began (swObs s)\<rparr>)))"
      using s by (simp add: keys_inv_def)
    show "worker_fits (set_worker w (CallingAttempt j began) (s\<lparr>swObs := markStart j start window began (swObs s)\<rparr>)) (CallingAttempt j began)"
      using j by (simp add: worker_fits_def job_fits_def)
  qed (use w j ok keys_length [OF s] in \<open>simp_all add: with_workers_update key_ok_sent job_fits_def nth_list_update\<close>)
qed

lemma keys_returns:
  assumes s: "keys_inv tokens c s" and w: "w < length (swWorkers s)" "swWorkers s ! w = CallingAttempt j began"
  shows "keys_inv tokens c (set_worker w WaitingWorker (s\<lparr>swObs := observe_answer j ans began finished start (swObs s)\<rparr>))"
proof -
  have j: "job_fits s j" "within (attempt_mask j) (ksSentChoices (obKeys (swObs s) ! jbIndex j))"
    using job_in_hand_fits [OF s w(1)] w(2) by (simp_all add: worker_fits_def)
  have ok: "key_ok (obKeys (swObs s) ! jbIndex j)" using s j by (simp add: keys_inv_def list_all_length job_fits_def)
  obtain k where k: "obKeys (observe_answer j ans began finished start (swObs s)) = (obKeys (swObs s))[jbIndex j := k]"
      "ksToken k = ksToken (obKeys (swObs s) ! jbIndex j)" "ksSentChoices k = ksSentChoices (obKeys (swObs s) ! jbIndex j)"
      "ksAccepted k \<le> ksAccepted (obKeys (swObs s) ! jbIndex j) + 1" "key_ok k"
    by (rule observe_answer_key [of j ans began finished start "swObs s"]) (use ok j in \<open>auto simp: job_fits_def\<close>)
  show ?thesis
  proof (rule keys_worker [where n = "jbIndex j" and k = k and w = w and a = WaitingWorker, OF s])
    show "list_all (job_fits s) (swQueue (set_worker w WaitingWorker (s\<lparr>swObs := observe_answer j ans began finished start (swObs s)\<rparr>)))"
      using s by (simp add: keys_inv_def)
  qed (use w k j keys_length [OF s] in \<open>auto simp: with_workers_update job_fits_def nth_list_update worker_fits_def of_bool_def\<close>)
qed

lemma keys_step:
  assumes step: "sg_step c start event s = Some t" and s: "keys_inv tokens c s"
  shows "keys_inv tokens c t"
proof (cases event)
  case ScheduleCancelled
  then have t: "t = s\<lparr>swPhase := ScheduleEnded\<rparr>" "swPhase s = Scheduling" using step by (simp_all add: sg_step_def split: if_splits)
  have "spent i t \<le> allowed i t" if "i < length tokens" for i
  proof -
    have "spent i s \<le> allowed i s" using s that by (simp add: keys_inv_def)
    then show ?thesis using t by (simp add: spent_def allowed_def offers_of_def)
  qed
  then show ?thesis using s t fits_same_keys [of t s] by (simp add: keys_inv_def)
next
  case (ScheduleAt now)
  then have ph: "swPhase s = Scheduling" "int (swNext s) < sgTotal c" and t: "t = schedule_turn c start now s"
    using step by (simp_all add: sg_step_def split: if_splits)
  show ?thesis unfolding t by (rule keys_turn [OF s ph])
next
  case OfferNext
  then show ?thesis using step keys_offer [OF s] by (auto simp: sg_step_def split: schedule_phase.splits)
next
  case (WorkerTakes w)
  then have w: "w < length (swWorkers s)" "swWorkers s ! w = WaitingWorker" "swQueue s \<noteq> []"
    and t: "t = set_worker w (TakenAttempt (hd (swQueue s))) (s\<lparr>swQueue := tl (swQueue s)\<rparr>)"
    using step by (simp_all add: sg_step_def split: if_splits)
  then show ?thesis using keys_takes [OF s w(1,2)] by (cases "swQueue s") simp_all
next
  case (WorkerStarts w cancelled now began)
  then obtain j where w: "w < length (swWorkers s)" "swWorkers s ! w = TakenAttempt j" and t: "t = worker_starts c start w j cancelled now began s"
    using step by (auto simp: sg_step_def split: if_splits sg_worker.splits)
  show ?thesis unfolding t worker_starts_def Let_def using keys_gives_up [OF s w] keys_begins [OF s w] by simp
next
  case (WorkerReturns w ans finished)
  then obtain j began where w: "w < length (swWorkers s)" "swWorkers s ! w = CallingAttempt j began"
    and t: "t = set_worker w WaitingWorker (s\<lparr>swObs := observe_answer j ans began finished start (swObs s)\<rparr>)"
    using step by (auto simp: sg_step_def split: if_splits sg_worker.splits)
  show ?thesis unfolding t by (rule keys_returns [OF s w])
qed

section \<open>Confirmations stay\<close>

lemma step_confirmed:
  assumes step: "sg_step c start event s = Some t"
  shows "length (obKeys (swObs t)) = length (obKeys (swObs s)) \<and>
    within (ksConfirmedChoices (obKeys (swObs s) ! i)) (ksConfirmedChoices (obKeys (swObs t) ! i))"
proof (cases event)
  case (WorkerStarts w cancelled now began)
  then obtain j where t: "t = worker_starts c start w j cancelled now began s"
    using step by (auto simp: sg_step_def split: if_splits sg_worker.splits)
  show ?thesis by (cases "jbIndex j = i"; cases "i < length (obKeys (swObs s))")
    (simp_all add: t worker_starts_def Let_def nth_list_update list_update_beyond)
next
  case (WorkerReturns w ans finished)
  then obtain j began where t: "t = set_worker w WaitingWorker (s\<lparr>swObs := observe_answer j ans began finished start (swObs s)\<rparr>)"
    using step by (auto simp: sg_step_def split: if_splits sg_worker.splits)
  obtain k where "obKeys (observe_answer j ans began finished start (swObs s)) = (obKeys (swObs s))[jbIndex j := k]"
      "within (ksConfirmedChoices (obKeys (swObs s) ! jbIndex j)) (ksConfirmedChoices k)"
    by (rule observe_answer_key [of j ans began finished start "swObs s"]) blast
  then show ?thesis by (cases "jbIndex j = i"; cases "i < length (obKeys (swObs s))") (simp_all add: t list_update_beyond)
qed (use step in \<open>auto simp: sg_step_def schedule_turn_def offer_next_def offer_def Let_def split: if_splits schedule_phase.splits list.splits\<close>)

lemma run_confirmed:
  "sg_run c start es s = Some t \<Longrightarrow> length (obKeys (swObs t)) = length (obKeys (swObs s)) \<and>
    within (ksConfirmedChoices (obKeys (swObs s) ! i)) (ksConfirmedChoices (obKeys (swObs t) ! i))"
proof (induction es arbitrary: s)
  case (Cons e es)
  then obtain u where u: "sg_step c start e s = Some u" "sg_run c start es u = Some t" by (auto split: option.splits)
  show ?case using step_confirmed [OF u(1), of i] Cons.IH [OF u(2)] by (auto intro: within_trans)
qed simp

lemma sg_run_append: "sg_run c start (es1 @ es2) s = (case sg_run c start es1 s of None \<Rightarrow> None | Some t \<Rightarrow> sg_run c start es2 t)"
  by (induction es1 arbitrary: s) (simp_all split: option.split)

section \<open>Fresh keys\<close>

text \<open>The random source gave 16 bytes for each key.\<close>

definition fresh_raws :: "sg_config \<Rightarrow> byte list option list \<Rightarrow> bool" where
  "fresh_raws c raws \<longleftrightarrow> int (length raws) = sgTotal c \<and> distinct raws \<and> list_all (\<lambda>raw. case raw of None \<Rightarrow> False | Some b \<Rightarrow> length b = 16) raws"

definition raw_tokens :: "byte list option list \<Rightarrow> string list" where
  "raw_tokens raws = map (hex_encode \<circ> the) raws"

lemma hex_digit_value:
  assumes "d < 16"
  shows "hex_value (hex_digit d) = Some d \<and> to_lower (hex_digit d) = hex_digit d"
proof -
  have "code (hex_digit d) = (if d < 10 then 48 + d else 87 + d)" using assms by (simp add: hex_digit_def code_def)
  then show ?thesis using assms by (simp add: hex_value_def digit_def to_lower_def upper_def)
qed

lemma hex_encode_cons: "hex_encode (b # bs) = hex_digit (unat b div 16) # hex_digit (unat b mod 16) # hex_encode bs"
  by (simp add: hex_encode_def)

lemma byte_digits: "unat (b :: byte) div 16 < 16" "of_nat (16 * (unat b div 16) + unat b mod 16) = b"
proof -
  have "unat b < 2 ^ LENGTH(8)" by (rule unsigned_less)
  then show "unat b div 16 < 16" by simp
  have "16 * (unat b div 16) + unat b mod 16 = unat b" by (rule mult_div_mod_eq)
  then show "of_nat (16 * (unat b div 16) + unat b mod 16) = b" by simp
qed

lemma hex_round: "hex_decode (hex_encode bs) = Some bs"
proof (induction bs)
  case (Cons b bs)
  have "hex_value (hex_digit (unat b div 16)) = Some (unat b div 16)" "hex_value (hex_digit (unat b mod 16)) = Some (unat b mod 16)"
    using hex_digit_value byte_digits(1) by simp_all
  then show ?case unfolding hex_encode_cons hex_decode.simps using Cons byte_digits(2) [of b] by simp
qed (simp add: hex_encode_def)

lemma hex_encode_lower: "lower_text (hex_encode bs)"
proof (induction bs)
  case (Cons b bs)
  then show ?case using hex_digit_value byte_digits(1) [of b] by (simp add: hex_encode_cons lower_text_def)
qed (simp add: hex_encode_def lower_text_def)

lemma hex_encode_length: "length (hex_encode bs) = 2 * length bs"
  by (induction bs) (simp_all add: hex_encode_def)

lemma raw_tokens_distinct:
  assumes "fresh_raws c raws"
  shows "distinct (raw_tokens raws)"
proof -
  have "inj_on (hex_encode \<circ> the) (set raws)"
  proof (rule inj_onI)
    fix x y
    assume xy: "x \<in> set raws" "y \<in> set raws" "(hex_encode \<circ> the) x = (hex_encode \<circ> the) y"
    have some: "z \<in> set raws \<Longrightarrow> z \<noteq> None" for z using assms by (auto simp: fresh_raws_def list_all_iff split: option.splits)
    obtain a b where ab: "x = Some a" "y = Some b" using some [OF xy(1)] some [OF xy(2)] by blast
    then have "hex_decode (hex_encode a) = hex_decode (hex_encode b)" using xy(3) by simp
    then show "x = y" using ab by (simp add: hex_round)
  qed
  then show ?thesis using assms by (simp add: fresh_raws_def raw_tokens_def distinct_map)
qed

lemma keys_initial:
  assumes "newObservations raws = Some m" and "fresh_raws c raws" and "0 \<le> sgTotal c"
  shows "keys_inv (raw_tokens raws) c (sg_initial c m)"
proof -
  have keys: "obKeys m = map (new_key \<circ> the) raws" using assms(1) by (auto simp: newObservations_def split: if_splits)
  have "ksAccepted (obKeys m ! i) = 0" if "i < length raws" for i using that by (simp add: keys new_key_def)
  then show ?thesis
    using assms(2,3)
    by (auto simp: keys_inv_def sg_initial_def raw_tokens_def fresh_raws_def keys new_key_def is_offering_def remaining_offers_def list_all_iff
        key_ok_def worker_fits_def spent_def with_workers_idle offers_of_def allowed_def)
qed

interpretation sgk: transition_system "\<lambda>s. \<exists>m raws. newObservations raws = Some m \<and> fresh_raws c raws \<and> raw_tokens raws = tokens \<and> s = sg_initial c m"
  "sg_moves c start" "\<lambda>s. sg_validate c = None \<longrightarrow> keys_inv tokens c s"
proof
  show "\<exists>m raws. newObservations raws = Some m \<and> fresh_raws c raws \<and> raw_tokens raws = tokens \<and> s = sg_initial c m \<Longrightarrow>
      sg_validate c = None \<longrightarrow> keys_inv tokens c s" for s
    using keys_initial by (auto simp: sg_validate_def split: if_splits)
  show "sg_moves c start s t \<Longrightarrow> sg_validate c = None \<longrightarrow> keys_inv tokens c s \<Longrightarrow> sg_validate c = None \<longrightarrow> keys_inv tokens c t" for s t
    using keys_step by (auto simp: sg_moves_def)
qed

lemma run_keys:
  assumes "sg_validate c = None" and "newObservations raws = Some m" and "fresh_raws c raws" and "sg_run c start es (sg_initial c m) = Some s"
  shows "keys_inv (raw_tokens raws) c s"
  using sgk.invariant_reachable [OF _ sg_run_reaches [OF assms(4)]] assms(1-3) by blast

section \<open>The ledger of a run\<close>

lemma validate_keys_ok:
  "list_all (\<lambda>k. \<not> key_state_bad [] k \<and> hex_decode (ksToken k) \<noteq> None) ks \<Longrightarrow> distinct (map ksToken ks) \<Longrightarrow>
     set seen \<inter> set (map ksToken ks) = {} \<Longrightarrow> validate_keys seen ks = None"
proof (induction ks arbitrary: seen)
  case (Cons k ks)
  have "\<not> key_state_bad seen k" using Cons.prems by (auto simp: key_state_bad_def)
  moreover have "validate_keys (ksToken k # seen) ks = None" by (rule Cons.IH) (use Cons.prems in auto)
  ultimately show ?case using Cons.prems by simp
qed simp

lemma run_key_facts:
  assumes "sg_validate c = None" and "newObservations raws = Some m0" and "fresh_raws c raws"
    and "storage_runWorkload c start events interrupted m0 = Some (m, r)"
  shows "map ksToken (obKeys m) = raw_tokens raws \<and> list_all (\<lambda>k. key_ok k \<and> ksAccepted k \<le> 2) (obKeys m)"
proof -
  from assms(4) obtain s where run: "sg_run c start events (sg_initial c m0) = Some s" and over: "sg_over c s" and m: "m = swObs s"
    by (auto simp: storage_runWorkload_def split: option.splits if_splits)
  have inv: "keys_inv (raw_tokens raws) c s" by (rule run_keys [OF assms(1-3) run])
  have "ksAccepted (obKeys m ! i) \<le> 2" if "i < length (obKeys m)" for i
  proof -
    have "spent i s \<le> allowed i s" using inv that keys_length [OF inv] m by (simp add: keys_inv_def)
    moreover have "allowed i s \<le> 2" by (simp add: allowed_def)
    moreover have "ksAccepted (obKeys m ! i) \<le> spent i s"
      using of_key_nonneg [of i "swQueue s"] with_workers_nonneg [of i "swWorkers s"] by (simp add: spent_def m offers_of_def)
    ultimately show ?thesis by linarith
  qed
  then show ?thesis using inv m by (simp add: keys_inv_def list_all_length)
qed


lemma demo_sg_raws: "fresh_raws demo_sg_config [Some demo_sg_raw]"
  by (simp add: fresh_raws_def demo_sg_config_def sg_defaults_def demo_sg_raw_def)


end
