(* ===== verification/Storagebench_Execute_Props.thy ===== *)
theory Storagebench_Execute_Props
  imports Storagebench_Execute Storagebench_Keys
begin

text \<open>
  What a run of the database benchmark that reports no error has established: the audit was correct, the poll final, and every vote
  that a client was told of as accepted or duplicate during the workload is a row of the database with the choice it was sent.
\<close>

section \<open>No error at the end means none on the way\<close>

definition no_errors :: "sg_outcome \<Rightarrow> bool" where
  "no_errors r \<longleftrightarrow> soErrors r = []"

lemma no_errors_failing [simp]: "\<not> no_errors (failing e r)" "no_errors (failing_unless ok e r) \<longleftrightarrow> ok \<and> no_errors r"
  by (simp_all add: no_errors_def failing_def failing_unless_def)

lemma no_errors_fields [simp]:
  "no_errors (r\<lparr>soWorkload := w\<rparr>) = no_errors r" "no_errors (r\<lparr>soLedgerFile := f\<rparr>) = no_errors r" "no_errors (r\<lparr>soAudit := a\<rparr>) = no_errors r"
  "no_errors (r\<lparr>soCleanup := s\<rparr>) = no_errors r" "no_errors (r\<lparr>soDurabilityChecked := b\<rparr>) = no_errors r"
  "no_errors (r\<lparr>soWALDrain := p\<rparr>) = no_errors r" "no_errors (r\<lparr>soBytesDrain := n\<rparr>) = no_errors r" "no_errors (r\<lparr>soWALAfter := p\<rparr>) = no_errors r"
  "no_errors (r\<lparr>soBytesMarker := n\<rparr>) = no_errors r" "no_errors (r\<lparr>soMarkerDurable := b\<rparr>) = no_errors r"
  "no_errors (r\<lparr>soSizesDrain := z\<rparr>) = no_errors r" "no_errors (r\<lparr>soVoteDeltaDrain := n\<rparr>) = no_errors r"
  "no_errors (r\<lparr>soSizesFinal := z\<rparr>) = no_errors r" "no_errors (r\<lparr>soVoteDeltaFinal := n\<rparr>) = no_errors r"
  by (simp_all add: no_errors_def)

lemma measure_log_errors: "no_errors (measure_log p d e1 e2 r) \<Longrightarrow> no_errors r"
  by (simp add: measure_log_def split: if_splits)

lemma measure_errors: "no_errors (storage_measure env r) \<Longrightarrow> no_errors r"
  unfolding storage_measure_def Let_def by (auto dest!: measure_log_errors split: if_splits)

lemma audit_errors:
  assumes "no_errors (storage_audit unmarshal_options tx prove results durable e l r)"
  shows "no_errors r \<and> (\<exists>a. storage_reconcile unmarshal_options tx l = Some a \<and> saStable a \<and> saCorrect a \<and>
    soAudit (storage_audit unmarshal_options tx prove results durable e l r) = Some a \<and>
    (prove \<longrightarrow> proveFinalAudit results durable a \<and> soDurabilityChecked (storage_audit unmarshal_options tx prove results durable e l r)))"
proof (cases "storage_reconcile unmarshal_options tx l")
  case None
  then show ?thesis using assms by (simp add: storage_audit_def)
next
  case (Some a)
  then show ?thesis using assms by (auto simp: storage_audit_def Let_def failing_unless_def split: if_splits)
qed

lemma save_errors: "no_errors (fst (storage_save marshal env path e l (r, files))) \<Longrightarrow> no_errors r"
  by (auto simp: storage_save_def split: prod.splits sum.splits)

lemma save_fields: "soWorkload (fst (storage_save marshal env path e l (r, files))) = soWorkload r"
  "soAudit (fst (storage_save marshal env path e l (r, files))) = soAudit r" "soSchema (fst (storage_save marshal env path e l (r, files))) = soSchema r"
  "soDurabilityChecked (fst (storage_save marshal env path e l (r, files))) = soDurabilityChecked r"
  by (auto simp: storage_save_def failing_def split: prod.splits sum.splits)

text \<open>The parts of the end of a run without an error.\<close>

lemma finish_errors:
  assumes fin: "storage_finish unmarshal_options marshal env c p m work r files = Some (r', files')" and ok: "no_errors r'"
  shows "no_errors r \<and> waitForFinal (seFinal env) = Some True \<and> srInvalidReceipts work \<le> 0 \<and>
    (\<exists>a. storage_reconcile unmarshal_options (seAudit env) (ledger_of c (soSchema r) p m) = Some a \<and> saStable a \<and> saCorrect a \<and> soAudit r' = Some a \<and>
      (sgRequiredStandbys c > 0 \<longrightarrow> proveFinalAudit (seResults env) (seResultsDurable env) a \<and> soDurabilityChecked r'))"
proof -
  define r1 where "r1 = failing_unless (srInvalidReceipts work \<le> 0) ''invalid_repository_receipts'' (r\<lparr>soWorkload := Some work\<rparr>)"
  define l where "l = ledger_of c (soSchema r1) p m"
  obtain r2 files2 where save: "(if sgKeepSchema c \<or> sgAuditFile c \<noteq> []
      then storage_save marshal (seSaved env) (sgAuditFile c) ''private_key_ledger_write_failed'' l (r1, files) else (r1, files)) = (r2, files2)"
    by (metis surj_pair)
  define r3 where "r3 = storage_measure env r2"
  obtain final where wait: "waitForFinal (seFinal env) = Some final"
    using fin by (auto simp: storage_finish_def Let_def split: prod.splits option.splits)
  define r4 where "r4 = failing_unless final ''real_close_finalization_not_established'' r3"
  define r5 where "r5 = storage_audit unmarshal_options (seAudit env) (sgRequiredStandbys c > 0) (seResults env) (seResultsDurable env)
    ''final_audit_replication_durability_unconfirmed'' l r4"
  define r6 where "r6 = (if seSizesFinal env = None then failing ''final_relation_sizes_failed'' r5
    else r5\<lparr>soVoteDeltaFinal := vote_bytes (seSizesFinal env) - vote_bytes (seSizesBefore env)\<rparr>)\<lparr>soSizesFinal := seSizesFinal env\<rparr>"
  have out: "Some (r', files') = (if soErrors r6 \<noteq> [] \<and> soLedgerFile r6 = []
      then Some (storage_save marshal (seSavedLate env) [] ''failure_key_ledger_write_failed'' l (r6, files2)) else Some (r6, files2))"
    using fin save wait
    unfolding storage_finish_def Let_def r1_def [symmetric] l_def [symmetric] r4_def r5_def r6_def r3_def by simp
  have r6: "r' = r6"
  proof (cases "soErrors r6 \<noteq> [] \<and> soLedgerFile r6 = []")
    case True
    then have "r' = fst (storage_save marshal (seSavedLate env) [] ''failure_key_ledger_write_failed'' l (r6, files2))" using out by (metis fst_conv option.inject)
    then have "no_errors r6" using ok save_errors by blast
    with True show ?thesis by (simp add: no_errors_def)
  qed (use out in auto)
  then have "no_errors r5" using ok by (simp add: r6_def split: if_splits)
  from audit_errors [OF this [unfolded r5_def], folded r5_def] obtain a where r4: "no_errors r4"
    and a: "storage_reconcile unmarshal_options (seAudit env) l = Some a" "saStable a" "saCorrect a" "soAudit r5 = Some a"
      "sgRequiredStandbys c > 0 \<longrightarrow> proveFinalAudit (seResults env) (seResultsDurable env) a \<and> soDurabilityChecked r5"
    by blast
  have r3: "no_errors r3" "final" using r4 by (simp_all add: r4_def)
  then have "no_errors r2" using measure_errors by (simp add: r3_def)
  then have r1: "no_errors r1" using save save_errors by (metis fst_conv prod.inject)
  have schema: "soSchema r1 = soSchema r" by (simp add: r1_def failing_unless_def failing_def)
  have "soAudit r6 = soAudit r5 \<and> soDurabilityChecked r6 = soDurabilityChecked r5" by (simp add: r6_def failing_def)
  then show ?thesis using a r1 r3 r6 wait schema unfolding l_def by (auto simp: r1_def)
qed

lemma setup_errors:
  "storage_setup env c r = (r', Some (m, p)) \<Longrightarrow> newObservations (seRaws env) = Some m \<and> seCreated env = Answer p \<and> soSchema r' = soSchema r \<and>
    (no_errors r' \<longleftrightarrow> no_errors r)"
  by (auto simp: storage_setup_def Let_def no_errors_def split: if_splits option.splits repo_answer.splits)

lemma setup_fails: "storage_setup env c r = (r', None) \<Longrightarrow> \<not> no_errors r'"
  by (auto simp: storage_setup_def Let_def split: if_splits option.splits repo_answer.splits prod.splits)

lemma cleanup_errors:
  "no_errors (storage_cleanup env c r) \<Longrightarrow> no_errors r \<and> soAudit (storage_cleanup env c r) = soAudit r \<and>
     soDurabilityChecked (storage_cleanup env c r) = soDurabilityChecked r \<and> soCleanup (storage_cleanup env c r) = (if sgKeepSchema c then ''retained'' else ''dropped'')"
  by (auto simp: storage_cleanup_def no_errors_def failing_def split: if_splits)

lemma run_errors:
  assumes run: "storage_run unmarshal_options marshal env c files = Some (r, files')" and ok: "no_errors r"
  shows "\<exists>m0 p schema m work a. newObservations (seRaws env) = Some m0 \<and> seCreated env = Answer p \<and>
    storage_runWorkload c (seStart env) (seEvents env) (seInterrupted env) m0 = Some (m, work) \<and> waitForFinal (seFinal env) = Some True \<and>
    storage_reconcile unmarshal_options (seAudit env) (ledger_of c schema p m) = Some a \<and> saStable a \<and> saCorrect a \<and> soAudit r = Some a \<and>
    (sgRequiredStandbys c > 0 \<longrightarrow> proveFinalAudit (seResults env) (seResultsDurable env) a \<and> soDurabilityChecked r)"
proof -
  obtain nonce where nonce: "seNonce env = Some nonce"
    using run ok by (auto simp: storage_run_def Let_def split: option.splits)
  define r1 where "r1 = (empty_outcome (sgMode c))\<lparr>soSchema := ''gqbench_'' @ hex_encode nonce, soDatabase := seInfo env\<rparr>"
  obtain r2 ready where prep: "storage_setup env c r1 = (r2, ready)" by (metis surj_pair)
  have run1: "(case storage_setup env c r1 of
        (r, None) \<Rightarrow> Some (storage_cleanup env c r, files)
      | (r, Some (m, p)) \<Rightarrow>
          (case storage_runWorkload c (seStart env) (seEvents env) (seInterrupted env) m of
             None \<Rightarrow> None
           | Some (m, work) \<Rightarrow>
               (case storage_finish unmarshal_options marshal env c p m work r files of
                  None \<Rightarrow> None
                | Some (r, files) \<Rightarrow> Some (storage_cleanup env c r, files)))) = Some (r, files')"
    using run ok unfolding storage_run_def Let_def nonce r1_def
    by (simp split: if_splits) (auto simp: no_errors_def failing_def)
  show ?thesis
  proof (cases ready)
    case None
    then have "r = storage_cleanup env c r2" using run1 prep by simp
    then show ?thesis using ok cleanup_errors setup_fails [of env c r1 r2] prep None by blast
  next
    case (Some mp)
    then obtain m0 p where mp: "ready = Some (m0, p)" by (cases mp) simp
    obtain m work where work: "storage_runWorkload c (seStart env) (seEvents env) (seInterrupted env) m0 = Some (m, work)"
      using run1 prep mp by (auto split: option.splits)
    obtain r3 files3 where fin: "storage_finish unmarshal_options marshal env c p m work r2 files = Some (r3, files3)"
      using run1 prep mp work by (auto split: option.splits)
    have r: "r = storage_cleanup env c r3" using run1 prep mp work fin by simp
    note clean = cleanup_errors [OF ok [unfolded r], folded r]
    from finish_errors [OF fin] clean show ?thesis using setup_errors [OF prep [unfolded mp]] work by metis
  qed
qed

section \<open>From a confirmation to a row\<close>

lemma choiceMask_single: "choiceMask cs = 0 \<or> choiceMask cs = 1 \<or> choiceMask cs = 2"
proof (cases "length cs = 1 \<and> 1 \<le> cs ! 0 \<and> cs ! 0 \<le> 2")
  case True
  then have "cs ! 0 = 1 \<or> cs ! 0 = 2" by linarith
  with True show ?thesis by (auto simp: choiceMask_def)
qed (auto simp: choiceMask_def)

lemma single_within:
  assumes "within a b" and "a = 1 \<or> a = 2" and "b = 0 \<or> b = 1 \<or> b = 2"
  shows "a = (b :: u8)"
  using assms by (auto simp: within_def)

lemma confirmed_row:
  assumes agree: "rows_agree ks votes" and k: "k \<in> set ks" and j: "choice_ok (jbChoice j)" "within (attempt_mask j) (ksConfirmedChoices k)"
    and tokens: "distinct (map ksToken ks)"
  shows "\<exists>(token, choices) \<in> set votes. bare_token token = ksToken k \<and> row_mask choices = attempt_mask j"
proof -
  have a: "attempt_mask j = 1 \<or> attempt_mask j = 2" using j(1) by (auto simp: choice_ok_def attempt_mask_def)
  then have conf: "ksConfirmedChoices k \<noteq> 0" using j(2) within_zero by auto
  then obtain token choices where row: "(token, choices) \<in> set votes" "bare_token token = ksToken k"
    using agree k by (fastforce simp: rows_agree_def)
  then obtain k' where k': "k' \<in> set ks" "ksToken k' = ksToken k" "row_agrees k' choices" using agree by (fastforce simp: rows_agree_def)
  then have "k' = k" using tokens k by (simp add: distinct_map inj_on_def)
  with k' conf have m: "row_mask choices = ksConfirmedChoices k" by (simp add: row_agrees_def row_content_bad_def)
  have "attempt_mask j = row_mask choices"
    by (rule single_within) (use j(2) m a choiceMask_single [of "map sint choices"] in \<open>simp_all add: row_mask_def\<close>)
  with row show ?thesis by auto
qed

text \<open>An answer observed in the run confirms its key for the rest of it.\<close>

lemma confirmed_by_answer:
  assumes valid: "sg_validate c = None" "newObservations raws = Some m0" "fresh_raws c raws"
    and run: "sg_run c start (before @ WorkerReturns w (Some rc) finished # after) (sg_initial c m0) = Some t"
    and s: "sg_run c start before (sg_initial c m0) = Some s" "swWorkers s ! w = CallingAttempt j began"
    and rc: "confirms j (rcStatus rc) rc"
  shows "jbIndex j < length (obKeys (swObs t)) \<and> choice_ok (jbChoice j) \<and>
    within (attempt_mask j) (ksConfirmedChoices (obKeys (swObs t) ! jbIndex j)) \<and>
    ksToken (obKeys (swObs t) ! jbIndex j) = ksToken (obKeys m0 ! jbIndex j)"
proof -
  have inv: "keys_inv (raw_tokens raws) c s" "keys_inv (raw_tokens raws) c t" using run_keys [OF valid] s(1) run by blast+
  have m0: "map ksToken (obKeys m0) = raw_tokens raws"
    using valid(2) by (auto simp: newObservations_def raw_tokens_def new_key_def split: if_splits)
  obtain u where step: "sg_step c start (WorkerReturns w (Some rc) finished) s = Some u" and rest: "sg_run c start after u = Some t"
    using run s(1) by (auto simp: sg_run_append split: option.splits)
  have w: "w < length (swWorkers s)" using step by (simp add: sg_step_def split: if_splits)
  have u: "u = set_worker w WaitingWorker (s\<lparr>swObs := observe_answer j (Some rc) began finished start (swObs s)\<rparr>)"
    using step w s(2) by (simp add: sg_step_def)
  have j: "jbIndex j < length (obKeys (swObs s))" "choice_ok (jbChoice j)"
    using job_in_hand_fits [OF inv(1) w] s(2) by (simp_all add: worker_fits_def job_fits_def)
  obtain k where k: "obKeys (observe_answer j (Some rc) began finished start (swObs s)) = (obKeys (swObs s))[jbIndex j := k]"
      "within (attempt_mask j) (ksConfirmedChoices k)"
    by (rule observe_answer_key [of j "Some rc" began finished start "swObs s"]) (use rc in blast)
  then have "within (attempt_mask j) (ksConfirmedChoices (obKeys (swObs u) ! jbIndex j))" using j by (simp add: u)
  then have conf: "within (attempt_mask j) (ksConfirmedChoices (obKeys (swObs t) ! jbIndex j))"
    using run_confirmed [OF rest, of "jbIndex j"] within_trans by blast
  have len: "length (obKeys (swObs t)) = length (raw_tokens raws)" "length (obKeys (swObs s)) = length (raw_tokens raws)"
    using keys_length inv by blast+
  have "map ksToken (obKeys (swObs t)) = map ksToken (obKeys m0)" using inv(2) m0 by (simp add: keys_inv_def)
  then have "ksToken (obKeys (swObs t) ! jbIndex j) = ksToken (obKeys m0 ! jbIndex j)"
    using j len by (metis length_map nth_map)
  then show ?thesis using conf j len by simp
qed

text \<open>C16. A run of the database benchmark that reports no error has ended with the poll final and every row of it agreeing with the keys of the
  workload; and each time a worker was answered \<open>accepted\<close> or \<open>duplicate\<close> with the choice it had sent, the database has at the end a
  row with the token of that key and that choice. With a policy of standbys, the final result was also proved durable.\<close>

theorem storage_execute_sound:
  assumes "sg_validate c = None" and "sgAuditOnly c = []" and "fresh_raws c (seRaws env)" and "snapshot_reads (seAudit env) votes"
    and "axResult (seAudit env) = Some (final_total, encoded)" and "unmarshal_options encoded = Some options" and "distinct (map fst options)"
    and "storage_execute unmarshal_options marshal unmarshal regular env c files = Some (r, files')" and "soErrors r = []"
  shows "\<exists>m0 m work. newObservations (seRaws env) = Some m0 \<and>
    storage_runWorkload c (seStart env) (seEvents env) (seInterrupted env) m0 = Some (m, work) \<and>
    axStable (seAudit env) = Some True \<and> rows_agree (obKeys m) votes \<and> final_total = int (length votes) \<and>
    (\<forall>before w rc finished after s j began. seEvents env = before @ WorkerReturns w (Some rc) finished # after \<longrightarrow>
      sg_run c (seStart env) before (sg_initial c m0) = Some s \<longrightarrow> swWorkers s ! w = CallingAttempt j began \<longrightarrow> confirms j (rcStatus rc) rc \<longrightarrow>
      (\<exists>(token, choices) \<in> set votes. bare_token token = ksToken (obKeys m0 ! jbIndex j) \<and> row_mask choices = attempt_mask j)) \<and>
    (sgRequiredStandbys c > 0 \<longrightarrow> (\<exists>a. soAudit r = Some a \<and> proveFinalAudit (seResults env) (seResultsDurable env) a))"
proof -
  have run: "storage_run unmarshal_options marshal env c files = Some (r, files')" using assms(2,8) by (simp add: storage_execute_def)
  from run_errors [OF run] assms(9) obtain m0 p schema m work a where
    m0: "newObservations (seRaws env) = Some m0" and work: "storage_runWorkload c (seStart env) (seEvents env) (seInterrupted env) m0 = Some (m, work)"
    and audit: "storage_reconcile unmarshal_options (seAudit env) (ledger_of c schema p m) = Some a" "saCorrect a"
    and result: "soAudit r = Some a" "sgRequiredStandbys c > 0 \<longrightarrow> proveFinalAudit (seResults env) (seResultsDurable env) a"
    by (auto simp: no_errors_def)
  have tokens: "distinct (map ksToken (obKeys m))"
    using run_key_facts [OF assms(1) m0 assms(3) work] raw_tokens_distinct [OF assms(3)] by simp
  have verdict: "axStable (seAudit env) = Some True" "rows_agree (obKeys m) votes" "final_total = int (length votes)"
    using reconcile_verdict [OF _ assms(4-7) audit(1)] tokens audit(2) by (simp_all add: ledger_of_def)
  from work obtain t where t: "sg_run c (seStart env) (seEvents env) (sg_initial c m0) = Some t" "m = swObs t"
    by (auto simp: storage_runWorkload_def split: option.splits if_splits)
  have rows: "\<exists>(token, choices) \<in> set votes. bare_token token = ksToken (obKeys m0 ! jbIndex j) \<and> row_mask choices = attempt_mask j"
    if e: "seEvents env = before @ WorkerReturns w (Some rc) finished # after" and s: "sg_run c (seStart env) before (sg_initial c m0) = Some s"
      "swWorkers s ! w = CallingAttempt j began" and rc: "confirms j (rcStatus rc) rc" for before w rc finished after s j began
  proof -
    note facts = confirmed_by_answer [OF assms(1) m0 assms(3) t(1) [unfolded e] s rc]
    then have "obKeys m ! jbIndex j \<in> set (obKeys m)" by (simp add: t(2))
    from confirmed_row [OF verdict(2) this _ _ tokens, of j] facts show ?thesis by (simp add: t(2))
  qed
  show ?thesis using m0 work verdict rows result by blast
qed

definition demo_sg_poll :: poll where
  "demo_sg_poll = \<lparr>pollID = ''00112233-4455-6677-8899-aabbccddeeff'', pollQuestion = [], pollType = ''single'', pollOptions = [], pollStartsAt = 0,
     pollEndsAt = minute, pollCreatedAt = 0, pollFinalizedAt = Some minute\<rparr>"

definition demo_sg_info :: database_info where
  "demo_sg_info = \<lparr>diVersion = [], diCommit = [], diStandbys = [], diFsync = [], diFullPages = [], diRecovery = False\<rparr>"

definition demo_sg_env :: "(int \<times> int) list sg_env" where
  "demo_sg_env = \<lparr>seNonce = Some [1, 35, 69, 103, 137, 171, 205, 239], seDSN = ''host=x'', seParse = (\<lambda>_. True), seWithPath = (\<lambda>a b. None),
     seConnected = True, seInfo = Some demo_sg_info,
     seSchemaCreated = True, seStore = (\<lambda>_. True), seMigrated = True, seMarkerTable = True, seRaws = [Some demo_sg_raw], seBlindFunction = True,
     seBlindPool = True, sePing = True, seWarm = True, seCreated = Answer demo_sg_poll, seMarkerBefore = True, seDurableBefore = True,
     seWALBefore = Some ([], []), seSizesBefore = Some (0, 0), seStart = 0, seEvents = demo_sg_events, seInterrupted = False,
     seSaved = \<lparr>feDirectory = True, feOpened = True, feWritten = True\<rparr>, seWALDrain = Some ([], []), seDeltaDrain = Some 1,
     seSizesDrain = Some (1, 1), seMarkerAfter = True, seDurableAfter = True, seWALAfter = Some ([], []), seDeltaAfter = Some 2,
     seFinal = [\<lparr>fkEnded = False, fkPoll = Answer demo_sg_poll, fkNow = minute, fkFinalized = True\<rparr>], seAudit = demo_audit_tx,
     seResults = NotFound, seResultsDurable = True, seSizesFinal = Some (2, 2),
     seSavedLate = \<lparr>feDirectory = True, feOpened = True, feWritten = True\<rparr>, seDropped = True\<rparr>"

text \<open>The keys at the end of the demonstration run, and its audit.\<close>

definition demo_sg_keys :: "key_state list" where
  "demo_sg_keys = [demo_sg_key\<lparr>ksFirstConfirmation := 1000\<rparr>]"

lemma demo_sg_token: "hex_encode demo_sg_raw = ksToken demo_sg_key"
  by code_simp

lemma invalid_receipts_kept:
  "obInvalidReceipts (markStart j start window began m) = obInvalidReceipts m" "obInvalidReceipts (scheduledRange c low high m) = obInvalidReceipts m"
  using scheduledRange_same [where m = m and low = low and high = high and c = c] by (simp_all add: markStart_def Let_def same_counts_def)

lemma demo_sg_run_keys: "case sg_run demo_sg_config 0 demo_sg_events (sg_initial demo_sg_config demo_sg_start) of None \<Rightarrow> False
    | Some s \<Rightarrow> obKeys (swObs s) = demo_sg_keys \<and> obInvalidReceipts (swObs s) = 0"
  by (simp add: demo_sg_events_def demo_sg_config_def sg_defaults_def sg_initial_def sg_step_def schedule_turn_def Let_def sg_slotsBefore_def
      slotsBefore_def time_sub_def scheduled_at_def sg_offset_def slotOffset_def wrap64_def signed_take_bit_int_eq_self offer_next_def offer_def
      offered_choices_def set_worker_def worker_starts_def sg_over_def replicate_Suc numeral_eq_Suc
      demo_sg_start_def newObservations_def new_key_def demo_sg_token)
    (simp add: observe_answer_def observed_status_def observe_receipt_def receipt_faults_def choiceMask_def attempt_mask_def Let_def
      invalid_receipts_kept time_sub_def demo_sg_keys_def demo_sg_key_def)

lemma reconcile_keys:
  assumes "klKeys l = klKeys l'"
  shows "storage_reconcile unmarshal_options tx l = storage_reconcile unmarshal_options tx l'"
  unfolding storage_reconcile_def assms ..

lemma demo_sg_reconcile:
  assumes "klKeys l = demo_sg_keys"
  shows "\<exists>a. storage_reconcile Some demo_audit_tx l = Some a \<and> saStable a \<and> saCorrect a"
proof -
  have "case storage_reconcile Some demo_audit_tx (demo_sg_ledger\<lparr>klKeys := demo_sg_keys\<rparr>) of None \<Rightarrow> False | Some a \<Rightarrow> saStable a \<and> saCorrect a"
    by code_simp
  moreover have "storage_reconcile Some demo_audit_tx l = storage_reconcile Some demo_audit_tx (demo_sg_ledger\<lparr>klKeys := demo_sg_keys\<rparr>)"
    by (rule reconcile_keys) (simp add: assms)
  ultimately show ?thesis by (auto split: option.splits)
qed

lemma demo_sg_schema: "validSchema (''gqbench_'' @ hex_encode [1, 35, 69, 103, 137, 171, 205, 239])"
  by code_simp

lemma demo_sg_setup:
  "\<exists>r'. storage_setup demo_sg_env demo_sg_config r = (r', Some (demo_sg_start, demo_sg_poll)) \<and> soErrors r' = soErrors r \<and> soSchema r' = soSchema r"
  by (simp add: storage_setup_def demo_sg_env_def demo_sg_config_def sg_defaults_def demo_sg_fresh Let_def)

lemma demo_sg_measure: "soErrors (storage_measure demo_sg_env r) = soErrors r"
  by (simp add: storage_measure_def measure_log_def failing_unless_def demo_sg_env_def Let_def)

lemma demo_sg_finish:
  assumes "soErrors r = []" and "srInvalidReceipts work = 0" and "obKeys m = demo_sg_keys"
  shows "\<exists>r'. storage_finish Some (\<lambda>_. []) demo_sg_env demo_sg_config demo_sg_poll m work r Map.empty = Some (r', Map.empty) \<and> soErrors r' = []"
proof -
  let ?r = "r\<lparr>soWorkload := Some work\<rparr>"
  obtain a where a: "storage_reconcile Some demo_audit_tx (ledger_of demo_sg_config (soSchema ?r) demo_sg_poll m) = Some a" "saStable a" "saCorrect a"
    using demo_sg_reconcile [of "ledger_of demo_sg_config (soSchema ?r) demo_sg_poll m"] assms(3) by (auto simp: ledger_of_def)
  have fields: "\<not> sgKeepSchema demo_sg_config" "sgAuditFile demo_sg_config = []" "\<not> sgRequiredStandbys demo_sg_config > 0"
    by (simp_all add: demo_sg_config_def sg_defaults_def)
  have env: "seAudit demo_sg_env = demo_audit_tx" "waitForFinal (seFinal demo_sg_env) = Some True" "seSizesFinal demo_sg_env = Some (2, 2)"
    by (simp_all add: demo_sg_env_def demo_sg_poll_def)
  show ?thesis
    using assms(1,2) a fields env demo_sg_measure [of ?r]
    by (simp add: storage_finish_def Let_def failing_unless_def storage_audit_def)
qed

lemma demo_sg_execute:
  "\<exists>r. storage_execute Some (\<lambda>_. []) (\<lambda>_. None) (\<lambda>_. True) demo_sg_env demo_sg_config Map.empty = Some (r, Map.empty) \<and> soErrors r = []"
proof -
  obtain s where s: "sg_run demo_sg_config 0 demo_sg_events (sg_initial demo_sg_config demo_sg_start) = Some s" "sg_over demo_sg_config s"
      "obKeys (swObs s) = demo_sg_keys" "obInvalidReceipts (swObs s) = 0"
    using demo_sg_over demo_sg_run_keys by (auto split: option.splits)
  let ?work = "sg_report_of demo_sg_config False (swObs s)"
  have work: "storage_runWorkload demo_sg_config 0 demo_sg_events False demo_sg_start = Some (swObs s, ?work)"
    using s by (simp add: storage_runWorkload_def)
  have invalid: "srInvalidReceipts ?work = 0" using s(4) by (simp add: sg_report_of_def Let_def)
  define schema where "schema = ''gqbench_'' @ hex_encode [1, 35, 69, 103, 137, 171, 205, 239]"
  obtain dsn where pin: "pinSchema (seParse demo_sg_env) (seWithPath demo_sg_env) (seDSN demo_sg_env) schema = Some dsn"
    using demo_sg_schema by (auto simp: pinSchema_def schema_def has_prefix_def Let_def demo_sg_env_def)
  define r0 where "r0 = (empty_outcome (sgMode demo_sg_config))\<lparr>soSchema := schema, soDatabase := seInfo demo_sg_env\<rparr>"
  obtain r1 where r1: "storage_setup demo_sg_env demo_sg_config r0 = (r1, Some (demo_sg_start, demo_sg_poll))" "soErrors r1 = []"
    using demo_sg_setup [of r0] by (auto simp: r0_def empty_outcome_def)
  obtain r2 where r2: "storage_finish Some (\<lambda>_. []) demo_sg_env demo_sg_config demo_sg_poll (swObs s) ?work r1 Map.empty = Some (r2, Map.empty)"
    "soErrors r2 = []" using demo_sg_finish [OF r1(2) invalid s(3)] by blast
  have env: "seNonce demo_sg_env = Some [1, 35, 69, 103, 137, 171, 205, 239]" "seConnected demo_sg_env"
    "seInfo demo_sg_env = Some demo_sg_info" "\<not> diRecovery (the (seInfo demo_sg_env))" "seSchemaCreated demo_sg_env" "seStart demo_sg_env = 0" "seEvents demo_sg_env = demo_sg_events"
    "\<not> seInterrupted demo_sg_env" "seDropped demo_sg_env" "sgAuditOnly demo_sg_config = []" "\<not> sgKeepSchema demo_sg_config"
    by (simp_all add: demo_sg_env_def demo_sg_config_def sg_defaults_def demo_sg_info_def)
  have "storage_run Some (\<lambda>_. []) demo_sg_env demo_sg_config Map.empty = Some (storage_cleanup demo_sg_env demo_sg_config r2, Map.empty)"
    using pin [unfolded schema_def] r1(1) [unfolded r0_def schema_def] r2(1) work env by (simp add: storage_run_def Let_def)
  moreover have "soErrors (storage_cleanup demo_sg_env demo_sg_config r2) = []" using r2(2) env by (simp add: storage_cleanup_def)
  ultimately show ?thesis using env by (simp add: storage_execute_def)
qed

lemma demo_sg_env_fields:
  "fresh_raws demo_sg_config (seRaws demo_sg_env)" "snapshot_reads (seAudit demo_sg_env) demo_sg_votes"
  "axResult (seAudit demo_sg_env) = Some (1, [(1, 1), (2, 0)])" "sgAuditOnly demo_sg_config = []"
  using demo_sg_raws
  by (simp_all add: demo_sg_env_def snapshot_reads_def demo_audit_tx_def demo_sg_votes_def demo_sg_config_def sg_defaults_def)

lemma storage_execute_sound_witness:
  "\<exists>m work. storage_runWorkload demo_sg_config 0 demo_sg_events False demo_sg_start = Some (m, work) \<and> rows_agree (obKeys m) demo_sg_votes"
proof -
  obtain r where run: "storage_execute Some (\<lambda>_. []) (\<lambda>_. None) (\<lambda>_. True) demo_sg_env demo_sg_config Map.empty = Some (r, Map.empty)"
    "soErrors r = []" using demo_sg_execute by blast
  have env: "seRaws demo_sg_env = [Some demo_sg_raw]" "seStart demo_sg_env = 0" "seEvents demo_sg_env = demo_sg_events" "\<not> seInterrupted demo_sg_env"
    by (simp_all add: demo_sg_env_def)
  from storage_execute_sound [OF demo_sg_valid demo_sg_env_fields(4,1,2,3) refl _ run] show ?thesis
    using env demo_sg_fresh by auto
qed

end
