(* ===== verification/Loadtest.thy ===== *)
theory Loadtest
  imports Bench_Measure Bench_Counts Go_Net
begin

text \<open>
  The HTTP load generator (\<^verbatim>\<open>cmd/loadtest\<close>): its configuration (\<^verbatim>\<open>main.go\<close>), the scheduler (\<^verbatim>\<open>scheduler.go\<close>), the
  workers with their one deliberate repeat, and the metrics (\<^verbatim>\<open>metrics.go\<close>). The arithmetic of the slots is in \<open>Bench_Measure\<close>.

  The HTTP client is a parameter: what it answers to a request is part of an event of the run. The bounds of the latency histogram are
  computed in floating point, so they are a parameter too, as is the rank of a percentile; means and rates are left out. A status in the map
  of statuses is its number instead of its decimal text.
\<close>

section \<open>The configuration\<close>

text \<open>A parsed URL, with what its \<^verbatim>\<open>Hostname\<close> gives.\<close>

record target_url =
  tuScheme :: string
  tuHost :: string
  tuHostname :: string
  tuHasUser :: bool
  tuRawQuery :: string
  tuFragment :: string
  tuOpaque :: string
  tuPath :: string
  tuRawPath :: string

record lt_config =
  ltTarget :: string
  ltPoll :: string
  ltRate :: int
  ltDuration :: duration
  ltWorkers :: int
  ltQueue :: int
  ltChoice :: int
  ltDuplicateEvery :: int
  ltTimeout :: duration
  ltDrain :: duration
  ltMaxLag :: duration
  ltAllowHighLoad :: bool

definition lt_defaults :: lt_config where
  "lt_defaults = \<lparr>ltTarget = ''http://127.0.0.1:8080'', ltPoll = [], ltRate = 10, ltDuration = 10 * second, ltWorkers = 16, ltQueue = 64, ltChoice = 1,
     ltDuplicateEvery = 0, ltTimeout = 5 * second, ltDrain = 10 * second, ltMaxLag = 100 * millisecond, ltAllowHighLoad = False\<rparr>"

datatype lt_error = LtRate | LtDuration | LtWorkers | LtChoice | LtTimeouts | LtPoll | LtURL | LtHighLoad

definition lt_validUUID :: "string \<Rightarrow> bool" where
  "lt_validUUID s \<longleftrightarrow> \<not> (length s \<noteq> 36 \<or> s ! 8 \<noteq> CHR ''-'' \<or> s ! 13 \<noteq> CHR ''-'' \<or> s ! 18 \<noteq> CHR ''-'' \<or> s ! 23 \<noteq> CHR ''-'') \<and>
     hex_decode (filter (\<lambda>ch. ch \<noteq> CHR ''-'') s) \<noteq> None"

definition lt_url_bad :: "target_url \<Rightarrow> bool" where
  "lt_url_bad u \<longleftrightarrow> tuHost u = [] \<or> (tuScheme u \<noteq> ''http'' \<and> tuScheme u \<noteq> ''https'') \<or> tuHasUser u \<or> tuRawQuery u \<noteq> [] \<or>
     tuFragment u \<noteq> [] \<or> tuOpaque u \<noteq> []"

definition trim_slashes :: "string \<Rightarrow> string" where
  "trim_slashes s = rev (dropWhile (\<lambda>ch. ch = CHR ''/'') (rev s))"

definition lt_planned :: "lt_config \<Rightarrow> int" where
  "lt_planned c = slotsBefore (ltDuration c) (ltRate c)"

definition lt_maxAttempts :: "lt_config \<Rightarrow> int" where
  "lt_maxAttempts c = (if ltDuplicateEvery c > 0 then lt_planned c + lt_planned c div ltDuplicateEvery c else lt_planned c)"

definition lt_maxAverageRPS :: "lt_config \<Rightarrow> int" where
  "lt_maxAverageRPS c =
     (if ltDuplicateEvery c > 0
      then ltRate c + ltRate c div ltDuplicateEvery c + (if ltRate c mod ltDuplicateEvery c \<noteq> 0 then 1 else 0)
      else ltRate c)"

text \<open>\<open>parse\<close> is \<^verbatim>\<open>url.Parse\<close>; the result is the URL that is called.\<close>

definition lt_validate :: "(string \<Rightarrow> target_url option) \<Rightarrow> lt_config \<Rightarrow> lt_error + target_url" where
  "lt_validate parse c =
     (if ltRate c < 1 \<or> ltRate c > 10000000 then Inl LtRate
      else if ltDuration c \<le> 0 \<or> ltDuration c > 24 * hour then Inl LtDuration
      else if ltWorkers c < 1 \<or> ltWorkers c > 10000 \<or> ltQueue c < 1 \<or> ltQueue c > 100000 then Inl LtWorkers
      else if ltChoice c < 1 \<or> ltChoice c > 20 \<or> ltDuplicateEvery c < 0 then Inl LtChoice
      else if ltTimeout c \<le> 0 \<or> ltTimeout c > 5 * minute \<or> ltDrain c \<le> 0 \<or> ltDrain c > 5 * minute \<or> ltMaxLag c \<le> 0 \<or> ltMaxLag c > minute
        then Inl LtTimeouts
      else if \<not> lt_validUUID (ltPoll c) then Inl LtPoll
      else case parse (ltTarget c) of
        None \<Rightarrow> Inl LtURL
      | Some u \<Rightarrow>
          if lt_url_bad u then Inl LtURL
          else let local = (case parse_ip (tuHostname u) of None \<Rightarrow> False | Some ip \<Rightarrow> is_loopback ip) in
            if \<not> ltAllowHighLoad c \<and> (\<not> local \<or> lt_maxAverageRPS c > 1000 \<or> lt_maxAttempts c > 100000) then Inl LtHighLoad
            else Inr (u\<lparr>tuPath := trim_slashes (tuPath u) @ ''/api/polls/'' @ ltPoll c @ ''/votes'', tuRawPath := []\<rparr>))"

section \<open>The histogram\<close>

record lt_histogram =
  lhBuckets :: "int list"
  lhCount :: int
  lhMax :: duration

definition lt_buckets :: nat where "lt_buckets = 320"

definition lt_empty :: lt_histogram where
  "lt_empty = \<lparr>lhBuckets = replicate lt_buckets 0, lhCount = 0, lhMax = 0\<rparr>"

text \<open>The binary search for the first bound that is not below \<open>d\<close>.\<close>

function lt_search :: "(nat \<Rightarrow> duration) \<Rightarrow> duration \<Rightarrow> nat \<Rightarrow> nat \<Rightarrow> nat" where
  "lt_search bounds d lo hi =
     (if lo < hi then
        let mid = (lo + hi) div 2 in
        if bounds mid < d then lt_search bounds d (mid + 1) hi else lt_search bounds d lo mid
      else lo)"
  by pat_completeness auto

termination lt_search
  by (relation "measure (\<lambda>(bounds, d, lo, hi). hi - lo)") auto

declare lt_search.simps [simp del]

definition lt_add :: "(nat \<Rightarrow> duration) \<Rightarrow> duration \<Rightarrow> lt_histogram \<Rightarrow> lt_histogram" where
  "lt_add bounds d h =
     (let d = max 0 d; i = lt_search bounds d 0 (lt_buckets - 1) in
      \<lparr>lhBuckets = (lhBuckets h)[i := lhBuckets h ! i + 1], lhCount = lhCount h + 1, lhMax = max (lhMax h) d\<rparr>)"

text \<open>The loop of \<^verbatim>\<open>percentile\<close> from bucket \<open>i\<close> on, with \<open>seen\<close> values before it.\<close>

fun lt_rank :: "(nat \<Rightarrow> duration) \<Rightarrow> duration \<Rightarrow> int \<Rightarrow> nat \<Rightarrow> int \<Rightarrow> int list \<Rightarrow> duration" where
  "lt_rank bounds largest rank i seen [] = largest"
| "lt_rank bounds largest rank i seen (n # ns) =
     (let seen = seen + n in if seen \<ge> rank then min (bounds i) largest else lt_rank bounds largest rank (i + 1) seen ns)"

definition lt_percentile :: "(nat \<Rightarrow> duration) \<Rightarrow> int \<Rightarrow> lt_histogram \<Rightarrow> duration" where
  "lt_percentile bounds rank h = (if lhCount h = 0 then 0 else lt_rank bounds (lhMax h) rank 0 0 (lhBuckets h))"

section \<open>The metrics\<close>

record lt_metrics =
  mtPlanned :: int
  mtScheduled :: int
  mtEnqueued :: int
  mtDispatched :: int
  mtSkipped :: "(string \<times> int) list"
  mtAttempts :: int
  mtDuringWindow :: int
  mtResponses :: int
  mtCompleteResponses :: int
  mtTransportErrors :: int
  mtBodyErrors :: int
  mtLocalErrors :: int
  mtConfirmed :: int
  mtUnknown :: int
  mtRejected :: int
  mtStatuses :: "(int \<times> int) list"
  mtDispatchLag :: lt_histogram
  mtAttemptElapsed :: lt_histogram
  mtAttemptFromSchedule :: lt_histogram
  mtLogicalFromSchedule :: lt_histogram

definition newMetrics :: "int \<Rightarrow> lt_metrics" where
  "newMetrics planned = \<lparr>mtPlanned = planned, mtScheduled = 0, mtEnqueued = 0, mtDispatched = 0, mtSkipped = [], mtAttempts = 0, mtDuringWindow = 0,
     mtResponses = 0, mtCompleteResponses = 0, mtTransportErrors = 0, mtBodyErrors = 0, mtLocalErrors = 0, mtConfirmed = 0, mtUnknown = 0,
     mtRejected = 0, mtStatuses = [], mtDispatchLag = lt_empty, mtAttemptElapsed = lt_empty, mtAttemptFromSchedule = lt_empty,
     mtLogicalFromSchedule = lt_empty\<rparr>"

definition lt_scheduledSlots :: "int \<Rightarrow> lt_metrics \<Rightarrow> lt_metrics" where
  "lt_scheduledSlots n m = m\<lparr>mtScheduled := mtScheduled m + n\<rparr>"

definition lt_enqueuedSlot :: "lt_metrics \<Rightarrow> lt_metrics" where
  "lt_enqueuedSlot m = m\<lparr>mtEnqueued := mtEnqueued m + 1\<rparr>"

definition lt_skip :: "string \<Rightarrow> int \<Rightarrow> lt_metrics \<Rightarrow> lt_metrics" where
  "lt_skip reason n m = m\<lparr>mtSkipped := bump reason n (mtSkipped m)\<rparr>"

definition lt_dispatch :: "(nat \<Rightarrow> duration) \<Rightarrow> duration \<Rightarrow> lt_metrics \<Rightarrow> lt_metrics" where
  "lt_dispatch bounds lag m = m\<lparr>mtDispatched := mtDispatched m + 1, mtDispatchLag := lt_add bounds lag (mtDispatchLag m)\<rparr>"

definition lt_localError :: "lt_metrics \<Rightarrow> lt_metrics" where
  "lt_localError m = m\<lparr>mtLocalErrors := mtLocalErrors m + 1\<rparr>"

definition lt_beginAttempt :: "bool \<Rightarrow> lt_metrics \<Rightarrow> lt_metrics" where
  "lt_beginAttempt in_window m =
     (let m = m\<lparr>mtAttempts := mtAttempts m + 1\<rparr> in if in_window then m\<lparr>mtDuringWindow := mtDuringWindow m + 1\<rparr> else m)"

definition lt_finishAttempt :: "(nat \<Rightarrow> duration) \<Rightarrow> int \<Rightarrow> bool \<Rightarrow> bool \<Rightarrow> duration \<Rightarrow> duration \<Rightarrow> lt_metrics \<Rightarrow> lt_metrics" where
  "lt_finishAttempt bounds status transport_error body_error elapsed from_schedule m =
     (let m = (if status \<noteq> 0 then
            let m = m\<lparr>mtStatuses := bump status 1 (mtStatuses m), mtResponses := mtResponses m + 1\<rparr> in
            if \<not> transport_error \<and> \<not> body_error then m\<lparr>mtCompleteResponses := mtCompleteResponses m + 1\<rparr> else m
          else m);
          m = (if transport_error then m\<lparr>mtTransportErrors := mtTransportErrors m + 1\<rparr> else m);
          m = (if body_error then m\<lparr>mtBodyErrors := mtBodyErrors m + 1\<rparr> else m)
      in m\<lparr>mtAttemptElapsed := lt_add bounds elapsed (mtAttemptElapsed m),
           mtAttemptFromSchedule := lt_add bounds from_schedule (mtAttemptFromSchedule m)\<rparr>)"

definition lt_finishLogical :: "(nat \<Rightarrow> duration) \<Rightarrow> bool \<Rightarrow> bool \<Rightarrow> duration \<Rightarrow> lt_metrics \<Rightarrow> lt_metrics" where
  "lt_finishLogical bounds confirmed unknown elapsed m =
     (let m = (if confirmed then m\<lparr>mtConfirmed := mtConfirmed m + 1\<rparr>
        else if unknown then m\<lparr>mtUnknown := mtUnknown m + 1\<rparr> else m\<lparr>mtRejected := mtRejected m + 1\<rparr>)
      in m\<lparr>mtLogicalFromSchedule := lt_add bounds elapsed (mtLogicalFromSchedule m)\<rparr>)"

section \<open>The scheduler and the workers\<close>

record lt_job =
  ljSequence :: int
  ljScheduled :: time

text \<open>
  What a worker is doing: waiting for a slot; holding one; about to send attempt 1 or 2, with what is known of the vote so far; waiting for the
  response since an instant; or about to close the vote.
\<close>

datatype lt_worker =
    LtWaiting
  | LtTaken lt_job
  | LtAttempting lt_job nat bool bool
  | LtCalling lt_job nat bool bool time
  | LtClosing lt_job bool bool

record lt_state =
  lsMetrics :: lt_metrics
  lsNext :: int
  lsEnded :: bool
  lsQueue :: "lt_job list"
  lsWorkers :: "lt_worker list"

definition lt_initial :: "lt_config \<Rightarrow> lt_state" where
  "lt_initial c = \<lparr>lsMetrics = newMetrics (lt_planned c), lsNext = 0, lsEnded = False, lsQueue = [], lsWorkers = replicate (nat (ltWorkers c)) LtWaiting\<rparr>"

text \<open>
  The steps. The scheduler returns when the context ends, or makes one turn at an instant. A worker takes a slot; gives it up or dispatches it
  (\<open>cancelled\<close>: the context has ended; \<open>random\<close>: the token could be generated); builds and sends a request (\<open>request\<close>: it could be
  built); receives a response, as the status with whether the body could be read, or none, and whether there was an error (\<open>ended\<close>: the context has
  ended then); and closes the vote.
\<close>

datatype lt_event =
    LtScheduleCancelled
  | LtScheduleAt time
  | LtTakes nat
  | LtStarts nat bool time bool time
  | LtSends nat bool time bool
  | LtReceives nat "(int \<times> bool) option" bool time bool
  | LtCloses nat time

definition lt_turn :: "lt_config \<Rightarrow> time \<Rightarrow> time \<Rightarrow> lt_state \<Rightarrow> lt_state" where
  "lt_turn c start now s =
     (let next = lsNext s; m = lsMetrics s;
          obsolete = min (lt_planned c) (slotsBefore (time_sub now start - ltMaxLag c) (ltRate c))
      in if obsolete > next then
           s\<lparr>lsMetrics := lt_skip ''scheduler_lag'' (obsolete - next) (lt_scheduledSlots (obsolete - next) m), lsNext := obsolete\<rparr>
         else let j = \<lparr>ljSequence = next, ljScheduled = start + slotOffset next (ltRate c)\<rparr> in
           if time_sub (ljScheduled j) now > 0 then s
           else let m = lt_scheduledSlots 1 m in
             if int (length (lsQueue s)) < ltQueue c
             then s\<lparr>lsMetrics := lt_enqueuedSlot m, lsQueue := lsQueue s @ [j], lsNext := next + 1\<rparr>
             else s\<lparr>lsMetrics := lt_skip ''queue_full'' 1 m, lsNext := next + 1\<rparr>)"

definition lt_put :: "nat \<Rightarrow> lt_worker \<Rightarrow> lt_metrics \<Rightarrow> lt_state \<Rightarrow> lt_state" where
  "lt_put w a m s = s\<lparr>lsMetrics := m, lsWorkers := (lsWorkers s)[w := a]\<rparr>"

text \<open>After attempt \<open>n\<close>: the one deliberate repeat, or the end of the vote.\<close>

definition lt_after :: "lt_config \<Rightarrow> lt_job \<Rightarrow> nat \<Rightarrow> bool \<Rightarrow> bool \<Rightarrow> bool \<Rightarrow> lt_worker" where
  "lt_after c j n confirmed unknown ended =
     (if n = 1 \<and> ltDuplicateEvery c > 0 \<and> (ljSequence j + 1) mod ltDuplicateEvery c = 0 \<and> \<not> ended then LtAttempting j 2 confirmed unknown
      else LtClosing j confirmed unknown)"

definition lt_starts :: "(nat \<Rightarrow> duration) \<Rightarrow> lt_config \<Rightarrow> nat \<Rightarrow> lt_job \<Rightarrow> bool \<Rightarrow> time \<Rightarrow> bool \<Rightarrow> time \<Rightarrow> lt_state \<Rightarrow> lt_state" where
  "lt_starts bounds c w j cancelled now random dispatched s =
     (let m = lsMetrics s in
      if cancelled then lt_put w LtWaiting (lt_skip ''cancelled'' 1 m) s
      else if time_sub now (ljScheduled j) > ltMaxLag c then lt_put w LtWaiting (lt_skip ''worker_lag'' 1 m) s
      else if \<not> random then lt_put w LtWaiting (lt_skip ''token_generation'' 1 m) s
      else lt_put w (LtAttempting j 1 False False) (lt_dispatch bounds (time_sub dispatched (ljScheduled j)) m) s)"

text \<open>The status and the doubt of one attempt, joined to what the earlier one gave.\<close>

definition lt_sends :: "lt_config \<Rightarrow> time \<Rightarrow> nat \<Rightarrow> lt_job \<Rightarrow> nat \<Rightarrow> bool \<Rightarrow> bool \<Rightarrow> bool \<Rightarrow> time \<Rightarrow> bool \<Rightarrow> lt_state \<Rightarrow> lt_state" where
  "lt_sends c start w j n confirmed unknown request sent ended s =
     (if \<not> request then lt_put w (lt_after c j n confirmed True ended) (lt_localError (lsMetrics s)) s
      else lt_put w (LtCalling j n confirmed unknown sent) (lt_beginAttempt (time_sub sent start < ltDuration c) (lsMetrics s)) s)"

definition lt_receives ::
  "(nat \<Rightarrow> duration) \<Rightarrow> lt_config \<Rightarrow> nat \<Rightarrow> lt_job \<Rightarrow> nat \<Rightarrow> bool \<Rightarrow> bool \<Rightarrow> time \<Rightarrow> (int \<times> bool) option \<Rightarrow> bool \<Rightarrow> time \<Rightarrow> bool \<Rightarrow> lt_state \<Rightarrow> lt_state" where
  "lt_receives bounds c w j n confirmed unknown sent response transport_error finished ended s =
     (let status = (case response of None \<Rightarrow> 0 | Some (st, body) \<Rightarrow> st);
          body_error = (case response of None \<Rightarrow> False | Some (st, body) \<Rightarrow> body)
      in lt_put w (lt_after c j n (confirmed \<or> status = 201 \<or> status = 200) (unknown \<or> status = 0 \<or> status \<ge> 500) ended)
           (lt_finishAttempt bounds status transport_error body_error (time_sub finished sent) (time_sub finished (ljScheduled j)) (lsMetrics s)) s)"

definition lt_step :: "(nat \<Rightarrow> duration) \<Rightarrow> lt_config \<Rightarrow> time \<Rightarrow> lt_event \<Rightarrow> lt_state \<Rightarrow> lt_state option" where
  "lt_step bounds c start event s =
     (case event of
        LtScheduleCancelled \<Rightarrow> if \<not> lsEnded s \<and> lsNext s < lt_planned c then Some (s\<lparr>lsEnded := True\<rparr>) else None
      | LtScheduleAt now \<Rightarrow> if \<not> lsEnded s \<and> lsNext s < lt_planned c then Some (lt_turn c start now s) else None
      | LtTakes w \<Rightarrow>
          if w < length (lsWorkers s) \<and> lsWorkers s ! w = LtWaiting \<and> lsQueue s \<noteq> []
          then Some (lt_put w (LtTaken (hd (lsQueue s))) (lsMetrics s) (s\<lparr>lsQueue := tl (lsQueue s)\<rparr>)) else None
      | LtStarts w cancelled now random dispatched \<Rightarrow>
          if w < length (lsWorkers s) then
            (case lsWorkers s ! w of LtTaken j \<Rightarrow> Some (lt_starts bounds c w j cancelled now random dispatched s) | _ \<Rightarrow> None)
          else None
      | LtSends w request sent ended \<Rightarrow>
          if w < length (lsWorkers s) then
            (case lsWorkers s ! w of
               LtAttempting j n confirmed unknown \<Rightarrow> Some (lt_sends c start w j n confirmed unknown request sent ended s) | _ \<Rightarrow> None)
          else None
      | LtReceives w response transport_error finished ended \<Rightarrow>
          if w < length (lsWorkers s) then
            (case lsWorkers s ! w of
               LtCalling j n confirmed unknown sent \<Rightarrow>
                 Some (lt_receives bounds c w j n confirmed unknown sent response transport_error finished ended s)
             | _ \<Rightarrow> None)
          else None
      | LtCloses w now \<Rightarrow>
          if w < length (lsWorkers s) then
            (case lsWorkers s ! w of
               LtClosing j confirmed unknown \<Rightarrow>
                 Some (lt_put w LtWaiting (lt_finishLogical bounds confirmed unknown (time_sub now (ljScheduled j)) (lsMetrics s)) s)
             | _ \<Rightarrow> None)
          else None)"

fun lt_run :: "(nat \<Rightarrow> duration) \<Rightarrow> lt_config \<Rightarrow> time \<Rightarrow> lt_event list \<Rightarrow> lt_state \<Rightarrow> lt_state option" where
  "lt_run bounds c start [] s = Some s"
| "lt_run bounds c start (e # es) s = (case lt_step bounds c start e s of None \<Rightarrow> None | Some t \<Rightarrow> lt_run bounds c start es t)"

definition lt_over :: "lt_config \<Rightarrow> lt_state \<Rightarrow> bool" where
  "lt_over c s \<longleftrightarrow> (lsEnded s \<or> lsNext s \<ge> lt_planned c) \<and> lsQueue s = [] \<and> list_all (\<lambda>w. w = LtWaiting) (lsWorkers s)"

section \<open>The report\<close>

record lt_latency =
  llCount :: int
  llP50 :: duration
  llP95 :: duration
  llP99 :: duration
  llMax :: duration

text \<open>\<open>rank count percent\<close> is the rank of a percentile among so many values.\<close>

definition lt_latency_report :: "(nat \<Rightarrow> duration) \<Rightarrow> (int \<Rightarrow> int \<Rightarrow> int) \<Rightarrow> lt_histogram \<Rightarrow> lt_latency" where
  "lt_latency_report bounds rank h =
     \<lparr>llCount = lhCount h, llP50 = lt_percentile bounds (rank (lhCount h) 50) h, llP95 = lt_percentile bounds (rank (lhCount h) 95) h,
      llP99 = lt_percentile bounds (rank (lhCount h) 99) h, llMax = lhMax h\<rparr>"

record lt_report =
  lrInterrupted :: bool
  lrPlanned :: int
  lrScheduled :: int
  lrNotScheduled :: int
  lrEnqueued :: int
  lrDispatched :: int
  lrSkipped :: int
  lrSkippedByReason :: "(string \<times> int) list"
  lrAttempts :: int
  lrDuringWindow :: int
  lrAfterWindow :: int
  lrResponses :: int
  lrCompleteResponses :: int
  lrStatuses :: "(int \<times> int) list"
  lrAccepted201 :: int
  lrDuplicate200 :: int
  lrTransportErrors :: int
  lrBodyErrors :: int
  lrLocalErrors :: int
  lrUnknown503 :: int
  lrConfirmed :: int
  lrUnknown :: int
  lrRejected :: int
  lrDispatchLag :: lt_latency
  lrAttemptLatency :: lt_latency
  lrAttemptEndToEnd :: lt_latency
  lrLogicalEndToEnd :: lt_latency

definition lt_snapshot :: "(nat \<Rightarrow> duration) \<Rightarrow> (int \<Rightarrow> int \<Rightarrow> int) \<Rightarrow> bool \<Rightarrow> lt_metrics \<Rightarrow> lt_report" where
  "lt_snapshot bounds rank interrupted m =
     \<lparr>lrInterrupted = interrupted, lrPlanned = mtPlanned m, lrScheduled = mtScheduled m, lrNotScheduled = mtPlanned m - mtScheduled m,
      lrEnqueued = mtEnqueued m, lrDispatched = mtDispatched m, lrSkipped = summed (mtSkipped m), lrSkippedByReason = mtSkipped m,
      lrAttempts = mtAttempts m, lrDuringWindow = mtDuringWindow m, lrAfterWindow = mtAttempts m - mtDuringWindow m,
      lrResponses = mtResponses m, lrCompleteResponses = mtCompleteResponses m, lrStatuses = mtStatuses m,
      lrAccepted201 = count_at 201 (mtStatuses m), lrDuplicate200 = count_at 200 (mtStatuses m), lrTransportErrors = mtTransportErrors m,
      lrBodyErrors = mtBodyErrors m, lrLocalErrors = mtLocalErrors m, lrUnknown503 = count_at 503 (mtStatuses m),
      lrConfirmed = mtConfirmed m, lrUnknown = mtUnknown m, lrRejected = mtRejected m, lrDispatchLag = lt_latency_report bounds rank (mtDispatchLag m),
      lrAttemptLatency = lt_latency_report bounds rank (mtAttemptElapsed m), lrAttemptEndToEnd = lt_latency_report bounds rank (mtAttemptFromSchedule m),
      lrLogicalEndToEnd = lt_latency_report bounds rank (mtLogicalFromSchedule m)\<rparr>"

text \<open>\<^verbatim>\<open>run\<close>, along the events of a whole run.\<close>

definition loadtest_run :: "(nat \<Rightarrow> duration) \<Rightarrow> (int \<Rightarrow> int \<Rightarrow> int) \<Rightarrow> lt_config \<Rightarrow> time \<Rightarrow> lt_event list \<Rightarrow> bool \<Rightarrow> lt_report option" where
  "loadtest_run bounds rank c start events interrupted =
     (case lt_run bounds c start events (lt_initial c) of
        None \<Rightarrow> None
      | Some s \<Rightarrow> if lt_over c s then Some (lt_snapshot bounds rank interrupted (lsMetrics s)) else None)"

end
