(* ===== verification/Loadtest_Props.thy ===== *)
theory Loadtest_Props
  imports Loadtest
begin

text \<open>
  The accounts of the load generator: at every moment of a run each scheduled slot is in the queue, with a worker, skipped or finished, each attempt
  is under way or has its result, and the deliberate repeats stay within the bound that the validation of the configuration computes.
\<close>

section \<open>The histogram\<close>

lemma lt_search_le: "lo \<le> hi \<Longrightarrow> lt_search bounds d lo hi \<le> hi"
proof (induction bounds d lo hi rule: lt_search.induct)
  case (1 bounds d lo hi)
  show ?case
  proof (cases "lo < hi")
    case True
    let ?mid = "(lo + hi) div 2"
    have mid: "?mid + 1 \<le> hi" "lo \<le> ?mid" "?mid \<le> hi" using True by auto
    have "bounds ?mid < d \<Longrightarrow> lt_search bounds d (?mid + 1) hi \<le> hi" using 1(1) [OF True refl] mid by simp
    moreover have "\<not> bounds ?mid < d \<Longrightarrow> lt_search bounds d lo ?mid \<le> ?mid" using 1(2) [OF True refl] mid by simp
    ultimately show ?thesis using True mid(3) by (subst lt_search.simps) (auto simp: Let_def)
  next
    case False
    with 1(3) show ?thesis by (subst lt_search.simps) simp
  qed
qed

text \<open>A histogram counts each value in one bucket.\<close>

definition lt_hist_ok :: "lt_histogram \<Rightarrow> bool" where
  "lt_hist_ok h \<longleftrightarrow> length (lhBuckets h) = lt_buckets \<and> sum_list (lhBuckets h) = lhCount h"

lemma lt_empty_ok [simp]: "lt_hist_ok lt_empty" "lhCount lt_empty = 0"
  by (simp_all add: lt_hist_ok_def lt_empty_def sum_list_replicate)

lemma lt_add_ok [simp]: "lt_hist_ok h \<Longrightarrow> lt_hist_ok (lt_add bounds d h)" "lhCount (lt_add bounds d h) = lhCount h + 1"
proof -
  have "lt_search bounds (max 0 d) 0 (lt_buckets - 1) < lt_buckets"
    using lt_search_le [of 0 "lt_buckets - 1" bounds "max 0 d"] by (simp add: lt_buckets_def)
  then show "lt_hist_ok h \<Longrightarrow> lt_hist_ok (lt_add bounds d h)"
    by (simp add: lt_hist_ok_def lt_add_def Let_def sum_list_update_int)
  show "lhCount (lt_add bounds d h) = lhCount h + 1" by (simp add: lt_add_def Let_def)
qed

section \<open>What a worker is doing\<close>

text \<open>A slot that is to be sent twice.\<close>

definition repeats :: "lt_config \<Rightarrow> lt_job \<Rightarrow> bool" where
  "repeats c j \<longleftrightarrow> ltDuplicateEvery c > 0 \<and> (ljSequence j + 1) mod ltDuplicateEvery c = 0"

fun holds_slot :: "lt_worker \<Rightarrow> bool" where
  "holds_slot (LtTaken j) = True"
| "holds_slot _ = False"

fun has_vote :: "lt_worker \<Rightarrow> bool" where
  "has_vote LtWaiting = False"
| "has_vote (LtTaken j) = False"
| "has_vote _ = True"

fun sends_first :: "lt_worker \<Rightarrow> bool" where
  "sends_first (LtAttempting j n confirmed unknown) = (n = 1)"
| "sends_first _ = False"

fun sends_again :: "lt_worker \<Rightarrow> bool" where
  "sends_again (LtAttempting j n confirmed unknown) = (n \<noteq> 1)"
| "sends_again _ = False"

fun awaits_response :: "lt_worker \<Rightarrow> bool" where
  "awaits_response (LtCalling j n confirmed unknown sent) = True"
| "awaits_response _ = False"

fun may_repeat :: "lt_config \<Rightarrow> lt_worker \<Rightarrow> bool" where
  "may_repeat c (LtTaken j) = repeats c j"
| "may_repeat c (LtAttempting j n confirmed unknown) = (n = 1 \<and> repeats c j)"
| "may_repeat c (LtCalling j n confirmed unknown sent) = (n = 1 \<and> repeats c j)"
| "may_repeat c _ = False"

fun has_confirmation :: "lt_worker \<Rightarrow> bool" where
  "has_confirmation (LtAttempting j n confirmed unknown) = confirmed"
| "has_confirmation (LtCalling j n confirmed unknown sent) = confirmed"
| "has_confirmation (LtClosing j confirmed unknown) = confirmed"
| "has_confirmation _ = False"

lemma after_kinds [simp]:
  "holds_slot (lt_after c j n confirmed unknown ended) = False" "has_vote (lt_after c j n confirmed unknown ended) = True"
  "sends_first (lt_after c j n confirmed unknown ended) = False" "awaits_response (lt_after c j n confirmed unknown ended) = False"
  "may_repeat c (lt_after c j n confirmed unknown ended) = False"
  "sends_again (lt_after c j n confirmed unknown ended) = (n = 1 \<and> repeats c j \<and> \<not> ended)"
  "has_confirmation (lt_after c j n confirmed unknown ended) = confirmed"
  by (auto simp: lt_after_def repeats_def)

lemma repeats_step:
  "0 \<le> ltDuplicateEvery c \<Longrightarrow>
     n div ltDuplicateEvery c + of_bool (repeats c \<lparr>ljSequence = n, ljScheduled = t\<rparr>) = (n + 1) div ltDuplicateEvery c"
  by (cases "ltDuplicateEvery c = 0") (simp_all add: repeats_def div_step)

section \<open>The invariants\<close>

definition skips_of :: "string \<Rightarrow> lt_metrics \<Rightarrow> int" where
  "skips_of reason m = count_at reason (mtSkipped m)"

text \<open>The slots.\<close>

definition lt_slots_ok :: "lt_config \<Rightarrow> lt_state \<Rightarrow> bool" where
  "lt_slots_ok c s \<longleftrightarrow> (let m = lsMetrics s in
     mtPlanned m = lt_planned c \<and> mtScheduled m = lsNext s \<and> 0 \<le> lsNext s \<and> lsNext s \<le> lt_planned c \<and>
     mtScheduled m = mtEnqueued m + skips_of ''queue_full'' m + skips_of ''scheduler_lag'' m \<and>
     mtEnqueued m = int (length (lsQueue s)) + how_many holds_slot (lsWorkers s) + mtDispatched m + skips_of ''cancelled'' m +
       skips_of ''worker_lag'' m + skips_of ''token_generation'' m \<and>
     summed (mtSkipped m) = skips_of ''queue_full'' m + skips_of ''scheduler_lag'' m + skips_of ''cancelled'' m +
       skips_of ''worker_lag'' m + skips_of ''token_generation'' m \<and>
     0 \<le> skips_of ''queue_full'' m \<and> 0 \<le> skips_of ''scheduler_lag'' m \<and> 0 \<le> skips_of ''cancelled'' m \<and>
     0 \<le> skips_of ''worker_lag'' m \<and> 0 \<le> skips_of ''token_generation'' m)"

text \<open>The votes and their attempts.\<close>

definition lt_votes_ok :: "lt_config \<Rightarrow> lt_state \<Rightarrow> bool" where
  "lt_votes_ok c s \<longleftrightarrow> (let m = lsMetrics s; ws = lsWorkers s in
     mtDispatched m = mtConfirmed m + mtUnknown m + mtRejected m + how_many has_vote ws \<and>
     mtDispatched m \<le> mtAttempts m + mtLocalErrors m + how_many sends_first ws \<and>
     mtAttempts m + mtLocalErrors m + how_many sends_first ws + how_many sends_again ws + how_many (may_repeat c) ws +
       how_many (repeats c) (lsQueue s) \<le> mtDispatched m + lsNext s div ltDuplicateEvery c \<and>
     0 \<le> mtLocalErrors m \<and> 0 \<le> mtDuringWindow m \<and> mtDuringWindow m \<le> mtAttempts m)"

text \<open>The responses.\<close>

definition lt_answers_ok :: "lt_state \<Rightarrow> bool" where
  "lt_answers_ok s \<longleftrightarrow> (let m = lsMetrics s; ws = lsWorkers s in
     mtAttempts m = lhCount (mtAttemptElapsed m) + how_many awaits_response ws \<and>
     mtResponses m = summed (mtStatuses m) \<and> 0 \<le> mtCompleteResponses m \<and> mtCompleteResponses m \<le> mtResponses m \<and>
     mtResponses m \<le> lhCount (mtAttemptElapsed m) \<and>
     mtConfirmed m + how_many has_confirmation ws \<le> count_at 201 (mtStatuses m) + count_at 200 (mtStatuses m))"

text \<open>The latencies.\<close>

definition lt_times_ok :: "lt_metrics \<Rightarrow> bool" where
  "lt_times_ok m \<longleftrightarrow>
     lt_hist_ok (mtDispatchLag m) \<and> lt_hist_ok (mtAttemptElapsed m) \<and> lt_hist_ok (mtAttemptFromSchedule m) \<and>
     lt_hist_ok (mtLogicalFromSchedule m) \<and> lhCount (mtDispatchLag m) = mtDispatched m \<and>
     lhCount (mtAttemptFromSchedule m) = lhCount (mtAttemptElapsed m) \<and>
     lhCount (mtLogicalFromSchedule m) = mtConfirmed m + mtUnknown m + mtRejected m"

definition lt_ok :: "lt_config \<Rightarrow> lt_state \<Rightarrow> bool" where
  "lt_ok c s \<longleftrightarrow> lt_slots_ok c s \<and> lt_votes_ok c s \<and> lt_answers_ok s \<and> lt_times_ok (lsMetrics s)"

lemmas lt_metrics_defs = lt_scheduledSlots_def lt_enqueuedSlot_def lt_skip_def lt_dispatch_def lt_localError_def lt_beginAttempt_def
  lt_finishAttempt_def lt_finishLogical_def

lemmas lt_account_defs = lt_slots_ok_def lt_votes_ok_def lt_answers_ok_def lt_times_ok_def skips_of_def Let_def

section \<open>Every step keeps them\<close>

lemma lt_ok_turn:
  assumes s: "lt_ok c s" and less: "lsNext s < lt_planned c" and every: "0 \<le> ltDuplicateEvery c"
  shows "lt_ok c (lt_turn c start now s)"
proof -
  have parts: "lt_slots_ok c s" "lt_votes_ok c s" "lt_answers_ok s" "lt_times_ok (lsMetrics s)" using s by (simp_all add: lt_ok_def)
  define obs where "obs = min (lt_planned c) (slotsBefore (time_sub now start - ltMaxLag c) (ltRate c))"
  have step: "lsNext s < obs \<Longrightarrow> lsNext s div ltDuplicateEvery c \<le> obs div ltDuplicateEvery c"
    using every by (cases "ltDuplicateEvery c = 0") (simp_all add: zdiv_mono1)
  have one: "lsNext s div ltDuplicateEvery c \<le> (lsNext s + 1) div ltDuplicateEvery c"
    using every by (cases "ltDuplicateEvery c = 0") (simp_all add: zdiv_mono1)
  consider "lsNext s < obs" | "\<not> lsNext s < obs" "time_sub (start + slotOffset (lsNext s) (ltRate c)) now > 0"
    | "\<not> lsNext s < obs" "\<not> time_sub (start + slotOffset (lsNext s) (ltRate c)) now > 0" by blast
  then show ?thesis
  proof cases
    case 1
    let ?m = "lt_skip ''scheduler_lag'' (obs - lsNext s) (lt_scheduledSlots (obs - lsNext s) (lsMetrics s))"
    have t: "lt_turn c start now s = s\<lparr>lsMetrics := ?m, lsNext := obs\<rparr>" using 1 by (simp add: lt_turn_def Let_def obs_def [symmetric])
    have "obs \<le> lt_planned c" by (simp add: obs_def)
    with parts(1) 1 have "lt_slots_ok c (s\<lparr>lsMetrics := ?m, lsNext := obs\<rparr>)"
      unfolding lt_slots_ok_def skips_of_def Let_def by (elim conjE) (simp add: lt_scheduledSlots_def lt_skip_def count_at_bump)
    moreover have "lt_votes_ok c (s\<lparr>lsMetrics := ?m, lsNext := obs\<rparr>)"
      using parts(2) step [OF 1] by (simp add: lt_votes_ok_def Let_def lt_scheduledSlots_def lt_skip_def)
    moreover have "lt_answers_ok (s\<lparr>lsMetrics := ?m, lsNext := obs\<rparr>)" "lt_times_ok ?m"
      using parts(3,4) by (simp_all add: lt_answers_ok_def lt_times_ok_def Let_def lt_scheduledSlots_def lt_skip_def)
    ultimately show ?thesis by (simp add: t lt_ok_def)
  next
    case 2
    then show ?thesis using s by (simp add: lt_turn_def Let_def obs_def [symmetric])
  next
    case 3
    let ?j = "\<lparr>ljSequence = lsNext s, ljScheduled = start + slotOffset (lsNext s) (ltRate c)\<rparr>"
    note again = repeats_step [OF every, of "lsNext s" "start + slotOffset (lsNext s) (ltRate c)"]
    show ?thesis
    proof (cases "int (length (lsQueue s)) < ltQueue c")
      case True
      have t: "lt_turn c start now s =
          s\<lparr>lsMetrics := lt_enqueuedSlot (lt_scheduledSlots 1 (lsMetrics s)), lsQueue := lsQueue s @ [?j], lsNext := lsNext s + 1\<rparr>"
        using 3 True by (simp add: lt_turn_def Let_def obs_def [symmetric])
      show ?thesis
        using s less again unfolding t lt_ok_def lt_account_defs
        by (elim conjE) (simp add: lt_scheduledSlots_def lt_enqueuedSlot_def)
    next
      case False
      have t: "lt_turn c start now s =
          s\<lparr>lsMetrics := lt_skip ''queue_full'' 1 (lt_scheduledSlots 1 (lsMetrics s)), lsNext := lsNext s + 1\<rparr>"
        using 3 False by (simp add: lt_turn_def Let_def obs_def [symmetric])
      show ?thesis
        using s less one unfolding t lt_ok_def lt_account_defs
        by (elim conjE) (simp add: lt_scheduledSlots_def lt_skip_def count_at_bump)
    qed
  qed
qed

lemma lt_ok_takes:
  assumes "lt_ok c s" and "w < length (lsWorkers s)" "lsWorkers s ! w = LtWaiting" "lsQueue s = j # js"
  shows "lt_ok c (lt_put w (LtTaken j) (lsMetrics s) (s\<lparr>lsQueue := js\<rparr>))"
  using assms unfolding lt_ok_def lt_account_defs by (elim conjE) (simp add: lt_put_def how_many_update)

lemma lt_ok_starts:
  assumes "lt_ok c s" and "w < length (lsWorkers s)" "lsWorkers s ! w = LtTaken j"
  shows "lt_ok c (lt_starts bounds c w j cancelled now random dispatched s)"
  using assms unfolding lt_ok_def lt_account_defs
  by (elim conjE) (simp add: lt_starts_def lt_put_def how_many_update Let_def lt_metrics_defs count_at_bump)

lemma lt_ok_sends:
  assumes "lt_ok c s" and "w < length (lsWorkers s)" "lsWorkers s ! w = LtAttempting j n confirmed unknown"
  shows "lt_ok c (lt_sends c start w j n confirmed unknown request sent ended s)"
  using assms unfolding lt_ok_def lt_account_defs
  by (elim conjE) (simp add: lt_sends_def lt_put_def how_many_update Let_def lt_metrics_defs)

lemma lt_ok_receives:
  assumes "lt_ok c s" and "w < length (lsWorkers s)" "lsWorkers s ! w = LtCalling j n confirmed unknown sent"
  shows "lt_ok c (lt_receives bounds c w j n confirmed unknown sent response transport_error finished ended s)"
proof -
  have parts: "lt_slots_ok c s" "lt_votes_ok c s" "lt_answers_ok s" "lt_times_ok (lsMetrics s)" using assms(1) by (simp_all add: lt_ok_def)
  let ?t = "lt_receives bounds c w j n confirmed unknown sent response transport_error finished ended s"
  have "lt_slots_ok c ?t"
    using parts(1) assms(2,3) by (simp add: lt_slots_ok_def skips_of_def Let_def lt_receives_def lt_put_def lt_finishAttempt_def how_many_update)
  moreover have "lt_votes_ok c ?t"
    using parts(2) assms(2,3) unfolding lt_votes_ok_def Let_def
    by (elim conjE) (simp add: lt_receives_def Let_def lt_put_def lt_finishAttempt_def how_many_update)
  moreover have "lt_answers_ok ?t"
    using parts(3) assms(2,3) unfolding lt_answers_ok_def Let_def
    by (elim conjE) (simp add: lt_receives_def Let_def lt_put_def lt_finishAttempt_def how_many_update count_at_bump)
  moreover have "lt_times_ok (lsMetrics ?t)"
    using parts(4) by (simp add: lt_times_ok_def lt_receives_def Let_def lt_put_def lt_finishAttempt_def)
  ultimately show ?thesis by (simp add: lt_ok_def)
qed

lemma lt_ok_closes:
  assumes "lt_ok c s" and "w < length (lsWorkers s)" "lsWorkers s ! w = LtClosing j confirmed unknown"
  shows "lt_ok c (lt_put w LtWaiting (lt_finishLogical bounds confirmed unknown d (lsMetrics s)) s)"
  using assms unfolding lt_ok_def lt_account_defs
  by (elim conjE) (simp add: lt_put_def how_many_update Let_def lt_metrics_defs)

lemma lt_ok_step:
  assumes s: "lt_ok c s" and every: "0 \<le> ltDuplicateEvery c" and step: "lt_step bounds c start event s = Some t"
  shows "lt_ok c t"
proof (cases event)
  case LtScheduleCancelled
  then have "t = s\<lparr>lsEnded := True\<rparr>" using step by (simp add: lt_step_def split: if_splits)
  then show ?thesis using s by (simp add: lt_ok_def lt_account_defs)
next
  case (LtScheduleAt now)
  then have "lsNext s < lt_planned c" "t = lt_turn c start now s" using step by (simp_all add: lt_step_def split: if_splits)
  then show ?thesis using lt_ok_turn [OF s _ every] by simp
next
  case (LtTakes w)
  then have w: "w < length (lsWorkers s)" "lsWorkers s ! w = LtWaiting" "lsQueue s \<noteq> []"
    and t: "t = lt_put w (LtTaken (hd (lsQueue s))) (lsMetrics s) (s\<lparr>lsQueue := tl (lsQueue s)\<rparr>)"
    using step by (simp_all add: lt_step_def split: if_splits)
  then obtain j js where "lsQueue s = j # js" by (cases "lsQueue s") simp_all
  then show ?thesis using lt_ok_takes [OF s w(1,2), of j js] by (simp add: t)
next
  case (LtStarts w cancelled now random dispatched)
  then show ?thesis using step lt_ok_starts [OF s] by (auto simp: lt_step_def split: if_splits lt_worker.splits)
next
  case (LtSends w request sent ended)
  then show ?thesis using step lt_ok_sends [OF s] by (auto simp: lt_step_def split: if_splits lt_worker.splits)
next
  case (LtReceives w response transport_error finished ended)
  then show ?thesis using step lt_ok_receives [OF s] by (auto simp: lt_step_def split: if_splits lt_worker.splits)
next
  case (LtCloses w now)
  then show ?thesis using step lt_ok_closes [OF s] by (auto simp: lt_step_def split: if_splits lt_worker.splits)
qed

section \<open>Runs\<close>

definition lt_moves :: "(nat \<Rightarrow> duration) \<Rightarrow> lt_config \<Rightarrow> time \<Rightarrow> lt_state \<Rightarrow> lt_state \<Rightarrow> bool" where
  "lt_moves bounds c start s t \<longleftrightarrow> (\<exists>event. lt_step bounds c start event s = Some t)"

lemma lt_run_reaches: "lt_run bounds c start es s = Some t \<Longrightarrow> (lt_moves bounds c start)\<^sup>*\<^sup>* s t"
proof (induction es arbitrary: s)
  case (Cons e es)
  then obtain u where u: "lt_step bounds c start e s = Some u" "lt_run bounds c start es u = Some t" by (auto split: option.splits)
  then have "lt_moves bounds c start s u" by (auto simp: lt_moves_def)
  with Cons.IH [OF u(2)] show ?case by (rule converse_rtranclp_into_rtranclp [rotated])
qed simp

lemma lt_ok_initial: "0 \<le> lt_planned c \<Longrightarrow> 0 \<le> ltDuplicateEvery c \<Longrightarrow> lt_ok c (lt_initial c)"
  by (simp add: lt_ok_def lt_account_defs lt_initial_def newMetrics_def how_many_none count_at_def)

lemma lt_valid_bounds:
  assumes "lt_validate parse c = Inr u"
  shows "0 < lt_planned c" "0 \<le> ltDuplicateEvery c"
proof -
  have limits: "1 \<le> ltRate c" "ltRate c \<le> 10000000" "0 < ltDuration c" "ltDuration c \<le> 24 * hour"
    using assms by (auto simp: lt_validate_def split: if_splits)
  then show "0 < lt_planned c" using loadtest_slots_exact [of "ltRate c" "ltDuration c" 0] by (simp add: lt_planned_def)
  show "0 \<le> ltDuplicateEvery c" using assms by (auto simp: lt_validate_def split: if_splits)
qed

interpretation ltb: transition_system "\<lambda>s. s = lt_initial c" "lt_moves bounds c start"
  "\<lambda>s. 0 \<le> lt_planned c \<longrightarrow> 0 \<le> ltDuplicateEvery c \<longrightarrow> lt_ok c s"
proof
  show "s = lt_initial c \<Longrightarrow> 0 \<le> lt_planned c \<longrightarrow> 0 \<le> ltDuplicateEvery c \<longrightarrow> lt_ok c s" for s
    by (simp add: lt_ok_initial)
  show "lt_moves bounds c start s t \<Longrightarrow> 0 \<le> lt_planned c \<longrightarrow> 0 \<le> ltDuplicateEvery c \<longrightarrow> lt_ok c s \<Longrightarrow>
      0 \<le> lt_planned c \<longrightarrow> 0 \<le> ltDuplicateEvery c \<longrightarrow> lt_ok c t" for s t
    using lt_ok_step by (auto simp: lt_moves_def)
qed

lemma lt_run_ok:
  assumes "lt_validate parse c = Inr u" and "lt_run bounds c start es (lt_initial c) = Some s"
  shows "lt_ok c s"
  using ltb.invariant_reachable [OF refl lt_run_reaches [OF assms(2)]] lt_valid_bounds [OF assms(1)] by simp

section \<open>Properties\<close>

lemma how_many_idle: "list_all (\<lambda>w. w = LtWaiting) ws \<Longrightarrow> \<not> P LtWaiting \<Longrightarrow> how_many P ws = 0"
  by (induction ws) simp_all

text \<open>C40. When a run of the load generator is over, every planned slot is in its report exactly once: dispatched, skipped for a reason, or never
  scheduled. Every dispatched vote is confirmed, unknown or rejected, once; a confirmed one has a confirming response. The attempts that were sent stay
  within the bound that the validation computed, each vote had at least one, and every attempt has its value in the latency reports.\<close>

theorem loadtest_accounted:
  assumes "lt_validate parse c = Inr u" and "loadtest_run bounds rank c start events interrupted = Some r"
  shows "lrPlanned r = lt_planned c \<and> lrPlanned r = lrNotScheduled r + lrDispatched r + lrSkipped r \<and>
    lrScheduled r = lrEnqueued r + count_at ''queue_full'' (lrSkippedByReason r) + count_at ''scheduler_lag'' (lrSkippedByReason r) \<and>
    lrEnqueued r = lrDispatched r + count_at ''cancelled'' (lrSkippedByReason r) + count_at ''worker_lag'' (lrSkippedByReason r) +
      count_at ''token_generation'' (lrSkippedByReason r) \<and>
    lrDispatched r = lrConfirmed r + lrUnknown r + lrRejected r \<and> lrConfirmed r \<le> lrAccepted201 r + lrDuplicate200 r \<and>
    lrDispatched r \<le> lrAttempts r + lrLocalErrors r \<and> lrAttempts r \<le> lt_maxAttempts c \<and>
    lrResponses r = summed (lrStatuses r) \<and> lrCompleteResponses r \<le> lrResponses r \<and> lrResponses r \<le> lrAttempts r \<and>
    lrAttempts r = lrDuringWindow r + lrAfterWindow r \<and> 0 \<le> lrAfterWindow r \<and>
    llCount (lrDispatchLag r) = lrDispatched r \<and> llCount (lrAttemptLatency r) = lrAttempts r \<and>
    llCount (lrAttemptEndToEnd r) = lrAttempts r \<and> llCount (lrLogicalEndToEnd r) = lrDispatched r"
proof -
  from assms(2) obtain s where run: "lt_run bounds c start events (lt_initial c) = Some s" and over: "lt_over c s"
    and r: "r = lt_snapshot bounds rank interrupted (lsMetrics s)"
    by (auto simp: loadtest_run_def split: option.splits if_splits)
  note ok = lt_run_ok [OF assms(1) run]
  have every: "0 \<le> ltDuplicateEvery c" by (rule lt_valid_bounds [OF assms(1)])
  have idle: "list_all (\<lambda>w. w = LtWaiting) (lsWorkers s)" and empty: "lsQueue s = []" using over by (simp_all add: lt_over_def)
  note kinds = how_many_idle [OF idle, of holds_slot] how_many_idle [OF idle, of has_vote] how_many_idle [OF idle, of sends_first]
    how_many_idle [OF idle, of sends_again] how_many_idle [OF idle, of awaits_response] how_many_idle [OF idle, of "may_repeat c"]
    how_many_idle [OF idle, of has_confirmation]
  have next_le: "lsNext s div ltDuplicateEvery c \<le> lt_planned c div ltDuplicateEvery c" "0 \<le> lsNext s" "lsNext s \<le> lt_planned c"
    using ok every by (cases "ltDuplicateEvery c = 0", auto simp: lt_ok_def lt_slots_ok_def Let_def zdiv_mono1)
  have bound: "lt_maxAttempts c = lt_planned c + lt_planned c div ltDuplicateEvery c" using every by (simp add: lt_maxAttempts_def)
  let ?m = "lsMetrics s"
  have slots: "lt_slots_ok c s" and votes: "lt_votes_ok c s" and answers: "lt_answers_ok s" and times: "lt_times_ok ?m"
    using ok by (simp_all add: lt_ok_def)
  note idle_simps = kinds [simplified] empty
  have slot_facts: "mtPlanned ?m = lt_planned c" "mtScheduled ?m = lsNext s" "mtScheduled ?m = mtDispatched ?m + summed (mtSkipped ?m)"
    "mtDispatched ?m \<le> lsNext s"
    using slots idle_simps by (simp_all add: lt_slots_ok_def Let_def)
  have attempts: "mtAttempts ?m \<le> lt_maxAttempts c"
    using votes idle_simps slot_facts(4) next_le bound by (simp add: lt_votes_ok_def Let_def)
  have queue_facts: "mtScheduled ?m = mtEnqueued ?m + count_at ''queue_full'' (mtSkipped ?m) + count_at ''scheduler_lag'' (mtSkipped ?m)"
    "mtEnqueued ?m = mtDispatched ?m + count_at ''cancelled'' (mtSkipped ?m) + count_at ''worker_lag'' (mtSkipped ?m) +
      count_at ''token_generation'' (mtSkipped ?m)"
    using slots idle_simps by (simp_all add: lt_slots_ok_def Let_def skips_of_def)
  have vote_facts: "mtDispatched ?m = mtConfirmed ?m + mtUnknown ?m + mtRejected ?m" "mtDispatched ?m \<le> mtAttempts ?m + mtLocalErrors ?m"
    "mtDuringWindow ?m \<le> mtAttempts ?m"
    using votes idle_simps by (simp_all add: lt_votes_ok_def Let_def)
  have answer_facts: "mtAttempts ?m = lhCount (mtAttemptElapsed ?m)" "mtResponses ?m = summed (mtStatuses ?m)"
    "mtCompleteResponses ?m \<le> mtResponses ?m" "mtResponses ?m \<le> mtAttempts ?m"
    "mtConfirmed ?m \<le> count_at 201 (mtStatuses ?m) + count_at 200 (mtStatuses ?m)"
    using answers idle_simps by (simp_all add: lt_answers_ok_def Let_def)
  have time_facts: "lhCount (mtDispatchLag ?m) = mtDispatched ?m" "lhCount (mtAttemptElapsed ?m) = mtAttempts ?m"
    "lhCount (mtAttemptFromSchedule ?m) = mtAttempts ?m" "lhCount (mtLogicalFromSchedule ?m) = mtDispatched ?m"
    using times answer_facts(1) vote_facts(1) by (simp_all add: lt_times_ok_def)
  have planned: "mtPlanned ?m = mtPlanned ?m - mtScheduled ?m + mtDispatched ?m + summed (mtSkipped ?m)" using slot_facts(3) by simp
  have window: "mtAttempts ?m = mtDuringWindow ?m + (mtAttempts ?m - mtDuringWindow ?m)" "0 \<le> mtAttempts ?m - mtDuringWindow ?m"
    using vote_facts(3) by simp_all
  show ?thesis
    unfolding r lt_snapshot_def lt_latency_report_def lt_report.simps lt_latency.simps
    by (intro conjI) (fact slot_facts planned queue_facts vote_facts answer_facts attempts time_facts window)+
qed

definition demo_lt_config :: lt_config where
  "demo_lt_config = lt_defaults\<lparr>ltPoll := ''00112233-4455-6677-8899-aabbccddeeff'', ltRate := 1, ltDuration := second, ltWorkers := 1, ltDuplicateEvery := 1\<rparr>"

definition demo_lt_url :: target_url where
  "demo_lt_url = \<lparr>tuScheme = ''http'', tuHost = ''127.0.0.1:8080'', tuHostname = ''127.0.0.1'', tuHasUser = False, tuRawQuery = [], tuFragment = [],
     tuOpaque = [], tuPath = ''/'', tuRawPath = []\<rparr>"

text \<open>One slot, sent and deliberately repeated.\<close>

definition demo_lt_events :: "lt_event list" where
  "demo_lt_events = [LtScheduleAt 0, LtTakes 0, LtStarts 0 False 0 True 0, LtSends 0 True 0 False, LtReceives 0 (Some (201, False)) False 1000 False,
     LtSends 0 True 1000 False, LtReceives 0 (Some (200, False)) False 2000 False, LtCloses 0 2000]"

lemma demo_lt_valid: "\<exists>u. lt_validate (\<lambda>_. Some demo_lt_url) demo_lt_config = Inr u"
proof -
  have "\<not> isl (lt_validate (\<lambda>_. Some demo_lt_url) demo_lt_config)" by code_simp
  then show ?thesis by (cases "lt_validate (\<lambda>_. Some demo_lt_url) demo_lt_config") simp_all
qed

lemma demo_lt_over: "case lt_run (\<lambda>_. 0) demo_lt_config 0 demo_lt_events (lt_initial demo_lt_config) of None \<Rightarrow> False
    | Some s \<Rightarrow> lt_over demo_lt_config s \<and> mtAttempts (lsMetrics s) = 2 \<and> mtConfirmed (lsMetrics s) = 1"
  by (simp add: demo_lt_events_def demo_lt_config_def lt_defaults_def lt_initial_def lt_step_def lt_turn_def Let_def lt_planned_def
      slotsBefore_def slotOffset_def wrap64_def signed_take_bit_int_eq_self time_sub_def lt_put_def lt_starts_def lt_sends_def lt_receives_def
      lt_after_def lt_over_def newMetrics_def lt_metrics_defs)

lemma loadtest_accounted_witness:
  "\<exists>r. loadtest_run (\<lambda>_. 0) (\<lambda>n q. 1) demo_lt_config 0 demo_lt_events False = Some r \<and> lrAttempts r = 2 \<and> lrConfirmed r = 1 \<and>
     lrConfirmed r \<le> lrAccepted201 r + lrDuplicate200 r"
proof -
  obtain u where u: "lt_validate (\<lambda>_. Some demo_lt_url) demo_lt_config = Inr u" using demo_lt_valid by blast
  obtain r where run: "loadtest_run (\<lambda>_. 0) (\<lambda>n q. 1) demo_lt_config 0 demo_lt_events False = Some r" and r: "lrAttempts r = 2" "lrConfirmed r = 1"
    using demo_lt_over by (auto simp: loadtest_run_def lt_snapshot_def split: option.splits)
  from loadtest_accounted [OF u run] run r show ?thesis by blast
qed

end
