(* ===== verification/Spec2Isabelle.thy ===== *)
theory Spec2Isabelle
  imports Votecore_Props Poll Filelog_Store_Props Votelog_Store_Props Votelog_Open Http_Auth_Props Http_Server_Props Config Pg_Store_Props Pg_Votes_Props Corebench
    Logbench_Audit_Props Logbench_Ledger_Props Logbench_Workload_Props Frame_Bound Storagebench_Execute_Props Loadtest_Props
begin

text \<open>
  A verification library for the voting service gigaquizz, a Go program in which voters answer one poll at a time, under very high load, and every
  token counts once.

  \<^bold>\<open>The program.\<close> \<^verbatim>\<open>internal/poll\<close> is the domain: polls, receipts, results, and the interface of a repository. \<^verbatim>\<open>internal/postgres\<close>
  implements that interface on PostgreSQL, whose functions \<^verbatim>\<open>record_vote\<close> and \<^verbatim>\<open>finalize_poll\<close> decide about votes, and which, with a policy of
  standbys, confirms nothing before the log has reached them. \<^verbatim>\<open>internal/httpapi\<close> is the HTTP server on top of a repository, with administrator
  sessions; \<^verbatim>\<open>internal/config\<close> reads its settings. Three other stores of votes are measured against it: \<^verbatim>\<open>internal/votecore\<close>, a
  bounded engine in memory; \<^verbatim>\<open>internal/filelog\<close>, a journal in a local file; and \<^verbatim>\<open>internal/votelog\<close>, a journal in Kafka partitions. Each
  program in \<^verbatim>\<open>cmd\<close> with \<^verbatim>\<open>bench\<close> in its name loads one of the stores, keeps a private ledger of what it was told, and audits the store
  against it at the end; \<^verbatim>\<open>cmd/loadtest\<close> loads the HTTP server.

  \<^bold>\<open>The library.\<close> A theory without a suffix holds the definitions of a component, in the order of the code; \<open>_Wire\<close> holds the bytes of a
  format, \<open>_Inv\<close>, \<open>_Run\<close>, \<open>_Steps\<close>, \<open>_Safe\<close>, \<open>_Reach\<close> and \<open>_Keys\<close> invariants, and \<open>_Props\<close> the properties with their witnesses.

    \<^item> \<open>Gq_Prelude\<close>: clock values, Go integers, buffers, and the locales \<open>transition_system\<close> (an invariant of every reachable state) and
      \<open>monotone_steps\<close> (a relation along every run). \<open>Go_Bytes\<close>, \<open>Go_Crypto\<close>, \<open>Go_Net\<close>, \<open>Go_Strings\<close>: what the program uses of Go's
      standard library, computed: byte orders, CRC-32C and SHA-256, addresses, string functions; with the locales \<open>fixed_codec\<close> (a codec of fixed
      width reads back what it wrote, and sequences of it) and \<open>burst_checksum\<close>. \<open>Ballot\<close>: the locale \<open>ballot_box\<close>, the contract of a vote store.
    \<^item> \<open>Votecore\<close> (\<^verbatim>\<open>votecore/engine.go\<close>): shards as association lists. \<open>Votecore_Run\<close> has the submitters and one sealer as interleaved
      critical sections, and interprets \<open>ballot_box\<close>.
    \<^item> \<open>Poll\<close> (\<^verbatim>\<open>poll/poll.go\<close>), \<open>Config\<close> (\<^verbatim>\<open>config/config.go\<close>).
    \<^item> \<open>Filelog_Codec\<close> (\<^verbatim>\<open>types.go\<close>, \<^verbatim>\<open>codec.go\<close>), \<open>Filelog_Scan\<close> (\<^verbatim>\<open>scan.go\<close>), \<open>Filelog_Store\<close> (\<^verbatim>\<open>store.go\<close>,
      \<^verbatim>\<open>sync_*.go\<close>). \<open>Filelog_Journal\<close> and \<open>Filelog_Scans\<close> say for which bytes a scan succeeds and what it shows; \<open>Filelog_Store_Inv\<close> relates the
      answers of the live journal to the bytes that were synced.
    \<^item> \<open>Votelog_Codec\<close> (\<^verbatim>\<open>types.go\<close>, \<^verbatim>\<open>frame.go\<close>), \<open>Votelog_Frames\<close>, \<open>Votelog_Audit\<close> (\<^verbatim>\<open>audit.go\<close>), \<open>Votelog_Store\<close> (\<^verbatim>\<open>store.go\<close>,
      \<^verbatim>\<open>frame_submit.go\<close>), \<open>Votelog_Open\<close> (topic creation and \<^verbatim>\<open>http.go\<close>). \<open>Votelog_Replay\<close> recovers the grammar of an accepted journal;
      the audit interprets \<open>ballot_box\<close>.
    \<^item> \<open>Pg_Votes\<close> (\<^verbatim>\<open>migrations/001_initial.sql\<close>, and \<^verbatim>\<open>Create\<close> of \<^verbatim>\<open>store.go\<close>): the functions of the database as interleaved
      transactions, a step for each statement. \<open>Pg_Durability\<close> (\<^verbatim>\<open>durability.go\<close>): the policy and the loop that proves a position durable.
      \<open>Pg_Store\<close> (\<^verbatim>\<open>store.go\<close>): the operations of the repository around the answers of the database.
    \<^item> \<open>Http_Auth\<close> (\<^verbatim>\<open>auth.go\<close>) and \<open>Http_Server\<close> (\<^verbatim>\<open>server.go\<close>): every handler as an entry and an exit around its semaphore.
    \<^item> \<open>Bench_Measure\<close> and \<open>Bench_Counts\<close>: histograms, bitmaps, slots and counts that the benchmarks share. \<open>Corebench\<close> (\<^verbatim>\<open>cmd/corebench\<close>);
      \<open>Logbench_Audit\<close>, \<open>Logbench_Ledger\<close>, \<open>Logbench_Workload\<close> (\<^verbatim>\<open>cmd/logbench\<close>); \<open>Frame_Audit\<close>, \<open>Frame_Workload\<close>, \<open>Frame_Ledger\<close>,
      \<open>Frame_Bound\<close> (\<^verbatim>\<open>cmd/filebench\<close> and \<^verbatim>\<open>cmd/framebench\<close>, whose common code is modelled once); \<open>Storagebench\<close>, \<open>Storagebench_Audit\<close>,
      \<open>Storagebench_Execute\<close> (\<^verbatim>\<open>cmd/storagebench\<close>); \<open>Loadtest\<close> (\<^verbatim>\<open>cmd/loadtest\<close>).

  \<^bold>\<open>State and operations.\<close> A Go struct is a record with a prefix for its fields, an enumeration or an event a datatype, an error a value of a sum or
  option type. Machine words are words where they wrap (\<open>u8\<close> to \<open>u64\<close>, \<open>wrap64\<close> for signed arithmetic); a counter that the limits of the configuration
  keep small is an \<open>int\<close> or a \<open>nat\<close>. A sequential function returns the new state. Where goroutines or transactions meet, each critical section, each
  statement and each system call is one step of a relation, or of an executable step function over events, and the theorems hold for every interleaving.

  \<^bold>\<open>What is shown.\<close> For the stores: a token counts once; an acknowledgement survives (a crash, a seal, an audit); a final result is exact and
  never changes; what was written is read back, and no other bytes are accepted; queues stay bounded and a stopping writer ends. For the repository and
  the server: nothing is confirmed before it is durable, \<^verbatim>\<open>closed\<close> is definitive, a request passes only with a live session, every vote attempt is
  counted once. For the benchmarks: a run that reports success has established what its report says; the accounts of a run lose and invent nothing;
  a ledger is read back as it was saved.

  \<^bold>\<open>Loops and bounds.\<close> Loops are recursive functions that terminate, over the list of what the environment answers where the code waits for it: when those
  answers end before the loop does, the result is \<open>None\<close>, the code is still waiting. The proof of durability has its deadline in that list
  (\<open>pg_durability_returns\<close>). Bounded loops of the code (shards, partitions, bins of a histogram) keep their bounds; no other fuel is used.

  \<^bold>\<open>What the model leaves out or assumes.\<close>
    \<^item> The clock is a number of nanoseconds: the monotonic reading of a Go clock value is dropped, and times are taken to be in the range of \<^verbatim>\<open>UnixNano\<close>.
      Durations that are only reported, means and rates in floating point, and texts for people are left out; the floating-point tokens of the
      login limiter are exact billionths.
    \<^item> Code outside the repository is an argument: JSON, URL and media type decoding, UUID parsing, AES, \<^verbatim>\<open>hashtext\<close>, the HTTP client, the Kafka
      client (a transaction whose commit call failed may or may not be in the log), system calls (a write reports how many bytes it has written) and
      the answers of PostgreSQL. Of PostgreSQL the model uses what its manual says of READ COMMITTED statements, advisory locks, unique keys and
      repeatable-read snapshots.
    \<^item> \<open>vc_step\<close> has one sealer at a time, which the mutex of the code enforces. The workers of the frame benchmarks are run one frame after the other,
      as no two share an attempt. What a failed write of a ledger leaves behind is not modelled.
    \<^item> Not modelled: flag parsing and the printing of reports; the wiring of \<^verbatim>\<open>execute\<close> in \<^verbatim>\<open>corebench\<close>, \<^verbatim>\<open>logbench\<close>, \<^verbatim>\<open>filebench\<close> and
      \<^verbatim>\<open>framebench\<close> (the order of set-up, run, audit and clean-up); \<^verbatim>\<open>cmd/gigaquizz/main.go\<close>, which connects the parts and serves;
      \<^verbatim>\<open>postgres/diagnostics.go\<close> and \<^verbatim>\<open>web/assets.go\<close>; the scripts and pages in other languages.
\<close>

end
